(* ===== verification/Prelude.thy ===== *)
theory Prelude
  imports Main
begin

text \<open>
  Shared vocabulary of the development: the shape of an operation that threads a state and
  may throw, the combinators it is written with, the rules that carry invariants through
  them, and a few list lemmas the component theories share.

  A source function that awaits, mutates and throws is an \<open>action\<close>: it takes the state and
  returns either an error (\<open>Inl\<close>) or a value (\<open>Inr\<close>), together with the state it left.
  The state is returned on both paths: in the sources an exception does not by itself undo
  what was already written; only a transaction does (theory \<open>Database\<close>).
\<close>

named_theorems act_defs \<open>definitions of the action combinators\<close>
named_theorems keeps_intro \<open>rules that carry an invariant through an action\<close>

type_synonym ('s, 'e, 'a) action = "'s \<Rightarrow> ('e + 'a) \<times> 's"

definition ret :: "'a \<Rightarrow> ('s, 'e, 'a) action" where
  [act_defs]: "ret a = (\<lambda>s. (Inr a, s))"

definition throw :: "'e \<Rightarrow> ('s, 'e, 'a) action" where
  [act_defs]: "throw e = (\<lambda>s. (Inl e, s))"

definition and_then ::
  "('s, 'e, 'a) action \<Rightarrow> ('a \<Rightarrow> ('s, 'e, 'b) action) \<Rightarrow> ('s, 'e, 'b) action" where
  [act_defs]: "and_then m f =
     (\<lambda>s. case m s of (Inl e, s') \<Rightarrow> (Inl e, s') | (Inr a, s') \<Rightarrow> f a s')"

definition on_error ::
  "('s, 'e, 'a) action \<Rightarrow> ('e \<Rightarrow> ('s, 'e, 'a) action) \<Rightarrow> ('s, 'e, 'a) action" where
  [act_defs]: "on_error m h =
     (\<lambda>s. case m s of (Inl e, s') \<Rightarrow> h e s' | (Inr a, s') \<Rightarrow> (Inr a, s'))"

definition gets :: "('s \<Rightarrow> 'a) \<Rightarrow> ('s, 'e, 'a) action" where
  [act_defs]: "gets f = (\<lambda>s. (Inr (f s), s))"

definition modify :: "('s \<Rightarrow> 's) \<Rightarrow> ('s, 'e, unit) action" where
  [act_defs]: "modify f = (\<lambda>s. (Inr (), f s))"

definition guard :: "bool \<Rightarrow> 'e \<Rightarrow> ('s, 'e, unit) action" where
  [act_defs]: "guard b e = (if b then ret () else throw e)"

text \<open>A \<open>for (const x of xs)\<close> loop whose body may throw, collecting what the body pushes.\<close>

fun for_each :: "('a \<Rightarrow> ('s, 'e, 'b) action) \<Rightarrow> 'a list \<Rightarrow> ('s, 'e, 'b list) action" where
  "for_each f [] = ret []"
| "for_each f (x # xs) =
     and_then (f x) (\<lambda>y. and_then (for_each f xs) (\<lambda>ys. ret (y # ys)))"

abbreviation outcome :: "('s, 'e, 'a) action \<Rightarrow> 's \<Rightarrow> 'e + 'a" where
  "outcome m s \<equiv> fst (m s)"

abbreviation final :: "('s, 'e, 'a) action \<Rightarrow> 's \<Rightarrow> 's" where
  "final m s \<equiv> snd (m s)"

subsection \<open>Running the combinators\<close>

lemma run_ret [simp]: "ret a s = (Inr a, s)"
  by (simp add: ret_def)

lemma run_throw [simp]: "throw e s = (Inl e, s)"
  by (simp add: throw_def)

lemma run_gets [simp]: "gets f s = (Inr (f s), s)"
  by (simp add: gets_def)

lemma run_modify [simp]: "modify f s = (Inr (), f s)"
  by (simp add: modify_def)

lemma run_guard [simp]: "guard b e s = (if b then Inr () else Inl e, s)"
  by (simp add: guard_def)

lemma run_and_then_ok [simp]: "m s = (Inr a, s') \<Longrightarrow> and_then m f s = f a s'"
  by (simp add: and_then_def)

lemma run_and_then_error [simp]: "m s = (Inl e, s') \<Longrightarrow> and_then m f s = (Inl e, s')"
  by (simp add: and_then_def)

lemma run_on_error_ok [simp]: "m s = (Inr a, s') \<Longrightarrow> on_error m h s = (Inr a, s')"
  by (simp add: on_error_def)

lemma run_on_error_error [simp]: "m s = (Inl e, s') \<Longrightarrow> on_error m h s = h e s'"
  by (simp add: on_error_def)

lemma and_then_ok_iff:
  "and_then m f s = (Inr b, s'') \<longleftrightarrow>
     (\<exists>a s'. m s = (Inr a, s') \<and> f a s' = (Inr b, s''))"
  by (auto simp: and_then_def split: prod.splits sum.splits)

lemma and_then_error_iff:
  "and_then m f s = (Inl e, s'') \<longleftrightarrow>
     m s = (Inl e, s'') \<or> (\<exists>a s'. m s = (Inr a, s') \<and> f a s' = (Inl e, s''))"
  by (auto simp: and_then_def split: prod.splits sum.splits)

lemma and_then_okE [elim]:
  assumes "and_then m f s = (Inr b, s'')"
  obtains a s' where "m s = (Inr a, s')" and "f a s' = (Inr b, s'')"
  using assms by (auto simp: and_then_ok_iff)

subsection \<open>Invariants of actions\<close>

text \<open>
  \<open>keeps P m\<close>: whatever \<open>m\<close> returns or throws, a state with \<open>P\<close> is left in a state
  with \<open>P\<close>.
\<close>

definition keeps :: "('s \<Rightarrow> bool) \<Rightarrow> ('s, 'e, 'a) action \<Rightarrow> bool" where
  "keeps P m \<longleftrightarrow> (\<forall>s. P s \<longrightarrow> P (snd (m s)))"

lemma keepsI [intro?]: "(\<And>s. P s \<Longrightarrow> P (snd (m s))) \<Longrightarrow> keeps P m"
  by (simp add: keeps_def)

lemma keepsD: "keeps P m \<Longrightarrow> P s \<Longrightarrow> P (snd (m s))"
  by (simp add: keeps_def)

lemma keepsD': "keeps P m \<Longrightarrow> P s \<Longrightarrow> m s = (r, s') \<Longrightarrow> P s'"
  by (auto simp: keeps_def dest: spec [of _ s])

lemma keeps_ret [keeps_intro]: "keeps P (ret a)"
  by (simp add: keeps_def)

lemma keeps_throw [keeps_intro]: "keeps P (throw e)"
  by (simp add: keeps_def)

lemma keeps_gets [keeps_intro]: "keeps P (gets f)"
  by (simp add: keeps_def)

lemma keeps_guard [keeps_intro]: "keeps P (guard b e)"
  by (simp add: keeps_def)

lemma keeps_and_then [keeps_intro]:
  assumes "keeps P m" and "\<And>a. keeps P (f a)"
  shows "keeps P (and_then m f)"
  using assms by (fastforce simp: keeps_def and_then_def split: prod.splits sum.splits)

lemma keeps_on_error [keeps_intro]:
  assumes "keeps P m" and "\<And>e. keeps P (h e)"
  shows "keeps P (on_error m h)"
  using assms by (fastforce simp: keeps_def on_error_def split: prod.splits sum.splits)

lemma keeps_if [keeps_intro]:
  "(b \<Longrightarrow> keeps P m) \<Longrightarrow> (\<not> b \<Longrightarrow> keeps P n) \<Longrightarrow> keeps P (if b then m else n)"
  by simp

lemma keeps_case_option [keeps_intro]:
  "(x = None \<Longrightarrow> keeps P m) \<Longrightarrow> (\<And>a. x = Some a \<Longrightarrow> keeps P (f a))
    \<Longrightarrow> keeps P (case x of None \<Rightarrow> m | Some a \<Rightarrow> f a)"
  by (cases x) simp_all

lemma keeps_for_each [keeps_intro]:
  "(\<And>x. keeps P (f x)) \<Longrightarrow> keeps P (for_each f xs)"
  by (induction xs) (auto intro!: keeps_intro)

text \<open>An action that keeps every invariant leaves the state alone.\<close>

lemma keeps_all_final: "(\<And>P. keeps P m) \<Longrightarrow> snd (m s) = s"
  by (rule keepsD [of "\<lambda>t. t = s"]) simp_all

lemma keeps_all_run: "(\<And>P. keeps P m) \<Longrightarrow> m s = (fst (m s), s)"
  using keeps_all_final [of m s] by (metis prod.collapse)

lemma for_each_ConsE:
  assumes "for_each f (x # xs) s = (Inr ys, s')"
  obtains y s1 ys' where "f x s = (Inr y, s1)" and "for_each f xs s1 = (Inr ys', s')" and "ys = y # ys'"
  using assms by (auto simp: and_then_ok_iff)

lemma guard_okE:
  assumes "guard b e s = (Inr u, s')"
  obtains "b" and "s' = s"
  using assms by (auto split: if_splits)

lemma ret_okE:
  assumes "ret a s = (Inr b, s')"
  obtains "b = a" and "s' = s"
  using assms by simp

lemma and_then_retE:
  assumes "and_then m (\<lambda>a. ret (g a)) s = (Inr b, s')"
  obtains a where "m s = (Inr a, s')" and "b = g a"
  using assms by (auto simp: and_then_ok_iff)

lemma for_each_ret: "(\<And>x. x \<in> set xs \<Longrightarrow> f x s = (Inr (g x), s)) \<Longrightarrow> for_each f xs s = (Inr (map g xs), s)"
  by (induction xs) (auto simp: and_then_def)

subsection \<open>Options\<close>

declare option.pred_inject [code]

subsection \<open>Lists\<close>

lemma find_None_filter: "find P xs = None \<longleftrightarrow> filter P xs = []"
  by (induction xs) auto

lemma find_Some_in: "find P xs = Some x \<Longrightarrow> x \<in> set xs \<and> P x"
  by (induction xs) (auto split: if_splits)

lemma find_append: "find P (xs @ ys) = (case find P xs of None \<Rightarrow> find P ys | Some x \<Rightarrow> Some x)"
  by (induction xs) auto

lemma list_all2_right: "list_all2 P xs ys \<Longrightarrow> y \<in> set ys \<Longrightarrow> \<exists>x \<in> set xs. P x y"
  by (induction rule: list_all2_induct) auto

lemma find_unique:
  assumes "x \<in> set xs" and "P x" and "\<And>y. y \<in> set xs \<Longrightarrow> P y \<Longrightarrow> y = x"
  shows "find P xs = Some x"
proof (cases "find P xs")
  case None
  with assms(1,2) show ?thesis by (simp add: find_None_iff)
next
  case (Some y)
  then have "y = x" using find_Some_in [OF Some] assms(3) by blast
  with Some show ?thesis by simp
qed

lemma find_key:
  "distinct (map k xs) \<Longrightarrow> x \<in> set xs \<Longrightarrow> find (\<lambda>y. k y = k x) xs = Some x"
  by (rule find_unique) (auto simp: distinct_map inj_on_def)

lemma key_eq: "distinct (map k xs) \<Longrightarrow> x \<in> set xs \<Longrightarrow> y \<in> set xs \<Longrightarrow> k x = k y \<Longrightarrow> x = y"
  by (simp add: distinct_map inj_on_def)

lemma filter_key: "distinct (map k xs) \<Longrightarrow> x \<in> set xs \<Longrightarrow> filter (\<lambda>y. k y = k x) xs = [x]"
proof (induction xs)
  case (Cons a xs)
  show ?case
  proof (cases "x = a")
    case True
    then have "k x \<notin> k ` set xs" using Cons.prems by simp
    then have "filter (\<lambda>y. k y = k x) xs = []" unfolding filter_empty_conv by (metis imageI)
    then show ?thesis using True by simp
  next
    case False
    then show ?thesis using Cons by auto
  qed
qed simp

end
