(* ===== verification/JsValues.thy ===== *)
theory JsValues
  imports Prelude Complex_Main
begin

text \<open>
  The JavaScript values the services convert between: numbers as \<open>Number(text)\<close> produces them,
  and the decimal text \<open>String(n)\<close> gives back for an integer.

  A JavaScript string is represented by its UTF-8 bytes (an Isabelle \<open>string\<close>). Numbers are
  exact rationals with the three non-finite values; the rounding of a literal of more than 53
  bits to the nearest double is not modelled. White space that \<open>Number\<close> strips is the ASCII
  part of the language's list.
\<close>

subsection \<open>Decimal text of an integer\<close>

definition digit_char :: "nat \<Rightarrow> char" where
  "digit_char d = char_of (48 + d)"

fun show_nat :: "nat \<Rightarrow> string" where
  "show_nat n =
     (if n < 10 then [digit_char n] else show_nat (n div 10) @ [digit_char (n mod 10)])"

declare show_nat.simps [simp del]

definition show_int :: "int \<Rightarrow> string" where
  "show_int n = (if n < 0 then CHR ''-'' # show_nat (nat (- n)) else show_nat (nat n))"

definition is_digit :: "char \<Rightarrow> bool" where
  "is_digit c \<longleftrightarrow> 48 \<le> (of_char c :: nat) \<and> (of_char c :: nat) \<le> 57"

definition digit_val :: "char \<Rightarrow> nat" where
  "digit_val c = of_char c - 48"

definition digits_val :: "string \<Rightarrow> nat" where
  "digits_val s = foldl (\<lambda>a c. 10 * a + digit_val c) 0 s"

subsection \<open>\<open>Number(text)\<close>\<close>

datatype jsnum = NaN | PosInf | NegInf | Num rat

definition is_space :: "char \<Rightarrow> bool" where
  "is_space c \<longleftrightarrow> of_char c \<in> ({9, 10, 11, 12, 13, 32} :: nat set)"

definition trim :: "string \<Rightarrow> string" where
  "trim s = rev (dropWhile is_space (rev (dropWhile is_space s)))"

text \<open>The optional exponent of a decimal literal: \<open>None\<close> where the text is malformed.\<close>

definition exponent_of :: "string \<Rightarrow> int option" where
  "exponent_of s =
     (if s = [] then Some 0
      else if hd s = CHR ''e'' \<or> hd s = CHR ''E'' then
        (let t = tl s;
             neg = (t \<noteq> [] \<and> hd t = CHR ''-'');
             ds = (if t \<noteq> [] \<and> (hd t = CHR ''-'' \<or> hd t = CHR ''+'') then tl t else t)
         in if ds \<noteq> [] \<and> list_all is_digit ds
            then Some (if neg then - int (digits_val ds) else int (digits_val ds))
            else None)
      else None)"

definition ten_to :: "int \<Rightarrow> rat" where
  "ten_to e = (if 0 \<le> e then 10 ^ nat e else 1 / 10 ^ nat (- e))"

definition unsigned_decimal :: "string \<Rightarrow> jsnum" where
  "unsigned_decimal s =
     (let ip = takeWhile is_digit s; r = dropWhile is_digit s;
          dot = (r \<noteq> [] \<and> hd r = CHR ''.'');
          fp = (if dot then takeWhile is_digit (tl r) else []);
          r' = (if dot then dropWhile is_digit (tl r) else r)
      in if ip = [] \<and> fp = [] then NaN
         else case exponent_of r' of
             None \<Rightarrow> NaN
           | Some e \<Rightarrow> Num (of_nat (digits_val (ip @ fp)) * ten_to (e - int (length fp))))"

definition radix_digit :: "nat \<Rightarrow> char \<Rightarrow> nat option" where
  "radix_digit b c =
     (let n = of_char c :: nat;
          v = (if 48 \<le> n \<and> n \<le> 57 then n - 48
               else if 97 \<le> n \<and> n \<le> 102 then n - 87
               else if 65 \<le> n \<and> n \<le> 70 then n - 55 else 16)
      in if v < b then Some v else None)"

fun radix_val :: "nat \<Rightarrow> nat \<Rightarrow> string \<Rightarrow> nat option" where
  "radix_val b acc [] = Some acc"
| "radix_val b acc (c # cs) =
     (case radix_digit b c of None \<Rightarrow> None | Some d \<Rightarrow> radix_val b (b * acc + d) cs)"

definition radix_literal :: "nat \<Rightarrow> string \<Rightarrow> jsnum" where
  "radix_literal b s =
     (if s = [] then NaN
      else case radix_val b 0 s of None \<Rightarrow> NaN | Some n \<Rightarrow> Num (of_nat n))"

fun neg_num :: "jsnum \<Rightarrow> jsnum" where
  "neg_num NaN = NaN"
| "neg_num PosInf = NegInf"
| "neg_num NegInf = PosInf"
| "neg_num (Num q) = Num (- q)"

definition signed_decimal :: "string \<Rightarrow> jsnum" where
  "signed_decimal s = (if s = ''Infinity'' then PosInf else unsigned_decimal s)"

definition radix_prefix :: "string \<Rightarrow> nat option" where
  "radix_prefix s =
     (let p = take 2 s
      in if p = ''0x'' \<or> p = ''0X'' then Some 16
         else if p = ''0o'' \<or> p = ''0O'' then Some 8
         else if p = ''0b'' \<or> p = ''0B'' then Some 2
         else None)"

definition js_Number :: "string \<Rightarrow> jsnum" where
  "js_Number text =
     (let s = trim text
      in if s = [] then Num 0
         else case radix_prefix s of
             Some b \<Rightarrow> radix_literal b (drop 2 s)
           | None \<Rightarrow>
               if hd s = CHR ''-'' then neg_num (signed_decimal (tl s))
               else if hd s = CHR ''+'' then signed_decimal (tl s)
               else signed_decimal s)"

text \<open>\<open>Number.isInteger\<close>, \<open>Number.isNaN\<close>, and the integer a number stands for.\<close>

fun int_of_num :: "jsnum \<Rightarrow> int option" where
  "int_of_num (Num q) = (if of_int \<lfloor>q\<rfloor> = q then Some \<lfloor>q\<rfloor> else None)"
| "int_of_num _ = None"

definition is_integer :: "jsnum \<Rightarrow> bool" where
  "is_integer x \<longleftrightarrow> int_of_num x \<noteq> None"

subsection \<open>\<open>Number(String(n)) = n\<close>\<close>

lemma of_char_digit [simp]: "d < 10 \<Longrightarrow> (of_char (digit_char d) :: nat) = 48 + d"
  by (simp add: digit_char_def)

lemma is_digit_digit [simp]: "d < 10 \<Longrightarrow> is_digit (digit_char d)"
  by (simp add: is_digit_def)

lemma digit_val_digit [simp]: "d < 10 \<Longrightarrow> digit_val (digit_char d) = d"
  by (simp add: digit_val_def)

lemma digits_val_Nil [simp]: "digits_val [] = 0"
  by (simp add: digits_val_def)

lemma digits_val_snoc [simp]: "digits_val (s @ [c]) = 10 * digits_val s + digit_val c"
  by (simp add: digits_val_def)

lemma show_nat_nonempty [simp]: "show_nat n \<noteq> []"
  by (subst show_nat.simps) simp

lemma show_nat_digits: "list_all is_digit (show_nat n)"
proof (induction n rule: show_nat.induct)
  case (1 n)
  then show ?case by (subst show_nat.simps) simp
qed

lemma digits_val_show_nat [simp]: "digits_val (show_nat n) = n"
proof (induction n rule: show_nat.induct)
  case (1 n)
  show ?case
  proof (cases "n < 10")
    case True
    then show ?thesis using digits_val_snoc [of "[]"] by (subst show_nat.simps) simp
  next
    case False
    with 1 show ?thesis by (subst show_nat.simps) simp
  qed
qed

lemma show_nat_inj: "show_nat m = show_nat n \<longleftrightarrow> m = n"
  by (metis digits_val_show_nat)

lemma digit_not_space: "is_digit c \<Longrightarrow> \<not> is_space c"
  by (auto simp: is_digit_def is_space_def)

lemma digit_not_letter:
  "is_digit c \<Longrightarrow> c \<noteq> CHR ''-'' \<and> c \<noteq> CHR ''+'' \<and> c \<noteq> CHR ''I'' \<and> c \<noteq> CHR ''x'' \<and> c \<noteq> CHR ''X''
     \<and> c \<noteq> CHR ''o'' \<and> c \<noteq> CHR ''O'' \<and> c \<noteq> CHR ''b'' \<and> c \<noteq> CHR ''B'' \<and> c \<noteq> CHR ''.''
     \<and> c \<noteq> CHR '','' \<and> c \<noteq> CHR '']'' \<and> c \<noteq> CHR ''}'' \<and> c \<noteq> CHR '':'' \<and> c \<noteq> CHR ''e'' \<and> c \<noteq> CHR ''E''"
  by (auto simp: is_digit_def)

lemma trim_digits:
  assumes all: "list_all is_digit s"
  shows "trim s = s"
proof (cases "s = []")
  case False
  then have "\<not> is_space (hd s)" "\<not> is_space (hd (rev s))"
    using all by (auto simp: list_all_iff digit_not_space hd_rev)
  then have "dropWhile is_space s = s" "dropWhile is_space (rev s) = rev s"
    using False by (auto simp: dropWhile_eq_self_iff)
  then show ?thesis by (simp add: trim_def)
qed (simp add: trim_def)

lemma unsigned_decimal_digits:
  assumes "list_all is_digit s" "s \<noteq> []"
  shows "unsigned_decimal s = Num (of_nat (digits_val s))"
proof -
  have tw: "takeWhile is_digit s = s" and dw: "dropWhile is_digit s = []"
    using assms by (auto simp: list_all_iff)
  show ?thesis
    using assms by (simp add: unsigned_decimal_def exponent_of_def ten_to_def Let_def tw dw)
qed

lemma signed_decimal_digits:
  assumes "list_all is_digit s" "s \<noteq> []"
  shows "signed_decimal s = Num (of_nat (digits_val s))"
proof -
  have "s \<noteq> ''Infinity''"
    using assms digit_not_letter [of "hd s"] by (cases s) auto
  then show ?thesis using unsigned_decimal_digits [OF assms] by (simp add: signed_decimal_def)
qed

lemma radix_prefix_digits:
  assumes "list_all is_digit s"
  shows "radix_prefix s = None"
proof (cases "2 \<le> length s")
  case True
  then have "is_digit (take 2 s ! 1)"
    using assms by (simp add: list_all_length)
  then have "take 2 s \<noteq> [CHR ''0'', c]" if "\<not> is_digit c" for c
    using that by (metis One_nat_def nth_Cons_0 nth_Cons_Suc)
  then show ?thesis by (simp add: radix_prefix_def Let_def is_digit_def)
next
  case False
  then have "length (take 2 s) < 2" by simp
  then have "take 2 s \<noteq> [c, d]" for c d
    by (metis length_Cons less_irrefl list.size(3) numeral_2_eq_2)
  then show ?thesis by (simp add: radix_prefix_def Let_def)
qed

lemma js_Number_digits:
  assumes "list_all is_digit s" "s \<noteq> []"
  shows "js_Number s = Num (of_nat (digits_val s))"
proof -
  have "hd s \<noteq> CHR ''-''" "hd s \<noteq> CHR ''+''"
    using assms digit_not_letter [of "hd s"] by (cases s; simp)+
  then show ?thesis
    using assms
    by (simp add: js_Number_def Let_def trim_digits radix_prefix_digits signed_decimal_digits)
qed

lemma js_Number_show_nat [simp]: "js_Number (show_nat n) = Num (of_nat n)"
  by (simp add: js_Number_digits show_nat_digits)

lemma js_Number_show_int [simp]: "0 \<le> n \<Longrightarrow> js_Number (show_int n) = Num (of_int n)"
  by (simp add: show_int_def)

lemma int_of_num_of_int [simp]: "int_of_num (Num (of_int n)) = Some n"
  by simp

lemma show_int_inj: "show_int m = show_int n \<longleftrightarrow> m = n"
proof
  have nominus: "show_nat k \<noteq> CHR ''-'' # t" for t k
    using show_nat_digits [of k] by (auto simp: is_digit_def)
  assume "show_int m = show_int n"
  then show "m = n"
    using nominus nominus [symmetric]
    by (auto simp: show_int_def show_nat_inj split: if_splits)
qed simp

end
