(* ===== verification/Json.thy ===== *)
theory Json
  imports JsValues
begin

text \<open>
  \<open>JSON.stringify\<close> and \<open>JSON.parse\<close>, as the cursors, the cached cards, the sessions, the
  request hash and the message bodies use them. Object members keep their order and may repeat;
  reading a member takes the last one, as a parsed JavaScript object does.

  Texts are UTF-8 bytes. Stringifying writes integers in decimal; a fraction is cut after 17
  digits. The parser is a recursive descent with fuel: every nested call and every further
  element consumes a byte of the text, so \<open>2 * length + 2\<close> is enough (\<open>json_parse_text\<close>
  shows it for every text \<open>json_text\<close> writes).
\<close>

datatype json =
    JNull
  | JBool bool
  | JNumber jsnum
  | JString string
  | JArray "json list"
  | JObject "(string \<times> json) list"

subsection \<open>\<open>JSON.stringify\<close>\<close>

definition hex_char :: "nat \<Rightarrow> char" where
  "hex_char d = (if d < 10 then char_of (48 + d) else char_of (87 + d))"

definition escape_char :: "char \<Rightarrow> string" where
  "escape_char c =
     (let n = of_char c :: nat in
      if n = 34 \<or> n = 92 then [char_of (92::nat), c]
      else if n = 8 then [char_of (92::nat), CHR ''b'']
      else if n = 9 then [char_of (92::nat), CHR ''t'']
      else if n = 10 then [char_of (92::nat), CHR ''n'']
      else if n = 12 then [char_of (92::nat), CHR ''f'']
      else if n = 13 then [char_of (92::nat), CHR ''r'']
      else if n < 32 then [char_of (92::nat), CHR ''u'', CHR ''0'', CHR ''0'', hex_char (n div 16), hex_char (n mod 16)]
      else [c])"

definition quote :: char where
  "quote = char_of (34::nat)"

definition backslash :: char where
  "backslash = char_of (92::nat)"

definition quoted :: "string \<Rightarrow> string" where
  "quoted s = quote # concat (map escape_char s) @ [quote]"

fun frac_digits :: "nat \<Rightarrow> rat \<Rightarrow> string" where
  "frac_digits 0 q = []"
| "frac_digits (Suc k) q =
     (if q = 0 then [] else digit_char (nat \<lfloor>10 * q\<rfloor>) # frac_digits k (10 * q - of_int \<lfloor>10 * q\<rfloor>))"

fun number_text :: "jsnum \<Rightarrow> string" where
  "number_text (Num q) =
     (if of_int \<lfloor>q\<rfloor> = q then show_int \<lfloor>q\<rfloor>
      else (if q < 0 then ''-'' else '''') @ show_int \<lfloor>\<bar>q\<bar>\<rfloor> @ ''.''
           @ frac_digits 17 (\<bar>q\<bar> - of_int \<lfloor>\<bar>q\<bar>\<rfloor>))"
| "number_text _ = ''null''"

fun json_text :: "json \<Rightarrow> string"
  and elems_text :: "json list \<Rightarrow> string"
  and members_text :: "(string \<times> json) list \<Rightarrow> string" where
  "json_text JNull = ''null''"
| "json_text (JBool b) = (if b then ''true'' else ''false'')"
| "json_text (JNumber x) = number_text x"
| "json_text (JString s) = quoted s"
| "json_text (JArray vs) = CHR ''['' # elems_text vs @ '']''"
| "json_text (JObject ms) = CHR ''{'' # members_text ms @ ''}''"
| "elems_text [] = []"
| "elems_text (v # vs) = json_text v @ (if vs = [] then [] else CHR '','' # elems_text vs)"
| "members_text [] = []"
| "members_text ((k, v) # ms) =
     quoted k @ CHR '':'' # json_text v @ (if ms = [] then [] else CHR '','' # members_text ms)"

subsection \<open>\<open>JSON.parse\<close>\<close>

definition skip_ws :: "string \<Rightarrow> string" where
  "skip_ws s = dropWhile (\<lambda>c. of_char c \<in> ({9, 10, 13, 32} :: nat set)) s"

definition hex4 :: "string \<Rightarrow> nat option" where
  "hex4 s = (if length s < 4 then None else radix_val 16 0 (take 4 s))"

definition utf8 :: "nat \<Rightarrow> string" where
  "utf8 n =
     (if n < 128 then [char_of n]
      else if n < 2048 then [char_of (192 + n div 64), char_of (128 + n mod 64)]
      else if n < 65536 then
        [char_of (224 + n div 4096), char_of (128 + n div 64 mod 64), char_of (128 + n mod 64)]
      else [char_of (240 + n div 262144), char_of (128 + n div 4096 mod 64),
            char_of (128 + n div 64 mod 64), char_of (128 + n mod 64)])"

definition simple_escape :: "char \<Rightarrow> char option" where
  "simple_escape c =
     (let n = of_char c :: nat in
      if n = 34 \<or> n = 92 \<or> n = 47 then Some c
      else if c = CHR ''b'' then Some (char_of (8::nat))
      else if c = CHR ''t'' then Some (char_of (9::nat))
      else if c = CHR ''n'' then Some (char_of (10::nat))
      else if c = CHR ''f'' then Some (char_of (12::nat))
      else if c = CHR ''r'' then Some (char_of (13::nat))
      else None)"

text \<open>
  The code point of a \<open>\u\<close> escape whose digits start the text, with the number of bytes it
  takes: a high surrogate followed by the escape of a low one stands for one code point (ten
  bytes); a surrogate on its own becomes U+FFFD, as it does when the text is written as UTF-8.
\<close>

definition unicode_escape :: "string \<Rightarrow> (nat \<times> nat) option" where
  "unicode_escape s =
     (case hex4 s of
        None \<Rightarrow> None
      | Some n \<Rightarrow>
          if 55296 \<le> n \<and> n < 56320 then
            (if take 2 (drop 4 s) = [backslash, CHR ''u''] then
               (case hex4 (drop 6 s) of
                  Some m \<Rightarrow> if 56320 \<le> m \<and> m < 57344
                           then Some (65536 + (n - 55296) * 1024 + (m - 56320), 10)
                           else Some (65533, 4)
                | None \<Rightarrow> Some (65533, 4))
             else Some (65533, 4))
          else if 56320 \<le> n \<and> n < 57344 then Some (65533, 4)
          else Some (n, 4))"

text \<open>The body of a string literal, up to and including its closing quote.\<close>

function parse_chars :: "string \<Rightarrow> (string \<times> string) option" where
  "parse_chars s =
     (if s = [] then None
      else let c = hd s; t = tl s in
        if c = quote then Some ([], t)
        else if c = backslash then
          (if t = [] then None
           else if hd t = CHR ''u'' then
             (case unicode_escape (tl t) of
                None \<Rightarrow> None
              | Some (n, k) \<Rightarrow> map_option (\<lambda>(x, r). (utf8 n @ x, r)) (parse_chars (drop k (tl t))))
           else (case simple_escape (hd t) of
                   None \<Rightarrow> None
                 | Some d \<Rightarrow> map_option (\<lambda>(x, r). (d # x, r)) (parse_chars (tl t))))
        else if (of_char c :: nat) < 32 then None
        else map_option (\<lambda>(x, r). (c # x, r)) (parse_chars t))"
  by pat_completeness auto
termination
  by (relation "measure length") (auto simp: neq_Nil_conv)

declare parse_chars.simps [simp del]

definition is_num_char :: "char \<Rightarrow> bool" where
  "is_num_char c \<longleftrightarrow> is_digit c \<or> c \<in> set ''+-.eE''"

definition json_number_ok :: "string \<Rightarrow> bool" where
  "json_number_ok t =
     (let u = (if t \<noteq> [] \<and> hd t = CHR ''-'' then tl t else t);
          ip = takeWhile is_digit u; r = dropWhile is_digit u;
          dot = (r \<noteq> [] \<and> hd r = CHR ''.'');
          fp = (if dot then takeWhile is_digit (tl r) else []);
          r' = (if dot then dropWhile is_digit (tl r) else r)
      in ip \<noteq> [] \<and> (1 < length ip \<longrightarrow> hd ip \<noteq> CHR ''0'') \<and> (dot \<longrightarrow> fp \<noteq> [])
         \<and> exponent_of r' \<noteq> None)"

definition parse_number :: "string \<Rightarrow> (json \<times> string) option" where
  "parse_number s =
     (let t = takeWhile is_num_char s
      in if json_number_ok t then Some (JNumber (js_Number t), dropWhile is_num_char s) else None)"

fun parse_value :: "nat \<Rightarrow> string \<Rightarrow> (json \<times> string) option"
  and parse_elems :: "nat \<Rightarrow> string \<Rightarrow> (json list \<times> string) option"
  and parse_members :: "nat \<Rightarrow> string \<Rightarrow> ((string \<times> json) list \<times> string) option" where
  "parse_value 0 s = None"
| "parse_value (Suc f) s0 =
     (let s = skip_ws s0 in
      if s = [] then None
      else if hd s = quote then map_option (\<lambda>(x, r). (JString x, r)) (parse_chars (tl s))
      else if hd s = CHR ''['' then
        (let u = skip_ws (tl s) in
         if u \<noteq> [] \<and> hd u = CHR '']'' then Some (JArray [], tl u)
         else map_option (\<lambda>(vs, r). (JArray vs, r)) (parse_elems f (tl s)))
      else if hd s = CHR ''{'' then
        (let u = skip_ws (tl s) in
         if u \<noteq> [] \<and> hd u = CHR ''}'' then Some (JObject [], tl u)
         else map_option (\<lambda>(ms, r). (JObject ms, r)) (parse_members f (tl s)))
      else if take 4 s = ''null'' then Some (JNull, drop 4 s)
      else if take 4 s = ''true'' then Some (JBool True, drop 4 s)
      else if take 5 s = ''false'' then Some (JBool False, drop 5 s)
      else parse_number s)"
| "parse_elems 0 s = None"
| "parse_elems (Suc f) s =
     (case parse_value f s of
        None \<Rightarrow> None
      | Some (v, r) \<Rightarrow>
          (let q = skip_ws r in
           if q = [] then None
           else if hd q = CHR '','' then map_option (\<lambda>(vs, z). (v # vs, z)) (parse_elems f (tl q))
           else if hd q = CHR '']'' then Some ([v], tl q)
           else None))"
| "parse_members 0 s = None"
| "parse_members (Suc f) s0 =
     (let s = skip_ws s0 in
      if s = [] \<or> hd s \<noteq> quote then None
      else case parse_chars (tl s) of
        None \<Rightarrow> None
      | Some (k, r) \<Rightarrow>
          (let q = skip_ws r in
           if q = [] \<or> hd q \<noteq> CHR '':'' then None
           else case parse_value f (tl q) of
             None \<Rightarrow> None
           | Some (v, w) \<Rightarrow>
               (let z = skip_ws w in
                if z = [] then None
                else if hd z = CHR '','' then
                  map_option (\<lambda>(ms, y). ((k, v) # ms, y)) (parse_members f (tl z))
                else if hd z = CHR ''}'' then Some ([(k, v)], tl z)
                else None)))"

definition json_parse :: "string \<Rightarrow> json option" where
  "json_parse s =
     (case parse_value (2 * length s + 2) s of
        Some (v, r) \<Rightarrow> if skip_ws r = [] then Some v else None
      | None \<Rightarrow> None)"

text \<open>Reading a property: \<open>undefined\<close> (\<open>None\<close>) unless the value is an object that has it.\<close>

fun field_of :: "string \<Rightarrow> json \<Rightarrow> json option" where
  "field_of k (JObject ms) = map_of (rev ms) k"
| "field_of k _ = None"

subsection \<open>Parsing what was stringified\<close>

lemma of_char_marks [simp]:
  "(of_char quote :: nat) = 34" "(of_char backslash :: nat) = 92"
  by (simp_all add: quote_def backslash_def)

lemma char_eq_of_char: "c = d \<longleftrightarrow> (of_char c :: nat) = of_char d"
  by simp

lemma radix_digit_hex [simp]: "d < 16 \<Longrightarrow> radix_digit 16 (hex_char d) = Some d"
  by (auto simp: radix_digit_def hex_char_def Let_def)

lemma radix_digit_0 [simp]: "radix_digit 16 (CHR ''0'') = Some 0"
  by (simp add: radix_digit_def)

lemma parse_chars_plain:
  assumes "c \<noteq> quote" "c \<noteq> backslash" "32 \<le> (of_char c :: nat)"
  shows "parse_chars (c # w) = map_option (\<lambda>(x, r). (c # x, r)) (parse_chars w)"
  using assms by (subst parse_chars.simps) simp

lemma parse_chars_simple:
  assumes "simple_escape e = Some c" "e \<noteq> CHR ''u''"
  shows "parse_chars (backslash # e # w) = map_option (\<lambda>(x, r). (c # x, r)) (parse_chars w)"
  using assms by (subst parse_chars.simps) (simp add: char_eq_of_char)

lemma parse_chars_control:
  assumes "(of_char c :: nat) < 32"
  shows "parse_chars
           (backslash # CHR ''u'' # CHR ''0'' # CHR ''0'' # hex_char (of_char c div 16)
              # hex_char (of_char c mod 16) # w)
         = map_option (\<lambda>(x, r). (c # x, r)) (parse_chars w)"
proof -
  let ?n = "of_char c :: nat"
  have "hex4 (CHR ''0'' # CHR ''0'' # hex_char (?n div 16) # hex_char (?n mod 16) # w) = Some ?n"
    using assms by (simp add: hex4_def)
  then have "unicode_escape (CHR ''0'' # CHR ''0'' # hex_char (?n div 16) # hex_char (?n mod 16) # w)
      = Some (?n, 4)"
    using assms by (simp add: unicode_escape_def)
  moreover have "utf8 ?n = [c]" using assms by (simp add: utf8_def)
  ultimately show ?thesis
    by (subst parse_chars.simps) (simp add: char_eq_of_char)
qed

lemma parse_chars_escape:
  "parse_chars (escape_char c @ w) = map_option (\<lambda>(x, r). (c # x, r)) (parse_chars w)"
proof -
  let ?n = "of_char c :: nat"
  have named: "simple_escape (CHR ''b'') = Some c" if "?n = 8"
    using that by (simp add: simple_escape_def char_eq_of_char)
  have bs: "char_of (92::nat) = backslash" by (simp add: backslash_def)
  consider "?n = 34 \<or> ?n = 92" | "?n = 8" | "?n = 9" | "?n = 10" | "?n = 12" | "?n = 13"
    | "?n < 32" "?n \<noteq> 8" "?n \<noteq> 9" "?n \<noteq> 10" "?n \<noteq> 12" "?n \<noteq> 13"
    | "32 \<le> ?n" "?n \<noteq> 34" "?n \<noteq> 92"
    by linarith
  then show ?thesis
  proof cases
    case 1
    then have "simple_escape c = Some c" "c \<noteq> CHR ''u''"
      by (auto simp: simple_escape_def char_eq_of_char)
    with 1 show ?thesis by (auto simp: escape_char_def bs parse_chars_simple)
  next
    case 2
    with named show ?thesis by (simp add: escape_char_def bs parse_chars_simple)
  next
    case 3
    then have "simple_escape (CHR ''t'') = Some c"
      by (simp add: simple_escape_def char_eq_of_char)
    with 3 show ?thesis by (simp add: escape_char_def bs parse_chars_simple)
  next
    case 4
    then have "simple_escape (CHR ''n'') = Some c"
      by (simp add: simple_escape_def char_eq_of_char)
    with 4 show ?thesis by (simp add: escape_char_def bs parse_chars_simple)
  next
    case 5
    then have "simple_escape (CHR ''f'') = Some c"
      by (simp add: simple_escape_def char_eq_of_char)
    with 5 show ?thesis by (simp add: escape_char_def bs parse_chars_simple)
  next
    case 6
    then have "simple_escape (CHR ''r'') = Some c"
      by (simp add: simple_escape_def char_eq_of_char)
    with 6 show ?thesis by (simp add: escape_char_def bs parse_chars_simple)
  next
    case 7
    then show ?thesis using parse_chars_control [of c w]
      by (simp add: escape_char_def bs Let_def)
  next
    case 8
    then show ?thesis using parse_chars_plain [of c w]
      by (auto simp: escape_char_def char_eq_of_char)
  qed
qed

lemma parse_chars_quoted:
  "parse_chars (concat (map escape_char s) @ quote # w) = Some (s, w)"
proof (induction s)
  case Nil
  show ?case by (subst parse_chars.simps) simp
next
  case (Cons c s)
  then show ?case by (simp add: parse_chars_escape)
qed

text \<open>Numbers: an integer's text is one token, and it reads back as the integer.\<close>

definition ends_token :: "string \<Rightarrow> bool" where
  "ends_token r \<longleftrightarrow> r = [] \<or> \<not> is_num_char (hd r)"

lemma num_chars_show_nat: "\<forall>c \<in> set (show_nat n). is_num_char c"
  using show_nat_digits [of n] by (auto simp: list_all_iff is_num_char_def)

lemma num_chars_show_int: "\<forall>c \<in> set (show_int n). is_num_char c"
  using num_chars_show_nat by (auto simp: show_int_def is_num_char_def)

lemma show_nat_no_leading_zero: "1 < length (show_nat n) \<Longrightarrow> hd (show_nat n) \<noteq> CHR ''0''"
proof (induction n rule: show_nat.induct)
  case (1 n)
  show ?case
  proof (cases "n < 10")
    case True
    then show ?thesis using "1.prems" by (simp add: show_nat.simps [of n])
  next
    case big: False
    show ?thesis
    proof (cases "n div 10 < 10")
      case True
      have "hd (show_nat n) = digit_char (n div 10)"
        using big True by (simp add: show_nat.simps [of n] show_nat.simps [of "n div 10"])
      moreover have "0 < n div 10" using big by simp
      ultimately show ?thesis using True by (simp add: char_eq_of_char del: of_char_eq_iff)
    next
      case False
      have "1 < length (show_nat (n div 10))"
        using False by (simp add: show_nat.simps [of "n div 10"] Suc_lessI)
      with "1.IH" [OF big] big show ?thesis by (simp add: show_nat.simps [of n])
    qed
  qed
qed

lemma json_number_ok_show_nat: "json_number_ok (show_nat n)"
proof -
  have hd: "hd (show_nat n) \<noteq> CHR ''-''"
    using show_nat_digits [of n] digit_not_letter [of "hd (show_nat n)"]
    by (cases "show_nat n") auto
  have tw: "takeWhile is_digit (show_nat n) = show_nat n"
    and dw: "dropWhile is_digit (show_nat n) = []"
    using show_nat_digits [of n] by (auto simp: list_all_iff)
  show ?thesis
    using hd show_nat_no_leading_zero [of n]
    by (simp add: json_number_ok_def tw dw exponent_of_def del: dropWhile_eq_Nil_conv)
qed

lemma json_number_ok_minus: "json_number_ok s \<Longrightarrow> s \<noteq> [] \<Longrightarrow> hd s \<noteq> CHR ''-''
    \<Longrightarrow> json_number_ok (CHR ''-'' # s)"
  by (simp add: json_number_ok_def)

lemma show_nat_hd: "hd (show_nat n) \<noteq> CHR ''-'' \<and> is_digit (hd (show_nat n))"
  using show_nat_digits [of n] digit_not_letter [of "hd (show_nat n)"]
  by (cases "show_nat n") auto

lemma json_number_ok_show_int: "json_number_ok (show_int n)"
  using json_number_ok_minus [OF json_number_ok_show_nat]
  by (simp add: show_int_def json_number_ok_show_nat show_nat_hd)

lemma js_Number_minus_show_nat: "js_Number (CHR ''-'' # show_nat n) = Num (- of_nat n)"
proof -
  let ?s = "CHR ''-'' # show_nat n"
  have "\<not> is_space (hd ?s)" "\<not> is_space (hd (rev ?s))"
    using show_nat_digits [of n]
    by (auto simp: is_space_def hd_rev list_all_iff digit_not_space [unfolded is_space_def, simplified])
  then have "dropWhile is_space ?s = ?s" "dropWhile is_space (rev ?s) = rev ?s"
    by (auto simp: dropWhile_eq_self_iff)
  then have "trim ?s = ?s" by (simp add: trim_def)
  moreover have "radix_prefix ?s = None"
    by (simp add: radix_prefix_def Let_def numeral_2_eq_2)
  ultimately show ?thesis
    by (simp add: js_Number_def Let_def signed_decimal_digits show_nat_digits)
qed

lemma js_Number_show_int_all: "js_Number (show_int n) = Num (of_int n)"
  by (simp add: show_int_def js_Number_minus_show_nat)

lemma parse_number_show_int:
  assumes "ends_token r"
  shows "parse_number (show_int n @ r) = Some (JNumber (Num (of_int n)), r)"
proof -
  have "takeWhile is_num_char (show_int n @ r) = show_int n"
    "dropWhile is_num_char (show_int n @ r) = r"
    using assms num_chars_show_int [of n]
    by (cases r; simp add: ends_token_def takeWhile_append dropWhile_append)+
  then show ?thesis
    by (simp add: parse_number_def Let_def json_number_ok_show_int js_Number_show_int_all)
qed

text \<open>The values whose text is exact: every number in them is an integer.\<close>

fun int_numbers :: "json \<Rightarrow> bool" where
  "int_numbers (JNumber x) \<longleftrightarrow> int_of_num x \<noteq> None"
| "int_numbers (JArray vs) \<longleftrightarrow> (\<forall>v \<in> set vs. int_numbers v)"
| "int_numbers (JObject ms) \<longleftrightarrow> (\<forall>m \<in> set ms. int_numbers (snd m))"
| "int_numbers _ \<longleftrightarrow> True"

lemma int_numbers_number:
  "int_numbers (JNumber x) \<Longrightarrow> \<exists>n. x = Num (of_int n) \<and> number_text x = show_int n"
  by (cases x) (auto split: if_splits)

lemma show_int_hd:
  "hd (show_int n) = CHR ''-'' \<or> is_digit (hd (show_int n))" and show_int_nonempty: "show_int n \<noteq> []"
  using show_nat_hd by (auto simp: show_int_def)

lemma text_head:
  assumes "int_numbers v"
  shows "json_text v \<noteq> [] \<and> skip_ws (json_text v @ r) = json_text v @ r
    \<and> hd (json_text v) \<noteq> CHR '']'' \<and> hd (json_text v) \<noteq> CHR ''}''"
proof (cases v)
  case (JNumber x)
  with assms obtain n where n: "json_text v = show_int n"
    using int_numbers_number by fastforce
  have "of_char (hd (show_int n)) \<notin> ({9, 10, 13, 32} :: nat set)" "hd (show_int n) \<noteq> CHR '']''"
    "hd (show_int n) \<noteq> CHR ''}''"
    using show_int_hd [of n] digit_not_letter by (auto simp: is_digit_def)
  with n show_int_nonempty [of n] show ?thesis
    by (cases "show_int n") (auto simp: skip_ws_def)
qed (auto simp: skip_ws_def quoted_def char_eq_of_char)

lemma skip_ws_mark: "(of_char c :: nat) \<notin> {9, 10, 13, 32} \<Longrightarrow> skip_ws (c # r) = c # r"
  by (auto simp: skip_ws_def)

lemma parse_value_number:
  assumes "ends_token r" "f \<noteq> 0"
  shows "parse_value f (show_int n @ r) = Some (JNumber (Num (of_int n)), r)"
proof -
  obtain k where f: "f = Suc k" using assms(2) by (cases f) auto
  obtain c t where ct: "show_int n = c # t" using show_int_nonempty [of n] by (cases "show_int n") auto
  have c: "c = CHR ''-'' \<or> is_digit c" using show_int_hd [of n] ct by simp
  then have "skip_ws (c # t @ r) = c # t @ r"
    by (intro skip_ws_mark) (auto simp: is_digit_def)
  moreover have "c \<noteq> quote" "c \<noteq> CHR ''[''" "c \<noteq> CHR ''{''" "c \<noteq> CHR ''n''" "c \<noteq> CHR ''t''" "c \<noteq> CHR ''f''"
    using c by (auto simp: is_digit_def char_eq_of_char simp del: of_char_eq_iff)
  ultimately show ?thesis
    using parse_number_show_int [OF assms(1), of n] by (simp add: f ct)
qed

lemma ends_token_marks [simp]:
  "ends_token (CHR '','' # r)" "ends_token (CHR '']'' # r)" "ends_token (CHR ''}'' # r)" "ends_token []"
  by (simp_all add: ends_token_def is_num_char_def is_digit_def)

lemma skip_ws_marks [simp]:
  "skip_ws (CHR '','' # r) = CHR '','' # r" "skip_ws (CHR '']'' # r) = CHR '']'' # r"
  "skip_ws (CHR ''}'' # r) = CHR ''}'' # r" "skip_ws (CHR ''['' # r) = CHR ''['' # r"
  "skip_ws (CHR ''{'' # r) = CHR ''{'' # r" "skip_ws (CHR '':'' # r) = CHR '':'' # r"
  "skip_ws (quote # r) = quote # r" "skip_ws [] = []"
  by (simp_all add: skip_ws_def)

lemma quote_marks [simp]:
  "quote \<noteq> CHR ''[''" "CHR ''['' \<noteq> quote" "CHR ''{'' \<noteq> quote" "quote \<noteq> CHR ''{''"
  "CHR ''n'' \<noteq> quote" "CHR ''t'' \<noteq> quote" "CHR ''f'' \<noteq> quote"
  by (simp_all add: char_eq_of_char del: of_char_eq_iff)

lemma skip_ws_elems: "int_numbers v \<Longrightarrow> skip_ws (elems_text (v # vs) @ r) = elems_text (v # vs) @ r
    \<and> hd (elems_text (v # vs) @ r) \<noteq> CHR '']'' \<and> elems_text (v # vs) \<noteq> []"
  using text_head [of v] by (simp add: hd_append)

text \<open>
  The three parsers invert the three printers, given fuel for twice the bytes they read and
  text behind it that cannot extend a number.
\<close>

lemma parse_text:
  "\<lbrakk>int_numbers v; ends_token r; 2 * length (json_text v) \<le> f\<rbrakk>
     \<Longrightarrow> parse_value f (json_text v @ r) = Some (v, r)"
  "\<lbrakk>\<forall>v \<in> set vs. int_numbers v; vs \<noteq> []; 2 * length (elems_text vs) + 1 \<le> f\<rbrakk>
     \<Longrightarrow> parse_elems f (elems_text vs @ CHR '']'' # r) = Some (vs, r)"
  "\<lbrakk>\<forall>m \<in> set ms. int_numbers (snd m); ms \<noteq> []; 2 * length (members_text ms) + 1 \<le> f\<rbrakk>
     \<Longrightarrow> parse_members f (members_text ms @ CHR ''}'' # r) = Some (ms, r)"
proof (induction v and vs and ms arbitrary: f r and f r and f r
    rule: json_text_elems_text_members_text.induct)
  case 1
  then obtain k where "f = Suc k" by (cases f) auto
  then show ?case by (simp add: skip_ws_def)
next
  case (2 b)
  then obtain k where "f = Suc k" by (cases f) (auto split: if_splits)
  then show ?case by (cases b) (simp_all add: skip_ws_def)
next
  case (3 x)
  then obtain n where n: "x = Num (of_int n)" "number_text x = show_int n"
    using int_numbers_number by blast
  moreover have "f \<noteq> 0" using "3.prems"(3) n show_int_nonempty [of n] by (cases f) auto
  ultimately show ?case using parse_value_number [OF "3.prems"(2)] by simp
next
  case (4 s)
  then obtain k where "f = Suc k" by (cases f) (auto simp: quoted_def)
  then show ?case by (simp add: quoted_def parse_chars_quoted)
next
  case (5 vs)
  then obtain k where f: "f = Suc k" by (cases f) auto
  show ?case
  proof (cases vs)
    case Nil
    with f show ?thesis by simp
  next
    case (Cons w ws)
    with "5.prems" have w: "int_numbers w" by simp
    have "parse_elems k (elems_text vs @ CHR '']'' # r) = Some (vs, r)"
      using "5.prems" f Cons by (intro "5.IH") auto
    with f Cons skip_ws_elems [OF w, of ws "CHR '']'' # r"] show ?thesis by simp
  qed
next
  case (6 ms)
  then obtain k where f: "f = Suc k" by (cases f) auto
  show ?case
  proof (cases ms)
    case Nil
    with f show ?thesis by simp
  next
    case (Cons m ms')
    have "parse_members k (members_text ms @ CHR ''}'' # r) = Some (ms, r)"
      using "6.prems" f Cons by (intro "6.IH") auto
    moreover have "\<exists>t. members_text ms = quote # t"
      using Cons by (cases m) (simp add: quoted_def)
    ultimately show ?thesis using f by (auto simp: char_eq_of_char)
  qed
next
  case 7
  then show ?case by simp
next
  case (8 v vs)
  then obtain k where f: "f = Suc k" by (cases f) auto
  have len: "0 < length (json_text v)" using text_head [of v] "8.prems" by simp
  show ?case
  proof (cases vs)
    case Nil
    have "parse_value k (json_text v @ CHR '']'' # r) = Some (v, CHR '']'' # r)"
      using "8.prems" f Nil by (intro "8.IH"(1)) auto
    with f Nil show ?thesis by simp
  next
    case (Cons w ws)
    have "parse_value k (json_text v @ CHR '','' # elems_text vs @ CHR '']'' # r)
        = Some (v, CHR '','' # elems_text vs @ CHR '']'' # r)"
      using "8.prems" f Cons by (intro "8.IH"(1)) auto
    moreover have "parse_elems k (elems_text vs @ CHR '']'' # r) = Some (vs, r)"
      using "8.prems" f Cons len by (intro "8.IH"(2)) auto
    ultimately show ?thesis using f Cons by simp
  qed
next
  case 9
  then show ?case by simp
next
  case (10 k v ms)
  then obtain g where f: "f = Suc g" by (cases f) auto
  have q: "quoted k = quote # concat (map escape_char k) @ [quote]" by (simp add: quoted_def)
  show ?case
  proof (cases ms)
    case Nil
    have "parse_value g (json_text v @ CHR ''}'' # r) = Some (v, CHR ''}'' # r)"
      using "10.prems" f Nil by (intro "10.IH"(1)) auto
    with f Nil show ?thesis by (simp add: q parse_chars_quoted)
  next
    case (Cons w ws)
    have "parse_value g (json_text v @ CHR '','' # members_text ms @ CHR ''}'' # r)
        = Some (v, CHR '','' # members_text ms @ CHR ''}'' # r)"
      using "10.prems" f Cons by (intro "10.IH"(1)) auto
    moreover have "parse_members g (members_text ms @ CHR ''}'' # r) = Some (ms, r)"
      using "10.prems" f Cons by (intro "10.IH"(2)) (auto simp: quoted_def)
    ultimately show ?thesis using f Cons by (simp add: q parse_chars_quoted)
  qed
qed

lemma json_parse_text: "int_numbers v \<Longrightarrow> json_parse (json_text v) = Some v"
  using parse_text(1) [of v "[]" "2 * length (json_text v) + 2"]
  by (simp add: json_parse_def skip_ws_def)

lemma json_text_inj:
  "int_numbers v \<Longrightarrow> int_numbers w \<Longrightarrow> json_text v = json_text w \<Longrightarrow> v = w"
  by (metis json_parse_text option.inject)

end
