(* ===== verification/Pagination.thy ===== *)
theory Pagination
  imports Json
begin

text \<open>
  Cursors and pages: \<open>src/common/pagination.ts\<close> and the part of \<open>findAll\<close> that the product
  and the order service share. A cursor is the base64url text of the JSON object \<open>{id}\<close>.

  The locale \<open>keyset_listing\<close> is the contract of a listing that resumes after the id in its
  cursor; the client that walks from page to page is proved against it once. The services
  interpret it (theories \<open>Products\<close> and \<open>Orders\<close>).
\<close>

subsection \<open>base64url\<close>

definition b64_char :: "nat \<Rightarrow> char" where
  "b64_char n =
     (if n < 26 then char_of (65 + n) else if n < 52 then char_of (71 + n)
      else if n < 62 then char_of (n - 4) else if n = 62 then CHR ''-'' else CHR ''_'')"

definition b64_val :: "char \<Rightarrow> nat option" where
  "b64_val c =
     (let n = of_char c :: nat in
      if 65 \<le> n \<and> n \<le> 90 then Some (n - 65)
      else if 97 \<le> n \<and> n \<le> 122 then Some (n - 71)
      else if 48 \<le> n \<and> n \<le> 57 then Some (n + 4)
      else if c = CHR ''-'' \<or> c = CHR ''+'' then Some 62
      else if c = CHR ''_'' \<or> c = CHR ''/'' then Some 63
      else None)"

fun to_sextets :: "nat list \<Rightarrow> nat list" where
  "to_sextets [] = []"
| "to_sextets [a] = [a div 4, a mod 4 * 16]"
| "to_sextets [a, b] = [a div 4, a mod 4 * 16 + b div 16, b mod 16 * 4]"
| "to_sextets (a # b # c # r) =
     a div 4 # (a mod 4 * 16 + b div 16) # (b mod 16 * 4 + c div 64) # c mod 64 # to_sextets r"

fun to_octets :: "nat list \<Rightarrow> nat list" where
  "to_octets [] = []"
| "to_octets [p] = []"
| "to_octets [p, q] = [p * 4 + q div 16]"
| "to_octets [p, q, r] = [p * 4 + q div 16, q mod 16 * 16 + r div 4]"
| "to_octets (p # q # r # s # t) =
     (p * 4 + q div 16) # (q mod 16 * 16 + r div 4) # (r mod 4 * 64 + s) # to_octets t"

text \<open>
  \<open>Buffer.from(text).toString('base64url')\<close>, and the decoder, which skips bytes outside both
  base64 alphabets and drops the bits of an incomplete last group.
\<close>

definition base64url :: "string \<Rightarrow> string" where
  "base64url s = map b64_char (to_sextets (map of_char s))"

definition unbase64url :: "string \<Rightarrow> string" where
  "unbase64url s = map char_of (to_octets (List.map_filter b64_val s))"

lemma b64_val_char [simp]: "n < 64 \<Longrightarrow> b64_val (b64_char n) = Some n"
  by (auto simp: b64_val_def b64_char_def Let_def)

lemma to_sextets_bound: "\<forall>b \<in> set bs. b < 256 \<Longrightarrow> \<forall>x \<in> set (to_sextets bs). x < 64"
proof (induction bs rule: to_sextets.induct)
  case (4 a b c r)
  have "a mod 4 * 16 + b div 16 < 64" "b mod 16 * 4 + c div 64 < 64"
    using "4.prems" by auto
  with 4 show ?case by auto
qed auto

lemma to_octets_sextets: "\<forall>b \<in> set bs. b < 256 \<Longrightarrow> to_octets (to_sextets bs) = bs"
proof (induction bs rule: to_sextets.induct)
  case (3 a b)
  then have "(a mod 4 * 16 + b div 16) div 16 = a mod 4" "(a mod 4 * 16 + b div 16) mod 16 = b div 16"
    by auto
  then show ?case by simp
next
  case (4 a b c r)
  then have "(a mod 4 * 16 + b div 16) div 16 = a mod 4" "(a mod 4 * 16 + b div 16) mod 16 = b div 16"
    "(b mod 16 * 4 + c div 64) div 4 = b mod 16" "(b mod 16 * 4 + c div 64) mod 4 = c div 64"
    by auto
  with 4 show ?case by simp
qed auto

lemma map_filter_b64: "\<forall>x \<in> set xs. x < 64 \<Longrightarrow> List.map_filter b64_val (map b64_char xs) = xs"
  by (induction xs) (auto simp: List.map_filter_simps)

lemma unbase64url_base64url [simp]: "unbase64url (base64url s) = s"
proof -
  have b: "\<forall>b \<in> set (map of_char s). b < (256::nat)"
    by (simp add: of_char_def)
  show ?thesis
    using to_sextets_bound [OF b] to_octets_sextets [OF b]
    by (simp add: unbase64url_def base64url_def map_filter_b64 comp_def)
qed

subsection \<open>Cursors\<close>

definition encodeCursor :: "string \<Rightarrow> string" where
  "encodeCursor i = base64url (json_text (JObject [(''id'', JString i)]))"

definition decodeCursor :: "string \<Rightarrow> string option" where
  "decodeCursor cursor =
     (case json_parse (unbase64url cursor) of
        None \<Rightarrow> None
      | Some decoded \<Rightarrow>
          (case field_of ''id'' decoded of Some (JString i) \<Rightarrow> Some i | _ \<Rightarrow> None))"

lemma decode_encode [simp]: "decodeCursor (encodeCursor i) = Some i"
  by (simp add: decodeCursor_def encodeCursor_def json_parse_text del: json_text.simps)

lemma encodeCursor_nonempty [simp]: "encodeCursor i \<noteq> []"
proof
  assume "encodeCursor i = []"
  then have "decodeCursor [] = Some i" using decode_encode [of i] by simp
  then show False
    by (simp add: decodeCursor_def unbase64url_def json_parse_def numeral_2_eq_2 skip_ws_def
        List.map_filter_simps)
qed

text \<open>\<open>paginate\<close>: a page of a list held in memory, resuming behind the item the cursor names.\<close>

fun find_index :: "('a \<Rightarrow> bool) \<Rightarrow> 'a list \<Rightarrow> nat option" where
  "find_index P [] = None"
| "find_index P (x # xs) = (if P x then Some 0 else map_option Suc (find_index P xs))"

definition paginate ::
  "('a \<Rightarrow> string) \<Rightarrow> 'a list \<Rightarrow> nat \<Rightarrow> string option \<Rightarrow> 'a list \<times> string option" where
  "paginate idf xs limit cursor =
     (let startIndex =
            (case cursor of
               None \<Rightarrow> 0
             | Some c \<Rightarrow>
                 if c = [] then 0
                 else case decodeCursor c of
                     None \<Rightarrow> 0
                   | Some i \<Rightarrow> (case find_index (\<lambda>x. idf x = i) xs of None \<Rightarrow> 0 | Some k \<Rightarrow> k + 1));
          page = take limit (drop startIndex xs);
          hasMore = startIndex + limit < length xs;
          next_cursor = (if hasMore \<and> page \<noteq> [] then Some (encodeCursor (idf (last page))) else None)
      in (page, next_cursor))"

subsection \<open>The pages of the services\<close>

text \<open>
  \<open>afterId\<close> of \<open>findAll\<close>: no cursor, an empty one or one that does not decode gives 0.
\<close>

definition after_id :: "string option \<Rightarrow> jsnum" where
  "after_id cursor =
     (case (case cursor of None \<Rightarrow> None | Some c \<Rightarrow> if c = [] then None else decodeCursor c) of
        None \<Rightarrow> Num 0
      | Some i \<Rightarrow> js_Number i)"

text \<open>A number is falsy when it is 0 or NaN: then \<open>findAll\<close> does not filter by id.\<close>

definition truthy_num :: "jsnum \<Rightarrow> bool" where
  "truthy_num x \<longleftrightarrow> x \<noteq> NaN \<and> x \<noteq> Num 0"

text \<open>From at most \<open>limit + 1\<close> rows to the page and the cursor behind it.\<close>

definition page_of :: "('r \<Rightarrow> int) \<Rightarrow> ('r \<Rightarrow> 'i) \<Rightarrow> nat \<Rightarrow> 'r list \<Rightarrow> 'i list \<times> string option" where
  "page_of rid view limit rows =
     (let hasMore = limit < length rows;
          page = take limit rows;
          next_cursor = (if hasMore \<and> page \<noteq> [] then Some (encodeCursor (show_int (rid (last page))))
                         else None)
      in (map view page, next_cursor))"

text \<open>The cursor a page returns makes the next request resume behind the page's last row.\<close>

lemma after_id_None [simp]: "after_id None = Num 0"
  by (simp add: after_id_def)

lemma after_id_cursor [simp]: "after_id (Some (encodeCursor (show_int n))) = Num (of_int n)"
  by (simp add: after_id_def js_Number_show_int_all)

text \<open>A client that asks for page after page until there is no cursor.\<close>

fun walk_pages ::
  "(string option \<Rightarrow> 'e + ('i list \<times> string option)) \<Rightarrow> nat \<Rightarrow> string option \<Rightarrow> 'i list option"
where
  "walk_pages list_page 0 c = None"
| "walk_pages list_page (Suc fuel) c =
     (case list_page c of
        Inl _ \<Rightarrow> None
      | Inr (items, None) \<Rightarrow> Some items
      | Inr (items, Some c') \<Rightarrow> map_option ((@) items) (walk_pages list_page fuel (Some c')))"

locale keyset_listing =
  fixes list_page :: "'s \<Rightarrow> nat \<Rightarrow> string option \<Rightarrow> 'e + ('i list \<times> string option)"
    and rows :: "'s \<Rightarrow> 'r list"
    and rid :: "'r \<Rightarrow> int"
    and view :: "'r \<Rightarrow> 'i"
    and wf :: "'s \<Rightarrow> bool"
  assumes rows_sorted: "wf s \<Longrightarrow> sorted_wrt (\<lambda>a b. rid a < rid b) (rows s)"
    and first_page: "wf s \<Longrightarrow> list_page s limit None = Inr (page_of rid view limit (take (limit + 1) (rows s)))"
    and next_page: "wf s \<Longrightarrow> r \<in> set (rows s) \<Longrightarrow>
      list_page s limit (Some (encodeCursor (show_int (rid r)))) =
        Inr (page_of rid view limit (take (limit + 1) (filter (\<lambda>q. rid r < rid q) (rows s))))"
begin

lemma rows_after:
  assumes "wf s" "rows s = seen @ r # rest"
  shows "filter (\<lambda>q. rid r < rid q) (rows s) = rest"
proof -
  have "sorted_wrt (\<lambda>a b. rid a < rid b) (seen @ r # rest)"
    using rows_sorted [OF assms(1)] assms(2) by simp
  then have "\<forall>q \<in> set seen. \<not> rid r < rid q" "\<forall>q \<in> set rest. rid r < rid q"
    by (auto simp: sorted_wrt_append)
  then show ?thesis using assms(2) by (auto simp: filter_empty_conv filter_id_conv)
qed

lemma walk_from:
  assumes "wf s" "0 < limit" "rows s = seen @ rest" "length rest < fuel"
    and "c = (if seen = [] then None else Some (encodeCursor (show_int (rid (last seen)))))"
  shows "walk_pages (list_page s limit) fuel c = Some (map view rest)"
  using assms(3-5)
proof (induction fuel arbitrary: seen rest c)
  case (Suc fuel)
  have page: "list_page s limit c = Inr (page_of rid view limit (take (limit + 1) rest))"
  proof (cases "seen = []")
    case True
    with Suc.prems assms(1) show ?thesis by (simp add: first_page)
  next
    case False
    then have d: "rows s = butlast seen @ last seen # rest" using Suc.prems(1) by simp
    then have "last seen \<in> set (rows s)" by simp
    from next_page [OF assms(1) this, of limit] show ?thesis
      using False Suc.prems(3) by (simp only: rows_after [OF assms(1) d] if_False)
  qed
  show ?case
  proof (cases "limit < length rest")
    case False
    with page show ?thesis by (simp add: page_of_def)
  next
    case True
    define items where "items = take limit rest"
    have ne: "items \<noteq> []" using True assms(2) by (auto simp: items_def)
    have "walk_pages (list_page s limit) fuel (Some (encodeCursor (show_int (rid (last items)))))
        = Some (map view (drop limit rest))"
      using Suc.prems True assms(2) ne
      by (intro Suc.IH [where seen = "seen @ items"]) (auto simp: items_def)
    moreover have "page_of rid view limit (take (limit + 1) rest)
        = (map view items, Some (encodeCursor (show_int (rid (last items)))))"
      using True ne by (simp add: page_of_def items_def min_def Let_def)
    moreover have "map view items @ map view (drop limit rest) = map view rest"
      by (simp add: items_def flip: map_append)
    ultimately show ?thesis using page by simp
  qed
qed simp

lemma walk_all:
  assumes "wf s" "0 < limit" "length (rows s) < fuel"
  shows "walk_pages (list_page s limit) fuel None = Some (map view (rows s))"
  using assms by (intro walk_from [where seen = "[]"]) auto

end

end
