(* ===== verification/Database.thy ===== *)
theory Database
  imports Pagination
begin

text \<open>
  The PostgreSQL side of the program: the rows of the entities (\<open>src/entities\<close>) and of the
  tables the migrations create (\<open>src/migrations\<close>), the statements the services run on them,
  and transactions.

  A table is the list of its rows in insertion order. A statement is an \<open>action\<close> on the
  database: it checks what the column types and constraints of the migrations check and fails
  with the SQLSTATE code, or changes the rows. \<open>transaction\<close> is \<open>BEGIN .. COMMIT\<close> with a
  \<open>ROLLBACK\<close> when the body throws; sequences are not rolled back. Instants are integers
  (milliseconds); \<open>clock\<close> is what \<open>now()\<close> returns. Random identifiers are arguments, and the
  primary key constraint on them is checked.

  Messages of exceptions that are not ASCII in the source are replaced by an English key.
\<close>

subsection \<open>Errors\<close>

datatype error =
    BadRequestException string
  | UnauthorizedException string
  | ForbiddenException string
  | NotFoundException string
  | ConflictException string
  | UnprocessableEntityException string
  | TooManyRequestsException string
  | ServiceUnavailableException string
  | QueryFailedError string
  | RedisError string
  | TypeError string
  | PlainError string
  | InsufficientStockError int
  | InsufficientFundsError int

subsection \<open>Rows\<close>

datatype user_role = customer | seller | admin

definition USER_ROLES :: "user_role list" where
  "USER_ROLES = [customer, seller, admin]"

record user =
  u_id :: int
  u_email :: string
  u_name :: string
  u_passwordHash :: "string option"
  u_role :: user_role
  u_balanceCents :: int
  u_createdAt :: int

record product =
  p_id :: int
  p_name :: string
  p_priceCents :: int
  p_stock :: int
  p_currency :: string
  p_createdAt :: int

record order_row =
  o_id :: int
  o_userId :: "int option"
  o_customerEmail :: string
  o_status :: string
  o_totalCents :: int
  o_currency :: string
  o_createdAt :: int

record order_item_row =
  i_id :: int
  i_orderId :: int
  i_productId :: int
  i_quantity :: int
  i_priceAtPurchaseCents :: int

record job_row =
  j_id :: int
  j_orderId :: "int option"
  j_status :: string
  j_worker :: "string option"
  j_processed :: int
  j_createdAt :: int

text \<open>\<open>OrderPlacedEvent\<close>: the payload of an outbox row and of a message.\<close>

record order_placed_data =
  ev_orderId :: int
  ev_customerEmail :: string
  ev_totalCents :: int
  ev_currency :: string
  ev_items :: "(int \<times> int) list"

record order_placed_event =
  eventId :: string
  ev_type :: string
  occurredAt :: int
  ev_data :: order_placed_data

record outbox_row =
  ob_id :: string
  ob_aggregate_type :: string
  ob_aggregate_id :: string
  ob_type :: string
  ob_payload :: order_placed_event
  ob_created_at :: int
  ob_published_at :: "int option"
  ob_attempts :: int

record idempotency_row =
  ik_key :: string
  ik_request_hash :: string
  ik_order_id :: "int option"

record refresh_token_row =
  rt_id :: string
  rt_user_id :: int
  rt_family_id :: string
  rt_token_hash :: string
  rt_created_at :: int
  rt_used_at :: "int option"
  rt_revoked_at :: "int option"
  rt_expires_at :: int
  rt_family_started_at :: int

record db =
  clock :: int
  users :: "user list"
  products :: "product list"
  orders :: "order_row list"
  order_items :: "order_item_row list"
  jobs :: "job_row list"
  outbox :: "outbox_row list"
  idempotency_keys :: "idempotency_row list"
  processed_messages :: "(string \<times> string) list"
  processed_order_events :: "(string \<times> int) list"
  refresh_tokens :: "refresh_token_row list"
  seq_products :: int
  seq_orders :: int
  seq_items :: int
  seq_jobs :: int

type_synonym 'a db_action = "(db, error, 'a) action"

definition empty_db :: db where
  "empty_db =
     \<lparr>clock = 0, users = [], products = [], orders = [], order_items = [], jobs = [], outbox = [],
      idempotency_keys = [], processed_messages = [], processed_order_events = [],
      refresh_tokens = [], seq_products = 1, seq_orders = 1, seq_items = 1, seq_jobs = 1\<rparr>"

subsection \<open>Transactions\<close>

definition rolled_back :: "db \<Rightarrow> db \<Rightarrow> db" where
  "rolled_back s s' =
     s\<lparr>seq_products := seq_products s', seq_orders := seq_orders s', seq_items := seq_items s',
       seq_jobs := seq_jobs s'\<rparr>"

definition transaction :: "'a db_action \<Rightarrow> 'a db_action" where
  "transaction m =
     (\<lambda>s. case m s of (Inr a, s') \<Rightarrow> (Inr a, s') | (Inl e, s') \<Rightarrow> (Inl e, rolled_back s s'))"

subsection \<open>Parameters and sequences\<close>

text \<open>The range of the \<open>integer\<close> columns, and what a numeric parameter is for one of them.\<close>

definition int4 :: "int \<Rightarrow> bool" where
  "int4 n \<longleftrightarrow> -2147483648 \<le> n \<and> n \<le> 2147483647"

definition OUT_OF_RANGE :: error where
  "OUT_OF_RANGE = QueryFailedError ''22003''"

definition INVALID_TEXT :: error where
  "INVALID_TEXT = QueryFailedError ''22P02''"

definition FK_VIOLATION :: error where
  "FK_VIOLATION = QueryFailedError ''23503''"

definition UNIQUE_VIOLATION :: string where
  "UNIQUE_VIOLATION = ''23505''"

text \<open>
  A number is sent as its decimal text: one that is not an integer, or so large that the text
  has an exponent, is not an integer literal (22P02); an integer beyond four bytes is out of
  range (22003).
\<close>

definition int_param :: "jsnum \<Rightarrow> error + int" where
  "int_param x =
     (case int_of_num x of
        None \<Rightarrow> Inl INVALID_TEXT
      | Some n \<Rightarrow>
          if int4 n then Inr n
          else if \<bar>n\<bar> < 10 ^ 21 then Inl OUT_OF_RANGE else Inl INVALID_TEXT)"

text \<open>What an \<open>integer\<close> column answers to a number it cannot hold.\<close>

definition int_error :: "int \<Rightarrow> error" where
  "int_error n = (if \<bar>n\<bar> < 10 ^ 21 then OUT_OF_RANGE else INVALID_TEXT)"

definition nextval :: "(db \<Rightarrow> int) \<Rightarrow> (int \<Rightarrow> db \<Rightarrow> db) \<Rightarrow> int db_action" where
  "nextval get put =
     (\<lambda>s. if 2147483647 < get s then (Inl (QueryFailedError ''2200H''), s)
          else (Inr (get s), put (get s + 1) s))"

subsection \<open>Statements\<close>

definition insert_product :: "string \<Rightarrow> int \<Rightarrow> int \<Rightarrow> string \<Rightarrow> product db_action" where
  "insert_product name price stock cur =
     and_then (guard (int4 price \<and> int4 stock) OUT_OF_RANGE) (\<lambda>_.
     and_then (nextval seq_products (\<lambda>n s. s\<lparr>seq_products := n\<rparr>)) (\<lambda>i.
     and_then (gets products) (\<lambda>ps.
     and_then (guard (name \<notin> p_name ` set ps) (QueryFailedError UNIQUE_VIOLATION)) (\<lambda>_.
     and_then (gets clock) (\<lambda>now.
       let p = \<lparr>p_id = i, p_name = name, p_priceCents = price, p_stock = stock,
                p_currency = cur, p_createdAt = now\<rparr>
       in and_then (modify (\<lambda>s. s\<lparr>products := products s @ [p]\<rparr>)) (\<lambda>_. ret p))))))"

definition insert_order ::
  "int option \<Rightarrow> string \<Rightarrow> string \<Rightarrow> int \<Rightarrow> string \<Rightarrow> order_row db_action" where
  "insert_order userId email status tot cur =
     and_then (guard (int4 tot \<and> pred_option int4 userId) (int_error tot)) (\<lambda>_.
     and_then (nextval seq_orders (\<lambda>n s. s\<lparr>seq_orders := n\<rparr>)) (\<lambda>i.
     and_then (gets users) (\<lambda>us.
     and_then (guard (pred_option (\<lambda>u. u \<in> u_id ` set us) userId) FK_VIOLATION) (\<lambda>_.
     and_then (gets clock) (\<lambda>now.
       let r = \<lparr>o_id = i, o_userId = userId, o_customerEmail = email, o_status = status,
                o_totalCents = tot, o_currency = cur, o_createdAt = now\<rparr>
       in and_then (modify (\<lambda>s. s\<lparr>orders := orders s @ [r]\<rparr>)) (\<lambda>_. ret r))))))"

definition insert_order_item :: "int \<Rightarrow> int \<Rightarrow> int \<Rightarrow> int \<Rightarrow> order_item_row db_action" where
  "insert_order_item orderId productId qty price =
     and_then (guard (int4 qty \<and> int4 price) (int_error qty)) (\<lambda>_.
     and_then (nextval seq_items (\<lambda>n s. s\<lparr>seq_items := n\<rparr>)) (\<lambda>i.
     and_then (gets id) (\<lambda>s.
     and_then (guard (orderId \<in> o_id ` set (orders s) \<and> productId \<in> p_id ` set (products s))
                 FK_VIOLATION) (\<lambda>_.
       let r = \<lparr>i_id = i, i_orderId = orderId, i_productId = productId, i_quantity = qty,
                i_priceAtPurchaseCents = price\<rparr>
       in and_then (modify (\<lambda>s. s\<lparr>order_items := order_items s @ [r]\<rparr>)) (\<lambda>_. ret r)))))"

definition insert_job :: "int \<Rightarrow> job_row db_action" where
  "insert_job orderId =
     and_then (nextval seq_jobs (\<lambda>n s. s\<lparr>seq_jobs := n\<rparr>)) (\<lambda>i.
     and_then (gets id) (\<lambda>s.
     and_then (guard (orderId \<in> o_id ` set (orders s)) FK_VIOLATION) (\<lambda>_.
       let r = \<lparr>j_id = i, j_orderId = Some orderId, j_status = ''new'', j_worker = None,
                j_processed = 0, j_createdAt = clock s\<rparr>
       in and_then (modify (\<lambda>s. s\<lparr>jobs := jobs s @ [r]\<rparr>)) (\<lambda>_. ret r))))"

definition find_product :: "jsnum \<Rightarrow> product option db_action" where
  "find_product x =
     (case int_param x of
        Inl e \<Rightarrow> throw e
      | Inr n \<Rightarrow> gets (\<lambda>s. find (\<lambda>p. p_id p = n) (products s)))"

text \<open>
  \<open>find\<close> with \<open>order: id ASC\<close>, \<open>take: n\<close> and, for a truthy number, \<open>where: id > after\<close>.
\<close>

definition select_after :: "('r \<Rightarrow> int) \<Rightarrow> jsnum \<Rightarrow> nat \<Rightarrow> 'r list \<Rightarrow> error + 'r list" where
  "select_after rid after n rows =
     (if truthy_num after then
        (case int_param after of
           Inl e \<Rightarrow> Inl e
         | Inr a \<Rightarrow> Inr (take n (filter (\<lambda>r. a < rid r) (sort_key rid rows))))
      else Inr (take n (sort_key rid rows)))"

definition find_user :: "int \<Rightarrow> user option db_action" where
  "find_user n =
     and_then (guard (int4 n) (int_error n)) (\<lambda>_. gets (\<lambda>s. find (\<lambda>u. u_id u = n) (users s)))"

lemma find_user_run:
  "find_user n s = (if int4 n then Inr (find (\<lambda>u. u_id u = n) (users s)) else Inl (int_error n), s)"
  by (simp add: find_user_def and_then_def)

lemma find_user_state [simp]: "snd (find_user n s) = s"
  by (simp add: find_user_run)

text \<open>
  The identifiers of a serial table: positive, strictly increasing, below the sequence.
\<close>

definition serial :: "int list \<Rightarrow> int \<Rightarrow> bool" where
  "serial ids n \<longleftrightarrow> sorted_wrt (<) ids \<and> (\<forall>i \<in> set ids. 0 < i \<and> i < n \<and> int4 i) \<and> 0 < n"

lemma serial_snoc:
  "serial ids n \<Longrightarrow> n \<le> 2147483647 \<Longrightarrow> serial (ids @ [n]) (n + 1)"
  by (force simp: serial_def sorted_wrt_append int4_def)

lemma serial_grow: "serial ids n \<Longrightarrow> n \<le> m \<Longrightarrow> serial ids m"
  by (force simp: serial_def)

lemma serial_distinct: "serial ids n \<Longrightarrow> distinct ids"
  by (simp add: serial_def strict_sorted_iff)

lemma serial_fresh: "serial ids n \<Longrightarrow> n \<notin> set ids"
  by (auto simp: serial_def)

subsection \<open>What a successful statement did\<close>

lemma nextval_ok:
  "nextval get put s = (Inr n, s') \<Longrightarrow> n = get s \<and> n \<le> 2147483647 \<and> s' = put (n + 1) s"
  by (auto simp: nextval_def split: if_splits)

lemma guard_ok: "guard b e s = (Inr u, s') \<Longrightarrow> b \<and> s' = s"
  by (auto simp: guard_def split: if_splits)

lemma insert_product_ok:
  assumes "insert_product name price stock cur s = (Inr p, s')"
  shows "p = \<lparr>p_id = seq_products s, p_name = name, p_priceCents = price, p_stock = stock,
              p_currency = cur, p_createdAt = clock s\<rparr>
    \<and> s' = s\<lparr>products := products s @ [p], seq_products := seq_products s + 1\<rparr>
    \<and> name \<notin> p_name ` set (products s) \<and> int4 price \<and> int4 stock"
  using assms unfolding insert_product_def
  by (auto elim!: and_then_okE dest!: guard_ok nextval_ok simp: Let_def)

lemma insert_order_ok:
  assumes "insert_order userId email status tot cur s = (Inr r, s')"
  shows "r = \<lparr>o_id = seq_orders s, o_userId = userId, o_customerEmail = email, o_status = status,
              o_totalCents = tot, o_currency = cur, o_createdAt = clock s\<rparr>
    \<and> s' = s\<lparr>orders := orders s @ [r], seq_orders := seq_orders s + 1\<rparr>
    \<and> pred_option (\<lambda>u. u \<in> u_id ` set (users s)) userId \<and> int4 tot"
  using assms unfolding insert_order_def
  by (auto elim!: and_then_okE dest!: guard_ok nextval_ok simp: Let_def)

lemma insert_order_item_ok:
  assumes "insert_order_item oid pid qty price s = (Inr r, s')"
  shows "r = \<lparr>i_id = seq_items s, i_orderId = oid, i_productId = pid, i_quantity = qty,
              i_priceAtPurchaseCents = price\<rparr>
    \<and> s' = s\<lparr>order_items := order_items s @ [r], seq_items := seq_items s + 1\<rparr>
    \<and> oid \<in> o_id ` set (orders s) \<and> pid \<in> p_id ` set (products s)"
  using assms unfolding insert_order_item_def
  by (auto elim!: and_then_okE dest!: guard_ok nextval_ok simp: Let_def)

lemma insert_job_ok:
  assumes "insert_job oid s = (Inr r, s')"
  shows "r = \<lparr>j_id = seq_jobs s, j_orderId = Some oid, j_status = ''new'', j_worker = None,
              j_processed = 0, j_createdAt = clock s\<rparr>
    \<and> s' = s\<lparr>jobs := jobs s @ [r], seq_jobs := seq_jobs s + 1\<rparr> \<and> oid \<in> o_id ` set (orders s)"
  using assms unfolding insert_job_def
  by (auto elim!: and_then_okE dest!: guard_ok nextval_ok simp: Let_def)

lemma find_product_ok:
  "find_product x s = (Inr r, s') \<Longrightarrow> s' = s \<and> (\<forall>p. r = Some p \<longrightarrow> p \<in> set (products s))"
  by (auto simp: find_product_def split: sum.splits dest: find_Some_in)

lemma find_product_state [simp]: "snd (find_product x s) = s"
  by (simp add: find_product_def split: sum.splits)

lemma int_param_int: "int4 n \<Longrightarrow> int_param (Num (of_int n)) = Inr n"
  by (simp add: int_param_def)

lemma int_param_ok: "int_param x = Inr n \<Longrightarrow> x = Num (of_int n) \<and> int4 n"
  by (cases x) (auto simp: int_param_def split: option.splits if_splits)

lemma sort_key_serial [simp]: "serial (map rid rows) n \<Longrightarrow> sort_key rid rows = rows"
  by (rule sort_key_id_if_sorted) (auto simp: serial_def intro: strict_sorted_imp_sorted)

lemma select_after_start:
  "serial (map rid rows) n \<Longrightarrow> select_after rid (Num 0) k rows = Inr (take k rows)"
  by (simp add: select_after_def truthy_num_def)

lemma select_after_row:
  assumes "serial (map rid rows) n" "r \<in> set rows"
  shows "select_after rid (Num (of_int (rid r))) k rows
    = Inr (take k (filter (\<lambda>q. rid r < rid q) rows))"
proof -
  have "0 < rid r" "int4 (rid r)" using assms by (auto simp: serial_def)
  then show ?thesis using assms(1)
    by (simp add: select_after_def truthy_num_def int_param_int)
qed

lemma serial_sorted_rows: "serial (map rid rows) n \<Longrightarrow> sorted_wrt (\<lambda>a b. rid a < rid b) rows"
  by (simp add: serial_def sorted_wrt_map)

subsection \<open>Transactions and invariants\<close>

text \<open>
  The tables of two databases agree, whatever their sequences: what a rollback restores.
\<close>

definition same_tables :: "db \<Rightarrow> db \<Rightarrow> bool" where
  "same_tables s s' \<longleftrightarrow> rolled_back s s' = s'"

lemma same_tables_rolled_back [simp]: "same_tables s (rolled_back s s')"
  by (simp add: same_tables_def rolled_back_def)

lemma rolled_back_simps [simp]:
  "clock (rolled_back s s') = clock s" "users (rolled_back s s') = users s"
  "products (rolled_back s s') = products s" "orders (rolled_back s s') = orders s"
  "order_items (rolled_back s s') = order_items s" "jobs (rolled_back s s') = jobs s"
  "outbox (rolled_back s s') = outbox s"
  "idempotency_keys (rolled_back s s') = idempotency_keys s"
  "processed_messages (rolled_back s s') = processed_messages s"
  "processed_order_events (rolled_back s s') = processed_order_events s"
  "refresh_tokens (rolled_back s s') = refresh_tokens s"
  "seq_products (rolled_back s s') = seq_products s'" "seq_orders (rolled_back s s') = seq_orders s'"
  "seq_items (rolled_back s s') = seq_items s'" "seq_jobs (rolled_back s s') = seq_jobs s'"
  by (simp_all add: rolled_back_def)

lemma transaction_ok_iff [simp]:
  "transaction m s = (Inr a, s') \<longleftrightarrow> m s = (Inr a, s')"
  by (auto simp: transaction_def split: prod.splits sum.splits)

lemma transaction_run [simp]: "m s = (Inr a, s') \<Longrightarrow> transaction m s = (Inr a, s')"
  by simp

lemma transaction_run_error [simp]:
  "m s = (Inl e, t) \<Longrightarrow> transaction m s = (Inl e, rolled_back s t)"
  by (simp add: transaction_def)

lemma transaction_error:
  "transaction m s = (Inl e, s') \<Longrightarrow> \<exists>t. m s = (Inl e, t) \<and> s' = rolled_back s t"
  by (auto simp: transaction_def split: prod.splits sum.splits)

definition serials :: "db \<Rightarrow> bool" where
  "serials s \<longleftrightarrow>
     serial (map p_id (products s)) (seq_products s) \<and> serial (map o_id (orders s)) (seq_orders s)
     \<and> serial (map i_id (order_items s)) (seq_items s) \<and> serial (map j_id (jobs s)) (seq_jobs s)"

text \<open>Foreign keys, and the unique columns that are not identifiers.\<close>

definition references :: "db \<Rightarrow> bool" where
  "references s \<longleftrightarrow>
     (\<forall>r \<in> set (orders s). pred_option (\<lambda>u. u \<in> u_id ` set (users s)) (o_userId r))
     \<and> (\<forall>r \<in> set (order_items s). i_orderId r \<in> o_id ` set (orders s)
                                 \<and> i_productId r \<in> p_id ` set (products s))
     \<and> (\<forall>r \<in> set (jobs s). pred_option (\<lambda>i. i \<in> o_id ` set (orders s)) (j_orderId r))
     \<and> (\<forall>r \<in> set (idempotency_keys s). pred_option (\<lambda>i. i \<in> o_id ` set (orders s)) (ik_order_id r))"

definition uniques :: "db \<Rightarrow> bool" where
  "uniques s \<longleftrightarrow>
     distinct (map p_name (products s)) \<and> distinct (map u_id (users s))
     \<and> distinct (map u_email (users s)) \<and> distinct (map ob_id (outbox s))
     \<and> distinct (map ik_key (idempotency_keys s))"

definition db_wf :: "db \<Rightarrow> bool" where
  "db_wf s \<longleftrightarrow> serials s \<and> references s \<and> uniques s"

lemmas db_wf_defs = db_wf_def serials_def references_def uniques_def

lemma db_wf_empty: "db_wf empty_db"
  by (simp add: db_wf_defs serial_def empty_db_def)

text \<open>
  A statement only moves sequences forward: with that, an invariant of the tables survives a
  rollback.
\<close>

definition seqs_le :: "db \<Rightarrow> db \<Rightarrow> bool" where
  "seqs_le s s' \<longleftrightarrow> seq_products s \<le> seq_products s' \<and> seq_orders s \<le> seq_orders s'
     \<and> seq_items s \<le> seq_items s' \<and> seq_jobs s \<le> seq_jobs s'"

definition forward :: "'a db_action \<Rightarrow> bool" where
  "forward m \<longleftrightarrow> (\<forall>s. seqs_le s (snd (m s)))"

named_theorems forward_intro \<open>statements that only move sequences forward\<close>

lemma forward_ret [forward_intro]: "forward (ret a)"
  by (simp add: forward_def seqs_le_def)

lemma forward_throw [forward_intro]: "forward (throw e)"
  by (simp add: forward_def seqs_le_def)

lemma forward_gets [forward_intro]: "forward (gets f)"
  by (simp add: forward_def seqs_le_def)

lemma forward_guard [forward_intro]: "forward (guard b e)"
  by (simp add: forward_def seqs_le_def)

lemma forward_and_then [forward_intro]:
  assumes "forward m" and "\<And>a. forward (f a)"
  shows "forward (and_then m f)"
  unfolding forward_def
proof
  fix s
  obtain r t where m: "m s = (r, t)" by (cases "m s")
  have "seqs_le s t" using assms(1) m by (metis forward_def snd_conv)
  moreover have "seqs_le t (snd (f a t))" for a using assms(2) by (simp add: forward_def)
  ultimately show "seqs_le s (snd (and_then m f s))"
    using m by (cases r) (auto simp: seqs_le_def intro: order.trans)
qed

lemma forward_for_each [forward_intro]: "(\<And>x. forward (f x)) \<Longrightarrow> forward (for_each f xs)"
  by (induction xs) (auto intro!: forward_intro)

lemma forward_modify: "(\<And>s. seqs_le s (f s)) \<Longrightarrow> forward (modify f)"
  by (simp add: forward_def)

lemma forward_case_option [forward_intro]:
  "forward m \<Longrightarrow> (\<And>a. forward (f a)) \<Longrightarrow> forward (case x of None \<Rightarrow> m | Some a \<Rightarrow> f a)"
  by (cases x) simp_all

lemma forward_if [forward_intro]: "forward m \<Longrightarrow> forward n \<Longrightarrow> forward (if b then m else n)"
  by simp

lemma forward_find_product [forward_intro]: "forward (find_product x)"
  by (simp add: find_product_def forward_def seqs_le_def split: sum.splits)

lemma forward_nextval:
  "(\<And>s. seqs_le s (put (get s + 1) s)) \<Longrightarrow> forward (nextval get put)"
  by (simp add: forward_def nextval_def seqs_le_def)

lemma forward_insert [forward_intro]:
  "forward (insert_product name price stock cur)" "forward (insert_order uid email status tot cur)"
  "forward (insert_order_item oid pid qty price)" "forward (insert_job oid)"
  unfolding insert_product_def insert_order_def insert_order_item_def insert_job_def Let_def
  by (intro forward_intro forward_nextval forward_modify; simp add: seqs_le_def)+

lemma keeps_transaction:
  assumes "keeps P m" and "forward m"
    and "\<And>s t. P s \<Longrightarrow> seqs_le s t \<Longrightarrow> P (rolled_back s t)"
  shows "keeps P (transaction m)"
proof
  fix s assume P: "P s"
  obtain r t where m: "m s = (r, t)" by (cases "m s")
  have "seqs_le s t" using assms(2) m by (metis forward_def snd_conv)
  moreover have "P t" using keepsD' [OF assms(1) P m] .
  ultimately show "P (snd (transaction m s))"
    using m assms(3) [OF P] by (cases r) (auto simp: transaction_def)
qed

lemma keeps_transaction_ok:
  assumes "\<And>s a s'. P s \<Longrightarrow> m s = (Inr a, s') \<Longrightarrow> P s'" and "forward m"
    and "\<And>s t. P s \<Longrightarrow> seqs_le s t \<Longrightarrow> P (rolled_back s t)"
  shows "keeps P (transaction m)"
proof
  fix s assume P: "P s"
  obtain r t where m: "m s = (r, t)" by (cases "m s")
  have "seqs_le s t" using assms(2) m by (metis forward_def snd_conv)
  then show "P (snd (transaction m s))"
    using m assms(1,3) [OF P] by (cases r) (auto simp: transaction_def)
qed

lemma db_wf_rolled_back: "db_wf s \<Longrightarrow> seqs_le s t \<Longrightarrow> db_wf (rolled_back s t)"
  by (auto simp: db_wf_defs seqs_le_def intro: serial_grow)

lemma keeps_db_wf_transaction: "keeps db_wf m \<Longrightarrow> forward m \<Longrightarrow> keeps db_wf (transaction m)"
  by (rule keeps_transaction) (auto intro: db_wf_rolled_back)

text \<open>A failing insert changes no table.\<close>

lemma insert_order_error: "insert_order uid email status tot cur s = (Inl e, s') \<Longrightarrow> same_tables s s'"
  by (auto simp: insert_order_def and_then_def nextval_def guard_def same_tables_def rolled_back_def
      Let_def split: if_splits)

lemma insert_order_item_error: "insert_order_item oid pid qty price s = (Inl e, s') \<Longrightarrow> same_tables s s'"
  by (auto simp: insert_order_item_def and_then_def nextval_def guard_def same_tables_def
      rolled_back_def Let_def split: if_splits)

lemma insert_job_error: "insert_job oid s = (Inl e, s') \<Longrightarrow> same_tables s s'"
  by (auto simp: insert_job_def and_then_def nextval_def guard_def same_tables_def rolled_back_def
      Let_def split: if_splits)

lemma insert_product_error: "insert_product name price stock cur s = (Inl e, s') \<Longrightarrow> same_tables s s'"
  by (auto simp: insert_product_def and_then_def nextval_def guard_def same_tables_def
      rolled_back_def Let_def split: if_splits)

lemma keeps_db_wf_statement:
  assumes "forward m"
    and err: "\<And>s e s'. m s = (Inl e, s') \<Longrightarrow> same_tables s s'"
    and ok: "\<And>s a s'. db_wf s \<Longrightarrow> m s = (Inr a, s') \<Longrightarrow> db_wf s'"
  shows "keeps db_wf m"
proof
  fix s assume wf: "db_wf s"
  obtain r t where m: "m s = (r, t)" by (cases "m s")
  have le: "seqs_le s t" using assms(1) m by (metis forward_def snd_conv)
  show "db_wf (snd (m s))"
  proof (cases r)
    case (Inl e)
    then have "rolled_back s t = t" using err m by (simp add: same_tables_def)
    then show ?thesis using db_wf_rolled_back [OF wf le] m by simp
  next
    case (Inr a)
    then show ?thesis using ok [OF wf] m by simp
  qed
qed

lemma nextval_bound:
  "insert_order uid email status tot cur s = (Inr r, s') \<Longrightarrow> seq_orders s \<le> 2147483647"
  "insert_order_item oid pid qty price s = (Inr r', s') \<Longrightarrow> seq_items s \<le> 2147483647"
  "insert_job oid s = (Inr r'', s') \<Longrightarrow> seq_jobs s \<le> 2147483647"
  "insert_product name price stock cur s = (Inr p, s') \<Longrightarrow> seq_products s \<le> 2147483647"
  unfolding insert_product_def insert_order_def insert_order_item_def insert_job_def
  by (auto elim!: and_then_okE dest!: guard_ok nextval_ok simp: Let_def)

lemma keeps_db_wf_insert_order [keeps_intro]: "keeps db_wf (insert_order uid email status tot cur)"
proof (rule keeps_db_wf_statement)
  fix s r s'
  assume wf: "db_wf s" and m: "insert_order uid email status tot cur s = (Inr r, s')"
  show "db_wf s'"
    using wf insert_order_ok [OF m] nextval_bound(1) [OF m]
    by (auto simp: db_wf_defs pred_option_def intro: serial_snoc)
qed (auto intro: forward_intro dest: insert_order_error)

lemma keeps_db_wf_insert_order_item [keeps_intro]: "keeps db_wf (insert_order_item oid pid qty price)"
proof (rule keeps_db_wf_statement)
  fix s r s'
  assume wf: "db_wf s" and m: "insert_order_item oid pid qty price s = (Inr r, s')"
  show "db_wf s'"
    using wf insert_order_item_ok [OF m] nextval_bound(2) [OF m]
    by (auto simp: db_wf_defs intro: serial_snoc)
qed (auto intro: forward_intro dest: insert_order_item_error)

lemma keeps_db_wf_insert_job [keeps_intro]: "keeps db_wf (insert_job oid)"
proof (rule keeps_db_wf_statement)
  fix s r s'
  assume wf: "db_wf s" and m: "insert_job oid s = (Inr r, s')"
  show "db_wf s'"
    using wf insert_job_ok [OF m] nextval_bound(3) [OF m]
    by (auto simp: db_wf_defs intro: serial_snoc)
qed (auto intro: forward_intro dest: insert_job_error)

lemma keeps_db_wf_insert_product [keeps_intro]: "keeps db_wf (insert_product name price stock cur)"
proof (rule keeps_db_wf_statement)
  fix s r s'
  assume wf: "db_wf s" and m: "insert_product name price stock cur s = (Inr r, s')"
  show "db_wf s'"
    using wf insert_product_ok [OF m] nextval_bound(4) [OF m]
    by (auto simp: db_wf_defs intro: serial_snoc)
qed (auto intro: forward_intro dest: insert_product_error)

lemma keeps_find_product [keeps_intro]: "keeps P (find_product x)"
  by (simp add: keeps_def)

lemma keeps_find_user [keeps_intro]: "keeps P (find_user n)"
  by (simp add: keeps_def)

lemma forward_find_user [forward_intro]: "forward (find_user n)"
  by (simp add: forward_def seqs_le_def)

end
