(* ===== verification/Redis.thy ===== *)
theory Redis
  imports Database
begin

text \<open>
  The keyspace of a Redis instance and the commands the program issues on it. A value may carry
  an expiry instant; an expired key reads as absent. \<open>r_us\<close> is the server clock in microseconds
  (what \<open>TIME\<close> returns), \<open>r_up\<close> says whether the instance answers: when it does not, every
  command throws and changes nothing. Expiries are in milliseconds.

  The locale \<open>expiring_keys\<close> is what the denylist and the session store need of such a store;
  its interpretation at the end discharges the laws for the keyspace defined here.
\<close>

datatype rvalue = RString string | RZset "(int \<times> string) list"

record redis =
  r_us :: int
  r_up :: bool
  r_data :: "string \<Rightarrow> (rvalue \<times> int option) option"

type_synonym 'a redis_action = "(redis, error, 'a) action"

definition now_ms :: "redis \<Rightarrow> int" where
  "now_ms r = r_us r div 1000"

definition live :: "redis \<Rightarrow> string \<Rightarrow> rvalue option" where
  "live r k =
     (case r_data r k of
        None \<Rightarrow> None
      | Some (v, None) \<Rightarrow> Some v
      | Some (v, Some t) \<Rightarrow> if now_ms r < t then Some v else None)"

definition put :: "string \<Rightarrow> rvalue \<Rightarrow> int option \<Rightarrow> redis \<Rightarrow> redis" where
  "put k v expiry r = r\<lparr>r_data := (r_data r)(k := Some (v, expiry))\<rparr>"

definition erase :: "string \<Rightarrow> redis \<Rightarrow> redis" where
  "erase k r = r\<lparr>r_data := (r_data r)(k := None)\<rparr>"

definition command :: "'a redis_action \<Rightarrow> 'a redis_action" where
  "command m = (\<lambda>r. if r_up r then m r else (Inl (RedisError ''unavailable''), r))"

text \<open>\<open>SET k v EX sec\<close>, \<open>SET k v PX ms NX\<close>, \<open>GET\<close>, \<open>GETEX k EX sec\<close>, \<open>DEL\<close>, \<open>EXISTS\<close>.\<close>

definition redis_set_ex :: "string \<Rightarrow> string \<Rightarrow> int \<Rightarrow> unit redis_action" where
  "redis_set_ex k v sec = command (\<lambda>r.
     if sec \<le> 0 then (Inl (RedisError ''invalid expire time''), r)
     else (Inr (), put k (RString v) (Some (now_ms r + sec * 1000)) r))"

definition redis_set_nx_px :: "string \<Rightarrow> string \<Rightarrow> int \<Rightarrow> bool redis_action" where
  "redis_set_nx_px k v ms = command (\<lambda>r.
     if ms \<le> 0 then (Inl (RedisError ''invalid expire time''), r)
     else if live r k = None then (Inr True, put k (RString v) (Some (now_ms r + ms)) r)
     else (Inr False, r))"

definition redis_get :: "string \<Rightarrow> string option redis_action" where
  "redis_get k = command (\<lambda>r.
     case live r k of
       None \<Rightarrow> (Inr None, r)
     | Some (RString v) \<Rightarrow> (Inr (Some v), r)
     | Some (RZset _) \<Rightarrow> (Inl (RedisError ''WRONGTYPE''), r))"

definition redis_getex :: "string \<Rightarrow> int \<Rightarrow> string option redis_action" where
  "redis_getex k sec = command (\<lambda>r.
     case live r k of
       None \<Rightarrow> (Inr None, r)
     | Some (RString v) \<Rightarrow>
         if sec \<le> 0 then (Inl (RedisError ''invalid expire time''), r)
         else (Inr (Some v), put k (RString v) (Some (now_ms r + sec * 1000)) r)
     | Some (RZset _) \<Rightarrow> (Inl (RedisError ''WRONGTYPE''), r))"

definition redis_del :: "string \<Rightarrow> int redis_action" where
  "redis_del k = command (\<lambda>r. (Inr (if live r k = None then 0 else 1), erase k r))"

definition redis_exists :: "string list \<Rightarrow> int redis_action" where
  "redis_exists ks = command (\<lambda>r. (Inr (int (length (filter (\<lambda>k. live r k \<noteq> None) ks))), r))"

text \<open>Time passes: the clock moves forward, the keys stay.\<close>

definition at_time :: "int \<Rightarrow> redis \<Rightarrow> redis" where
  "at_time us r = r\<lparr>r_us := us\<rparr>"

lemma redis_fields [simp]:
  "r_us (put k v e r) = r_us r" "r_up (put k v e r) = r_up r"
  "r_us (erase k r) = r_us r" "r_up (erase k r) = r_up r"
  "r_us (at_time us r) = us" "r_up (at_time us r) = r_up r"
  "r_data (at_time us r) = r_data r" "now_ms (put k v e r) = now_ms r"
  "now_ms (erase k r) = now_ms r" "now_ms (at_time us r) = us div 1000"
  by (simp_all add: put_def erase_def at_time_def now_ms_def)

lemma live_put: "live (put k v e r) j =
    (if j = k then (case e of None \<Rightarrow> Some v | Some t \<Rightarrow> if now_ms r < t then Some v else None)
     else live r j)"
  by (simp add: live_def put_def now_ms_def split: option.splits)

lemma live_erase [simp]: "live (erase k r) j = (if j = k then None else live r j)"
  by (simp add: live_def erase_def now_ms_def split: option.splits)

lemma live_put_later:
  "live (at_time us (put k v (Some t) r)) k = (if us div 1000 < t then Some v else None)"
  by (simp add: live_def at_time_def put_def now_ms_def)

lemma live_expired_stays:
  "live (at_time us r) k = None \<Longrightarrow> us \<le> us' \<Longrightarrow> live (at_time us' r) k = None"
proof -
  assume "live (at_time us r) k = None" "us \<le> us'"
  moreover have "us div 1000 \<le> us' div 1000" using \<open>us \<le> us'\<close> by (rule zdiv_mono1) simp
  ultimately show ?thesis
    by (auto simp: live_def split: option.splits prod.splits if_splits)
qed

lemma command_down: "\<not> r_up r \<Longrightarrow> command m r = (Inl (RedisError ''unavailable''), r)"
  by (simp add: command_def)

lemma command_up: "r_up r \<Longrightarrow> command m r = m r"
  by (simp add: command_def)

subsection \<open>What a client of expiring keys relies on\<close>

locale expiring_keys =
  fixes set_ex :: "'k \<Rightarrow> 'v \<Rightarrow> int \<Rightarrow> ('s, 'e, unit) action"
    and holds :: "'s \<Rightarrow> 'k \<Rightarrow> 'v option"
    and clock_ms :: "'s \<Rightarrow> int"
    and elapse :: "int \<Rightarrow> 's \<Rightarrow> 's"
    and up :: "'s \<Rightarrow> bool"
  assumes set_ex_ok: "up s \<Longrightarrow> 0 < sec \<Longrightarrow> fst (set_ex k v sec s) = Inr ()"
    and set_ex_up: "up (snd (set_ex k v sec s)) = up s"
    and set_ex_down: "\<not> up s \<Longrightarrow> (\<exists>e. fst (set_ex k v sec s) = Inl e) \<and> snd (set_ex k v sec s) = s"
    and set_ex_holds: "up s \<Longrightarrow> 0 < sec \<Longrightarrow> clock_ms s \<le> t \<Longrightarrow>
      holds (elapse t (snd (set_ex k v sec s))) k = (if t < clock_ms s + sec * 1000 then Some v else None)"
    and set_ex_other: "j \<noteq> k \<Longrightarrow> holds (elapse t (snd (set_ex k v sec s))) j = holds (elapse t s) j"
begin

text \<open>A key set for at least as long as it matters is there whenever it matters.\<close>

lemma held_until:
  assumes "up s" "0 < sec" "clock_ms s \<le> t" "t < clock_ms s + sec * 1000"
  shows "holds (elapse t (snd (set_ex k v sec s))) k = Some v"
  using set_ex_holds [OF assms(1-3), of k v] assms(4) by simp

text \<open>Setting a key again never shortens another key's life.\<close>

lemma held_other:
  "holds (elapse t s) j = Some v \<Longrightarrow> j \<noteq> k \<Longrightarrow> holds (elapse t (snd (set_ex k w sec s))) j = Some v"
  by (simp add: set_ex_other)

end

interpretation redis_keys: expiring_keys redis_set_ex
  "\<lambda>r k. case live r k of Some (RString v) \<Rightarrow> Some v | _ \<Rightarrow> None" now_ms
  "\<lambda>t r. at_time (t * 1000) r" r_up
  by unfold_locales
    (auto simp: redis_set_ex_def command_def live_put_later live_put at_time_def put_def live_def
      now_ms_def split: option.splits)

end
