(* ===== verification/RateLimit.thy ===== *)
theory RateLimit
  imports Redis
begin

text \<open>
  \<open>src/ratelimit\<close> and \<open>src/auth/login-throttle.ts\<close>: the sliding window limiter (its Lua script is
  one atomic action of the keyspace), the guard in front of a route, and the login throttle. \<open>member\<close> is the \<open>randomUUID()\<close> a call adds to the window.
\<close>

definition zset_of :: "redis \<Rightarrow> string \<Rightarrow> error + (int \<times> string) list" where
  "zset_of r k =
     (case live r k of
        None \<Rightarrow> Inr []
      | Some (RZset zs) \<Rightarrow> Inr zs
      | Some (RString _) \<Rightarrow> Inl (RedisError ''WRONGTYPE''))"

text \<open>\<open>ZADD\<close> of one member, which moves it if it is there already.\<close>

definition zadd :: "int \<Rightarrow> string \<Rightarrow> (int \<times> string) list \<Rightarrow> (int \<times> string) list" where
  "zadd score member zs = filter (\<lambda>e. snd e \<noteq> member) zs @ [(score, member)]"

text \<open>Writing the set back: an empty set is an absent key; the expiry of the key is kept.\<close>

definition store_zset :: "string \<Rightarrow> (int \<times> string) list \<Rightarrow> redis \<Rightarrow> redis" where
  "store_zset k zs r =
     (if zs = [] then erase k r
      else put k (RZset zs) (case r_data r k of None \<Rightarrow> None | Some (_, e) \<Rightarrow> e) r)"

definition script_now :: "redis \<Rightarrow> int" where
  "script_now r = r_us r div 1000000 * 1000 + r_us r mod 1000000 div 1000"

definition SLIDING_WINDOW_LUA ::
  "string \<Rightarrow> int \<Rightarrow> int \<Rightarrow> string \<Rightarrow> (int \<times> int \<times> int) redis_action" where
  "SLIDING_WINDOW_LUA key window limit member = (\<lambda>r.
     let now = script_now r in
     case zset_of r key of
       Inl e \<Rightarrow> (Inl e, r)
     | Inr all \<Rightarrow>
         (let zs = filter (\<lambda>e. now - window < fst e) all;
              r1 = store_zset key zs r;
              count = int (length zs)
          in if count < limit
             then (Inr (1, limit - count - 1, 0),
                   put key (RZset (zadd now member zs)) (Some (now_ms r + window)) r1)
             else if zs = [] then (Inl (RedisError ''nil score''), r1)
             else (Inr (0, 0, Min (fst ` set zs) + window - now), r1)))"

record limit_result =
  allowed :: bool
  remaining :: int
  retryAfterSec :: int

record limiter =
  l_limit :: int
  l_windowMs :: int
  l_prefix :: string
  l_failOpen :: bool

definition new_limiter :: "int \<Rightarrow> int \<Rightarrow> string option \<Rightarrow> bool option \<Rightarrow> limiter" where
  "new_limiter limit windowMs prefix failOpen =
     \<lparr>l_limit = limit, l_windowMs = windowMs,
      l_prefix = (case prefix of None \<Rightarrow> ''rl'' | Some p \<Rightarrow> p),
      l_failOpen = (case failOpen of None \<Rightarrow> True | Some b \<Rightarrow> b)\<rparr>"

definition ceil_div :: "int \<Rightarrow> int \<Rightarrow> int" where
  "ceil_div a b = - ((- a) div b)"

definition consume :: "limiter \<Rightarrow> string \<Rightarrow> string \<Rightarrow> limit_result redis_action" where
  "consume l member i =
     on_error
       (and_then
         (command (SLIDING_WINDOW_LUA (l_prefix l @ '':'' @ i) (l_windowMs l) (l_limit l) member))
         (\<lambda>(ok, rest, retryMs).
            ret \<lparr>allowed = (ok = 1), remaining = rest,
                 retryAfterSec = (if ok = 1 then 0 else max 1 (ceil_div retryMs 1000))\<rparr>))
       (\<lambda>err. if \<not> l_failOpen l then throw err
             else ret \<lparr>allowed = True, remaining = l_limit l, retryAfterSec = 0\<rparr>)"

subsection \<open>In front of a route\<close>

text \<open>
  \<open>RateLimitGuard.canActivate\<close>: \<open>None\<close> for the limiter when Redis is disabled. The value is the
  \<open>Retry-After\<close> header set, if any; a refused request throws 429 after setting it, so the header
  is part of the error's value.
\<close>

datatype 'h guarded = Pass | Refuse error "'h"

definition rate_limit_guard ::
  "limiter option \<Rightarrow> string \<Rightarrow> string option \<Rightarrow> int option guarded redis_action" where
  "rate_limit_guard lm member ip =
     (case lm of
        None \<Rightarrow> ret Pass
      | Some l \<Rightarrow>
          and_then (consume l member (case ip of None \<Rightarrow> ''unknown'' | Some a \<Rightarrow> a)) (\<lambda>result.
            if allowed result then ret Pass
            else ret (Refuse (TooManyRequestsException ''Too Many Requests'')
                        (Some (retryAfterSec result)))))"

text \<open>\<open>LoginThrottle.consume\<close>: \<open>sha256_hex\<close> is the hash of the crypto library.\<close>

definition to_lower :: "string \<Rightarrow> string" where
  "to_lower s = map (\<lambda>c. let n = of_char c :: nat in if 65 \<le> n \<and> n \<le> 90 then char_of (n + 32) else c) s"

definition login_throttle ::
  "(string \<Rightarrow> string) \<Rightarrow> limiter \<Rightarrow> string \<Rightarrow> string \<Rightarrow> string \<Rightarrow> limit_result redis_action" where
  "login_throttle sha256_hex l member ip email =
     (let emailHash = take 32 (sha256_hex (to_lower (trim email))) in
      on_error (consume l member (ip @ '':'' @ emailHash))
        (\<lambda>_. throw (ServiceUnavailableException ''login limit unavailable'')))"

subsection \<open>The window\<close>

lemma script_now_ms [simp]: "script_now r = now_ms r"
proof -
  let ?x = "r_us r"
  have "?x = ?x mod 1000000 + 1000 * (1000 * (?x div 1000000))" by simp
  then have "?x div 1000 = (?x mod 1000000 + 1000 * (1000 * (?x div 1000000))) div 1000" by simp
  also have "\<dots> = 1000 * (?x div 1000000) + ?x mod 1000000 div 1000"
    by (subst div_mult_self2) simp_all
  finally show ?thesis by (simp add: script_now_def now_ms_def)
qed

text \<open>
  A history of calls for one id: the instant of each call in microseconds and its member. The
  result lists the instants (in milliseconds) of the calls that were let through.
\<close>

fun let_through :: "limiter \<Rightarrow> string \<Rightarrow> (int \<times> string) list \<Rightarrow> redis \<Rightarrow> int list \<times> redis" where
  "let_through l i [] r = ([], r)"
| "let_through l i ((us, member) # calls) r =
     (let (res, r') = consume l member i (at_time us r);
          (later, r'') = let_through l i calls r'
      in ((case res of Inr v \<Rightarrow> if allowed v then [us div 1000] else [] | Inl _ \<Rightarrow> []) @ later, r''))"

definition window_count :: "int \<Rightarrow> int \<Rightarrow> int list \<Rightarrow> nat" where
  "window_count w t hist = length (filter (\<lambda>x. t - w < x \<and> x \<le> t) hist)"

text \<open>
  What the key holds after the calls \<open>hist\<close> were let through: the instants that were still in
  the window when it was last trimmed, and an expiry one window behind the last of them.
\<close>

definition window_inv :: "string \<Rightarrow> int \<Rightarrow> string set \<Rightarrow> int list \<Rightarrow> redis \<Rightarrow> bool" where
  "window_inv k w used hist r \<longleftrightarrow>
     r_up r \<and> sorted hist \<and> (\<forall>t \<in> set hist. t \<le> now_ms r)
     \<and> (if hist = [] then r_data r k = None
        else \<exists>zs c. r_data r k = Some (RZset zs, Some (last hist + w)) \<and> c \<le> now_ms r
               \<and> map fst zs = filter (\<lambda>t. c - w < t) hist \<and> snd ` set zs \<subseteq> used)"

lemma sorted_last: "sorted xs \<Longrightarrow> x \<in> set xs \<Longrightarrow> x \<le> last xs"
  by (induction xs) (auto split: if_splits)

lemma window_view:
  assumes inv: "window_inv k w used hist r" and us: "r_us r \<le> us" and w: "0 < w"
  shows "\<exists>zs. zset_of (at_time us r) k = Inr zs
    \<and> map fst (filter (\<lambda>e. us div 1000 - w < fst e) zs) = filter (\<lambda>t. us div 1000 - w < t) hist
    \<and> snd ` set zs \<subseteq> used
    \<and> (filter (\<lambda>e. us div 1000 - w < fst e) zs \<noteq> [] \<longrightarrow>
         r_data r k = Some (RZset zs, Some (last hist + w)))"
proof (cases "hist = []")
  case True
  then show ?thesis using inv by (simp add: window_inv_def zset_of_def live_def)
next
  case False
  have le: "now_ms r \<le> us div 1000" using us by (simp add: now_ms_def zdiv_mono1)
  obtain zs c where d: "r_data r k = Some (RZset zs, Some (last hist + w))" and c: "c \<le> now_ms r"
    and m: "map fst zs = filter (\<lambda>t. c - w < t) hist" and u: "snd ` set zs \<subseteq> used"
    using inv False by (auto simp: window_inv_def)
  show ?thesis
  proof (cases "us div 1000 < last hist + w")
    case True
    have "map fst (filter (\<lambda>e. us div 1000 - w < fst e) zs)
        = filter (\<lambda>t. us div 1000 - w < t) (map fst zs)"
      by (simp add: filter_map comp_def)
    also have "\<dots> = filter (\<lambda>t. us div 1000 - w < t) hist"
      using c le by (auto simp: m intro: filter_cong)
    finally show ?thesis using True d u by (simp add: zset_of_def live_def now_ms_def at_time_def)
  next
    case gone: False
    have "\<forall>t \<in> set hist. t \<le> us div 1000 - w"
      using gone inv sorted_last [of hist] by (fastforce simp: window_inv_def)
    then have "filter (\<lambda>t. us div 1000 - w < t) hist = []" by (auto simp: filter_empty_conv)
    then show ?thesis using gone d by (simp add: zset_of_def live_def now_ms_def at_time_def)
  qed
qed

lemma sorted_snoc: "sorted xs \<Longrightarrow> (\<forall>x \<in> set xs. x \<le> y) \<Longrightarrow> sorted (xs @ [y])"
  by (simp add: sorted_append)

text \<open>One call: it is let through iff fewer than the limit are in the window behind it.\<close>

lemma consume_step:
  fixes us :: int
  defines "now \<equiv> us div 1000"
  assumes inv: "window_inv (l_prefix l @ '':'' @ i) (l_windowMs l) used hist r"
    and us: "r_us r \<le> us" and w: "0 < l_windowMs l" and lim: "0 < l_limit l" and m: "member \<notin> used"
    and run: "consume l member i (at_time us r) = (res, r')"
  shows "r_us r' = us \<and>
    (if int (length (filter (\<lambda>t. now - l_windowMs l < t) hist)) < l_limit l
     then (\<exists>v. res = Inr v \<and> allowed v \<and> retryAfterSec v = 0
             \<and> remaining v = l_limit l - int (length (filter (\<lambda>t. now - l_windowMs l < t) hist)) - 1)
          \<and> window_inv (l_prefix l @ '':'' @ i) (l_windowMs l) (insert member used) (hist @ [now]) r'
     else (\<exists>v. res = Inr v \<and> \<not> allowed v \<and> remaining v = 0
             \<and> retryAfterSec v = max 1 (ceil_div
                 (Min (set (filter (\<lambda>t. now - l_windowMs l < t) hist)) + l_windowMs l - now) 1000))
          \<and> window_inv (l_prefix l @ '':'' @ i) (l_windowMs l) (insert member used) hist r')"
proof -
  let ?k = "l_prefix l @ '':'' @ i" and ?w = "l_windowMs l" and ?r = "at_time us r"
  let ?F = "filter (\<lambda>t. now - ?w < t) hist"
  obtain zs where z: "zset_of ?r ?k = Inr zs"
    and f: "map fst (filter (\<lambda>e. now - ?w < fst e) zs) = ?F"
    and u: "snd ` set zs \<subseteq> used"
    and e: "filter (\<lambda>e. now - ?w < fst e) zs \<noteq> [] \<longrightarrow> r_data r ?k = Some (RZset zs, Some (last hist + ?w))"
    using window_view [OF inv us w] by (auto simp: now_def)
  define G where "G = filter (\<lambda>e. now - ?w < fst e) zs"
  have G: "map fst G = ?F" "snd ` set G \<subseteq> used" using f u by (auto simp: G_def)
  have len: "length G = length ?F" using G(1) length_map by metis
  have up: "r_up r" and sorted: "sorted hist" and past: "\<forall>t \<in> set hist. t \<le> now"
    using inv us by (auto simp: window_inv_def now_def now_ms_def intro: order.trans zdiv_mono1)
  have mins: "fst ` set G = set ?F" using G(1) by (metis list.set_map)
  show ?thesis
  proof (cases "int (length ?F) < l_limit l")
    case True
    have fresh: "filter (\<lambda>e. snd e \<noteq> member) G = G"
      using G(2) m by (auto simp: filter_id_conv)
    have lst: "SLIDING_WINDOW_LUA ?k ?w (l_limit l) member ?r
        = (Inr (1, l_limit l - int (length ?F) - 1, 0),
           put ?k (RZset (G @ [(now, member)])) (Some (now + ?w)) (store_zset ?k G ?r))"
      using True z len fresh
      by (simp add: SLIDING_WINDOW_LUA_def Let_def zadd_def now_def flip: G_def [unfolded now_def])
    then have r': "r' = put ?k (RZset (G @ [(now, member)])) (Some (now + ?w)) (store_zset ?k G ?r)"
      and res: "res = Inr \<lparr>allowed = True, remaining = l_limit l - int (length ?F) - 1, retryAfterSec = 0\<rparr>"
      using run up by (simp_all add: consume_def command_def and_then_def on_error_def)
    have "window_inv ?k ?w (insert member used) (hist @ [now]) r'"
      using up sorted past G w
      by (auto simp: window_inv_def r' now_def put_def store_zset_def erase_def at_time_def now_ms_def
          sorted_append intro!: exI [of _ now])
    then show ?thesis using True res by (simp add: r' store_zset_def)
  next
    case False
    then have ne: "G \<noteq> []" using len lim by auto
    have lst: "SLIDING_WINDOW_LUA ?k ?w (l_limit l) member ?r
        = (Inr (0, 0, Min (set ?F) + ?w - now), store_zset ?k G ?r)"
      using False z len ne mins
      by (simp add: SLIDING_WINDOW_LUA_def Let_def now_def flip: G_def [unfolded now_def])
    then have r': "r' = store_zset ?k G ?r"
      and res: "res = Inr \<lparr>allowed = False, remaining = 0,
        retryAfterSec = max 1 (ceil_div (Min (set ?F) + ?w - now) 1000)\<rparr>"
      using run up by (simp_all add: consume_def command_def and_then_def on_error_def)
    have "hist \<noteq> []" using G(1) ne by auto
    then have "window_inv ?k ?w (insert member used) hist r'"
      using up sorted past G ne e
      by (auto simp: window_inv_def r' now_def put_def store_zset_def at_time_def now_ms_def G_def
          intro!: exI [of _ now])
    then show ?thesis using False res ne by (simp add: r' store_zset_def)
  qed
qed

subsection \<open>The bound of the window, and when a refused client may come back\<close>

definition windows_ok :: "limiter \<Rightarrow> int list \<Rightarrow> bool" where
  "windows_ok l hist \<longleftrightarrow> (\<forall>t. int (window_count (l_windowMs l) t hist) \<le> l_limit l)"

lemma windows_ok_Nil: "0 < l_limit l \<Longrightarrow> windows_ok l []"
  by (simp add: windows_ok_def window_count_def)

lemma windows_ok_snoc:
  assumes ok: "windows_ok l hist"
    and room: "int (length (filter (\<lambda>t. now - l_windowMs l < t) hist)) < l_limit l"
    and past: "\<forall>t \<in> set hist. t \<le> now"
  shows "windows_ok l (hist @ [now])"
  unfolding windows_ok_def
proof
  fix T
  let ?w = "l_windowMs l"
  show "int (window_count ?w T (hist @ [now])) \<le> l_limit l"
  proof (cases "T - ?w < now \<and> now \<le> T")
    case True
    have "length (filter (\<lambda>x. T - ?w < x \<and> x \<le> T) hist) \<le> length (filter (\<lambda>t. now - ?w < t) hist)"
    proof -
      have "filter (\<lambda>x. T - ?w < x \<and> x \<le> T) hist
          = filter (\<lambda>x. T - ?w < x \<and> x \<le> T) (filter (\<lambda>t. now - ?w < t) hist)"
        using True by (auto intro: filter_cong)
      then show ?thesis by (metis length_filter_le)
    qed
    with True room show ?thesis by (simp add: window_count_def)
  next
    case False
    then show ?thesis using ok by (auto simp: windows_ok_def window_count_def)
  qed
qed

lemma let_through_inv:
  assumes "window_inv (l_prefix l @ '':'' @ i) (l_windowMs l) used hist r" and "windows_ok l hist"
    and "0 < l_windowMs l" and "0 < l_limit l"
    and "sorted (r_us r # map fst calls)" and "distinct (map snd calls)"
    and "snd ` set calls \<inter> used = {}" and "let_through l i calls r = (ts, r')"
  shows "windows_ok l (hist @ ts)
    \<and> window_inv (l_prefix l @ '':'' @ i) (l_windowMs l) (used \<union> snd ` set calls) (hist @ ts) r'
    \<and> r_us r' = last (r_us r # map fst calls)"
  using assms
proof (induction calls arbitrary: used hist r ts r')
  case Nil
  then show ?case by simp
next
  case (Cons c calls)
  obtain us m where c: "c = (us, m)" by (cases c)
  obtain res r1 where run: "consume l m i (at_time us r) = (res, r1)"
    by (cases "consume l m i (at_time us r)")
  obtain later r2 where rest: "let_through l i calls r1 = (later, r2)"
    by (cases "let_through l i calls r1")
  have us: "r_us r \<le> us" and fresh: "m \<notin> used" using Cons.prems c by auto
  note step = consume_step [OF Cons.prems(1) us Cons.prems(3,4) fresh run]
  have now: "\<forall>t \<in> set hist. t \<le> us div 1000"
    using Cons.prems(1) us
    by (auto simp: window_inv_def now_ms_def intro: order.trans zdiv_mono1)
  have sorted': "sorted (r_us r1 # map fst calls)" using Cons.prems(5) c step by simp
  have used': "snd ` set calls \<inter> insert m used = {}" "distinct (map snd calls)"
    using Cons.prems(6,7) c by auto
  show ?case
  proof (cases "int (length (filter (\<lambda>t. us div 1000 - l_windowMs l < t) hist)) < l_limit l")
    case True
    obtain v where v: "res = Inr v" "allowed v" using True step by auto
    have ts: "ts = us div 1000 # later" "r' = r2"
      using Cons.prems(8) c run rest v by auto
    have inv1: "window_inv (l_prefix l @ '':'' @ i) (l_windowMs l) (insert m used) (hist @ [us div 1000]) r1"
      using True step by simp
    have ok1: "windows_ok l (hist @ [us div 1000])"
      using windows_ok_snoc [OF Cons.prems(2) True now] .
    show ?thesis
      using Cons.IH [OF inv1 ok1 Cons.prems(3,4) sorted' used'(2,1) rest] ts c step by simp
  next
    case False
    obtain v where v: "res = Inr v" "\<not> allowed v" using False step by auto
    have ts: "ts = later" "r' = r2"
      using Cons.prems(8) c run rest v by auto
    have inv1: "window_inv (l_prefix l @ '':'' @ i) (l_windowMs l) (insert m used) hist r1"
      using False step by simp
    show ?thesis
      using Cons.IH [OF inv1 Cons.prems(2) Cons.prems(3,4) sorted' used'(2,1) rest] ts c step by simp
  qed
qed

lemma window_inv_start:
  "r_up r \<Longrightarrow> r_data r k = None \<Longrightarrow> window_inv k w {} [] r"
  by (simp add: window_inv_def)


text \<open>An empty keyspace, for the examples.\<close>

definition sample_redis :: redis where
  "sample_redis = \<lparr>r_us = 0, r_up = True, r_data = \<lambda>_. None\<rparr>"


lemma ceil_div_ge: "0 < b \<Longrightarrow> a \<le> ceil_div a b * b"
proof -
  assume b: "0 < b"
  have "(- a) div b * b \<le> - a" using b by (metis add_le_same_cancel1 div_mult_mod_eq pos_mod_sign le_add_same_cancel1)
  then show ?thesis by (simp add: ceil_div_def)
qed

lemma filter_drop_min:
  assumes "x \<in> set xs" "\<not> P x" "\<And>y. P y \<Longrightarrow> Q y" "Q x"
  shows "length (filter P xs) < length (filter Q xs)"
proof -
  have "filter P xs = filter P (filter Q xs)" using assms(3) by (auto intro: filter_cong)
  moreover have "x \<in> set (filter Q xs)" using assms(1,4) by simp
  ultimately show ?thesis using assms(2) by (metis length_filter_less)
qed

text \<open>A refused call names a delay after which the next call is let through: when the client
  waits \<open>retryAfterSec\<close> seconds or longer and nobody else used the id meanwhile, it passes.\<close>

theorem limiter_retry_after:
  assumes "r_up r" and "r_data r (l_prefix l @ '':'' @ i) = None"
    and "0 < l_windowMs l" and "0 < l_limit l"
    and "sorted (r_us r # map fst calls @ [us])" and "distinct (map snd calls @ [m, m'])"
    and "let_through l i calls r = (ts, r1)"
    and "consume l m i (at_time us r1) = (Inr v, r2)" and "\<not> allowed v"
    and "us + retryAfterSec v * 1000000 \<le> us'"
  shows "\<exists>v'. fst (consume l m' i (at_time us' r2)) = Inr v' \<and> allowed v'"
proof -
  let ?k = "l_prefix l @ '':'' @ i" and ?w = "l_windowMs l" and ?used = "snd ` set calls"
  let ?now = "us div 1000" and ?now' = "us' div 1000"
  have sorted1: "sorted (r_us r # map fst calls)" and "\<forall>x \<in> set (r_us r # map fst calls). x \<le> us"
    using assms(5) by (auto simp: sorted_append)
  then have last: "last (r_us r # map fst calls) \<le> us"
    by (metis last_in_set list.distinct(1))
  have inv: "windows_ok l ts" "window_inv ?k ?w ?used ts r1" "r_us r1 \<le> us"
    using let_through_inv [OF window_inv_start [OF assms(1,2)] windows_ok_Nil [OF assms(4)]
        assms(3,4) sorted1 _ _ assms(7)] assms(6) last by auto
  let ?F = "filter (\<lambda>t. ?now - ?w < t) ts"
  have fresh: "m \<notin> ?used" "m' \<notin> insert m ?used" using assms(6) by auto
  note step = consume_step [OF inv(2,3) assms(3,4) fresh(1) assms(8)]
  have full: "\<not> int (length ?F) < l_limit l" using step assms(9) by auto
  then have inv2: "window_inv ?k ?w (insert m ?used) ts r2" and us2: "r_us r2 = us"
    and retry: "retryAfterSec v = max 1 (ceil_div (Min (set ?F) + ?w - ?now) 1000)"
    using step by auto
  have ne: "?F \<noteq> []" using full assms(4) by auto
  define x where "x = Min (set ?F)"
  have "x \<in> set ?F" using ne unfolding x_def by (intro Min_in) (simp_all only: set_empty finite_set not_False_eq_True)
  then have x: "x \<in> set ts" "?now - ?w < x" by auto
  have past: "\<forall>t \<in> set ts. t \<le> ?now"
    using inv(2,3) by (auto simp: window_inv_def now_ms_def intro: order.trans zdiv_mono1)
  have "x + ?w - ?now \<le> retryAfterSec v * 1000"
    using ceil_div_ge [of 1000 "x + ?w - ?now"] by (simp add: retry x_def)
  moreover have "?now + retryAfterSec v * 1000 \<le> ?now'"
  proof -
    have "(us + 1000 * (retryAfterSec v * 1000)) div 1000 \<le> us' div 1000"
      using assms(10) by (intro zdiv_mono1) auto
    then show ?thesis by simp
  qed
  ultimately have gone: "x \<le> ?now' - ?w" by linarith
  have later: "?now \<le> ?now'" using x gone past assms(3) by (smt (verit))
  have "length (filter (\<lambda>t. ?now' - ?w < t) ts) < length ?F"
    using x gone later by (intro filter_drop_min [of x]) auto
  moreover have "int (length ?F) \<le> l_limit l"
  proof -
    have "filter (\<lambda>t. ?now - ?w < t \<and> t \<le> ?now) ts = ?F"
      using past by (auto intro: filter_cong)
    then show ?thesis using inv(1) by (auto simp: windows_ok_def window_count_def dest: spec [of _ ?now])
  qed
  ultimately have room: "int (length (filter (\<lambda>t. ?now' - ?w < t) ts)) < l_limit l" by linarith
  have us': "r_us r2 \<le> us'"
    using us2 assms(10) retry by (smt (verit, ccfv_SIG) mult_nonneg_nonneg)
  obtain res r3 where run: "consume l m' i (at_time us' r2) = (res, r3)"
    by (cases "consume l m' i (at_time us' r2)")
  show ?thesis
    using consume_step [OF inv2 us' assms(3,4) fresh(2) run] room run by auto
qed

theorem limiter_retry_after_witness:
  "\<exists>r v. fst (consume (new_limiter 1 1000 None None) ''c'' ''ip'' (at_time 1100000 r)) = Inr v \<and> allowed v"
proof -
  let ?l = "new_limiter 1 1000 None None"
  obtain ts r1 where h: "let_through ?l ''ip'' [(0, ''a'')] sample_redis = (ts, r1)"
    by (cases "let_through ?l ''ip'' [(0, ''a'')] sample_redis")
  have "fst (consume ?l ''b'' ''ip'' (at_time 100000 (snd (let_through ?l ''ip'' [(0, ''a'')] sample_redis))))
      = Inr \<lparr>allowed = False, remaining = 0, retryAfterSec = 1\<rparr>" by code_simp
  then obtain r2 where c: "consume ?l ''b'' ''ip'' (at_time 100000 r1)
      = (Inr \<lparr>allowed = False, remaining = 0, retryAfterSec = 1\<rparr>, r2)"
    using h by (cases "consume ?l ''b'' ''ip'' (at_time 100000 r1)") auto
  show ?thesis
    using limiter_retry_after [OF _ _ _ _ _ _ h c, of "''c''" 1100000]
    by (auto simp: sample_redis_def new_limiter_def)
qed

end
