(* ===== verification/Outbox.thy ===== *)
theory Outbox
  imports Database
begin

text \<open>
  The \<open>order.placed\<close> event (\<open>src/messaging/events.ts\<close>) and its row in the outbox
  (\<open>src/outbox/outbox.ts\<close>). The relay that carries the rows to the broker is in the theory
  \<open>Relay\<close>.
\<close>

definition ROUTING_KEY_ORDER_PLACED :: string where
  "ROUTING_KEY_ORDER_PLACED = ''order.placed''"

definition AGGREGATE_ORDER :: string where
  "AGGREGATE_ORDER = ''Order''"

definition orderPlacedEventId :: "int \<Rightarrow> string" where
  "orderPlacedEventId orderId = ''order-placed:'' @ show_int orderId"

definition buildOrderPlacedEvent :: "order_placed_data \<Rightarrow> int \<Rightarrow> order_placed_event" where
  "buildOrderPlacedEvent input now =
     \<lparr>eventId = orderPlacedEventId (ev_orderId input),
      ev_type = ROUTING_KEY_ORDER_PLACED,
      occurredAt = now,
      ev_data = \<lparr>ev_orderId = ev_orderId input, ev_customerEmail = ev_customerEmail input,
                 ev_totalCents = ev_totalCents input, ev_currency = ev_currency input,
                 ev_items = map (\<lambda>(p, q). (p, q)) (ev_items input)\<rparr>\<rparr>"

definition insert_outbox :: "string \<Rightarrow> string \<Rightarrow> string \<Rightarrow> string \<Rightarrow> order_placed_event \<Rightarrow> unit db_action" where
  "insert_outbox uuid agg_type agg_id type payload =
     and_then (gets id) (\<lambda>s.
     and_then (guard (uuid \<notin> ob_id ` set (outbox s)) (QueryFailedError UNIQUE_VIOLATION)) (\<lambda>_.
       let r = \<lparr>ob_id = uuid, ob_aggregate_type = agg_type, ob_aggregate_id = agg_id,
                ob_type = type, ob_payload = payload, ob_created_at = clock s,
                ob_published_at = None, ob_attempts = 0\<rparr>
       in modify (\<lambda>s. s\<lparr>outbox := outbox s @ [r]\<rparr>)))"

text \<open>
  \<open>enqueueOrderPlaced\<close>: \<open>uuid\<close> is the row's \<open>gen_random_uuid()\<close>, \<open>now\<close> the \<open>new Date()\<close> of the
  event.
\<close>

definition enqueueOrderPlaced ::
  "string \<Rightarrow> int \<Rightarrow> order_placed_data \<Rightarrow> order_placed_event db_action" where
  "enqueueOrderPlaced uuid now d =
     (let event = buildOrderPlacedEvent d now in
      and_then
        (insert_outbox uuid AGGREGATE_ORDER (show_int (ev_orderId d)) (ev_type event) event)
        (\<lambda>_. ret event))"

lemma buildOrderPlacedEvent_data [simp]: "ev_data (buildOrderPlacedEvent d now) = d"
  by (cases d) (simp add: buildOrderPlacedEvent_def case_prod_beta)

lemma enqueue_ok:
  assumes "enqueueOrderPlaced uuid now d s = (Inr ev, s')"
  shows "\<exists>r. s' = s\<lparr>outbox := outbox s @ [r]\<rparr> \<and> ev = buildOrderPlacedEvent d now
    \<and> uuid \<notin> ob_id ` set (outbox s)
    \<and> r = \<lparr>ob_id = uuid, ob_aggregate_type = AGGREGATE_ORDER,
           ob_aggregate_id = show_int (ev_orderId d), ob_type = ROUTING_KEY_ORDER_PLACED,
           ob_payload = ev, ob_created_at = clock s, ob_published_at = None, ob_attempts = 0\<rparr>"
  using assms unfolding enqueueOrderPlaced_def insert_outbox_def
  by (auto elim!: and_then_okE dest!: guard_ok simp: Let_def buildOrderPlacedEvent_def)

lemma enqueue_error: "enqueueOrderPlaced uuid now d s = (Inl e, s') \<Longrightarrow> same_tables s s'"
  by (auto simp: enqueueOrderPlaced_def insert_outbox_def and_then_def guard_def same_tables_def
      rolled_back_def Let_def split: if_splits)

lemma forward_enqueue [forward_intro]: "forward (enqueueOrderPlaced uuid now d)"
  unfolding enqueueOrderPlaced_def insert_outbox_def Let_def
  by (intro forward_intro forward_modify) (simp_all add: seqs_le_def)

lemma keeps_db_wf_enqueue [keeps_intro]: "keeps db_wf (enqueueOrderPlaced uuid now d)"
proof (rule keeps_db_wf_statement)
  fix s r s'
  assume "db_wf s" and "enqueueOrderPlaced uuid now d s = (Inr r, s')"
  then show "db_wf s'" by (auto simp: db_wf_defs dest!: enqueue_ok)
qed (auto intro: forward_intro dest: enqueue_error)

end
