(* ===== verification/SampleShop.thy ===== *)
theory SampleShop
  imports Database
begin

text \<open>
  A small shop with two customers, an administrator and two products: the concrete input at
  which the theorems with hypotheses are applied.
\<close>

definition sample_user :: "int \<Rightarrow> user_role \<Rightarrow> int \<Rightarrow> user" where
  "sample_user i role balance =
     \<lparr>u_id = i, u_email = ''u'' @ show_int i @ ''@example.com'', u_name = ''U'', u_passwordHash = None,
      u_role = role, u_balanceCents = balance, u_createdAt = 0\<rparr>"

definition sample_db :: db where
  "sample_db = empty_db
     \<lparr>users := [sample_user 1 customer 5000, sample_user 2 customer 100, sample_user 3 admin 0],
      products :=
        [\<lparr>p_id = 1, p_name = ''Tea'', p_priceCents = 250, p_stock = 4, p_currency = ''UAH'', p_createdAt = 0\<rparr>,
         \<lparr>p_id = 2, p_name = ''Cup'', p_priceCents = 900, p_stock = 1, p_currency = ''USD'', p_createdAt = 0\<rparr>],
      seq_products := 3\<rparr>"

lemma show_small: "show_int 1 = ''1''" "show_int 2 = ''2''" "show_int 3 = ''3''"
  by code_simp+

lemma sample_db_wf: "db_wf sample_db"
  by (simp add: db_wf_defs serial_def int4_def sample_db_def sample_user_def empty_db_def show_small)

end
