(* ===== verification/Relay.thy ===== *)
theory Relay
  imports Outbox SampleShop "HOL-Library.Multiset"
    "HOL-Library.Char_ord" "HOL-Library.List_Lexorder" "HOL-Library.Product_Lexorder"
begin

text \<open>
  The courier of the outbox: \<open>src/outbox/relay.ts\<close>.

  \<open>relayOnce\<close> is one pass: it takes a batch, hands the rows to the sink one by one until one
  fails, and then marks what was confirmed. The sink is a parameter: an action on the state of
  the broker's side, which may accept a message and fail all the same (a confirm that comes after
  the timeout). \<open>hook\<close> says whether \<open>afterPublish\<close> returns.

  Couriers that run side by side are in the theory \<open>Couriers\<close>.
\<close>

datatype lock_mode = SkipLocked | ForUpdate | NoLock

record relay_options =
  batchSize :: "nat option"
  lockMode :: "lock_mode option"
  notBefore :: "int option"

record relay_pass =
  published :: nat
  failed :: nat

type_synonym 'b sink = "order_placed_event \<Rightarrow> string \<Rightarrow> ('b, error, unit) action"

record 'b relay_world =
  rw_db :: db
  rw_broker :: 'b

text \<open>
  The rows of a pass: unpublished, not older than asked, oldest first. \<open>taken\<close> are the rows that
  other passes have locked; with \<open>SKIP LOCKED\<close> they are passed over. (\<open>FOR UPDATE\<close> waits for them
  instead, so it goes on when there are none.)
\<close>

definition pending :: "int option \<Rightarrow> outbox_row \<Rightarrow> bool" where
  "pending since r \<longleftrightarrow> ob_published_at r = None \<and> (case since of None \<Rightarrow> True | Some t \<Rightarrow> t \<le> ob_created_at r)"

definition by_age :: "outbox_row list \<Rightarrow> outbox_row list" where
  "by_age rs = sort_key (\<lambda>r. (ob_created_at r, ob_id r)) rs"

definition take_batch :: "lock_mode \<Rightarrow> string set \<Rightarrow> nat \<Rightarrow> int option \<Rightarrow> outbox_row list \<Rightarrow> outbox_row list" where
  "take_batch mode taken n since rs =
     take n (by_age (filter (\<lambda>r. pending since r \<and> (mode = SkipLocked \<longrightarrow> ob_id r \<notin> taken)) rs))"

text \<open>The publishing loop: the ids that were confirmed, and the one it stopped at.\<close>

fun send_rows :: "'b sink \<Rightarrow> outbox_row list \<Rightarrow> 'b \<Rightarrow> string list \<times> string option \<times> 'b" where
  "send_rows sink [] b = ([], None, b)"
| "send_rows sink (r # rs) b =
     (case sink (ob_payload r) (ob_type r) b of
        (Inl err, b') \<Rightarrow> ([], Some (ob_id r), b')
      | (Inr _, b') \<Rightarrow>
          (let (sent, stopped, b'') = send_rows sink rs b' in (ob_id r # sent, stopped, b'')))"

definition mark_sent :: "int \<Rightarrow> string list \<Rightarrow> outbox_row \<Rightarrow> outbox_row" where
  "mark_sent now sentIds r =
     (if ob_id r \<in> set sentIds then r\<lparr>ob_published_at := Some now, ob_attempts := ob_attempts r + 1\<rparr> else r)"

definition mark_failed :: "string option \<Rightarrow> outbox_row \<Rightarrow> outbox_row" where
  "mark_failed failedId r = (if failedId = Some (ob_id r) then r\<lparr>ob_attempts := ob_attempts r + 1\<rparr> else r)"

definition relayOnce ::
  "'b sink \<Rightarrow> relay_options \<Rightarrow> string set \<Rightarrow> bool \<Rightarrow> ('b relay_world, error, relay_pass) action" where
  "relayOnce sink options taken hook = (\<lambda>w.
     let n = (case batchSize options of None \<Rightarrow> 100 | Some k \<Rightarrow> k);
         mode = (case lockMode options of None \<Rightarrow> SkipLocked | Some m \<Rightarrow> m);
         s = rw_db w;
         rows = take_batch mode taken n (notBefore options) (outbox s);
         (sentIds, failedId, b) = send_rows sink rows (rw_broker w);
         marked = map (\<lambda>r. mark_failed failedId (mark_sent (clock s) sentIds r)) (outbox s)
     in if \<not> hook then (Inl (PlainError ''afterPublish''), w\<lparr>rw_broker := b\<rparr>)
        else (Inr \<lparr>published = length sentIds, failed = (if failedId = None then 0 else 1)\<rparr>,
              w\<lparr>rw_db := s\<lparr>outbox := marked\<rparr>, rw_broker := b\<rparr>))"

text \<open>
  \<open>relayLoop\<close> until its signal is aborted, here after as many passes as the list \<open>hooks\<close> is long;
  the result counts the pauses it made (\<open>sleep(pollMs)\<close>).
\<close>

fun relayLoop ::
  "'b sink \<Rightarrow> relay_options \<Rightarrow> bool list \<Rightarrow> 'b relay_world \<Rightarrow> nat \<times> 'b relay_world" where
  "relayLoop sink options [] w = (0, w)"
| "relayLoop sink options (hook # hooks) w =
     (let (res, w1) = relayOnce sink options {} hook w;
          pass = (case res of Inr p \<Rightarrow> p | Inl err \<Rightarrow> \<lparr>published = 0, failed = 0\<rparr>);
          (pauses, w2) = relayLoop sink options hooks w1
      in ((if published pass = 0 \<or> 0 < failed pass then 1 else 0) + pauses, w2))"

subsection \<open>Batches\<close>

lemma set_by_age [simp]: "set (by_age rs) = set rs"
  by (simp add: by_age_def)

lemma mset_by_age [simp]: "mset (by_age rs) = mset rs"
  by (simp add: by_age_def)

lemma length_by_age [simp]: "length (by_age rs) = length rs"
  by (simp add: by_age_def)

lemma filter_by_age: "filter P (by_age rs) = by_age (filter P rs)"
  by (simp add: by_age_def filter_sort)

lemma ids_by_age: "distinct (map ob_id (by_age rs)) \<longleftrightarrow> distinct (map ob_id rs)"
  by (metis mset_by_age mset_eq_imp_distinct_iff mset_map)

lemma take_batch_rows:
  "set (take_batch mode taken n since rs) \<subseteq> {r \<in> set rs. pending since r \<and> (mode = SkipLocked \<longrightarrow> ob_id r \<notin> taken)}"
  using set_take_subset [of n "by_age (filter (\<lambda>r. pending since r \<and> (mode = SkipLocked \<longrightarrow> ob_id r \<notin> taken)) rs)"]
  by (auto simp: take_batch_def)

lemma take_batch_distinct:
  "distinct (map ob_id rs) \<Longrightarrow> distinct (map ob_id (take_batch mode taken n since rs))"
  by (simp add: take_batch_def ids_by_age distinct_map_filter flip: take_map)

lemma length_take_batch:
  "length (take_batch mode {} n since rs) = min n (length (filter (pending since) rs))"
  by (simp add: take_batch_def min.commute)

subsection \<open>One pass\<close>

text \<open>A sink that writes a log of what it accepted: a list of the events, newest last.\<close>

definition confirms :: "'b sink \<Rightarrow> ('b \<Rightarrow> order_placed_event list) \<Rightarrow> bool" where
  "confirms sink seen \<longleftrightarrow>
     (\<forall>ev key b. (case fst (sink ev key b) of
                    Inr _ \<Rightarrow> seen (snd (sink ev key b)) = seen b @ [ev]
                  | Inl _ \<Rightarrow> seen (snd (sink ev key b)) \<in> {seen b, seen b @ [ev]}))"

lemma send_rows_log:
  assumes "confirms sink seen" "send_rows sink rows b = (sent, stopped, b')"
  shows "\<exists>k \<le> length rows. sent = map ob_id (take k rows)
    \<and> (case stopped of
         None \<Rightarrow> k = length rows \<and> seen b' = seen b @ map ob_payload rows
       | Some i \<Rightarrow> k < length rows \<and> i = ob_id (rows ! k)
           \<and> seen b' \<in> {seen b @ map ob_payload (take k rows), seen b @ map ob_payload (take (Suc k) rows)})"
  using assms(2)
proof (induction rows arbitrary: b sent stopped b')
  case (Cons r rows)
  obtain x b1 where run: "sink (ob_payload r) (ob_type r) b = (x, b1)"
    by (cases "sink (ob_payload r) (ob_type r) b")
  have log1: "case x of Inr _ \<Rightarrow> seen b1 = seen b @ [ob_payload r]
      | Inl _ \<Rightarrow> seen b1 \<in> {seen b, seen b @ [ob_payload r]}"
    using assms(1) run unfolding confirms_def by (metis fst_conv snd_conv)
  show ?case
  proof (cases x)
    case (Inl err)
    then show ?thesis using Cons.prems run log1 by (intro exI [of _ 0]) auto
  next
    case (Inr u)
    obtain sent2 stopped2 b2 where rest: "send_rows sink rows b1 = (sent2, stopped2, b2)"
      by (cases "send_rows sink rows b1")
    from Cons.IH [OF this] obtain k where k: "k \<le> length rows" "sent2 = map ob_id (take k rows)"
      "case stopped2 of
         None \<Rightarrow> k = length rows \<and> seen b2 = seen b1 @ map ob_payload rows
       | Some i \<Rightarrow> k < length rows \<and> i = ob_id (rows ! k)
           \<and> seen b2 \<in> {seen b1 @ map ob_payload (take k rows), seen b1 @ map ob_payload (take (Suc k) rows)}"
      by blast
    show ?thesis
      using Cons.prems run rest Inr log1 k
      by (intro exI [of _ "Suc k"]) (auto split: option.splits)
  qed
qed simp


definition rows_of :: "relay_options \<Rightarrow> string set \<Rightarrow> db \<Rightarrow> outbox_row list" where
  "rows_of options taken s =
     take_batch (case lockMode options of None \<Rightarrow> SkipLocked | Some m \<Rightarrow> m) taken
       (case batchSize options of None \<Rightarrow> 100 | Some k \<Rightarrow> k) (notBefore options) (outbox s)"

text \<open>What a finished pass has done to a row of the outbox, when \<open>k\<close> rows of \<open>rows\<close> were confirmed.\<close>

definition after_pass :: "int \<Rightarrow> outbox_row list \<Rightarrow> nat \<Rightarrow> outbox_row \<Rightarrow> outbox_row" where
  "after_pass now rows k r =
     (if ob_id r \<in> ob_id ` set (take k rows)
      then r\<lparr>ob_published_at := Some now, ob_attempts := ob_attempts r + 1\<rparr>
      else if k < length rows \<and> ob_id r = ob_id (rows ! k) then r\<lparr>ob_attempts := ob_attempts r + 1\<rparr>
      else r)"

lemma marks_after_pass:
  assumes "distinct (map ob_id rows)" "k \<le> length rows"
    and "case stopped of None \<Rightarrow> k = length rows | Some i \<Rightarrow> k < length rows \<and> i = ob_id (rows ! k)"
  shows "mark_failed stopped (mark_sent now (map ob_id (take k rows)) r) = after_pass now rows k r"
proof (cases "k < length rows")
  case True
  have "map ob_id rows = map ob_id (take k rows) @ ob_id (rows ! k) # map ob_id (drop (Suc k) rows)"
    using id_take_nth_drop [OF True] by (metis list.simps(9) map_append)
  then have fresh: "ob_id (rows ! k) \<notin> ob_id ` set (take k rows)"
    using assms(1) by (metis distinct_append disjoint_iff list.set_intros(1) set_map)
  have "stopped = Some (ob_id (rows ! k))" using assms(3) True by (cases stopped) auto
  then show ?thesis using fresh True by (simp add: mark_failed_def mark_sent_def after_pass_def)
next
  case False
  then have "stopped = None" using assms(3) by (cases stopped) auto
  then show ?thesis using False by (simp add: mark_failed_def mark_sent_def after_pass_def)
qed

lemma relayOnce_run:
  assumes "confirms sink seen" "distinct (map ob_id (outbox (rw_db w)))"
    and run: "relayOnce sink options taken True w = (Inr pass, w')"
  shows "\<exists>k. let rows = rows_of options taken (rw_db w) in
      k \<le> length rows \<and> pass = \<lparr>published = k, failed = (if k < length rows then 1 else 0)\<rparr>
    \<and> rw_db w' = (rw_db w)\<lparr>outbox := map (after_pass (clock (rw_db w)) rows k) (outbox (rw_db w))\<rparr>
    \<and> (seen (rw_broker w') = seen (rw_broker w) @ map ob_payload (take k rows)
       \<or> k < length rows \<and> seen (rw_broker w') = seen (rw_broker w) @ map ob_payload (take (Suc k) rows))"
proof -
  let ?rows = "rows_of options taken (rw_db w)"
  have d: "distinct (map ob_id ?rows)"
    unfolding rows_of_def by (rule take_batch_distinct [OF assms(2)])
  obtain sent stopped b where s: "send_rows sink ?rows (rw_broker w) = (sent, stopped, b)"
    by (cases "send_rows sink ?rows (rw_broker w)")
  from send_rows_log [OF assms(1) s] obtain k where
    k: "k \<le> length ?rows" "sent = map ob_id (take k ?rows)"
      "case stopped of
         None \<Rightarrow> k = length ?rows \<and> seen b = seen (rw_broker w) @ map ob_payload ?rows
       | Some i \<Rightarrow> k < length ?rows \<and> i = ob_id (?rows ! k)
           \<and> seen b \<in> {seen (rw_broker w) @ map ob_payload (take k ?rows),
                       seen (rw_broker w) @ map ob_payload (take (Suc k) ?rows)}"
    by blast
  have m: "mark_failed stopped (mark_sent now sent r) = after_pass now ?rows k r" for now r
    unfolding k(2) using k(3) by (intro marks_after_pass [OF d k(1)]) (auto split: option.splits)
  have "pass = \<lparr>published = k, failed = (if k < length ?rows then 1 else 0)\<rparr>"
    and "rw_db w' = (rw_db w)\<lparr>outbox := map (after_pass (clock (rw_db w)) ?rows k) (outbox (rw_db w))\<rparr>"
    and "rw_broker w' = b"
    using run s k m unfolding relayOnce_def rows_of_def
    by (auto simp: Let_def split: option.splits)
  moreover have "seen b = seen (rw_broker w) @ map ob_payload (take k ?rows)
      \<or> k < length ?rows \<and> seen b = seen (rw_broker w) @ map ob_payload (take (Suc k) ?rows)"
    using k(1, 3) by (auto split: option.splits)
  ultimately show ?thesis using k(1) unfolding Let_def by blast
qed


lemma relayOnce_abandoned: "relayOnce sink options taken False w = (res, w') \<Longrightarrow> rw_db w' = rw_db w"
  by (auto simp: relayOnce_def Let_def split: prod.splits)

lemma relayOnce_result: "relayOnce sink options taken True w = (res, w') \<Longrightarrow> \<exists>pass. res = Inr pass"
  by (auto simp: relayOnce_def Let_def split: prod.splits)

subsection \<open>Nothing is marked that was not accepted\<close>

text \<open>Every published row has been accepted by the broker.\<close>

definition published_seen :: "('b \<Rightarrow> order_placed_event list) \<Rightarrow> 'b relay_world \<Rightarrow> bool" where
  "published_seen seen w \<longleftrightarrow>
     (\<forall>r \<in> set (outbox (rw_db w)). ob_published_at r \<noteq> None \<longrightarrow> ob_payload r \<in> set (seen (rw_broker w)))"

lemma after_pass_id [simp]: "ob_id (after_pass now rows k r) = ob_id r"
  by (simp add: after_pass_def)

lemma after_pass_payload [simp]: "ob_payload (after_pass now rows k r) = ob_payload r"
  by (simp add: after_pass_def)

lemma after_pass_published:
  "ob_published_at (after_pass now rows k r) =
     (if ob_id r \<in> ob_id ` set (take k rows) then Some now else ob_published_at r)"
  by (simp add: after_pass_def)

lemma rows_of_in: "set (rows_of options taken s) \<subseteq> set (outbox s)"
  using take_batch_rows by (fastforce simp: rows_of_def)

lemma same_row:
  "distinct (map ob_id rs) \<Longrightarrow> r \<in> set rs \<Longrightarrow> q \<in> set rs \<Longrightarrow> ob_id r = ob_id q \<Longrightarrow> r = q"
  by (metis distinct_map inj_onD)

lemma send_rows_grows:
  assumes "confirms sink seen" "send_rows sink rows b = (sent, stopped, b')"
  shows "set (seen b) \<subseteq> set (seen b')"
proof -
  obtain k where "case stopped of
         None \<Rightarrow> k = length rows \<and> seen b' = seen b @ map ob_payload rows
       | Some i \<Rightarrow> k < length rows \<and> i = ob_id (rows ! k)
           \<and> seen b' \<in> {seen b @ map ob_payload (take k rows), seen b @ map ob_payload (take (Suc k) rows)}"
    using send_rows_log [OF assms] by blast
  then show ?thesis by (cases stopped) auto
qed

lemma published_seen_pass:
  assumes "published_seen seen w" "distinct (map ob_id (outbox (rw_db w)))" "confirms sink seen"
    and run: "relayOnce sink options taken hook w = (res, w')"
  shows "published_seen seen w' \<and> map ob_id (outbox (rw_db w')) = map ob_id (outbox (rw_db w))"
proof (cases hook)
  case False
  then have db: "rw_db w' = rw_db w" using relayOnce_abandoned run by simp
  obtain sent stopped b where s: "send_rows sink (rows_of options taken (rw_db w)) (rw_broker w) = (sent, stopped, b)"
    by (cases "send_rows sink (rows_of options taken (rw_db w)) (rw_broker w)")
  have "rw_broker w' = b" using run False s by (auto simp: relayOnce_def rows_of_def Let_def)
  moreover have "set (seen (rw_broker w)) \<subseteq> set (seen b)"
    by (rule send_rows_grows [OF assms(3) s])
  ultimately show ?thesis using assms(1) db by (auto simp: published_seen_def)
next
  case True
  let ?rows = "rows_of options taken (rw_db w)"
  obtain pass where "res = Inr pass" using relayOnce_result [of sink options taken w res w'] run True by auto
  then have "relayOnce sink options taken True w = (Inr pass, w')" using run True by simp
  from relayOnce_run [OF assms(3, 2) this] obtain k where
    db: "rw_db w' = (rw_db w)\<lparr>outbox := map (after_pass (clock (rw_db w)) ?rows k) (outbox (rw_db w))\<rparr>"
    and seen: "seen (rw_broker w') = seen (rw_broker w) @ map ob_payload (take k ?rows)
       \<or> k < length ?rows \<and> seen (rw_broker w') = seen (rw_broker w) @ map ob_payload (take (Suc k) ?rows)"
    unfolding Let_def by blast
  have sub: "set (seen (rw_broker w)) \<union> ob_payload ` set (take k ?rows) \<subseteq> set (seen (rw_broker w'))"
    using seen by (auto simp: take_Suc_conv_app_nth)
  have "ob_payload r \<in> set (seen (rw_broker w'))"
    if "r \<in> set (outbox (rw_db w))" "ob_published_at (after_pass (clock (rw_db w)) ?rows k r) \<noteq> None" for r
  proof (cases "ob_id r \<in> ob_id ` set (take k ?rows)")
    case True
    then obtain q where q: "q \<in> set (take k ?rows)" "ob_id r = ob_id q" by blast
    then have "q \<in> set (outbox (rw_db w))" using rows_of_in set_take_subset by fastforce
    then have "r = q" using same_row [OF assms(2) that(1)] q(2) by blast
    then show ?thesis using q(1) sub by blast
  next
    case False
    then show ?thesis using that assms(1) sub by (auto simp: after_pass_published published_seen_def)
  qed
  then show ?thesis unfolding published_seen_def db by (auto simp: comp_def)
qed

lemma relayLoop_Cons:
  "relayOnce sink options {} hook w = (res, w1) \<Longrightarrow>
     snd (relayLoop sink options (hook # hooks) w) = snd (relayLoop sink options hooks w1)"
  by (simp add: Let_def case_prod_beta)

text \<open>
  The interface between the courier and the broker (\<open>RelaySink\<close>): a sink whose confirmations can be
  trusted. The theory \<open>Publisher\<close> shows that \<open>EventPublisher.publish\<close> is one.
\<close>

locale broker_sink =
  fixes sink :: "'b sink"
    and seen :: "'b \<Rightarrow> order_placed_event list"
  assumes trusted: "confirms sink seen"
begin

lemma loop_keeps:
  assumes "published_seen seen w" "distinct (map ob_id (outbox (rw_db w)))"
    and "relayLoop sink options hooks w = (pauses, w')"
  shows "published_seen seen w' \<and> map ob_id (outbox (rw_db w')) = map ob_id (outbox (rw_db w))"
  using assms
proof (induction hooks arbitrary: w pauses)
  case (Cons hook hooks)
  obtain res w1 where one: "relayOnce sink options {} hook w = (res, w1)"
    by (cases "relayOnce sink options {} hook w")
  have 1: "published_seen seen w1" "map ob_id (outbox (rw_db w1)) = map ob_id (outbox (rw_db w))"
    using published_seen_pass [OF Cons.prems(1,2) trusted one] by blast+
  have rest: "relayLoop sink options hooks w1 = (fst (relayLoop sink options hooks w1), w')"
    using Cons.prems(3) relayLoop_Cons [OF one, of hooks] by (metis prod.collapse snd_conv)
  show ?case using Cons.IH [OF 1(1) _ rest] 1(2) Cons.prems(2) by simp
qed simp

end

text \<open>Whatever the sink does (as long as it logs what it confirms, and may log what it does not) and
  wherever passes are cut off after publishing, the courier loop never marks as published a row
  whose event the broker has not accepted, and neither adds nor loses a row.
\<close>

theorem relayLoop_sound:
  assumes "confirms sink seen" "published_seen seen w" "distinct (map ob_id (outbox (rw_db w)))"
    and "relayLoop sink options hooks w = (pauses, w')"
  shows "(\<forall>r \<in> set (outbox (rw_db w')). ob_published_at r \<noteq> None \<longrightarrow> ob_payload r \<in> set (seen (rw_broker w')))
    \<and> map ob_id (outbox (rw_db w')) = map ob_id (outbox (rw_db w))"
proof -
  have "published_seen seen w' \<and> map ob_id (outbox (rw_db w')) = map ob_id (outbox (rw_db w))"
    by (rule broker_sink.loop_keeps [OF _ assms(2-4)]) (simp add: broker_sink_def assms(1))
  then show ?thesis by (simp add: published_seen_def)
qed


subsection \<open>Everything is delivered\<close>

definition reliable :: "'b sink \<Rightarrow> ('b \<Rightarrow> order_placed_event list) \<Rightarrow> bool" where
  "reliable sink seen \<longleftrightarrow>
     (\<forall>ev key b. fst (sink ev key b) = Inr () \<and> seen (snd (sink ev key b)) = seen b @ [ev])"

definition batch_of :: "relay_options \<Rightarrow> nat" where
  "batch_of options = (case batchSize options of None \<Rightarrow> 100 | Some k \<Rightarrow> k)"

definition waiting :: "db \<Rightarrow> outbox_row list" where
  "waiting s = filter (\<lambda>r. ob_published_at r = None) (outbox s)"

lemma send_rows_reliable:
  "reliable sink seen \<Longrightarrow> \<exists>b'. send_rows sink rows b = (map ob_id rows, None, b')
     \<and> seen b' = seen b @ map ob_payload rows"
proof (induction rows arbitrary: b)
  case (Cons r rows)
  obtain b1 where one: "sink (ob_payload r) (ob_type r) b = (Inr (), b1)" "seen b1 = seen b @ [ob_payload r]"
    using Cons.prems unfolding reliable_def by (metis prod.collapse)
  obtain b' where "send_rows sink rows b1 = (map ob_id rows, None, b')" "seen b' = seen b1 @ map ob_payload rows"
    using Cons.IH [OF Cons.prems] by blast
  then show ?case using one by simp
qed simp

lemma rows_of_waiting:
  "notBefore options = None \<Longrightarrow> rows_of options {} s = take (batch_of options) (by_age (waiting s))"
  by (cases "lockMode options")
    (simp_all add: rows_of_def take_batch_def batch_of_def waiting_def pending_def)

lemma drop_as_filter:
  "distinct (map f xs) \<Longrightarrow> filter (\<lambda>x. f x \<notin> f ` set (take n xs)) xs = drop n xs"
proof -
  assume d: "distinct (map f xs)"
  have split: "map f xs = map f (take n xs) @ map f (drop n xs)" by (metis append_take_drop_id map_append)
  have "f ` set (take n xs) \<inter> f ` set (drop n xs) = {}"
    using d unfolding split distinct_append by simp
  then have "filter (\<lambda>x. f x \<notin> f ` set (take n xs)) (drop n xs) = drop n xs"
    by (auto intro: filter_True)
  moreover have "filter (\<lambda>x. f x \<notin> f ` set (take n xs)) (take n xs) = []"
    by (auto simp: filter_empty_conv)
  ultimately show ?thesis by (metis append_Nil append_take_drop_id filter_append)
qed

lemma waiting_after_pass:
  assumes "distinct (map ob_id (outbox s))"
    and "rows = take n (by_age (waiting s))"
  shows "by_age (waiting (s\<lparr>outbox := map (after_pass now rows (length rows)) (outbox s)\<rparr>))
    = drop n (by_age (waiting s))"
proof -
  have same: "after_pass now rows (length rows) r = r" if "ob_id r \<notin> ob_id ` set rows" for r
    using that by (simp add: after_pass_def)
  have gone: "ob_published_at (after_pass now rows (length rows) r) \<noteq> None" if "ob_id r \<in> ob_id ` set rows" for r
    using that by (simp add: after_pass_def)
  have marked: "filter (\<lambda>r. ob_published_at r = None) (map (after_pass now rows (length rows)) rs)
      = filter (\<lambda>r. ob_id r \<notin> ob_id ` set rows) (filter (\<lambda>r. ob_published_at r = None) rs)" for rs
    by (induction rs) (auto simp: same gone simp del: not_None_eq)
  have "waiting (s\<lparr>outbox := map (after_pass now rows (length rows)) (outbox s)\<rparr>)
      = filter (\<lambda>r. ob_id r \<notin> ob_id ` set rows) (waiting s)"
    using marked [of "outbox s"] by (simp add: waiting_def)
  then have "by_age (waiting (s\<lparr>outbox := map (after_pass now rows (length rows)) (outbox s)\<rparr>))
      = filter (\<lambda>r. ob_id r \<notin> ob_id ` set rows) (by_age (waiting s))"
    by (simp add: filter_by_age)
  also have "\<dots> = drop n (by_age (waiting s))"
    unfolding assms(2) using assms(1)
    by (intro drop_as_filter) (simp add: ids_by_age waiting_def distinct_map_filter)
  finally show ?thesis .
qed

lemma marks_all: "mark_failed None (mark_sent now (map ob_id rows) r) = after_pass now rows (length rows) r"
  by (simp add: mark_failed_def mark_sent_def after_pass_def)

lemma relayOnce_reliable:
  assumes "reliable sink seen" "distinct (map ob_id (outbox (rw_db w)))" "notBefore options = None"
  shows "\<exists>pass w'. relayOnce sink options {} True w = (Inr pass, w')
    \<and> by_age (waiting (rw_db w')) = drop (batch_of options) (by_age (waiting (rw_db w)))
    \<and> seen (rw_broker w') = seen (rw_broker w) @ map ob_payload (take (batch_of options) (by_age (waiting (rw_db w))))
    \<and> map ob_id (outbox (rw_db w')) = map ob_id (outbox (rw_db w))"
proof -
  let ?rows = "take (batch_of options) (by_age (waiting (rw_db w)))"
  have rows: "rows_of options {} (rw_db w) = ?rows" by (rule rows_of_waiting [OF assms(3)])
  obtain b where b: "send_rows sink ?rows (rw_broker w) = (map ob_id ?rows, None, b)"
    "seen b = seen (rw_broker w) @ map ob_payload ?rows"
    using send_rows_reliable [OF assms(1)] by blast
  have marks: "mark_failed None (mark_sent (clock (rw_db w)) (map ob_id ?rows) r)
      = after_pass (clock (rw_db w)) ?rows (length ?rows) r" for r
    by (rule marks_all)
  have "relayOnce sink options {} True w = (Inr \<lparr>published = length (map ob_id ?rows), failed = 0\<rparr>,
      w\<lparr>rw_db := (rw_db w)\<lparr>outbox := map (after_pass (clock (rw_db w)) ?rows (length ?rows)) (outbox (rw_db w))\<rparr>,
        rw_broker := b\<rparr>)"
    using b(1) rows unfolding relayOnce_def rows_of_def Let_def
    by (simp add: marks del: length_take map_map length_map)
  then show ?thesis
    using waiting_after_pass [OF assms(2) refl, of "clock (rw_db w)" "batch_of options"] b(2)
    by - (intro exI conjI, assumption, (simp add: comp_def del: length_take)+)
qed


text \<open>
  A broker that takes everything, but whose confirmation of order 2 comes too late; and an outbox
  with the events of two orders.
\<close>

definition late_sink :: "order_placed_event list sink" where
  "late_sink ev key b = (if ev_orderId (ev_data ev) = 2 then Inl (PlainError ''timeout'') else Inr (), b @ [ev])"

definition sample_event :: "int \<Rightarrow> order_placed_event" where
  "sample_event i = buildOrderPlacedEvent
     \<lparr>ev_orderId = i, ev_customerEmail = ''a@b.c'', ev_totalCents = 500, ev_currency = ''UAH'', ev_items = [(1, 2)]\<rparr> 7"

definition sample_outbox_row :: "int \<Rightarrow> outbox_row" where
  "sample_outbox_row i =
     \<lparr>ob_id = ''row-'' @ show_int i, ob_aggregate_type = AGGREGATE_ORDER, ob_aggregate_id = show_int i,
      ob_type = ROUTING_KEY_ORDER_PLACED, ob_payload = sample_event i, ob_created_at = 10 - i,
      ob_published_at = None, ob_attempts = 0\<rparr>"

definition sample_relay :: "order_placed_event list relay_world" where
  "sample_relay = \<lparr>rw_db = sample_db\<lparr>outbox := [sample_outbox_row 1, sample_outbox_row 2]\<rparr>, rw_broker = []\<rparr>"

definition sample_options :: relay_options where
  "sample_options = \<lparr>batchSize = Some 1, lockMode = None, notBefore = None\<rparr>"

lemma sample_relay_ids: "map ob_id (outbox (rw_db sample_relay)) = [''row-1'', ''row-2'']"
  by (simp add: sample_relay_def sample_outbox_row_def show_small)

lemma relayLoop_sound_witness:
  "let w' = snd (relayLoop late_sink sample_options [True, False, True] sample_relay)
   in (\<forall>r \<in> set (outbox (rw_db w')). ob_published_at r \<noteq> None \<longrightarrow> ob_payload r \<in> set (rw_broker w'))
    \<and> map ob_id (outbox (rw_db w')) = [''row-1'', ''row-2'']"
proof -
  have "confirms late_sink id" by (simp add: confirms_def late_sink_def)
  moreover have "published_seen id sample_relay"
    by (simp add: published_seen_def sample_relay_def sample_outbox_row_def)
  ultimately show ?thesis
    using relayLoop_sound [OF _ _ _ prod.collapse [symmetric], of late_sink id sample_relay sample_options "[True, False, True]"]
      sample_relay_ids
    by (simp add: Let_def del: relayLoop.simps)
qed

text \<open>So when the broker confirms everything, enough passes deliver every row that waits.\<close>

lemma loop_delivers:
  assumes "reliable sink seen" "distinct (map ob_id (outbox (rw_db w)))" "notBefore options = None"
    and "length (filter (\<lambda>r. ob_published_at r = None) (outbox (rw_db w)))
      \<le> m * (case batchSize options of None \<Rightarrow> 100 | Some k \<Rightarrow> k)"
    and "relayLoop sink options (replicate m True) w = (pauses, w')"
  shows "(\<forall>r \<in> set (outbox (rw_db w')). ob_published_at r \<noteq> None)
    \<and> seen (rw_broker w') = seen (rw_broker w)
        @ map ob_payload (by_age (filter (\<lambda>r. ob_published_at r = None) (outbox (rw_db w))))"
proof -
  have "by_age (waiting (rw_db w')) = drop (m * batch_of options) (by_age (waiting (rw_db w)))
    \<and> seen (rw_broker w') = seen (rw_broker w)
        @ map ob_payload (take (m * batch_of options) (by_age (waiting (rw_db w))))"
    using assms(2,5)
  proof (induction m arbitrary: w pauses)
    case (Suc m)
    obtain pass w1 where one: "relayOnce sink options {} True w = (Inr pass, w1)"
      "by_age (waiting (rw_db w1)) = drop (batch_of options) (by_age (waiting (rw_db w)))"
      "seen (rw_broker w1) = seen (rw_broker w) @ map ob_payload (take (batch_of options) (by_age (waiting (rw_db w))))"
      "map ob_id (outbox (rw_db w1)) = map ob_id (outbox (rw_db w))"
      using relayOnce_reliable [OF assms(1) Suc.prems(1) assms(3)] by blast
    have rest: "relayLoop sink options (replicate m True) w1
        = (fst (relayLoop sink options (replicate m True) w1), w')"
      using Suc.prems(2) relayLoop_Cons [OF one(1), of "replicate m True"]
      by (metis prod.collapse replicate_Suc snd_conv)
    have d: "distinct (map ob_id (outbox (rw_db w1)))" using one(4) Suc.prems(1) by simp
    show ?case using Suc.IH [OF d rest] one(2,3) by (simp add: take_add add.commute)
  qed simp
  moreover have "length (by_age (waiting (rw_db w))) \<le> m * batch_of options"
    using assms(4) by (simp add: waiting_def batch_of_def)
  ultimately have "by_age (waiting (rw_db w')) = []"
    "seen (rw_broker w') = seen (rw_broker w) @ map ob_payload (by_age (waiting (rw_db w)))"
    by simp_all
  moreover have "waiting (rw_db w') = []"
    using calculation(1) by (metis length_0_conv length_by_age)
  ultimately show ?thesis by (auto simp: waiting_def filter_empty_conv)
qed

text \<open>When the broker confirms everything, the courier's loop delivers: after enough passes (\<open>m\<close> of
  them, with \<open>m\<close> times the batch size at least the number of waiting rows) every row of the outbox
  is published, and the broker has received each of the waiting events exactly once more, oldest
  first.
\<close>

theorem relayLoop_delivers:
  assumes "reliable sink seen" "distinct (map ob_id (outbox (rw_db w)))" "notBefore options = None"
    and "length (filter (\<lambda>r. ob_published_at r = None) (outbox (rw_db w)))
      \<le> m * (case batchSize options of None \<Rightarrow> 100 | Some k \<Rightarrow> k)"
    and "relayLoop sink options (replicate m True) w = (pauses, w')"
  shows "(\<forall>r \<in> set (outbox (rw_db w')). ob_published_at r \<noteq> None)
    \<and> seen (rw_broker w') = seen (rw_broker w)
        @ map ob_payload (by_age (filter (\<lambda>r. ob_published_at r = None) (outbox (rw_db w))))"
  by (rule loop_delivers [OF assms])


definition quick_sink :: "order_placed_event list sink" where
  "quick_sink ev key b = (Inr (), b @ [ev])"

lemma relayLoop_delivers_witness:
  "let w' = snd (relayLoop quick_sink sample_options (replicate 2 True) sample_relay)
   in (\<forall>r \<in> set (outbox (rw_db w')). ob_published_at r \<noteq> None)
    \<and> rw_broker w' = [sample_event 2, sample_event 1]"
proof -
  have sink: "reliable quick_sink id" by (simp add: reliable_def quick_sink_def)
  have ids: "distinct (map ob_id (outbox (rw_db sample_relay)))" by (simp add: sample_relay_ids)
  have options: "notBefore sample_options = None" by (simp add: sample_options_def)
  have rows: "length (filter (\<lambda>r. ob_published_at r = None) (outbox (rw_db sample_relay)))
      \<le> 2 * (case batchSize sample_options of None \<Rightarrow> 100 | Some k \<Rightarrow> k)"
    by (simp add: sample_relay_def sample_outbox_row_def sample_options_def)
  have order: "map ob_payload (by_age (filter (\<lambda>r. ob_published_at r = None) (outbox (rw_db sample_relay))))
      = [sample_event 2, sample_event 1]" "rw_broker sample_relay = []"
    by code_simp+
  show ?thesis
    using relayLoop_delivers [OF sink ids options rows prod.collapse [symmetric]]
    unfolding Let_def order by (simp del: relayLoop.simps)
qed

end
