(* ===== verification/Couriers.thy ===== *)
theory Couriers
  imports Relay
begin

text \<open>
  Several couriers at once (\<open>src/outbox/relay.ts\<close>): a step relation whose steps are the pieces of
  \<open>relayOnce\<close> between which other couriers, the services and crashes can come.

  A courier that has begun holds the rows it selected (\<open>co_batch\<close>) until it commits or dies; the
  row locks are the ids of the batches of the couriers that lock. \<open>SendOk\<close> is a confirmed
  \<open>publish\<close>, \<open>SendFail\<close> one the broker did not take, \<open>SendLate\<close> one it took although the courier
  saw a timeout. \<open>Commit\<close> marks the rows as \<open>relayOnce\<close> does (\<open>after_pass\<close>); \<open>Crash\<close> is the
  process dying, or the transaction rolled back, before that.
\<close>

record courier =
  co_mode :: lock_mode
  co_batch :: "outbox_row list"
  co_sent :: nat
  co_stopped :: bool

record post_office =
  po_outbox :: "outbox_row list"
  po_seen :: "order_placed_event list"
  po_now :: int
  po_couriers :: "nat \<Rightarrow> courier option"

datatype post_event =
    Enqueue outbox_row
  | Begin nat lock_mode nat
  | SendOk nat
  | SendFail nat
  | SendLate nat
  | Commit nat
  | Crash nat
  | Tick int

text \<open>The ids locked by the couriers other than \<open>c\<close>.\<close>

definition held :: "post_office \<Rightarrow> nat \<Rightarrow> string set" where
  "held s c = {i. \<exists>c' co. c' \<noteq> c \<and> po_couriers s c' = Some co \<and> co_mode co \<noteq> NoLock
     \<and> i \<in> ob_id ` set (co_batch co)}"

abbreviation sending :: "courier \<Rightarrow> bool" where
  "sending co \<equiv> \<not> co_stopped co \<and> co_sent co < length (co_batch co)"

inductive post_step :: "post_office \<Rightarrow> post_event \<Rightarrow> post_office \<Rightarrow> bool" where
  enqueue: "ob_published_at r = None \<Longrightarrow> ob_id r \<notin> ob_id ` set (po_outbox s)
    \<Longrightarrow> eventId (ob_payload r) \<notin> (\<lambda>q. eventId (ob_payload q)) ` set (po_outbox s)
    \<Longrightarrow> post_step s (Enqueue r) (s\<lparr>po_outbox := po_outbox s @ [r]\<rparr>)"
| begins: "po_couriers s c = None \<Longrightarrow> rows = take_batch mode (held s c) n None (po_outbox s)
    \<Longrightarrow> mode \<noteq> NoLock \<Longrightarrow> ob_id ` set rows \<inter> held s c = {}
    \<Longrightarrow> post_step s (Begin c mode n) (s\<lparr>po_couriers := (po_couriers s)(c \<mapsto>
          \<lparr>co_mode = mode, co_batch = rows, co_sent = 0, co_stopped = False\<rparr>)\<rparr>)"
| begins_without_lock: "po_couriers s c = None \<Longrightarrow> rows = take_batch NoLock {} n None (po_outbox s)
    \<Longrightarrow> post_step s (Begin c NoLock n) (s\<lparr>po_couriers := (po_couriers s)(c \<mapsto>
          \<lparr>co_mode = NoLock, co_batch = rows, co_sent = 0, co_stopped = False\<rparr>)\<rparr>)"
| send_ok: "po_couriers s c = Some co \<Longrightarrow> sending co
    \<Longrightarrow> post_step s (SendOk c) (s\<lparr>po_seen := po_seen s @ [ob_payload (co_batch co ! co_sent co)],
          po_couriers := (po_couriers s)(c \<mapsto> co\<lparr>co_sent := Suc (co_sent co)\<rparr>)\<rparr>)"
| send_fail: "po_couriers s c = Some co \<Longrightarrow> sending co
    \<Longrightarrow> post_step s (SendFail c) (s\<lparr>po_couriers := (po_couriers s)(c \<mapsto> co\<lparr>co_stopped := True\<rparr>)\<rparr>)"
| send_late: "po_couriers s c = Some co \<Longrightarrow> sending co
    \<Longrightarrow> post_step s (SendLate c) (s\<lparr>po_seen := po_seen s @ [ob_payload (co_batch co ! co_sent co)],
          po_couriers := (po_couriers s)(c \<mapsto> co\<lparr>co_stopped := True\<rparr>)\<rparr>)"
| commit: "po_couriers s c = Some co \<Longrightarrow> \<not> sending co \<Longrightarrow> ob_id ` set (co_batch co) \<inter> held s c = {}
    \<Longrightarrow> post_step s (Commit c)
          (s\<lparr>po_outbox := map (after_pass (po_now s) (co_batch co) (co_sent co)) (po_outbox s),
             po_couriers := (po_couriers s)(c := None)\<rparr>)"
| crash: "po_couriers s c = Some co
    \<Longrightarrow> post_step s (Crash c) (s\<lparr>po_couriers := (po_couriers s)(c := None)\<rparr>)"
| tick: "po_now s \<le> t \<Longrightarrow> post_step s (Tick t) (s\<lparr>po_now := t\<rparr>)"

inductive_cases post_stepE: "post_step s e s'"

text \<open>Runs that only use the events \<open>ok\<close> allows.\<close>

inductive post_run :: "(post_event \<Rightarrow> bool) \<Rightarrow> post_office \<Rightarrow> post_office \<Rightarrow> bool" for ok s where
  run_start: "post_run ok s s"
| run_step: "post_run ok s s' \<Longrightarrow> ok e \<Longrightarrow> post_step s' e s'' \<Longrightarrow> post_run ok s s''"

lemma post_run_invariant:
  assumes "post_run ok s s'" "P s" "\<And>t e t'. P t \<Longrightarrow> ok e \<Longrightarrow> post_step t e t' \<Longrightarrow> P t'"
  shows "P s'"
  using assms by (induction rule: post_run.induct) blast+

subsection \<open>Published means accepted\<close>

text \<open>
  Whatever the lock mode and whatever fails: a courier's batch is made of rows of the outbox, what it
  has sent was accepted, and so was what is marked as published.
\<close>

definition batch_known :: "post_office \<Rightarrow> courier \<Rightarrow> bool" where
  "batch_known s co \<longleftrightarrow>
     (\<forall>q \<in> set (co_batch co). \<exists>r \<in> set (po_outbox s). ob_id r = ob_id q \<and> ob_payload r = ob_payload q)
   \<and> co_sent co \<le> length (co_batch co)
   \<and> ob_payload ` set (take (co_sent co) (co_batch co)) \<subseteq> set (po_seen s)"

definition honest :: "post_office \<Rightarrow> bool" where
  "honest s \<longleftrightarrow> distinct (map ob_id (po_outbox s))
   \<and> (\<forall>r \<in> set (po_outbox s). ob_published_at r \<noteq> None \<longrightarrow> ob_payload r \<in> set (po_seen s))
   \<and> (\<forall>c co. po_couriers s c = Some co \<longrightarrow> batch_known s co)"

lemma batch_known_more:
  assumes "batch_known s co"
    and "(\<lambda>r. (ob_id r, ob_payload r)) ` set (po_outbox s) \<subseteq> (\<lambda>r. (ob_id r, ob_payload r)) ` set (po_outbox s')"
    and "set (po_seen s) \<subseteq> set (po_seen s')"
  shows "batch_known s' co"
proof -
  let ?f = "\<lambda>r. (ob_id r, ob_payload r)"
  have known: "(\<exists>r \<in> set (po_outbox t). ob_id r = ob_id q \<and> ob_payload r = ob_payload q)
      \<longleftrightarrow> ?f q \<in> ?f ` set (po_outbox t)" for t q
    by (simp add: image_iff eq_commute)
  show ?thesis
    using assms(1) subsetD [OF assms(2)] assms(3) unfolding batch_known_def known by blast
qed

lemma batch_known_taken:
  assumes "set rows \<subseteq> set (po_outbox s)"
  shows "batch_known s \<lparr>co_mode = mode, co_batch = rows, co_sent = 0, co_stopped = False\<rparr>"
  using assms by (auto simp: batch_known_def)

lemma take_batch_in: "set (take_batch mode taken n since rs) \<subseteq> set rs"
  using take_batch_rows by fastforce

lemma after_pass_pairs:
  "(\<lambda>r. (ob_id r, ob_payload r)) ` set (map (after_pass now rows k) rs) = (\<lambda>r. (ob_id r, ob_payload r)) ` set rs"
  by (auto simp: image_image)

lemma honest_commit:
  assumes "honest s" "po_couriers s c = Some co" "r \<in> set (po_outbox s)"
    and "ob_published_at (after_pass now (co_batch co) (co_sent co) r) \<noteq> None"
  shows "ob_payload r \<in> set (po_seen s)"
proof (cases "ob_id r \<in> ob_id ` set (take (co_sent co) (co_batch co))")
  case True
  then obtain q where q: "q \<in> set (take (co_sent co) (co_batch co))" "ob_id r = ob_id q" by blast
  have k: "batch_known s co" using assms(1,2) by (auto simp: honest_def)
  obtain r' where r': "r' \<in> set (po_outbox s)" "ob_id r' = ob_id q" "ob_payload r' = ob_payload q"
    using k q(1) unfolding batch_known_def by (metis in_set_takeD)
  then have "r' = r" using same_row [OF _ r'(1) assms(3)] assms(1) q(2) by (simp add: honest_def)
  then show ?thesis using k q(1) r'(3) by (auto simp: batch_known_def)
next
  case False
  then show ?thesis using assms by (auto simp: after_pass_published honest_def)
qed

lemma honest_step: "honest s \<Longrightarrow> post_step s e s' \<Longrightarrow> honest s'"
proof -
  assume h: "honest s" and "post_step s e s'"
  from this(2) show ?thesis
  proof cases
    case (commit c co)
    have "batch_known s' co'" if "po_couriers s c' = Some co'" for c' co'
    proof (rule batch_known_more [of s])
      show "batch_known s co'" using h that by (auto simp: honest_def)
    qed (use commit after_pass_pairs in \<open>simp_all del: set_map\<close>)
    moreover have "ob_payload r \<in> set (po_seen s)"
      if "r \<in> set (po_outbox s)" "ob_published_at (after_pass (po_now s) (co_batch co) (co_sent co) r) \<noteq> None" for r
      by (rule honest_commit [OF h commit(3) that])
    ultimately show ?thesis
      using h unfolding honest_def commit(2) by (auto simp: comp_def split: if_splits)
  next
    case (send_ok c co)
    have k: "batch_known s co" using h send_ok(3) by (auto simp: honest_def)
    have "batch_known s' co'" if "po_couriers s c' = Some co'" for c' co'
      by (rule batch_known_more [of s]) (use h that send_ok in \<open>auto simp: honest_def\<close>)
    moreover have "batch_known s' (co\<lparr>co_sent := Suc (co_sent co)\<rparr>)"
      using k send_ok(2,4) by (auto simp: batch_known_def take_Suc_conv_app_nth)
    ultimately show ?thesis using h unfolding honest_def send_ok(2) by (auto split: if_splits)
  next
    case (send_late c co)
    have "batch_known s' co'" if "po_couriers s c' = Some co'" for c' co'
      by (rule batch_known_more [of s]) (use h that send_late in \<open>auto simp: honest_def\<close>)
    moreover from this [OF send_late(3)] have "batch_known s' (co\<lparr>co_stopped := True\<rparr>)"
      by (simp add: batch_known_def)
    ultimately show ?thesis using h unfolding honest_def send_late(2) by (auto split: if_splits)
  next
    case (enqueue r)
    have "batch_known s' co'" if "po_couriers s c' = Some co'" for c' co'
      by (rule batch_known_more [of s]) (use h that enqueue in \<open>auto simp: honest_def\<close>)
    then show ?thesis using h enqueue unfolding honest_def by auto
  next
    case (begins c rows mode n)
    have "batch_known s' co'" if "po_couriers s' c' = Some co'" for c' co'
      using that h batch_known_taken [of rows s mode] take_batch_in begins(2,4)
      by (auto simp: honest_def batch_known_def split: if_splits)
    then show ?thesis using h unfolding honest_def begins(2) by auto
  next
    case (begins_without_lock c rows n)
    have "batch_known s' co'" if "po_couriers s' c' = Some co'" for c' co'
      using that h batch_known_taken [of rows s NoLock] take_batch_in begins_without_lock(2,4)
      by (auto simp: honest_def batch_known_def split: if_splits)
    then show ?thesis using h unfolding honest_def begins_without_lock(2) by auto
  qed (use h in \<open>auto simp: honest_def batch_known_def split: if_splits\<close>)
qed



subsection \<open>At most once, as long as nothing breaks\<close>

text \<open>
  With row locks, and as long as no courier dies between publishing and its commit and no
  confirmation comes too late, the broker sees no event twice. Refusals of the broker are no harm.
\<close>

fun orderly :: "post_event \<Rightarrow> bool" where
  "orderly (Begin c mode n) \<longleftrightarrow> mode \<noteq> NoLock"
| "orderly (SendLate c) \<longleftrightarrow> False"
| "orderly (Crash c) \<longleftrightarrow> False"
| "orderly _ \<longleftrightarrow> True"

definition sent_rows :: "courier \<Rightarrow> outbox_row list" where
  "sent_rows co = take (co_sent co) (co_batch co)"

definition holds_batch :: "post_office \<Rightarrow> nat \<Rightarrow> courier \<Rightarrow> bool" where
  "holds_batch s c co \<longleftrightarrow> co_mode co \<noteq> NoLock \<and> co_sent co \<le> length (co_batch co)
   \<and> set (co_batch co) \<subseteq> {r \<in> set (po_outbox s). ob_published_at r = None}
   \<and> distinct (map ob_id (co_batch co)) \<and> ob_id ` set (co_batch co) \<inter> held s c = {}"

definition event_ids :: "outbox_row list \<Rightarrow> string list" where
  "event_ids rs = map (\<lambda>r. eventId (ob_payload r)) rs"

text \<open>Every accepted event belongs to a published row or to the sent part of a batch.\<close>

definition accounted :: "post_office \<Rightarrow> order_placed_event \<Rightarrow> bool" where
  "accounted s ev \<longleftrightarrow>
     (\<exists>r \<in> set (po_outbox s). ob_payload r = ev \<and>
        (ob_published_at r \<noteq> None \<or> (\<exists>c co. po_couriers s c = Some co \<and> r \<in> set (sent_rows co))))"

lemma accounted_published:
  "r \<in> set (po_outbox s) \<Longrightarrow> ob_payload r = ev \<Longrightarrow> ob_published_at r \<noteq> None \<Longrightarrow> accounted s ev"
  by (auto simp: accounted_def)

lemma accounted_sent:
  "r \<in> set (po_outbox s) \<Longrightarrow> ob_payload r = ev \<Longrightarrow> po_couriers s c = Some co \<Longrightarrow> r \<in> set (sent_rows co)
   \<Longrightarrow> accounted s ev"
  by (auto simp: accounted_def)

definition once :: "post_office \<Rightarrow> bool" where
  "once s \<longleftrightarrow> distinct (map ob_id (po_outbox s)) \<and> distinct (event_ids (po_outbox s))
   \<and> (\<forall>c co. po_couriers s c = Some co \<longrightarrow> holds_batch s c co)
   \<and> (\<forall>ev \<in> set (po_seen s). accounted s ev) \<and> distinct (map eventId (po_seen s))"

lemma onceD:
  assumes "once s"
  shows "distinct (map ob_id (po_outbox s))" "distinct (event_ids (po_outbox s))"
    "\<And>c co. po_couriers s c = Some co \<Longrightarrow> holds_batch s c co"
    "\<And>ev. ev \<in> set (po_seen s) \<Longrightarrow> accounted s ev" "distinct (map eventId (po_seen s))"
  using assms by (auto simp: once_def)

lemma same_event:
  "distinct (event_ids rs) \<Longrightarrow> r \<in> set rs \<Longrightarrow> q \<in> set rs
   \<Longrightarrow> eventId (ob_payload r) = eventId (ob_payload q) \<Longrightarrow> r = q"
  unfolding event_ids_def by (metis (mono_tags, lifting) distinct_map inj_onD)

text \<open>The next row of a batch has not been seen yet.\<close>

lemma next_is_new:
  assumes "once s" "po_couriers s c = Some co" "sending co"
  shows "eventId (ob_payload (co_batch co ! co_sent co)) \<notin> eventId ` set (po_seen s)"
proof
  let ?q = "co_batch co ! co_sent co"
  have h: "holds_batch s c co" using onceD(3) [OF assms(1,2)] .
  have q: "?q \<in> set (co_batch co)" using assms(3) by simp
  then have out: "?q \<in> set (po_outbox s)" and un: "ob_published_at ?q = None" using h by (auto simp: holds_batch_def)
  assume "eventId (ob_payload ?q) \<in> eventId ` set (po_seen s)"
  then obtain ev where "ev \<in> set (po_seen s)" "eventId ev = eventId (ob_payload ?q)" by auto
  with onceD(4) [OF assms(1)] obtain r where r: "r \<in> set (po_outbox s)" "ob_payload r = ev"
    and by_whom: "ob_published_at r \<noteq> None \<or> (\<exists>c' co'. po_couriers s c' = Some co' \<and> r \<in> set (sent_rows co'))"
    unfolding accounted_def by blast
  have "r = ?q"
    by (rule same_event [OF onceD(2) [OF assms(1)] r(1) out]) (use r \<open>eventId ev = _\<close> in simp)
  with by_whom un obtain c' co' where c': "po_couriers s c' = Some co'" "?q \<in> set (sent_rows co')" by auto
  show False
  proof (cases "c' = c")
    case True
    then have "?q \<in> set (take (co_sent co) (co_batch co))" using c' assms(2) by (simp add: sent_rows_def)
    moreover have "distinct (co_batch co)" using h by (auto simp: holds_batch_def distinct_map)
    ultimately show False using assms(3) by (auto simp: in_set_conv_nth nth_eq_iff_index_eq)
  next
    case False
    then have "?q \<in> set (co_batch co')" using c'(2) by (auto simp: sent_rows_def dest: in_set_takeD)
    moreover have "co_mode co' \<noteq> NoLock" using onceD(3) [OF assms(1) c'(1)] by (simp add: holds_batch_def)
    ultimately have "ob_id ?q \<in> held s c" using False c'(1) by (auto simp: held_def)
    then show False using h q by (auto simp: holds_batch_def)
  qed
qed


lemma holds_batch_kept:
  assumes "holds_batch s c co" "held s' c \<subseteq> held s c"
    and "set (co_batch co) \<subseteq> {r \<in> set (po_outbox s'). ob_published_at r = None}"
  shows "holds_batch s' c co"
  using assms unfolding holds_batch_def by blast

lemma held_same_batches:
  assumes "\<And>c'. map_option (\<lambda>co. (co_mode co, co_batch co)) (po_couriers s' c')
      = map_option (\<lambda>co. (co_mode co, co_batch co)) (po_couriers s c')"
  shows "held s' c = held s c"
proof -
  have eq: "held t c = {i. \<exists>c' m b. c' \<noteq> c \<and> map_option (\<lambda>co. (co_mode co, co_batch co)) (po_couriers t c') = Some (m, b)
      \<and> m \<noteq> NoLock \<and> i \<in> ob_id ` set b}" for t
    unfolding held_def by fastforce
  show ?thesis unfolding eq [of s'] eq [of s] assms ..
qed

lemma held_less: "held (s\<lparr>po_couriers := (po_couriers s)(c := None)\<rparr>) c' \<subseteq> held s c'"
  by (auto simp: held_def split: if_splits)

text \<open>Steps that only move a courier's own marks: the batches stay what they were.\<close>

lemma once_progress:
  assumes "once s" "po_couriers s c = Some co"
    and "co_batch co' = co_batch co" "co_mode co' = co_mode co" "co_sent co' \<le> length (co_batch co)"
    and "co_sent co \<le> co_sent co'"
    and "s' = s\<lparr>po_seen := po_seen s @ new, po_couriers := (po_couriers s)(c \<mapsto> co')\<rparr>"
    and "\<forall>ev \<in> set new. accounted s' ev" "distinct (map eventId (po_seen s @ new))"
  shows "once s'"
proof -
  have held: "held s' i = held s i" for i
    by (rule held_same_batches) (use assms(2-4,7) in simp)
  have "holds_batch s' i x" if x: "po_couriers s' i = Some x" for i x
  proof (cases "i = c")
    case True
    then show ?thesis using x onceD(3) [OF assms(1,2)] assms(3-5,7) held by (simp add: holds_batch_def)
  next
    case False
    then have "holds_batch s i x" using x onceD(3) [OF assms(1)] assms(7) by simp
    then show ?thesis using held assms(7) by (simp add: holds_batch_def)
  qed
  moreover have "accounted s' ev" if ev: "ev \<in> set (po_seen s)" for ev
  proof -
    obtain r where r: "r \<in> set (po_outbox s)" "ob_payload r = ev"
      "ob_published_at r \<noteq> None \<or> (\<exists>i x. po_couriers s i = Some x \<and> r \<in> set (sent_rows x))"
      using onceD(4) [OF assms(1) ev] unfolding accounted_def by blast
    have "\<exists>i x. po_couriers s' i = Some x \<and> r \<in> set (sent_rows x)"
      if i: "po_couriers s i = Some x" "r \<in> set (sent_rows x)" for i x
    proof (cases "i = c")
      case True
      then have "r \<in> set (sent_rows co')"
        using i assms(2,3,6) set_take_subset_set_take [OF assms(6), of "co_batch co"] by (auto simp: sent_rows_def)
      then show ?thesis using assms(7) by (intro exI [of _ c] exI [of _ co']) simp
    next
      case False
      then show ?thesis using i assms(7) by (intro exI [of _ i] exI [of _ x]) simp
    qed
    moreover have "r \<in> set (po_outbox s')" using r(1) assms(7) by simp
    ultimately show ?thesis using r(2,3) unfolding accounted_def by blast
  qed
  ultimately show ?thesis using assms(1,7-9) by (auto simp: once_def)
qed

lemma once_send:
  assumes "once s" "po_couriers s c = Some co" "sending co"
  shows "once (s\<lparr>po_seen := po_seen s @ [ob_payload (co_batch co ! co_sent co)],
          po_couriers := (po_couriers s)(c \<mapsto> co\<lparr>co_sent := Suc (co_sent co)\<rparr>)\<rparr>)" (is "once ?s'")
proof (rule once_progress [OF assms(1,2) _ _ _ _ refl])
  let ?q = "co_batch co ! co_sent co"
  have "?q \<in> set (co_batch co)" using assms(3) by simp
  then have "?q \<in> set (po_outbox s)" using onceD(3) [OF assms(1,2)] by (auto simp: holds_batch_def)
  moreover have "?q \<in> set (sent_rows (co\<lparr>co_sent := Suc (co_sent co)\<rparr>))"
    using assms(3) by (simp add: sent_rows_def take_Suc_conv_app_nth)
  ultimately show "\<forall>ev \<in> set [ob_payload ?q]. accounted ?s' ev"
    by (auto simp: accounted_def)
  show "distinct (map eventId (po_seen s @ [ob_payload ?q]))"
    using onceD(5) [OF assms(1)] next_is_new [OF assms] by auto
qed (use assms(3) in auto)


text \<open>A commit: the rows marked are the sent ones, which leave the batches.\<close>

lemma mark_row_other:
  assumes "holds_batch s c co" "\<not> sending co" "q \<in> set (po_outbox s)" "ob_id q \<notin> ob_id ` set (co_batch co)"
  shows "after_pass now (co_batch co) (co_sent co) q = q"
  using assms set_take_subset [of "co_sent co" "co_batch co"]
  by (auto simp: after_pass_def dest: in_set_takeD)

lemma accounted_commit:
  assumes "once s" "po_couriers s c = Some co" "accounted s ev"
    and s': "s' = s\<lparr>po_outbox := map (after_pass now (co_batch co) (co_sent co)) (po_outbox s),
             po_couriers := (po_couriers s)(c := None)\<rparr>"
  shows "accounted s' ev"
proof -
  let ?f = "after_pass now (co_batch co) (co_sent co)"
  obtain r where r: "r \<in> set (po_outbox s)" "ob_payload r = ev"
    and why: "ob_published_at r \<noteq> None \<or> (\<exists>i x. po_couriers s i = Some x \<and> r \<in> set (sent_rows x))"
    using assms(3) unfolding accounted_def by blast
  have row: "?f r \<in> set (po_outbox s')" "ob_payload (?f r) = ev" using r s' by auto
  from why show ?thesis
  proof
    assume "ob_published_at r \<noteq> None"
    then show ?thesis by (intro accounted_published [OF row]) (simp add: after_pass_published)
  next
    assume "\<exists>i x. po_couriers s i = Some x \<and> r \<in> set (sent_rows x)"
    then obtain i x where x: "po_couriers s i = Some x" "r \<in> set (sent_rows x)" by blast
    show ?thesis
    proof (cases "i = c")
      case True
      then have "ob_id r \<in> ob_id ` set (take (co_sent co) (co_batch co))"
        using x assms(2) by (simp add: sent_rows_def)
      then show ?thesis by (intro accounted_published [OF row]) (simp add: after_pass_published)
    next
      case False
      have "r \<in> set (co_batch x)" using x(2) by (auto simp: sent_rows_def dest: in_set_takeD)
      moreover have "co_mode x \<noteq> NoLock" using onceD(3) [OF assms(1) x(1)] by (simp add: holds_batch_def)
      ultimately have "ob_id r \<in> held s c" using False x(1) by (auto simp: held_def)
      then have no: "ob_id r \<notin> ob_id ` set (co_batch co)"
        using onceD(3) [OF assms(1,2)] by (auto simp: holds_batch_def)
      then have "ob_id r \<notin> ob_id ` set (take (co_sent co) (co_batch co))" by (auto dest: in_set_takeD)
      moreover have "\<not> (co_sent co < length (co_batch co) \<and> ob_id r = ob_id (co_batch co ! co_sent co))"
        using no by auto
      ultimately have "?f r = r" by (simp add: after_pass_def)
      then have "r \<in> set (po_outbox s')" using row(1) by simp
      moreover have "po_couriers s' i = Some x" using x(1) False s' by simp
      ultimately show ?thesis using accounted_sent r(2) x(2) by blast
    qed
  qed
qed

lemma once_commit:
  assumes "once s" "po_couriers s c = Some co" "\<not> sending co"
    and s': "s' = s\<lparr>po_outbox := map (after_pass now (co_batch co) (co_sent co)) (po_outbox s),
             po_couriers := (po_couriers s)(c := None)\<rparr>"
  shows "once s'"
proof -
  let ?f = "after_pass now (co_batch co) (co_sent co)"
  have h: "holds_batch s c co" using onceD(3) [OF assms(1,2)] .
  have held: "held s' i \<subseteq> held s i" for i by (auto simp: held_def s' split: if_splits)
  have "holds_batch s' i x" if x: "po_couriers s' i = Some x" for i x
  proof -
    have i: "i \<noteq> c" "po_couriers s i = Some x" using x s' by (auto split: if_splits)
    note hx = onceD(3) [OF assms(1) i(2)]
    have "q \<in> set (po_outbox s')" if q: "q \<in> set (co_batch x)" for q
    proof -
      have "ob_id q \<in> held s c" using i q hx by (auto simp: held_def holds_batch_def)
      then have "ob_id q \<notin> ob_id ` set (co_batch co)" using h by (auto simp: holds_batch_def)
      moreover have "q \<in> set (po_outbox s)" using hx q by (auto simp: holds_batch_def)
      ultimately have "?f q = q" using mark_row_other [OF h assms(3)] by blast
      then show ?thesis using \<open>q \<in> set (po_outbox s)\<close> s' by (auto intro: rev_image_eqI)
    qed
    then show ?thesis using hx held by (intro holds_batch_kept [OF hx]) (auto simp: holds_batch_def)
  qed
  moreover have "event_ids (po_outbox s') = event_ids (po_outbox s)" "map ob_id (po_outbox s') = map ob_id (po_outbox s)"
    using s' by (simp_all add: event_ids_def comp_def)
  moreover have "accounted s' ev" if "ev \<in> set (po_seen s)" for ev
    using accounted_commit [OF assms(1,2) onceD(4) [OF assms(1) that] s'] .
  moreover have "po_seen s' = po_seen s" using s' by simp
  ultimately show ?thesis using assms(1) unfolding once_def by metis
qed

lemma once_begin:
  assumes "once s" "po_couriers s c = None" "rows = take_batch mode (held s c) n None (po_outbox s)"
    and "mode \<noteq> NoLock" "ob_id ` set rows \<inter> held s c = {}"
    and s': "s' = s\<lparr>po_couriers := (po_couriers s)(c \<mapsto>
          \<lparr>co_mode = mode, co_batch = rows, co_sent = 0, co_stopped = False\<rparr>)\<rparr>"
  shows "once s'"
proof -
  have rows: "set rows \<subseteq> {r \<in> set (po_outbox s). ob_published_at r = None}" "distinct (map ob_id rows)"
    using take_batch_rows [of mode "held s c" n None "po_outbox s"]
      take_batch_distinct [OF onceD(1) [OF assms(1)], of mode "held s c" n None]
    by (auto simp: assms(3) pending_def)
  have held_c: "held s' c = held s c" by (auto simp: held_def s' split: if_splits)
  have held_i: "held s' i = held s i \<union> ob_id ` set rows" if "i \<noteq> c" for i
  proof (rule set_eqI)
    fix x
    show "x \<in> held s' i \<longleftrightarrow> x \<in> held s i \<union> ob_id ` set rows"
    proof (cases "x \<in> ob_id ` set rows")
      case True
      then have "x \<in> held s' i" unfolding held_def s' using that assms(4)
        by (intro CollectI exI [of _ c]) simp
      then show ?thesis using True by simp
    next
      case False
      have "x \<in> held s' i" if hx: "x \<in> held s i"
      proof -
        obtain c' co where c': "c' \<noteq> i" "po_couriers s c' = Some co" "co_mode co \<noteq> NoLock"
          "x \<in> ob_id ` set (co_batch co)" using hx unfolding held_def by blast
        then have "po_couriers s' c' = Some co" using assms(2) s' by auto
        then show ?thesis using c' unfolding held_def by blast
      qed
      moreover have "x \<in> held s i" if "x \<in> held s' i"
        using that False unfolding held_def s' by (auto split: if_splits)
      ultimately show ?thesis using False by blast
    qed
  qed
  have "holds_batch s' i x" if x: "po_couriers s' i = Some x" for i x
  proof (cases "i = c")
    case True
    then have "x = \<lparr>co_mode = mode, co_batch = rows, co_sent = 0, co_stopped = False\<rparr>" using x s' by simp
    moreover have "po_outbox s' = po_outbox s" using s' by simp
    ultimately show ?thesis unfolding holds_batch_def True held_c using rows assms(4,5) by simp
  next
    case False
    then have xi: "po_couriers s i = Some x" using x s' by simp
    note hx = onceD(3) [OF assms(1) xi]
    have "ob_id ` set (co_batch x) \<subseteq> held s c" using xi hx False by (auto simp: held_def holds_batch_def)
    then have "ob_id ` set (co_batch x) \<inter> ob_id ` set rows = {}" using assms(5) by blast
    then show ?thesis using hx held_i [OF False] s' by (auto simp: holds_batch_def)
  qed
  moreover have "accounted s' ev" if ev: "ev \<in> set (po_seen s)" for ev
  proof -
    obtain r where r: "r \<in> set (po_outbox s)" "ob_payload r = ev"
      "ob_published_at r \<noteq> None \<or> (\<exists>i x. po_couriers s i = Some x \<and> r \<in> set (sent_rows x))"
      using onceD(4) [OF assms(1) ev] unfolding accounted_def by blast
    moreover have "po_couriers s' i = Some x" if "po_couriers s i = Some x" for i x
      using that assms(2) s' by auto
    moreover have "po_outbox s' = po_outbox s" using s' by simp
    ultimately show ?thesis unfolding accounted_def by metis
  qed
  ultimately show ?thesis using assms(1) s' by (simp add: once_def)
qed


lemma once_enqueue:
  assumes "once s" "ob_published_at r = None" "ob_id r \<notin> ob_id ` set (po_outbox s)"
    and "eventId (ob_payload r) \<notin> (\<lambda>q. eventId (ob_payload q)) ` set (po_outbox s)"
    and s': "s' = s\<lparr>po_outbox := po_outbox s @ [r]\<rparr>"
  shows "once s'"
proof -
  have held: "held s' i = held s i" for i by (simp add: held_def s')
  have "holds_batch s' i x" if "po_couriers s' i = Some x" for i x
  proof -
    have "holds_batch s i x" using that onceD(3) [OF assms(1)] s' by simp
    then show ?thesis using held s' by (auto simp: holds_batch_def)
  qed
  moreover have "accounted s' ev" if ev: "ev \<in> set (po_seen s)" for ev
    using onceD(4) [OF assms(1) ev] unfolding accounted_def s' by auto
  moreover have "distinct (map ob_id (po_outbox s'))" "distinct (event_ids (po_outbox s'))"
    using onceD(1,2) [OF assms(1)] assms(3,4) s' by (auto simp: event_ids_def)
  ultimately show ?thesis using onceD(5) [OF assms(1)] s' by (simp add: once_def)
qed

lemma once_step:
  assumes "once s" "orderly e" "post_step s e s'"
  shows "once s'"
  using assms(3)
proof cases
  case (enqueue r)
  then show ?thesis using once_enqueue [OF assms(1)] by blast
next
  case (begins c rows mode n)
  then show ?thesis using once_begin [OF assms(1)] by blast
next
  case (send_ok c co)
  then show ?thesis using once_send [OF assms(1)] by blast
next
  case (send_fail c co)
  then show ?thesis
    using onceD(5) [OF assms(1)] onceD(3) [OF assms(1) send_fail(3)]
    by (intro once_progress [OF assms(1) send_fail(3), of "co\<lparr>co_stopped := True\<rparr>" s' "[]"])
      (auto simp: holds_batch_def)
next
  case (commit c co)
  then show ?thesis using once_commit [OF assms(1)] by blast
next
  case (tick t)
  then show ?thesis using assms(1) by (auto simp: once_def holds_batch_def held_def accounted_def)
qed (use assms(2) in simp_all)

text \<open>C30: with row locks (\<open>FOR UPDATE\<close>, with or without \<open>SKIP LOCKED\<close>) any number of couriers may run
  side by side: as long as none of them dies between publishing and its commit and no
  confirmation is late, the broker accepts no event twice, however often it refuses one.\<close>

theorem couriers_no_duplicates:
  assumes "po_outbox s = []" "po_seen s = []" "po_couriers s = (\<lambda>_. None)" "post_run orderly s s'"
  shows "distinct (map eventId (po_seen s'))"
proof -
  have "once s'"
    by (rule post_run_invariant [OF assms(4), where P = once])
      (simp add: once_def assms(1-3) event_ids_def, erule (2) once_step)
  then show ?thesis by (rule onceD(5))
qed


subsection \<open>A pass is a run\<close>

lemma run_trans:
  assumes "post_run ok s t" "post_run ok t u"
  shows "post_run ok s u"
  using assms(2) by (induction rule: post_run.induct) (auto intro: assms(1) run_step)

lemma run_one: "ok e \<Longrightarrow> post_step s e s' \<Longrightarrow> post_run ok s s'"
  by (rule run_step [OF run_start])

lemma run_sends:
  assumes "po_couriers s c = Some \<lparr>co_mode = mode, co_batch = rows, co_sent = 0, co_stopped = False\<rparr>"
    and "k \<le> length rows"
  shows "post_run (\<lambda>_. True) s (s\<lparr>po_seen := po_seen s @ map ob_payload (take k rows),
    po_couriers := (po_couriers s)(c \<mapsto> \<lparr>co_mode = mode, co_batch = rows, co_sent = k, co_stopped = False\<rparr>)\<rparr>)"
  using assms(2)
proof (induction k)
  case 0
  have "s\<lparr>po_seen := po_seen s @ map ob_payload (take 0 rows),
      po_couriers := (po_couriers s)(c \<mapsto> \<lparr>co_mode = mode, co_batch = rows, co_sent = 0, co_stopped = False\<rparr>)\<rparr> = s"
    using assms(1) by (cases s) (auto simp: fun_upd_idem)
  then show ?case by (simp only: run_start)
next
  case (Suc k)
  let ?t = "s\<lparr>po_seen := po_seen s @ map ob_payload (take k rows),
      po_couriers := (po_couriers s)(c \<mapsto> \<lparr>co_mode = mode, co_batch = rows, co_sent = k, co_stopped = False\<rparr>)\<rparr>"
  have "post_run (\<lambda>_. True) s ?t" by (rule Suc.IH) (use Suc.prems in simp)
  moreover have "post_step ?t (SendOk c) (s\<lparr>po_seen := po_seen s @ map ob_payload (take (Suc k) rows),
      po_couriers := (po_couriers s)(c \<mapsto> \<lparr>co_mode = mode, co_batch = rows, co_sent = Suc k, co_stopped = False\<rparr>)\<rparr>)"
    using send_ok [of ?t c "\<lparr>co_mode = mode, co_batch = rows, co_sent = k, co_stopped = False\<rparr>"] Suc.prems
    by (simp add: take_Suc_conv_app_nth)
  ultimately show ?case using run_step by blast
qed

text \<open>The end of the sending: a courier that has rows left stops, and the broker may have got one more.\<close>

lemma run_stop:
  assumes cur: "po_couriers s c = Some \<lparr>co_mode = mode, co_batch = rows, co_sent = k, co_stopped = False\<rparr>"
    and "k \<le> length rows"
    and ends: "accepted = po_seen s \<or> k < length rows \<and> accepted = po_seen s @ [ob_payload (rows ! k)]"
  obtains s' b where "post_run (\<lambda>_. True) s s'" "po_outbox s' = po_outbox s" "po_now s' = po_now s" "po_seen s' = accepted"
    "po_couriers s' = (po_couriers s)(c \<mapsto> \<lparr>co_mode = mode, co_batch = rows, co_sent = k, co_stopped = b\<rparr>)"
    "\<not> sending \<lparr>co_mode = mode, co_batch = rows, co_sent = k, co_stopped = b\<rparr>"
proof (cases "k < length rows")
  case True
  let ?s = "s\<lparr>po_seen := accepted,
      po_couriers := (po_couriers s)(c \<mapsto> \<lparr>co_mode = mode, co_batch = rows, co_sent = k, co_stopped = True\<rparr>)\<rparr>"
  have "post_run (\<lambda>_. True) s ?s"
  proof (cases "accepted = po_seen s")
    case same: True
    then show ?thesis using send_fail [OF cur] True
      by (intro run_one [of _ "SendFail c"]) (simp_all del: fun_upd_apply)
  next
    case False
    then show ?thesis using send_late [OF cur] True ends
      by (intro run_one [of _ "SendLate c"]) (simp_all del: fun_upd_apply)
  qed
  then show ?thesis by (rule that [of _ True]) simp_all
next
  case False
  then show ?thesis using that [OF run_start, of False] ends cur by (simp add: fun_upd_idem)
qed

text \<open>C32: a successful pass of \<open>relayOnce\<close> is a run of these steps: it begins with the rows no other
  courier has locked, sends some of them, possibly stops at a failure, and commits.\<close>

theorem relayOnce_refines_steps:
  assumes "confirms sink seen" "distinct (map ob_id (outbox (rw_db w)))" "notBefore options = None"
    and "relayOnce sink options (held s c) True w = (Inr pass, w')"
    and "po_outbox s = outbox (rw_db w)" "po_seen s = seen (rw_broker w)" "po_now s = clock (rw_db w)"
    and "po_couriers s c = None" "held s c = {} \<or> lockMode options = None \<or> lockMode options = Some SkipLocked"
  shows "\<exists>s'. post_run (\<lambda>_. True) s s' \<and> po_outbox s' = outbox (rw_db w') \<and> po_seen s' = seen (rw_broker w')
    \<and> po_couriers s' = po_couriers s"
proof -
  let ?mode = "case lockMode options of None \<Rightarrow> SkipLocked | Some m \<Rightarrow> m"
  let ?n = "case batchSize options of None \<Rightarrow> 100 | Some k \<Rightarrow> k"
  let ?rows = "take_batch ?mode (held s c) ?n None (po_outbox s)"
  let ?co = "\<lambda>k b. \<lparr>co_mode = ?mode, co_batch = ?rows, co_sent = k, co_stopped = b\<rparr>"
  have rows: "rows_of options (held s c) (rw_db w) = ?rows" using assms(3,5) by (simp add: rows_of_def)
  from relayOnce_run [OF assms(1,2,4)] obtain k where k: "k \<le> length ?rows"
    and w': "rw_db w' = (rw_db w)\<lparr>outbox := map (after_pass (clock (rw_db w)) ?rows k) (outbox (rw_db w))\<rparr>"
    and log: "seen (rw_broker w') = seen (rw_broker w) @ map ob_payload (take k ?rows)
       \<or> k < length ?rows \<and> seen (rw_broker w') = seen (rw_broker w) @ map ob_payload (take (Suc k) ?rows)"
    unfolding Let_def rows by blast
  have db: "outbox (rw_db w') = map (after_pass (po_now s) ?rows k) (po_outbox s)"
    using w' assms(5,7) by simp
  have free: "ob_id ` set ?rows \<inter> held s c = {}"
    using take_batch_rows [of ?mode "held s c" ?n None "po_outbox s"] assms(9) by auto
  define s1 where "s1 = s\<lparr>po_couriers := (po_couriers s)(c \<mapsto> ?co 0 False)\<rparr>"
  have start: "post_step s (Begin c ?mode ?n) s1"
  proof (cases "?mode = NoLock")
    case True
    then have "?rows = take_batch NoLock {} ?n None (po_outbox s)" by (simp add: take_batch_def)
    then show ?thesis using begins_without_lock [OF assms(8)] True unfolding s1_def by metis
  next
    case False
    then show ?thesis unfolding s1_def by (intro begins [OF assms(8) refl _ free])
  qed
  define s2 where "s2 = s1\<lparr>po_seen := po_seen s1 @ map ob_payload (take k ?rows),
    po_couriers := (po_couriers s1)(c \<mapsto> ?co k False)\<rparr>"
  have sends: "post_run (\<lambda>_. True) s1 s2"
    unfolding s2_def by (rule run_sends [OF _ k]) (simp add: s1_def)
  have s2: "po_couriers s2 = (po_couriers s)(c \<mapsto> ?co k False)" "po_outbox s2 = po_outbox s" "po_now s2 = po_now s"
    "po_seen s2 = po_seen s @ map ob_payload (take k ?rows)"
    by (simp_all add: s2_def s1_def)
  have "seen (rw_broker w') = po_seen s2 \<or> k < length ?rows \<and> seen (rw_broker w') = po_seen s2 @ [ob_payload (?rows ! k)]"
    using log assms(6) s2(4) by (auto simp: take_Suc_conv_app_nth)
  from run_stop [OF _ k this, of c ?mode] s2 obtain s3 b where s3: "post_run (\<lambda>_. True) s2 s3"
    "po_couriers s3 = (po_couriers s)(c \<mapsto> ?co k b)" "\<not> sending (?co k b)" "po_outbox s3 = po_outbox s"
    "po_now s3 = po_now s" "po_seen s3 = seen (rw_broker w')"
    by (metis fun_upd_same fun_upd_upd)
  have "held s3 c = held s c" unfolding held_def s3(2) by (auto split: if_splits)
  then have "post_step s3 (Commit c)
      (s3\<lparr>po_outbox := map (after_pass (po_now s3) ?rows k) (po_outbox s3), po_couriers := (po_couriers s3)(c := None)\<rparr>)"
    using commit [of s3 c "?co k b"] s3(2,3) free by simp
  then have "post_run (\<lambda>_. True) s (s3\<lparr>po_outbox := map (after_pass (po_now s3) ?rows k) (po_outbox s3),
      po_couriers := (po_couriers s3)(c := None)\<rparr>)"
    using run_trans [OF run_trans [OF run_one [OF _ start] sends] s3(1)] run_step by blast
  moreover have "(po_couriers s3)(c := None) = po_couriers s" using s3(2) assms(8) by auto
  ultimately show ?thesis using s3(4-6) db by - (intro exI conjI, assumption, simp_all)
qed


text \<open>An empty outbox, and one row that courier 0 carries.\<close>

definition empty_office :: post_office where
  "empty_office = \<lparr>po_outbox = [], po_seen = [], po_now = 0, po_couriers = (\<lambda>_. None)\<rparr>"

abbreviation sample_row :: outbox_row where
  "sample_row \<equiv> sample_outbox_row 1"

definition office_row :: post_office where
  "office_row = empty_office\<lparr>po_outbox := [sample_row]\<rparr>"

definition office_with :: "lock_mode \<Rightarrow> nat list \<Rightarrow> order_placed_event list \<Rightarrow> nat \<Rightarrow> post_office" where
  "office_with mode cs seen k = office_row\<lparr>po_seen := seen, po_couriers := (\<lambda>c.
     if c \<in> set cs then Some \<lparr>co_mode = mode, co_batch = [sample_row], co_sent = (if c < k then 1 else 0), co_stopped = False\<rparr>
     else None)\<rparr>"

lemma sample_row_batch: "take_batch mode {} 1 None [sample_row] = [sample_row]"
  by (simp add: take_batch_def pending_def sample_outbox_row_def by_age_def)

lemma office_enqueue: "post_step empty_office (Enqueue sample_row) office_row"
  using enqueue [of sample_row empty_office] by (simp add: office_row_def empty_office_def sample_outbox_row_def)

lemma held_empty: "po_couriers s = (\<lambda>_. None) \<Longrightarrow> held s c = {}"
  by (simp add: held_def)

lemma office_carried:
  assumes "mode \<noteq> NoLock"
  shows "post_step office_row (Begin 0 mode 1) (office_with mode [0] [] 0)"
    and "post_step (office_with mode [0] [] 0) (SendOk 0) (office_with mode [0] [sample_event 1] 1)"
proof -
  have none: "po_couriers office_row = (\<lambda>_. None)" by (simp add: office_row_def empty_office_def)
  have s: "office_row\<lparr>po_couriers := (po_couriers office_row)(0 \<mapsto>
      \<lparr>co_mode = mode, co_batch = [sample_row], co_sent = 0, co_stopped = False\<rparr>)\<rparr> = office_with mode [0] [] 0"
    by (auto simp: office_with_def office_row_def empty_office_def)
  have "[sample_row] = take_batch mode (held office_row 0) 1 None (po_outbox office_row)"
    using sample_row_batch by (simp add: held_empty [OF none]) (simp add: office_row_def)
  from begins [OF _ this assms] show "post_step office_row (Begin 0 mode 1) (office_with mode [0] [] 0)"
    using none held_empty [OF none] s by simp
  show "post_step (office_with mode [0] [] 0) (SendOk 0) (office_with mode [0] [sample_event 1] 1)"
    using send_ok [of "office_with mode [0] [] 0" 0
        "\<lparr>co_mode = mode, co_batch = [sample_row], co_sent = 0, co_stopped = False\<rparr>"]
    by (auto simp: office_with_def office_row_def empty_office_def sample_outbox_row_def fun_eq_iff
        elim!: back_subst [of "post_step _ _"])
qed

lemma office_run:
  assumes "mode \<noteq> NoLock" "\<And>e. e \<in> {Enqueue sample_row, Begin 0 mode 1, SendOk 0} \<Longrightarrow> ok e"
  shows "post_run ok empty_office (office_with mode [0] [sample_event 1] 1)"
  by (rule run_step [OF run_step [OF run_step [OF run_start _ office_enqueue] _ office_carried(1) [OF assms(1)]]
        _ office_carried(2) [OF assms(1)]]) (use assms(2) in auto)


lemma office_commit:
  "post_step (office_with SkipLocked [0] [sample_event 1] 1) (Commit 0)
     (office_row\<lparr>po_outbox := [sample_row\<lparr>ob_published_at := Some 0, ob_attempts := 1\<rparr>], po_seen := [sample_event 1]\<rparr>)"
proof -
  have "held (office_with SkipLocked [0] [sample_event 1] 1) 0 = {}" by (auto simp: held_def office_with_def)
  then show ?thesis
    using commit [of "office_with SkipLocked [0] [sample_event 1] 1" 0
        "\<lparr>co_mode = SkipLocked, co_batch = [sample_row], co_sent = 1, co_stopped = False\<rparr>"]
    by (auto simp: office_with_def office_row_def empty_office_def after_pass_def sample_outbox_row_def fun_eq_iff
        elim!: back_subst [of "post_step _ _"])
qed


theorem couriers_no_duplicates_witness:
  "\<exists>s'. post_run orderly empty_office s' \<and> po_seen s' = [sample_event 1] \<and> distinct (map eventId (po_seen s'))"
proof -
  have run: "post_run orderly empty_office (office_with SkipLocked [0] [sample_event 1] 1)"
    by (rule office_run) auto
  show ?thesis
    by (intro exI conjI, rule run, simp add: office_with_def,
        rule couriers_no_duplicates [OF _ _ _ run]) (simp_all add: empty_office_def)
qed

definition office_of :: "order_placed_event list relay_world \<Rightarrow> post_office" where
  "office_of w = \<lparr>po_outbox = outbox (rw_db w), po_seen = rw_broker w, po_now = clock (rw_db w), po_couriers = (\<lambda>_. None)\<rparr>"

theorem relayOnce_refines_steps_witness:
  "let (pass, w') = relayOnce late_sink sample_options {} True sample_relay in
   \<exists>s'. post_run (\<lambda>_. True) (office_of sample_relay) s' \<and> po_outbox s' = outbox (rw_db w')
     \<and> po_seen s' = rw_broker w' \<and> po_couriers s' = (\<lambda>_. None)"
proof -
  obtain pass w' where run: "relayOnce late_sink sample_options {} True sample_relay = (Inr pass, w')"
    using relayOnce_result [of late_sink sample_options "{}" sample_relay] by (metis prod.collapse)
  have held: "held (office_of sample_relay) 0 = {}" by (simp add: held_def office_of_def)
  have "confirms late_sink id" by (simp add: confirms_def late_sink_def)
  moreover have "distinct (map ob_id (outbox (rw_db sample_relay)))" by (simp add: sample_relay_ids)
  ultimately show ?thesis
    using relayOnce_refines_steps [of late_sink id sample_relay sample_options "office_of sample_relay" 0 pass w']
      run held by (simp add: sample_options_def office_of_def)
qed


lemma office_unlocked:
  "post_step office_row (Begin 0 NoLock 1) (office_with NoLock [0] [] 0)"
  "post_step (office_with NoLock [0] [] 0) (Begin 1 NoLock 1) (office_with NoLock [0, 1] [] 0)"
  "post_step (office_with NoLock [0, 1] [] 0) (SendOk 0) (office_with NoLock [0, 1] [sample_event 1] 1)"
  "post_step (office_with NoLock [0, 1] [sample_event 1] 1) (SendOk 1)
     (office_with NoLock [0, 1] [sample_event 1, sample_event 1] 2)"
proof -
  let ?co = "\<lparr>co_mode = NoLock, co_batch = [sample_row], co_sent = 0, co_stopped = False\<rparr>"
  have outbox: "po_outbox office_row = [sample_row]" "po_outbox (office_with m cs xs k) = [sample_row]" for m cs xs k
    by (simp_all add: office_row_def office_with_def)
  have batch: "[sample_row] = take_batch NoLock {} 1 None (po_outbox office_row)"
    "[sample_row] = take_batch NoLock {} 1 None (po_outbox (office_with NoLock [0] [] 0))"
    unfolding outbox by (rule sample_row_batch [symmetric])+
  show "post_step office_row (Begin 0 NoLock 1) (office_with NoLock [0] [] 0)"
    using begins_without_lock [OF _ batch(1), of 0]
    by (auto simp: office_with_def office_row_def empty_office_def fun_eq_iff elim!: back_subst [of "post_step _ _"])
  show "post_step (office_with NoLock [0] [] 0) (Begin 1 NoLock 1) (office_with NoLock [0, 1] [] 0)"
    using begins_without_lock [OF _ batch(2), of 1]
    by (auto simp: office_with_def office_row_def empty_office_def fun_eq_iff elim!: back_subst [of "post_step _ _"])
  show "post_step (office_with NoLock [0, 1] [] 0) (SendOk 0) (office_with NoLock [0, 1] [sample_event 1] 1)"
    using send_ok [of "office_with NoLock [0, 1] [] 0" 0 ?co]
    by (auto simp: office_with_def office_row_def empty_office_def sample_outbox_row_def fun_eq_iff
        elim!: back_subst [of "post_step _ _"])
  show "post_step (office_with NoLock [0, 1] [sample_event 1] 1) (SendOk 1)
     (office_with NoLock [0, 1] [sample_event 1, sample_event 1] 2)"
    using send_ok [of "office_with NoLock [0, 1] [sample_event 1] 1" 1 ?co]
    by (auto simp: office_with_def office_row_def empty_office_def sample_outbox_row_def fun_eq_iff
        elim!: back_subst [of "post_step _ _"])
qed

text \<open>The lock is what prevents duplicates: two couriers in the mode \<open>none\<close> can both take a row and
  have its event accepted twice, although nothing failed.\<close>

theorem no_lock_duplicates:
  "\<exists>s'. post_run (\<lambda>e. \<forall>c. e \<noteq> Crash c \<and> e \<noteq> SendLate c) empty_office s' \<and> \<not> distinct (map eventId (po_seen s'))"
proof -
  have "post_run (\<lambda>e. \<forall>c. e \<noteq> Crash c \<and> e \<noteq> SendLate c) empty_office
      (office_with NoLock [0, 1] [sample_event 1, sample_event 1] 2)"
    by (rule run_step [OF run_step [OF run_step [OF run_step [OF run_step [OF run_start _ office_enqueue]
        _ office_unlocked(1)] _ office_unlocked(2)] _ office_unlocked(3)] _ office_unlocked(4)]) simp_all
  then show ?thesis by (intro exI conjI) (assumption, simp add: office_with_def)
qed

end
