(* ===== verification/Denylist.thy ===== *)
theory Denylist
  imports Redis
begin

text \<open>
  The denylist of access tokens: \<open>src/auth/access-denylist.ts\<close>. A logout puts the token's id, a detected
  reuse the token's family on the list, each under a key that expires when no token it could concern
  is valid any more. \<open>expiresAtSec\<close> is the token's \<open>exp\<close> in seconds, \<open>nowMs\<close> the clock of the server
  (\<open>Date.now()\<close>); the theorems take it to be the clock of Redis.
\<close>

definition ACCESS_TTL_SEC :: int where "ACCESS_TTL_SEC = 600"

definition DENY_JTI_PREFIX :: string where "DENY_JTI_PREFIX = ''deny:jti:''"
definition DENY_FAMILY_PREFIX :: string where "DENY_FAMILY_PREFIX = ''deny:fam:''"

definition denyJtiKey :: "string \<Rightarrow> string" where "denyJtiKey jti = DENY_JTI_PREFIX @ jti"
definition denyFamilyKey :: "string \<Rightarrow> string" where "denyFamilyKey familyId = DENY_FAMILY_PREFIX @ familyId"

definition revokeAccess :: "string \<Rightarrow> rat \<Rightarrow> int \<Rightarrow> bool redis_action" where
  "revokeAccess jti expiresAtSec nowMs =
     (let remainingSec = \<lceil>expiresAtSec - of_int nowMs / 1000\<rceil> in
      if remainingSec \<le> 0 then ret False
      else and_then (redis_set_ex (denyJtiKey jti) ''1'' remainingSec) (\<lambda>_. ret True))"

definition denyFamily :: "string \<Rightarrow> unit redis_action" where
  "denyFamily familyId = redis_set_ex (denyFamilyKey familyId) ''1'' ACCESS_TTL_SEC"

definition isDenied :: "string \<Rightarrow> string \<Rightarrow> bool redis_action" where
  "isDenied jti familyId =
     and_then (redis_exists [denyJtiKey jti, denyFamilyKey familyId]) (\<lambda>n. ret (0 < n))"

subsection \<open>Keys\<close>

lemma deny_keys [simp]:
  "denyJtiKey j = denyJtiKey j' \<longleftrightarrow> j = j'" "denyFamilyKey f = denyFamilyKey f' \<longleftrightarrow> f = f'"
  "denyJtiKey j \<noteq> denyFamilyKey f" "denyFamilyKey f \<noteq> denyJtiKey j"
  by (auto simp: denyJtiKey_def denyFamilyKey_def DENY_JTI_PREFIX_def DENY_FAMILY_PREFIX_def)

lemma isDenied_run:
  "isDenied jti f r =
     (if r_up r then Inr (live r (denyJtiKey jti) \<noteq> None \<or> live r (denyFamilyKey f) \<noteq> None)
      else Inl (RedisError ''unavailable''), r)"
  by (auto simp: isDenied_def redis_exists_def command_def and_then_def)

subsection \<open>Calls\<close>

datatype deny_call = DenyToken string rat | DenyFamily string

definition deny_call :: "deny_call \<Rightarrow> redis \<Rightarrow> redis" where
  "deny_call c r = (case c of DenyToken j e \<Rightarrow> snd (revokeAccess j e (now_ms r) r) | DenyFamily f \<Rightarrow> snd (denyFamily f r))"

text \<open>Calls at given instants (microseconds).\<close>

fun deny_calls :: "(int \<times> deny_call) list \<Rightarrow> redis \<Rightarrow> redis" where
  "deny_calls [] r = r"
| "deny_calls ((us, c) # cs) r = deny_calls cs (deny_call c (at_time us r))"

text \<open>The key is set and lives at least until \<open>e\<close> (milliseconds).\<close>

definition lives_until :: "rat \<Rightarrow> string \<Rightarrow> redis \<Rightarrow> bool" where
  "lives_until e k r \<longleftrightarrow> (\<exists>v t. r_data r k = Some (RString v, Some t) \<and> e \<le> of_int t)"

lemma lives_until_live: "lives_until e k r \<Longrightarrow> of_int (us div 1000) < e \<Longrightarrow> live (at_time us r) k \<noteq> None"
proof -
  assume l: "lives_until e k r" and us: "of_int (us div 1000) < e"
  obtain v t where vt: "r_data r k = Some (RString v, Some t)" "e \<le> of_int t" using l by (auto simp: lives_until_def)
  then have "us div 1000 < t" using us by linarith
  then show "live (at_time us r) k \<noteq> None" using vt(1) by (simp add: live_def)
qed

lemma lives_until_at_time [simp]: "lives_until e k (at_time us r) = lives_until e k r"
  by (simp add: lives_until_def)

lemma ceil_covers: "(e :: rat) * 1000 \<le> of_int (now + \<lceil>e - of_int now / 1000\<rceil> * 1000)"
proof -
  let ?c = "\<lceil>e - of_int now / 1000\<rceil>"
  have "(e - of_int now / 1000) * 1000 \<le> of_int ?c * 1000" by (rule mult_right_mono) simp_all
  moreover have "(e - of_int now / 1000) * 1000 = e * 1000 - of_int now" by (simp add: algebra_simps)
  ultimately show ?thesis by simp
qed

lemma revokeAccess_lives:
  assumes "r_up r" "of_int (now_ms r) < e * 1000"
  shows "fst (revokeAccess j e (now_ms r) r) = Inr True"
    and "lives_until (e * 1000) (denyJtiKey j) (snd (revokeAccess j e (now_ms r) r))"
proof -
  have pos: "0 < \<lceil>e - of_int (now_ms r) / 1000\<rceil>" using assms(2) by (simp add: field_simps)
  then show "fst (revokeAccess j e (now_ms r) r) = Inr True"
    using assms(1) by (simp add: revokeAccess_def and_then_def redis_set_ex_def command_def)
  show "lives_until (e * 1000) (denyJtiKey j) (snd (revokeAccess j e (now_ms r) r))"
    using assms(1) pos ceil_covers [of e "now_ms r"]
    by (auto simp: revokeAccess_def and_then_def redis_set_ex_def command_def lives_until_def put_def)
qed

lemma denyFamily_lives:
  assumes "r_up r" "e \<le> of_int (now_ms r + 600000)"
  shows "lives_until e (denyFamilyKey f) (snd (denyFamily f r))"
  using assms by (simp add: denyFamily_def redis_set_ex_def command_def lives_until_def put_def ACCESS_TTL_SEC_def)

lemma revokeAccess_other: "k \<noteq> denyJtiKey j \<Longrightarrow> r_data (snd (revokeAccess j e now r)) k = r_data r k"
  by (simp add: revokeAccess_def and_then_def redis_set_ex_def command_def put_def Let_def)

lemma denyFamily_other: "k \<noteq> denyFamilyKey f \<Longrightarrow> r_data (snd (denyFamily f r)) k = r_data r k"
  by (simp add: denyFamily_def redis_set_ex_def command_def put_def)

lemma deny_call_up [simp]: "r_up (deny_call c r) = r_up r"
  by (cases c) (simp_all add: deny_call_def revokeAccess_def denyFamily_def and_then_def redis_set_ex_def
      command_def Let_def)

text \<open>Later calls do not shorten what a call promised: neither for the token nor for the family.\<close>

lemma token_stays:
  assumes "lives_until (e * 1000) (denyJtiKey j) r" "\<forall>e'. c = DenyToken j e' \<longrightarrow> e' = e"
  shows "lives_until (e * 1000) (denyJtiKey j) (deny_call c r)"
proof (cases "\<exists>e'. c = DenyToken j e'")
  case True
  then have c: "c = DenyToken j e" using assms(2) by blast
  show ?thesis
  proof (cases "r_up r \<and> of_int (now_ms r) < e * 1000")
    case True
    then show ?thesis using revokeAccess_lives(2) c by (simp add: deny_call_def)
  next
    case False
    then have "deny_call c r = r"
    proof (cases "r_up r")
      case True
      then have "\<lceil>e - of_int (now_ms r) / 1000\<rceil> \<le> 0" using False by (simp add: ceiling_le_iff field_simps)
      then show ?thesis by (simp add: deny_call_def c revokeAccess_def)
    qed (simp add: deny_call_def c revokeAccess_def and_then_def redis_set_ex_def command_def Let_def)
    then show ?thesis using assms(1) by simp
  qed
next
  case False
  then have "r_data (deny_call c r) (denyJtiKey j) = r_data r (denyJtiKey j)"
    by (cases c) (auto simp: deny_call_def revokeAccess_other denyFamily_other)
  then show ?thesis using assms(1) by (simp add: lives_until_def)
qed

lemma family_stays:
  assumes "lives_until e (denyFamilyKey f) r" "e \<le> of_int (now_ms r + 600000)"
  shows "lives_until e (denyFamilyKey f) (deny_call c r)"
proof (cases "c = DenyFamily f \<and> r_up r")
  case True
  then show ?thesis using denyFamily_lives assms(2) by (simp add: deny_call_def)
next
  case False
  then have "r_data (deny_call c r) (denyFamilyKey f) = r_data r (denyFamilyKey f)"
  proof (cases c)
    case (DenyFamily g)
    then show ?thesis
    proof (cases "g = f")
      case True
      then show ?thesis using DenyFamily False by (simp add: deny_call_def denyFamily_def redis_set_ex_def command_def)
    qed (simp add: deny_call_def denyFamily_other)
  qed (simp add: deny_call_def revokeAccess_other)
  then show ?thesis using assms(1) by (simp add: lives_until_def)
qed

lemma calls_up [simp]: "r_up (deny_calls cs r) = r_up r"
  by (induction cs r rule: deny_calls.induct) simp_all

lemma token_stays_calls:
  "lives_until (e * 1000) (denyJtiKey j) r \<Longrightarrow> \<forall>us e'. (us, DenyToken j e') \<in> set cs \<longrightarrow> e' = e
   \<Longrightarrow> lives_until (e * 1000) (denyJtiKey j) (deny_calls cs r)"
proof (induction cs r rule: deny_calls.induct)
  case (2 us c cs r)
  then show ?case using token_stays [of e j "at_time us r" c] by auto
qed simp

lemma family_stays_calls:
  "lives_until e (denyFamilyKey f) r \<Longrightarrow> \<forall>us c. (us, c) \<in> set cs \<longrightarrow> e \<le> of_int (us div 1000 + 600000)
   \<Longrightarrow> lives_until e (denyFamilyKey f) (deny_calls cs r)"
proof (induction cs r rule: deny_calls.induct)
  case (2 us c cs r)
  then show ?case using family_stays [of e f "at_time us r" c] by auto
qed simp

text \<open>A revoked access token stays revoked for as long as it could be used: at every instant before its
  \<open>exp\<close>, whatever is put on the list in between, it is found there. It is never taken off too early,
  although \<open>exp\<close> is in seconds and the clock in milliseconds.\<close>

theorem revoked_while_valid:
  fixes e :: rat
  assumes "r_up r" and "of_int (now_ms r) < e * 1000"
    and "\<forall>us e'. (us, DenyToken jti e') \<in> set cs \<longrightarrow> e' = e"
    and "of_int (us div 1000) < e * 1000"
  shows "fst (isDenied jti f (at_time us (deny_calls cs (snd (revokeAccess jti e (now_ms r) r))))) = Inr True"
proof -
  have "r_up (snd (revokeAccess jti e (now_ms r) r))"
    using deny_call_up [of "DenyToken jti e" r] assms(1) by (simp add: deny_call_def)
  then show ?thesis
    using lives_until_live [OF token_stays_calls [OF revokeAccess_lives(2) [OF assms(1,2)] assms(3)] assms(4)]
    by (simp add: isDenied_run)
qed

theorem revoked_while_valid_witness:
  "fst (isDenied ''j'' ''f'' (at_time 4999999
     (deny_calls [(4200000, DenyFamily ''g'')]
        (snd (revokeAccess ''j'' 5 1500 \<lparr>r_us = 1500000, r_up = True, r_data = (\<lambda>_. None)\<rparr>))))) = Inr True"
  using revoked_while_valid [of "\<lparr>r_us = 1500000, r_up = True, r_data = (\<lambda>_. None)\<rparr>" 5 "''j''"
      "[(4200000, DenyFamily ''g'')]" 4999999 "''f''"]
  by (simp add: now_ms_def)

text \<open>When a family is put on the list, every access token issued for it until then (none lives longer
  than 600 seconds) is found there at every instant at which it could still be used, and the list
  concerns nobody else: a token neither itself nor by its family on the list is not denied.\<close>

theorem family_denied_while_valid:
  fixes e :: rat
  assumes "r_up r" and "e \<le> of_int (now_ms r) / 1000 + 600"
    and "\<forall>(t, c) \<in> set cs. r_us r \<le> t" and "of_int (us div 1000) < e * 1000"
  shows "fst (isDenied jti f (at_time us (deny_calls cs (snd (denyFamily f r))))) = Inr True
    \<and> (live (at_time us r) (denyJtiKey jti') = None \<and> live (at_time us r) (denyFamilyKey f') = None \<and> f' \<noteq> f
        \<and> (\<forall>t c. (t, c) \<in> set cs \<longrightarrow> c \<noteq> DenyFamily f' \<and> (\<forall>e'. c \<noteq> DenyToken jti' e'))
       \<longrightarrow> fst (isDenied jti' f' (at_time us (deny_calls cs (snd (denyFamily f r))))) = Inr False)"
proof -
  let ?r1 = "snd (denyFamily f r)"
  have up: "r_up ?r1" using deny_call_up [of "DenyFamily f" r] assms(1) by (simp add: deny_call_def)
  have e: "e * 1000 \<le> of_int (now_ms r + 600000)" using assms(2) by (simp add: field_simps)
  have "now_ms r \<le> t div 1000" if "(t, c) \<in> set cs" for t c
  proof -
    have "r_us r \<le> t" using assms(3) that by auto
    then show ?thesis unfolding now_ms_def by (rule zdiv_mono1) simp
  qed
  then have "\<forall>t c. (t, c) \<in> set cs \<longrightarrow> e * 1000 \<le> of_int (t div 1000 + 600000)"
    using e by (meson add_right_mono of_int_le_iff order_trans)
  then have "lives_until (e * 1000) (denyFamilyKey f) (deny_calls cs ?r1)"
    by (rule family_stays_calls [OF denyFamily_lives [OF assms(1) e]])
  then have denied: "fst (isDenied jti f (at_time us (deny_calls cs ?r1))) = Inr True"
    using lives_until_live [OF _ assms(4)] up by (simp add: isDenied_run)
  have other: "r_data (deny_calls cs q) k = r_data q k"
    if "\<forall>t c. (t, c) \<in> set cs \<longrightarrow> (\<forall>f. c = DenyFamily f \<longrightarrow> k \<noteq> denyFamilyKey f) \<and> (\<forall>j e. c = DenyToken j e \<longrightarrow> k \<noteq> denyJtiKey j)"
    for q k
    using that
  proof (induction cs q rule: deny_calls.induct)
    case (2 us c cs q)
    then have "r_data (deny_call c (at_time us q)) k = r_data (at_time us q) k"
      by (cases c) (auto simp: deny_call_def revokeAccess_other denyFamily_other)
    then show ?case using 2 by auto
  qed simp
  have "fst (isDenied jti' f' (at_time us (deny_calls cs ?r1))) = Inr False"
    if free: "live (at_time us r) (denyJtiKey jti') = None" "live (at_time us r) (denyFamilyKey f') = None" "f' \<noteq> f"
      "\<forall>t c. (t, c) \<in> set cs \<longrightarrow> c \<noteq> DenyFamily f' \<and> (\<forall>e'. c \<noteq> DenyToken jti' e')"
  proof -
    have "r_data (deny_calls cs ?r1) (denyJtiKey jti') = r_data r (denyJtiKey jti')"
      "r_data (deny_calls cs ?r1) (denyFamilyKey f') = r_data r (denyFamilyKey f')"
      using other [of "denyJtiKey jti'" ?r1] other [of "denyFamilyKey f'" ?r1] free(3,4)
        denyFamily_other [of "denyJtiKey jti'" f r] denyFamily_other [of "denyFamilyKey f'" f r] by auto
    then have "live (at_time us (deny_calls cs ?r1)) (denyJtiKey jti') = None"
      "live (at_time us (deny_calls cs ?r1)) (denyFamilyKey f') = None"
      using free(1,2) unfolding live_def redis_fields by simp_all
    then show ?thesis using up by (simp add: isDenied_run)
  qed
  then show ?thesis using denied by blast
qed

theorem family_denied_while_valid_witness:
  "fst (isDenied ''j'' ''f'' (at_time 600999999
     (deny_calls [(4200000, DenyFamily ''g'')]
        (snd (denyFamily ''f'' \<lparr>r_us = 1500000, r_up = True, r_data = (\<lambda>_. None)\<rparr>))))) = Inr True"
  using family_denied_while_valid [of "\<lparr>r_us = 1500000, r_up = True, r_data = (\<lambda>_. None)\<rparr>" 601
      "[(4200000, DenyFamily ''g'')]" 600999999 "''j''" "''f''"]
  by (simp add: now_ms_def)

end
