(* ===== verification/AccessTokens.thy ===== *)
theory AccessTokens
  imports Denylist
begin

text \<open>
  Access tokens: the configuration of the keys (\<open>src/config/auth-env.ts\<close>, \<open>jwt-keys.ts\<close>), the key store
  (\<open>src/auth/key-store.ts\<close>) and the service that signs and verifies (\<open>token.service.ts\<close>).

  The cryptography of Node and the package \<open>jsonwebtoken\<close> are not in the sources: they are the records
  \<open>key_lib\<close> and \<open>jwt_lib\<close>, and \<open>jwt_contract\<close> is what the package documents. Instants are milliseconds,
  the times in a token seconds. A finite \<open>exp\<close> is a rational number; a signed token has no other.
\<close>

subsection \<open>Keys\<close>

record ('k, 'p) key_lib =
  createPrivateKey :: "string \<Rightarrow> 'k option"
  createPublicKey :: "string \<Rightarrow> 'p option"
  privateDetails :: "'k \<Rightarrow> string \<times> string option"
  publicDetails :: "'p \<Rightarrow> string \<times> string option"
  toPublic :: "'k \<Rightarrow> 'p"
  spki_sha256 :: "'p \<Rightarrow> string"

definition decodePem :: "string \<Rightarrow> string" where
  "decodePem base64 = unbase64url base64"

definition assertEs256 :: "string \<times> string option \<Rightarrow> bool" where
  "assertEs256 details \<longleftrightarrow> details = (''ec'', Some ''prime256v1'')"

definition loadEs256PrivateKey :: "('k, 'p) key_lib \<Rightarrow> string \<Rightarrow> error + 'k" where
  "loadEs256PrivateKey lib base64 =
     (case createPrivateKey lib (decodePem base64) of
        None \<Rightarrow> Inl (PlainError ''createPrivateKey'')
      | Some key \<Rightarrow> if assertEs256 (privateDetails lib key) then Inr key else Inl (PlainError ''ES256''))"

definition loadEs256PublicKey :: "('k, 'p) key_lib \<Rightarrow> string \<Rightarrow> error + 'p" where
  "loadEs256PublicKey lib base64 =
     (case createPublicKey lib (decodePem base64) of
        None \<Rightarrow> Inl (PlainError ''createPublicKey'')
      | Some key \<Rightarrow> if assertEs256 (publicDetails lib key) then Inr key else Inl (PlainError ''ES256''))"

definition publicKeyFingerprint :: "('k, 'p) key_lib \<Rightarrow> 'p \<Rightarrow> string" where
  "publicKeyFingerprint lib key = take 8 (spki_sha256 lib key)"

subsection \<open>Configuration\<close>

record auth_env =
  JWT_KID :: string
  JWT_PRIVATE_KEY :: string
  JWT_PUBLIC_KEY :: string
  JWT_PREVIOUS_KID :: "string option"
  JWT_PREVIOUS_PUBLIC_KEY :: "string option"

definition env_fail :: "string \<Rightarrow> error + 'a" where
  "env_fail variable = Inl (PlainError variable)"

text \<open>A string variable is truthy when it is set and not empty.\<close>

definition truthy :: "string option \<Rightarrow> bool" where
  "truthy v \<longleftrightarrow> v \<noteq> None \<and> v \<noteq> Some []"

definition validateAuthEnv :: "('k, 'p) key_lib \<Rightarrow> auth_env \<Rightarrow> error + auth_env" where
  "validateAuthEnv lib env =
     (case loadEs256PrivateKey lib (JWT_PRIVATE_KEY env) of Inl _ \<Rightarrow> env_fail ''JWT_PRIVATE_KEY'' | Inr privateKey \<Rightarrow>
     (case loadEs256PublicKey lib (JWT_PUBLIC_KEY env) of Inl _ \<Rightarrow> env_fail ''JWT_PUBLIC_KEY'' | Inr publicKey \<Rightarrow>
      if publicKeyFingerprint lib (toPublic lib privateKey) \<noteq> publicKeyFingerprint lib publicKey
      then env_fail ''JWT_PUBLIC_KEY''
      else let previousKid = JWT_PREVIOUS_KID env; previousPublicKey = JWT_PREVIOUS_PUBLIC_KEY env in
        if truthy previousKid \<noteq> truthy previousPublicKey
        then env_fail (if truthy previousKid then ''JWT_PREVIOUS_PUBLIC_KEY'' else ''JWT_PREVIOUS_KID'')
        else if truthy previousKid \<and> truthy previousPublicKey
        then if previousKid = Some (JWT_KID env) then env_fail ''JWT_PREVIOUS_KID''
             else (case loadEs256PublicKey lib (the previousPublicKey) of
                     Inl _ \<Rightarrow> env_fail ''JWT_PREVIOUS_PUBLIC_KEY'' | Inr _ \<Rightarrow> Inr env)
        else Inr env))"

subsection \<open>The key store\<close>

record ('k, 'p) key_store =
  ks_kid :: string
  ks_signingKey :: 'k
  ks_keys :: "string \<Rightarrow> 'p option"

definition new_key_store :: "('k, 'p) key_lib \<Rightarrow> auth_env \<Rightarrow> error + ('k, 'p) key_store" where
  "new_key_store lib env =
     (case loadEs256PrivateKey lib (JWT_PRIVATE_KEY env) of Inl e \<Rightarrow> Inl e | Inr signingKey \<Rightarrow>
     (case loadEs256PublicKey lib (JWT_PUBLIC_KEY env) of Inl e \<Rightarrow> Inl e | Inr publicKey \<Rightarrow>
      let keys = Map.empty(JWT_KID env \<mapsto> publicKey);
          previousKid = JWT_PREVIOUS_KID env; previousPublic = JWT_PREVIOUS_PUBLIC_KEY env in
      if truthy previousKid \<and> truthy previousPublic
      then (case loadEs256PublicKey lib (the previousPublic) of Inl e \<Rightarrow> Inl e | Inr previousKey \<Rightarrow>
              Inr \<lparr>ks_kid = JWT_KID env, ks_signingKey = signingKey, ks_keys = keys(the previousKid \<mapsto> previousKey)\<rparr>)
      else Inr \<lparr>ks_kid = JWT_KID env, ks_signingKey = signingKey, ks_keys = keys\<rparr>))"

definition verificationKey :: "('k, 'p) key_store \<Rightarrow> string option \<Rightarrow> error + 'p" where
  "verificationKey keys kid =
     (case (if truthy kid then ks_keys keys (the kid) else None) of
        None \<Rightarrow> Inl (PlainError ''kid'') | Some key \<Rightarrow> Inr key)"

text \<open>A configuration that passes validation makes a working key store: its public key verifies what its
  private key signs (fingerprints of 32 bits, provided the two keys do not collide), and the previous
  key is found under its own id without taking the place of the current one.\<close>

theorem validated_key_store:
  assumes "validateAuthEnv lib env = Inr env'" and "JWT_KID env \<noteq> []"
    and "\<forall>k p. createPrivateKey lib (decodePem (JWT_PRIVATE_KEY env)) = Some k \<longrightarrow>
      createPublicKey lib (decodePem (JWT_PUBLIC_KEY env)) = Some p \<longrightarrow>
      publicKeyFingerprint lib (toPublic lib k) = publicKeyFingerprint lib p \<longrightarrow> toPublic lib k = p"
  shows "env' = env \<and> (\<exists>keys. new_key_store lib env = Inr keys \<and> ks_kid keys = JWT_KID env
    \<and> verificationKey keys (Some (JWT_KID env)) = Inr (toPublic lib (ks_signingKey keys))
    \<and> (\<forall>kid. truthy (Some kid) \<longrightarrow> kid \<noteq> JWT_KID env \<longrightarrow>
         verificationKey keys (Some kid)
           = (if JWT_PREVIOUS_KID env = Some kid
              then loadEs256PublicKey lib (the (JWT_PREVIOUS_PUBLIC_KEY env)) else Inl (PlainError ''kid''))))"
proof -
  obtain k where k: "createPrivateKey lib (decodePem (JWT_PRIVATE_KEY env)) = Some k"
    "loadEs256PrivateKey lib (JWT_PRIVATE_KEY env) = Inr k"
    using assms(1) by (auto simp: validateAuthEnv_def env_fail_def loadEs256PrivateKey_def split: option.splits if_splits)
  obtain p where p: "createPublicKey lib (decodePem (JWT_PUBLIC_KEY env)) = Some p"
    "loadEs256PublicKey lib (JWT_PUBLIC_KEY env) = Inr p"
    using assms(1) k(2)
    by (auto simp: validateAuthEnv_def env_fail_def loadEs256PublicKey_def [of lib "JWT_PUBLIC_KEY env"]
        split: option.splits if_splits)
  have fp: "publicKeyFingerprint lib (toPublic lib k) = publicKeyFingerprint lib p"
    using assms(1) k(2) p(2) by (auto simp: validateAuthEnv_def env_fail_def split: if_splits)
  then have kp: "toPublic lib k = p" using assms(3) k(1) p(1) by blast
  show ?thesis
  proof (cases "truthy (JWT_PREVIOUS_KID env) \<and> truthy (JWT_PREVIOUS_PUBLIC_KEY env)")
    case True
    then obtain kid where kid: "JWT_PREVIOUS_KID env = Some kid" "kid \<noteq> []" by (auto simp: truthy_def)
    have q: "kid \<noteq> JWT_KID env" "\<exists>q. loadEs256PublicKey lib (the (JWT_PREVIOUS_PUBLIC_KEY env)) = Inr q" "env' = env"
      using assms(1) k(2) p(2) fp True kid
      by (auto simp: validateAuthEnv_def env_fail_def Let_def split: if_splits sum.splits)
    then show ?thesis
      using k(2) p(2) kp True kid assms(2)
      by (auto simp: new_key_store_def verificationKey_def Let_def truthy_def)
  next
    case False
    then have none: "\<not> truthy (JWT_PREVIOUS_KID env)" "env' = env"
      using assms(1) k(2) p(2) fp by (auto simp: validateAuthEnv_def env_fail_def Let_def split: if_splits sum.splits)
    then show ?thesis
      using k(2) p(2) kp assms(2)
      by (auto simp: new_key_store_def verificationKey_def Let_def truthy_def)
  qed
qed

subsection \<open>Signing and verifying\<close>

definition SIGNING_ALG :: string where "SIGNING_ALG = ''ES256''"
definition JWT_ISSUER :: string where "JWT_ISSUER = ''marketplace-api''"
definition JWT_AUDIENCE :: string where "JWT_AUDIENCE = ''marketplace-clients''"

text \<open>
  \<open>jwt.sign\<close> of a payload under a header (algorithm and key id), \<open>jwt.decode(.., {complete: true})\<close> (the
  \<open>kid\<close> and the payload, unverified) and \<open>jwt.verify\<close> with the algorithms, issuer and audience it
  accepts, at an instant in seconds.
\<close>

record ('k, 'p) jwt_lib =
  jwt_sign :: "string \<Rightarrow> string \<Rightarrow> json \<Rightarrow> 'k \<Rightarrow> string"
  jwt_decode :: "string \<Rightarrow> (string option \<times> json) option"
  jwt_verify :: "string \<Rightarrow> 'p \<Rightarrow> string list \<Rightarrow> string \<Rightarrow> string \<Rightarrow> int \<Rightarrow> json option"

record access_principal =
  ap_userId :: int
  ap_role :: user_role
  ap_jti :: string
  ap_familyId :: string
  ap_expiresAt :: rat

record signed_access_token =
  sa_token :: string
  sa_jti :: string
  sa_expiresIn :: int

fun role_text :: "user_role \<Rightarrow> string" where
  "role_text customer = ''customer''"
| "role_text seller = ''seller''"
| "role_text admin = ''admin''"

definition role_of_text :: "string \<Rightarrow> user_role option" where
  "role_of_text t = find (\<lambda>r. role_text r = t) USER_ROLES"

definition json_int :: "int \<Rightarrow> json" where
  "json_int n = JNumber (Num (of_int n))"

text \<open>\<open>jti\<close> is the \<open>randomUUID()\<close>; the options of \<open>jwt.sign\<close> become the claims \<open>iat\<close>, \<open>exp\<close>, \<open>aud\<close>, \<open>iss\<close>, \<open>sub\<close>, \<open>jti\<close>.\<close>

definition access_claims :: "int \<Rightarrow> user_role \<Rightarrow> string \<Rightarrow> string \<Rightarrow> int \<Rightarrow> json" where
  "access_claims userId role familyId jti nowMs =
     JObject [(''role'', JString (role_text role)), (''fid'', JString familyId),
       (''iat'', json_int (nowMs div 1000)), (''exp'', json_int (nowMs div 1000 + ACCESS_TTL_SEC)),
       (''aud'', JString JWT_AUDIENCE), (''iss'', JString JWT_ISSUER), (''sub'', JString (show_int userId)),
       (''jti'', JString jti)]"

definition signAccess ::
  "('k, 'p) jwt_lib \<Rightarrow> ('k, 'p) key_store \<Rightarrow> int \<Rightarrow> user_role \<Rightarrow> string \<Rightarrow> string \<Rightarrow> int \<Rightarrow> signed_access_token" where
  "signAccess lib keys userId role familyId jti nowMs =
     \<lparr>sa_token = jwt_sign lib SIGNING_ALG (ks_kid keys) (access_claims userId role familyId jti nowMs) (ks_signingKey keys),
      sa_jti = jti, sa_expiresIn = ACCESS_TTL_SEC\<rparr>"

text \<open>\<open>Number(v)\<close> of a JSON value: arrays and objects go through \<open>String(v)\<close>.\<close>

fun js_String :: "json \<Rightarrow> string" and js_elements :: "json list \<Rightarrow> string" where
  "js_String JNull = ''null''"
| "js_String (JBool b) = (if b then ''true'' else ''false'')"
| "js_String (JNumber n) = number_text n"
| "js_String (JString t) = t"
| "js_String (JArray vs) = js_elements vs"
| "js_String (JObject ms) = ''[object Object]''"
| "js_elements [] = []"
| "js_elements (v # vs) = (if v = JNull then [] else js_String v) @ (if vs = [] then [] else CHR '','' # js_elements vs)"

definition js_Number_of :: "json option \<Rightarrow> jsnum" where
  "js_Number_of v =
     (case v of None \<Rightarrow> NaN | Some JNull \<Rightarrow> Num 0 | Some (JBool b) \<Rightarrow> Num (if b then 1 else 0) | Some (JNumber n) \<Rightarrow> n
      | Some w \<Rightarrow> js_Number (js_String w))"

definition principal_of :: "json \<Rightarrow> access_principal option" where
  "principal_of payload =
     (case (int_of_num (js_Number_of (field_of ''sub'' payload)), field_of ''role'' payload, field_of ''fid'' payload,
            field_of ''jti'' payload, field_of ''exp'' payload) of
        (Some userId, Some (JString role), Some (JString fid), Some (JString jti), Some (JNumber (Num expiry))) \<Rightarrow>
          (case role_of_text role of
             None \<Rightarrow> None
           | Some r \<Rightarrow> if userId \<le> 0 then None
               else Some \<lparr>ap_userId = userId, ap_role = r, ap_jti = jti, ap_familyId = fid, ap_expiresAt = expiry\<rparr>)
      | _ \<Rightarrow> None)"

definition verifyAccess ::
  "('k, 'p) jwt_lib \<Rightarrow> ('k, 'p) key_store \<Rightarrow> string \<Rightarrow> int \<Rightarrow> error + access_principal" where
  "verifyAccess lib keys token nowMs =
     (case verificationKey keys (Option.bind (jwt_decode lib token) fst) of
        Inl e \<Rightarrow> Inl e
      | Inr key \<Rightarrow>
          (case jwt_verify lib token key [SIGNING_ALG] JWT_ISSUER JWT_AUDIENCE (nowMs div 1000) of
             None \<Rightarrow> Inl (PlainError ''JsonWebTokenError'')
           | Some payload \<Rightarrow>
               (case principal_of payload of None \<Rightarrow> Inl (PlainError ''claims'') | Some p \<Rightarrow> Inr p)))"


text \<open>
  What \<open>jsonwebtoken\<close> documents: decoding reads what was signed; \<open>verify\<close> accepts a token signed by the
  key that belongs to the given one, when algorithm, issuer, audience and time agree, and returns its
  payload; and it accepts nothing else.
\<close>

definition claims_agree :: "string \<Rightarrow> string \<Rightarrow> int \<Rightarrow> json \<Rightarrow> bool" where
  "claims_agree issuer audience nowSec payload \<longleftrightarrow>
     field_of ''iss'' payload = Some (JString issuer) \<and> field_of ''aud'' payload = Some (JString audience)
     \<and> (\<forall>q. field_of ''exp'' payload = Some (JNumber (Num q)) \<longrightarrow> of_int nowSec < q)"

definition jwt_contract :: "('k, 'p) jwt_lib \<Rightarrow> ('k \<Rightarrow> 'p) \<Rightarrow> bool" where
  "jwt_contract lib pub \<longleftrightarrow>
     (\<forall>alg kid payload key. int_numbers payload \<longrightarrow>
        jwt_decode lib (jwt_sign lib alg kid payload key) = Some (Some kid, payload))
   \<and> (\<forall>alg kid payload key issuer audience nowSec.
        int_numbers payload \<longrightarrow> claims_agree issuer audience nowSec payload \<longrightarrow>
        jwt_verify lib (jwt_sign lib alg kid payload key) (pub key) [alg] issuer audience nowSec = Some payload)
   \<and> (\<forall>token p alg issuer audience nowSec payload.
        jwt_verify lib token p [alg] issuer audience nowSec = Some payload \<longrightarrow>
        (\<exists>kid key. token = jwt_sign lib alg kid payload key \<and> pub key = p)
        \<and> (\<exists>kid. jwt_decode lib token = Some (kid, payload)) \<and> claims_agree issuer audience nowSec payload)"

lemma int_numbers_claims [simp]: "int_numbers (access_claims u r f j n)"
  by (simp add: access_claims_def json_int_def)

lemma claims_fields [simp]:
  "field_of ''sub'' (access_claims u r f j n) = Some (JString (show_int u))"
  "field_of ''role'' (access_claims u r f j n) = Some (JString (role_text r))"
  "field_of ''fid'' (access_claims u r f j n) = Some (JString f)"
  "field_of ''jti'' (access_claims u r f j n) = Some (JString j)"
  "field_of ''exp'' (access_claims u r f j n) = Some (JNumber (Num (of_int (n div 1000 + ACCESS_TTL_SEC))))"
  "field_of ''iss'' (access_claims u r f j n) = Some (JString JWT_ISSUER)"
  "field_of ''aud'' (access_claims u r f j n) = Some (JString JWT_AUDIENCE)"
  by (simp_all add: access_claims_def json_int_def)

lemma role_of_text_text [simp]: "role_of_text (role_text r) = Some r"
  by (cases r) (simp_all add: role_of_text_def USER_ROLES_def)

lemma principal_of_claims [simp]:
  "principal_of (access_claims u r f j n) =
     (if u \<le> 0 then None
      else Some \<lparr>ap_userId = u, ap_role = r, ap_jti = j, ap_familyId = f,
                 ap_expiresAt = of_int (n div 1000 + ACCESS_TTL_SEC)\<rparr>)"
  by (simp add: principal_of_def js_Number_of_def js_Number_show_int_all)

lemma claims_agree_claims [simp]:
  "claims_agree JWT_ISSUER JWT_AUDIENCE t (access_claims u r f j n) \<longleftrightarrow> t < n div 1000 + ACCESS_TTL_SEC"
  unfolding claims_agree_def claims_fields by (auto simp flip: of_int_add)

lemma signed_verifies:
  assumes "jwt_contract lib pub" and "0 < userId"
    and "token = sa_token (signAccess lib keys userId role familyId jti nowMs)"
  shows "(verificationKey keys' (Some (ks_kid keys)) = Inr (pub (ks_signingKey keys)) \<and> t div 1000 < nowMs div 1000 + 600 \<longrightarrow>
      verifyAccess lib keys' token t = Inr \<lparr>ap_userId = userId, ap_role = role, ap_jti = jti, ap_familyId = familyId,
                   ap_expiresAt = of_int (nowMs div 1000 + 600)\<rparr>)
    \<and> (\<forall>who. verifyAccess lib keys' token t = Inr who \<longrightarrow>
         t div 1000 < nowMs div 1000 + 600 \<and> verificationKey keys' (Some (ks_kid keys)) \<noteq> Inl (PlainError ''kid'')
         \<and> who = \<lparr>ap_userId = userId, ap_role = role, ap_jti = jti, ap_familyId = familyId,
                   ap_expiresAt = of_int (nowMs div 1000 + 600)\<rparr>)"
proof -
  let ?c = "access_claims userId role familyId jti nowMs"
  have token: "token = jwt_sign lib SIGNING_ALG (ks_kid keys) ?c (ks_signingKey keys)"
    using assms(3) by (simp add: signAccess_def)
  have dec: "jwt_decode lib token = Some (Some (ks_kid keys), ?c)"
    using assms(1) unfolding jwt_contract_def token by (metis int_numbers_claims)
  have ver: "jwt_verify lib token (pub (ks_signingKey keys)) [SIGNING_ALG] JWT_ISSUER JWT_AUDIENCE (t div 1000) = Some ?c"
    if "t div 1000 < nowMs div 1000 + 600"
    using assms(1) that unfolding jwt_contract_def token by (metis ACCESS_TTL_SEC_def claims_agree_claims int_numbers_claims)
  have sound: "c = ?c \<and> t div 1000 < nowMs div 1000 + 600"
    if "jwt_verify lib token p [SIGNING_ALG] JWT_ISSUER JWT_AUDIENCE (t div 1000) = Some c" for p c
  proof -
    have "(\<exists>kid. jwt_decode lib token = Some (kid, c))" "claims_agree JWT_ISSUER JWT_AUDIENCE (t div 1000) c"
      using assms(1) that unfolding jwt_contract_def by blast+
    then have "c = ?c" and "claims_agree JWT_ISSUER JWT_AUDIENCE (t div 1000) c" using dec by simp_all
    then show ?thesis using claims_agree_claims by (simp add: ACCESS_TTL_SEC_def)
  qed
  have v: "verifyAccess lib keys' token t =
      (case verificationKey keys' (Some (ks_kid keys)) of Inl e \<Rightarrow> Inl e | Inr p \<Rightarrow>
        (case jwt_verify lib token p [SIGNING_ALG] JWT_ISSUER JWT_AUDIENCE (t div 1000) of
           None \<Rightarrow> Inl (PlainError ''JsonWebTokenError'')
         | Some payload \<Rightarrow> (case principal_of payload of None \<Rightarrow> Inl (PlainError ''claims'') | Some p \<Rightarrow> Inr p)))"
    by (simp add: verifyAccess_def dec)
  show ?thesis
  proof (intro conjI impI allI)
    assume "verificationKey keys' (Some (ks_kid keys)) = Inr (pub (ks_signingKey keys)) \<and> t div 1000 < nowMs div 1000 + 600"
    then show "verifyAccess lib keys' token t = Inr \<lparr>ap_userId = userId, ap_role = role, ap_jti = jti,
        ap_familyId = familyId, ap_expiresAt = of_int (nowMs div 1000 + 600)\<rparr>"
      using v ver assms(2) by (simp add: ACCESS_TTL_SEC_def)
  next
    fix who
    assume ok: "verifyAccess lib keys' token t = Inr who"
    then obtain p where p: "verificationKey keys' (Some (ks_kid keys)) = Inr p"
      using v by (cases "verificationKey keys' (Some (ks_kid keys))") auto
    then show "verificationKey keys' (Some (ks_kid keys)) \<noteq> Inl (PlainError ''kid'')" by simp
    obtain c where c: "jwt_verify lib token p [SIGNING_ALG] JWT_ISSUER JWT_AUDIENCE (t div 1000) = Some c"
      using v ok p by (auto split: option.splits)
    show "t div 1000 < nowMs div 1000 + 600" using sound [OF c] by blast
    show "who = \<lparr>ap_userId = userId, ap_role = role, ap_jti = jti, ap_familyId = familyId,
        ap_expiresAt = of_int (nowMs div 1000 + 600)\<rparr>"
      using v ok p c sound [OF c] assms(2) by (simp add: ACCESS_TTL_SEC_def)
  qed
qed

text \<open>A token signed for a user is accepted by every key store that knows its key under its id (also after
  a rotation, as the previous key) for 600 seconds; no store accepts it later, nor with another identity
  than it was signed for, nor when it does not know the id.\<close>

theorem access_token_roundtrip:
  assumes "jwt_contract lib pub" and "0 < userId"
    and "token = sa_token (signAccess lib keys userId role familyId jti nowMs)"
  shows "(verificationKey keys' (Some (ks_kid keys)) = Inr (pub (ks_signingKey keys)) \<and> t div 1000 < nowMs div 1000 + 600 \<longrightarrow>
      verifyAccess lib keys' token t = Inr \<lparr>ap_userId = userId, ap_role = role, ap_jti = jti, ap_familyId = familyId,
                   ap_expiresAt = of_int (nowMs div 1000 + 600)\<rparr>)
    \<and> (\<forall>who. verifyAccess lib keys' token t = Inr who \<longrightarrow>
         t div 1000 < nowMs div 1000 + 600 \<and> verificationKey keys' (Some (ks_kid keys)) \<noteq> Inl (PlainError ''kid'')
         \<and> who = \<lparr>ap_userId = userId, ap_role = role, ap_jti = jti, ap_familyId = familyId,
                   ap_expiresAt = of_int (nowMs div 1000 + 600)\<rparr>)"
  using assms by (rule signed_verifies)

lemma verified_was_signed:
  assumes "jwt_contract lib pub" and "verifyAccess lib keys token nowMs = Inr who"
  shows "\<exists>kid signedKid payload key. jwt_decode lib token = Some (Some kid, payload) \<and> ks_keys keys kid = Some (pub key)
    \<and> token = jwt_sign lib ''ES256'' signedKid payload key \<and> principal_of payload = Some who
    \<and> of_int (nowMs div 1000) < ap_expiresAt who \<and> 0 < ap_userId who"
proof -
  obtain p where p: "verificationKey keys (Option.bind (jwt_decode lib token) fst) = Inr p"
    using assms(2) by (auto simp: verifyAccess_def split: sum.splits)
  obtain payload where v: "jwt_verify lib token p [SIGNING_ALG] JWT_ISSUER JWT_AUDIENCE (nowMs div 1000) = Some payload"
    and pr: "principal_of payload = Some who"
    using assms(2) p by (auto simp: verifyAccess_def split: option.splits)
  obtain kid' key where signed: "token = jwt_sign lib SIGNING_ALG kid' payload key" "pub key = p"
    and dec: "\<exists>kid. jwt_decode lib token = Some (kid, payload)" and agree: "claims_agree JWT_ISSUER JWT_AUDIENCE (nowMs div 1000) payload"
    using assms(1) v unfolding jwt_contract_def by blast
  obtain kid where kid: "jwt_decode lib token = Some (Some kid, payload)" "ks_keys keys kid = Some p"
    using p dec by (auto simp: verificationKey_def truthy_def split: option.splits if_splits)
  have "of_int (nowMs div 1000) < ap_expiresAt who \<and> 0 < ap_userId who"
    using pr agree unfolding principal_of_def claims_agree_def
    by (auto split: option.splits json.splits jsnum.splits if_splits)
  then show ?thesis using kid signed pr by (auto simp: SIGNING_ALG_def)
qed



subsection \<open>A library that keeps the contract\<close>

text \<open>For the examples: a token is the JSON text of its header, payload and key.\<close>

definition plain_token :: "string \<Rightarrow> string \<Rightarrow> json \<Rightarrow> string \<Rightarrow> json" where
  "plain_token alg kid payload key =
     JObject [(''alg'', JString alg), (''kid'', JString kid), (''payload'', payload), (''key'', JString key)]"

fun token_parts :: "json \<Rightarrow> (string \<times> string \<times> json \<times> string) option" where
  "token_parts (JObject [(a, JString alg), (b, JString kid), (c, payload), (d, JString key)]) = Some (alg, kid, payload, key)"
| "token_parts _ = None"

definition plain_jwt :: "(string, string) jwt_lib" where
  "plain_jwt =
     \<lparr>jwt_sign = (\<lambda>alg kid payload key. json_text (plain_token alg kid payload key)),
      jwt_decode = (\<lambda>t. map_option (\<lambda>(alg, kid, payload, key). (Some kid, payload)) (Option.bind (json_parse t) token_parts)),
      jwt_verify = (\<lambda>t p algs issuer audience nowSec.
        case Option.bind (json_parse t) token_parts of
          None \<Rightarrow> None
        | Some (alg, kid, payload, key) \<Rightarrow>
            if t = json_text (plain_token alg kid payload key) \<and> alg \<in> set algs \<and> p = ''pub '' @ key
               \<and> claims_agree issuer audience nowSec payload
            then Some payload else None)\<rparr>"

lemma plain_parse: "int_numbers payload \<Longrightarrow>
  Option.bind (json_parse (json_text (plain_token alg kid payload key))) token_parts = Some (alg, kid, payload, key)"
  by (subst json_parse_text) (simp_all add: plain_token_def)

lemma plain_contract: "jwt_contract plain_jwt (\<lambda>key. ''pub '' @ key)"
  unfolding jwt_contract_def
proof (intro conjI allI impI)
  fix token p alg issuer audience nowSec payload
  assume "jwt_verify plain_jwt token p [alg] issuer audience nowSec = Some payload"
  then obtain kid key where parts: "Option.bind (json_parse token) token_parts = Some (alg, kid, payload, key)"
    and "token = json_text (plain_token alg kid payload key)" "p = ''pub '' @ key" "claims_agree issuer audience nowSec payload"
    by (auto simp: plain_jwt_def split: option.splits prod.splits if_splits)
  then show "\<exists>kid key. token = jwt_sign plain_jwt alg kid payload key \<and> ''pub '' @ key = p"
    "claims_agree issuer audience nowSec payload" "\<exists>kid. jwt_decode plain_jwt token = Some (kid, payload)"
    by (auto simp: plain_jwt_def simp del: bind_eq_Some_conv)
qed (simp_all add: plain_jwt_def plain_parse)

definition plain_keys :: "(string, string) key_store" where
  "plain_keys = \<lparr>ks_kid = ''k1'', ks_signingKey = ''key'', ks_keys = [''k1'' \<mapsto> ''pub key'']\<rparr>"

text \<open>The store after a rotation of keys.\<close>

definition rotated_keys :: "(string, string) key_store" where
  "rotated_keys = \<lparr>ks_kid = ''k2'', ks_signingKey = ''new'', ks_keys = [''k2'' \<mapsto> ''pub new'', ''k1'' \<mapsto> ''pub key'']\<rparr>"

definition sample_access :: string where
  "sample_access = sa_token (signAccess plain_jwt plain_keys 1 customer ''f'' ''j'' 1500)"

theorem access_token_roundtrip_witness:
  "verifyAccess plain_jwt rotated_keys sample_access 600999
     = Inr \<lparr>ap_userId = 1, ap_role = customer, ap_jti = ''j'', ap_familyId = ''f'', ap_expiresAt = 601\<rparr>
   \<and> (\<forall>who. verifyAccess plain_jwt rotated_keys sample_access 601000 \<noteq> Inr who)"
proof -
  have known: "verificationKey rotated_keys (Some (ks_kid plain_keys)) = Inr (''pub '' @ ks_signingKey plain_keys)"
    by (simp add: verificationKey_def truthy_def rotated_keys_def plain_keys_def)
  note trip = access_token_roundtrip [OF plain_contract zero_less_one sample_access_def, of rotated_keys]
  have "verifyAccess plain_jwt rotated_keys sample_access 600999
     = Inr \<lparr>ap_userId = 1, ap_role = customer, ap_jti = ''j'', ap_familyId = ''f'', ap_expiresAt = of_int (1500 div 1000 + 600)\<rparr>"
    by (rule mp [OF conjunct1 [OF trip, of 600999]]) (simp add: known)
  moreover have "\<not> verifyAccess plain_jwt rotated_keys sample_access 601000 = Inr who" for who
    using conjunct2 [OF trip, of 601000] by auto
  ultimately show ?thesis by simp
qed


definition plain_lib :: "(string, string) key_lib" where
  "plain_lib = \<lparr>createPrivateKey = Some, createPublicKey = Some, privateDetails = (\<lambda>_. (''ec'', Some ''prime256v1'')),
     publicDetails = (\<lambda>_. (''ec'', Some ''prime256v1'')), toPublic = id, spki_sha256 = id\<rparr>"

definition plain_env :: auth_env where
  "plain_env = \<lparr>JWT_KID = ''k2'', JWT_PRIVATE_KEY = ''TTTT'', JWT_PUBLIC_KEY = ''TTTT'',
     JWT_PREVIOUS_KID = Some ''k1'', JWT_PREVIOUS_PUBLIC_KEY = Some ''UUUU''\<rparr>"

theorem validated_key_store_witness:
  "\<exists>keys. new_key_store plain_lib plain_env = Inr keys
    \<and> verificationKey keys (Some ''k2'') = Inr (toPublic plain_lib (ks_signingKey keys))
    \<and> verificationKey keys (Some ''k1'') = loadEs256PublicKey plain_lib ''UUUU''"
proof -
  have "validateAuthEnv plain_lib plain_env = Inr plain_env"
    by (simp add: validateAuthEnv_def plain_env_def plain_lib_def loadEs256PrivateKey_def loadEs256PublicKey_def
        assertEs256_def truthy_def)
  from validated_key_store [OF this] show ?thesis
    by (force simp: plain_env_def plain_lib_def publicKeyFingerprint_def truthy_def)
qed

end
