(* ===== verification/RefreshTokens.thy ===== *)
theory RefreshTokens
  imports SampleShop
begin

text \<open>
  \<open>src/auth/refresh-token.service.ts\<close> over the table \<open>refresh_tokens\<close>: issuing, rotating and
  revoking families of refresh tokens. Random values (the token, the family id, the row id) are
  arguments; \<open>hmac\<close> is the keyed hash of the crypto library. Instants are milliseconds.

  The relation \<open>token_step\<close> is what can happen to the table: anybody may issue, rotate any token,
  revoke a family, and time may pass.
\<close>

definition REFRESH_TTL_SEC :: int where "REFRESH_TTL_SEC = 7 * 24 * 60 * 60"
definition REFRESH_ABSOLUTE_TTL_SEC :: int where "REFRESH_ABSOLUTE_TTL_SEC = 30 * 24 * 60 * 60"

datatype reject_reason = Unknown | Revoked | Reused | Expired

record token_owner =
  ow_userId :: int
  ow_familyId :: string

datatype rotation_result =
    Rotated token_owner string
  | Rejected reject_reason "token_owner option" "nat option"

text \<open>\<open>/^[A-Za-z0-9_-]{43}$/\<close>.\<close>

definition is_base64url_char :: "char \<Rightarrow> bool" where
  "is_base64url_char c =
     (let n = of_char c :: nat in
      (65 \<le> n \<and> n \<le> 90) \<or> (97 \<le> n \<and> n \<le> 122) \<or> (48 \<le> n \<and> n \<le> 57) \<or> n = 95 \<or> n = 45)"

definition TOKEN_PATTERN :: "string \<Rightarrow> bool" where
  "TOKEN_PATTERN token \<longleftrightarrow> length token = 43 \<and> list_all is_base64url_char token"

definition insert_refresh_token :: "refresh_token_row \<Rightarrow> unit db_action" where
  "insert_refresh_token r =
     and_then (gets id) (\<lambda>s.
     and_then (guard (rt_id r \<notin> rt_id ` set (refresh_tokens s)
                      \<and> rt_token_hash r \<notin> rt_token_hash ` set (refresh_tokens s))
                 (QueryFailedError UNIQUE_VIOLATION)) (\<lambda>_.
     and_then (guard (rt_user_id r \<in> u_id ` set (users s)) FK_VIOLATION) (\<lambda>_.
       modify (\<lambda>s. s\<lparr>refresh_tokens := refresh_tokens s @ [r]\<rparr>))))"

definition issue ::
  "(string \<Rightarrow> string) \<Rightarrow> string \<Rightarrow> string \<Rightarrow> string \<Rightarrow> int \<Rightarrow> (string \<times> string) db_action" where
  "issue hmac rowId token familyId userId =
     and_then (gets clock) (\<lambda>now.
     and_then
       (insert_refresh_token
          \<lparr>rt_id = rowId, rt_user_id = userId, rt_family_id = familyId, rt_token_hash = hmac token,
           rt_created_at = now, rt_used_at = None, rt_revoked_at = None,
           rt_expires_at = now + REFRESH_TTL_SEC * 1000, rt_family_started_at = now\<rparr>)
       (\<lambda>_. ret (token, familyId)))"

definition revoke_row :: "string \<Rightarrow> int \<Rightarrow> refresh_token_row \<Rightarrow> refresh_token_row" where
  "revoke_row familyId now r =
     (if rt_family_id r = familyId \<and> rt_revoked_at r = None then r\<lparr>rt_revoked_at := Some now\<rparr> else r)"

definition revokeFamily :: "string \<Rightarrow> nat db_action" where
  "revokeFamily familyId =
     and_then (gets (\<lambda>s. length (filter (\<lambda>r. rt_family_id r = familyId \<and> rt_revoked_at r = None)
                              (refresh_tokens s)))) (\<lambda>affected.
     and_then (modify (\<lambda>s. s\<lparr>refresh_tokens := map (revoke_row familyId (clock s)) (refresh_tokens s)\<rparr>))
       (\<lambda>_. ret affected))"

definition use_row :: "string \<Rightarrow> int \<Rightarrow> refresh_token_row \<Rightarrow> refresh_token_row" where
  "use_row i now r = (if rt_id r = i then r\<lparr>rt_used_at := Some now\<rparr> else r)"

text \<open>The transaction of \<open>rotate\<close>: \<open>next\<close> is the token it generates, \<open>rowId\<close> the id of its row.\<close>

definition rotate_body ::
  "(string \<Rightarrow> string) \<Rightarrow> string \<Rightarrow> string \<Rightarrow> string \<Rightarrow> rotation_result db_action" where
  "rotate_body hmac rowId nxt token =
     and_then (gets id) (\<lambda>s.
       case find (\<lambda>r. rt_token_hash r = hmac token) (refresh_tokens s) of
         None \<Rightarrow> ret (Rejected Unknown None None)
       | Some row \<Rightarrow>
           (let owner = \<lparr>ow_userId = rt_user_id row, ow_familyId = rt_family_id row\<rparr> in
            if rt_revoked_at row \<noteq> None then ret (Rejected Revoked (Some owner) None)
            else if rt_used_at row \<noteq> None then
              and_then (revokeFamily (rt_family_id row)) (\<lambda>n.
                ret (Rejected Reused (Some owner) (Some n)))
            else if rt_expires_at row \<le> clock s then ret (Rejected Expired (Some owner) None)
            else
              and_then (modify (\<lambda>s. s\<lparr>refresh_tokens :=
                 map (use_row (rt_id row) (clock s)) (refresh_tokens s)\<rparr>)) (\<lambda>_.
              and_then
                (insert_refresh_token
                   \<lparr>rt_id = rowId, rt_user_id = rt_user_id row, rt_family_id = rt_family_id row,
                    rt_token_hash = hmac nxt, rt_created_at = clock s,
                    rt_used_at = None, rt_revoked_at = None,
                    rt_expires_at = min (clock s + REFRESH_TTL_SEC * 1000)
                                        (rt_family_started_at row + REFRESH_ABSOLUTE_TTL_SEC * 1000),
                    rt_family_started_at = rt_family_started_at row\<rparr>)
                (\<lambda>_. ret (Rotated owner nxt)))))"

definition rotate_token ::
  "(string \<Rightarrow> string) \<Rightarrow> string \<Rightarrow> string \<Rightarrow> string \<Rightarrow> rotation_result db_action" where
  "rotate_token hmac rowId nxt token =
     (if \<not> TOKEN_PATTERN token then ret (Rejected Unknown None None)
      else transaction (rotate_body hmac rowId nxt token))"

subsection \<open>What can happen\<close>

inductive token_step :: "(string \<Rightarrow> string) \<Rightarrow> db \<Rightarrow> db \<Rightarrow> bool" for hmac where
  step_issue: "f \<notin> rt_family_id ` set (refresh_tokens s) \<Longrightarrow> token_step hmac s (snd (issue hmac i t f u s))"
| step_rotate: "token_step hmac s (snd (rotate_token hmac i n t s))"
| step_revoke: "token_step hmac s (snd (revokeFamily f s))"
| step_time: "clock s \<le> now \<Longrightarrow> token_step hmac s (s\<lparr>clock := now\<rparr>)"

text \<open>A row can still be rotated when it was neither used nor revoked.\<close>

definition usable :: "refresh_token_row \<Rightarrow> bool" where
  "usable r \<longleftrightarrow> rt_used_at r = None \<and> rt_revoked_at r = None"

text \<open>
  The invariant: hashes and row ids are unique, a family has at most one usable token, belongs to
  one user, started once, and no token outlives the family's absolute lifetime.
\<close>

definition tokens_ok :: "refresh_token_row list \<Rightarrow> bool" where
  "tokens_ok rs \<longleftrightarrow>
     distinct (map rt_token_hash rs) \<and> distinct (map rt_id rs)
     \<and> (\<forall>f. length (filter (\<lambda>r. rt_family_id r = f \<and> usable r) rs) \<le> 1)
     \<and> (\<forall>r \<in> set rs. \<forall>q \<in> set rs. rt_family_id r = rt_family_id q \<longrightarrow>
          rt_user_id r = rt_user_id q \<and> rt_family_started_at r = rt_family_started_at q)
     \<and> (\<forall>r \<in> set rs. rt_expires_at r \<le> rt_family_started_at r + REFRESH_ABSOLUTE_TTL_SEC * 1000)"

subsection \<open>The four moves on the table\<close>

lemma insert_refresh_token_cases:
  "insert_refresh_token r s =
     (if rt_id r \<notin> rt_id ` set (refresh_tokens s) \<and> rt_token_hash r \<notin> rt_token_hash ` set (refresh_tokens s)
      then if rt_user_id r \<in> u_id ` set (users s)
           then (Inr (), s\<lparr>refresh_tokens := refresh_tokens s @ [r]\<rparr>) else (Inl FK_VIOLATION, s)
      else (Inl (QueryFailedError UNIQUE_VIOLATION), s))"
  by (simp add: insert_refresh_token_def and_then_def)

lemma revokeFamily_run:
  "revokeFamily f s =
     (Inr (length (filter (\<lambda>r. rt_family_id r = f \<and> rt_revoked_at r = None) (refresh_tokens s))),
      s\<lparr>refresh_tokens := map (revoke_row f (clock s)) (refresh_tokens s)\<rparr>)"
  by (simp add: revokeFamily_def)

lemma revoke_row_fields [simp]:
  "rt_id (revoke_row f now r) = rt_id r" "rt_token_hash (revoke_row f now r) = rt_token_hash r"
  "rt_family_id (revoke_row f now r) = rt_family_id r" "rt_user_id (revoke_row f now r) = rt_user_id r"
  "rt_family_started_at (revoke_row f now r) = rt_family_started_at r"
  "rt_expires_at (revoke_row f now r) = rt_expires_at r" "rt_used_at (revoke_row f now r) = rt_used_at r"
  "usable (revoke_row f now r) \<longleftrightarrow> usable r \<and> rt_family_id r \<noteq> f"
  by (auto simp: revoke_row_def usable_def)

lemma use_row_fields [simp]:
  "rt_id (use_row i now r) = rt_id r" "rt_token_hash (use_row i now r) = rt_token_hash r"
  "rt_family_id (use_row i now r) = rt_family_id r" "rt_user_id (use_row i now r) = rt_user_id r"
  "rt_family_started_at (use_row i now r) = rt_family_started_at r"
  "rt_expires_at (use_row i now r) = rt_expires_at r" "rt_revoked_at (use_row i now r) = rt_revoked_at r"
  "usable (use_row i now r) \<longleftrightarrow> usable r \<and> rt_id r \<noteq> i"
  by (auto simp: use_row_def usable_def)

text \<open>What \<open>rotate\<close> does, by the row it finds.\<close>

datatype table_move =
    Stay
  | AddRow refresh_token_row
  | RevokeAll string
  | Exchange refresh_token_row refresh_token_row

fun apply_move :: "int \<Rightarrow> table_move \<Rightarrow> refresh_token_row list \<Rightarrow> refresh_token_row list" where
  "apply_move now Stay rs = rs"
| "apply_move now (AddRow r) rs = rs @ [r]"
| "apply_move now (RevokeAll f) rs = map (revoke_row f now) rs"
| "apply_move now (Exchange row r) rs = map (use_row (rt_id row) now) rs @ [r]"

definition fresh_row :: "refresh_token_row \<Rightarrow> refresh_token_row list \<Rightarrow> bool" where
  "fresh_row r rs \<longleftrightarrow> rt_id r \<notin> rt_id ` set rs \<and> rt_token_hash r \<notin> rt_token_hash ` set rs \<and> usable r"

fun move_ok :: "int \<Rightarrow> table_move \<Rightarrow> refresh_token_row list \<Rightarrow> bool" where
  "move_ok now Stay rs = True"
| "move_ok now (AddRow r) rs =
     (fresh_row r rs \<and> rt_family_id r \<notin> rt_family_id ` set rs
      \<and> rt_expires_at r = now + REFRESH_TTL_SEC * 1000 \<and> rt_family_started_at r = now)"
| "move_ok now (RevokeAll f) rs = True"
| "move_ok now (Exchange row r) rs =
     (row \<in> set rs \<and> usable row \<and> now < rt_expires_at row \<and> fresh_row r rs
      \<and> rt_family_id r = rt_family_id row \<and> rt_user_id r = rt_user_id row
      \<and> rt_family_started_at r = rt_family_started_at row
      \<and> rt_expires_at r \<le> rt_family_started_at row + REFRESH_ABSOLUTE_TTL_SEC * 1000)"

lemma rotate_error_tables:
  assumes "rotate_token hmac i n t s = (Inl e, s')"
  shows "refresh_tokens s' = refresh_tokens s \<and> clock s' = clock s"
  using assms by (auto simp: rotate_token_def split: if_splits dest!: transaction_error)

lemma rotate_cases:
  assumes "rotate_token hmac i n t s = (Inr x, s')"
  obtains (unknown) "x = Rejected Unknown None None" "s' = s"
  | (revoked) row where "row \<in> set (refresh_tokens s)" "rt_token_hash row = hmac t" "rt_revoked_at row \<noteq> None"
      "x = Rejected Revoked (Some \<lparr>ow_userId = rt_user_id row, ow_familyId = rt_family_id row\<rparr>) None" "s' = s"
  | (reused) row k where "row \<in> set (refresh_tokens s)" "rt_token_hash row = hmac t"
      "rt_revoked_at row = None" "rt_used_at row \<noteq> None"
      "x = Rejected Reused (Some \<lparr>ow_userId = rt_user_id row, ow_familyId = rt_family_id row\<rparr>) (Some k)"
      "s' = s\<lparr>refresh_tokens := map (revoke_row (rt_family_id row) (clock s)) (refresh_tokens s)\<rparr>"
  | (expired) row where "row \<in> set (refresh_tokens s)" "rt_token_hash row = hmac t" "usable row"
      "rt_expires_at row \<le> clock s"
      "x = Rejected Expired (Some \<lparr>ow_userId = rt_user_id row, ow_familyId = rt_family_id row\<rparr>) None" "s' = s"
  | (rotated) row r where "row \<in> set (refresh_tokens s)" "rt_token_hash row = hmac t"
      "x = Rotated \<lparr>ow_userId = rt_user_id row, ow_familyId = rt_family_id row\<rparr> n"
      "move_ok (clock s) (Exchange row r) (refresh_tokens s)" "rt_token_hash r = hmac n"
      "s' = s\<lparr>refresh_tokens := apply_move (clock s) (Exchange row r) (refresh_tokens s)\<rparr>"
proof (cases "TOKEN_PATTERN t")
  case False
  then show ?thesis using assms unknown by (simp add: rotate_token_def)
next
  case True
  then have run: "rotate_body hmac i n t s = (Inr x, s')" using assms by (simp add: rotate_token_def)
  show ?thesis
  proof (cases "find (\<lambda>r. rt_token_hash r = hmac t) (refresh_tokens s)")
    case None
    then show ?thesis using run unknown by (simp add: rotate_body_def)
  next
    case (Some row)
    then have row: "row \<in> set (refresh_tokens s)" "rt_token_hash row = hmac t"
      using find_Some_in [OF Some] by auto
    let ?r = "\<lparr>rt_id = i, rt_user_id = rt_user_id row, rt_family_id = rt_family_id row,
                    rt_token_hash = hmac n, rt_created_at = clock s,
                    rt_used_at = None, rt_revoked_at = None,
                    rt_expires_at = min (clock s + REFRESH_TTL_SEC * 1000)
                                        (rt_family_started_at row + REFRESH_ABSOLUTE_TTL_SEC * 1000),
                    rt_family_started_at = rt_family_started_at row\<rparr>"
    consider "rt_revoked_at row \<noteq> None"
      | "rt_revoked_at row = None" "rt_used_at row \<noteq> None"
      | "usable row" "rt_expires_at row \<le> clock s" | "usable row" "clock s < rt_expires_at row"
      by (cases "rt_revoked_at row"; cases "rt_used_at row"; cases "rt_expires_at row \<le> clock s")
        (auto simp: usable_def)
    then show ?thesis
    proof cases
      case 1
      then have "x = Rejected Revoked (Some \<lparr>ow_userId = rt_user_id row, ow_familyId = rt_family_id row\<rparr>) None \<and> s' = s"
        using run Some by (simp add: rotate_body_def Let_def)
      then show ?thesis using row 1 by (intro revoked [of row]) simp_all
    next
      case 2
      then have "\<exists>k. x = Rejected Reused (Some \<lparr>ow_userId = rt_user_id row, ow_familyId = rt_family_id row\<rparr>) (Some k)
          \<and> s' = s\<lparr>refresh_tokens := map (revoke_row (rt_family_id row) (clock s)) (refresh_tokens s)\<rparr>"
        using run Some by (auto simp: rotate_body_def Let_def and_then_def revokeFamily_run)
      then show ?thesis using row 2 reused [of row] by blast
    next
      case 3
      then have "x = Rejected Expired (Some \<lparr>ow_userId = rt_user_id row, ow_familyId = rt_family_id row\<rparr>) None \<and> s' = s"
        using run Some by (simp add: rotate_body_def Let_def usable_def)
      then show ?thesis using row 3 by (intro expired [of row]) simp_all
    next
      case 4
      let ?t = "s\<lparr>refresh_tokens := map (use_row (rt_id row) (clock s)) (refresh_tokens s)\<rparr>"
      have ins: "insert_refresh_token ?r ?t = (Inr (), s')"
        and x: "x = Rotated \<lparr>ow_userId = rt_user_id row, ow_familyId = rt_family_id row\<rparr> n"
        using run Some 4 by (auto simp: rotate_body_def Let_def usable_def and_then_ok_iff)
      have same: "rt_id ` use_row (rt_id row) (clock s) ` A = rt_id ` A"
        "rt_token_hash ` use_row (rt_id row) (clock s) ` A = rt_token_hash ` A" for A
        by (simp_all add: image_comp comp_def)
      have s': "fresh_row ?r (refresh_tokens s)"
          "s' = s\<lparr>refresh_tokens := map (use_row (rt_id row) (clock s)) (refresh_tokens s) @ [?r]\<rparr>"
        using ins by (auto simp: insert_refresh_token_cases same fresh_row_def usable_def split: if_splits)
      show ?thesis using row x s' 4 by (intro rotated [of row ?r]) simp_all
    qed
  qed
qed

lemma step_move:
  assumes "token_step hmac s s'"
  obtains m where "move_ok (clock s) m (refresh_tokens s)"
    "refresh_tokens s' = apply_move (clock s) m (refresh_tokens s)" "clock s \<le> clock s'"
  using assms
proof (cases rule: token_step.cases)
  case (step_issue f i t u)
  let ?r = "\<lparr>rt_id = i, rt_user_id = u, rt_family_id = f, rt_token_hash = hmac t,
           rt_created_at = clock s, rt_used_at = None, rt_revoked_at = None,
           rt_expires_at = clock s + REFRESH_TTL_SEC * 1000, rt_family_started_at = clock s\<rparr>"
  have i: "issue hmac i t f u s = and_then (insert_refresh_token ?r) (\<lambda>_. ret (t, f)) s"
    by (simp add: issue_def)
  show ?thesis
  proof (cases "fresh_row ?r (refresh_tokens s) \<and> u \<in> u_id ` set (users s)")
    case True
    then have "s' = s\<lparr>refresh_tokens := refresh_tokens s @ [?r]\<rparr>"
      using step_issue(1) by (simp add: i insert_refresh_token_cases fresh_row_def and_then_def)
    then show ?thesis using that [of "AddRow ?r"] True step_issue(2) by simp
  next
    case False
    then have "s' = s"
      using step_issue(1) by (auto simp: i insert_refresh_token_cases fresh_row_def usable_def and_then_def)
    then show ?thesis using that [of Stay] by simp
  qed
next
  case (step_rotate i n t)
  obtain x where run: "rotate_token hmac i n t s = (x, s')" using step_rotate by (cases "rotate_token hmac i n t s") auto
  show ?thesis
  proof (cases x)
    case (Inl e)
    then show ?thesis using rotate_error_tables run that [of Stay] by fastforce
  next
    case (Inr y)
    then have "rotate_token hmac i n t s = (Inr y, s')" using run by simp
    then show ?thesis
    proof (cases rule: rotate_cases)
      case (reused row k)
      then show ?thesis using that [of "RevokeAll (rt_family_id row)"] by simp
    next
      case (rotated row r)
      then show ?thesis using that [of "Exchange row r"] by simp
    qed (use that [of Stay] in simp_all)
  qed
next
  case (step_revoke f)
  then show ?thesis using that [of "RevokeAll f"] by (simp add: revokeFamily_run)
next
  case (step_time now)
  then show ?thesis using that [of Stay] by simp
qed

subsection \<open>The invariant is kept\<close>

lemma usable_revoked: "filter (\<lambda>r. rt_family_id r = f \<and> usable r) (map (revoke_row g now) rs)
    = (if f = g then [] else map (revoke_row g now) (filter (\<lambda>r. rt_family_id r = f \<and> usable r) rs))"
  by (induction rs) auto

lemma usable_used:
  "length (filter (\<lambda>r. rt_family_id r = f \<and> usable r) (map (use_row i now) rs))
    \<le> length (filter (\<lambda>r. rt_family_id r = f \<and> usable r) rs)"
  by (induction rs) auto

lemma usable_exchanged:
  assumes "distinct (map rt_id rs)" "row \<in> set rs" "usable row"
  shows "Suc (length (filter (\<lambda>r. rt_family_id r = rt_family_id row \<and> usable r) (map (use_row (rt_id row) now) rs)))
    = length (filter (\<lambda>r. rt_family_id r = rt_family_id row \<and> usable r) rs)"
  using assms
proof (induction rs)
  case (Cons a rs)
  show ?case
  proof (cases "a = row")
    case True
    then have "rt_id row \<notin> rt_id ` set rs" using Cons.prems by simp
    then have "map (use_row (rt_id row) now) rs = rs"
      by (intro map_idI) (metis imageI use_row_def)
    then show ?thesis using True Cons.prems by simp
  next
    case False
    then have "row \<in> set rs" "rt_id a \<noteq> rt_id row" using Cons.prems by auto
    then show ?thesis using Cons by auto
  qed
qed simp

lemma tokens_okD:
  assumes "tokens_ok rs"
  shows "distinct (map rt_token_hash rs)" and "distinct (map rt_id rs)"
    and "length (filter (\<lambda>r. rt_family_id r = f \<and> usable r) rs) \<le> 1"
    and "r \<in> set rs \<Longrightarrow> q \<in> set rs \<Longrightarrow> rt_family_id r = rt_family_id q \<Longrightarrow>
          rt_user_id r = rt_user_id q \<and> rt_family_started_at r = rt_family_started_at q"
    and "r \<in> set rs \<Longrightarrow> rt_expires_at r \<le> rt_family_started_at r + REFRESH_ABSOLUTE_TTL_SEC * 1000"
  using assms unfolding tokens_ok_def by blast+

lemma tokens_okI:
  assumes "distinct (map rt_token_hash rs)" and "distinct (map rt_id rs)"
    and "\<And>f. length (filter (\<lambda>r. rt_family_id r = f \<and> usable r) rs) \<le> 1"
    and "\<And>r q. r \<in> set rs \<Longrightarrow> q \<in> set rs \<Longrightarrow> rt_family_id r = rt_family_id q \<Longrightarrow>
          rt_user_id r = rt_user_id q \<and> rt_family_started_at r = rt_family_started_at q"
    and "\<And>r. r \<in> set rs \<Longrightarrow> rt_expires_at r \<le> rt_family_started_at r + REFRESH_ABSOLUTE_TTL_SEC * 1000"
  shows "tokens_ok rs"
  using assms unfolding tokens_ok_def by blast

lemma tokens_ok_add:
  assumes "tokens_ok rs" "fresh_row r rs" "rt_family_id r \<notin> rt_family_id ` set rs"
    and life: "rt_expires_at r \<le> rt_family_started_at r + REFRESH_ABSOLUTE_TTL_SEC * 1000"
  shows "tokens_ok (rs @ [r])"
proof (rule tokens_okI)
  note ok = tokens_okD [OF assms(1)]
  have other: "rt_family_id q \<noteq> rt_family_id r" if "q \<in> set rs" for q
    using assms(3) that by (metis imageI)
  show "distinct (map rt_token_hash (rs @ [r]))" "distinct (map rt_id (rs @ [r]))"
    using ok(1,2) assms(2) by (simp_all add: fresh_row_def)
  show "length (filter (\<lambda>q. rt_family_id q = f \<and> usable q) (rs @ [r])) \<le> 1" for f
  proof (cases "f = rt_family_id r")
    case True
    then have "filter (\<lambda>q. rt_family_id q = f \<and> usable q) rs = []"
      using other by (auto simp: filter_empty_conv)
    then show ?thesis by simp
  next
    case False
    then show ?thesis using ok(3) by simp
  qed
  fix x assume x: "x \<in> set (rs @ [r])"
  show "rt_expires_at x \<le> rt_family_started_at x + REFRESH_ABSOLUTE_TTL_SEC * 1000"
  proof (cases "x = r")
    case False
    then show ?thesis using x ok(5) [of x] by simp
  qed (use life in simp)
  fix y assume y: "y \<in> set (rs @ [r])" and f: "rt_family_id x = rt_family_id y"
  show "rt_user_id x = rt_user_id y \<and> rt_family_started_at x = rt_family_started_at y"
  proof (cases "x = r \<or> y = r")
    case True
    then have "x = r \<and> y = r" using x y f other by fastforce
    then show ?thesis by simp
  next
    case False
    then show ?thesis using x y f ok(4) [of x y] by simp
  qed
qed

lemma tokens_ok_revoke:
  assumes "tokens_ok rs"
  shows "tokens_ok (map (revoke_row f now) rs)"
proof (rule tokens_okI)
  note ok = tokens_okD [OF assms]
  show "distinct (map rt_token_hash (map (revoke_row f now) rs))" "distinct (map rt_id (map (revoke_row f now) rs))"
    using ok(1,2) by (simp_all add: comp_def)
  show "length (filter (\<lambda>r. rt_family_id r = g \<and> usable r) (map (revoke_row f now) rs)) \<le> 1" for g
    using ok(3) [of g] by (simp add: usable_revoked)
  fix x assume "x \<in> set (map (revoke_row f now) rs)"
  then obtain p where p: "p \<in> set rs" "x = revoke_row f now p" by auto
  show "rt_expires_at x \<le> rt_family_started_at x + REFRESH_ABSOLUTE_TTL_SEC * 1000"
    using ok(5) p by simp
  fix y assume "y \<in> set (map (revoke_row f now) rs)" "rt_family_id x = rt_family_id y"
  moreover from this obtain q where "q \<in> set rs" "y = revoke_row f now q" by auto
  ultimately show "rt_user_id x = rt_user_id y \<and> rt_family_started_at x = rt_family_started_at y"
    using ok(4) [of p q] p by simp
qed

lemma tokens_ok_exchange:
  assumes "tokens_ok rs" "row \<in> set rs" "usable row" "fresh_row r rs" "rt_family_id r = rt_family_id row"
    "rt_user_id r = rt_user_id row" "rt_family_started_at r = rt_family_started_at row"
    "rt_expires_at r \<le> rt_family_started_at row + REFRESH_ABSOLUTE_TTL_SEC * 1000"
  shows "tokens_ok (map (use_row (rt_id row) now) rs @ [r])"
proof (rule tokens_okI)
  let ?us = "map (use_row (rt_id row) now) rs"
  note ok = tokens_okD [OF assms(1)]
  show "distinct (map rt_token_hash (?us @ [r]))" "distinct (map rt_id (?us @ [r]))"
    using ok(1,2) assms(4) by (simp_all add: fresh_row_def comp_def image_comp)
  show "length (filter (\<lambda>q. rt_family_id q = f \<and> usable q) (?us @ [r])) \<le> 1" for f
  proof (cases "f = rt_family_id row")
    case True
    have "Suc (length (filter (\<lambda>q. rt_family_id q = f \<and> usable q) ?us)) \<le> 1"
      using usable_exchanged [OF ok(2) assms(2,3), of now] ok(3) [of f] True by simp
    then show ?thesis using assms(5) True by simp
  next
    case False
    then show ?thesis
      using usable_used [of f "rt_id row" now rs] ok(3) [of f] assms(5) by simp
  qed
  have old: "\<exists>p \<in> set rs. rt_family_id x = rt_family_id p \<and> rt_user_id x = rt_user_id p
      \<and> rt_family_started_at x = rt_family_started_at p" if "x \<in> set (?us @ [r])" for x
    using that assms(2,5-7) by auto
  fix x assume x: "x \<in> set (?us @ [r])"
  show "rt_expires_at x \<le> rt_family_started_at x + REFRESH_ABSOLUTE_TTL_SEC * 1000"
    using x ok(5) assms(7,8) by auto
  fix y assume y: "y \<in> set (?us @ [r])" and f: "rt_family_id x = rt_family_id y"
  show "rt_user_id x = rt_user_id y \<and> rt_family_started_at x = rt_family_started_at y"
    using old [OF x] old [OF y] f ok(4) by metis
qed

lemma tokens_ok_move:
  assumes "tokens_ok rs" "move_ok now m rs"
  shows "tokens_ok (apply_move now m rs)"
proof (cases m)
  case (AddRow r)
  then show ?thesis
    using assms tokens_ok_add by (simp add: REFRESH_TTL_SEC_def REFRESH_ABSOLUTE_TTL_SEC_def)
next
  case (Exchange row r)
  then show ?thesis using assms tokens_ok_exchange by simp
qed (use assms tokens_ok_revoke in simp_all)

lemma tokens_ok_reachable:
  assumes "(token_step hmac)\<^sup>*\<^sup>* s s'" "tokens_ok (refresh_tokens s)"
  shows "tokens_ok (refresh_tokens s') \<and> clock s \<le> clock s'"
  using assms
proof (induction rule: rtranclp_induct)
  case (step t u)
  obtain m where "move_ok (clock t) m (refresh_tokens t)"
    "refresh_tokens u = apply_move (clock t) m (refresh_tokens t)" "clock t \<le> clock u"
    using step.hyps(2) by (rule step_move)
  then show ?case using step tokens_ok_move by simp
qed simp

lemma reachable_move_induct [consumes 1, case_names start move]:
  assumes "(token_step hmac)\<^sup>*\<^sup>* s s'" "P (refresh_tokens s)"
    and "\<And>rs now m. P rs \<Longrightarrow> move_ok now m rs \<Longrightarrow> P (apply_move now m rs)"
  shows "P (refresh_tokens s')"
  using assms(1)
proof (induction rule: rtranclp_induct)
  case (step t u)
  obtain m where "move_ok (clock t) m (refresh_tokens t)"
    "refresh_tokens u = apply_move (clock t) m (refresh_tokens t)"
    using step.hyps(2) by (rule step_move)
  then show ?case using step.IH assms(3) by simp
qed (rule assms(2))

subsection \<open>Single use, families and lifetimes\<close>

text \<open>Two tokens for the examples, and a table with one fresh token of user 1.\<close>

definition sample_token :: "char \<Rightarrow> string" where
  "sample_token c = replicate 43 c"

definition sample_tokens :: db where
  "sample_tokens = snd (issue id ''r1'' (sample_token CHR ''a'') ''f'' 1 sample_db)"

lemma sample_tokens_ok: "tokens_ok (refresh_tokens sample_tokens)"
proof -
  have "refresh_tokens sample_tokens =
      [\<lparr>rt_id = ''r1'', rt_user_id = 1, rt_family_id = ''f'', rt_token_hash = sample_token CHR ''a'',
        rt_created_at = 0, rt_used_at = None, rt_revoked_at = None, rt_expires_at = 604800000,
        rt_family_started_at = 0\<rparr>]"
    by code_simp
  then show ?thesis by (simp add: tokens_ok_def REFRESH_ABSOLUTE_TTL_SEC_def)
qed

text \<open>At every moment a family of refresh tokens has at most one token that can still be
  exchanged, whatever tokens were issued, rotated, replayed or revoked before.\<close>

theorem family_one_usable:
  assumes "tokens_ok (refresh_tokens s)" and "(token_step hmac)\<^sup>*\<^sup>* s s'"
  shows "length (filter (\<lambda>r. rt_family_id r = f \<and> usable r) (refresh_tokens s')) \<le> 1"
  using tokens_ok_reachable [OF assms(2,1)] tokens_okD(3) by blast

theorem family_one_usable_witness:
  "length (filter (\<lambda>r. rt_family_id r = ''f'' \<and> usable r)
     (refresh_tokens (snd (rotate_token id ''r2'' (sample_token CHR ''b'') (sample_token CHR ''a'') sample_tokens)))) \<le> 1"
  by (rule family_one_usable [OF sample_tokens_ok, of id]) (rule r_into_rtranclp, rule step_rotate)

lemma used_row_stays:
  assumes "\<exists>q \<in> set rs. rt_token_hash q = h \<and> rt_used_at q \<noteq> None \<and> rt_user_id q = u \<and> rt_family_id q = f"
    and "move_ok now m rs"
  shows "\<exists>q \<in> set (apply_move now m rs). rt_token_hash q = h \<and> rt_used_at q \<noteq> None
    \<and> rt_user_id q = u \<and> rt_family_id q = f"
proof -
  obtain q where q: "q \<in> set rs" "rt_token_hash q = h" "rt_used_at q \<noteq> None" "rt_user_id q = u" "rt_family_id q = f"
    using assms(1) by blast
  show ?thesis
  proof (cases m)
    case (RevokeAll g)
    then have "revoke_row g now q \<in> set (apply_move now m rs)" using q(1) by simp
    then show ?thesis using q by (intro bexI [of _ "revoke_row g now q"]) simp_all
  next
    case (Exchange row r)
    then have "use_row (rt_id row) now q \<in> set (apply_move now m rs)" using q(1) by simp
    moreover have "rt_used_at (use_row (rt_id row) now q) \<noteq> None" using q(3) by (simp add: use_row_def)
    ultimately show ?thesis using q by (intro bexI [of _ "use_row (rt_id row) now q"]) simp_all
  qed (use q in auto)
qed

lemma rotate_used:
  assumes "tokens_ok (refresh_tokens s)" "row \<in> set (refresh_tokens s)" "rt_token_hash row = hmac t"
    "rt_used_at row \<noteq> None" "TOKEN_PATTERN t"
  shows "\<exists>reason \<in> {Reused, Revoked}. \<exists>k. fst (rotate_token hmac i n t s)
    = Inr (Rejected reason (Some \<lparr>ow_userId = rt_user_id row, ow_familyId = rt_family_id row\<rparr>) k)"
proof -
  have "find (\<lambda>r. rt_token_hash r = rt_token_hash row) (refresh_tokens s) = Some row"
    using tokens_okD(1) [OF assms(1)] assms(2) by (rule find_key)
  then have "find (\<lambda>r. rt_token_hash r = hmac t) (refresh_tokens s) = Some row" using assms(3) by simp
  then show ?thesis
    using assms(4,5) by (cases "rt_revoked_at row")
      (auto simp: rotate_token_def rotate_body_def Let_def revokeFamily_run and_then_def transaction_def)
qed

text \<open>A refresh token is good for one exchange. Once it was rotated, presenting it again is
  rejected as reused or revoked at every later time, whatever happened in between.\<close>

theorem token_single_use:
  assumes "tokens_ok (refresh_tokens s)" and "rotate_token hmac i n t s = (Inr (Rotated owner new), s1)"
    and "(token_step hmac)\<^sup>*\<^sup>* s1 s2"
  shows "\<exists>reason \<in> {Reused, Revoked}. \<exists>k. fst (rotate_token hmac i' n' t s2) = Inr (Rejected reason (Some owner) k)"
proof -
  have pat: "TOKEN_PATTERN t" using assms(2) by (auto simp: rotate_token_def split: if_splits)
  from assms(2) obtain row r where row: "row \<in> set (refresh_tokens s)" "rt_token_hash row = hmac t"
    and owner: "owner = \<lparr>ow_userId = rt_user_id row, ow_familyId = rt_family_id row\<rparr>"
    and ok: "move_ok (clock s) (Exchange row r) (refresh_tokens s)"
    and s1: "refresh_tokens s1 = apply_move (clock s) (Exchange row r) (refresh_tokens s)"
    by (cases rule: rotate_cases) auto
  have reach: "(token_step hmac)\<^sup>*\<^sup>* s s2"
    using step_rotate [of hmac s i n t] assms(2,3) by (metis converse_rtranclp_into_rtranclp snd_conv)
  have "use_row (rt_id row) (clock s) row \<in> set (refresh_tokens s1)" using row(1) s1 by simp
  moreover have "rt_used_at (use_row (rt_id row) (clock s) row) \<noteq> None" by (simp add: use_row_def)
  ultimately have "\<exists>q \<in> set (refresh_tokens s1). rt_token_hash q = hmac t \<and> rt_used_at q \<noteq> None
      \<and> rt_user_id q = rt_user_id row \<and> rt_family_id q = rt_family_id row"
    using row(2) by (metis use_row_fields(2,3,4))
  with assms(3) have "\<exists>q \<in> set (refresh_tokens s2). rt_token_hash q = hmac t \<and> rt_used_at q \<noteq> None
      \<and> rt_user_id q = rt_user_id row \<and> rt_family_id q = rt_family_id row"
    by (rule reachable_move_induct) (rule used_row_stays)
  then show ?thesis
    using rotate_used [OF conjunct1 [OF tokens_ok_reachable [OF reach assms(1)]], of _ hmac t i' n'] pat owner
    by metis
qed

lemma sample_rotated:
  obtains s1 where "rotate_token id ''r2'' (sample_token CHR ''b'') (sample_token CHR ''a'') sample_tokens
    = (Inr (Rotated \<lparr>ow_userId = 1, ow_familyId = ''f''\<rparr> (sample_token CHR ''b'')), s1)"
proof -
  have "fst (rotate_token id ''r2'' (sample_token CHR ''b'') (sample_token CHR ''a'') sample_tokens)
    = Inr (Rotated \<lparr>ow_userId = 1, ow_familyId = ''f''\<rparr> (sample_token CHR ''b''))" by code_simp
  then show ?thesis using that
    by (cases "rotate_token id ''r2'' (sample_token CHR ''b'') (sample_token CHR ''a'') sample_tokens") auto
qed

theorem token_single_use_witness:
  "\<exists>s. \<exists>reason \<in> {Reused, Revoked}. \<exists>k. fst (rotate_token id ''r3'' (sample_token CHR ''c'') (sample_token CHR ''a'') s)
    = Inr (Rejected reason (Some \<lparr>ow_userId = 1, ow_familyId = ''f''\<rparr>) k)"
proof -
  obtain s1 where "rotate_token id ''r2'' (sample_token CHR ''b'') (sample_token CHR ''a'') sample_tokens
    = (Inr (Rotated \<lparr>ow_userId = 1, ow_familyId = ''f''\<rparr> (sample_token CHR ''b'')), s1)"
    by (rule sample_rotated)
  from token_single_use [OF sample_tokens_ok this rtranclp.rtrancl_refl] show ?thesis by blast
qed

text \<open>A family nobody can use any more.\<close>

definition dead_family :: "string \<Rightarrow> refresh_token_row list \<Rightarrow> bool" where
  "dead_family f rs \<longleftrightarrow> f \<in> rt_family_id ` set rs \<and> (\<forall>r \<in> set rs. rt_family_id r = f \<longrightarrow> \<not> usable r)"

lemma dead_family_stays:
  assumes "dead_family f rs" "move_ok now m rs"
  shows "dead_family f (apply_move now m rs)"
proof (cases m)
  case (AddRow r)
  then show ?thesis using assms by (auto simp: dead_family_def)
next
  case (Exchange row r)
  then have "rt_family_id r \<noteq> f" using assms by (auto simp: dead_family_def)
  then show ?thesis using assms Exchange by (auto simp: dead_family_def image_iff)
qed (use assms in \<open>auto simp: dead_family_def image_iff\<close>)

lemma dead_family_rotate:
  assumes "dead_family f (refresh_tokens s)" "rotate_token hmac i n t s = (Inr (Rotated owner new), s')"
  shows "ow_familyId owner \<noteq> f"
  using assms(2) by (cases rule: rotate_cases) (use assms(1) in \<open>auto simp: dead_family_def\<close>)

text \<open>C4: presenting a token that was already used kills its whole family for good: after the reuse
  was detected, no token of that family is ever exchanged again, not even the newest one.\<close>

theorem reuse_kills_family:
  assumes "rotate_token hmac i n t s = (Inr (Rejected Reused (Some owner) k), s1)"
    and "(token_step hmac)\<^sup>*\<^sup>* s1 s2"
    and "rotate_token hmac i' n' t' s2 = (Inr (Rotated owner' new), s3)"
  shows "ow_familyId owner' \<noteq> ow_familyId owner"
proof -
  from assms(1) obtain row where row: "row \<in> set (refresh_tokens s)" "ow_familyId owner = rt_family_id row"
    and s1: "refresh_tokens s1 = map (revoke_row (rt_family_id row) (clock s)) (refresh_tokens s)"
    by (cases rule: rotate_cases) auto
  have "dead_family (ow_familyId owner) (refresh_tokens s1)"
    using row s1 by (auto simp: dead_family_def image_iff)
  with assms(2) have "dead_family (ow_familyId owner) (refresh_tokens s2)"
    by (rule reachable_move_induct) (rule dead_family_stays)
  then show ?thesis using dead_family_rotate assms(3) by blast
qed

text \<open>The family of user 1 after its first token was presented twice, and another family.\<close>

theorem reuse_kills_family_witness:
  "\<exists>s owner new s'. rotate_token id ''r5'' (sample_token CHR ''e'') (sample_token CHR ''d'') s
      = (Inr (Rotated owner new), s') \<and> ow_familyId owner \<noteq> ''f''"
proof -
  let ?s1 = "snd (rotate_token id ''r2'' (sample_token CHR ''b'') (sample_token CHR ''a'') sample_tokens)"
  let ?s2 = "snd (rotate_token id ''r3'' (sample_token CHR ''c'') (sample_token CHR ''a'') ?s1)"
  let ?s3 = "snd (issue id ''r4'' (sample_token CHR ''d'') ''g'' 2 ?s2)"
  have "fst (rotate_token id ''r3'' (sample_token CHR ''c'') (sample_token CHR ''a'') ?s1)
      = Inr (Rejected Reused (Some \<lparr>ow_userId = 1, ow_familyId = ''f''\<rparr>) (Some 2))" by code_simp
  then have a: "rotate_token id ''r3'' (sample_token CHR ''c'') (sample_token CHR ''a'') ?s1
      = (Inr (Rejected Reused (Some \<lparr>ow_userId = 1, ow_familyId = ''f''\<rparr>) (Some 2)), ?s2)"
    by (metis prod.collapse)
  have "fst (rotate_token id ''r5'' (sample_token CHR ''e'') (sample_token CHR ''d'') ?s3)
      = Inr (Rotated \<lparr>ow_userId = 2, ow_familyId = ''g''\<rparr> (sample_token CHR ''e''))" by code_simp
  then have b: "rotate_token id ''r5'' (sample_token CHR ''e'') (sample_token CHR ''d'') ?s3
      = (Inr (Rotated \<lparr>ow_userId = 2, ow_familyId = ''g''\<rparr> (sample_token CHR ''e'')),
         snd (rotate_token id ''r5'' (sample_token CHR ''e'') (sample_token CHR ''d'') ?s3))"
    by (metis prod.collapse)
  have "''g'' \<notin> rt_family_id ` set (refresh_tokens ?s2)" by code_simp
  then have c: "(token_step id)\<^sup>*\<^sup>* ?s2 ?s3" by (intro r_into_rtranclp step_issue)
  from reuse_kills_family [OF a c b] have "ow_familyId \<lparr>ow_userId = 2, ow_familyId = ''g''\<rparr> \<noteq> ''f''"
    by (simp only: token_owner.simps) simp
  with b show ?thesis by blast
qed

text \<open>Nobody stays logged in beyond 30 days on one login: an exchange only succeeds within 30
  days of the moment the family started, and only for the family's user.\<close>

theorem family_lifetime:
  assumes "tokens_ok (refresh_tokens s)" and "(token_step hmac)\<^sup>*\<^sup>* s s'"
    and "rotate_token hmac i n t s' = (Inr (Rotated owner new), s2)"
    and "r \<in> set (refresh_tokens s')" and "rt_family_id r = ow_familyId owner"
  shows "clock s' < rt_family_started_at r + 30 * 24 * 60 * 60 * 1000 \<and> rt_user_id r = ow_userId owner"
proof -
  have ok: "tokens_ok (refresh_tokens s')" using tokens_ok_reachable [OF assms(2,1)] by simp
  from assms(3) obtain row q where row: "row \<in> set (refresh_tokens s')"
      "owner = \<lparr>ow_userId = rt_user_id row, ow_familyId = rt_family_id row\<rparr>"
      "move_ok (clock s') (Exchange row q) (refresh_tokens s')"
    by (cases rule: rotate_cases) auto
  have "rt_user_id r = rt_user_id row \<and> rt_family_started_at r = rt_family_started_at row"
    using tokens_okD(4) [OF ok assms(4) row(1)] assms(5) row(2) by simp
  moreover have "clock s' < rt_family_started_at row + REFRESH_ABSOLUTE_TTL_SEC * 1000"
    using row(3) tokens_okD(5) [OF ok row(1)] by simp
  ultimately show ?thesis using row(2) by (simp add: REFRESH_ABSOLUTE_TTL_SEC_def)
qed

theorem family_lifetime_witness: "\<exists>r \<in> set (refresh_tokens sample_tokens). clock sample_tokens
    < rt_family_started_at r + 30 * 24 * 60 * 60 * 1000 \<and> rt_user_id r = 1"
proof -
  obtain s1 where run: "rotate_token id ''r2'' (sample_token CHR ''b'') (sample_token CHR ''a'') sample_tokens
    = (Inr (Rotated \<lparr>ow_userId = 1, ow_familyId = ''f''\<rparr> (sample_token CHR ''b'')), s1)"
    by (rule sample_rotated)
  have "map rt_family_id (refresh_tokens sample_tokens) = [''f'']" by code_simp
  then obtain r where "r \<in> set (refresh_tokens sample_tokens)" "rt_family_id r = ''f''" by auto
  with family_lifetime [OF sample_tokens_ok rtranclp.rtrancl_refl run, of r] show ?thesis by auto
qed

end
