(* ===== verification/Authentication.thy ===== *)
theory Authentication
  imports AccessTokens RefreshTokens RateLimit
begin

text \<open>
  Logging in and out, and the guards in front of every route: \<open>src/auth/auth.service.ts\<close>,
  \<open>auth.controller.ts\<close>, \<open>auth.guard.ts\<close>, \<open>roles.guard.ts\<close> and \<open>password.ts\<close>.

  The state is the database and the Redis instance of the denylist (\<open>auth_world\<close>); the guard also
  leaves the user it found and the header \<open>WWW-Authenticate\<close>. Random identifiers, the current time and
  the outcome of \<open>argon2.verify\<close> (an exception counts as no match, as in \<open>verifyPassword\<close>) are arguments.
  Header values are ASCII.
\<close>

record auth_world =
  aw_db :: db
  aw_redis :: redis

type_synonym 'a auth_action = "(auth_world, error, 'a) action"

definition in_db :: "'a db_action \<Rightarrow> 'a auth_action" where
  "in_db m = (\<lambda>w. let (r, s) = m (aw_db w) in (r, w\<lparr>aw_db := s\<rparr>))"

definition in_redis :: "'a redis_action \<Rightarrow> 'a auth_action" where
  "in_redis m = (\<lambda>w. let (r, s) = m (aw_redis w) in (r, w\<lparr>aw_redis := s\<rparr>))"

subsection \<open>The guard of access tokens\<close>

text \<open>\<open>/^Bearer\s+(\S+)$/i\<close>: the captured token.\<close>

definition bearer_token :: "string \<Rightarrow> string option" where
  "bearer_token header =
     (let rest = drop 6 header; token = dropWhile is_space rest in
      if to_lower (take 6 header) = ''bearer'' \<and> takeWhile is_space rest \<noteq> [] \<and> token \<noteq> [] \<and> list_all (\<lambda>c. \<not> is_space c) token
      then Some token else None)"

record route =
  rt_http :: bool
  rt_public :: bool
  rt_roles :: "user_role list option"

record guard_state =
  gd_redis :: redis
  gd_www_authenticate :: bool
  gd_user :: "access_principal option"

definition unauthorized :: "string \<Rightarrow> (guard_state, error, bool) action" where
  "unauthorized detail = (\<lambda>g. (Inl (UnauthorizedException detail), g\<lparr>gd_www_authenticate := True\<rparr>))"

definition auth_guard ::
  "('k, 'p) jwt_lib \<Rightarrow> ('k, 'p) key_store \<Rightarrow> route \<Rightarrow> string option \<Rightarrow> int \<Rightarrow> (guard_state, error, bool) action" where
  "auth_guard lib keys rt authorization nowMs =
     (if \<not> rt_http rt then ret True
      else if rt_public rt then ret True
      else (case bearer_token (case authorization of None \<Rightarrow> [] | Some h \<Rightarrow> h) of
          None \<Rightarrow> unauthorized ''Bearer''
        | Some token \<Rightarrow>
            (case verifyAccess lib keys token nowMs of
               Inl _ \<Rightarrow> unauthorized ''token''
             | Inr who \<Rightarrow>
                 (\<lambda>g. case isDenied (ap_jti who) (ap_familyId who) (gd_redis g) of
                     (Inl _, r) \<Rightarrow> (Inl (ServiceUnavailableException ''denylist''), g\<lparr>gd_redis := r\<rparr>)
                   | (Inr denied, r) \<Rightarrow>
                       if denied then unauthorized ''revoked'' (g\<lparr>gd_redis := r\<rparr>)
                       else (Inr True, g\<lparr>gd_redis := r, gd_user := Some who\<rparr>)))))"

definition roles_guard :: "route \<Rightarrow> access_principal option \<Rightarrow> bool db_action" where
  "roles_guard rt user =
     (if \<not> rt_http rt then ret True
      else (case rt_roles rt of
          None \<Rightarrow> ret True
        | Some [] \<Rightarrow> ret True
        | Some required \<Rightarrow>
            (case user of
               None \<Rightarrow> throw (UnauthorizedException ''authentication required'')
             | Some who \<Rightarrow>
                 and_then (find_user (ap_userId who)) (\<lambda>current.
                   case current of
                     None \<Rightarrow> throw (UnauthorizedException ''no such account'')
                   | Some u \<Rightarrow>
                       if u_role u \<in> set required then ret True else throw (ForbiddenException ''role'')))))"

lemma guard_fails_closed:
  assumes "rt_http rt" and "\<not> rt_public rt"
    and "auth_guard lib keys rt authorization nowMs g = (res, g')"
  shows "(res = Inr True \<longleftrightarrow> (\<exists>header token who. authorization = Some header \<and> bearer_token header = Some token
        \<and> verifyAccess lib keys token nowMs = Inr who \<and> r_up (gd_redis g)
        \<and> fst (isDenied (ap_jti who) (ap_familyId who) (gd_redis g)) = Inr False \<and> gd_user g' = Some who))
    \<and> res \<noteq> Inr False
    \<and> (\<forall>d. res = Inl (UnauthorizedException d) \<longrightarrow> gd_www_authenticate g')
    \<and> (\<not> r_up (gd_redis g) \<longrightarrow> res \<in> {Inl (UnauthorizedException ''Bearer''), Inl (UnauthorizedException ''token''),
          Inl (ServiceUnavailableException ''denylist'')})
    \<and> (res \<noteq> Inr True \<longrightarrow> gd_user g' = gd_user g)"
proof (cases "bearer_token (case authorization of None \<Rightarrow> [] | Some h \<Rightarrow> h)")
  case None
  then show ?thesis using assms by (auto simp: auth_guard_def unauthorized_def)
next
  case (Some token)
  have "bearer_token [] = None" by (simp add: bearer_token_def)
  then obtain header where header: "authorization = Some header" "bearer_token header = Some token"
    using Some by (cases authorization) auto
  show ?thesis
  proof (cases "verifyAccess lib keys token nowMs")
    case (Inl e)
    then show ?thesis using assms header by (auto simp: auth_guard_def unauthorized_def)
  next
    case (Inr who)
    have D: "isDenied (ap_jti who) (ap_familyId who) (gd_redis g)
        = (fst (isDenied (ap_jti who) (ap_familyId who) (gd_redis g)), gd_redis g)"
      and down: "(\<exists>e. fst (isDenied (ap_jti who) (ap_familyId who) (gd_redis g)) = Inl e) \<longleftrightarrow> \<not> r_up (gd_redis g)"
      by (simp_all add: isDenied_run)
    consider e where "fst (isDenied (ap_jti who) (ap_familyId who) (gd_redis g)) = Inl e"
      | "fst (isDenied (ap_jti who) (ap_familyId who) (gd_redis g)) = Inr True"
      | "fst (isDenied (ap_jti who) (ap_familyId who) (gd_redis g)) = Inr False"
      by (metis (full_types) sum.exhaust)
    then show ?thesis
    proof cases
      case 1
      then have "res = Inl (ServiceUnavailableException ''denylist'')" "g' = g"
        using assms header Inr D by (simp_all add: auth_guard_def)
      then show ?thesis using 1 header Inr by simp
    next
      case 2
      then have "res = Inl (UnauthorizedException ''revoked'')" "g' = g\<lparr>gd_www_authenticate := True\<rparr>"
        using assms header Inr D by (simp_all add: auth_guard_def unauthorized_def)
      then show ?thesis using 2 header Inr down by simp
    next
      case 3
      then have "res = Inr True" "g' = g\<lparr>gd_user := Some who\<rparr>"
        using assms header Inr D by (simp_all add: auth_guard_def)
      then show ?thesis using 3 header Inr down by simp
    qed
  qed
qed


text \<open>The role that counts is the one in the database now, not the one in the token: on a route with
  required roles a request passes exactly when its user exists and has one of them, and the check
  changes nothing.\<close>

theorem roles_guard_database_role:
  assumes "rt_http rt" and "rt_roles rt = Some required" and "required \<noteq> []" and "int4 (ap_userId who)"
    and "distinct (map u_id (users s))"
  shows "roles_guard rt (Some who) s =
    (if \<exists>u \<in> set (users s). u_id u = ap_userId who \<and> u_role u \<in> set required then Inr True
     else if ap_userId who \<in> u_id ` set (users s) then Inl (ForbiddenException ''role'')
     else Inl (UnauthorizedException ''no such account''), s)"
proof -
  obtain r rs where req: "required = r # rs" using assms(3) by (cases required) auto
  show ?thesis
  proof (cases "find (\<lambda>u. u_id u = ap_userId who) (users s)")
    case None
    then have "ap_userId who \<notin> u_id ` set (users s)" by (auto simp: find_None_iff)
    moreover from this have "\<not> (\<exists>u \<in> set (users s). u_id u = ap_userId who \<and> u_role u \<in> set required)" by (metis imageI)
    moreover have "roles_guard rt (Some who) s = (Inl (UnauthorizedException ''no such account''), s)"
      using assms(1,2,4) req None by (simp add: roles_guard_def find_user_run)
    ultimately show ?thesis by simp
  next
    case (Some u)
    then have u: "u \<in> set (users s)" "u_id u = ap_userId who" by (auto simp: find_Some_iff)
    then have "v = u" if "v \<in> set (users s)" "u_id v = ap_userId who" for v
      using that assms(5) by (metis distinct_map inj_onD)
    then have "(\<exists>u \<in> set (users s). u_id u = ap_userId who \<and> u_role u \<in> set required) \<longleftrightarrow> u_role u \<in> set required"
      using u by blast
    moreover have "ap_userId who \<in> u_id ` set (users s)" using u by (metis imageI)
    moreover have "roles_guard rt (Some who) s
        = (if u_role u \<in> set required then Inr True else Inl (ForbiddenException ''role''), s)"
      using assms(1,2,4) req Some by (simp add: roles_guard_def find_user_run)
    ultimately show ?thesis by simp
  qed
qed

subsection \<open>Logging in, refreshing, logging out\<close>

record token_pair =
  tp_accessToken :: string
  tp_refreshToken :: string
  tp_expiresIn :: int

definition verifyPassword :: "(string \<Rightarrow> string \<Rightarrow> bool) \<Rightarrow> string option \<Rightarrow> string \<Rightarrow> bool" where
  "verifyPassword argon2_verify hash password = (if truthy hash then argon2_verify (the hash) password else False)"

definition buildPair ::
  "('k, 'p) jwt_lib \<Rightarrow> ('k, 'p) key_store \<Rightarrow> string \<Rightarrow> int \<Rightarrow> int \<Rightarrow> user_role \<Rightarrow> string \<Rightarrow> string \<Rightarrow> token_pair" where
  "buildPair lib keys jti nowMs userId role familyId refreshToken =
     (let access = signAccess lib keys userId role familyId jti nowMs in
      \<lparr>tp_accessToken = sa_token access, tp_refreshToken = refreshToken, tp_expiresIn = sa_expiresIn access\<rparr>)"

text \<open>The random values and the time a call uses.\<close>

record randomness =
  rnd_rowId :: string
  rnd_token :: string
  rnd_familyId :: string
  rnd_jti :: string
  rnd_nowMs :: int

definition auth_login ::
  "('k, 'p) jwt_lib \<Rightarrow> ('k, 'p) key_store \<Rightarrow> (string \<Rightarrow> string) \<Rightarrow> (string \<Rightarrow> string \<Rightarrow> bool) \<Rightarrow> randomness
   \<Rightarrow> string \<Rightarrow> string \<Rightarrow> token_pair db_action" where
  "auth_login lib keys hmac argon2_verify rnd email password =
     and_then (gets (\<lambda>s. find (\<lambda>u. u_email u = email) (users s))) (\<lambda>user.
       let passwordOk = verifyPassword argon2_verify (Option.bind user u_passwordHash) password in
       case user of
         None \<Rightarrow> throw (UnauthorizedException ''credentials'')
       | Some u \<Rightarrow>
           if \<not> passwordOk then throw (UnauthorizedException ''credentials'')
           else and_then (issue hmac (rnd_rowId rnd) (rnd_token rnd) (rnd_familyId rnd) (u_id u)) (\<lambda>(token, familyId).
             ret (buildPair lib keys (rnd_jti rnd) (rnd_nowMs rnd) (u_id u) (u_role u) familyId token)))"

definition auth_refresh ::
  "('k, 'p) jwt_lib \<Rightarrow> ('k, 'p) key_store \<Rightarrow> (string \<Rightarrow> string) \<Rightarrow> randomness \<Rightarrow> string \<Rightarrow> token_pair auth_action" where
  "auth_refresh lib keys hmac rnd refreshToken =
     and_then (in_db (rotate_token hmac (rnd_rowId rnd) (rnd_token rnd) refreshToken)) (\<lambda>result.
       case result of
         Rejected reason owner k \<Rightarrow>
           and_then
             (case (reason, owner) of
                (Reused, Some fam) \<Rightarrow> if ow_familyId fam = [] then ret ()
                  else on_error (in_redis (denyFamily (ow_familyId fam))) (\<lambda>_. ret ())
              | _ \<Rightarrow> ret ())
             (\<lambda>_. throw (UnauthorizedException ''refresh''))
       | Rotated owner token \<Rightarrow>
           and_then (in_db (find_user (ow_userId owner))) (\<lambda>user.
             case user of
               None \<Rightarrow> throw (UnauthorizedException ''refresh'')
             | Some u \<Rightarrow> ret (buildPair lib keys (rnd_jti rnd) (rnd_nowMs rnd) (u_id u) (u_role u) (ow_familyId owner) token)))"

definition auth_logout :: "access_principal \<Rightarrow> int \<Rightarrow> unit auth_action" where
  "auth_logout who nowMs =
     and_then (in_db (revokeFamily (ap_familyId who))) (\<lambda>_.
       on_error (and_then (in_redis (revokeAccess (ap_jti who) (ap_expiresAt who) nowMs)) (\<lambda>_. ret ()))
         (\<lambda>_. throw (ServiceUnavailableException ''logout'')))"

text \<open>
  \<open>AuthController.login\<close>: the limit on attempts comes first; a refusal carries \<open>Retry-After\<close>.
\<close>

datatype login_answer = LoggedIn token_pair | TooMany int

definition login_route ::
  "('k, 'p) jwt_lib \<Rightarrow> ('k, 'p) key_store \<Rightarrow> (string \<Rightarrow> string) \<Rightarrow> (string \<Rightarrow> string \<Rightarrow> bool) \<Rightarrow> (string \<Rightarrow> string)
   \<Rightarrow> limiter \<Rightarrow> string \<Rightarrow> randomness \<Rightarrow> string \<Rightarrow> string \<Rightarrow> string \<Rightarrow> login_answer auth_action" where
  "login_route lib keys hmac argon2_verify sha256_hex limit member rnd ip email password =
     and_then (in_redis (login_throttle sha256_hex limit member ip email)) (\<lambda>verdict.
       if \<not> allowed verdict then ret (TooMany (retryAfterSec verdict))
       else and_then (in_db (auth_login lib keys hmac argon2_verify rnd email password)) (\<lambda>pair. ret (LoggedIn pair)))"


lemma auth_login_run:
  "auth_login lib keys hmac argon2_verify rnd email password s =
     (case find (\<lambda>u. u_email u = email) (users s) of
        None \<Rightarrow> (Inl (UnauthorizedException ''credentials''), s)
      | Some u \<Rightarrow>
          if \<not> verifyPassword argon2_verify (u_passwordHash u) password then (Inl (UnauthorizedException ''credentials''), s)
          else (case issue hmac (rnd_rowId rnd) (rnd_token rnd) (rnd_familyId rnd) (u_id u) s of
                  (Inl e, s') \<Rightarrow> (Inl e, s')
                | (Inr (token, familyId), s') \<Rightarrow>
                    (Inr (buildPair lib keys (rnd_jti rnd) (rnd_nowMs rnd) (u_id u) (u_role u) familyId token), s')))"
  by (simp add: auth_login_def and_then_def Let_def split: option.splits prod.splits sum.splits)

lemma login_succeeded:
  assumes "jwt_contract lib pub" and "verificationKey keys (Some (ks_kid keys)) = Inr (pub (ks_signingKey keys))"
    and "\<forall>u \<in> set (users s). 0 < u_id u"
    and "auth_login lib keys hmac argon2_verify rnd email password s = (Inr pair, s')"
  shows "\<exists>u \<in> set (users s). \<exists>hash. u_email u = email \<and> u_passwordHash u = Some hash \<and> argon2_verify hash password
        \<and> verifyAccess lib keys (tp_accessToken pair) (rnd_nowMs rnd)
            = Inr \<lparr>ap_userId = u_id u, ap_role = u_role u, ap_jti = rnd_jti rnd, ap_familyId = rnd_familyId rnd,
                   ap_expiresAt = of_int (rnd_nowMs rnd div 1000 + 600)\<rparr>
        \<and> tp_refreshToken pair = rnd_token rnd
        \<and> (\<exists>row. refresh_tokens s' = refresh_tokens s @ [row] \<and> rt_token_hash row = hmac (rnd_token rnd)
             \<and> rt_user_id row = u_id u \<and> rt_family_id row = rnd_familyId rnd \<and> usable row)"
proof -
  obtain u where u: "find (\<lambda>u. u_email u = email) (users s) = Some u"
    using assms(4) by (auto simp: auth_login_run split: option.splits)
  then have mem: "u \<in> set (users s)" "u_email u = email" by (auto simp: find_Some_iff)
  have pw: "verifyPassword argon2_verify (u_passwordHash u) password"
    using assms(4) u by (auto simp: auth_login_run split: if_splits)
  then obtain hash where hash: "u_passwordHash u = Some hash" "argon2_verify hash password"
    by (auto simp: verifyPassword_def truthy_def split: if_splits)
  obtain token familyId where iss: "issue hmac (rnd_rowId rnd) (rnd_token rnd) (rnd_familyId rnd) (u_id u) s = (Inr (token, familyId), s')"
    and pair: "pair = buildPair lib keys (rnd_jti rnd) (rnd_nowMs rnd) (u_id u) (u_role u) familyId token"
    using assms(4) u pw by (auto simp: auth_login_run split: prod.splits sum.splits)
  have row: "token = rnd_token rnd" "familyId = rnd_familyId rnd"
    "\<exists>row. refresh_tokens s' = refresh_tokens s @ [row] \<and> rt_token_hash row = hmac (rnd_token rnd)
             \<and> rt_user_id row = u_id u \<and> rt_family_id row = rnd_familyId rnd \<and> usable row"
    using iss unfolding issue_def insert_refresh_token_def
    by (auto elim!: and_then_okE dest!: guard_ok simp: usable_def)
  have "verifyAccess lib keys (tp_accessToken pair) (rnd_nowMs rnd)
      = Inr \<lparr>ap_userId = u_id u, ap_role = u_role u, ap_jti = rnd_jti rnd, ap_familyId = rnd_familyId rnd,
             ap_expiresAt = of_int (rnd_nowMs rnd div 1000 + 600)\<rparr>"
    by (rule mp [OF conjunct1 [OF signed_verifies [OF assms(1), of "u_id u" "tp_accessToken pair" keys
        "u_role u" "rnd_familyId rnd" "rnd_jti rnd" "rnd_nowMs rnd" keys "rnd_nowMs rnd"]]])
      (use assms(2,3) mem pair row in \<open>simp_all add: buildPair_def Let_def\<close>)
  then show ?thesis using mem hash row pair by (auto simp: buildPair_def Let_def)
qed

lemma login_refused:
  assumes "auth_login lib keys hmac argon2_verify rnd email password s = (Inl e, s')"
  shows "s' = s \<and> ((\<forall>u \<in> set (users s). u_email u = email \<longrightarrow>
          \<not> (\<exists>hash. u_passwordHash u = Some hash \<and> hash \<noteq> [] \<and> argon2_verify hash password))
          \<longrightarrow> e = UnauthorizedException ''credentials'')"
proof -
  have iss: "s2 = s" if "issue hmac i t f u s = (Inl e2, s2)" for i t f u e2 s2
    using that unfolding issue_def insert_refresh_token_def
    by (auto simp: and_then_def guard_def split: if_splits)
  show ?thesis
  proof (cases "find (\<lambda>u. u_email u = email) (users s)")
    case None
    then show ?thesis using assms by (auto simp: auth_login_run)
  next
    case (Some u)
    then have mem: "u \<in> set (users s)" "u_email u = email" by (auto simp: find_Some_iff)
    show ?thesis
    proof (cases "verifyPassword argon2_verify (u_passwordHash u) password")
      case True
      then obtain hash where "u_passwordHash u = Some hash" "hash \<noteq> []" "argon2_verify hash password"
        by (auto simp: verifyPassword_def truthy_def split: if_splits)
      moreover have "s' = s" using assms Some True iss by (auto simp: auth_login_run split: prod.splits sum.splits)
      ultimately show ?thesis using mem by auto
    next
      case False
      then show ?thesis using assms Some by (auto simp: auth_login_run)
    qed
  qed
qed

text \<open>Whoever logs in knew the password of an account with that address, and gets a pair for that account
  and nobody else: the access token verifies as the account's id and current role and belongs to a new
  family, whose first refresh token is the one returned. A wrong address and a wrong password are
  answered alike and change nothing.\<close>

theorem login_correct:
  assumes "jwt_contract lib pub" and "verificationKey keys (Some (ks_kid keys)) = Inr (pub (ks_signingKey keys))"
    and "\<forall>u \<in> set (users s). 0 < u_id u"
    and "auth_login lib keys hmac argon2_verify rnd email password s = (res, s')"
  shows "case res of
      Inr pair \<Rightarrow> (\<exists>u \<in> set (users s). \<exists>hash. u_email u = email \<and> u_passwordHash u = Some hash \<and> argon2_verify hash password
        \<and> verifyAccess lib keys (tp_accessToken pair) (rnd_nowMs rnd)
            = Inr \<lparr>ap_userId = u_id u, ap_role = u_role u, ap_jti = rnd_jti rnd, ap_familyId = rnd_familyId rnd,
                   ap_expiresAt = of_int (rnd_nowMs rnd div 1000 + 600)\<rparr>
        \<and> tp_refreshToken pair = rnd_token rnd
        \<and> (\<exists>row. refresh_tokens s' = refresh_tokens s @ [row] \<and> rt_token_hash row = hmac (rnd_token rnd)
             \<and> rt_user_id row = u_id u \<and> rt_family_id row = rnd_familyId rnd \<and> usable row))
    | Inl e \<Rightarrow> s' = s \<and> ((\<forall>u \<in> set (users s). u_email u = email \<longrightarrow>
          \<not> (\<exists>hash. u_passwordHash u = Some hash \<and> hash \<noteq> [] \<and> argon2_verify hash password))
          \<longrightarrow> e = UnauthorizedException ''credentials'')"
  using login_succeeded [OF assms(1-3), of hmac argon2_verify rnd email password] login_refused assms(4)
  by (cases res) (simp_all, blast+)


subsection \<open>Ended sessions stay ended\<close>

text \<open>A user the guard lets through was not denied and its token had not expired.\<close>

lemma guard_passed:
  assumes "jwt_contract lib pub" "rt_http rt" "\<not> rt_public rt"
    and "auth_guard lib keys rt authorization nowMs g = (Inr True, g')" "gd_user g' = Some who"
  shows "fst (isDenied (ap_jti who) (ap_familyId who) (gd_redis g)) = Inr False"
    and "of_int (nowMs div 1000) < ap_expiresAt who"
proof -
  obtain token who' where t: "verifyAccess lib keys token nowMs = Inr who'" "gd_user g' = Some who'"
    "fst (isDenied (ap_jti who') (ap_familyId who') (gd_redis g)) = Inr False"
    using guard_fails_closed [OF assms(2-4)] by blast
  then show "fst (isDenied (ap_jti who) (ap_familyId who) (gd_redis g)) = Inr False"
    and "of_int (nowMs div 1000) < ap_expiresAt who"
    using assms(5) verified_was_signed [OF assms(1) t(1)] by auto
qed

lemma whole_seconds: "(of_int (t div 1000) :: rat) < of_int e \<longleftrightarrow> (of_int t :: rat) < of_int e * 1000"
proof -
  have split: "1000 * (t div 1000) + t mod 1000 = t" "0 \<le> t mod 1000" "t mod 1000 < 1000" by simp_all
  have "t div 1000 < e \<longleftrightarrow> t < e * 1000"
  proof
    assume "t div 1000 < e"
    then have "t div 1000 + 1 \<le> e" by simp
    then show "t < e * 1000" using split by linarith
  next
    assume "t < e * 1000"
    then show "t div 1000 < e" using split by linarith
  qed
  moreover have "(of_int t :: rat) < of_int e * 1000 \<longleftrightarrow> (of_int t :: rat) < of_int (e * 1000)" by simp
  ultimately show ?thesis unfolding of_int_less_iff by simp
qed

lemma revokeFamily_kills:
  "f \<in> rt_family_id ` set (refresh_tokens s) \<Longrightarrow> revokeFamily f s = (r, s1) \<Longrightarrow> dead_family f (refresh_tokens s1)"
proof -
  assume f: "f \<in> rt_family_id ` set (refresh_tokens s)" and run: "revokeFamily f s = (r, s1)"
  have rows: "refresh_tokens s1 = map (revoke_row f (clock s)) (refresh_tokens s)"
    using run by (auto simp: revokeFamily_def and_then_def)
  have "rt_family_id (revoke_row f now q) = rt_family_id q" for now q by (simp add: revoke_row_def)
  then have "rt_family_id ` set (refresh_tokens s1) = rt_family_id ` set (refresh_tokens s)"
    unfolding rows by (simp add: image_image)
  then show "dead_family f (refresh_tokens s1)"
    using f unfolding dead_family_def by (auto simp: rows revoke_row_def usable_def)
qed

lemma dead_family_never_rotates:
  assumes "dead_family f (refresh_tokens s1)" "(token_step hmac)\<^sup>*\<^sup>* s1 s2"
    and "rotate_token hmac i n t s2 = (Inr (Rotated owner new), s3)"
  shows "ow_familyId owner \<noteq> f"
proof -
  have "dead_family f (refresh_tokens s2)"
    using assms(2,1) by (rule reachable_move_induct) (rule dead_family_stays)
  then show ?thesis by (rule dead_family_rotate [OF _ assms(3)])
qed

lemma auth_logout_run:
  "auth_logout who nowMs w =
     (case revokeAccess (ap_jti who) (ap_expiresAt who) nowMs (aw_redis w) of
        (Inl e, r) \<Rightarrow> (Inl (ServiceUnavailableException ''logout''),
                        \<lparr>aw_db = snd (revokeFamily (ap_familyId who) (aw_db w)), aw_redis = r\<rparr>)
      | (Inr b, r) \<Rightarrow> (Inr (), \<lparr>aw_db = snd (revokeFamily (ap_familyId who) (aw_db w)), aw_redis = r\<rparr>))"
  by (cases w) (auto simp: auth_logout_def in_db_def in_redis_def and_then_def on_error_def revokeFamily_def
      split: prod.splits sum.splits)

text \<open>C13: after a logout the session is over. Whether or not the denylist could be reached, no refresh token of
  the family is ever exchanged again; and when the logout succeeded, which it does unless Redis is down,
  no protected route lets the access token through at any later time.\<close>

theorem logout_ends_session:
  fixes e :: int
  assumes "jwt_contract lib pub" and "ap_expiresAt who = of_int e"
    and "ap_familyId who \<in> rt_family_id ` set (refresh_tokens (aw_db w))"
    and "auth_logout who (now_ms (aw_redis w)) w = (res, w1)"
  shows "((token_step hmac)\<^sup>*\<^sup>* (aw_db w1) s2 \<and> rotate_token hmac i n t s2 = (Inr (Rotated owner new), s3)
        \<longrightarrow> ow_familyId owner \<noteq> ap_familyId who)
    \<and> (r_up (aw_redis w) \<longrightarrow> res = Inr ())
    \<and> (r_up (aw_redis w) \<and> rt_http rt \<and> \<not> rt_public rt
        \<and> gd_redis g = at_time us (deny_calls cs (aw_redis w1)) \<and> r_us (aw_redis w) \<le> us
        \<and> (\<forall>us e'. (us, DenyToken (ap_jti who) e') \<in> set cs \<longrightarrow> e' = ap_expiresAt who)
        \<and> auth_guard lib keys rt authorization (us div 1000) g = (Inr True, g')
       \<longrightarrow> gd_user g' \<noteq> Some who)"
proof (intro conjI impI)
  have w1: "aw_db w1 = snd (revokeFamily (ap_familyId who) (aw_db w))"
    using assms(4) by (auto simp: auth_logout_run split: prod.splits sum.splits)
  then have "dead_family (ap_familyId who) (refresh_tokens (aw_db w1))"
    using revokeFamily_kills [OF assms(3)] by (metis prod.collapse)
  then show "ow_familyId owner \<noteq> ap_familyId who"
    if "(token_step hmac)\<^sup>*\<^sup>* (aw_db w1) s2 \<and> rotate_token hmac i n t s2 = (Inr (Rotated owner new), s3)"
    using that dead_family_never_rotates by blast
  have up: "\<exists>b. fst (revokeAccess (ap_jti who) (ap_expiresAt who) (now_ms (aw_redis w)) (aw_redis w)) = Inr b"
    if "r_up (aw_redis w)"
    using that by (auto simp: revokeAccess_def and_then_def redis_set_ex_def command_def Let_def)
  then show "res = Inr ()" if "r_up (aw_redis w)"
    using that assms(4) by (auto simp: auth_logout_run split: prod.splits sum.splits)
  show "gd_user g' \<noteq> Some who"
    if g: "r_up (aw_redis w) \<and> rt_http rt \<and> \<not> rt_public rt
        \<and> gd_redis g = at_time us (deny_calls cs (aw_redis w1)) \<and> r_us (aw_redis w) \<le> us
        \<and> (\<forall>us e'. (us, DenyToken (ap_jti who) e') \<in> set cs \<longrightarrow> e' = ap_expiresAt who)
        \<and> auth_guard lib keys rt authorization (us div 1000) g = (Inr True, g')"
  proof
    assume user: "gd_user g' = Some who"
    have open1: "fst (isDenied (ap_jti who) (ap_familyId who) (at_time us (deny_calls cs (aw_redis w1)))) = Inr False"
      and "of_int (us div 1000 div 1000) < ap_expiresAt who"
      using guard_passed [OF assms(1) _ _ _ user] g by metis+
    then have valid: "of_int (us div 1000) < ap_expiresAt who * 1000"
      using whole_seconds [of "us div 1000" e] assms(2) by simp
    have "now_ms (aw_redis w) \<le> us div 1000" unfolding now_ms_def by (rule zdiv_mono1) (use g in simp_all)
    then have now: "of_int (now_ms (aw_redis w)) < ap_expiresAt who * 1000"
      using valid by (meson of_int_le_iff order_le_less_trans)
    have "aw_redis w1 = snd (revokeAccess (ap_jti who) (ap_expiresAt who) (now_ms (aw_redis w)) (aw_redis w))"
      using assms(4) by (auto simp: auth_logout_run split: prod.splits sum.splits)
    then have "fst (isDenied (ap_jti who) (ap_familyId who) (at_time us (deny_calls cs (aw_redis w1)))) = Inr True"
      using revoked_while_valid [OF _ now _ valid, where cs = cs and f = "ap_familyId who"] g by simp
    then show False using open1 by simp
  qed
qed


lemma auth_refresh_reused:
  assumes "rotate_token hmac (rnd_rowId rnd) (rnd_token rnd) token (aw_db w) = (Inr (Rejected Reused (Some fam) k), s1)"
    and "ow_familyId fam \<noteq> []"
  shows "auth_refresh lib keys hmac rnd token w
    = (Inl (UnauthorizedException ''refresh''), \<lparr>aw_db = s1, aw_redis = snd (denyFamily (ow_familyId fam) (aw_redis w))\<rparr>)"
  using assms by (cases w) (auto simp: auth_refresh_def in_db_def in_redis_def and_then_def on_error_def
      denyFamily_def redis_set_ex_def command_def split: prod.splits sum.splits if_splits)

text \<open>When a refresh token is presented a second time, the thief and the owner are both out at once: the
  answer is 401, the family is revoked in the database, and, when Redis answers, every access token
  issued for the family until then is refused by the guards for as long as it would have been valid.\<close>

theorem reuse_ends_access:
  fixes e :: int
  assumes "jwt_contract lib pub"
    and "rotate_token hmac (rnd_rowId rnd) (rnd_token rnd) token (aw_db w) = (Inr (Rejected Reused (Some fam) k), s1)"
    and "ow_familyId fam \<noteq> []" and "auth_refresh lib keys hmac rnd token w = (res, w1)"
    and "ap_familyId who = ow_familyId fam" and "ap_expiresAt who = of_int e"
    and "ap_expiresAt who \<le> of_int (now_ms (aw_redis w)) / 1000 + 600"
  shows "res = Inl (UnauthorizedException ''refresh'') \<and> aw_db w1 = s1
    \<and> (r_up (aw_redis w) \<and> rt_http rt \<and> \<not> rt_public rt
        \<and> gd_redis g = at_time us (deny_calls cs (aw_redis w1)) \<and> (\<forall>(t, c) \<in> set cs. r_us (aw_redis w) \<le> t)
        \<and> auth_guard lib keys rt authorization (us div 1000) g = (Inr True, g')
       \<longrightarrow> gd_user g' \<noteq> Some who)"
proof (intro conjI impI)
  note run = auth_refresh_reused [OF assms(2,3), of lib keys]
  show "res = Inl (UnauthorizedException ''refresh'')" "aw_db w1 = s1" using run assms(4) by auto
  assume g: "r_up (aw_redis w) \<and> rt_http rt \<and> \<not> rt_public rt
        \<and> gd_redis g = at_time us (deny_calls cs (aw_redis w1)) \<and> (\<forall>(t, c) \<in> set cs. r_us (aw_redis w) \<le> t)
        \<and> auth_guard lib keys rt authorization (us div 1000) g = (Inr True, g')"
  show "gd_user g' \<noteq> Some who"
  proof
    assume user: "gd_user g' = Some who"
    have open1: "fst (isDenied (ap_jti who) (ap_familyId who) (at_time us (deny_calls cs (aw_redis w1)))) = Inr False"
      and "of_int (us div 1000 div 1000) < ap_expiresAt who"
      using guard_passed [OF assms(1) _ _ _ user] g by metis+
    then have valid: "of_int (us div 1000) < ap_expiresAt who * 1000"
      using whole_seconds [of "us div 1000" e] assms(6) by simp
    have r1: "aw_redis w1 = snd (denyFamily (ow_familyId fam) (aw_redis w))" using run assms(4) by auto
    have "fst (isDenied (ap_jti who) (ow_familyId fam) (at_time us (deny_calls cs (aw_redis w1)))) = Inr True"
      unfolding r1
      by (rule conjunct1 [OF family_denied_while_valid [OF _ assms(7) _ valid]]) (use g in auto)
    then show False using open1 assms(5) by simp
  qed
qed

subsection \<open>Examples\<close>

definition sample_redis_up :: redis where
  "sample_redis_up = \<lparr>r_us = 1500000, r_up = True, r_data = (\<lambda>_. None)\<rparr>"

definition orders_route :: route where
  "orders_route = \<lparr>rt_http = True, rt_public = False, rt_roles = Some [admin, seller]\<rparr>"

definition sample_principal :: access_principal where
  "sample_principal = \<lparr>ap_userId = 1, ap_role = customer, ap_jti = ''j'', ap_familyId = ''f'', ap_expiresAt = 601\<rparr>"

definition fresh_guard :: "redis \<Rightarrow> guard_state" where
  "fresh_guard r = \<lparr>gd_redis = r, gd_www_authenticate = False, gd_user = None\<rparr>"


theorem roles_guard_database_role_witness:
  "fst (roles_guard orders_route (Some sample_principal) sample_db) = Inl (ForbiddenException ''role'')"
proof -
  have "roles_guard orders_route (Some sample_principal) sample_db = (Inl (ForbiddenException ''role''), sample_db)"
    by (subst roles_guard_database_role [of _ "[admin, seller]"])
      (auto simp: orders_route_def sample_principal_def int4_def sample_db_def sample_user_def)
  then show ?thesis by simp
qed

definition login_db :: db where
  "login_db = sample_db\<lparr>users := [(sample_user 1 customer 0)\<lparr>u_passwordHash := Some ''secret''\<rparr>]\<rparr>"

definition sample_random :: randomness where
  "sample_random = \<lparr>rnd_rowId = ''r1'', rnd_token = ''t1'', rnd_familyId = ''f'', rnd_jti = ''j'', rnd_nowMs = 1500\<rparr>"

theorem login_correct_witness:
  "\<exists>pair s'. auth_login plain_jwt plain_keys id (=) sample_random ''u1@example.com'' ''secret'' login_db = (Inr pair, s')
    \<and> verifyAccess plain_jwt plain_keys (tp_accessToken pair) 1500 = Inr sample_principal"
proof -
  obtain pair s' where run: "auth_login plain_jwt plain_keys id (=) sample_random ''u1@example.com'' ''secret'' login_db = (Inr pair, s')"
    by (simp add: auth_login_run login_db_def sample_db_def sample_user_def show_small verifyPassword_def truthy_def
        issue_def insert_refresh_token_def and_then_def empty_db_def)
  have "verificationKey plain_keys (Some (ks_kid plain_keys)) = Inr (''pub '' @ ks_signingKey plain_keys)"
    by (simp add: verificationKey_def truthy_def plain_keys_def)
  from login_correct [OF plain_contract this _ run]
  have "verifyAccess plain_jwt plain_keys (tp_accessToken pair) 1500 = Inr sample_principal"
    by (auto simp: login_db_def sample_user_def sample_random_def sample_principal_def)
  with run show ?thesis by blast
qed

definition sample_world :: auth_world where
  "sample_world = \<lparr>aw_db = sample_tokens, aw_redis = sample_redis_up\<rparr>"

theorem logout_ends_session_witness:
  "let (res, w1) = auth_logout sample_principal 1500 sample_world in res = Inr ()
    \<and> (\<forall>h g'. auth_guard plain_jwt plain_keys orders_route h 2000 (fresh_guard (at_time 2000000 (aw_redis w1))) = (Inr True, g')
        \<longrightarrow> gd_user g' \<noteq> Some sample_principal)"
proof -
  obtain res w1 where run: "auth_logout sample_principal (now_ms (aw_redis sample_world)) sample_world = (res, w1)"
    by (cases "auth_logout sample_principal (now_ms (aw_redis sample_world)) sample_world")
  have now: "now_ms (aw_redis sample_world) = 1500" by (simp add: sample_world_def sample_redis_up_def now_ms_def)
  have e: "ap_expiresAt sample_principal = of_int 601" by (simp add: sample_principal_def)
  have rows: "map rt_family_id (refresh_tokens sample_tokens) = [''f'']" by code_simp
  have f: "ap_familyId sample_principal \<in> rt_family_id ` set (refresh_tokens (aw_db sample_world))"
    using arg_cong [OF rows, of set] by (simp add: sample_world_def sample_principal_def)
  have "res = Inr ()"
    using logout_ends_session [OF plain_contract e f run] by (simp add: sample_world_def sample_redis_up_def)
  moreover have "gd_user g' \<noteq> Some sample_principal"
    if "auth_guard plain_jwt plain_keys orders_route h 2000 (fresh_guard (at_time 2000000 (aw_redis w1))) = (Inr True, g')" for h g'
    by (rule mp [OF conjunct2 [OF conjunct2 [OF logout_ends_session [OF plain_contract e f run, where us = 2000000
        and cs = "[]" and g = "fresh_guard (at_time 2000000 (aw_redis w1))" and rt = orders_route and keys = plain_keys
        and authorization = h]]]])
      (use that in \<open>simp add: sample_world_def sample_redis_up_def orders_route_def fresh_guard_def\<close>)
  ultimately show ?thesis using run unfolding now by simp
qed


definition reused_world :: auth_world where
  "reused_world = \<lparr>aw_db = snd (rotate_token id ''r2'' (sample_token CHR ''b'') (sample_token CHR ''a'') sample_tokens),
     aw_redis = sample_redis_up\<rparr>"

theorem reuse_ends_access_witness:
  "let (res, w1) = auth_refresh plain_jwt plain_keys id sample_random (sample_token CHR ''a'') reused_world
   in res = Inl (UnauthorizedException ''refresh'')
    \<and> (\<forall>h g'. auth_guard plain_jwt plain_keys orders_route h 2000 (fresh_guard (at_time 2000000 (aw_redis w1))) = (Inr True, g')
        \<longrightarrow> gd_user g' \<noteq> Some sample_principal)"
proof -
  let ?w = reused_world and ?t = "sample_token CHR ''a''"
  obtain res w1 where run: "auth_refresh plain_jwt plain_keys id sample_random ?t ?w = (res, w1)"
    by (cases "auth_refresh plain_jwt plain_keys id sample_random ?t ?w")
  have "fst (rotate_token id ''r1'' ''t1'' ?t (aw_db ?w))
      = Inr (Rejected Reused (Some \<lparr>ow_userId = 1, ow_familyId = ''f''\<rparr>) (Some 2))" by code_simp
  then have reused: "rotate_token id (rnd_rowId sample_random) (rnd_token sample_random) ?t (aw_db ?w)
      = (Inr (Rejected Reused (Some \<lparr>ow_userId = 1, ow_familyId = ''f''\<rparr>) (Some 2)),
         snd (rotate_token id ''r1'' ''t1'' ?t (aw_db ?w)))"
    by (simp add: sample_random_def prod_eq_iff)
  have e: "ap_expiresAt sample_principal = of_int 601"
    "ap_expiresAt sample_principal \<le> of_int (now_ms (aw_redis ?w)) / 1000 + 600"
    "ap_familyId sample_principal = ow_familyId \<lparr>ow_userId = 1, ow_familyId = ''f''\<rparr>"
    "ow_familyId \<lparr>ow_userId = 1, ow_familyId = ''f''\<rparr> \<noteq> []"
    by (simp_all add: sample_principal_def reused_world_def sample_redis_up_def now_ms_def)
  note ends = reuse_ends_access [OF plain_contract reused e(4) run e(3,1,2)]
  have "res = Inl (UnauthorizedException ''refresh'')" using ends by blast
  moreover have "gd_user g' \<noteq> Some sample_principal"
    if "auth_guard plain_jwt plain_keys orders_route h 2000 (fresh_guard (at_time 2000000 (aw_redis w1))) = (Inr True, g')" for h g'
    by (rule mp [OF conjunct2 [OF conjunct2 [OF reuse_ends_access [OF plain_contract reused e(4) run e(3,1,2), where us = 2000000
        and cs = "[]" and g = "fresh_guard (at_time 2000000 (aw_redis w1))" and rt = orders_route
        and authorization = h]]]])
      (use that in \<open>simp add: reused_world_def sample_redis_up_def orders_route_def fresh_guard_def\<close>)
  ultimately show ?thesis using run by simp
qed

end
