(* ===== verification/Products.thy ===== *)
theory Products
  imports Database SampleShop
begin

text \<open>
  \<open>src/products\<close>: the product service (listing, lookup, creation) and the validation of its
  request body. The product card is in theory \<open>ProductCards\<close>.
\<close>

record product_response =
  pr_id :: string
  pr_name :: string
  pr_priceCents :: int
  pr_currency :: string

definition product_toResponse :: "product \<Rightarrow> product_response" where
  "product_toResponse entity =
     \<lparr>pr_id = show_int (p_id entity), pr_name = p_name entity,
      pr_priceCents = p_priceCents entity, pr_currency = p_currency entity\<rparr>"

definition products_findAll ::
  "nat \<Rightarrow> string option \<Rightarrow> (product_response list \<times> string option) db_action" where
  "products_findAll limit cursor =
     (let afterId = after_id cursor in
      and_then (gets products) (\<lambda>rows.
        case select_after p_id afterId (limit + 1) rows of
          Inl e \<Rightarrow> throw e
        | Inr found \<Rightarrow> ret (page_of p_id product_toResponse limit found)))"

definition products_findOne :: "string \<Rightarrow> product_response db_action" where
  "products_findOne productId =
     (let i = js_Number productId in
      and_then (if i = NaN then ret None else find_product i) (\<lambda>entity.
        case entity of
          None \<Rightarrow> throw (NotFoundException (''Product '' @ productId @ '' not found''))
        | Some p \<Rightarrow> ret (product_toResponse p)))"

record create_product_dto =
  dto_name :: string
  dto_priceCents :: int
  dto_stock :: int
  dto_currency :: "string option"

definition PRODUCT_CURRENCIES :: "string list" where
  "PRODUCT_CURRENCIES = [''UAH'', ''USD'', ''EUR'']"

text \<open>Characters of a UTF-8 text: the bytes that do not continue one.\<close>

definition char_count :: "string \<Rightarrow> nat" where
  "char_count s = length (filter (\<lambda>c. \<not> (128 \<le> (of_char c :: nat) \<and> (of_char c :: nat) < 192)) s)"

definition create_product_dto_ok :: "create_product_dto \<Rightarrow> bool" where
  "create_product_dto_ok d \<longleftrightarrow>
     dto_name d \<noteq> [] \<and> char_count (dto_name d) \<le> 200
     \<and> 1 \<le> dto_priceCents d \<and> dto_priceCents d \<le> 1000000000
     \<and> 0 \<le> dto_stock d \<and> dto_stock d \<le> 1000000
     \<and> pred_option (\<lambda>c. c \<in> set PRODUCT_CURRENCIES) (dto_currency d)"

definition products_create :: "create_product_dto \<Rightarrow> product_response db_action" where
  "products_create d =
     on_error
       (and_then
          (transaction (insert_product (dto_name d) (dto_priceCents d) (dto_stock d)
             (case dto_currency d of None \<Rightarrow> ''UAH'' | Some c \<Rightarrow> c)))
          (\<lambda>saved. ret (product_toResponse saved)))
       (\<lambda>e. if e = QueryFailedError UNIQUE_VIOLATION
            then throw (ConflictException (''Product exists: '' @ dto_name d))
            else throw e)"

subsection \<open>The listing is a keyset listing\<close>

interpretation products_listing: keyset_listing
  "\<lambda>s limit c. outcome (products_findAll limit c) s" products p_id product_toResponse db_wf
proof
  fix s assume "db_wf s"
  then show "sorted_wrt (\<lambda>a b. p_id a < p_id b) (products s)"
    by (auto simp: db_wf_defs intro: serial_sorted_rows)
next
  fix s limit assume "db_wf s"
  then have "serial (map p_id (products s)) (seq_products s)" by (simp add: db_wf_defs)
  then show "outcome (products_findAll limit None) s
      = Inr (page_of p_id product_toResponse limit (take (limit + 1) (products s)))"
    by (simp add: products_findAll_def and_then_def select_after_start)
next
  fix s r limit assume "db_wf s" and r: "r \<in> set (products s)"
  then have "serial (map p_id (products s)) (seq_products s)" by (simp add: db_wf_defs)
  then show "outcome (products_findAll limit (Some (encodeCursor (show_int (p_id r))))) s
      = Inr (page_of p_id product_toResponse limit
               (take (limit + 1) (filter (\<lambda>q. p_id r < p_id q) (products s))))"
    using r by (simp add: products_findAll_def and_then_def select_after_row)
qed

text \<open>Walking the product listing page by page, with any positive page size, returns every
  product exactly once in the order of ids, and needs at most one request per product and one
  more.\<close>

theorem products_walk:
  assumes "db_wf s" and "0 < limit" and "length (products s) < fuel"
  shows "walk_pages (\<lambda>c. outcome (products_findAll limit c) s) fuel None
    = Some (map product_toResponse (products s))"
  using products_listing.walk_all [OF assms] by simp

theorem products_walk_witness:
  "walk_pages (\<lambda>c. outcome (products_findAll 1 c) sample_db) 3 None
    = Some (map product_toResponse (products sample_db))"
  by (rule products_walk [OF sample_db_wf]) (simp_all add: sample_db_def)

subsection \<open>Creation\<close>

lemma keeps_products_create [keeps_intro]: "keeps db_wf (products_create d)"
  unfolding products_create_def
  by (intro keeps_intro keeps_db_wf_transaction forward_intro)

lemma products_create_cases:
  "products_create d s =
     (case transaction (insert_product (dto_name d) (dto_priceCents d) (dto_stock d)
             (case dto_currency d of None \<Rightarrow> ''UAH'' | Some c \<Rightarrow> c)) s of
        (Inr p, s') \<Rightarrow> (Inr (product_toResponse p), s')
      | (Inl e, s') \<Rightarrow>
          (Inl (if e = QueryFailedError UNIQUE_VIOLATION
                then ConflictException (''Product exists: '' @ dto_name d) else e), s'))"
  by (auto simp: products_create_def on_error_def and_then_def split: prod.splits sum.splits)

lemma insert_product_result:
  assumes "create_product_dto_ok d" "seq_products s \<le> 2147483647"
  shows "fst (insert_product (dto_name d) (dto_priceCents d) (dto_stock d) cur s) =
    (if dto_name d \<in> p_name ` set (products s) then Inl (QueryFailedError UNIQUE_VIOLATION)
     else Inr \<lparr>p_id = seq_products s, p_name = dto_name d, p_priceCents = dto_priceCents d,
               p_stock = dto_stock d, p_currency = cur, p_createdAt = clock s\<rparr>)"
  using assms
  by (auto simp: insert_product_def and_then_def nextval_def guard_def create_product_dto_ok_def
      int4_def Let_def)

lemma insert_product_run:
  assumes "create_product_dto_ok d" "seq_products s \<le> 2147483647" "dto_name d \<notin> p_name ` set (products s)"
  shows "\<exists>p s'. insert_product (dto_name d) (dto_priceCents d) (dto_stock d) cur s = (Inr p, s')"
  using insert_product_result [OF assms(1,2), of cur] assms(3)
  by (cases "insert_product (dto_name d) (dto_priceCents d) (dto_stock d) cur s") auto

lemma products_findOne_present:
  assumes "db_wf s" "p \<in> set (products s)"
  shows "products_findOne (show_int (p_id p)) s = (Inr (product_toResponse p), s)"
proof -
  have ser: "serial (map p_id (products s)) (seq_products s)" using assms(1) by (simp add: db_wf_defs)
  then have "int4 (p_id p)" using assms(2) by (auto simp: serial_def)
  moreover have "find (\<lambda>q. p_id q = p_id p) (products s) = Some p"
    using serial_distinct [OF ser] assms(2) by (rule find_key)
  ultimately show ?thesis
    by (simp add: products_findOne_def find_product_def js_Number_show_int_all int_param_int
        and_then_def)
qed

text \<open>Creating a product from a valid body either answers with the new product, which a
  lookup by the returned id then finds, or, when the name is taken, answers 409 and changes no
  table.\<close>

theorem products_create_correct:
  assumes "db_wf s" and "create_product_dto_ok d" and "seq_products s \<le> 2147483647"
  shows "if dto_name d \<in> p_name ` set (products s)
    then outcome (products_create d) s = Inl (ConflictException (''Product exists: '' @ dto_name d))
         \<and> same_tables s (final (products_create d) s)
    else (\<exists>r. outcome (products_create d) s = Inr r
         \<and> pr_name r = dto_name d \<and> pr_priceCents r = dto_priceCents d
         \<and> outcome (products_findOne (pr_id r)) (final (products_create d) s) = Inr r
         \<and> map product_toResponse (products (final (products_create d) s))
             = map product_toResponse (products s) @ [r])"
proof (cases "dto_name d \<in> p_name ` set (products s)")
  case True
  let ?cur = "case dto_currency d of None \<Rightarrow> ''UAH'' | Some c \<Rightarrow> c"
  obtain e t where t: "insert_product (dto_name d) (dto_priceCents d) (dto_stock d) ?cur s = (Inl e, t)"
    and e: "e = QueryFailedError UNIQUE_VIOLATION"
    using insert_product_result [OF assms(2,3), of ?cur] True
    by (cases "insert_product (dto_name d) (dto_priceCents d) (dto_stock d) ?cur s") auto
  then have "transaction (insert_product (dto_name d) (dto_priceCents d) (dto_stock d) ?cur) s
      = (Inl e, rolled_back s t)"
    by (simp add: transaction_def)
  then show ?thesis using True e by (simp add: products_create_cases)
next
  case False
  let ?cur = "case dto_currency d of None \<Rightarrow> ''UAH'' | Some c \<Rightarrow> c"
  obtain p s' where run: "insert_product (dto_name d) (dto_priceCents d) (dto_stock d) ?cur s = (Inr p, s')"
    using insert_product_run [OF assms(2,3) False] by blast
  then have c: "products_create d s = (Inr (product_toResponse p), s')"
    by (simp add: products_create_cases)
  have p: "products s' = products s @ [p]" "p_name p = dto_name d" "p_priceCents p = dto_priceCents d"
    using insert_product_ok [OF run] by auto
  have "db_wf s'"
    using keepsD' [OF keeps_products_create assms(1) c] .
  then have "products_findOne (show_int (p_id p)) s' = (Inr (product_toResponse p), s')"
    using p(1) by (intro products_findOne_present) auto
  moreover have "pr_id (product_toResponse p) = show_int (p_id p)"
    by (simp add: product_toResponse_def)
  ultimately show ?thesis using False c p by (simp add: product_toResponse_def)
qed

theorem products_create_correct_witness:
  "outcome (products_create \<lparr>dto_name = ''Tea'', dto_priceCents = 1, dto_stock = 1, dto_currency = None\<rparr>)
      sample_db = Inl (ConflictException ''Product exists: Tea'')"
  using products_create_correct [OF sample_db_wf,
      of "\<lparr>dto_name = ''Tea'', dto_priceCents = 1, dto_stock = 1, dto_currency = None\<rparr>"]
  by (simp add: create_product_dto_ok_def char_count_def sample_db_def)

end
