(* ===== verification/Cache.thy ===== *)
theory Cache
  imports Redis
begin

text \<open>
  \<open>src/cache\<close>: the cache-aside store over Redis (\<open>redis-cache.ts\<close>), whose failures are misses,
  the lock with a token (\<open>redis-lock.ts\<close>), and the lifetimes (\<open>ttl.ts\<close>).
\<close>

datatype 'a cache_lookup = Hit 'a | Miss

definition cache_get :: "string \<Rightarrow> json cache_lookup redis_action" where
  "cache_get key =
     on_error
       (and_then (redis_get key) (\<lambda>raw.
          case raw of
            None \<Rightarrow> ret Miss
          | Some text \<Rightarrow>
              (case json_parse text of
                 None \<Rightarrow> throw (PlainError ''SyntaxError'')
               | Some v \<Rightarrow> ret (Hit v))))
       (\<lambda>err. ret Miss)"

definition cache_set :: "string \<Rightarrow> json \<Rightarrow> int \<Rightarrow> unit redis_action" where
  "cache_set key v ttlSec = on_error (redis_set_ex key (json_text v) ttlSec) (\<lambda>err. ret ())"

definition cache_del :: "string \<Rightarrow> unit redis_action" where
  "cache_del key = on_error (and_then (redis_del key) (\<lambda>_. ret ())) (\<lambda>err. ret ())"

subsection \<open>The lock\<close>

text \<open>\<open>RELEASE_LUA\<close>: delete the key only while it still holds the caller's token.\<close>

definition RELEASE_LUA :: "string \<Rightarrow> string \<Rightarrow> int redis_action" where
  "RELEASE_LUA key token = (\<lambda>r.
     case live r key of
       Some (RZset _) \<Rightarrow> (Inl (RedisError ''WRONGTYPE''), r)
     | Some (RString v) \<Rightarrow> if v = token then (Inr 1, erase key r) else (Inr 0, r)
     | None \<Rightarrow> (Inr 0, r))"

definition lock_acquire :: "string \<Rightarrow> string \<Rightarrow> int \<Rightarrow> string option redis_action" where
  "lock_acquire token name ttlMs =
     and_then (redis_set_nx_px name token ttlMs) (\<lambda>ok. ret (if ok then Some token else None))"

definition lock_release :: "string \<Rightarrow> string \<Rightarrow> bool redis_action" where
  "lock_release name token =
     on_error (and_then (command (RELEASE_LUA name token)) (\<lambda>removed. ret (removed = 1)))
       (\<lambda>_. ret False)"

subsection \<open>Lifetimes\<close>

definition CARD_TTL_BASE_SEC :: int where "CARD_TTL_BASE_SEC = 300"
definition CARD_TTL_SPREAD_SEC :: int where "CARD_TTL_SPREAD_SEC = 60"
definition NEGATIVE_TTL_SEC :: int where "NEGATIVE_TTL_SEC = 30"
definition LOCK_TTL_MS :: int where "LOCK_TTL_MS = 5000"
definition LOCK_WAIT_BUDGET_MS :: int where "LOCK_WAIT_BUDGET_MS = 2000"
definition LOCK_POLL_MS :: int where "LOCK_POLL_MS = 25"

text \<open>\<open>random\<close> is the \<open>Math.random()\<close> of the call, in \<open>[0, 1)\<close>.\<close>

definition jitteredTtl :: "int \<Rightarrow> int \<Rightarrow> rat \<Rightarrow> int" where
  "jitteredTtl baseSec spreadSec random = baseSec + \<lfloor>random * of_int (spreadSec + 1)\<rfloor>"

lemma jitteredTtl_bounds:
  assumes "0 \<le> x" "x < 1" "0 \<le> spread"
  shows "base \<le> jitteredTtl base spread x \<and> jitteredTtl base spread x \<le> base + spread"
proof -
  have "x * of_int (spread + 1) < 1 * of_int (spread + 1)"
    using assms by (intro mult_strict_right_mono) auto
  then have "\<lfloor>x * of_int (spread + 1)\<rfloor> < spread + 1" by (simp only: floor_less_iff mult_1)
  moreover have "0 \<le> \<lfloor>x * of_int (spread + 1)\<rfloor>" using assms by simp
  ultimately show ?thesis by (simp add: jitteredTtl_def)
qed

subsection \<open>The cache never throws\<close>

lemma cache_get_cases:
  "cache_get key r =
     (Inr (if r_up r then
             (case live r key of
                Some (RString text) \<Rightarrow> (case json_parse text of Some v \<Rightarrow> Hit v | None \<Rightarrow> Miss)
              | _ \<Rightarrow> Miss)
           else Miss), r)"
  by (auto simp: cache_get_def redis_get_def command_def on_error_def and_then_def
      split: option.splits rvalue.splits)

lemma cache_set_result [simp]: "fst (cache_set key v ttl r) = Inr ()"
  by (auto simp: cache_set_def on_error_def split: prod.splits sum.splits)

lemma cache_set_state:
  "snd (cache_set key v ttl r) =
     (if r_up r \<and> 0 < ttl then put key (RString (json_text v)) (Some (now_ms r + ttl * 1000)) r else r)"
  by (auto simp: cache_set_def redis_set_ex_def command_def on_error_def)

lemma cache_del_run: "cache_del key r = (Inr (), if r_up r then erase key r else r)"
  by (auto simp: cache_del_def redis_del_def command_def on_error_def and_then_def)

text \<open>What was set is what is read, until it expires.\<close>

lemma cache_set_get:
  assumes "r_up r" "0 < ttl" "int_numbers v" "us div 1000 < now_ms r + ttl * 1000"
  shows "cache_get key (at_time us (snd (cache_set key v ttl r)))
    = (Inr (Hit v), at_time us (snd (cache_set key v ttl r)))"
  using assms by (simp add: cache_get_cases cache_set_state live_put_later json_parse_text)

subsection \<open>The lock excludes\<close>

lemma lock_acquire_run:
  assumes "r_up r" "0 < ttl"
  shows "lock_acquire token name ttl r =
    (if live r name = None then (Inr (Some token), put name (RString token) (Some (now_ms r + ttl)) r)
     else (Inr None, r))"
  using assms by (simp add: lock_acquire_def redis_set_nx_px_def command_def and_then_def)

text \<open>
  The calls several holders make on one lock; each call comes with its instant. \<open>held\<close> says
  which token the lock answers to.
\<close>

datatype lock_call = Acquire string int | Release string

definition lock_call :: "string \<Rightarrow> lock_call \<Rightarrow> redis \<Rightarrow> redis" where
  "lock_call name c r =
     (case c of Acquire t ttl \<Rightarrow> snd (lock_acquire t name ttl r) | Release t \<Rightarrow> snd (lock_release name t r))"

fun lock_calls :: "string \<Rightarrow> (int \<times> lock_call) list \<Rightarrow> redis \<Rightarrow> redis" where
  "lock_calls name [] r = r"
| "lock_calls name ((us, c) # cs) r = lock_calls name cs (lock_call name c (at_time us r))"

lemma lock_call_keeps:
  assumes "live r name = Some (RString token)" "r_data r name = Some (RString token, Some e)"
    and "c \<noteq> Release token"
  shows "r_data (lock_call name c r) name = Some (RString token, Some e)
    \<and> r_us (lock_call name c r) = r_us r \<and> r_up (lock_call name c r) = r_up r"
  using assms
  by (cases c)
    (auto simp: lock_call_def lock_acquire_def lock_release_def redis_set_nx_px_def RELEASE_LUA_def
      command_def and_then_def on_error_def split: if_splits)

text \<open>C22: while a lock is held and its lifetime has not run out, nobody else acquires it and no
  release with another token frees it: after any calls by others the lock still answers to the
  holder.\<close>

theorem lock_exclusive:
  assumes "r_data r name = Some (RString token, Some e)"
    and "sorted (r_us r # map fst calls @ [us])" and "us div 1000 < e"
    and "\<forall>c \<in> set calls. snd c \<noteq> Release token"
  shows "live (at_time us (lock_calls name calls r)) name = Some (RString token)
    \<and> (r_up r \<longrightarrow> 0 < ttl \<longrightarrow>
         fst (lock_acquire other name ttl (at_time us (lock_calls name calls r))) = Inr None)"
  using assms
proof (induction calls arbitrary: r)
  case Nil
  then show ?case by (simp add: live_def now_ms_def at_time_def lock_acquire_run)
next
  case (Cons c calls)
  obtain t call where c: "c = (t, call)" by (cases c)
  have "t \<le> us" using Cons.prems(2) c by simp
  then have "t div 1000 < e" using Cons.prems(3) zdiv_mono1 [of t us 1000] by simp
  then have l: "live (at_time t r) name = Some (RString token)"
    using Cons.prems(1) by (simp add: live_def)
  have k: "r_data (lock_call name call (at_time t r)) name = Some (RString token, Some e)
      \<and> r_us (lock_call name call (at_time t r)) = t \<and> r_up (lock_call name call (at_time t r)) = r_up r"
    using lock_call_keeps [OF l, of e call] Cons.prems(1,4) c by simp
  show ?case
    using Cons.IH [of "lock_call name call (at_time t r)"] k Cons.prems c by simp
qed

theorem lock_exclusive_witness:
  "live (at_time 3000000 (lock_calls ''n'' [(1000000, Acquire ''u'' 100), (2000000, Release ''u'')]
      \<lparr>r_us = 0, r_up = True, r_data = [''n'' \<mapsto> (RString ''t'', Some 5000)]\<rparr>)) ''n'' = Some (RString ''t'')"
  using lock_exclusive [of "\<lparr>r_us = 0, r_up = True, r_data = [''n'' \<mapsto> (RString ''t'', Some 5000)]\<rparr>" "''n''" "''t''"
      5000 "[(1000000, Acquire ''u'' 100), (2000000, Release ''u'')]" 3000000 1 "''x''"]
  by simp

end
