(* ===== verification/ProductCards.thy ===== *)
theory ProductCards
  imports Products Cache
begin

text \<open>
  The product card: the aggregate of \<open>product-card.repository.ts\<close>, the keys of
  \<open>product-card.ts\<close> and the cache-aside service with single flight of
  \<open>product-card.service.ts\<close>.

  The service works on a \<open>shop\<close>: the database it reads, the cache it may have, and the process
  clock. \<open>None\<close> for the cache stands for \<open>cache\<close> and \<open>lock\<close> both \<open>null\<close> (Redis disabled).
  What other requests do while this one sleeps is the argument \<open>others\<close>; the loop takes fuel,
  and theory \<open>CardsCorrect\<close> shows how much is enough.
\<close>

record product_card =
  pc_id :: string
  pc_name :: string
  pc_priceCents :: int
  pc_currency :: string
  pc_stock :: int
  pc_unitsSold :: int
  pc_revenueCents :: int
  pc_ordersCount :: int

definition cardKey :: "int \<Rightarrow> string" where
  "cardKey productId = ''product:card:'' @ show_int productId"

definition cardLockKey :: "int \<Rightarrow> string" where
  "cardLockKey productId = ''lock:product:card:'' @ show_int productId"

text \<open>
  \<open>CARD_SQL\<close> and its row as a card: the sums over the order items of the product; \<open>::int\<close> of a
  sum beyond four bytes fails. The \<open>bigint\<close> revenue is text that \<open>Number\<close> reads.
\<close>

definition loadCard :: "int \<Rightarrow> product_card option db_action" where
  "loadCard productId =
     (if \<not> int4 productId then throw OUT_OF_RANGE
      else and_then (gets id) (\<lambda>s.
        case find (\<lambda>p. p_id p = productId) (products s) of
          None \<Rightarrow> ret None
        | Some p \<Rightarrow>
            (let ois = filter (\<lambda>oi. i_productId oi = productId) (order_items s);
                 units = sum_list (map i_quantity ois);
                 revenue = sum_list (map (\<lambda>oi. i_quantity oi * i_priceAtPurchaseCents oi) ois);
                 orders_n = int (length (remdups (map i_orderId ois)))
             in if int4 units
                then ret (Some \<lparr>pc_id = show_int (p_id p), pc_name = p_name p,
                    pc_priceCents = p_priceCents p, pc_currency = p_currency p, pc_stock = p_stock p,
                    pc_unitsSold = units, pc_revenueCents = revenue, pc_ordersCount = orders_n\<rparr>)
                else throw OUT_OF_RANGE)))"

definition json_int :: "int \<Rightarrow> json" where
  "json_int n = JNumber (Num (of_int n))"

text \<open>The value handed to the cache and to the client: the card's object, or \<open>null\<close>.\<close>

definition card_json :: "product_card option \<Rightarrow> json" where
  "card_json c =
     (case c of
        None \<Rightarrow> JNull
      | Some c \<Rightarrow> JObject
          [(''id'', JString (pc_id c)), (''name'', JString (pc_name c)),
           (''priceCents'', json_int (pc_priceCents c)), (''currency'', JString (pc_currency c)),
           (''stock'', json_int (pc_stock c)), (''unitsSold'', json_int (pc_unitsSold c)),
           (''revenueCents'', json_int (pc_revenueCents c)),
           (''ordersCount'', json_int (pc_ordersCount c))])"

record shop =
  sh_db :: db
  sh_cache :: "redis option"
  sh_now :: int

type_synonym 'a shop_action = "(shop, error, 'a) action"

text \<open>Running a database action, or an action of the cache that the service knows to be there.\<close>

definition on_db :: "'a db_action \<Rightarrow> 'a shop_action" where
  "on_db m = (\<lambda>w. let (x, d) = m (sh_db w) in (x, w\<lparr>sh_db := d\<rparr>))"

definition on_cache :: "'a redis_action \<Rightarrow> 'a shop_action" where
  "on_cache m = (\<lambda>w.
     case sh_cache w of
       None \<Rightarrow> (Inl (TypeError ''null''), w)
     | Some r \<Rightarrow> (let (x, r') = m r in (x, w\<lparr>sh_cache := Some r'\<rparr>)))"

definition loadAndStore :: "rat \<Rightarrow> int \<Rightarrow> json shop_action" where
  "loadAndStore random productId =
     and_then (on_db (loadCard productId)) (\<lambda>fresh.
     and_then
       (on_cache (cache_set (cardKey productId) (card_json fresh)
          (case fresh of
             Some _ \<Rightarrow> jitteredTtl CARD_TTL_BASE_SEC CARD_TTL_SPREAD_SEC random
           | None \<Rightarrow> NEGATIVE_TTL_SEC)))
       (\<lambda>_. ret (card_json fresh)))"

text \<open>
  The body after the lock was acquired: look again, load, and release the lock on every path
  (\<open>finally\<close>). A \<open>finally\<close> that completes leaves the outcome as it was.
\<close>

definition under_lock :: "rat \<Rightarrow> int \<Rightarrow> string \<Rightarrow> json shop_action" where
  "under_lock random productId token = (\<lambda>w.
     let (res, w1) =
           and_then (on_cache (cache_get (cardKey productId))) (\<lambda>again.
             case again of Hit v \<Rightarrow> ret v | Miss \<Rightarrow> loadAndStore random productId) w;
         (_, w2) = on_cache (lock_release (cardLockKey productId) token) w1
     in (res, w2))"

text \<open>
  The loop of \<open>loadOnMiss\<close>. Iteration \<open>n\<close> uses the token \<open>tokens n\<close>; after it fails to take
  the lock it sleeps, and \<open>others n\<close> is what happens meanwhile.
\<close>

fun lock_loop ::
  "nat \<Rightarrow> (nat \<Rightarrow> string) \<Rightarrow> (nat \<Rightarrow> shop \<Rightarrow> shop) \<Rightarrow> rat \<Rightarrow> int \<Rightarrow> int \<Rightarrow> nat
     \<Rightarrow> shop \<Rightarrow> ((error + json) \<times> shop) option"
where
  "lock_loop 0 tokens others random productId deadline n w = None"
| "lock_loop (Suc fuel) tokens others random productId deadline n w =
     (if sh_now w < deadline then
        (case on_cache (lock_acquire (tokens n) (cardLockKey productId) LOCK_TTL_MS) w of
           (Inl _, w1) \<Rightarrow> Some (loadAndStore random productId w1)
         | (Inr (Some token), w1) \<Rightarrow> Some (under_lock random productId token w1)
         | (Inr None, w1) \<Rightarrow>
             (let w2 = others n w1 in
              case on_cache (cache_get (cardKey productId)) w2 of
                (Inr (Hit v), w3) \<Rightarrow> Some (Inr v, w3)
              | (_, w3) \<Rightarrow> lock_loop fuel tokens others random productId deadline (Suc n) w3))
      else Some (loadAndStore random productId w))"

definition loadOnMiss ::
  "nat \<Rightarrow> bool \<Rightarrow> (nat \<Rightarrow> string) \<Rightarrow> (nat \<Rightarrow> shop \<Rightarrow> shop) \<Rightarrow> rat \<Rightarrow> int
     \<Rightarrow> shop \<Rightarrow> ((error + json) \<times> shop) option"
where
  "loadOnMiss fuel singleFlight tokens others random productId w =
     (if \<not> singleFlight then Some (loadAndStore random productId w)
      else lock_loop fuel tokens others random productId (sh_now w + LOCK_WAIT_BUDGET_MS) 0 w)"

definition getCard ::
  "nat \<Rightarrow> bool \<Rightarrow> (nat \<Rightarrow> string) \<Rightarrow> (nat \<Rightarrow> shop \<Rightarrow> shop) \<Rightarrow> rat \<Rightarrow> int
     \<Rightarrow> shop \<Rightarrow> ((error + json) \<times> shop) option"
where
  "getCard fuel singleFlight tokens others random productId w =
     (case sh_cache w of
        None \<Rightarrow> Some (and_then (on_db (loadCard productId)) (\<lambda>c. ret (card_json c)) w)
      | Some _ \<Rightarrow>
          (case on_cache (cache_get (cardKey productId)) w of
             (Inr (Hit v), w1) \<Rightarrow> Some (Inr v, w1)
           | (_, w1) \<Rightarrow> loadOnMiss fuel singleFlight tokens others random productId w1))"

definition invalidate :: "int \<Rightarrow> unit shop_action" where
  "invalidate productId = (\<lambda>w.
     case sh_cache w of None \<Rightarrow> (Inr (), w) | Some _ \<Rightarrow> on_cache (cache_del (cardKey productId)) w)"

text \<open>\<open>ProductsController.getCard\<close>.\<close>

definition products_getCard ::
  "nat \<Rightarrow> bool \<Rightarrow> (nat \<Rightarrow> string) \<Rightarrow> (nat \<Rightarrow> shop \<Rightarrow> shop) \<Rightarrow> rat \<Rightarrow> string
     \<Rightarrow> shop \<Rightarrow> ((error + json) \<times> shop) option"
where
  "products_getCard fuel singleFlight tokens others random productId w =
     (case (case int_of_num (js_Number productId) of
              Some n \<Rightarrow> if 0 < n then getCard fuel singleFlight tokens others random n w
                        else Some (Inr JNull, w)
            | None \<Rightarrow> Some (Inr JNull, w)) of
        None \<Rightarrow> None
      | Some (Inl e, w') \<Rightarrow> Some (Inl e, w')
      | Some (Inr c, w') \<Rightarrow>
          Some (if c = JNull then Inl (NotFoundException (''Product '' @ productId @ '' not found''))
                else Inr c, w'))"

end
