(* ===== verification/OrderEvents.thy ===== *)
theory OrderEvents
  imports Json Prelude
begin

text \<open>
  Status events: \<open>src/orders/order-events.service.ts\<close> and the SSE endpoint of
  \<open>orders.controller.ts\<close> that replays and streams them.

  The subject's subscribers are the open streams; what a stream has written to its response is
  the list of its chunks. The authorization in front of a stream is \<open>assertCanView\<close> (theory
  \<open>Orders\<close>).
\<close>

record order_status_event =
  se_id :: int
  se_orderId :: int
  se_status :: string

record order_stream =
  st_orderId :: int
  st_chunks :: "string list"

record order_events =
  history :: "order_status_event list"
  nextEventId :: int
  streams :: "(nat \<times> order_stream) list"

definition HISTORY_LIMIT :: nat where
  "HISTORY_LIMIT = 200"

definition new_order_events :: order_events where
  "new_order_events = \<lparr>history = [], nextEventId = 1, streams = []\<rparr>"

definition newline :: string where
  "newline = [char_of (10::nat)]"

definition event_text :: "order_status_event \<Rightarrow> string" where
  "event_text e =
     ''id: '' @ show_int (se_id e) @ newline @ ''event: order.status'' @ newline @ ''data: ''
     @ json_text (JObject [(''id'', JNumber (Num (of_int (se_orderId e)))),
                           (''status'', JString (se_status e))])
     @ newline @ newline"

definition writeEvent :: "order_status_event \<Rightarrow> order_stream \<Rightarrow> order_stream" where
  "writeEvent e st = st\<lparr>st_chunks := st_chunks st @ [event_text e]\<rparr>"

text \<open>The callback a stream subscribes with.\<close>

definition on_event :: "order_status_event \<Rightarrow> order_stream \<Rightarrow> order_stream" where
  "on_event e st = (if se_orderId e = st_orderId st then writeEvent e st else st)"

definition emitStatusChanged :: "int \<Rightarrow> string \<Rightarrow> order_events \<Rightarrow> order_status_event \<times> order_events" where
  "emitStatusChanged orderId status es =
     (let event = \<lparr>se_id = nextEventId es, se_orderId = orderId, se_status = status\<rparr>;
          pushed = history es @ [event];
          kept = (if HISTORY_LIMIT < length pushed then tl pushed else pushed)
      in (event,
          es\<lparr>history := kept, nextEventId := nextEventId es + 1,
             streams := map (\<lambda>(i, st). (i, on_event event st)) (streams es)\<rparr>))"

text \<open>\<open>event.id > lastEventId\<close>: false for a \<open>NaN\<close>.\<close>

fun id_after :: "int \<Rightarrow> jsnum \<Rightarrow> bool" where
  "id_after i (Num q) = (q < of_int i)"
| "id_after i NegInf = True"
| "id_after i _ = False"

definition getEventsAfter :: "jsnum \<Rightarrow> order_events \<Rightarrow> order_status_event list" where
  "getEventsAfter lastEventId es = filter (\<lambda>e. id_after (se_id e) lastEventId) (history es)"

definition subscribe :: "nat \<Rightarrow> order_stream \<Rightarrow> order_events \<Rightarrow> order_events" where
  "subscribe i st es = es\<lparr>streams := streams es @ [(i, st)]\<rparr>"

definition unsubscribe :: "nat \<Rightarrow> order_events \<Rightarrow> order_events" where
  "unsubscribe i es = es\<lparr>streams := filter (\<lambda>s. fst s \<noteq> i) (streams es)\<rparr>"

text \<open>
  \<open>streamEvents\<close> after the caller was let in: the retry hint, the events missed since the
  \<open>Last-Event-ID\<close> header, then the subscription. \<open>i\<close> names the connection.
\<close>

definition streamEvents :: "nat \<Rightarrow> int \<Rightarrow> string option \<Rightarrow> order_events \<Rightarrow> order_events" where
  "streamEvents i orderId lastEventIdHeader es =
     (let lastEventId = (case lastEventIdHeader of None \<Rightarrow> Num 0 | Some h \<Rightarrow> js_Number h);
          opened = \<lparr>st_orderId = orderId, st_chunks = [''retry: 1000'' @ newline @ newline]\<rparr>;
          replayed = fold on_event (getEventsAfter lastEventId es) opened
      in subscribe i replayed es)"

subsection \<open>The ring\<close>

fun emit_all :: "(int \<times> string) list \<Rightarrow> order_events \<Rightarrow> order_events" where
  "emit_all [] es = es"
| "emit_all ((oid, status) # cs) es = emit_all cs (snd (emitStatusChanged oid status es))"

text \<open>The events of a list of changes, numbered from \<open>n\<close>.\<close>

fun events_from :: "int \<Rightarrow> (int \<times> string) list \<Rightarrow> order_status_event list" where
  "events_from n [] = []"
| "events_from n ((oid, status) # cs) =
     \<lparr>se_id = n, se_orderId = oid, se_status = status\<rparr> # events_from (n + 1) cs"

definition last_n :: "nat \<Rightarrow> 'a list \<Rightarrow> 'a list" where
  "last_n n xs = drop (length xs - n) xs"

lemma events_from_length [simp]: "length (events_from n cs) = length cs"
  by (induction cs arbitrary: n) auto

lemma events_from_append:
  "events_from n (cs @ ds) = events_from n cs @ events_from (n + int (length cs)) ds"
  by (induction cs arbitrary: n) (auto simp: algebra_simps)

lemma events_from_drop:
  "drop k (events_from n cs) = events_from (n + int k) (drop k cs)"
  by (induction cs arbitrary: n k) (auto simp: drop_Cons' algebra_simps of_nat_diff)

lemma events_from_bounds:
  "e \<in> set (events_from n cs) \<Longrightarrow> n \<le> se_id e \<and> se_id e < n + int (length cs)"
  by (induction cs arbitrary: n) force+

lemma events_from_after:
  "k \<le> length cs \<Longrightarrow> filter (\<lambda>e. n + int k \<le> se_id e) (events_from n cs) = events_from (n + int k) (drop k cs)"
proof (induction cs arbitrary: n k)
  case (Cons c cs)
  obtain o1 s1 where c: "c = (o1, s1)" by (cases c)
  show ?case
  proof (cases k)
    case 0
    have "\<forall>e \<in> set (events_from (n + 1) cs). n \<le> se_id e"
      using events_from_bounds [of _ "n + 1" cs] by force
    then show ?thesis using 0 c by (simp add: filter_id_conv)
  next
    case (Suc j)
    then show ?thesis using Cons.IH [of j "n + 1"] Cons.prems c by (simp add: algebra_simps)
  qed
qed simp

lemma last_n_snoc:
  assumes "0 < n"
  shows "(if n < length (last_n n xs @ [x]) then tl (last_n n xs @ [x]) else last_n n xs @ [x])
    = last_n n (xs @ [x])"
proof (cases "length xs < n")
  case True
  then show ?thesis by (simp add: last_n_def)
next
  case False
  then have "length (last_n n xs) = n" by (simp add: last_n_def)
  moreover have "Suc (length xs) - n = Suc (length xs - n)" using False by simp
  moreover have "drop (length xs - n) xs \<noteq> []" using False assms by simp
  ultimately show ?thesis using False assms
    by (simp add: last_n_def tl_drop drop_Suc flip: drop_Suc)
qed

lemma emit_history:
  assumes "history es = last_n HISTORY_LIMIT (events_from 1 cs)" and "nextEventId es = 1 + int (length cs)"
  shows "history (snd (emitStatusChanged oid status es))
      = last_n HISTORY_LIMIT (events_from 1 (cs @ [(oid, status)]))
    \<and> nextEventId (snd (emitStatusChanged oid status es)) = 1 + int (length (cs @ [(oid, status)]))"
proof -
  let ?e = "\<lparr>se_id = nextEventId es, se_orderId = oid, se_status = status\<rparr>"
  have "last_n HISTORY_LIMIT (events_from 1 (cs @ [(oid, status)]))
      = last_n HISTORY_LIMIT (events_from 1 cs @ [?e])"
    by (simp add: events_from_append assms(2))
  moreover have "0 < HISTORY_LIMIT" by (simp add: HISTORY_LIMIT_def)
  ultimately show ?thesis
    using last_n_snoc [of HISTORY_LIMIT "events_from 1 cs" ?e] assms
    by (simp only: emitStatusChanged_def Let_def snd_conv order_events.simps length_append) simp
qed

lemma emit_all_history:
  assumes "history es = last_n HISTORY_LIMIT (events_from 1 cs)" and "nextEventId es = 1 + int (length cs)"
  shows "history (emit_all ds es) = last_n HISTORY_LIMIT (events_from 1 (cs @ ds))
    \<and> nextEventId (emit_all ds es) = 1 + int (length (cs @ ds))"
  using assms
proof (induction ds arbitrary: cs es)
  case (Cons d ds)
  obtain oid status where d: "d = (oid, status)" by (cases d)
  note step = emit_history [OF Cons.prems, of oid status]
  show ?case
    using Cons.IH [of "snd (emitStatusChanged oid status es)" "cs @ [(oid, status)]"] step d by simp
qed simp

subsection \<open>Streams\<close>

lemma fold_on_event:
  "fold on_event evs st
    = st\<lparr>st_chunks := st_chunks st @ map event_text (filter (\<lambda>e. se_orderId e = st_orderId st) evs)\<rparr>"
  by (induction evs arbitrary: st) (auto simp: on_event_def writeEvent_def)

lemma emit_streams:
  "map_of (streams es) i = Some st \<Longrightarrow>
   map_of (streams (snd (emitStatusChanged oid status es))) i
     = Some (on_event \<lparr>se_id = nextEventId es, se_orderId = oid, se_status = status\<rparr> st)"
  by (simp add: emitStatusChanged_def Let_def map_of_map)

lemma emit_all_stream:
  "map_of (streams es) i = Some st \<Longrightarrow>
   map_of (streams (emit_all ds es)) i = Some (fold on_event (events_from (nextEventId es) ds) st)"
proof (induction ds arbitrary: es st)
  case (Cons d ds)
  obtain oid status where d: "d = (oid, status)" by (cases d)
  have "nextEventId (snd (emitStatusChanged oid status es)) = nextEventId es + 1"
    by (simp add: emitStatusChanged_def Let_def)
  then show ?case using Cons.IH [OF emit_streams [OF Cons.prems, of oid status]] d by simp
qed simp

lemma missed_events:
  assumes "k \<le> length before" and "length before - k \<le> HISTORY_LIMIT"
    and "history es = last_n HISTORY_LIMIT (events_from 1 before)"
  shows "getEventsAfter (Num (of_int (int k))) es = events_from (1 + int k) (drop k before)"
proof -
  let ?j = "length before - HISTORY_LIMIT"
  have j: "?j \<le> k" using assms(2) by simp
  have sum: "(1 + int ?j) + int (k - ?j) = 1 + int k" using j by linarith
  have after: "id_after i (Num (of_int (int k))) \<longleftrightarrow> (1 + int ?j) + int (k - ?j) \<le> i" for i
    unfolding sum using of_int_less_iff [of "int k" i, where ?'a = rat]
    by (simp del: of_int_of_nat_eq) linarith
  have "getEventsAfter (Num (of_int (int k))) es
      = filter (\<lambda>e. (1 + int ?j) + int (k - ?j) \<le> se_id e) (events_from (1 + int ?j) (drop ?j before))"
    by (simp only: getEventsAfter_def assms(3) last_n_def events_from_drop events_from_length after)
  also have "\<dots> = events_from ((1 + int ?j) + int (k - ?j)) (drop (k - ?j) (drop ?j before))"
    using assms(1) j by (intro events_from_after) auto
  also have "\<dots> = events_from (1 + int k) (drop k before)"
    using j by simp
  finally show ?thesis .
qed

lemma emit_all_names: "fst ` set (streams (emit_all ds es)) = fst ` set (streams es)"
proof (induction ds arbitrary: es)
  case (Cons d ds)
  obtain oid status where "d = (oid, status)" by (cases d)
  then show ?case using Cons.IH by (force simp: emitStatusChanged_def Let_def)
qed simp



end
