(* ===== verification/Orders.thy ===== *)
theory Orders
  imports ProductCards Outbox OrderEvents
begin

text \<open>
  \<open>src/orders/orders.service.ts\<close>, its request bodies (\<open>src/orders/dto\<close>) and the handlers of
  \<open>orders.controller.ts\<close>.

  Operations that only touch PostgreSQL are database actions; the ones that also invalidate
  product cards or emit status events act on \<open>market\<close>, the shop with the event service. The
  hash \<open>sha256_hex\<close> of the crypto library and the e-mail check \<open>isEmail\<close> of the validation
  library are parameters; \<open>uuid\<close> and \<open>now\<close> are what the database and the clock yield for the
  new outbox row. A join returns the items in the order they were inserted.
\<close>

subsection \<open>Request bodies\<close>

text \<open>
  \<open>CreateOrderDto\<close> behind the validation pipe (whitelist, unknown members refused, instances of
  the classes): the object keeps the members in the order the client sent them. The value is
  what the service reads of it, \<open>None\<close> a refused body.
\<close>

definition order_item_dto :: "json \<Rightarrow> (string \<times> int) option" where
  "order_item_dto v =
     (case v of
        JObject ms \<Rightarrow>
          if distinct (map fst ms) \<and> set (map fst ms) \<subseteq> {''productId'', ''quantity''}
          then (case (map_of ms ''productId'', map_of ms ''quantity'') of
                  (Some (JString p), Some (JNumber x)) \<Rightarrow>
                    (case int_of_num x of
                       Some q \<Rightarrow> if p \<noteq> [] \<and> 1 \<le> q then Some (p, q) else None
                     | None \<Rightarrow> None)
                | _ \<Rightarrow> None)
          else None
      | _ \<Rightarrow> None)"

record create_order_dto =
  co_customerEmail :: string
  co_items :: "(string \<times> int) list"

definition create_order_dto_of :: "(string \<Rightarrow> bool) \<Rightarrow> json \<Rightarrow> create_order_dto option" where
  "create_order_dto_of isEmail body =
     (case body of
        JObject ms \<Rightarrow>
          if distinct (map fst ms) \<and> set (map fst ms) \<subseteq> {''customerEmail'', ''items''}
          then (case (map_of ms ''customerEmail'', map_of ms ''items'') of
                  (Some (JString e), Some (JArray xs)) \<Rightarrow>
                    if isEmail e \<and> xs \<noteq> [] \<and> (\<forall>x \<in> set xs. order_item_dto x \<noteq> None)
                    then Some \<lparr>co_customerEmail = e, co_items = map (\<lambda>x. the (order_item_dto x)) xs\<rparr>
                    else None
                | _ \<Rightarrow> None)
          else None
      | _ \<Rightarrow> None)"

definition ORDER_STATUSES :: "string list" where
  "ORDER_STATUSES =
     [''created'', ''pending'', ''paid'', ''packed'', ''shipped'', ''delivered'', ''cancelled'']"

subsection \<open>Orders as the service loads and returns them\<close>

record order_entity =
  oe_row :: order_row
  oe_items :: "(order_item_row \<times> product option) list"

record order_response =
  or_id :: string
  or_items :: "(string \<times> int) list"
  or_totalCents :: int
  or_currency :: string
  or_status :: string

definition load_order :: "db \<Rightarrow> order_row \<Rightarrow> order_entity" where
  "load_order s r =
     \<lparr>oe_row = r,
      oe_items = map (\<lambda>i. (i, find (\<lambda>p. p_id p = i_productId i) (products s)))
                   (filter (\<lambda>i. i_orderId i = o_id r) (order_items s))\<rparr>"

fun item_product :: "order_item_row \<times> product option \<Rightarrow> (db, error, product) action" where
  "item_product (i, Some p) = ret p"
| "item_product (i, None) = throw (TypeError ''null'')"

definition order_toResponse :: "order_entity \<Rightarrow> order_response db_action" where
  "order_toResponse entity =
     and_then
       (for_each (\<lambda>item. and_then (item_product item) (\<lambda>p. ret (show_int (p_id p), i_quantity (fst item))))
          (oe_items entity))
       (\<lambda>items. ret
          \<lparr>or_id = show_int (o_id (oe_row entity)), or_items = items,
           or_totalCents = o_totalCents (oe_row entity), or_currency = o_currency (oe_row entity),
           or_status = o_status (oe_row entity)\<rparr>)"

definition not_found :: "string \<Rightarrow> error" where
  "not_found orderId = NotFoundException (''Order '' @ orderId @ '' not found'')"

subsection \<open>Reading\<close>

definition roleOf :: "int \<Rightarrow> user_role option db_action" where
  "roleOf userId = and_then (find_user userId) (\<lambda>u. ret (map_option u_role u))"

definition orders_findAll ::
  "nat \<Rightarrow> string option \<Rightarrow> int \<Rightarrow> (order_response list \<times> string option) db_action" where
  "orders_findAll limit cursor actorId =
     (let afterId = after_id cursor in
      and_then (roleOf actorId) (\<lambda>role.
        let seesAll = (role = Some admin) in
        and_then (gets id) (\<lambda>s.
          case select_after o_id afterId (limit + 1)
                 (filter (\<lambda>o'. seesAll \<or> o_userId o' = Some actorId) (orders s)) of
            Inl e \<Rightarrow> throw e
          | Inr rows \<Rightarrow>
              (let (page, next_cursor) = page_of o_id (load_order s) limit rows in
               and_then (for_each order_toResponse page) (\<lambda>items. ret (items, next_cursor))))))"

definition orders_findOne :: "string \<Rightarrow> order_response db_action" where
  "orders_findOne orderId =
     (let i = js_Number orderId in
      and_then
        (if i = NaN then ret None
         else (case int_param i of
                 Inl e \<Rightarrow> throw e
               | Inr n \<Rightarrow> gets (\<lambda>s. map_option (load_order s) (find (\<lambda>o'. o_id o' = n) (orders s)))))
        (\<lambda>entity.
           case entity of
             None \<Rightarrow> throw (not_found orderId)
           | Some e \<Rightarrow> order_toResponse e))"

definition assertCanView :: "string \<Rightarrow> int \<Rightarrow> unit db_action" where
  "assertCanView orderId actorId =
     (let i = js_Number orderId in
      and_then (guard (is_integer i) (not_found orderId)) (\<lambda>_.
      and_then
        (case int_param i of
           Inl e \<Rightarrow> throw e
         | Inr n \<Rightarrow> gets (\<lambda>s. map o_userId (filter (\<lambda>o'. o_id o' = n) (orders s))))
        (\<lambda>rows.
           if rows = [] then throw (not_found orderId)
           else if hd rows = Some actorId then ret ()
           else and_then (roleOf actorId) (\<lambda>role.
             if role \<noteq> Some admin then throw (not_found orderId) else ret ()))))"

definition findOneFor :: "string \<Rightarrow> int \<Rightarrow> order_response db_action" where
  "findOneFor orderId actorId =
     and_then (assertCanView orderId actorId) (\<lambda>_. orders_findOne orderId)"

fun is_NotFoundException :: "error \<Rightarrow> bool" where
  "is_NotFoundException (NotFoundException _) = True"
| "is_NotFoundException _ = False"

definition canView :: "int \<Rightarrow> int \<Rightarrow> bool db_action" where
  "canView orderId actorId =
     on_error (and_then (assertCanView (show_int orderId) actorId) (\<lambda>_. ret True))
       (\<lambda>error. if is_NotFoundException error then ret False else throw error)"

subsection \<open>Creating\<close>

text \<open>The body of the loop over \<open>dto.items\<close>: the product of the item, priced now.\<close>

definition collect_item :: "string \<times> int \<Rightarrow> (product \<times> int) db_action" where
  "collect_item item =
     (let productId = js_Number (fst item) in
      and_then (if productId = NaN then ret None else find_product productId) (\<lambda>product.
        case product of
          None \<Rightarrow> throw (BadRequestException (''Product '' @ fst item @ '' not found''))
        | Some p \<Rightarrow> ret (p, snd item)))"

text \<open>\<open>manager.save(OrderEntity, order)\<close>: the order, then its items (cascade).\<close>

definition save_order ::
  "int option \<Rightarrow> string \<Rightarrow> string \<Rightarrow> int \<Rightarrow> string \<Rightarrow> (product \<times> int) list \<Rightarrow> order_entity db_action" where
  "save_order userId email status tot cur items =
     and_then (insert_order userId email status tot cur) (\<lambda>row.
     and_then
       (for_each (\<lambda>(p, q). and_then (insert_order_item (o_id row) (p_id p) q (p_priceCents p))
                             (\<lambda>r. ret (r, Some p))) items)
       (\<lambda>rows. ret \<lparr>oe_row = row, oe_items = rows\<rparr>))"

definition insertOrderWithEvent ::
  "string \<Rightarrow> int \<Rightarrow> create_order_dto \<Rightarrow> int option \<Rightarrow> order_entity db_action" where
  "insertOrderWithEvent uuid now dto userId =
     and_then (for_each collect_item (co_items dto)) (\<lambda>items.
       let totalCents = fold (\<lambda>(p, q) t. t + p_priceCents p * q) items 0;
           currency = fold (\<lambda>(p, q) _. p_currency p) items ''UAH''
       in
       and_then (save_order userId (co_customerEmail dto) ''created'' totalCents currency items) (\<lambda>saved.
       and_then
         (enqueueOrderPlaced uuid now
            \<lparr>ev_orderId = o_id (oe_row saved), ev_customerEmail = o_customerEmail (oe_row saved),
             ev_totalCents = o_totalCents (oe_row saved), ev_currency = o_currency (oe_row saved),
             ev_items = map (\<lambda>(p, q). (p_id p, q)) items\<rparr>)
         (\<lambda>_. ret saved)))"

definition invalidateCards :: "order_entity \<Rightarrow> unit shop_action" where
  "invalidateCards order =
     and_then (on_db (for_each item_product (oe_items order))) (\<lambda>ps.
     and_then (for_each invalidate (remdups (map p_id ps))) (\<lambda>_. ret ()))"

definition create ::
  "string \<Rightarrow> int \<Rightarrow> create_order_dto \<Rightarrow> int option \<Rightarrow> order_response shop_action" where
  "create uuid now dto userId =
     and_then (on_db (transaction (insertOrderWithEvent uuid now dto userId))) (\<lambda>saved.
     and_then (invalidateCards saved) (\<lambda>_. on_db (order_toResponse saved)))"

text \<open>
  The statements on \<open>idempotency_keys\<close>. A concurrent request with the same key waits in the
  first one until the other transaction ends, so a request sees the keys of committed requests
  only.
\<close>

definition claim_key :: "string \<Rightarrow> string \<Rightarrow> bool db_action" where
  "claim_key key request_hash =
     and_then (gets idempotency_keys) (\<lambda>ks.
       if key \<in> ik_key ` set ks then ret False
       else and_then (modify (\<lambda>s. s\<lparr>idempotency_keys := idempotency_keys s @
              [\<lparr>ik_key = key, ik_request_hash = request_hash, ik_order_id = None\<rparr>]\<rparr>))
              (\<lambda>_. ret True))"

definition find_key_row :: "string \<Rightarrow> idempotency_row option db_action" where
  "find_key_row key = gets (\<lambda>s. find (\<lambda>k. ik_key k = key) (idempotency_keys s))"

definition set_key_order :: "string \<Rightarrow> int \<Rightarrow> unit db_action" where
  "set_key_order key orderId =
     modify (\<lambda>s. s\<lparr>idempotency_keys :=
       map (\<lambda>k. if ik_key k = key then k\<lparr>ik_order_id := Some orderId\<rparr> else k) (idempotency_keys s)\<rparr>)"

datatype claim_outcome = Replay "idempotency_row option" | Created order_entity

definition namespaced_key :: "int option \<Rightarrow> string \<Rightarrow> string" where
  "namespaced_key userId clientKey =
     (case userId of None \<Rightarrow> clientKey | Some u \<Rightarrow> show_int u @ '':'' @ clientKey)"

definition claim_or_create ::
  "string \<Rightarrow> int \<Rightarrow> create_order_dto \<Rightarrow> string \<Rightarrow> string \<Rightarrow> int option \<Rightarrow> claim_outcome db_action" where
  "claim_or_create uuid now dto idempotencyKey requestHash userId =
     and_then (claim_key idempotencyKey requestHash) (\<lambda>claimed.
       if \<not> claimed then and_then (find_key_row idempotencyKey) (\<lambda>row. ret (Replay row))
       else
         and_then (insertOrderWithEvent uuid now dto userId) (\<lambda>saved.
         and_then (set_key_order idempotencyKey (o_id (oe_row saved))) (\<lambda>_. ret (Created saved))))"

text \<open>
  \<open>createIdempotent\<close>: \<open>body\<close> is the validated request body, \<open>dto\<close> what is read of it. The
  second component of the answer is \<open>replayed\<close>.
\<close>

definition createIdempotent ::
  "(string \<Rightarrow> string) \<Rightarrow> string \<Rightarrow> int \<Rightarrow> json \<Rightarrow> create_order_dto \<Rightarrow> string \<Rightarrow> int option
     \<Rightarrow> (order_response \<times> bool) shop_action"
where
  "createIdempotent sha256_hex uuid now body dto clientKey userId =
     (let idempotencyKey = namespaced_key userId clientKey;
          requestHash = sha256_hex (json_text body)
      in
      and_then (on_db (transaction (claim_or_create uuid now dto idempotencyKey requestHash userId)))
        (\<lambda>outcome.
           case outcome of
             Created saved \<Rightarrow>
               and_then (invalidateCards saved) (\<lambda>_.
               and_then (on_db (order_toResponse saved)) (\<lambda>order. ret (order, False)))
           | Replay None \<Rightarrow> throw (TypeError ''undefined'')
           | Replay (Some existing) \<Rightarrow>
               if ik_request_hash existing \<noteq> requestHash
               then throw (UnprocessableEntityException
                 ''Idempotency-Key already used with a different request body'')
               else and_then
                 (on_db (orders_findOne
                    (case ik_order_id existing of None \<Rightarrow> ''null'' | Some i \<Rightarrow> show_int i)))
                 (\<lambda>order. ret (order, True))))"

text \<open>
  The controller's \<open>create\<close> behind its guards: the body goes through the pipe, then the header
  is checked. The answer is the order and whether \<open>Idempotency-Replay\<close> is set.
\<close>

definition post_order ::
  "(string \<Rightarrow> string) \<Rightarrow> (string \<Rightarrow> bool) \<Rightarrow> string \<Rightarrow> int \<Rightarrow> json \<Rightarrow> string option \<Rightarrow> int
     \<Rightarrow> (order_response \<times> bool) shop_action"
where
  "post_order sha256_hex isEmail uuid now body idempotencyKey userId =
     (case create_order_dto_of isEmail body of
        None \<Rightarrow> throw (BadRequestException ''validation'')
      | Some dto \<Rightarrow>
          (case idempotencyKey of
             None \<Rightarrow> throw (BadRequestException ''Idempotency-Key header is required'')
           | Some k \<Rightarrow>
               if k = [] then throw (BadRequestException ''Idempotency-Key header is required'')
               else createIdempotent sha256_hex uuid now body dto k (Some userId)))"

subsection \<open>Changing the status\<close>

record market =
  mk_shop :: shop
  mk_events :: order_events

type_synonym 'a market_action = "(market, error, 'a) action"

definition in_shop :: "'a shop_action \<Rightarrow> 'a market_action" where
  "in_shop m = (\<lambda>k. let (x, w) = m (mk_shop k) in (x, k\<lparr>mk_shop := w\<rparr>))"

text \<open>\<open>UPDATE orders SET status WHERE id\<close>, returning the number of rows affected.\<close>

definition with_status :: "int \<Rightarrow> string \<Rightarrow> order_row list \<Rightarrow> order_row list" where
  "with_status orderId status rs =
     map (\<lambda>o'. if o_id o' = orderId then o'\<lparr>o_status := status\<rparr> else o') rs"

definition set_order_status :: "int \<Rightarrow> string \<Rightarrow> nat db_action" where
  "set_order_status orderId status =
     and_then (gets (\<lambda>s. length (filter (\<lambda>o'. o_id o' = orderId) (orders s)))) (\<lambda>affected.
     and_then (modify (\<lambda>s. s\<lparr>orders := with_status orderId status (orders s)\<rparr>))
       (\<lambda>_. ret affected))"

definition updateStatus :: "string \<Rightarrow> string \<Rightarrow> order_response market_action" where
  "updateStatus orderId status =
     (let i = js_Number orderId in
      and_then (guard (i \<noteq> NaN) (not_found orderId)) (\<lambda>_.
        case int_param i of
          Inl e \<Rightarrow> throw e
        | Inr n \<Rightarrow>
            and_then (in_shop (on_db (set_order_status n status))) (\<lambda>affected.
            and_then (guard (affected \<noteq> 0) (not_found orderId)) (\<lambda>_.
            and_then (modify (\<lambda>k. k\<lparr>mk_events := snd (emitStatusChanged n status (mk_events k))\<rparr>)) (\<lambda>_.
              in_shop (on_db (orders_findOne orderId)))))))"

text \<open>The handlers \<open>updateStatus\<close> (its body is validated) and \<open>streamEvents\<close>.\<close>

definition patch_status :: "string \<Rightarrow> string \<Rightarrow> order_response market_action" where
  "patch_status orderId status =
     (if status \<in> set ORDER_STATUSES then updateStatus orderId status
      else throw (BadRequestException ''validation''))"

definition open_stream :: "nat \<Rightarrow> string \<Rightarrow> string option \<Rightarrow> int \<Rightarrow> unit market_action" where
  "open_stream i orderId lastEventId userId =
     and_then (in_shop (on_db (assertCanView orderId userId))) (\<lambda>_.
       case int_of_num (js_Number orderId) of
         None \<Rightarrow> ret ()
       | Some n \<Rightarrow> modify (\<lambda>k. k\<lparr>mk_events := streamEvents i n lastEventId (mk_events k)\<rparr>))"

subsection \<open>Reading does not write\<close>

lemma keeps_item_product [keeps_intro]: "keeps P (item_product i)"
  by (cases i rule: item_product.cases) (simp_all add: keeps_intro)

lemma keeps_reads [keeps_intro]:
  "keeps P (order_toResponse e)" "keeps P (roleOf u)" "keeps P (orders_findOne oid)"
  "keeps P (assertCanView oid a)" "keeps P (findOneFor oid a)" "keeps P (orders_findAll n c a)"
proof -
  show r: "keeps P (order_toResponse e)" for e
    unfolding order_toResponse_def by (intro keeps_intro)
  show u: "keeps P (roleOf u)" for u
    unfolding roleOf_def by (intro keeps_intro)
  show one: "keeps P (orders_findOne oid)"
    unfolding orders_findOne_def Let_def
    by (intro keeps_intro r) (auto split: sum.splits intro: keeps_intro)
  show can: "keeps P (assertCanView oid a)"
    unfolding assertCanView_def Let_def
    by (intro keeps_intro u) (auto split: sum.splits intro: keeps_intro)
  show "keeps P (findOneFor oid a)"
    unfolding findOneFor_def by (intro keeps_intro one can)
  show "keeps P (orders_findAll n c a)"
    unfolding orders_findAll_def Let_def
    by (intro keeps_intro u) (auto split: sum.splits prod.splits intro: keeps_intro r)
qed

lemma keeps_collect_item [keeps_intro]: "keeps P (collect_item item)"
  unfolding collect_item_def Let_def by (intro keeps_intro)

lemmas read_final [simp] =
  keeps_all_final [OF keeps_reads(1)] keeps_all_final [OF keeps_reads(2)]
  keeps_all_final [OF keeps_reads(3)] keeps_all_final [OF keeps_reads(4)]
  keeps_all_final [OF keeps_reads(5)] keeps_all_final [OF keeps_reads(6)]

subsection \<open>The response of an order\<close>

definition order_view :: "order_entity \<Rightarrow> order_response" where
  "order_view e =
     \<lparr>or_id = show_int (o_id (oe_row e)),
      or_items = map (\<lambda>(i, p). (show_int (i_productId i), i_quantity i)) (oe_items e),
      or_totalCents = o_totalCents (oe_row e), or_currency = o_currency (oe_row e),
      or_status = o_status (oe_row e)\<rparr>"

definition joined :: "order_entity \<Rightarrow> bool" where
  "joined e \<longleftrightarrow> (\<forall>(i, p) \<in> set (oe_items e). \<exists>q. p = Some q \<and> p_id q = i_productId i)"

lemma order_toResponse_run:
  assumes "joined e"
  shows "order_toResponse e s = (Inr (order_view e), s)"
proof -
  have "for_each (\<lambda>item. and_then (item_product item) (\<lambda>p. ret (show_int (p_id p), i_quantity (fst item))))
      (oe_items e) s = (Inr (map (\<lambda>(i, p). (show_int (i_productId i), i_quantity i)) (oe_items e)), s)"
    using assms by (intro for_each_ret) (force simp: joined_def and_then_def)
  then show ?thesis by (simp add: order_toResponse_def order_view_def)
qed

lemma joined_load: "db_wf s \<Longrightarrow> joined (load_order s r)"
proof -
  assume wf: "db_wf s"
  have "\<exists>q. find (\<lambda>p. p_id p = i_productId i) (products s) = Some q \<and> p_id q = i_productId i"
    if i: "i \<in> set (order_items s)" for i
  proof -
    have ref: "i_productId i \<in> p_id ` set (products s)"
      using wf i by (auto simp: db_wf_defs)
    then have "find (\<lambda>p. p_id p = i_productId i) (products s) \<noteq> None"
      by (auto simp: find_None_iff)
    then show ?thesis by (auto dest: find_Some_in)
  qed
  then show ?thesis by (auto simp: joined_def load_order_def)
qed

lemma order_view_load:
  "order_view (load_order s r) =
     \<lparr>or_id = show_int (o_id r),
      or_items = map (\<lambda>i. (show_int (i_productId i), i_quantity i))
                   (filter (\<lambda>i. i_orderId i = o_id r) (order_items s)),
      or_totalCents = o_totalCents r, or_currency = o_currency r, or_status = o_status r\<rparr>"
  by (simp add: order_view_def load_order_def comp_def)

lemma find_order:
  assumes "db_wf s" "r \<in> set (orders s)"
  shows "find (\<lambda>o'. o_id o' = o_id r) (orders s) = Some r" "int4 (o_id r)"
proof -
  have ser: "serial (map o_id (orders s)) (seq_orders s)" using assms(1) by (simp add: db_wf_defs)
  show "find (\<lambda>o'. o_id o' = o_id r) (orders s) = Some r"
    using serial_distinct [OF ser] assms(2) by (rule find_key)
  show "int4 (o_id r)" using ser assms(2) by (auto simp: serial_def)
qed

lemma orders_findOne_present:
  assumes "db_wf s" "r \<in> set (orders s)"
  shows "orders_findOne (show_int (o_id r)) s = (Inr (order_view (load_order s r)), s)"
  using find_order [OF assms] order_toResponse_run [OF joined_load [OF assms(1)]]
  by (simp add: orders_findOne_def js_Number_show_int_all int_param_int and_then_def)

subsection \<open>What a placed order is\<close>

text \<open>
  The specification of an insertion: one order whose total is the sum of its items at the prices
  of their products, its items, and one outbox row that says the same.
\<close>

definition items_total :: "order_item_row list \<Rightarrow> int" where
  "items_total is = (\<Sum>i\<leftarrow>is. i_priceAtPurchaseCents i * i_quantity i)"

definition event_of :: "order_row \<Rightarrow> order_item_row list \<Rightarrow> order_placed_data" where
  "event_of r is =
     \<lparr>ev_orderId = o_id r, ev_customerEmail = o_customerEmail r, ev_totalCents = o_totalCents r,
      ev_currency = o_currency r, ev_items = map (\<lambda>i. (i_productId i, i_quantity i)) is\<rparr>"

definition outbox_row_of :: "string \<Rightarrow> int \<Rightarrow> int \<Rightarrow> order_row \<Rightarrow> order_item_row list \<Rightarrow> outbox_row" where
  "outbox_row_of uuid now created r is =
     \<lparr>ob_id = uuid, ob_aggregate_type = AGGREGATE_ORDER, ob_aggregate_id = show_int (o_id r),
      ob_type = ROUTING_KEY_ORDER_PLACED, ob_payload = buildOrderPlacedEvent (event_of r is) now,
      ob_created_at = created, ob_published_at = None, ob_attempts = 0\<rparr>"

definition placed ::
  "string \<Rightarrow> int \<Rightarrow> create_order_dto \<Rightarrow> int option \<Rightarrow> db \<Rightarrow> order_entity \<Rightarrow> db \<Rightarrow> bool" where
  "placed uuid now dto userId s e s' \<longleftrightarrow>
     (let r = oe_row e; is = map fst (oe_items e) in
      o_id r = seq_orders s \<and> o_userId r = userId \<and> o_customerEmail r = co_customerEmail dto
      \<and> o_status r = ''created'' \<and> o_totalCents r = items_total is
      \<and> int4 (o_totalCents r) \<and> o_currency r \<in> insert ''UAH'' (p_currency ` set (products s))
      \<and> list_all2 (\<lambda>(t, q) (i, p). i_quantity i = q \<and> i_orderId i = o_id r
           \<and> (\<exists>p'. p = Some p' \<and> p' \<in> set (products s) \<and> js_Number t = Num (of_int (p_id p'))
                 \<and> i_productId i = p_id p' \<and> i_priceAtPurchaseCents i = p_priceCents p'))
           (co_items dto) (oe_items e)
      \<and> s' = s\<lparr>orders := orders s @ [r], seq_orders := seq_orders s + 1,
                order_items := order_items s @ is, seq_items := seq_items s + int (length is),
                outbox := outbox s @ [outbox_row_of uuid now (clock s) r is]\<rparr>)"

lemma collect_items_ok:
  "for_each collect_item its s = (Inr items, s') \<Longrightarrow>
     s' = s \<and> list_all2 (\<lambda>(t, q) (p, q'). q' = q \<and> p \<in> set (products s)
                 \<and> js_Number t = Num (of_int (p_id p))) its items"
proof (induction its arbitrary: items s')
  case (Cons it its)
  obtain y ys where y: "collect_item it s = (Inr y, s)" and ys: "for_each collect_item its s = (Inr ys, s')"
    and items: "items = y # ys"
  proof (rule for_each_ConsE [OF Cons.prems])
    fix y t ys'
    assume "collect_item it s = (Inr y, t)" "for_each collect_item its t = (Inr ys', s')" "items = y # ys'"
    moreover from this have "t = s"
      using keeps_all_run [OF keeps_collect_item, of it s] by simp
    ultimately show thesis using that by blast
  qed
  obtain t q where it: "it = (t, q)" by (cases it)
  have "find_product (js_Number t) s = (Inr (Some (fst y)), s) \<and> snd y = q"
    using y it find_product_state [of "js_Number t" s]
    by (auto simp: collect_item_def Let_def and_then_ok_iff find_product_def
        split: if_splits option.splits sum.splits)
  then have "fst y \<in> set (products s) \<and> js_Number t = Num (of_int (p_id (fst y))) \<and> snd y = q"
    by (auto simp: find_product_def split: sum.splits dest: int_param_ok find_Some_in)
  then show ?case using Cons.IH [OF ys] items it by (cases y) auto
qed simp

lemma save_items_ok:
  "for_each (\<lambda>(p, q). and_then (insert_order_item oid (p_id p) q (p_priceCents p)) (\<lambda>r. ret (r, Some p)))
     items s = (Inr rows, s') \<Longrightarrow>
   s' = s\<lparr>order_items := order_items s @ map fst rows, seq_items := seq_items s + int (length rows)\<rparr>
   \<and> list_all2 (\<lambda>(p, q) (i, po). po = Some p \<and> i_quantity i = q \<and> i_orderId i = oid
       \<and> i_productId i = p_id p \<and> i_priceAtPurchaseCents i = p_priceCents p) items rows"
proof (induction items arbitrary: s rows)
  case (Cons x items)
  obtain p q where x: "x = (p, q)" by (cases x)
  obtain r s1 rows' where r: "insert_order_item oid (p_id p) q (p_priceCents p) s = (Inr r, s1)"
    and rest: "for_each (\<lambda>(p, q). and_then (insert_order_item oid (p_id p) q (p_priceCents p))
        (\<lambda>r. ret (r, Some p))) items s1 = (Inr rows', s')"
    and rows: "rows = (r, Some p) # rows'"
    using Cons.prems x by (elim for_each_ConsE) (simp only: case_prod_conv, elim and_then_retE, blast)
  show ?case using Cons.IH [OF rest] insert_order_item_ok [OF r] rows x by auto
qed simp

lemma total_fold:
  "fold (\<lambda>(p, q) t. t + p_priceCents p * q) items t0 = t0 + (\<Sum>(p, q)\<leftarrow>items. p_priceCents p * q)"
  by (induction items arbitrary: t0) auto

lemma placed_items:
  assumes "list_all2 (\<lambda>(t, q) (p, q'). q' = q \<and> p \<in> set ps \<and> js_Number t = Num (of_int (p_id p))) its items"
    and "list_all2 (\<lambda>(p, q) (i, po). po = Some p \<and> i_quantity i = q \<and> i_orderId i = oid
       \<and> i_productId i = p_id p \<and> i_priceAtPurchaseCents i = p_priceCents p) items rows"
  shows "list_all2 (\<lambda>(t, q) (i, p). i_quantity i = q \<and> i_orderId i = oid
           \<and> (\<exists>p'. p = Some p' \<and> p' \<in> set ps \<and> js_Number t = Num (of_int (p_id p'))
                 \<and> i_productId i = p_id p' \<and> i_priceAtPurchaseCents i = p_priceCents p')) its rows"
    and "items_total (map fst rows) = (\<Sum>(p, q)\<leftarrow>items. p_priceCents p * q)"
    and "map (\<lambda>i. (i_productId i, i_quantity i)) (map fst rows) = map (\<lambda>(p, q). (p_id p, q)) items"
    and "fold (\<lambda>(p, q) _. p_currency p) items c \<in> insert c (p_currency ` set ps)"
proof -
  show "list_all2 (\<lambda>(t, q) (i, p). i_quantity i = q \<and> i_orderId i = oid
           \<and> (\<exists>p'. p = Some p' \<and> p' \<in> set ps \<and> js_Number t = Num (of_int (p_id p'))
                 \<and> i_productId i = p_id p' \<and> i_priceAtPurchaseCents i = p_priceCents p')) its rows"
    using assms by (rule list_all2_trans [rotated 1]) auto
  show "items_total (map fst rows) = (\<Sum>(p, q)\<leftarrow>items. p_priceCents p * q)"
    using assms(2) by (induction rule: list_all2_induct) (auto simp: items_total_def)
  show "map (\<lambda>i. (i_productId i, i_quantity i)) (map fst rows) = map (\<lambda>(p, q). (p_id p, q)) items"
    using assms(2) by (induction rule: list_all2_induct) auto
  show "fold (\<lambda>(p, q) _. p_currency p) items c \<in> insert c (p_currency ` set ps)"
    using assms(1) by (induction its items arbitrary: c rule: list_all2_induct) fastforce+
qed

lemma insertOrderWithEvent_ok:
  assumes "insertOrderWithEvent uuid now dto userId s = (Inr e, s')"
  shows "placed uuid now dto userId s e s' \<and> uuid \<notin> ob_id ` set (outbox s)"
proof -
  obtain items where items: "for_each collect_item (co_items dto) s = (Inr items, s)"
    and c: "list_all2 (\<lambda>(t, q) (p, q'). q' = q \<and> p \<in> set (products s)
                 \<and> js_Number t = Num (of_int (p_id p))) (co_items dto) items"
    and rest: "(let totalCents = fold (\<lambda>(p, q) t. t + p_priceCents p * q) items 0;
           currency = fold (\<lambda>(p, q) _. p_currency p) items ''UAH''
       in
       and_then (save_order userId (co_customerEmail dto) ''created'' totalCents currency items) (\<lambda>saved.
       and_then
         (enqueueOrderPlaced uuid now
            \<lparr>ev_orderId = o_id (oe_row saved), ev_customerEmail = o_customerEmail (oe_row saved),
             ev_totalCents = o_totalCents (oe_row saved), ev_currency = o_currency (oe_row saved),
             ev_items = map (\<lambda>(p, q). (p_id p, q)) items\<rparr>)
         (\<lambda>_. ret saved))) s = (Inr e, s')"
    using assms unfolding insertOrderWithEvent_def
    by (elim and_then_okE) (blast dest: collect_items_ok)
  obtain s1 where save: "save_order userId (co_customerEmail dto) ''created''
        (fold (\<lambda>(p, q) t. t + p_priceCents p * q) items 0)
        (fold (\<lambda>(p, q) _. p_currency p) items ''UAH'') items s = (Inr e, s1)"
    and enq: "\<exists>ev. enqueueOrderPlaced uuid now
            \<lparr>ev_orderId = o_id (oe_row e), ev_customerEmail = o_customerEmail (oe_row e),
             ev_totalCents = o_totalCents (oe_row e), ev_currency = o_currency (oe_row e),
             ev_items = map (\<lambda>(p, q). (p_id p, q)) items\<rparr> s1 = (Inr ev, s')"
    using rest unfolding Let_def by (elim and_then_okE and_then_retE) blast
  obtain row s0 rows where row: "insert_order userId (co_customerEmail dto) ''created''
        (fold (\<lambda>(p, q) t. t + p_priceCents p * q) items 0)
        (fold (\<lambda>(p, q) _. p_currency p) items ''UAH'') s = (Inr row, s0)"
    and rows: "for_each (\<lambda>(p, q). and_then (insert_order_item (o_id row) (p_id p) q (p_priceCents p))
                             (\<lambda>r. ret (r, Some p))) items s0 = (Inr rows, s1)"
    and e: "e = \<lparr>oe_row = row, oe_items = rows\<rparr>"
    using save unfolding save_order_def by (elim and_then_okE and_then_retE) blast
  note ok = save_items_ok [OF rows]
  note pi = placed_items [OF c conjunct2 [OF ok]]
  obtain ev where ev: "enqueueOrderPlaced uuid now (event_of row (map fst rows)) s1 = (Inr ev, s')"
    using enq pi(3) by (auto simp: e event_of_def)
  obtain ob where ob: "s' = s1\<lparr>outbox := outbox s1 @ [ob]\<rparr>"
      "ob = outbox_row_of uuid now (clock s1) row (map fst rows)" "uuid \<notin> ob_id ` set (outbox s1)"
    using enqueue_ok [OF ev] by (auto simp: outbox_row_of_def event_of_def)
  show ?thesis
    using insert_order_ok [OF row] ok pi(1,2) pi(4) [of "''UAH''"] ob
    by (simp add: placed_def e total_fold)
qed

lemma forward_insertOrder [forward_intro]: "forward (insertOrderWithEvent uuid now dto userId)"
  unfolding insertOrderWithEvent_def save_order_def collect_item_def Let_def
  by (intro forward_intro) (auto intro!: forward_intro split: prod.splits)

lemma keeps_db_wf_insertOrder [keeps_intro]: "keeps db_wf (insertOrderWithEvent uuid now dto userId)"
  unfolding insertOrderWithEvent_def save_order_def Let_def
  by (intro keeps_intro) (auto intro!: keeps_intro split: prod.splits)

subsection \<open>Later databases\<close>

text \<open>
  \<open>later s s'\<close>: what the program never undoes. An idempotency key that has an order keeps it, an
  order keeps everything but its status, its items stay as they are, and products stay.
\<close>

abbreviation items_of :: "db \<Rightarrow> order_row \<Rightarrow> order_item_row list" where
  "items_of s r \<equiv> filter (\<lambda>i. i_orderId i = o_id r) (order_items s)"

definition order_kept :: "db \<Rightarrow> db \<Rightarrow> order_row \<Rightarrow> bool" where
  "order_kept s s' r \<longleftrightarrow> (\<exists>st. r\<lparr>o_status := st\<rparr> \<in> set (orders s')) \<and> items_of s' r = items_of s r"

definition later :: "db \<Rightarrow> db \<Rightarrow> bool" where
  "later s s' \<longleftrightarrow>
     (\<forall>k \<in> set (idempotency_keys s). ik_order_id k \<noteq> None \<longrightarrow> k \<in> set (idempotency_keys s'))
     \<and> (\<forall>r \<in> set (orders s). order_kept s s' r)
     \<and> p_id ` set (products s) \<subseteq> p_id ` set (products s')"

definition since :: "db \<Rightarrow> db \<Rightarrow> bool" where
  "since s0 s \<longleftrightarrow> db_wf s \<and> later s0 s"

lemma order_kept_same: "r \<in> set (orders s') \<Longrightarrow> items_of s' r = items_of s r \<Longrightarrow> order_kept s s' r"
proof -
  assume "r \<in> set (orders s')" "items_of s' r = items_of s r"
  moreover have "r\<lparr>o_status := o_status r\<rparr> = r" by simp
  ultimately show ?thesis unfolding order_kept_def by metis
qed

lemma order_kept_trans:
  assumes "order_kept s t r" "\<And>r. r \<in> set (orders t) \<Longrightarrow> order_kept t u r"
  shows "order_kept s u r"
proof -
  obtain x where x: "r\<lparr>o_status := x\<rparr> \<in> set (orders t)" "items_of t r = items_of s r"
    using assms(1) unfolding order_kept_def by blast
  from assms(2) [OF x(1)] obtain y where y: "(r\<lparr>o_status := x\<rparr>)\<lparr>o_status := y\<rparr> \<in> set (orders u)"
    and i: "items_of u (r\<lparr>o_status := x\<rparr>) = items_of t (r\<lparr>o_status := x\<rparr>)"
    unfolding order_kept_def by blast
  have "r\<lparr>o_status := y\<rparr> \<in> set (orders u)" using y by simp
  moreover have "items_of u r = items_of s r" using i x(2) by simp
  ultimately show ?thesis unfolding order_kept_def by blast
qed

lemma later_same_rows:
  "idempotency_keys s' = idempotency_keys s \<Longrightarrow> orders s' = orders s \<Longrightarrow>
   order_items s' = order_items s \<Longrightarrow> p_id ` set (products s) \<subseteq> p_id ` set (products s') \<Longrightarrow> later s s'"
  by (simp add: later_def order_kept_same)

lemma later_refl [simp]: "later s s"
  by (rule later_same_rows) simp_all

lemma later_trans: "later s t \<Longrightarrow> later t u \<Longrightarrow> later s u"
  unfolding later_def by (meson order_kept_trans subset_trans)

lemma since_rolled_back:
  assumes "since s0 s" "seqs_le s t"
  shows "since s0 (rolled_back s t)"
proof -
  have "later s (rolled_back s t)" by (rule later_same_rows) simp_all
  then show ?thesis
    using assms db_wf_rolled_back later_trans unfolding since_def by blast
qed

lemma placed_rows:
  assumes "placed uuid now dto userId s e s'" "(i, p) \<in> set (oe_items e)"
  shows "i_orderId i = o_id (oe_row e) \<and> (\<exists>p'. p = Some p' \<and> p_id p' = i_productId i)"
proof -
  have "list_all2 (\<lambda>(t, q) (i, p). i_quantity i = q \<and> i_orderId i = o_id (oe_row e)
           \<and> (\<exists>p'. p = Some p' \<and> p' \<in> set (products s) \<and> js_Number t = Num (of_int (p_id p'))
                 \<and> i_productId i = p_id p' \<and> i_priceAtPurchaseCents i = p_priceCents p'))
           (co_items dto) (oe_items e)"
    using assms(1) unfolding placed_def Let_def by blast
  from list_all2_right [OF this assms(2)] show ?thesis by (clarsimp split: prod.splits)
qed

lemma placed_tables:
  assumes "placed uuid now dto userId s e s'"
  shows "orders s' = orders s @ [oe_row e]" "idempotency_keys s' = idempotency_keys s"
    "products s' = products s" "users s' = users s"
    "order_items s' = order_items s @ map fst (oe_items e)" "o_id (oe_row e) = seq_orders s"
    "outbox s' = outbox s @ [outbox_row_of uuid now (clock s) (oe_row e) (map fst (oe_items e))]"
  using assms by (simp_all add: placed_def Let_def)

lemma placed_new_items:
  assumes "placed uuid now dto userId s e s'" "db_wf s"
  shows "items_of s' (oe_row e) = map fst (oe_items e)"
    and "r \<in> set (orders s) \<Longrightarrow> items_of s' r = items_of s r"
    and "o_id (oe_row e) \<notin> o_id ` set (orders s)"
proof -
  have ids: "\<forall>i \<in> set (map fst (oe_items e)). i_orderId i = o_id (oe_row e)"
    using placed_rows [OF assms(1)] by fastforce
  show fresh: "o_id (oe_row e) \<notin> o_id ` set (orders s)"
    using assms(2) placed_tables(6) [OF assms(1)] serial_fresh [of "map o_id (orders s)"]
    by (simp add: db_wf_defs)
  have "\<forall>i \<in> set (order_items s). i_orderId i \<in> o_id ` set (orders s)"
    using assms(2) by (simp add: db_wf_defs)
  then have old: "filter (\<lambda>i. i_orderId i = o_id (oe_row e)) (order_items s) = []"
    using fresh unfolding filter_empty_conv by metis
  show "items_of s' (oe_row e) = map fst (oe_items e)"
    using placed_tables(5) [OF assms(1)] old ids by (simp add: filter_id_conv)
  show "items_of s' r = items_of s r" if r: "r \<in> set (orders s)"
  proof -
    have "o_id r \<noteq> o_id (oe_row e)" using fresh r by (metis imageI)
    then have "filter (\<lambda>i. i_orderId i = o_id r) (map fst (oe_items e)) = []"
      using ids by (auto simp: filter_empty_conv)
    then show ?thesis using placed_tables(5) [OF assms(1)] by simp
  qed
qed

lemma later_placed: "placed uuid now dto userId s e s' \<Longrightarrow> db_wf s \<Longrightarrow> later s s'"
proof -
  assume p: "placed uuid now dto userId s e s'" and wf: "db_wf s"
  have "order_kept s s' r" if "r \<in> set (orders s)" for r
    using that placed_tables(1) [OF p] placed_new_items(2) [OF p wf] by (simp add: order_kept_same)
  then show ?thesis
    using placed_tables [OF p] by (simp add: later_def)
qed

lemma joined_placed: "placed uuid now dto userId s e s' \<Longrightarrow> joined e"
  by (auto simp: joined_def dest!: placed_rows)

subsection \<open>Claiming a key\<close>

lemma claim_or_create_replay:
  assumes "claim_or_create uuid now dto key h userId s = (Inr (Replay row), s')"
  shows "s' = s \<and> key \<in> ik_key ` set (idempotency_keys s)
    \<and> row = find (\<lambda>k. ik_key k = key) (idempotency_keys s)"
  using assms unfolding claim_or_create_def claim_key_def find_key_row_def
  by (auto simp: and_then_ok_iff split: if_splits)

lemma claim_or_create_created:
  assumes "claim_or_create uuid now dto key h userId s = (Inr (Created e), s')"
  shows "\<exists>t. placed uuid now dto userId s e t \<and> key \<notin> ik_key ` set (idempotency_keys s)
    \<and> (db_wf s \<longrightarrow> db_wf t) \<and> uuid \<notin> ob_id ` set (outbox s)
    \<and> s' = t\<lparr>idempotency_keys := idempotency_keys s @
             [\<lparr>ik_key = key, ik_request_hash = h, ik_order_id = Some (o_id (oe_row e))\<rparr>]\<rparr>"
proof -
  let ?k = "\<lparr>ik_key = key, ik_request_hash = h, ik_order_id = None\<rparr>"
  let ?s1 = "s\<lparr>idempotency_keys := idempotency_keys s @ [?k]\<rparr>"
  have new: "key \<notin> ik_key ` set (idempotency_keys s)"
  proof
    assume "key \<in> ik_key ` set (idempotency_keys s)"
    with assms show False
      by (simp add: claim_or_create_def claim_key_def find_key_row_def and_then_def)
  qed
  then have claim: "claim_key key h s = (Inr True, ?s1)"
    by (simp add: claim_key_def and_then_def)
  then obtain t where ins: "insertOrderWithEvent uuid now dto userId ?s1 = (Inr e, t)"
    and s': "set_key_order key (o_id (oe_row e)) t = (Inr (), s')"
    using assms by (auto simp: claim_or_create_def and_then_ok_iff)
  have p: "placed uuid now dto userId ?s1 e t" and u: "uuid \<notin> ob_id ` set (outbox s)"
    using insertOrderWithEvent_ok [OF ins] by simp_all
  define t' where "t' = t\<lparr>idempotency_keys := idempotency_keys s\<rparr>"
  have "placed uuid now dto userId s e t'"
    using p unfolding placed_def Let_def t'_def by (elim conjE, intro conjI) simp_all
  moreover have "map (\<lambda>k. if ik_key k = key then k\<lparr>ik_order_id := Some i\<rparr> else k) (idempotency_keys s)
      = idempotency_keys s" for i
    using new by (intro map_idI) auto
  then have "s' = t'\<lparr>idempotency_keys := idempotency_keys s @
      [\<lparr>ik_key = key, ik_request_hash = h, ik_order_id = Some (o_id (oe_row e))\<rparr>]\<rparr>"
    using s' placed_tables(2) [OF p] by (simp add: set_key_order_def t'_def)
  moreover have "db_wf t'" if wf: "db_wf s"
  proof -
    have "db_wf ?s1" using wf new by (auto simp: db_wf_defs)
    then have "db_wf t" using keepsD' [OF keeps_db_wf_insertOrder _ ins] by blast
    then show ?thesis using wf placed_tables(1) [OF p] by (auto simp: db_wf_defs t'_def pred_option_def)
  qed
  ultimately show ?thesis using new u by blast
qed

lemma created_db:
  assumes "claim_or_create uuid now dto key h userId s = (Inr (Created e), s')" "db_wf s"
  shows "since s s'" "oe_row e \<in> set (orders s')" "items_of s' (oe_row e) = map fst (oe_items e)"
    "joined e"
    "\<lparr>ik_key = key, ik_request_hash = h, ik_order_id = Some (o_id (oe_row e))\<rparr> \<in> set (idempotency_keys s')"
proof -
  let ?k = "\<lparr>ik_key = key, ik_request_hash = h, ik_order_id = Some (o_id (oe_row e))\<rparr>"
  obtain t where p: "placed uuid now dto userId s e t" and new: "key \<notin> ik_key ` set (idempotency_keys s)"
    and wf: "db_wf t" and s': "s' = t\<lparr>idempotency_keys := idempotency_keys s @ [?k]\<rparr>"
    using claim_or_create_created [OF assms(1)] assms(2) by blast
  have wf': "db_wf s'"
    using wf new placed_tables(1,2) [OF p] by (auto simp: db_wf_defs s')
  have "later s t" using later_placed [OF p assms(2)] .
  then have "later s s'" by (simp add: later_def order_kept_def s')
  then show "since s s'" using wf' by (simp add: since_def)
  show "oe_row e \<in> set (orders s')" "?k \<in> set (idempotency_keys s')"
    using placed_tables(1) [OF p] by (simp_all add: s')
  show "items_of s' (oe_row e) = map fst (oe_items e)"
    using placed_new_items(1) [OF p assms(2)] by (simp add: s')
  show "joined e" using joined_placed [OF p] .
qed

lemma forward_claim [forward_intro]: "forward (claim_or_create uuid now dto key h userId)"
  unfolding claim_or_create_def claim_key_def find_key_row_def set_key_order_def
  by (intro forward_intro forward_modify) (simp_all add: seqs_le_def)

lemma since_trans: "since s0 s \<Longrightarrow> since s s' \<Longrightarrow> since s0 s'"
  unfolding since_def using later_trans by blast

lemma since_refl: "db_wf s \<Longrightarrow> since s s"
  by (simp add: since_def)

lemma keeps_since_claim: "keeps (since s0) (transaction (claim_or_create uuid now dto key h userId))"
proof (rule keeps_transaction_ok)
  fix s a s'
  assume s: "since s0 s" and run: "claim_or_create uuid now dto key h userId s = (Inr a, s')"
  show "since s0 s'"
  proof (cases a)
    case (Replay row)
    then show ?thesis using claim_or_create_replay run s by blast
  next
    case (Created e)
    then show ?thesis using created_db(1) run s since_trans unfolding since_def by blast
  qed
qed (auto intro: forward_intro since_rolled_back)

subsection \<open>\<open>createIdempotent\<close> and the shop\<close>

lemma invalidate_run: "\<exists>w'. invalidate i w = (Inr (), w') \<and> sh_db w' = sh_db w \<and> sh_now w' = sh_now w"
  by (auto simp: invalidate_def on_cache_def cache_del_run split: option.splits)

lemma for_each_invalidate: "\<exists>us w'. for_each invalidate is w = (Inr us, w') \<and> sh_db w' = sh_db w"
proof (induction "is" arbitrary: w)
  case (Cons i "is")
  obtain w1 where "invalidate i w = (Inr (), w1)" "sh_db w1 = sh_db w" using invalidate_run by blast
  moreover obtain us w2 where "for_each invalidate is w1 = (Inr us, w2)" "sh_db w2 = sh_db w1"
    using Cons.IH by blast
  ultimately show ?case by simp
qed simp

lemma invalidateCards_run:
  assumes "joined e"
  shows "\<exists>w'. invalidateCards e w = (Inr (), w') \<and> sh_db w' = sh_db w"
proof -
  have "for_each item_product (oe_items e) s = (Inr (map (\<lambda>(i, p). the p) (oe_items e)), s)" for s
    using assms by (intro for_each_ret) (auto simp: joined_def)
  then show ?thesis
    using for_each_invalidate [of "remdups (map p_id (map (\<lambda>(i, p). the p) (oe_items e)))" w]
    by (auto simp: invalidateCards_def on_db_def and_then_def)
qed

lemma on_db_ok [simp]: "m (sh_db w) = (x, d) \<Longrightarrow> on_db m w = (x, w\<lparr>sh_db := d\<rparr>)"
  by (simp add: on_db_def)

lemma keeps_on_db: "keeps P m \<Longrightarrow> keeps (\<lambda>w. P (sh_db w)) (on_db m)"
  by (auto simp: keeps_def on_db_def split: prod.splits)

lemma keeps_invalidate [keeps_intro]: "keeps (\<lambda>w. P (sh_db w)) (invalidate i)"
  using invalidate_run [of i] unfolding keeps_def by (metis snd_conv)

lemma keeps_invalidateCards [keeps_intro]: "keeps (\<lambda>w. P (sh_db w)) (invalidateCards e)"
  unfolding invalidateCards_def by (intro keeps_intro keeps_on_db)

lemma keeps_createIdempotent:
  assumes "\<And>key h. keeps P (transaction (claim_or_create uuid now dto (namespaced_key userId key) h userId))"
  shows "keeps (\<lambda>w. P (sh_db w)) (createIdempotent sha uuid now body dto clientKey userId)"
  unfolding createIdempotent_def Let_def
  by (intro keeps_intro keeps_on_db assms) (auto intro!: keeps_intro keeps_on_db split: claim_outcome.split)

lemma find_key_row_unique:
  assumes "db_wf s" "k \<in> set (idempotency_keys s)"
  shows "find (\<lambda>k'. ik_key k' = ik_key k) (idempotency_keys s) = Some k"
  using assms by (intro find_key) (auto simp: db_wf_defs)

lemma claim_known:
  assumes "db_wf s" "k \<in> set (idempotency_keys s)" "ik_key k = key"
  shows "claim_or_create uuid now dto key h userId s = (Inr (Replay (Some k)), s)"
  using assms find_key_row_unique [OF assms(1,2)]
  by (auto simp: claim_or_create_def claim_key_def find_key_row_def and_then_def)

lemma createIdempotent_known:
  assumes "db_wf (sh_db w)" "k \<in> set (idempotency_keys (sh_db w))" "ik_key k = namespaced_key userId clientKey"
  shows "createIdempotent sha uuid now body dto clientKey userId w =
    (if ik_request_hash k \<noteq> sha (json_text body)
     then (Inl (UnprocessableEntityException
                 ''Idempotency-Key already used with a different request body''), w)
     else and_then
            (on_db (orders_findOne (case ik_order_id k of None \<Rightarrow> ''null'' | Some i \<Rightarrow> show_int i)))
            (\<lambda>order. ret (order, True)) w)"
  using claim_known [OF assms] by (simp add: createIdempotent_def Let_def)

lemma createIdempotent_known_db:
  assumes "db_wf (sh_db w)" "k \<in> set (idempotency_keys (sh_db w))" "ik_key k = namespaced_key userId clientKey"
  shows "sh_db (snd (createIdempotent sha uuid now body dto clientKey userId w)) = sh_db w"
    and "createIdempotent sha uuid now body dto clientKey userId w \<noteq> (Inr (o', False), w')"
proof -
  have "keeps (\<lambda>v. sh_db v = sh_db w)
      (and_then (on_db (orders_findOne x)) (\<lambda>order. ret (order, True)))" for x
    by (intro keeps_intro keeps_on_db [where P = "\<lambda>d. d = sh_db w"])
  from keepsD [OF this refl]
  show "sh_db (snd (createIdempotent sha uuid now body dto clientKey userId w)) = sh_db w"
    unfolding createIdempotent_known [OF assms] by (simp split: if_split)
  show "createIdempotent sha uuid now body dto clientKey userId w \<noteq> (Inr (o', False), w')"
    unfolding createIdempotent_known [OF assms]
    by (auto simp: and_then_def split: if_splits prod.splits sum.splits)
qed

lemma createIdempotent_fresh:
  assumes "db_wf (sh_db w)"
    and "createIdempotent sha uuid now body dto clientKey userId w = (Inr (o', False), w')"
  shows "namespaced_key userId clientKey \<notin> ik_key ` set (idempotency_keys (sh_db w))"
  using createIdempotent_known_db(2) [OF assms(1)] assms(2) by fastforce

lemma createIdempotent_replays:
  assumes "db_wf (sh_db w)" "r \<in> set (orders (sh_db w))"
    and "\<lparr>ik_key = namespaced_key userId clientKey, ik_request_hash = sha (json_text body),
          ik_order_id = Some (o_id r)\<rparr> \<in> set (idempotency_keys (sh_db w))"
  shows "createIdempotent sha uuid now body dto clientKey userId w
    = (Inr (order_view (load_order (sh_db w) r), True), w)"
  using createIdempotent_known [OF assms(1,3)] orders_findOne_present [OF assms(1,2)] by simp

lemma createIdempotent_unknown:
  assumes "namespaced_key userId clientKey \<notin> ik_key ` set (idempotency_keys (sh_db w))"
    and "createIdempotent sha uuid now body dto clientKey userId w = (Inr (o', r), w')"
    and "db_wf (sh_db w)"
  shows "\<exists>e d. claim_or_create uuid now dto (namespaced_key userId clientKey) (sha (json_text body)) userId
       (sh_db w) = (Inr (Created e), d) \<and> sh_db w' = d \<and> o' = order_view e \<and> \<not> r"
proof -
  let ?m = "claim_or_create uuid now dto (namespaced_key userId clientKey) (sha (json_text body)) userId"
  obtain x d where run: "?m (sh_db w) = (Inr x, d)"
    using assms(2) by (cases "?m (sh_db w)", cases "fst (?m (sh_db w))")
      (auto simp: createIdempotent_def Let_def and_then_def on_db_def)
  then obtain e where x: "x = Created e"
    using claim_or_create_replay assms(1) by (cases x) blast+
  have j: "joined e" using created_db(4) run x assms(3) by blast
  obtain w1 where w1: "invalidateCards e (w\<lparr>sh_db := d\<rparr>) = (Inr (), w1)" "sh_db w1 = d"
    using invalidateCards_run [OF j, of "w\<lparr>sh_db := d\<rparr>"] by auto
  have "createIdempotent sha uuid now body dto clientKey userId w = (Inr (order_view e, False), w1\<lparr>sh_db := d\<rparr>)"
    using order_toResponse_run [OF j] run x w1
    by (simp add: createIdempotent_def Let_def)
  then show ?thesis using assms(2) run x by simp
qed

text \<open>Whatever path a successful request took, its key now has its order.\<close>

lemma createIdempotent_done:
  assumes "db_wf (sh_db w)"
    and "createIdempotent sha uuid now body dto clientKey userId w = (Inr (o', r), w')"
  shows "\<exists>row \<in> set (orders (sh_db w')). o' = order_view (load_order (sh_db w') row)
      \<and> \<lparr>ik_key = namespaced_key userId clientKey, ik_request_hash = sha (json_text body),
          ik_order_id = Some (o_id row)\<rparr> \<in> set (idempotency_keys (sh_db w'))
      \<and> since (sh_db w) (sh_db w')"
proof (cases "namespaced_key userId clientKey \<in> ik_key ` set (idempotency_keys (sh_db w))")
  case False
  from createIdempotent_unknown [OF this assms(2,1)] obtain e where
    run: "claim_or_create uuid now dto (namespaced_key userId clientKey) (sha (json_text body)) userId
       (sh_db w) = (Inr (Created e), sh_db w')" and o': "o' = order_view e" by blast
  note c = created_db [OF run assms(1)]
  have "order_view (load_order (sh_db w') (oe_row e)) = order_view e"
    using c(3) by (simp add: order_view_load) (simp add: order_view_def comp_def case_prod_beta)
  then show ?thesis using c o' by metis
next
  case True
  then obtain k where k: "k \<in> set (idempotency_keys (sh_db w))" "ik_key k = namespaced_key userId clientKey"
    by fastforce
  note known = createIdempotent_known [OF assms(1) k, of sha uuid now body dto]
  then have h: "ik_request_hash k = sha (json_text body)" using assms(2) by (auto split: if_splits)
  show ?thesis
  proof (cases "ik_order_id k")
    case None
    then have "js_Number ''null'' = NaN \<Longrightarrow> False"
      using known h assms(2) by (auto simp: orders_findOne_def on_db_def and_then_def)
    moreover have "js_Number ''null'' = NaN" by code_simp
    ultimately show ?thesis by blast
  next
    case (Some i)
    then obtain row where row: "row \<in> set (orders (sh_db w))" "o_id row = i"
      using assms(1) k by (fastforce simp: db_wf_defs)
    have "k = \<lparr>ik_key = namespaced_key userId clientKey, ik_request_hash = sha (json_text body),
          ik_order_id = Some (o_id row)\<rparr>" using k h Some row by simp
    then show ?thesis
      using createIdempotent_replays [OF assms(1) row(1), of userId clientKey sha body uuid now dto]
        k(1) row assms since_refl by auto
  qed
qed

lemma createIdempotent_error:
  assumes "db_wf (sh_db w)"
    and "createIdempotent sha uuid now body dto clientKey userId w = (Inl e, w')"
  shows "same_tables (sh_db w) (sh_db w')"
proof (cases "namespaced_key userId clientKey \<in> ik_key ` set (idempotency_keys (sh_db w))")
  case True
  then obtain k where k: "k \<in> set (idempotency_keys (sh_db w))" "ik_key k = namespaced_key userId clientKey"
    by fastforce
  have "sh_db w' = sh_db w"
    using createIdempotent_known_db [OF assms(1) k, of sha uuid now body dto] assms(2) by simp
  then show ?thesis by (simp add: same_tables_def rolled_back_def)
next
  case False
  let ?m = "claim_or_create uuid now dto (namespaced_key userId clientKey) (sha (json_text body)) userId"
  obtain x d where run: "?m (sh_db w) = (x, d)" by (cases "?m (sh_db w)")
  show ?thesis
  proof (cases x)
    case (Inl e')
    then show ?thesis using run assms(2) by (simp add: createIdempotent_def Let_def) auto
  next
    case (Inr c)
    then obtain e' where x: "x = Inr (Created e')"
      using claim_or_create_replay run False by (cases c) blast+
    have j: "joined e'" using created_db(4) run x assms(1) by blast
    obtain w1 where "invalidateCards e' (w\<lparr>sh_db := d\<rparr>) = (Inr (), w1)" "sh_db w1 = d"
      using invalidateCards_run [OF j, of "w\<lparr>sh_db := d\<rparr>"] by auto
    then show ?thesis
      using order_toResponse_run [OF j] run x assms(2) by (simp add: createIdempotent_def Let_def)
  qed
qed

subsection \<open>Sequences of requests\<close>

datatype market_call =
    PostOrder string int json "string option" int
  | PatchStatus string string
  | NewProduct create_product_dto

text \<open>
  One request and the state it leaves; \<open>uuid\<close> and \<open>now\<close> of a \<open>PostOrder\<close> are those of its
  outbox row.
\<close>

definition serve ::
  "(string \<Rightarrow> string) \<Rightarrow> (string \<Rightarrow> bool) \<Rightarrow> market_call \<Rightarrow> market \<Rightarrow> market" where
  "serve sha256_hex isEmail c k =
     (case c of
        PostOrder uuid now body key user \<Rightarrow>
          snd (in_shop (post_order sha256_hex isEmail uuid now body key user) k)
      | PatchStatus orderId status \<Rightarrow> snd (patch_status orderId status k)
      | NewProduct d \<Rightarrow> snd (in_shop (on_db (products_create d)) k))"

abbreviation market_db :: "market \<Rightarrow> db" where
  "market_db k \<equiv> sh_db (mk_shop k)"

lemma keeps_in_shop: "keeps P m \<Longrightarrow> keeps (\<lambda>k. P (mk_shop k)) (in_shop m)"
  by (auto simp: keeps_def in_shop_def split: prod.splits)

text \<open>What the validation pipe guarantees of a body.\<close>

definition order_dto_ok :: "create_order_dto \<Rightarrow> bool" where
  "order_dto_ok dto \<longleftrightarrow> co_items dto \<noteq> [] \<and> (\<forall>(t, q) \<in> set (co_items dto). t \<noteq> [] \<and> 1 \<le> q)"

lemma order_item_dto_ok: "order_item_dto v = Some (t, q) \<Longrightarrow> t \<noteq> [] \<and> 1 \<le> q"
  by (auto simp: order_item_dto_def split: json.splits if_splits option.splits)

lemma create_order_dto_of_ok: "create_order_dto_of isEmail body = Some dto \<Longrightarrow> order_dto_ok dto"
  by (fastforce simp: create_order_dto_of_def order_dto_ok_def dest: order_item_dto_ok
      split: json.splits if_splits option.splits)

lemma keeps_post_order:
  assumes "\<And>dto key h. order_dto_ok dto \<Longrightarrow> keeps P (transaction (claim_or_create uuid now dto (namespaced_key (Some user) key) h (Some user)))"
  shows "keeps (\<lambda>w. P (sh_db w)) (post_order sha isEmail uuid now body hdr user)"
  unfolding post_order_def
  by (cases "create_order_dto_of isEmail body"; cases hdr)
    (auto intro!: keeps_intro keeps_createIdempotent assms dest: create_order_dto_of_ok)

lemma keeps_patch_status:
  assumes "\<And>n. status \<in> set ORDER_STATUSES \<Longrightarrow> keeps P (set_order_status n status)"
  shows "keeps (\<lambda>k. P (market_db k)) (patch_status orderId status)"
proof -
  have db: "keeps (\<lambda>k. P (market_db k)) (in_shop (on_db m))" if "keeps P m" for m :: "'a db_action"
    using keeps_in_shop [OF keeps_on_db [OF that]] .
  have ev: "keeps (\<lambda>k. P (market_db k)) (modify (\<lambda>k. k\<lparr>mk_events := f k\<rparr>))" for f
    by (simp add: keeps_def)
  show ?thesis
    unfolding patch_status_def updateStatus_def Let_def
    by (auto intro!: keeps_intro db ev assms split: sum.split)
qed

text \<open>An invariant of the database that the three kinds of request keep holds after any of them.\<close>

lemma serve_all_keeps:
  assumes "\<And>uuid now dto key h user. keeps P (transaction (claim_or_create uuid now dto (namespaced_key (Some user) key) h (Some user)))"
    and "\<And>n st. keeps P (set_order_status n st)" and "\<And>d. keeps P (products_create d)"
    and "P (market_db k)"
  shows "P (market_db (fold (serve sha isEmail) calls k))"
  using assms(4)
proof (induction calls arbitrary: k)
  case (Cons c calls)
  have "P (market_db (serve sha isEmail c k))"
  proof (cases c)
    case (PostOrder uuid now body hdr user)
    then show ?thesis
      using keepsD [OF keeps_in_shop [OF keeps_post_order [of P, OF assms(1)]] Cons.prems]
      by (simp add: serve_def)
  next
    case (PatchStatus orderId status)
    then show ?thesis
      using keepsD [OF keeps_patch_status [where P = P, OF assms(2)] Cons.prems] by (simp add: serve_def)
  next
    case (NewProduct d)
    then show ?thesis
      using keepsD [OF keeps_in_shop [OF keeps_on_db [OF assms(3)]] Cons.prems] by (simp add: serve_def)
  qed
  then show ?case using Cons.IH by simp
qed simp

lemma set_order_status_run:
  "set_order_status n st s =
     (Inr (length (filter (\<lambda>o'. o_id o' = n) (orders s))),
      s\<lparr>orders := with_status n st (orders s)\<rparr>)"
  by (simp add: set_order_status_def)

lemma with_status_ids [simp]:
  "map o_id (with_status n st rs) = map o_id rs" "o_id ` set (with_status n st rs) = o_id ` set rs"
proof -
  show "map o_id (with_status n st rs) = map o_id rs" by (simp add: with_status_def)
  then show "o_id ` set (with_status n st rs) = o_id ` set rs" by (metis list.set_map)
qed

lemma with_status_mem:
  assumes "r \<in> set rs"
  shows "\<exists>x. r\<lparr>o_status := x\<rparr> \<in> set (with_status n st rs)"
proof (cases "o_id r = n")
  case True
  then show ?thesis using assms unfolding with_status_def by force
next
  case False
  then have "r \<in> set (with_status n st rs)" using assms unfolding with_status_def by force
  moreover have "r\<lparr>o_status := o_status r\<rparr> = r" by simp
  ultimately show ?thesis by metis
qed

lemma with_status_from:
  "r \<in> set (with_status n st rs) \<Longrightarrow> \<exists>q \<in> set rs. r = q \<or> r = q\<lparr>o_status := st\<rparr>"
  by (auto simp: with_status_def split: if_splits)

lemma keeps_since_status: "keeps (since s0) (set_order_status n st)"
proof
  fix s assume s: "since s0 s"
  let ?s = "s\<lparr>orders := with_status n st (orders s)\<rparr>"
  have wf: "db_wf s" using s by (simp add: since_def)
  have "pred_option (\<lambda>u. u \<in> u_id ` set (users s)) (o_userId r)"
    if "r \<in> set (with_status n st (orders s))" for r
    using with_status_from [OF that] wf by (auto simp: db_wf_defs)
  then have "db_wf ?s" using wf by (simp add: db_wf_defs)
  moreover have "later s ?s"
    using with_status_mem by (simp add: later_def order_kept_def)
  ultimately show "since s0 (snd (set_order_status n st s))"
    using s since_trans by (simp add: set_order_status_run since_def)
qed

lemma keeps_since_products: "keeps (since s0) (products_create d)"
  unfolding products_create_def
proof (intro keeps_intro)
  let ?m = "insert_product (dto_name d) (dto_priceCents d) (dto_stock d)
             (case dto_currency d of None \<Rightarrow> ''UAH'' | Some c \<Rightarrow> c)"
  show "keeps (since s0) (transaction ?m)"
  proof (rule keeps_transaction_ok)
    fix s a s'
    assume s: "since s0 s" and run: "?m s = (Inr a, s')"
    have "db_wf s'" using keepsD' [OF keeps_db_wf_insert_product _ run] s by (simp add: since_def)
    moreover have "later s s'" using insert_product_ok [OF run] by (intro later_same_rows) auto
    ultimately show "since s0 s'" using s since_trans by (simp add: since_def)
  qed (auto intro: forward_intro since_rolled_back)
qed

lemma serve_all_since:
  "db_wf (market_db k) \<Longrightarrow> since (market_db k) (market_db (fold (serve sha isEmail) calls k))"
  by (rule serve_all_keeps)
    (auto intro: keeps_since_claim keeps_since_status keeps_since_products since_refl)

end
