(* ===== verification/Samples.thy ===== *)
theory Samples
  imports Orders SampleShop
begin

text \<open>
  The small shop of \<open>SampleShop\<close> with its caches and event streams, a request body and what it is
  answered: the concrete inputs at which the theorems on orders are applied.
\<close>

definition sample_shop :: shop where
  "sample_shop = \<lparr>sh_db = sample_db, sh_cache = None, sh_now = 0\<rparr>"

definition sample_market :: market where
  "sample_market = \<lparr>mk_shop = sample_shop, mk_events = new_order_events\<rparr>"

definition sample_body :: json where
  "sample_body = JObject
     [(''customerEmail'', JString ''u1@example.com''),
      (''items'', JArray
        [JObject [(''productId'', JString ''1''), (''quantity'', JNumber (Num 2))],
         JObject [(''productId'', JString ''2''), (''quantity'', JNumber (Num 1))]])]"

definition sample_dto :: create_order_dto where
  "sample_dto = \<lparr>co_customerEmail = ''u1@example.com'', co_items = [(''1'', 2), (''2'', 1)]\<rparr>"

lemma sample_fields [simp]:
  "sh_db sample_shop = sample_db" "sh_cache sample_shop = None" "mk_shop sample_market = sample_shop"
  "market_db sample_market = sample_db"
  by (simp_all add: sample_shop_def sample_market_def)

text \<open>What user 1 gets for the body, and that it is what the pipe reads of it.\<close>

definition sample_answer :: order_response where
  "sample_answer = \<lparr>or_id = ''1'', or_items = [(''1'', 2), (''2'', 1)], or_totalCents = 1400,
     or_currency = ''USD'', or_status = ''created''\<rparr>"

lemma sample_post:
  "fst (post_order id (\<lambda>_. True) ''row-1'' 5 sample_body (Some ''k'') 1 sample_shop)
    = Inr (sample_answer, False)"
  by code_simp

lemma sample_dto: "create_order_dto_of (\<lambda>_. True) sample_body = Some sample_dto"
  by code_simp

lemma sample_create:
  "fst (createIdempotent id ''row-1'' 5 sample_body sample_dto ''k'' (Some 1) sample_shop)
    = Inr (sample_answer, False)"
  by code_simp

text \<open>The same shop after user 1 ordered two teas.\<close>

definition sample_order :: order_row where
  "sample_order = \<lparr>o_id = 1, o_userId = Some 1, o_customerEmail = ''u1@example.com'',
     o_status = ''created'', o_totalCents = 500, o_currency = ''UAH'', o_createdAt = 0\<rparr>"

definition sample_ordered :: db where
  "sample_ordered = sample_db
     \<lparr>orders := [sample_order], seq_orders := 2,
      order_items := [\<lparr>i_id = 1, i_orderId = 1, i_productId = 1, i_quantity = 2,
                       i_priceAtPurchaseCents = 250\<rparr>], seq_items := 2\<rparr>"

lemma sample_ordered_wf: "db_wf sample_ordered"
  by (simp add: db_wf_defs serial_def int4_def sample_ordered_def sample_order_def sample_db_def
      sample_user_def empty_db_def show_small)

end
