(* ===== verification/OrdersCorrect.thy ===== *)
theory OrdersCorrect
  imports Samples
begin

text \<open>
  What the order service promises: the order and its outbox row are one write, an idempotency
  key stands for one order of one user, an order of somebody else looks like a missing one, the
  listing is complete, and a status change touches one order and tells its streams.
\<close>

subsection \<open>One write\<close>

lemma order_ids_distinct: "db_wf s \<Longrightarrow> distinct (map o_id (orders s))"
  by (auto simp: db_wf_defs dest: serial_distinct)

lemma same_tables_refl [simp]: "same_tables s s"
  by (simp add: same_tables_def rolled_back_def)

lemma post_order_cases:
  assumes "post_order sha isEmail uuid now body hdr user w = (x, w')"
  obtains e where "x = Inl e" "w' = w"
  | dto key where "create_order_dto_of isEmail body = Some dto" "hdr = Some key" "key \<noteq> []"
      "createIdempotent sha uuid now body dto key (Some user) w = (x, w')"
  using assms
  by (cases "create_order_dto_of isEmail body"; cases hdr)
    (auto simp: post_order_def split: if_splits)

text \<open>What a request that created an order wrote and answered.\<close>

definition order_written ::
  "string \<Rightarrow> int \<Rightarrow> int option \<Rightarrow> string \<Rightarrow> string \<Rightarrow> order_response \<Rightarrow> db \<Rightarrow> db \<Rightarrow> bool" where
  "order_written uuid now userId key h answer s s' \<longleftrightarrow>
     (\<exists>r is. answer = \<lparr>or_id = show_int (o_id r),
              or_items = map (\<lambda>i. (show_int (i_productId i), i_quantity i)) is,
              or_totalCents = o_totalCents r, or_currency = o_currency r, or_status = ''created''\<rparr>
        \<and> o_userId r = userId
        \<and> o_totalCents r = (\<Sum>i\<leftarrow>is. i_priceAtPurchaseCents i * i_quantity i)
        \<and> (\<forall>i \<in> set is. i_orderId i = o_id r \<and> (\<exists>p \<in> set (products s).
              p_id p = i_productId i \<and> p_priceCents p = i_priceAtPurchaseCents i))
        \<and> s' = s\<lparr>orders := orders s @ [r], seq_orders := seq_orders s + 1,
              order_items := order_items s @ is, seq_items := seq_items s + int (length is),
              outbox := outbox s @ [outbox_row_of uuid now (clock s) r is],
              idempotency_keys := idempotency_keys s @
                [\<lparr>ik_key = key, ik_request_hash = h, ik_order_id = Some (o_id r)\<rparr>]\<rparr>)"

lemma placed_new_order:
  assumes "claim_or_create uuid now dto key h userId s = (Inr (Created e), s')"
  shows "order_written uuid now userId key h (order_view e) s s'"
proof -
  obtain t where p: "placed uuid now dto userId s e t"
    and s': "s' = t\<lparr>idempotency_keys := idempotency_keys s @
             [\<lparr>ik_key = key, ik_request_hash = h, ik_order_id = Some (o_id (oe_row e))\<rparr>]\<rparr>"
    using claim_or_create_created [OF assms(1)] by blast
  define r "is" where "r = oe_row e" and "is = map fst (oe_items e)"
  note f = p [unfolded placed_def Let_def, folded r_def is_def]
  have "order_view e = \<lparr>or_id = show_int (o_id r),
              or_items = map (\<lambda>i. (show_int (i_productId i), i_quantity i)) is,
              or_totalCents = o_totalCents r, or_currency = o_currency r, or_status = ''created''\<rparr>"
    using f by (simp add: order_view_def r_def is_def comp_def case_prod_beta)
  moreover have "o_userId r = userId" "o_totalCents r = (\<Sum>i\<leftarrow>is. i_priceAtPurchaseCents i * i_quantity i)"
    using f by (simp_all add: items_total_def)
  moreover have "s' = s\<lparr>orders := orders s @ [r], seq_orders := seq_orders s + 1,
                order_items := order_items s @ is, seq_items := seq_items s + int (length is),
                outbox := outbox s @ [outbox_row_of uuid now (clock s) r is],
                idempotency_keys := idempotency_keys s @
                  [\<lparr>ik_key = key, ik_request_hash = h, ik_order_id = Some (o_id r)\<rparr>]\<rparr>"
    using f s' by (simp add: r_def)
  moreover have "\<forall>i \<in> set is. i_orderId i = o_id r \<and> (\<exists>p \<in> set (products s).
                p_id p = i_productId i \<and> p_priceCents p = i_priceAtPurchaseCents i)"
  proof
    fix i assume "i \<in> set is"
    then obtain po where "(i, po) \<in> set (oe_items e)" unfolding is_def by auto
    moreover have "list_all2 (\<lambda>(t, q) (i, p). i_quantity i = q \<and> i_orderId i = o_id r
           \<and> (\<exists>p'. p = Some p' \<and> p' \<in> set (products s) \<and> js_Number t = Num (of_int (p_id p'))
                 \<and> i_productId i = p_id p' \<and> i_priceAtPurchaseCents i = p_priceCents p'))
           (co_items dto) (oe_items e)"
      using f by blast
    ultimately show "i_orderId i = o_id r \<and> (\<exists>p \<in> set (products s).
                p_id p = i_productId i \<and> p_priceCents p = i_priceAtPurchaseCents i)"
      using list_all2_right by fastforce
  qed
  ultimately show ?thesis unfolding order_written_def by blast
qed

lemma createIdempotent_replayed_state:
  assumes "db_wf (sh_db w)"
    and "createIdempotent sha uuid now body dto clientKey userId w = (Inr (o', True), w')"
  shows "sh_db w' = sh_db w"
proof -
  have "namespaced_key userId clientKey \<in> ik_key ` set (idempotency_keys (sh_db w))"
    using createIdempotent_unknown assms by blast
  then obtain k where "k \<in> set (idempotency_keys (sh_db w))" "ik_key k = namespaced_key userId clientKey"
    by fastforce
  from createIdempotent_known_db [OF assms(1) this, of sha uuid now body dto] assms(2)
  show ?thesis by simp
qed

text \<open>C1: posting an order is all or nothing. A new order comes with its items, priced by their
  products, a total that is the sum of the items, one unpublished outbox row that carries the
  same data, and its idempotency key; a replayed answer and an error change no table.\<close>

theorem post_order_atomic:
  assumes "db_wf (sh_db w)"
  shows "case post_order sha isEmail uuid now body hdr user w of
      (Inl e, w') \<Rightarrow> same_tables (sh_db w) (sh_db w')
    | (Inr (answer, True), w') \<Rightarrow> same_tables (sh_db w) (sh_db w')
    | (Inr (answer, False), w') \<Rightarrow>
        \<exists>key. hdr = Some key \<and> order_written uuid now (Some user) (namespaced_key (Some user) key)
          (sha (json_text body)) answer (sh_db w) (sh_db w')"
proof -
  obtain x w' where run: "post_order sha isEmail uuid now body hdr user w = (x, w')"
    by (cases "post_order sha isEmail uuid now body hdr user w")
  then show ?thesis
  proof (cases rule: post_order_cases)
    case (1 e)
    then show ?thesis using run by simp
  next
    case (2 dto key)
    show ?thesis
    proof (cases x)
      case (Inl e)
      then show ?thesis using createIdempotent_error [OF assms] 2 run by simp
    next
      case (Inr y)
      obtain answer rep where y: "y = (answer, rep)" by (cases y)
      show ?thesis
      proof (cases rep)
        case True
        then show ?thesis
          using createIdempotent_replayed_state [OF assms] 2(4) Inr y run by simp
      next
        case False
        then have "namespaced_key (Some user) key \<notin> ik_key ` set (idempotency_keys (sh_db w))"
          using createIdempotent_fresh [OF assms] 2(4) Inr y by simp
        from createIdempotent_unknown [OF this _ assms] 2(4) Inr y obtain e where
          c: "claim_or_create uuid now dto (namespaced_key (Some user) key) (sha (json_text body)) (Some user)
             (sh_db w) = (Inr (Created e), sh_db w')" and a: "answer = order_view e" by blast
        from placed_new_order [OF c] show ?thesis
          using run Inr y False 2(2) a by simp
      qed
    qed
  qed
qed

theorem post_order_atomic_witness:
  "order_written ''row-1'' 5 (Some 1) ''1:k'' (json_text sample_body) sample_answer sample_db
     (sh_db (snd (post_order id (\<lambda>_. True) ''row-1'' 5 sample_body (Some ''k'') 1 sample_shop)))"
  using post_order_atomic [where w = sample_shop and sha = id and isEmail = "\<lambda>_. True" and uuid = "''row-1''"
      and now = 5 and body = sample_body and hdr = "Some ''k''" and user = 1]
    sample_post sample_db_wf
  by (cases "post_order id (\<lambda>_. True) ''row-1'' 5 sample_body (Some ''k'') 1 sample_shop")
    (simp add: namespaced_key_def show_small)

subsection \<open>One order per key\<close>

lemma sample_market_wf: "db_wf (market_db sample_market)"
  using sample_db_wf by simp

lemma kept_view:
  assumes "order_kept s s' r"
  shows "\<exists>r' \<in> set (orders s'). o_id r' = o_id r \<and> o_userId r' = o_userId r
    \<and> order_view (load_order s' r') = (order_view (load_order s r))\<lparr>or_status := o_status r'\<rparr>"
proof -
  obtain st where st: "r\<lparr>o_status := st\<rparr> \<in> set (orders s')" "items_of s' r = items_of s r"
    using assms unfolding order_kept_def by blast
  then show ?thesis
    by (intro bexI [of _ "r\<lparr>o_status := st\<rparr>"]) (simp_all add: order_view_load)
qed



text \<open>C16: the same key with a different body is refused with 422 and changes nothing, as long as the
  hash tells the two bodies apart.\<close>

theorem idempotent_other_body:
  assumes "db_wf (market_db k)"
    and "createIdempotent sha uuid now body dto key user (mk_shop k) = (Inr (answer, rep), w)"
    and "k' = fold (serve sha isEmail) calls (k\<lparr>mk_shop := w\<rparr>)"
    and "int_numbers body" and "int_numbers body'" and "body' \<noteq> body"
    and "sha (json_text body') = sha (json_text body) \<Longrightarrow> json_text body' = json_text body"
  shows "createIdempotent sha uuid' now' body' dto' key user (mk_shop k')
      = (Inl (UnprocessableEntityException
                 ''Idempotency-Key already used with a different request body''), mk_shop k')"
proof -
  obtain r :: order_row where key: "\<lparr>ik_key = namespaced_key user key, ik_request_hash = sha (json_text body),
          ik_order_id = Some (o_id r)\<rparr> \<in> set (idempotency_keys (sh_db w))"
    and s: "since (market_db k) (sh_db w)"
    using createIdempotent_done [OF assms(1,2)] by metis
  have l: "since (sh_db w) (market_db k')"
    using serve_all_since [of "k\<lparr>mk_shop := w\<rparr>" sha isEmail calls] s assms(3) by (simp add: since_def)
  then have wf: "db_wf (market_db k')" by (simp add: since_def)
  have "\<lparr>ik_key = namespaced_key user key, ik_request_hash = sha (json_text body),
          ik_order_id = Some (o_id r)\<rparr> \<in> set (idempotency_keys (market_db k'))"
    using l key by (auto simp: since_def later_def)
  from createIdempotent_known [where w = "mk_shop k'", OF wf this] show ?thesis
    using assms(4-7) json_text_inj [of body body'] by auto
qed

theorem idempotent_other_body_witness:
  "\<exists>w. createIdempotent id ''row-9'' 9 JNull sample_dto ''k'' (Some 1) w
      = (Inl (UnprocessableEntityException
                 ''Idempotency-Key already used with a different request body''), w)"
proof -
  obtain w where w: "createIdempotent id ''row-1'' 5 sample_body sample_dto ''k'' (Some 1)
      (mk_shop sample_market) = (Inr (sample_answer, False), w)"
    using sample_create
    by (cases "createIdempotent id ''row-1'' 5 sample_body sample_dto ''k'' (Some 1) sample_shop") auto
  have "int_numbers sample_body" by code_simp
  then show ?thesis
    using idempotent_other_body [OF sample_market_wf w refl, where body' = JNull and calls = "[]"
        and uuid' = "''row-9''" and now' = 9 and dto' = sample_dto]
    by (auto simp: sample_body_def)
qed

subsection \<open>The outbox says what the orders say\<close>

text \<open>
  \<open>in_step\<close>: the payloads of the outbox are, in the order they were written, exactly the events
  of the orders. \<open>event_of\<close> does not mention the status, so a status change keeps it.
\<close>

definition order_event :: "db \<Rightarrow> order_row \<Rightarrow> order_placed_data" where
  "order_event s r = event_of r (items_of s r)"

definition in_step :: "db \<Rightarrow> bool" where
  "in_step s \<longleftrightarrow> db_wf s
     \<and> map (\<lambda>ob. ev_data (ob_payload ob)) (outbox s) = map (order_event s) (orders s)
     \<and> map (\<lambda>ob. eventId (ob_payload ob)) (outbox s) = map (\<lambda>r. orderPlacedEventId (o_id r)) (orders s)"

lemma in_step_placed:
  assumes "placed uuid now dto userId s e t" "in_step s" "db_wf s'"
    and "orders s' = orders t" "order_items s' = order_items t" "outbox s' = outbox t"
  shows "in_step s'"
proof -
  have wf: "db_wf s" using assms(2) by (simp add: in_step_def)
  note i = placed_new_items [OF assms(1) wf]
  have "map (order_event s') (orders s) = map (order_event s) (orders s)"
    using i(2) assms(5) by (simp add: order_event_def)
  moreover have "order_event s' (oe_row e) = event_of (oe_row e) (map fst (oe_items e))"
    using i(1) assms(5) by (simp add: order_event_def)
  ultimately show ?thesis
    using assms(2-6) placed_tables(1,7) [OF assms(1)]
    by (simp add: in_step_def outbox_row_of_def)
      (simp add: buildOrderPlacedEvent_def event_of_def)
qed

lemma in_step_same:
  "in_step s \<Longrightarrow> db_wf s' \<Longrightarrow> orders s' = orders s \<Longrightarrow> order_items s' = order_items s \<Longrightarrow>
   outbox s' = outbox s \<Longrightarrow> in_step s'"
  by (simp add: in_step_def order_event_def)

lemma keeps_in_step_claim: "keeps in_step (transaction (claim_or_create uuid now dto key h userId))"
proof (rule keeps_transaction_ok)
  fix s a s'
  assume s: "in_step s" and run: "claim_or_create uuid now dto key h userId s = (Inr a, s')"
  show "in_step s'"
  proof (cases a)
    case (Replay row)
    then show ?thesis using claim_or_create_replay run s by blast
  next
    case (Created e)
    then have run': "claim_or_create uuid now dto key h userId s = (Inr (Created e), s')" using run by simp
    have "db_wf s'" using created_db(1) [OF run'] s by (simp add: since_def in_step_def)
    moreover obtain t where p: "placed uuid now dto userId s e t"
      and t: "s' = t\<lparr>idempotency_keys := idempotency_keys s @
             [\<lparr>ik_key = key, ik_request_hash = h, ik_order_id = Some (o_id (oe_row e))\<rparr>]\<rparr>"
      using claim_or_create_created [OF run'] by blast
    ultimately show ?thesis by (intro in_step_placed [OF p s]) (simp_all add: t)
  qed
next
  fix s t assume i: "in_step s" and le: "seqs_le s t"
  have "db_wf (rolled_back s t)" using i le db_wf_rolled_back by (simp add: in_step_def)
  then show "in_step (rolled_back s t)" using in_step_same [OF i] by simp
qed (rule forward_claim)

lemma keeps_in_step_status: "keeps in_step (set_order_status n st)"
proof
  fix s assume s: "in_step s"
  let ?s = "s\<lparr>orders := with_status n st (orders s)\<rparr>"
  have "db_wf ?s"
    using keepsD [OF keeps_since_status [of s n st], of s] s
    by (simp add: in_step_def since_def set_order_status_run)
  moreover have "map (order_event ?s) (with_status n st rs) = map (order_event s) rs" for rs
    by (simp add: with_status_def order_event_def event_of_def)
  moreover have "map (\<lambda>r. orderPlacedEventId (o_id r)) (with_status n st rs)
      = map (\<lambda>r. orderPlacedEventId (o_id r)) rs" for rs
    by (simp add: with_status_def)
  ultimately show "in_step (snd (set_order_status n st s))"
    using s by (simp add: in_step_def set_order_status_run)
qed

lemma keeps_in_step_products: "keeps in_step (products_create d)"
proof
  fix s assume s: "in_step s"
  obtain x s' where run: "products_create d s = (x, s')" by (cases "products_create d s")
  have wf: "db_wf s'" using keepsD' [OF keeps_products_create _ run] s by (simp add: in_step_def)
  have "orders s' = orders s \<and> order_items s' = order_items s \<and> outbox s' = outbox s"
    using run unfolding products_create_cases
    by (auto split: prod.splits sum.splits dest: insert_product_ok transaction_error)
  then show "in_step (snd (products_create d s))" using in_step_same [OF s wf] run by simp
qed

text \<open>After any requests, the outbox holds one event per order and nothing else, in the order the
  orders were placed, and each event says what its order says: id, customer, total, currency and
  items.\<close>

theorem outbox_in_step:
  assumes "in_step (market_db k)"
  shows "in_step (market_db (fold (serve sha isEmail) calls k))"
  by (rule serve_all_keeps)
    (auto intro: assms keeps_in_step_claim keeps_in_step_status keeps_in_step_products)

lemma sample_in_step: "in_step (market_db sample_market)"
  using sample_market_wf by (simp add: in_step_def sample_db_def empty_db_def)

theorem outbox_in_step_witness:
  "in_step (market_db (fold (serve id (\<lambda>_. True))
     [PostOrder ''row-1'' 5 sample_body (Some ''k'') 1, PatchStatus ''1'' ''paid''] sample_market))"
  by (rule outbox_in_step [OF sample_in_step])

subsection \<open>Keys belong to users\<close>

lemma show_int_no_colon: "CHR '':'' \<notin> set (show_int n)"
proof
  assume "CHR '':'' \<in> set (show_int n)"
  then have "CHR '':'' = CHR ''-'' \<or> is_digit (CHR '':'')"
    using show_nat_digits unfolding show_int_def list_all_iff by (auto split: if_splits)
  then show False by (simp add: is_digit_def)
qed

lemma before_mark:
  assumes "xs @ c # ys = xs' @ c # ys'" "c \<notin> set xs" "c \<notin> set xs'"
  shows "xs = xs' \<and> ys = ys'"
  using assms
proof (induction xs arbitrary: xs')
  case Nil
  then show ?case by (cases xs') auto
next
  case (Cons x xs)
  then show ?case by (cases xs') auto
qed

lemma namespaced_key_inj:
  "namespaced_key (Some u) k = namespaced_key (Some v) l \<longleftrightarrow> u = v \<and> k = l"
proof
  assume "namespaced_key (Some u) k = namespaced_key (Some v) l"
  then have "show_int u = show_int v \<and> k = l"
    using before_mark [OF _ show_int_no_colon show_int_no_colon] by (simp add: namespaced_key_def)
  then show "u = v \<and> k = l" by (simp add: show_int_inj)
qed simp

text \<open>Every key with an order is a key of the user who placed that order.\<close>

definition own_keys :: "db \<Rightarrow> bool" where
  "own_keys s \<longleftrightarrow> db_wf s
     \<and> (\<forall>k \<in> set (idempotency_keys s). \<forall>i. ik_order_id k = Some i \<longrightarrow>
          (\<exists>r \<in> set (orders s). \<exists>u c. o_id r = i \<and> o_userId r = Some u \<and> ik_key k = namespaced_key (Some u) c))"

lemma since_owner:
  assumes "since s s'" "r \<in> set (orders s)"
  obtains r' where "r' \<in> set (orders s')" "o_id r' = o_id r" "o_userId r' = o_userId r"
  using kept_view [of s s' r] assms by (auto simp: since_def later_def)

lemma own_keysD:
  assumes "own_keys s" "k \<in> set (idempotency_keys s)" "ik_order_id k = Some i"
  obtains r u c where "r \<in> set (orders s)" "o_id r = i" "o_userId r = Some u" "ik_key k = namespaced_key (Some u) c"
  using assms unfolding own_keys_def by blast

lemma own_keys_old:
  assumes "own_keys s" "since s s'" "k \<in> set (idempotency_keys s)" "ik_order_id k = Some i"
  shows "\<exists>r \<in> set (orders s'). \<exists>u c. o_id r = i \<and> o_userId r = Some u \<and> ik_key k = namespaced_key (Some u) c"
proof -
  obtain r u c where r: "r \<in> set (orders s)" "o_id r = i" "o_userId r = Some u" "ik_key k = namespaced_key (Some u) c"
    using own_keysD [OF assms(1,3,4)] .
  obtain r' where "r' \<in> set (orders s')" "o_id r' = o_id r" "o_userId r' = o_userId r"
    using since_owner [OF assms(2) r(1)] .
  then show ?thesis using r by (intro bexI [of _ r'] exI [of _ u] exI [of _ c]) simp_all
qed

lemma own_keys_later:
  assumes "own_keys s" "since s s'" "set (idempotency_keys s') \<subseteq> set (idempotency_keys s)"
  shows "own_keys s'"
  unfolding own_keys_def
proof (intro conjI ballI allI impI)
  show "db_wf s'" using assms(2) by (simp add: since_def)
  fix k i assume "k \<in> set (idempotency_keys s')" "ik_order_id k = Some i"
  then show "\<exists>r \<in> set (orders s'). \<exists>u c. o_id r = i \<and> o_userId r = Some u \<and> ik_key k = namespaced_key (Some u) c"
    using assms(3) by (intro own_keys_old [OF assms(1,2)]) auto
qed

lemma keeps_own_keys_claim:
  "keeps own_keys (transaction (claim_or_create uuid now dto (namespaced_key (Some u) key) h (Some u)))"
proof (rule keeps_transaction_ok)
  fix s a s'
  assume s: "own_keys s"
    and run: "claim_or_create uuid now dto (namespaced_key (Some u) key) h (Some u) s = (Inr a, s')"
  show "own_keys s'"
  proof (cases a)
    case (Replay row)
    then show ?thesis using claim_or_create_replay run s by blast
  next
    case (Created e)
    then have run': "claim_or_create uuid now dto (namespaced_key (Some u) key) h (Some u) s
        = (Inr (Created e), s')" using run by simp
    have wf: "db_wf s" using s by (simp add: own_keys_def)
    have since: "since s s'" using created_db(1) [OF run' wf] .
    let ?s = "s'\<lparr>idempotency_keys := idempotency_keys s\<rparr>"
    let ?r = "oe_row e"
    let ?new = "\<lparr>ik_key = namespaced_key (Some u) key, ik_request_hash = h, ik_order_id = Some (o_id ?r)\<rparr>"
    have keys: "idempotency_keys s' = idempotency_keys s @ [?new]"
      and owner: "o_userId ?r = Some u"
      using claim_or_create_created [OF run'] by (auto simp: placed_def Let_def)
    have "?r \<in> set (orders s')" using created_db(2) [OF run' wf] .
    then show ?thesis
      using own_keys_old [OF s since] owner since keys unfolding own_keys_def since_def by auto
  qed
next
  fix s t assume s: "own_keys s" and le: "seqs_le s t"
  have "since s (rolled_back s t)"
    using since_rolled_back [OF since_refl le] s by (simp add: own_keys_def)
  then show "own_keys (rolled_back s t)" using own_keys_later [OF s] by simp
qed (rule forward_claim)

text \<open>So the answer to a request is an order of its user.\<close>

lemma answer_is_own:
  assumes "own_keys (sh_db w)"
    and "post_order sha isEmail uuid now body hdr user w = (Inr (answer, rep), w')"
  shows "own_keys (sh_db w') \<and>
    (\<exists>r \<in> set (orders (sh_db w')). o_userId r = Some user \<and> answer = order_view (load_order (sh_db w') r))"
proof -
  have wf: "db_wf (sh_db w)" using assms(1) by (simp add: own_keys_def)
  obtain dto key where run: "createIdempotent sha uuid now body dto key (Some user) w = (Inr (answer, rep), w')"
    using assms(2) by (cases rule: post_order_cases) auto
  have "keeps (\<lambda>w. own_keys (sh_db w)) (createIdempotent sha uuid now body dto key (Some user))"
    by (rule keeps_createIdempotent [OF keeps_own_keys_claim])
  from keepsD [OF this, of w] have own: "own_keys (sh_db w')" using assms(1) run by simp
  obtain r where r: "r \<in> set (orders (sh_db w'))" "answer = order_view (load_order (sh_db w') r)"
    and key: "\<lparr>ik_key = namespaced_key (Some user) key, ik_request_hash = sha (json_text body),
          ik_order_id = Some (o_id r)\<rparr> \<in> set (idempotency_keys (sh_db w'))"
    using createIdempotent_done [OF wf run] by blast
  obtain r' u c where r': "r' \<in> set (orders (sh_db w'))" "o_id r' = o_id r"
      "o_userId r' = Some u" "namespaced_key (Some user) key = namespaced_key (Some u) c"
    by (rule own_keysD [OF own key, simplified]) blast
  have "r' = r"
    using key_eq [OF order_ids_distinct r'(1) r(1) r'(2)] own by (simp add: own_keys_def)
  moreover have "u = user" using r'(4) by (simp add: namespaced_key_inj)
  ultimately show ?thesis using own r r'(3) by blast
qed

text \<open>The answer to a request is always an order of the user who sent it, new or replayed: a key
  that somebody else used is a different key.\<close>

theorem post_order_own:
  assumes "own_keys (sh_db w)"
    and "post_order sha isEmail uuid now body hdr user w = (Inr (answer, rep), w')"
  shows "own_keys (sh_db w') \<and>
    (\<exists>r \<in> set (orders (sh_db w')). o_userId r = Some user \<and> answer = order_view (load_order (sh_db w') r))"
  by (rule answer_is_own [OF assms])

theorem post_order_own_witness:
  "\<exists>w :: shop. \<exists>r \<in> set (orders (sh_db w)). o_userId r = Some 1 \<and> sample_answer = order_view (load_order (sh_db w) r)"
proof -
  obtain w where w: "post_order id (\<lambda>_. True) ''row-1'' 5 sample_body (Some ''k'') 1 sample_shop
      = (Inr (sample_answer, False), w)"
    using sample_post
    by (cases "post_order id (\<lambda>_. True) ''row-1'' 5 sample_body (Some ''k'') 1 sample_shop") auto
  have "own_keys (sh_db sample_shop)"
    using sample_db_wf by (simp add: own_keys_def sample_db_def empty_db_def)
  from post_order_own [OF this w] show ?thesis by blast
qed

subsection \<open>What a user sees\<close>

definition role_in :: "db \<Rightarrow> int \<Rightarrow> user_role option" where
  "role_in s a = map_option u_role (find (\<lambda>u. u_id u = a) (users s))"

definition visible :: "db \<Rightarrow> int \<Rightarrow> order_row list" where
  "visible s a = filter (\<lambda>r. role_in s a = Some admin \<or> o_userId r = Some a) (orders s)"

lemma roleOf_run: "int4 a \<Longrightarrow> roleOf a s = (Inr (role_in s a), s)"
  by (simp add: roleOf_def role_in_def find_user_run and_then_def)

lemma roleOf_error: "\<not> int4 a \<Longrightarrow> roleOf a s = (Inl (int_error a), s)"
  by (simp add: roleOf_def find_user_run and_then_def)

lemma for_each_toResponse:
  "\<forall>e \<in> set es. joined e \<Longrightarrow> for_each order_toResponse es s = (Inr (map order_view es), s)"
  by (rule for_each_ret) (simp add: order_toResponse_run)

lemma findAll_run:
  assumes "db_wf s" "int4 a"
  shows "orders_findAll limit cursor a s =
    (case select_after o_id (after_id cursor) (limit + 1) (visible s a) of
       Inl e \<Rightarrow> (Inl e, s)
     | Inr rows \<Rightarrow> (Inr (page_of o_id (\<lambda>r. order_view (load_order s r)) limit rows), s))"
proof -
  have f: "for_each order_toResponse (map (load_order s) rs) s
      = (Inr (map (\<lambda>r. order_view (load_order s r)) rs), s)" for rs
    using for_each_toResponse [of "map (load_order s) rs" s] joined_load [OF assms(1)]
    by (simp add: comp_def)
  show ?thesis
    using roleOf_run [OF assms(2), of s] f
    by (auto simp: orders_findAll_def visible_def page_of_def Let_def and_then_def
        split: sum.splits)
qed

lemma assertCanView_run:
  assumes "db_wf s" "int4 a" "int_param (js_Number oid) = Inr n" "is_integer (js_Number oid)"
  shows "assertCanView oid a s =
    (if n \<in> o_id ` set (visible s a) then Inr () else Inl (not_found oid), s)"
proof (cases "find (\<lambda>r. o_id r = n) (orders s)")
  case None
  then have "filter (\<lambda>r. o_id r = n) (orders s) = []" by (simp add: find_None_filter)
  moreover from this have "n \<notin> o_id ` set (visible s a)"
    by (auto simp: visible_def filter_empty_conv)
  ultimately show ?thesis using assms(3,4) by (simp add: assertCanView_def Let_def)
next
  case (Some r)
  then have r: "r \<in> set (orders s)" "o_id r = n" by (auto dest: find_Some_in)
  note d = order_ids_distinct [OF assms(1)]
  have one: "q = r" if "q \<in> set (orders s)" "o_id q = n" for q
    using key_eq [OF d that(1) r(1)] that(2) r(2) by simp
  have "filter (\<lambda>q. o_id q = n) (orders s) = [r]"
    using filter_key [OF d r(1)] r(2) by simp
  moreover have "n \<in> o_id ` set (visible s a) \<longleftrightarrow> r \<in> set (visible s a)"
  proof
    assume "n \<in> o_id ` set (visible s a)"
    then obtain q where "q \<in> set (visible s a)" "o_id q = n" by blast
    moreover from this have "q = r" using one by (simp add: visible_def)
    ultimately show "r \<in> set (visible s a)" by simp
  qed (use r(2) in blast)
  then have "n \<in> o_id ` set (visible s a) \<longleftrightarrow> role_in s a = Some admin \<or> o_userId r = Some a"
    using r(1) by (simp add: visible_def)
  ultimately show ?thesis
    using assms(3,4) roleOf_run [OF assms(2), of s] by (simp add: assertCanView_def Let_def)
qed

lemma find_visible:
  assumes "db_wf s" "n \<in> o_id ` set (visible s a)"
  shows "find (\<lambda>r. o_id r = n) (orders s) = find (\<lambda>r. o_id r = n) (visible s a)"
    "find (\<lambda>r. o_id r = n) (orders s) \<noteq> None"
proof -
  obtain r where r: "r \<in> set (visible s a)" "o_id r = n" using assms(2) by auto
  have "distinct (map o_id (visible s a))"
    using order_ids_distinct [OF assms(1)] by (simp add: visible_def distinct_map_filter)
  then have "find (\<lambda>q. o_id q = o_id r) (visible s a) = Some r" using r(1) by (rule find_key)
  moreover have "find (\<lambda>q. o_id q = o_id r) (orders s) = Some r"
    using order_ids_distinct [OF assms(1)] r(1) by (intro find_key) (simp_all add: visible_def)
  ultimately show "find (\<lambda>r. o_id r = n) (orders s) = find (\<lambda>r. o_id r = n) (visible s a)"
    "find (\<lambda>r. o_id r = n) (orders s) \<noteq> None" using r(2) by simp_all
qed

text \<open>Looking an order up depends on nothing but the caller's view.\<close>

lemma findOneFor_run:
  assumes "db_wf s" "int4 a"
  shows "findOneFor oid a s =
    (if \<not> is_integer (js_Number oid) then Inl (not_found oid)
     else case int_param (js_Number oid) of
         Inl e \<Rightarrow> Inl e
       | Inr n \<Rightarrow> (case find (\<lambda>r. o_id r = n) (visible s a) of
             None \<Rightarrow> Inl (not_found oid)
           | Some r \<Rightarrow> Inr (order_view (load_order s r))), s)"
proof (cases "is_integer (js_Number oid)")
  case False
  then show ?thesis by (simp add: findOneFor_def assertCanView_def Let_def and_then_def)
next
  case True
  then have nan: "js_Number oid \<noteq> NaN" by (auto simp: is_integer_def)
  show ?thesis
  proof (cases "int_param (js_Number oid)")
    case (Inl e)
    then show ?thesis using True by (simp add: findOneFor_def assertCanView_def Let_def and_then_def)
  next
    case (Inr n)
    note run = assertCanView_run [OF assms Inr True]
    show ?thesis
    proof (cases "n \<in> o_id ` set (visible s a)")
      case False
      then have "find (\<lambda>r. o_id r = n) (visible s a) = None" by (auto simp: find_None_iff)
      then show ?thesis using run False True Inr by (simp add: findOneFor_def)
    next
      case vis: True
      obtain r where r: "find (\<lambda>r. o_id r = n) (orders s) = Some r" "find (\<lambda>r. o_id r = n) (visible s a) = Some r"
        using find_visible [OF assms(1) vis] by auto
      then show ?thesis
        using run vis True Inr nan order_toResponse_run [OF joined_load [OF assms(1)], of r s]
        by (simp add: findOneFor_def orders_findOne_def Let_def and_then_def)
    qed
  qed
qed

lemma view_same_items:
  "items_of s r = items_of t r \<Longrightarrow> order_view (load_order s r) = order_view (load_order t r)"
  by (simp add: order_view_load)

lemma page_of_cong:
  "(\<And>r. r \<in> set rows \<Longrightarrow> f r = g r) \<Longrightarrow> page_of rid f n rows = page_of rid g n rows"
  by (auto simp: page_of_def Let_def dest: in_set_takeD)

lemma select_after_subset: "select_after rid x n rows = Inr found \<Longrightarrow> set found \<subseteq> set rows"
  by (auto simp: select_after_def split: if_splits sum.splits dest: in_set_takeD)

text \<open>C17: for a user who is not an administrator, the answers of the order lookups and of the listing
  do not depend on anybody else's orders: two databases with the same own orders and items give
  the same answer to every request, so an order of somebody else cannot be told from a missing one.\<close>

theorem others_orders_invisible:
  assumes "db_wf s" and "db_wf t" and "int4 a"
    and "role_in s a \<noteq> Some admin" and "role_in t a \<noteq> Some admin"
    and "filter (\<lambda>r. o_userId r = Some a) (orders s) = filter (\<lambda>r. o_userId r = Some a) (orders t)"
    and "\<forall>r \<in> set (orders s). o_userId r = Some a \<longrightarrow> items_of s r = items_of t r"
  shows "outcome (findOneFor oid a) s = outcome (findOneFor oid a) t
    \<and> outcome (canView i a) s = outcome (canView i a) t
    \<and> outcome (orders_findAll limit cursor a) s = outcome (orders_findAll limit cursor a) t"
proof -
  have vis: "visible s a = visible t a" using assms(4-6) by (simp add: visible_def)
  have own: "set (visible s a) \<subseteq> {r \<in> set (orders s). o_userId r = Some a}"
    using assms(4) by (auto simp: visible_def)
  have view: "order_view (load_order s r) = order_view (load_order t r)" if "r \<in> set (visible s a)" for r
    using assms(7) own that by (intro view_same_items) auto
  have "outcome (findOneFor oid a) s = outcome (findOneFor oid a) t"
    using findOneFor_run [OF assms(1,3), of oid] findOneFor_run [OF assms(2,3), of oid] vis view
    by (auto split: sum.splits option.splits dest: find_Some_in)
  moreover have "outcome (canView i a) s = outcome (canView i a) t"
  proof (cases "int_param (js_Number (show_int i))")
    case (Inl e)
    then show ?thesis
      by (simp add: canView_def assertCanView_def Let_def and_then_def on_error_def guard_def)
  next
    case (Inr n)
    have "is_integer (js_Number (show_int i))" by (simp add: js_Number_show_int_all is_integer_def)
    from assertCanView_run [OF assms(1,3) Inr this] assertCanView_run [OF assms(2,3) Inr this] vis
    show ?thesis by (simp add: canView_def and_then_def on_error_def not_found_def)
  qed
  moreover have "outcome (orders_findAll limit cursor a) s = outcome (orders_findAll limit cursor a) t"
  proof (cases "select_after o_id (after_id cursor) (limit + 1) (visible s a)")
    case (Inl e)
    then show ?thesis using findAll_run [OF assms(1,3)] findAll_run [OF assms(2,3)] vis by simp
  next
    case (Inr rows)
    then have "set rows \<subseteq> set (visible s a)" by (rule select_after_subset)
    then have "page_of o_id (\<lambda>r. order_view (load_order s r)) limit rows
        = page_of o_id (\<lambda>r. order_view (load_order t r)) limit rows"
      using view by (intro page_of_cong) auto
    then show ?thesis using Inr findAll_run [OF assms(1,3)] findAll_run [OF assms(2,3)] vis by simp
  qed
  ultimately show ?thesis by blast
qed

theorem others_orders_invisible_witness:
  "outcome (findOneFor ''1'' 2) sample_ordered = outcome (findOneFor ''1'' 2) sample_db
    \<and> outcome (canView 1 2) sample_ordered = outcome (canView 1 2) sample_db
    \<and> outcome (orders_findAll 20 None 2) sample_ordered = outcome (orders_findAll 20 None 2) sample_db"
  by (rule others_orders_invisible [OF sample_ordered_wf sample_db_wf])
    (simp_all add: int4_def role_in_def sample_ordered_def sample_order_def sample_db_def
      sample_user_def empty_db_def)

subsection \<open>The listing\<close>

lemma page_of_map:
  "page_of rid view n (map f rows) = page_of (\<lambda>r. rid (f r)) (\<lambda>r. view (f r)) n rows"
  by (cases "take n rows") (auto simp: page_of_def Let_def take_map last_map comp_def)

lemma visible_serial: "db_wf s \<Longrightarrow> serial (map o_id (visible s a)) (seq_orders s)"
proof -
  assume "db_wf s"
  then have ser: "serial (map o_id (orders s)) (seq_orders s)" by (simp add: db_wf_defs)
  have "sorted_wrt (<) (map o_id (visible s a))"
    using ser by (auto simp: visible_def serial_def sorted_wrt_map intro: sorted_wrt_filter)
  then show ?thesis using ser by (auto simp: serial_def visible_def)
qed

interpretation orders_listing: keyset_listing
  "\<lambda>(s, a) limit c. outcome (orders_findAll limit c a) s"
  "\<lambda>(s, a). map (load_order s) (visible s a)" "\<lambda>e. o_id (oe_row e)" order_view
  "\<lambda>(s, a). db_wf s \<and> int4 a"
proof
  fix sa :: "db \<times> int" and limit
  assume wf: "case sa of (s, a) \<Rightarrow> db_wf s \<and> int4 a"
  obtain s a where sa: "sa = (s, a)" by (cases sa)
  have wf: "db_wf s" "int4 a" using wf sa by auto
  have id: "o_id (oe_row (load_order s r)) = o_id r" for r by (simp add: load_order_def)
  note ser = visible_serial [OF wf(1), of a]
  show "sorted_wrt (\<lambda>e f. o_id (oe_row e) < o_id (oe_row f)) (case sa of (s, a) \<Rightarrow> map (load_order s) (visible s a))"
    using serial_sorted_rows [OF ser] by (simp add: sa sorted_wrt_map id)
  show "(case sa of (s, a) \<Rightarrow> \<lambda>limit c. outcome (orders_findAll limit c a) s) limit None
      = Inr (page_of (\<lambda>e. o_id (oe_row e)) order_view limit
          (take (limit + 1) (case sa of (s, a) \<Rightarrow> map (load_order s) (visible s a))))"
    using findAll_run [OF wf, of limit None] select_after_start [OF ser]
    by (simp add: sa take_map page_of_map id)
  fix e assume e: "e \<in> set (case sa of (s, a) \<Rightarrow> map (load_order s) (visible s a))"
  then obtain r where r: "r \<in> set (visible s a)" "e = load_order s r" using sa by auto
  have "filter (\<lambda>q. o_id (oe_row e) < o_id (oe_row q)) (map (load_order s) (visible s a))
      = map (load_order s) (filter (\<lambda>q. o_id r < o_id q) (visible s a))"
    by (simp add: filter_map comp_def r(2) id)
  then show "(case sa of (s, a) \<Rightarrow> \<lambda>limit c. outcome (orders_findAll limit c a) s) limit
        (Some (encodeCursor (show_int (o_id (oe_row e)))))
      = Inr (page_of (\<lambda>e. o_id (oe_row e)) order_view limit (take (limit + 1)
          (filter (\<lambda>q. o_id (oe_row e) < o_id (oe_row q)) (case sa of (s, a) \<Rightarrow> map (load_order s) (visible s a)))))"
    using findAll_run [OF wf, of limit "Some (encodeCursor (show_int (o_id r)))"]
      select_after_row [OF ser r(1), of "limit + 1"]
    by (simp add: sa take_map page_of_map id r(2))
qed

text \<open>C28: walking the order listing page by page returns exactly the orders the user may see, each
  once, in the order of ids.\<close>

theorem orders_walk:
  assumes "db_wf s" and "int4 a" and "0 < limit" and "length (visible s a) < fuel"
  shows "walk_pages (\<lambda>c. outcome (orders_findAll limit c a) s) fuel None
    = Some (map (\<lambda>r. order_view (load_order s r)) (visible s a))"
  using orders_listing.walk_all [of "(s, a)" limit fuel] assms by (simp add: comp_def)

subsection \<open>Status changes\<close>

lemma find_with_status:
  "find (\<lambda>r. o_id r = n) (with_status n st rs) = map_option (\<lambda>r. r\<lparr>o_status := st\<rparr>) (find (\<lambda>r. o_id r = n) rs)"
  by (induction rs) (auto simp: with_status_def)

text \<open>A status change of an existing order sets the status of that order and of no other, emits
  exactly one event with it, and answers with the order in its new state; for an id that is not
  there it answers 404 and neither writes nor emits.\<close>

theorem updateStatus_correct:
  assumes "db_wf (market_db k)" and "int4 n"
  shows "if n \<in> o_id ` set (orders (market_db k))
    then \<exists>r. r \<in> set (orders (market_db k)) \<and> o_id r = n
      \<and> updateStatus (show_int n) status k
        = (Inr ((order_view (load_order (market_db k) r))\<lparr>or_status := status\<rparr>),
           k\<lparr>mk_shop := (mk_shop k)\<lparr>sh_db := (market_db k)\<lparr>orders :=
                map (\<lambda>q. if q = r then q\<lparr>o_status := status\<rparr> else q) (orders (market_db k))\<rparr>\<rparr>,
              mk_events := snd (emitStatusChanged n status (mk_events k))\<rparr>)
    else updateStatus (show_int n) status k = (Inl (not_found (show_int n)), k)"
proof (cases "n \<in> o_id ` set (orders (market_db k))")
  case False
  then have "filter (\<lambda>r. o_id r = n) (orders (market_db k)) = []" by (auto simp: filter_empty_conv)
  moreover have "with_status n status (orders (market_db k)) = orders (market_db k)"
    using False unfolding with_status_def by (intro map_idI) auto
  ultimately show ?thesis
    using False assms(2)
    by (simp add: updateStatus_def js_Number_show_int_all int_param_int in_shop_def on_db_def
        set_order_status_run and_then_def)
next
  case True
  then obtain r where r: "r \<in> set (orders (market_db k))" "o_id r = n" by blast
  let ?d = "(market_db k)\<lparr>orders := with_status n status (orders (market_db k))\<rparr>"
  have one: "filter (\<lambda>q. o_id q = n) (orders (market_db k)) = [r]"
    using filter_key [OF order_ids_distinct [OF assms(1)] r(1)] r(2) by simp
  have eqv: "q = r \<longleftrightarrow> o_id q = n" if "q \<in> set (orders (market_db k))" for q
    using key_eq [OF order_ids_distinct [OF assms(1)] that r(1)] r(2) by auto
  have same: "with_status n status (orders (market_db k))
      = map (\<lambda>q. if q = r then q\<lparr>o_status := status\<rparr> else q) (orders (market_db k))"
    unfolding with_status_def by (intro map_cong refl) (simp add: eqv)
  have wf: "db_wf ?d"
    using keepsD [OF keeps_since_status [of "market_db k" n status] since_refl [OF assms(1)]]
    by (simp add: since_def set_order_status_run)
  have mem: "r\<lparr>o_status := status\<rparr> \<in> set (orders ?d)" using r by (auto simp: same)
  have "orders_findOne (show_int n) ?d = (Inr (order_view (load_order ?d (r\<lparr>o_status := status\<rparr>))), ?d)"
    using orders_findOne_present [OF wf mem] r(2) by simp
  moreover have "order_view (load_order ?d (r\<lparr>o_status := status\<rparr>))
      = (order_view (load_order (market_db k) r))\<lparr>or_status := status\<rparr>"
    by (simp add: order_view_load)
  ultimately have "updateStatus (show_int n) status k
        = (Inr ((order_view (load_order (market_db k) r))\<lparr>or_status := status\<rparr>),
           k\<lparr>mk_shop := (mk_shop k)\<lparr>sh_db := ?d\<rparr>,
              mk_events := snd (emitStatusChanged n status (mk_events k))\<rparr>)"
    using assms(2) one
    by (simp add: updateStatus_def js_Number_show_int_all int_param_int in_shop_def on_db_def
        set_order_status_run and_then_def)
  then show ?thesis using True r same by auto
qed

theorem updateStatus_correct_witness:
  "\<exists>r k'. updateStatus ''1'' ''paid'' (sample_market\<lparr>mk_shop := sample_shop\<lparr>sh_db := sample_ordered\<rparr>\<rparr>)
      = (Inr (r\<lparr>or_status := ''paid''\<rparr>), k')"
  using updateStatus_correct [of "sample_market\<lparr>mk_shop := sample_shop\<lparr>sh_db := sample_ordered\<rparr>\<rparr>" 1 "''paid''"]
    sample_ordered_wf
  by (auto simp: int4_def show_small sample_ordered_def sample_order_def)

theorem orders_walk_witness:
  "walk_pages (\<lambda>c. outcome (orders_findAll 1 c 1) sample_ordered) 2 None
    = Some [order_view (load_order sample_ordered sample_order)]"
  using orders_walk [OF sample_ordered_wf, of 1 1 2]
  by (simp add: int4_def visible_def sample_ordered_def sample_order_def)

end
