(* ===== verification/Gateway.thy ===== *)
theory Gateway
  imports Authentication OrdersCorrect
begin

text \<open>
  The WebSocket gateway: \<open>src/orders/orders.gateway.ts\<close>.

  A socket keeps its principal (\<open>socket.data.principal\<close>), the instant its disconnect timer is due, the
  rooms it is in and what it was sent. The gateway's state is the list of its sockets; what a handler reads
  from outside (the clock, Redis, the database) is the \<open>surroundings\<close> it runs in. \<open>isDenied\<close> and \<open>canView\<close>
  change neither store, so a handler only returns the socket it leaves. Each handler runs as one step.

  What socket.io does is a few lines: a refused middleware means no socket, \<open>disconnect\<close> leaves every
  room, \<open>to(room).emit\<close> reaches the connected members. \<open>setTimeout\<close> is Node's: a delay below 1 ms or
  above 2147483647 ms counts as 1 ms, and fractions are cut.
\<close>

record handshake =
  hs_auth :: "json option"
  hs_authorization :: "string option"

record socket =
  sk_principal :: "access_principal option"
  sk_connected :: bool
  sk_rooms :: "string list"
  sk_timer :: "int option"
  sk_sent :: "(int \<times> string) list"

record surroundings =
  su_now :: int
  su_redis :: redis
  su_db :: db

record join_ack =
  ja_joined :: bool
  ja_room :: "string option"
  ja_reason :: "string option"

definition roomName :: "int \<Rightarrow> string" where
  "roomName orderId = ''orders:'' @ show_int orderId"

definition extractToken :: "handshake \<Rightarrow> string option" where
  "extractToken hs =
     (case Option.bind (hs_auth hs) (field_of ''token'') of
        Some (JString t) \<Rightarrow> if t \<noteq> [] then Some t else Option.bind (hs_authorization hs) bearer_token
      | _ \<Rightarrow> Option.bind (hs_authorization hs) bearer_token)"

definition authenticate ::
  "('k, 'p) jwt_lib \<Rightarrow> ('k, 'p) key_store \<Rightarrow> surroundings \<Rightarrow> handshake \<Rightarrow> error + access_principal" where
  "authenticate lib keys env hs =
     (case extractToken hs of
        None \<Rightarrow> Inl (PlainError ''unauthorized'')
      | Some token \<Rightarrow>
          (case verifyAccess lib keys token (su_now env) of
             Inl _ \<Rightarrow> Inl (PlainError ''unauthorized'')
           | Inr who \<Rightarrow>
               (case fst (isDenied (ap_jti who) (ap_familyId who) (su_redis env)) of
                  Inl _ \<Rightarrow> Inl (PlainError ''service_unavailable'')
                | Inr denied \<Rightarrow> if denied then Inl (PlainError ''unauthorized'') else Inr who)))"

definition disconnect :: "socket \<Rightarrow> socket" where
  "disconnect client = client\<lparr>sk_connected := False, sk_rooms := [], sk_timer := None\<rparr>"

definition timeout_ms :: "rat \<Rightarrow> int" where
  "timeout_ms delay = (if 1 \<le> delay \<and> delay \<le> 2147483647 then \<lfloor>delay\<rfloor> else 1)"

definition handleConnection :: "int \<Rightarrow> socket \<Rightarrow> socket" where
  "handleConnection now client =
     (case sk_principal client of
        None \<Rightarrow> disconnect client
      | Some who \<Rightarrow> client\<lparr>sk_timer := Some (now + timeout_ms (max (ap_expiresAt who * 1000 - of_int now) 0))\<rparr>)"

definition not_joined :: "string \<Rightarrow> join_ack" where
  "not_joined reason = \<lparr>ja_joined = False, ja_room = None, ja_reason = Some reason\<rparr>"

definition handleJoin :: "surroundings \<Rightarrow> json option \<Rightarrow> (socket, error, join_ack) action" where
  "handleJoin env payload = (\<lambda>client.
     case sk_principal client of
       None \<Rightarrow> (Inr (not_joined ''unauthorized''), disconnect client)
     | Some who \<Rightarrow>
         if ap_expiresAt who * 1000 \<le> of_int (su_now env)
         then (Inr (not_joined ''unauthorized''), disconnect client)
         else (case int_of_num (js_Number_of (Option.bind payload (field_of ''orderId''))) of
             None \<Rightarrow> (Inr (not_joined ''orderId is required''), client)
           | Some orderId \<Rightarrow>
               (case fst (isDenied (ap_jti who) (ap_familyId who) (su_redis env)) of
                  Inl _ \<Rightarrow> (Inr (not_joined ''service_unavailable''), client)
                | Inr denied \<Rightarrow>
                    if denied then (Inr (not_joined ''unauthorized''), disconnect client)
                    else (case fst (canView orderId (ap_userId who) (su_db env)) of
                        Inl e \<Rightarrow> (Inl e, client)
                      | Inr False \<Rightarrow> (Inr (not_joined ''not_found''), client)
                      | Inr True \<Rightarrow>
                          (Inr \<lparr>ja_joined = True, ja_room = Some (roomName orderId), ja_reason = None\<rparr>,
                           client\<lparr>sk_rooms := List.insert (roomName orderId) (sk_rooms client)\<rparr>)))))"

text \<open>The callback \<open>afterInit\<close> subscribes: \<open>to(room).emit('order.status', \<dots>)\<close>, seen by one socket.\<close>

definition on_status :: "order_status_event \<Rightarrow> socket \<Rightarrow> socket" where
  "on_status e client =
     (if sk_connected client \<and> roomName (se_orderId e) \<in> set (sk_rooms client)
      then client\<lparr>sk_sent := sk_sent client @ [(se_orderId e, se_status e)]\<rparr> else client)"

subsection \<open>What happens to the gateway\<close>

datatype gateway_event =
    Connects nat handshake
  | Joins nat "json option"
  | StatusChanges order_status_event
  | TimerFires nat
  | GoesAway nat

definition new_socket :: "access_principal \<Rightarrow> socket" where
  "new_socket who = \<lparr>sk_principal = Some who, sk_connected = True, sk_rooms = [], sk_timer = None, sk_sent = []\<rparr>"

definition at_socket :: "nat \<Rightarrow> (socket \<Rightarrow> socket) \<Rightarrow> (nat \<times> socket) list \<Rightarrow> (nat \<times> socket) list" where
  "at_socket i f = map (\<lambda>(j, client). (j, if j = i \<and> sk_connected client then f client else client))"

text \<open>A new connection gets an identifier of its own; one that is taken names no new socket.\<close>

fun gateway_step ::
  "('k, 'p) jwt_lib \<Rightarrow> ('k, 'p) key_store \<Rightarrow> surroundings \<times> gateway_event \<Rightarrow> (nat \<times> socket) list \<Rightarrow> (nat \<times> socket) list" where
  "gateway_step lib keys (env, Connects i hs) socks =
     (if i \<in> fst ` set socks then socks
      else (case authenticate lib keys env hs of
              Inl _ \<Rightarrow> socks
            | Inr who \<Rightarrow> socks @ [(i, handleConnection (su_now env) (new_socket who))]))"
| "gateway_step lib keys (env, Joins i payload) socks =
     at_socket i (\<lambda>client. snd (handleJoin env payload client)) socks"
| "gateway_step lib keys (env, StatusChanges e) socks = map (\<lambda>(i, client). (i, on_status e client)) socks"
| "gateway_step lib keys (env, TimerFires i) socks =
     at_socket i (\<lambda>client. case sk_timer client of
       Some t \<Rightarrow> if t \<le> su_now env then disconnect client else client | None \<Rightarrow> client) socks"
| "gateway_step lib keys (env, GoesAway i) socks = at_socket i disconnect socks"

definition gateway_run ::
  "('k, 'p) jwt_lib \<Rightarrow> ('k, 'p) key_store \<Rightarrow> (surroundings \<times> gateway_event) list \<Rightarrow> (nat \<times> socket) list" where
  "gateway_run lib keys evs = fold (gateway_step lib keys) evs []"

subsection \<open>Joining\<close>

text \<open>What a join needs at the moment it is handled.\<close>

definition admitted :: "surroundings \<Rightarrow> access_principal \<Rightarrow> int \<Rightarrow> bool" where
  "admitted env who orderId \<longleftrightarrow>
     of_int (su_now env) < ap_expiresAt who * 1000
   \<and> fst (isDenied (ap_jti who) (ap_familyId who) (su_redis env)) = Inr False
   \<and> fst (canView orderId (ap_userId who) (su_db env)) = Inr True"

lemma roomName_inj [simp]: "roomName m = roomName n \<longleftrightarrow> m = n"
  by (simp add: roomName_def show_int_inj)

lemma handleJoin_cases:
  assumes "sk_principal client = Some who"
  shows "(\<exists>n. int_of_num (js_Number_of (Option.bind payload (field_of ''orderId''))) = Some n \<and> admitted env who n
      \<and> handleJoin env payload client =
          (Inr \<lparr>ja_joined = True, ja_room = Some (roomName n), ja_reason = None\<rparr>,
           client\<lparr>sk_rooms := List.insert (roomName n) (sk_rooms client)\<rparr>))
    \<or> (\<exists>reason. handleJoin env payload client = (Inr (not_joined reason), client))
    \<or> (\<exists>e. handleJoin env payload client = (Inl e, client))
    \<or> handleJoin env payload client = (Inr (not_joined ''unauthorized''), disconnect client)"
  using assms
  by (auto simp: handleJoin_def admitted_def not_le split: option.splits sum.splits bool.splits)

lemma handleJoin_principal [simp]:
  "sk_principal (snd (handleJoin env payload client)) = sk_principal client"
  "sk_sent (snd (handleJoin env payload client)) = sk_sent client"
  by (auto simp: handleJoin_def disconnect_def split: option.splits sum.splits bool.splits)

lemma canView_run:
  assumes "db_wf s" "int4 a"
  shows "canView n a s =
    (if int4 n then Inr (n \<in> o_id ` set (visible s a))
     else Inl (if \<bar>n\<bar> < 10 ^ 21 then OUT_OF_RANGE else INVALID_TEXT), s)"
proof (cases "int4 n")
  case True
  then have "int_param (js_Number (show_int n)) = Inr n"
    by (simp add: js_Number_show_int_all int_param_int)
  then show ?thesis
    using True assertCanView_run [OF assms] by (simp add: canView_def is_integer_def js_Number_show_int_all and_then_def on_error_def not_found_def)
next
  case False
  then show ?thesis
    by (simp add: canView_def assertCanView_def Let_def is_integer_def js_Number_show_int_all int_param_def and_then_def on_error_def
        OUT_OF_RANGE_def INVALID_TEXT_def)
qed

text \<open>A socket joins the room of an order exactly when its token has not expired, Redis answers and does
  not hold the token, and the order exists and its user may see it; then it is in that room besides the
  rooms it was in. In every other case its rooms do not grow: with the token expired or revoked it is
  disconnected, otherwise it is left as it was. Orders of others and orders that do not exist are
  answered alike.\<close>

theorem handleJoin_correct:
  assumes "db_wf (su_db env)" and "sk_principal client = Some who" and "int4 (ap_userId who)"
    and "handleJoin env payload client = (res, client')"
    and "order = int_of_num (js_Number_of (Option.bind payload (field_of ''orderId'')))"
    and "valid \<longleftrightarrow> of_int (su_now env) < ap_expiresAt who * 1000"
    and "verdict = fst (isDenied (ap_jti who) (ap_familyId who) (su_redis env))"
  shows "((\<exists>ack. res = Inr ack \<and> ja_joined ack) \<longleftrightarrow>
      (\<exists>n. order = Some n \<and> int4 n \<and> valid \<and> r_up (su_redis env) \<and> verdict = Inr False
        \<and> n \<in> o_id ` set (visible (su_db env) (ap_userId who))
        \<and> res = Inr \<lparr>ja_joined = True, ja_room = Some (roomName n), ja_reason = None\<rparr>
        \<and> client' = client\<lparr>sk_rooms := List.insert (roomName n) (sk_rooms client)\<rparr>))
    \<and> ((\<nexists>ack. res = Inr ack \<and> ja_joined ack) \<longrightarrow>
        client' = (if \<not> valid \<or> order \<noteq> None \<and> verdict = Inr True then disconnect client else client))
    \<and> (\<forall>n. order = Some n \<longrightarrow> int4 n \<longrightarrow> valid \<longrightarrow> verdict = Inr False
        \<longrightarrow> n \<notin> o_id ` set (visible (su_db env) (ap_userId who)) \<longrightarrow> res = Inr (not_joined ''not_found''))"
proof -
  note [simp] = not_joined_def
  have up: "verdict = Inr b \<Longrightarrow> r_up (su_redis env)" for b
    using assms(7) by (auto simp: isDenied_run split: if_splits)
  consider "\<not> valid" | "valid" "order = None" | n e where "valid" "order = Some n" "verdict = Inl e"
    | n where "valid" "order = Some n" "verdict = Inr True" | n where "valid" "order = Some n" "verdict = Inr False"
    by (metis (full_types) not_None_eq sum.exhaust)
  then show ?thesis
  proof cases
    case 1
    then have "handleJoin env payload client = (Inr (not_joined ''unauthorized''), disconnect client)"
      using assms(2,6) by (simp add: handleJoin_def)
    then show ?thesis using 1 assms(4) by auto
  next
    case 2
    then have "handleJoin env payload client = (Inr (not_joined ''orderId is required''), client)"
      using assms(2,5,6) by (simp add: handleJoin_def)
    then show ?thesis using 2 assms(4) by auto
  next
    case 3
    then have "handleJoin env payload client = (Inr (not_joined ''service_unavailable''), client)"
      using assms(2,5-7) by (simp add: handleJoin_def)
    then show ?thesis using 3 assms(4) by auto
  next
    case 4
    then have "handleJoin env payload client = (Inr (not_joined ''unauthorized''), disconnect client)"
      using assms(2,5-7) by (simp add: handleJoin_def)
    then show ?thesis using 4 assms(4) by auto
  next
    case 5
    note view = canView_run [OF assms(1,3), of n]
    have run: "handleJoin env payload client =
      (if \<not> int4 n then (Inl (if \<bar>n\<bar> < 10 ^ 21 then OUT_OF_RANGE else INVALID_TEXT), client)
       else if n \<in> o_id ` set (visible (su_db env) (ap_userId who))
       then (Inr \<lparr>ja_joined = True, ja_room = Some (roomName n), ja_reason = None\<rparr>,
             client\<lparr>sk_rooms := List.insert (roomName n) (sk_rooms client)\<rparr>)
       else (Inr (not_joined ''not_found''), client))"
      using 5 assms(2,5-7) view by (simp add: handleJoin_def del: not_joined_def)
    show ?thesis using 5 up [OF 5(3)] assms(4) run by (auto split: if_splits)
  qed
qed

subsection \<open>What a socket is sent\<close>

text \<open>\<open>seen_by lib keys evs i client\<close>: how the socket \<open>client\<close> came to be what it is.\<close>

definition joined_in :: "(surroundings \<times> gateway_event) list \<Rightarrow> nat \<Rightarrow> access_principal \<Rightarrow> int \<Rightarrow> bool" where
  "joined_in evs i who n \<longleftrightarrow>
     (\<exists>env payload. (env, Joins i payload) \<in> set evs
        \<and> int_of_num (js_Number_of (Option.bind payload (field_of ''orderId''))) = Some n \<and> admitted env who n)"

definition authorized_feed :: "(surroundings \<times> gateway_event) list \<Rightarrow> nat \<Rightarrow> access_principal \<Rightarrow> socket \<Rightarrow> bool" where
  "authorized_feed evs i who client \<longleftrightarrow>
     sk_principal client = Some who
   \<and> (\<forall>room \<in> set (sk_rooms client). \<exists>n. room = roomName n \<and> joined_in evs i who n)
   \<and> (\<forall>(n, status) \<in> set (sk_sent client). \<exists>before env e after. evs = before @ (env, StatusChanges e) # after
        \<and> se_orderId e = n \<and> se_status e = status \<and> joined_in before i who n)"

lemma joined_in_more: "joined_in evs i who n \<Longrightarrow> joined_in (evs @ suffix') i who n"
  by (auto simp: joined_in_def)

lemma authorized_feed_more: "authorized_feed evs i who client \<Longrightarrow> authorized_feed (evs @ suffix') i who client"
  unfolding authorized_feed_def by (fastforce intro: joined_in_more)

lemma authorized_feed_disconnect:
  "authorized_feed evs i who client \<Longrightarrow> authorized_feed evs i who (disconnect client)"
  by (auto simp: authorized_feed_def disconnect_def)

lemma authorized_feed_join:
  assumes "authorized_feed evs i who client"
  shows "authorized_feed (evs @ [(env, Joins i payload)]) i who (snd (handleJoin env payload client))"
proof -
  have p: "sk_principal client = Some who" using assms by (simp add: authorized_feed_def)
  note old = authorized_feed_more [OF assms, of "[(env, Joins i payload)]"]
  from handleJoin_cases [OF p, of payload env] show ?thesis
  proof (elim disjE exE conjE)
    fix n
    assume n: "int_of_num (js_Number_of (Option.bind payload (field_of ''orderId''))) = Some n" "admitted env who n"
      and run: "handleJoin env payload client =
          (Inr \<lparr>ja_joined = True, ja_room = Some (roomName n), ja_reason = None\<rparr>,
           client\<lparr>sk_rooms := List.insert (roomName n) (sk_rooms client)\<rparr>)"
    have "joined_in (evs @ [(env, Joins i payload)]) i who n" using n by (auto simp: joined_in_def)
    then show ?thesis using old run by (auto simp: authorized_feed_def)
  qed (use old in \<open>simp_all add: authorized_feed_disconnect\<close>)
qed

lemma authorized_feed_status:
  assumes "authorized_feed evs i who client"
  shows "authorized_feed (evs @ [(env, StatusChanges e)]) i who (on_status e client)"
proof -
  note old = authorized_feed_more [OF assms, of "[(env, StatusChanges e)]"]
  show ?thesis
  proof (cases "sk_connected client \<and> roomName (se_orderId e) \<in> set (sk_rooms client)")
    case True
    then have "joined_in evs i who (se_orderId e)" using assms by (auto simp: authorized_feed_def)
    then have "\<exists>before env' e' after. evs @ [(env, StatusChanges e)] = before @ (env', StatusChanges e') # after
        \<and> se_orderId e' = se_orderId e \<and> se_status e' = se_status e \<and> joined_in before i who (se_orderId e)" by blast
    with old True show ?thesis by (auto simp: authorized_feed_def on_status_def)
  qed (use old in \<open>auto simp: on_status_def\<close>)
qed

text \<open>The timer runs as long as the socket is connected, and a socket that has gone is in no room.\<close>

definition timed :: "surroundings \<Rightarrow> access_principal \<Rightarrow> socket \<Rightarrow> bool" where
  "timed env who client \<longleftrightarrow>
     (if sk_connected client
      then sk_timer client = Some (su_now env + timeout_ms (max (ap_expiresAt who * 1000 - of_int (su_now env)) 0))
      else sk_timer client = None \<and> sk_rooms client = [])"

lemma timed_disconnect [simp]: "timed env who (disconnect client)"
  by (simp add: timed_def disconnect_def)

lemma timed_join: "timed env who client \<Longrightarrow> sk_connected client \<Longrightarrow> sk_principal client = Some who
    \<Longrightarrow> timed env who (snd (handleJoin env' payload client))"
  using handleJoin_cases [of client who payload env'] by (auto simp: timed_def disconnect_def)

lemma timed_status: "timed env who (on_status e client) = timed env who client"
  by (simp add: timed_def on_status_def)

lemma new_socket_feed:
  "authorized_feed [] i who (handleConnection now (new_socket who))"
  "su_now env = now \<Longrightarrow> timed env who (handleConnection now (new_socket who))"
  by (simp_all add: authorized_feed_def timed_def handleConnection_def new_socket_def)

definition socket_history ::
  "('k, 'p) jwt_lib \<Rightarrow> ('k, 'p) key_store \<Rightarrow> (surroundings \<times> gateway_event) list \<Rightarrow> nat \<Rightarrow> socket \<Rightarrow> bool" where
  "socket_history lib keys evs i client \<longleftrightarrow>
     (\<exists>before env hs after who. evs = before @ (env, Connects i hs) # after
        \<and> authenticate lib keys env hs = Inr who \<and> authorized_feed after i who client \<and> timed env who client)"

lemma socket_history_step:
  assumes "socket_history lib keys evs i client"
    and "\<And>env who after. authorized_feed after i who client \<Longrightarrow> timed env who client
      \<Longrightarrow> authorized_feed (after @ [ev]) i who client' \<and> timed env who client'"
  shows "socket_history lib keys (evs @ [ev]) i client'"
proof -
  from assms(1) obtain before env hs after who where h: "evs = before @ (env, Connects i hs) # after"
      "authenticate lib keys env hs = Inr who" "authorized_feed after i who client" "timed env who client"
    unfolding socket_history_def by blast
  have "evs @ [ev] = before @ (env, Connects i hs) # (after @ [ev])" using h(1) by simp
  then show ?thesis unfolding socket_history_def using h(2) assms(2) [OF h(3,4)] by blast
qed

lemma socket_history_idle: "socket_history lib keys evs i client \<Longrightarrow> socket_history lib keys (evs @ [ev]) i client"
  by (erule socket_history_step) (simp add: authorized_feed_more)

lemma socket_history_disconnect:
  "socket_history lib keys evs i client \<Longrightarrow> socket_history lib keys (evs @ [ev]) i (disconnect client)"
  by (erule socket_history_step) (simp add: authorized_feed_more authorized_feed_disconnect)

lemma socket_history_join:
  assumes "socket_history lib keys evs i client" and "sk_connected client"
  shows "socket_history lib keys (evs @ [(env, Joins i payload)]) i (snd (handleJoin env payload client))"
  using assms(1)
proof (rule socket_history_step)
  fix env' who after
  assume f: "authorized_feed after i who client" and t: "timed env' who client"
  then have "sk_principal client = Some who" by (simp add: authorized_feed_def)
  with f t assms(2) show "authorized_feed (after @ [(env, Joins i payload)]) i who (snd (handleJoin env payload client))
      \<and> timed env' who (snd (handleJoin env payload client))"
    by (simp add: authorized_feed_join timed_join)
qed

lemma socket_history_status:
  "socket_history lib keys evs i client \<Longrightarrow> socket_history lib keys (evs @ [(env, StatusChanges e)]) i (on_status e client)"
  by (erule socket_history_step) (simp add: authorized_feed_status timed_status)

lemma in_at_socket:
  "(j, c) \<in> set (at_socket i f socks) \<longleftrightarrow> (\<exists>c0. (j, c0) \<in> set socks \<and> c = (if j = i \<and> sk_connected c0 then f c0 else c0))"
  unfolding at_socket_def set_map by force

lemma gateway_run_snoc: "gateway_run lib keys (evs @ [ev]) = gateway_step lib keys ev (gateway_run lib keys evs)"
  by (simp add: gateway_run_def)

lemma gateway_run_history:
  "(i, client) \<in> set (gateway_run lib keys evs) \<Longrightarrow> socket_history lib keys evs i client"
proof (induction evs arbitrary: client rule: rev_induct)
  case Nil
  then show ?case by (simp add: gateway_run_def)
next
  case (snoc ev evs)
  obtain env g where ev: "ev = (env, g)" by fastforce
  note in_run = snoc.prems [unfolded gateway_run_snoc ev]
  show ?case
  proof (cases g)
    case (Connects j hs)
    then consider "(i, client) \<in> set (gateway_run lib keys evs)"
      | who where "i = j" "authenticate lib keys env hs = Inr who" "client = handleConnection (su_now env) (new_socket who)"
      using in_run by (auto split: if_splits sum.splits)
    then show ?thesis
    proof cases
      case 1
      then show ?thesis by (simp add: snoc.IH socket_history_idle)
    next
      case 2
      then show ?thesis unfolding socket_history_def ev Connects
        using new_socket_feed(1) new_socket_feed(2) [OF refl] by blast
    qed
  next
    case (Joins j payload)
    with in_run obtain c0 where "(i, c0) \<in> set (gateway_run lib keys evs)"
        "client = (if i = j \<and> sk_connected c0 then snd (handleJoin env payload c0) else c0)"
      by (auto simp: in_at_socket)
    then show ?thesis using snoc.IH [of c0] socket_history_join [of lib keys evs i c0 env payload]
        socket_history_idle [of lib keys evs i c0 ev] unfolding ev Joins by (cases "i = j \<and> sk_connected c0") auto
  next
    case (StatusChanges e)
    with in_run obtain c0 where "(i, c0) \<in> set (gateway_run lib keys evs)" "client = on_status e c0" by auto
    then show ?thesis using snoc.IH [of c0] unfolding ev StatusChanges by (simp add: socket_history_status)
  next
    case (TimerFires j)
    with in_run obtain c0 where "(i, c0) \<in> set (gateway_run lib keys evs)" "client = c0 \<or> client = disconnect c0"
      by (auto simp: in_at_socket split: option.splits if_splits)
    then show ?thesis using snoc.IH [of c0] by (auto simp: socket_history_idle socket_history_disconnect)
  next
    case (GoesAway j)
    with in_run obtain c0 where "(i, c0) \<in> set (gateway_run lib keys evs)" "client = c0 \<or> client = disconnect c0"
      by (auto simp: in_at_socket split: if_splits)
    then show ?thesis using snoc.IH [of c0] by (auto simp: socket_history_idle socket_history_disconnect)
  qed
qed

text \<open>C15: nobody is sent what he may not see. Whatever happens at the gateway, in whatever order and with
  whatever databases, denylists and clocks in between, a socket was let in with a token that verified
  then, and every status it was sent is one that was emitted for an order whose room it had joined
  before, at a moment at which its token was valid and not denied and its user could see the order.
  While it is connected its timer is set to the instant its token expires (for a lifetime below 2^31 ms);
  once it is disconnected it is in no room.\<close>

theorem deliveries_authorized:
  assumes "(i, client) \<in> set (gateway_run lib keys evs)"
  shows "\<exists>before env hs after who. evs = before @ (env, Connects i hs) # after
      \<and> authenticate lib keys env hs = Inr who \<and> sk_principal client = Some who
      \<and> (\<forall>n status. (n, status) \<in> set (sk_sent client) \<longrightarrow>
          (\<exists>earlier env' e later. after = earlier @ (env', StatusChanges e) # later \<and> se_orderId e = n \<and> se_status e = status
            \<and> (\<exists>env'' payload. (env'', Joins i payload) \<in> set earlier
                \<and> int_of_num (js_Number_of (Option.bind payload (field_of ''orderId''))) = Some n
                \<and> of_int (su_now env'') < ap_expiresAt who * 1000
                \<and> fst (isDenied (ap_jti who) (ap_familyId who) (su_redis env'')) = Inr False
                \<and> fst (canView n (ap_userId who) (su_db env'')) = Inr True)))
      \<and> (sk_connected client \<longrightarrow> 1 \<le> ap_expiresAt who * 1000 - of_int (su_now env)
          \<longrightarrow> ap_expiresAt who * 1000 - of_int (su_now env) \<le> 2147483647
          \<longrightarrow> sk_timer client = Some \<lfloor>ap_expiresAt who * 1000\<rfloor>)
      \<and> (\<not> sk_connected client \<longrightarrow> sk_rooms client = [])"
proof -
  obtain before env hs after who where h: "evs = before @ (env, Connects i hs) # after"
      "authenticate lib keys env hs = Inr who" "authorized_feed after i who client" "timed env who client"
    using gateway_run_history [OF assms] unfolding socket_history_def by blast
  have "sk_timer client = Some \<lfloor>ap_expiresAt who * 1000\<rfloor>"
    if "sk_connected client" "1 \<le> ap_expiresAt who * 1000 - of_int (su_now env)"
       "ap_expiresAt who * 1000 - of_int (su_now env) \<le> 2147483647"
    using h(4) that by (simp add: timed_def timeout_ms_def max_def)
  moreover have "\<not> sk_connected client \<longrightarrow> sk_rooms client = []" using h(4) by (simp add: timed_def)
  ultimately show ?thesis
    using h(1-3) unfolding authorized_feed_def joined_in_def admitted_def by (intro exI conjI) (assumption | fastforce)+
qed

subsection \<open>One door policy\<close>

lemma bearer_token_of:
  assumes "token \<noteq> []" and "list_all (\<lambda>c. \<not> is_space c) token"
  shows "bearer_token (''Bearer '' @ token) = Some token"
proof -
  have "to_lower ''Bearer'' = ''bearer''" by code_simp
  moreover have "is_space (CHR '' '')" by code_simp
  ultimately show ?thesis using assms by (cases token) (simp_all add: bearer_token_def)
qed

lemma extractToken_nonempty: "extractToken hs = Some token \<Longrightarrow> token \<noteq> []"
  by (auto simp: extractToken_def bearer_token_def Let_def split: option.splits json.splits if_splits bind_splits)

text \<open>C35: the socket door and the HTTP door are the same door: a handshake with a token is let in exactly when
  the HTTP guard lets in a request with that token as its bearer token, at the same time and with the
  same Redis, and as the same user; and it is turned away as temporarily unavailable exactly when the
  guard answers 503.\<close>

theorem socket_auth_agrees:
  assumes "rt_http rt" and "\<not> rt_public rt"
    and "extractToken hs = Some token" and "list_all (\<lambda>c. \<not> is_space c) token"
    and "auth_guard lib keys rt (Some (''Bearer '' @ token)) (su_now env) g = (res, g')"
    and "gd_redis g = su_redis env"
  shows "(authenticate lib keys env hs = Inr who \<longleftrightarrow> res = Inr True \<and> gd_user g' = Some who)
    \<and> (authenticate lib keys env hs = Inl (PlainError ''service_unavailable'')
        \<longleftrightarrow> res = Inl (ServiceUnavailableException ''denylist''))
    \<and> (authenticate lib keys env hs = Inl (PlainError ''unauthorized'') \<longleftrightarrow> (\<exists>d. res = Inl (UnauthorizedException d)))"
  using assms bearer_token_of [OF extractToken_nonempty [OF assms(3)] assms(4)]
  by (auto simp: authenticate_def auth_guard_def unauthorized_def split: sum.splits prod.splits)

subsection \<open>Examples\<close>

definition sample_surroundings :: surroundings where
  "sample_surroundings = \<lparr>su_now = 1500, su_redis = sample_redis_up, su_db = sample_ordered\<rparr>"

definition sample_handshake :: handshake where
  "sample_handshake = \<lparr>hs_auth = Some (JObject [(''token'', JString sample_access)]), hs_authorization = None\<rparr>"

definition join_payload :: json where
  "join_payload = JObject [(''orderId'', JNumber (Num 1))]"

lemma sample_access_verifies: "verifyAccess plain_jwt plain_keys sample_access 1500 = Inr sample_principal"
  by (simp add: sample_access_def signAccess_def verifyAccess_def plain_jwt_def plain_parse verificationKey_def
      truthy_def plain_keys_def ACCESS_TTL_SEC_def sample_principal_def)

lemma sample_access_text: "sample_access \<noteq> []"
  by (simp add: sample_access_def signAccess_def plain_jwt_def plain_token_def)

lemma sample_extract: "extractToken sample_handshake = Some sample_access"
  by (simp add: extractToken_def sample_handshake_def sample_access_text)

lemma sample_not_denied: "fst (isDenied j f sample_redis_up) = Inr False"
  by (simp add: isDenied_run sample_redis_up_def live_def)

lemma sample_authenticate: "authenticate plain_jwt plain_keys sample_surroundings sample_handshake = Inr sample_principal"
  by (simp add: authenticate_def sample_extract sample_surroundings_def sample_access_verifies sample_not_denied)

lemma sample_visible: "1 \<in> o_id ` set (visible sample_ordered 1)"
  by (simp add: visible_def sample_ordered_def sample_order_def)

lemma sample_order_number: "int_of_num (js_Number_of (Option.bind (Some join_payload) (field_of ''orderId''))) = Some 1"
  by (simp add: join_payload_def js_Number_of_def)

lemma sample_join:
  assumes "sk_principal client = Some sample_principal"
  shows "handleJoin sample_surroundings (Some join_payload) client =
    (Inr \<lparr>ja_joined = True, ja_room = Some (roomName 1), ja_reason = None\<rparr>,
     client\<lparr>sk_rooms := List.insert (roomName 1) (sk_rooms client)\<rparr>)"
proof -
  have "fst (canView 1 1 sample_ordered) = Inr True"
    using canView_run [OF sample_ordered_wf, of 1 1] sample_visible by (simp add: int4_def)
  with assms sample_order_number show ?thesis
    by (simp add: handleJoin_def sample_surroundings_def sample_principal_def sample_not_denied)
qed

theorem handleJoin_correct_witness:
  "\<exists>client'. handleJoin sample_surroundings (Some join_payload) (new_socket sample_principal)
      = (Inr \<lparr>ja_joined = True, ja_room = Some (roomName 1), ja_reason = None\<rparr>, client')
    \<and> sk_rooms client' = [roomName 1]"
proof -
  let ?client = "new_socket sample_principal"
  have p: "sk_principal ?client = Some sample_principal" by (simp add: new_socket_def)
  note run = sample_join [OF p]
  have db: "db_wf (su_db sample_surroundings)" by (simp add: sample_surroundings_def sample_ordered_wf)
  have u: "int4 (ap_userId sample_principal)" by (simp add: sample_principal_def int4_def)
  from conjunct1 [OF handleJoin_correct [OF db p u run sample_order_number [symmetric] refl refl]]
  show ?thesis using run by (auto simp: new_socket_def)
qed

definition sample_traffic :: "(surroundings \<times> gateway_event) list" where
  "sample_traffic =
     [(sample_surroundings, Connects 0 sample_handshake), (sample_surroundings, Joins 0 (Some join_payload)),
      (sample_surroundings, StatusChanges \<lparr>se_id = 1, se_orderId = 1, se_status = ''paid''\<rparr>)]"

definition served_socket :: socket where
  "served_socket = \<lparr>sk_principal = Some sample_principal, sk_connected = True, sk_rooms = [roomName 1],
     sk_timer = Some 601000, sk_sent = [(1, ''paid'')]\<rparr>"

lemma sample_traffic_run: "gateway_run plain_jwt plain_keys sample_traffic = [(0, served_socket)]"
  by (simp add: gateway_run_def sample_traffic_def sample_authenticate at_socket_def sample_join handleConnection_def
      new_socket_def on_status_def served_socket_def timeout_ms_def)
    (simp add: sample_surroundings_def sample_principal_def)

theorem deliveries_authorized_witness:
  "\<exists>env payload. (env, Joins 0 payload) \<in> set sample_traffic \<and> fst (canView 1 1 (su_db env)) = Inr True"
proof -
  have "(0, served_socket) \<in> set (gateway_run plain_jwt plain_keys sample_traffic)" by (simp add: sample_traffic_run)
  from deliveries_authorized [OF this] obtain before env hs after who where
    h: "sample_traffic = before @ (env, Connects 0 hs) # after" "sk_principal served_socket = Some who"
       "\<exists>earlier env' e later. after = earlier @ (env', StatusChanges e) # later \<and> se_orderId e = 1 \<and> se_status e = ''paid''
            \<and> (\<exists>env'' payload. (env'', Joins 0 payload) \<in> set earlier
                \<and> int_of_num (js_Number_of (Option.bind payload (field_of ''orderId''))) = Some 1
                \<and> of_int (su_now env'') < ap_expiresAt who * 1000
                \<and> fst (isDenied (ap_jti who) (ap_familyId who) (su_redis env'')) = Inr False
                \<and> fst (canView 1 (ap_userId who) (su_db env'')) = Inr True)"
    by (fastforce simp: served_socket_def)
  have who: "ap_userId who = 1" using h(2) by (auto simp: served_socket_def sample_principal_def)
  from h(3) obtain earlier rest env'' payload where j:
    "after = earlier @ rest" "(env'', Joins 0 payload) \<in> set earlier" "fst (canView 1 (ap_userId who) (su_db env'')) = Inr True"
    by blast
  have "(env'', Joins 0 payload) \<in> set sample_traffic" unfolding h(1) j(1) using j(2) by simp
  then show ?thesis using j(3) who by auto
qed

theorem socket_auth_agrees_witness:
  "\<exists>g'. auth_guard plain_jwt plain_keys orders_route (Some (''Bearer '' @ sample_access)) 1500 (fresh_guard sample_redis_up)
     = (Inr True, g') \<and> gd_user g' = Some sample_principal"
proof -
  have json: "sample_access = json_text (plain_token ''ES256'' ''k1'' (access_claims 1 customer ''f'' ''j'' 1500) ''key'')"
    by (simp add: sample_access_def signAccess_def plain_jwt_def plain_keys_def SIGNING_ALG_def)
  have s: "list_all (\<lambda>c. \<not> is_space c) sample_access" unfolding json by code_simp
  obtain res g' where run: "auth_guard plain_jwt plain_keys orders_route (Some (''Bearer '' @ sample_access))
      (su_now sample_surroundings) (fresh_guard sample_redis_up) = (res, g')" by fastforce
  have "res = Inr True \<and> gd_user g' = Some sample_principal"
    using socket_auth_agrees [OF _ _ sample_extract s run] sample_authenticate
    by (simp add: orders_route_def fresh_guard_def sample_surroundings_def)
  then show ?thesis using run by (simp add: sample_surroundings_def)
qed

end
