(* ===== verification/Consumer.thy ===== *)
theory Consumer
  imports Outbox Products
begin

text \<open>
  The consumer of \<open>order.placed\<close>: \<open>src/messaging/consumer.ts\<close>, with its store
  \<open>src/messaging/pg-store.ts\<close>, the wire format of an event (\<open>EventPublisher.publish\<close> sends
  \<open>JSON.stringify(event)\<close>) and the reading of dead-letter stamps, \<open>src/messaging/dlq.ts\<close>.

  What the surroundings decide is an argument of a delivery: whether the channel is still open, what
  happens to the transaction's connection (\<open>commit_fate\<close>; a \<open>COMMIT\<close> whose reply is lost throws
  although it took effect), and what the hooks return. \<open>onDelivery\<close> and \<open>onSettled\<close> only observe.
\<close>

subsection \<open>The event on the wire\<close>

text \<open>\<open>Date.prototype.toISOString\<close> for the years 0 to 9999, of an instant in milliseconds.\<close>

definition pad :: "nat \<Rightarrow> int \<Rightarrow> string" where
  "pad n i = (let t = show_int i in replicate (n - length t) (CHR ''0'') @ t)"

definition iso_text :: "int \<Rightarrow> string" where
  "iso_text ms =
     (let days = ms div 86400000; rest = ms mod 86400000;
          z = days + 719468; era = z div 146097; doe = z mod 146097;
          yoe = (doe - doe div 1460 + doe div 36524 - doe div 146096) div 365;
          doy = doe - (365 * yoe + yoe div 4 - yoe div 100);
          mp = (5 * doy + 2) div 153;
          d = doy - (153 * mp + 2) div 5 + 1;
          m = (if mp < 10 then mp + 3 else mp - 9);
          y = yoe + era * 400 + (if m \<le> 2 then 1 else 0)
      in pad 4 y @ ''-'' @ pad 2 m @ ''-'' @ pad 2 d @ ''T'' @ pad 2 (rest div 3600000) @ '':''
         @ pad 2 (rest div 60000 mod 60) @ '':'' @ pad 2 (rest div 1000 mod 60) @ ''.'' @ pad 3 (rest mod 1000) @ ''Z'')"

definition json_number :: "int \<Rightarrow> json" where
  "json_number n = JNumber (Num (of_int n))"

definition event_json :: "order_placed_event \<Rightarrow> json" where
  "event_json ev =
     (let d = ev_data ev in
      JObject
        [(''eventId'', JString (eventId ev)), (''type'', JString (ev_type ev)),
         (''occurredAt'', JString (iso_text (occurredAt ev))),
         (''data'', JObject
           [(''orderId'', json_number (ev_orderId d)), (''customerEmail'', JString (ev_customerEmail d)),
            (''totalCents'', json_number (ev_totalCents d)), (''currency'', JString (ev_currency d)),
            (''items'', JArray (map (\<lambda>(p, q). JObject [(''productId'', json_number p), (''quantity'', json_number q)])
                (ev_items d)))])])"

definition event_content :: "order_placed_event \<Rightarrow> string" where
  "event_content ev = json_text (event_json ev)"

record received_event =
  re_eventId :: string
  re_orderId :: int
  re_body :: json

definition parseOrderPlaced :: "string \<Rightarrow> received_event option" where
  "parseOrderPlaced content =
     (case json_parse content of
        None \<Rightarrow> None
      | Some body \<Rightarrow>
          (case (field_of ''eventId'' body, field_of ''type'' body, Option.bind (field_of ''data'' body) (field_of ''orderId'')) of
             (Some (JString e), Some (JString t), Some (JNumber n)) \<Rightarrow>
               if t = ROUTING_KEY_ORDER_PLACED
               then map_option (\<lambda>i. \<lparr>re_eventId = e, re_orderId = i, re_body = body\<rparr>) (int_of_num n)
               else None
           | _ \<Rightarrow> None))"

subsection \<open>The effect\<close>

definition CONSUMER_ORDER_PLACED :: string where
  "CONSUMER_ORDER_PLACED = ''orders.order-placed''"

text \<open>A \<open>text\<close> value cannot contain the character 0.\<close>

definition text_ok :: "string \<Rightarrow> bool" where
  "text_ok t \<longleftrightarrow> list_all (\<lambda>c. 0 < (of_char c :: nat)) t"

text \<open>The two \<open>INSERT .. ON CONFLICT DO NOTHING\<close>; the first answers whether it inserted.\<close>

definition mark_message :: "string \<Rightarrow> bool db_action" where
  "mark_message message_id =
     and_then (guard (text_ok message_id) (QueryFailedError ''22021'')) (\<lambda>_.
     and_then (gets processed_messages) (\<lambda>marks.
       if (message_id, CONSUMER_ORDER_PLACED) \<in> set marks then ret False
       else and_then (modify (\<lambda>s. s\<lparr>processed_messages := marks @ [(message_id, CONSUMER_ORDER_PLACED)]\<rparr>))
              (\<lambda>_. ret True)))"

definition record_effect :: "string \<Rightarrow> int \<Rightarrow> unit db_action" where
  "record_effect i orderId =
     and_then (guard (int4 orderId) (int_error orderId)) (\<lambda>_.
     and_then (guard (char_count i \<le> 200) (QueryFailedError ''22001'')) (\<lambda>_.
     and_then (gets processed_order_events) (\<lambda>effects.
       if i \<in> fst ` set effects then ret ()
       else modify (\<lambda>s. s\<lparr>processed_order_events := effects @ [(i, orderId)]\<rparr>))))"

datatype commit_fate = NoConnection | Commits | ReplyLost | CommitFails

definition pg_transaction :: "commit_fate \<Rightarrow> 'a db_action \<Rightarrow> 'a db_action" where
  "pg_transaction fate body =
     (\<lambda>s. if fate = NoConnection then (Inl (PlainError ''connect''), s)
          else case body s of
            (Inl e, s') \<Rightarrow> (Inl e, rolled_back s s')
          | (Inr a, s') \<Rightarrow>
              if fate = Commits then (Inr a, s')
              else (Inl (PlainError ''COMMIT''), if fate = ReplyLost then s' else rolled_back s s'))"

definition applyOrderPlacedEffect :: "commit_fate \<Rightarrow> received_event \<Rightarrow> bool db_action" where
  "applyOrderPlacedEffect fate event =
     pg_transaction fate
       (and_then (mark_message (re_eventId event)) (\<lambda>new.
          if \<not> new then ret False
          else and_then (record_effect (re_eventId event) (re_orderId event)) (\<lambda>_. ret True)))"

subsection \<open>Handling a delivery\<close>

record delivery =
  dl_content :: string
  dl_redelivered :: bool
  dl_count :: "int option"

record delivery_info =
  di_eventId :: "string option"
  di_redelivered :: bool
  di_deliveryCount :: int

datatype settled_outcome = Acked | Skipped | Dead | Requeued | Failed

datatype channel_command = Ack | Reject bool

text \<open>
  \<open>afterEffect\<close> asks for a requeue (\<open>True\<close>), returns, or throws; \<open>afterApplied\<close> returns or throws.
\<close>

record consumer_hooks =
  afterEffect :: "(delivery_info \<Rightarrow> bool \<Rightarrow> error + bool) option"
  afterApplied :: "(received_event \<Rightarrow> error + unit) option"

definition delivery_info_of :: "delivery \<Rightarrow> delivery_info" where
  "delivery_info_of msg =
     \<lparr>di_eventId = map_option re_eventId (parseOrderPlaced (dl_content msg)),
      di_redelivered = dl_redelivered msg,
      di_deliveryCount = (case dl_count msg of None \<Rightarrow> 0 | Some n \<Rightarrow> n) + 1\<rparr>"

text \<open>\<open>ch.ack\<close> and \<open>ch.reject\<close> throw on a closed channel.\<close>

definition send_command :: "bool \<Rightarrow> channel_command \<Rightarrow> settled_outcome \<Rightarrow> error + (settled_outcome \<times> channel_command list)" where
  "send_command opened cmd outc =
     (if opened then Inr (outc, [cmd]) else Inl (PlainError ''IllegalOperationError''))"

text \<open>The \<open>try\<close> block of \<open>handleMessage\<close>, and the whole handler: its outcome, what it told the channel.\<close>

definition handle_body ::
  "consumer_hooks \<Rightarrow> bool \<Rightarrow> commit_fate \<Rightarrow> delivery \<Rightarrow> (settled_outcome \<times> channel_command list) db_action" where
  "handle_body hooks opened fate msg =
     (case parseOrderPlaced (dl_content msg) of
        None \<Rightarrow> (\<lambda>s. (send_command opened (Reject False) Dead, s))
      | Some event \<Rightarrow>
          and_then (applyOrderPlacedEffect fate event) (\<lambda>applied s.
            (case (case afterEffect hooks of None \<Rightarrow> Inr False | Some f \<Rightarrow> f (delivery_info_of msg) applied) of
               Inl e \<Rightarrow> Inl e
             | Inr True \<Rightarrow> send_command opened (Reject True) Requeued
             | Inr False \<Rightarrow>
                 (case (case afterApplied hooks of None \<Rightarrow> Inr () | Some g \<Rightarrow> g event) of
                    Inl e \<Rightarrow> Inl e
                  | Inr _ \<Rightarrow> send_command opened Ack (if applied then Acked else Skipped)), s)))"

definition handleMessage ::
  "consumer_hooks \<Rightarrow> bool \<Rightarrow> commit_fate \<Rightarrow> delivery \<Rightarrow> db \<Rightarrow> (settled_outcome \<times> channel_command list) \<times> db" where
  "handleMessage hooks opened fate msg s =
     (case handle_body hooks opened fate msg s of
        (Inr r, s') \<Rightarrow> (r, s')
      | (Inl e, s') \<Rightarrow> ((Failed, if opened then [Reject True] else []), s'))"

subsection \<open>Dead-letter stamps\<close>

definition DEATH_REASONS :: "string list" where
  "DEATH_REASONS = [''rejected'', ''expired'', ''maxlen'', ''delivery_limit'']"

text \<open>
  The headers RabbitMQ stamps, as it documents them: \<open>x-death\<close> is an array of tables, newest first;
  reason and queue are strings, the count an integer. \<open>None\<close> is an absent header or field.
\<close>

record death_entry =
  de_reason :: "string option"
  de_queue :: "string option"
  de_count :: "int option"

record death_headers =
  x_death :: "death_entry list option"
  x_first_death_reason :: "string option"
  x_first_death_queue :: "string option"

record death_info =
  dead_reason :: string
  dead_queue :: "string option"
  dead_count :: int

definition or_else :: "'a option \<Rightarrow> 'a option \<Rightarrow> 'a option" where
  "or_else x y = (case x of None \<Rightarrow> y | Some a \<Rightarrow> Some a)"

definition readDeathInfo :: "death_headers option \<Rightarrow> death_info" where
  "readDeathInfo headers =
     (let entries = Option.bind headers x_death;
          first = (case entries of Some (e # _) \<Rightarrow> Some e | _ \<Rightarrow> None);
          reason = or_else (Option.bind first de_reason) (Option.bind headers x_first_death_reason);
          queue = or_else (Option.bind first de_queue) (Option.bind headers x_first_death_queue)
      in \<lparr>dead_reason = (case reason of None \<Rightarrow> ''unknown'' | Some r \<Rightarrow> if r = [] then ''unknown'' else r),
          dead_queue = (case queue of None \<Rightarrow> None | Some q \<Rightarrow> if q = [] then None else Some q),
          dead_count = (case Option.bind first de_count of None \<Rightarrow> 1 | Some n \<Rightarrow> n)\<rparr>)"


subsection \<open>What is published is understood\<close>

lemma int_numbers_json_number [simp]: "int_numbers (json_number n)"
  by (simp add: json_number_def)

lemma int_numbers_event: "int_numbers (event_json ev)"
  by (auto simp: event_json_def Let_def)

lemma content_parses:
  assumes "ev = buildOrderPlacedEvent d now"
  shows "parseOrderPlaced (event_content ev)
    = Some \<lparr>re_eventId = ''order-placed:'' @ show_int (ev_orderId d), re_orderId = ev_orderId d,
            re_body = event_json ev\<rparr>"
proof -
  have "json_parse (event_content ev) = Some (event_json ev)"
    unfolding event_content_def by (rule json_parse_text [OF int_numbers_event])
  moreover have "field_of ''eventId'' (event_json ev) = Some (JString (''order-placed:'' @ show_int (ev_orderId d)))"
    "field_of ''type'' (event_json ev) = Some (JString ROUTING_KEY_ORDER_PLACED)"
    "Option.bind (field_of ''data'' (event_json ev)) (field_of ''orderId'') = Some (JNumber (Num (of_int (ev_orderId d))))"
    using assms by (simp_all add: event_json_def Let_def json_number_def buildOrderPlacedEvent_def orderPlacedEventId_def)
  ultimately show ?thesis by (simp add: parseOrderPlaced_def)
qed

text \<open>The consumer understands every event the services write: parsing the text the publisher sends
  gives back the event's id and its order.\<close>

theorem parse_published_event:
  assumes "ev = buildOrderPlacedEvent d now"
  shows "parseOrderPlaced (event_content ev)
    = Some \<lparr>re_eventId = ''order-placed:'' @ show_int (ev_orderId d), re_orderId = ev_orderId d,
            re_body = event_json ev\<rparr>"
  using assms by (rule content_parses)

subsection \<open>The effect, case by case\<close>

text \<open>A store whose journals agree: one effect per event id, and every mark of this consumer has one.\<close>

definition journal_ok :: "db \<Rightarrow> bool" where
  "journal_ok s \<longleftrightarrow> distinct (map fst (processed_order_events s)) \<and> distinct (processed_messages s)
   \<and> (\<forall>i. (i, CONSUMER_ORDER_PLACED) \<in> set (processed_messages s) \<longrightarrow> i \<in> fst ` set (processed_order_events s))"

definition marked :: "db \<Rightarrow> string \<Rightarrow> bool" where
  "marked s i \<longleftrightarrow> (i, CONSUMER_ORDER_PLACED) \<in> set (processed_messages s)"

text \<open>What the database accepts as an event.\<close>

definition storable :: "received_event \<Rightarrow> bool" where
  "storable ev \<longleftrightarrow> text_ok (re_eventId ev) \<and> int4 (re_orderId ev) \<and> char_count (re_eventId ev) \<le> 200"

definition applied_to :: "received_event \<Rightarrow> db \<Rightarrow> db" where
  "applied_to ev s =
     s\<lparr>processed_messages := processed_messages s @ [(re_eventId ev, CONSUMER_ORDER_PLACED)],
       processed_order_events :=
         (if re_eventId ev \<in> fst ` set (processed_order_events s) then processed_order_events s
          else processed_order_events s @ [(re_eventId ev, re_orderId ev)])\<rparr>"

lemma mark_message_run:
  "mark_message i s =
     (if \<not> text_ok i then (Inl (QueryFailedError ''22021''), s)
      else if marked s i then (Inr False, s)
      else (Inr True, s\<lparr>processed_messages := processed_messages s @ [(i, CONSUMER_ORDER_PLACED)]\<rparr>))"
  by (simp add: mark_message_def and_then_def marked_def)

lemma record_effect_run:
  "record_effect i n s =
     (if \<not> int4 n then (Inl (int_error n), s)
      else if \<not> char_count i \<le> 200 then (Inl (QueryFailedError ''22001''), s)
      else (Inr (), if i \<in> fst ` set (processed_order_events s) then s
                    else s\<lparr>processed_order_events := processed_order_events s @ [(i, n)]\<rparr>))"
  by (simp add: record_effect_def and_then_def)

lemma rolled_back_marks [simp]: "rolled_back s (s\<lparr>processed_messages := m\<rparr>) = s" "rolled_back s s = s"
  by (simp_all add: rolled_back_def)

lemma apply_run:
  "fst (applyOrderPlacedEffect fate ev s) =
     (if fate = NoConnection then Inl (PlainError ''connect'')
      else if \<not> text_ok (re_eventId ev) then Inl (QueryFailedError ''22021'')
      else if marked s (re_eventId ev) then (if fate = Commits then Inr False else Inl (PlainError ''COMMIT''))
      else if \<not> int4 (re_orderId ev) then Inl (int_error (re_orderId ev))
      else if \<not> char_count (re_eventId ev) \<le> 200 then Inl (QueryFailedError ''22001'')
      else if fate = Commits then Inr True else Inl (PlainError ''COMMIT''))"
  "snd (applyOrderPlacedEffect fate ev s) =
     (if storable ev \<and> \<not> marked s (re_eventId ev) \<and> (fate = Commits \<or> fate = ReplyLost)
      then applied_to ev s else s)"
proof -
  have "rolled_back s (applied_to ev s) = s" by (simp add: applied_to_def rolled_back_def)
  then show "fst (applyOrderPlacedEffect fate ev s) = (if fate = NoConnection then Inl (PlainError ''connect'')
      else if \<not> text_ok (re_eventId ev) then Inl (QueryFailedError ''22021'')
      else if marked s (re_eventId ev) then (if fate = Commits then Inr False else Inl (PlainError ''COMMIT''))
      else if \<not> int4 (re_orderId ev) then Inl (int_error (re_orderId ev))
      else if \<not> char_count (re_eventId ev) \<le> 200 then Inl (QueryFailedError ''22001'')
      else if fate = Commits then Inr True else Inl (PlainError ''COMMIT''))"
    "snd (applyOrderPlacedEffect fate ev s) =
     (if storable ev \<and> \<not> marked s (re_eventId ev) \<and> (fate = Commits \<or> fate = ReplyLost)
      then applied_to ev s else s)"
    by (cases fate; simp add: applyOrderPlacedEffect_def pg_transaction_def and_then_def mark_message_run
        record_effect_run storable_def applied_to_def rolled_back_def split: prod.splits)+
qed


subsection \<open>The inbox\<close>

text \<open>
  What the consumer relies on: a store that applies an event under whatever conditions (\<open>'c\<close>), answers
  \<open>True\<close> only when it applied it just now, and never forgets.
\<close>

locale inbox =
  fixes apply_event :: "'c \<Rightarrow> 'ev \<Rightarrow> ('s, 'e, bool) action"
    and key :: "'ev \<Rightarrow> 'i"
    and handled :: "'s \<Rightarrow> 'i \<Rightarrow> bool"
  assumes applied_now: "apply_event c ev s = (Inr True, s') \<Longrightarrow> \<not> handled s (key ev) \<and> handled s' (key ev)"
    and applied_before: "apply_event c ev s = (Inr False, s') \<Longrightarrow> handled s (key ev)"
    and never_forgets: "handled s i \<Longrightarrow> handled (snd (apply_event c ev s)) i"
begin

text \<open>The keys of the events that were applied, in the order of the calls.\<close>

fun applied_keys :: "('c \<times> 'ev) list \<Rightarrow> 's \<Rightarrow> 'i list" where
  "applied_keys [] s = []"
| "applied_keys ((c, ev) # calls) s =
     (if fst (apply_event c ev s) = Inr True then [key ev] else []) @ applied_keys calls (snd (apply_event c ev s))"

lemma applied_once: "distinct (applied_keys calls s) \<and> (\<forall>i \<in> set (applied_keys calls s). \<not> handled s i)"
proof (induction calls arbitrary: s)
  case (Cons call calls)
  obtain c ev where call: "call = (c, ev)" by (cases call)
  obtain r s' where run: "apply_event c ev s = (r, s')" by (cases "apply_event c ev s")
  show ?case
    using Cons.IH [of s'] applied_now [of c ev s s'] never_forgets [of s _ c ev] run call by auto
qed simp

lemma stays_handled: "handled s i \<Longrightarrow> handled (foldl (\<lambda>t (c, ev). snd (apply_event c ev t)) s calls) i"
  by (induction calls arbitrary: s) (auto simp: never_forgets)

end

lemma marked_applied [simp]: "marked (applied_to ev s) i \<longleftrightarrow> marked s i \<or> i = re_eventId ev"
  by (auto simp: marked_def applied_to_def)

interpretation order_inbox: inbox applyOrderPlacedEffect re_eventId marked
proof
  fix c ev s s'
  assume run: "applyOrderPlacedEffect c ev s = (Inr True, s')"
  have "\<not> marked s (re_eventId ev)" "storable ev" "c = Commits"
    using apply_run(1) [of c ev s] run by (auto simp: storable_def split: if_splits)
  then show "\<not> marked s (re_eventId ev) \<and> marked s' (re_eventId ev)"
    using apply_run(2) [of c ev s] run by simp
next
  fix c ev s s'
  assume run: "applyOrderPlacedEffect c ev s = (Inr False, s')"
  then show "marked s (re_eventId ev)" using apply_run(1) [of c ev s] by (auto split: if_splits)
next
  fix s i c ev
  assume "marked s i"
  then show "marked (snd (applyOrderPlacedEffect c ev s)) i" by (simp add: apply_run(2))
qed

subsection \<open>The handler\<close>

lemma handle_poison:
  "parseOrderPlaced (dl_content msg) = None \<Longrightarrow>
   handleMessage hooks opened fate msg s = (if opened then (Dead, [Reject False]) else (Failed, []), s)"
  by (simp add: handleMessage_def handle_body_def send_command_def)

lemma handle_error:
  "parseOrderPlaced (dl_content msg) = Some ev \<Longrightarrow> applyOrderPlacedEffect fate ev s = (Inl e, s') \<Longrightarrow>
   handleMessage hooks opened fate msg s = ((Failed, if opened then [Reject True] else []), s')"
  by (simp add: handleMessage_def handle_body_def)

lemma handle_applied:
  assumes "parseOrderPlaced (dl_content msg) = Some ev" "applyOrderPlacedEffect fate ev s = (Inr applied, s')"
  shows "\<exists>outc cmds. handleMessage hooks opened fate msg s = ((outc, cmds), s') \<and>
     (outc = Failed \<and> cmds = (if opened then [Reject True] else []) \<or> outc = Requeued \<and> cmds = [Reject True]
      \<or> outc = (if applied then Acked else Skipped) \<and> cmds = [Ack])"
proof -
  define x where "x = (case afterEffect hooks of None \<Rightarrow> Inr False | Some f \<Rightarrow> f (delivery_info_of msg) applied)"
  define y where "y = (case afterApplied hooks of None \<Rightarrow> Inr () | Some g \<Rightarrow> g ev)"
  have body: "handle_body hooks opened fate msg s =
      (case x of Inl e \<Rightarrow> Inl e | Inr True \<Rightarrow> send_command opened (Reject True) Requeued
       | Inr False \<Rightarrow> (case y of Inl e \<Rightarrow> Inl e | Inr _ \<Rightarrow> send_command opened Ack (if applied then Acked else Skipped)), s')"
    unfolding handle_body_def x_def y_def using assms by simp
  show ?thesis
    unfolding handleMessage_def body send_command_def
    by (cases x; cases y; cases opened) (auto split: bool.splits)
qed

lemma handle_final:
  "snd (handleMessage hooks opened fate msg s) =
     (case parseOrderPlaced (dl_content msg) of None \<Rightarrow> s
      | Some ev \<Rightarrow> snd (applyOrderPlacedEffect fate ev s))"
proof (cases "parseOrderPlaced (dl_content msg)")
  case (Some ev)
  obtain r s' where run: "applyOrderPlacedEffect fate ev s = (r, s')" by (cases "applyOrderPlacedEffect fate ev s")
  show ?thesis
  proof (cases r)
    case (Inl e)
    then show ?thesis using Some run by (simp add: handle_error)
  next
    case (Inr applied)
    then show ?thesis using handle_applied [OF Some run [unfolded Inr], of hooks opened] Some run by auto
  qed
qed (simp add: handle_poison)

lemma handle_event:
  assumes "parseOrderPlaced (dl_content msg) = Some ev" "handleMessage hooks opened fate msg s = ((outc, cmds), s')"
  shows "outc = Failed \<and> cmds = (if opened then [Reject True] else [])
    \<or> outc = Requeued \<and> cmds = [Reject True]
    \<or> cmds = [Ack] \<and> (\<exists>applied. fst (applyOrderPlacedEffect fate ev s) = Inr applied
         \<and> outc = (if applied then Acked else Skipped))"
proof -
  obtain r s1 where run: "applyOrderPlacedEffect fate ev s = (r, s1)" by (cases "applyOrderPlacedEffect fate ev s")
  show ?thesis
  proof (cases r)
    case (Inl e)
    then show ?thesis using handle_error [OF assms(1)] run assms(2) by simp
  next
    case (Inr applied)
    then show ?thesis using handle_applied [OF assms(1) run [unfolded Inr], of hooks opened] run assms(2) by auto
  qed
qed

lemma journal_ok_applied: "journal_ok s \<Longrightarrow> \<not> marked s (re_eventId ev) \<Longrightarrow> journal_ok (applied_to ev s)"
  by (auto simp: journal_ok_def applied_to_def marked_def)

lemma journal_ok_handle: "journal_ok s \<Longrightarrow> journal_ok (snd (handleMessage hooks opened fate msg s))"
  by (auto simp: handle_final apply_run(2) journal_ok_applied split: option.splits)

text \<open>Whether it applied the event now or found it applied: its effect is in the database.\<close>

lemma applied_recorded:
  assumes "journal_ok s" "applyOrderPlacedEffect fate ev s = (Inr applied, s')"
  shows "re_eventId ev \<in> fst ` set (processed_order_events s')"
proof (cases applied)
  case True
  then show ?thesis using apply_run [of fate ev s] assms(2)
    by (auto simp: storable_def applied_to_def split: if_splits)
next
  case False
  then have "marked s (re_eventId ev)" using order_inbox.applied_before assms(2) by metis
  then show ?thesis using assms(1) apply_run(2) [of fate ev s] assms(2) by (simp add: journal_ok_def marked_def)
qed

lemma settled_right:
  assumes "journal_ok s" and "handleMessage hooks opened fate msg s = ((outc, cmds), s')"
  shows "(Ack \<in> set cmds \<longleftrightarrow> outc \<in> {Acked, Skipped}) \<and> (Reject False \<in> set cmds \<longleftrightarrow> outc = Dead) \<and> length cmds \<le> 1
    \<and> (Ack \<in> set cmds \<longrightarrow> (\<exists>ev. parseOrderPlaced (dl_content msg) = Some ev
          \<and> re_eventId ev \<in> fst ` set (processed_order_events s')))
    \<and> (outc = Dead \<longrightarrow> parseOrderPlaced (dl_content msg) = None \<and> s' = s)
    \<and> (opened \<longrightarrow> cmds \<noteq> [])"
proof (cases "parseOrderPlaced (dl_content msg)")
  case None
  then show ?thesis using assms(2) by (auto simp: handle_poison split: if_splits)
next
  case (Some ev)
  have s': "s' = snd (applyOrderPlacedEffect fate ev s)" using handle_final [of hooks opened fate msg s] assms(2) Some by simp
  have "re_eventId ev \<in> fst ` set (processed_order_events s')" if "fst (applyOrderPlacedEffect fate ev s) = Inr applied" for applied
    using applied_recorded [OF assms(1)] that s' by (metis prod.collapse)
  then show ?thesis using handle_event [OF Some assms(2)] Some by (auto split: if_splits)
qed


text \<open>The consumer settles every delivery the right way. It acknowledges only an event whose effect is
  in the database, rejects for good (to the dead-letter queue) only what is not an event, without
  touching a table, gives everything else back for another try, and sends at most one command.\<close>

theorem settled_correctly:
  assumes "journal_ok s" and "handleMessage hooks opened fate msg s = ((outc, cmds), s')"
  shows "(Ack \<in> set cmds \<longleftrightarrow> outc \<in> {Acked, Skipped}) \<and> (Reject False \<in> set cmds \<longleftrightarrow> outc = Dead) \<and> length cmds \<le> 1
    \<and> (Ack \<in> set cmds \<longrightarrow> (\<exists>ev. parseOrderPlaced (dl_content msg) = Some ev
          \<and> re_eventId ev \<in> fst ` set (processed_order_events s')))
    \<and> (outc = Dead \<longrightarrow> parseOrderPlaced (dl_content msg) = None \<and> s' = s)
    \<and> (opened \<longrightarrow> cmds \<noteq> [])"
  using assms by (rule settled_right)

text \<open>The deliveries of the witnesses: order 1's event, and a message that is none.\<close>

definition plain_hooks :: consumer_hooks where
  "plain_hooks = \<lparr>afterEffect = None, afterApplied = None\<rparr>"

definition tea_event :: order_placed_event where
  "tea_event = buildOrderPlacedEvent
     \<lparr>ev_orderId = 1, ev_customerEmail = ''a@b.c'', ev_totalCents = 500, ev_currency = ''UAH'', ev_items = [(1, 2)]\<rparr> 7"

definition tea_delivery :: delivery where
  "tea_delivery = \<lparr>dl_content = event_content tea_event, dl_redelivered = False, dl_count = None\<rparr>"

lemma parse_tea: "\<exists>body. parseOrderPlaced (dl_content tea_delivery)
    = Some \<lparr>re_eventId = ''order-placed:1'', re_orderId = 1, re_body = body\<rparr>"
  using content_parses [OF refl, of "\<lparr>ev_orderId = 1, ev_customerEmail = ''a@b.c'', ev_totalCents = 500,
      ev_currency = ''UAH'', ev_items = [(1, 2)]\<rparr>" 7]
  by (simp add: tea_delivery_def tea_event_def show_small)

lemma journal_ok_empty: "journal_ok sample_db"
  by (simp add: journal_ok_def sample_db_def empty_db_def)

lemma length_show_nat: "0 < k \<Longrightarrow> n < 10 ^ k \<Longrightarrow> length (show_nat n) \<le> k"
proof (induction n arbitrary: k rule: show_nat.induct)
  case (1 n)
  show ?case
  proof (cases "n < 10")
    case False
    then have k: "1 < k" using "1.prems" by (metis One_nat_def Suc_lessI power_one_right)
    then have "n div 10 < 10 ^ (k - 1)"
      using "1.prems" by (metis One_nat_def Suc_pred less_mult_imp_div_less mult.commute power_Suc "1.prems"(1))
    then have "length (show_nat (n div 10)) \<le> k - 1" using "1.IH" [OF False] k by simp
    then show ?thesis using False k by (subst show_nat.simps) simp
  qed (use "1.prems" in \<open>simp add: show_nat.simps\<close>)
qed

lemma length_show_int: "int4 n \<Longrightarrow> length (show_int n) \<le> 11"
proof -
  assume n: "int4 n"
  then have "nat n < 10 ^ 10" "nat (- n) < 10 ^ 10" unfolding int4_def by auto
  then have "length (show_nat (nat n)) \<le> 10" "length (show_nat (nat (- n))) \<le> 10"
    using length_show_nat [of 10 "nat n"] length_show_nat [of 10 "nat (- n)"] by simp_all
  then show ?thesis by (simp add: show_int_def)
qed

lemma storable_order:
  assumes "int4 n"
  shows "storable \<lparr>re_eventId = ''order-placed:'' @ show_int n, re_orderId = n, re_body = b\<rparr>"
proof -
  have "char_count (''order-placed:'' @ show_int n) \<le> length (''order-placed:'' @ show_int n)"
    unfolding char_count_def by (rule length_filter_le)
  moreover have "\<forall>c \<in> set (show_int n). 0 < (of_char c :: nat)"
    using num_chars_show_int [of n] by (force simp: is_num_char_def is_digit_def)
  ultimately show ?thesis
    using length_show_int [OF assms] assms by (auto simp: storable_def text_ok_def list_all_iff)
qed

theorem parse_published_event_witness:
  "map_option re_orderId (parseOrderPlaced (event_content (buildOrderPlacedEvent
     \<lparr>ev_orderId = 42, ev_customerEmail = ''a@b.c'', ev_totalCents = 500, ev_currency = ''UAH'', ev_items = []\<rparr> 7)))
   = Some 42"
  by (simp add: parse_published_event [OF refl])

lemma handle_tea: "\<exists>s'. handleMessage plain_hooks True Commits tea_delivery sample_db = ((Acked, [Ack]), s')"
proof -
  obtain b where p: "parseOrderPlaced (dl_content tea_delivery)
      = Some \<lparr>re_eventId = ''order-placed:1'', re_orderId = 1, re_body = b\<rparr>" (is "_ = Some ?ev")
    using parse_tea by blast
  have "fst (applyOrderPlacedEffect Commits ?ev sample_db) = Inr True"
    by (simp add: apply_run marked_def sample_db_def empty_db_def text_ok_def int4_def char_count_def)
  then obtain s' where "applyOrderPlacedEffect Commits ?ev sample_db = (Inr True, s')" by (metis prod.collapse)
  then show ?thesis
    by (simp add: handleMessage_def handle_body_def p plain_hooks_def send_command_def)
qed

theorem settled_correctly_witness:
  "\<exists>s'. handleMessage plain_hooks True Commits tea_delivery sample_db = ((Acked, [Ack]), s')
    \<and> (\<exists>ev. parseOrderPlaced (dl_content tea_delivery) = Some ev
        \<and> re_eventId ev \<in> fst ` set (processed_order_events s'))"
  using settled_correctly [OF journal_ok_empty] handle_tea by fastforce

subsection \<open>Any number of deliveries\<close>

type_synonym handling = "consumer_hooks \<times> bool \<times> commit_fate \<times> delivery"

text \<open>The outcomes of a sequence of deliveries, each with the event's id, and the database after them.\<close>

fun consume_all :: "handling list \<Rightarrow> db \<Rightarrow> (string option \<times> settled_outcome) list \<times> db" where
  "consume_all [] s = ([], s)"
| "consume_all ((hooks, opened, fate, msg) # hs) s =
     (let ((outc, cmds), s1) = handleMessage hooks opened fate msg s;
          (outcs, s2) = consume_all hs s1
      in ((map_option re_eventId (parseOrderPlaced (dl_content msg)), outc) # outcs, s2))"

lemma handle_keeps_effects:
  "(i, n) \<in> set (processed_order_events s) \<Longrightarrow>
   (i, n) \<in> set (processed_order_events (snd (handleMessage hooks opened fate msg s)))"
  by (auto simp: handle_final apply_run(2) applied_to_def split: option.splits)

lemma handle_marked:
  "marked s i \<Longrightarrow> marked (snd (handleMessage hooks opened fate msg s)) i"
  by (auto simp: handle_final order_inbox.never_forgets split: option.splits)

lemma handle_acked:
  assumes "handleMessage hooks opened fate msg s = ((Acked, cmds), s')"
  shows "\<exists>ev. parseOrderPlaced (dl_content msg) = Some ev \<and> \<not> marked s (re_eventId ev) \<and> marked s' (re_eventId ev)"
proof (cases "parseOrderPlaced (dl_content msg)")
  case None
  then show ?thesis using assms by (simp add: handle_poison split: if_splits)
next
  case (Some ev)
  have s': "s' = snd (applyOrderPlacedEffect fate ev s)" using handle_final [of hooks opened fate msg s] assms Some by simp
  obtain applied where "fst (applyOrderPlacedEffect fate ev s) = Inr applied" "Acked = (if applied then Acked else Skipped)"
    using handle_event [OF Some assms] by auto
  then have "applyOrderPlacedEffect fate ev s = (Inr True, s')" using s' by (auto simp: prod_eq_iff split: if_splits)
  then show ?thesis using order_inbox.applied_now Some by blast
qed

lemma consume_all_acked:
  "length (filter (\<lambda>x. x = (Some i, Acked)) (fst (consume_all hs s))) \<le> (if marked s i then 0 else 1)"
proof (induction hs arbitrary: s)
  case (Cons h hs)
  obtain hooks opened fate msg where h: "h = (hooks, opened, fate, msg)" by (cases h)
  obtain outc cmds s1 where run: "handleMessage hooks opened fate msg s = ((outc, cmds), s1)"
    by (metis prod.collapse)
  have mono: "marked s i \<Longrightarrow> marked s1 i" using handle_marked [of s i hooks opened fate msg] run by simp
  have acked: "\<not> marked s i \<and> marked s1 i"
    if "map_option re_eventId (parseOrderPlaced (dl_content msg)) = Some i" "outc = Acked"
    using handle_acked [of hooks opened fate msg s cmds s1] run that by auto
  show ?case using Cons.IH [of s1] mono acked h run by (auto simp: case_prod_beta split: if_splits)
qed simp

lemma consume_all_journal:
  assumes "journal_ok s" and "consume_all hs s = (outcs, s')"
  shows "journal_ok s' \<and> set (processed_order_events s) \<subseteq> set (processed_order_events s')
    \<and> (\<forall>i oc. (Some i, oc) \<in> set outcs \<and> oc \<in> {Acked, Skipped} \<longrightarrow> i \<in> fst ` set (processed_order_events s'))"
  using assms
proof (induction hs arbitrary: s outcs)
  case (Cons h hs)
  obtain hooks opened fate msg where h: "h = (hooks, opened, fate, msg)" by (cases h)
  obtain outc cmds s1 where run: "handleMessage hooks opened fate msg s = ((outc, cmds), s1)"
    by (metis prod.collapse)
  define outcs1 where "outcs1 = fst (consume_all hs s1)"
  have rest: "consume_all hs s1 = (outcs1, s')"
    and outcs: "outcs = (map_option re_eventId (parseOrderPlaced (dl_content msg)), outc) # outcs1"
    using Cons.prems(2) run h by (auto simp: case_prod_beta outcs1_def)
  have j1: "journal_ok s1" using journal_ok_handle [OF Cons.prems(1), of hooks opened fate msg] run by simp
  have e1: "set (processed_order_events s) \<subseteq> set (processed_order_events s1)"
    using handle_keeps_effects [of _ _ s hooks opened fate msg] run by auto
  note IH = Cons.IH [OF j1 rest]
  have "i \<in> fst ` set (processed_order_events s1)"
    if "map_option re_eventId (parseOrderPlaced (dl_content msg)) = Some i" "outc \<in> {Acked, Skipped}" for i
  proof -
    have "Ack \<in> set cmds" using settled_right [OF Cons.prems(1) run] that(2) by blast
    then obtain ev where "parseOrderPlaced (dl_content msg) = Some ev"
      "re_eventId ev \<in> fst ` set (processed_order_events s1)"
      using settled_right [OF Cons.prems(1) run] by blast
    then show ?thesis using that(1) by simp
  qed
  then have now: "i \<in> fst ` set (processed_order_events s')"
    if "map_option re_eventId (parseOrderPlaced (dl_content msg)) = Some i" "outc \<in> {Acked, Skipped}" for i
    using that IH by blast
  show ?case
  proof (intro conjI allI impI)
    fix i oc
    assume i: "(Some i, oc) \<in> set outcs \<and> oc \<in> {Acked, Skipped}"
    show "i \<in> fst ` set (processed_order_events s')"
    proof (cases "(Some i, oc) \<in> set outcs1")
      case True
      then show ?thesis using IH i by blast
    next
      case False
      then show ?thesis using i now [of i] outcs by auto
    qed
  qed (use IH e1 in auto)
qed simp

text \<open>C11: exactly-once effects. However often the broker delivers an event, in whatever order, and whichever
  deliveries fail, lose their connection or the reply to their \<open>COMMIT\<close>, are requeued or find the
  channel closed: an event has at most one effect row, a row once written stays as it is, and at most
  one delivery of an event is told that it applied the effect.\<close>

theorem effects_exactly_once:
  assumes "journal_ok s" and "consume_all hs s = (outcs, s')"
  shows "distinct (map fst (processed_order_events s'))
    \<and> set (processed_order_events s) \<subseteq> set (processed_order_events s')
    \<and> length (filter (\<lambda>x. x = (Some i, Acked)) outcs) \<le> 1
    \<and> (\<forall>i oc. (Some i, oc) \<in> set outcs \<and> oc \<in> {Acked, Skipped} \<longrightarrow> i \<in> fst ` set (processed_order_events s'))"
proof -
  have "journal_ok s' \<and> set (processed_order_events s) \<subseteq> set (processed_order_events s')
    \<and> (\<forall>i oc. (Some i, oc) \<in> set outcs \<and> oc \<in> {Acked, Skipped} \<longrightarrow> i \<in> fst ` set (processed_order_events s'))"
    using assms by (rule consume_all_journal)
  moreover have "length (filter (\<lambda>x. x = (Some i, Acked)) outcs) \<le> 1"
    using consume_all_acked [of i hs s] assms(2) by (simp split: if_splits)
  ultimately show ?thesis by (simp add: journal_ok_def)
qed

theorem effects_exactly_once_witness:
  "let (outcs, s') = consume_all [(plain_hooks, True, ReplyLost, tea_delivery), (plain_hooks, True, Commits, tea_delivery),
      (plain_hooks, True, Commits, tea_delivery)] sample_db
   in length (filter (\<lambda>x. x = (Some ''order-placed:1'', Acked)) outcs) \<le> 1
      \<and> distinct (map fst (processed_order_events s'))"
  using effects_exactly_once [OF journal_ok_empty, OF prod.collapse [symmetric]]
  by (simp add: Let_def case_prod_beta del: consume_all.simps)

end
