(* ===== verification/Publisher.thy ===== *)
theory Publisher
  imports Relay Consumer
begin

text \<open>
  The broker's side of the sources: the names and the topology (\<open>src/messaging/rabbitmq.config.ts\<close>,
  \<open>topology.ts\<close>), the publisher (\<open>publisher.ts\<close>) as a sink of the relay, and
  \<open>publish-order-placed.ts\<close>.

  RabbitMQ itself is not in the sources. What it does to a message is an argument: a list of answers,
  consumed one by one (\<open>broker_answer\<close>). \<open>pb_log\<close> is a ghost: the events the broker took
  responsibility for.
\<close>

subsection \<open>Names and topology\<close>

definition EXCHANGE_EVENTS :: string where "EXCHANGE_EVENTS = ''shop.events''"
definition EXCHANGE_UNROUTED :: string where "EXCHANGE_UNROUTED = ''shop.events.unrouted''"
definition EXCHANGE_DLX :: string where "EXCHANGE_DLX = ''shop.events.dlx''"
definition QUEUE_ORDER_PLACED :: string where "QUEUE_ORDER_PLACED = ''orders.order-placed''"
definition QUEUE_ORDER_PLACED_DLQ :: string where "QUEUE_ORDER_PLACED_DLQ = ''orders.order-placed.dlq''"
definition QUEUE_UNROUTED :: string where "QUEUE_UNROUTED = ''shop.unrouted''"
definition ROUTING_KEY_ORDER_PLACED_DEAD :: string where "ROUTING_KEY_ORDER_PLACED_DEAD = ''order.placed.dead''"
definition DELIVERY_LIMIT :: nat where "DELIVERY_LIMIT = 3"
definition PREFETCH :: nat where "PREFETCH = 20"

datatype exchange_kind = Fanout | Direct | Topic

text \<open>The arguments of a queue the sources set.\<close>

record queue_arguments =
  q_dead_letter_exchange :: "string option"
  q_dead_letter_routing_key :: "string option"
  q_delivery_limit :: "nat option"
  q_at_least_once :: bool
  q_reject_publish :: bool

definition quorum_only :: queue_arguments where
  "quorum_only = \<lparr>q_dead_letter_exchange = None, q_dead_letter_routing_key = None, q_delivery_limit = None,
     q_at_least_once = False, q_reject_publish = False\<rparr>"

datatype declaration_call =
    AssertExchange string exchange_kind "string option"
  | AssertQueue string queue_arguments
  | BindQueue string string string

definition assertTopology :: "declaration_call list" where
  "assertTopology =
     [AssertExchange EXCHANGE_UNROUTED Fanout None,
      AssertQueue QUEUE_UNROUTED quorum_only,
      BindQueue QUEUE_UNROUTED EXCHANGE_UNROUTED '''',
      AssertExchange EXCHANGE_DLX Direct None,
      AssertQueue QUEUE_ORDER_PLACED_DLQ quorum_only,
      BindQueue QUEUE_ORDER_PLACED_DLQ EXCHANGE_DLX ROUTING_KEY_ORDER_PLACED_DEAD,
      AssertExchange EXCHANGE_EVENTS Topic (Some EXCHANGE_UNROUTED),
      AssertQueue QUEUE_ORDER_PLACED
        \<lparr>q_dead_letter_exchange = Some EXCHANGE_DLX, q_dead_letter_routing_key = Some ROUTING_KEY_ORDER_PLACED_DEAD,
         q_delivery_limit = Some DELIVERY_LIMIT, q_at_least_once = True, q_reject_publish = True\<rparr>,
      BindQueue QUEUE_ORDER_PLACED EXCHANGE_EVENTS ROUTING_KEY_ORDER_PLACED]"

text \<open>The exchanges and queues a call refers to, and those it creates.\<close>

fun declares :: "declaration_call \<Rightarrow> string list" where
  "declares (AssertExchange e k alt) = [e]"
| "declares (AssertQueue q args) = [q]"
| "declares (BindQueue q e key) = []"

fun refers :: "declaration_call \<Rightarrow> string list" where
  "refers (AssertExchange e k alt) = (case alt of None \<Rightarrow> [] | Some x \<Rightarrow> [x])"
| "refers (AssertQueue q args) = (case q_dead_letter_exchange args of None \<Rightarrow> [] | Some x \<Rightarrow> [x])"
| "refers (BindQueue q e key) = [q, e]"

fun declared_first :: "string list \<Rightarrow> declaration_call list \<Rightarrow> bool" where
  "declared_first known [] \<longleftrightarrow> True"
| "declared_first known (c # cs) \<longleftrightarrow> set (refers c) \<subseteq> set known \<and> declared_first (declares c @ known) cs"

text \<open>The queues a message reaches by its exchange's bindings (exact keys; \<open>fanout\<close> ignores them), and by the
  alternate exchange when there is none.\<close>

definition bound_queues :: "declaration_call list \<Rightarrow> string \<Rightarrow> string \<Rightarrow> string list" where
  "bound_queues calls exchange key =
     concat (map (\<lambda>c. case c of BindQueue q e k \<Rightarrow>
         if e = exchange \<and> (k = key \<or> AssertExchange e Fanout None \<in> set calls) then [q] else [] | _ \<Rightarrow> []) calls)"

definition alternate :: "declaration_call list \<Rightarrow> string \<Rightarrow> string option" where
  "alternate calls exchange =
     (case concat (map (\<lambda>c. case c of AssertExchange e k (Some x) \<Rightarrow> if e = exchange then [x] else [] | _ \<Rightarrow> []) calls)
      of [] \<Rightarrow> None | x # _ \<Rightarrow> Some x)"

definition routed_to :: "declaration_call list \<Rightarrow> string \<Rightarrow> string \<Rightarrow> string list" where
  "routed_to calls exchange key =
     (let qs = bound_queues calls exchange key in
      if qs \<noteq> [] then qs
      else (case alternate calls exchange of None \<Rightarrow> [] | Some x \<Rightarrow> bound_queues calls x key))"

text \<open>The topology is declared in an order in which every name exists before it is referred to; every
  event published to the events exchange reaches a queue, the order queue exactly when its key is
  \<open>order.placed\<close>; and what the order queue gives up lands in the dead-letter queue alone.\<close>

theorem topology_routes:
  "declared_first [] assertTopology
   \<and> routed_to assertTopology EXCHANGE_EVENTS key
       = (if key = ROUTING_KEY_ORDER_PLACED then [QUEUE_ORDER_PLACED] else [QUEUE_UNROUTED])
   \<and> (\<exists>args. AssertQueue QUEUE_ORDER_PLACED args \<in> set assertTopology \<and> q_delivery_limit args = Some 3
        \<and> routed_to assertTopology (the (q_dead_letter_exchange args)) (the (q_dead_letter_routing_key args))
            = [QUEUE_ORDER_PLACED_DLQ])"
proof -
  note names = EXCHANGE_EVENTS_def EXCHANGE_UNROUTED_def EXCHANGE_DLX_def QUEUE_ORDER_PLACED_def
    QUEUE_ORDER_PLACED_DLQ_def QUEUE_UNROUTED_def ROUTING_KEY_ORDER_PLACED_def ROUTING_KEY_ORDER_PLACED_DEAD_def
  have "declared_first [] assertTopology" by (simp add: assertTopology_def quorum_only_def)
  moreover have "routed_to assertTopology EXCHANGE_EVENTS key
       = (if key = ROUTING_KEY_ORDER_PLACED then [QUEUE_ORDER_PLACED] else [QUEUE_UNROUTED])"
    by (simp add: routed_to_def bound_queues_def alternate_def assertTopology_def names)
  moreover have "routed_to assertTopology EXCHANGE_DLX ROUTING_KEY_ORDER_PLACED_DEAD = [QUEUE_ORDER_PLACED_DLQ]"
    by (simp add: routed_to_def bound_queues_def alternate_def assertTopology_def names)
  moreover have "AssertQueue QUEUE_ORDER_PLACED
      \<lparr>q_dead_letter_exchange = Some EXCHANGE_DLX, q_dead_letter_routing_key = Some ROUTING_KEY_ORDER_PLACED_DEAD,
       q_delivery_limit = Some DELIVERY_LIMIT, q_at_least_once = True, q_reject_publish = True\<rparr> \<in> set assertTopology"
    by (simp add: assertTopology_def)
  ultimately show ?thesis by (force simp: DELIVERY_LIMIT_def)
qed


subsection \<open>Where the broker is\<close>

text \<open>\<open>encodeURIComponent\<close> of a UTF-8 text.\<close>

definition uri_plain :: "char \<Rightarrow> bool" where
  "uri_plain c \<longleftrightarrow> (let n = of_char c :: nat in
     48 \<le> n \<and> n \<le> 57 \<or> 65 \<le> n \<and> n \<le> 90 \<or> 97 \<le> n \<and> n \<le> 122 \<or> n \<in> {33, 39, 40, 41, 42, 45, 46, 95, 126})"

definition upper_hex :: "nat \<Rightarrow> char" where
  "upper_hex d = (if d < 10 then char_of (48 + d) else char_of (55 + d))"

definition uri_char :: "char \<Rightarrow> string" where
  "uri_char c = (if uri_plain c then [c]
     else [CHR ''%'', upper_hex (of_char c div 16), upper_hex (of_char c mod 16)])"

definition encodeURIComponent :: "string \<Rightarrow> string" where
  "encodeURIComponent t = concat (map uri_char t)"

text \<open>\<open>env\<close> is \<open>process.env\<close>; \<open>file\<close> the content of \<open>secrets/rabbitmq_password\<close>, if it exists.\<close>

definition resolveRabbitUrl :: "(string \<Rightarrow> string option) \<Rightarrow> string option \<Rightarrow> string option" where
  "resolveRabbitUrl env file =
     (if env ''RABBITMQ_DISABLED'' = Some ''1'' then None
      else (case or_else (env ''RABBITMQ_URL'') (env ''BROKER_URL'') of
          Some (c # url) \<Rightarrow> Some (c # url)
        | _ \<Rightarrow>
          (case file of
             None \<Rightarrow> None
           | Some content \<Rightarrow>
               (let password = trim content;
                    user = (case env ''RABBITMQ_USER'' of None \<Rightarrow> ''marketplace'' | Some u \<Rightarrow> u);
                    host = (case env ''RABBITMQ_HOST'' of None \<Rightarrow> ''localhost'' | Some h \<Rightarrow> h);
                    port = (case env ''RABBITMQ_PORT'' of None \<Rightarrow> ''5672'' | Some p \<Rightarrow> p)
                in Some (''amqp://'' @ encodeURIComponent user @ '':'' @ encodeURIComponent password
                         @ ''@'' @ host @ '':'' @ port)))))"

definition getRabbitUrl :: "(string \<Rightarrow> string option) \<Rightarrow> string option \<Rightarrow> error + string" where
  "getRabbitUrl env file =
     (case resolveRabbitUrl env file of
        None \<Rightarrow> Inl (PlainError ''RabbitMQ'') | Some url \<Rightarrow> if url = [] then Inl (PlainError ''RabbitMQ'') else Inr url)"

subsection \<open>The publisher\<close>

text \<open>
  What can happen to one publication: the connection cannot be opened or breaks; the exchange is missing;
  the message is taken and confirmed; taken, but the confirmation is lost; refused (\<open>basic.nack\<close>); or
  returned as unroutable, with the confirmation that RabbitMQ sends after it, or with that lost.
\<close>

datatype broker_answer = Unreachable | NoExchange | Confirmed | Late | Refused | Returned | ReturnedLost

record publisher =
  pb_channel :: bool
  pb_returned :: "string list"
  pb_log :: "order_placed_event list"
  pb_answers :: "broker_answer list"

type_synonym 'a publishing = "(publisher, error, 'a) action"

definition openChannel :: "unit publishing" where
  "openChannel = (\<lambda>p.
     case pb_answers p of
       [] \<Rightarrow> (Inl (PlainError ''connect''), p)
     | Unreachable # as \<Rightarrow> (Inl (PlainError ''connect''), p\<lparr>pb_answers := as\<rparr>)
     | NoExchange # as \<Rightarrow> (Inl (PlainError ''Exchange''), p\<lparr>pb_answers := as\<rparr>)
     | _ \<Rightarrow> (Inr (), p\<lparr>pb_channel := True\<rparr>))"

definition getChannel :: "unit publishing" where
  "getChannel = (\<lambda>p. if pb_channel p then (Inr (), p) else openChannel p)"

text \<open>\<open>ch.publish\<close> and \<open>waitForConfirms\<close>; a broken channel is forgotten (its \<open>close\<close> handler).\<close>

definition send_message :: "order_placed_event \<Rightarrow> unit publishing" where
  "send_message event = (\<lambda>p.
     let next = (case pb_answers p of [] \<Rightarrow> Unreachable | a # _ \<Rightarrow> a);
         q = p\<lparr>pb_answers := tl (pb_answers p)\<rparr>
     in case next of
          Confirmed \<Rightarrow> (Inr (), q\<lparr>pb_log := pb_log q @ [event]\<rparr>)
        | Late \<Rightarrow> (Inl (PlainError ''confirm''), q\<lparr>pb_log := pb_log q @ [event], pb_channel := False\<rparr>)
        | Refused \<Rightarrow> (Inl (PlainError ''nack''), q)
        | Returned \<Rightarrow> (Inr (), q\<lparr>pb_returned := eventId event # pb_returned q\<rparr>)
        | ReturnedLost \<Rightarrow> (Inl (PlainError ''confirm''), q\<lparr>pb_returned := eventId event # pb_returned q, pb_channel := False\<rparr>)
        | _ \<Rightarrow> (Inl (PlainError ''channel''), q\<lparr>pb_channel := False\<rparr>))"

definition publish :: "order_placed_event \<Rightarrow> string \<Rightarrow> unit publishing" where
  "publish event routingKey =
     and_then getChannel (\<lambda>_.
     and_then (send_message event) (\<lambda>_ p.
       if eventId event \<in> set (pb_returned p)
       then (Inl (PlainError ''UnroutableMessageError''), p\<lparr>pb_returned := removeAll (eventId event) (pb_returned p)\<rparr>)
       else (Inr (), p)))"

definition closePublisher :: "unit publishing" where
  "closePublisher = (\<lambda>p. (Inr (), p\<lparr>pb_channel := False\<rparr>))"

text \<open>\<open>publishOrderPlaced\<close>: \<open>enabled\<close> is \<open>sink.isEnabled()\<close>, \<open>now\<close> the event's \<open>new Date()\<close>.\<close>

definition publishOrderPlaced :: "bool \<Rightarrow> order_placed_data \<Rightarrow> int \<Rightarrow> 'b sink \<Rightarrow> 'b \<Rightarrow> bool \<times> 'b" where
  "publishOrderPlaced enabled d now sink b =
     (if \<not> enabled then (False, b)
      else (case sink (buildOrderPlacedEvent d now) ROUTING_KEY_ORDER_PLACED b of
              (Inr _, b') \<Rightarrow> (True, b') | (Inl _, b') \<Rightarrow> (False, b')))"


lemma openChannel_cases:
  "openChannel p = (r, q) \<Longrightarrow> pb_log q = pb_log p \<and> pb_returned q = pb_returned p
     \<and> (r = Inr () \<longrightarrow> q = p\<lparr>pb_channel := True\<rparr>)"
  by (auto simp: openChannel_def split: list.splits broker_answer.splits)

lemma getChannel_cases:
  "getChannel p = (r, q) \<Longrightarrow> pb_log q = pb_log p \<and> pb_returned q = pb_returned p
     \<and> (r = Inr () \<longrightarrow> q = p\<lparr>pb_channel := True\<rparr>)"
  by (auto simp: getChannel_def dest: openChannel_cases split: if_splits)

lemma send_message_cases:
  assumes "send_message event p = (r, q)"
  shows "pb_log q = (if pb_answers p \<noteq> [] \<and> hd (pb_answers p) \<in> {Confirmed, Late} then pb_log p @ [event] else pb_log p)
    \<and> pb_returned q = (if pb_answers p \<noteq> [] \<and> hd (pb_answers p) \<in> {Returned, ReturnedLost}
          then eventId event # pb_returned p else pb_returned p)
    \<and> (r = Inr () \<longleftrightarrow> pb_answers p \<noteq> [] \<and> hd (pb_answers p) \<in> {Confirmed, Returned})"
proof (cases "pb_answers p")
  case (Cons a as)
  then show ?thesis using assms by (cases a) (auto simp: send_message_def Let_def)
qed (use assms in \<open>auto simp: send_message_def Let_def\<close>)

lemma publish_cases:
  assumes "publish event key p = (r, q)"
  shows "pb_log q \<in> {pb_log p, pb_log p @ [event]}"
    and "r = Inr () \<longleftrightarrow> pb_answers p \<noteq> [] \<and> hd (pb_answers p) = Confirmed \<and> eventId event \<notin> set (pb_returned p)"
    and "pb_answers p \<noteq> [] \<Longrightarrow> hd (pb_answers p) = Confirmed \<Longrightarrow> pb_log q = pb_log p @ [event]"
    and "pb_answers p \<noteq> [] \<Longrightarrow> hd (pb_answers p) = Returned \<Longrightarrow>
      r = Inl (PlainError ''UnroutableMessageError'') \<and> pb_log q = pb_log p \<and> eventId event \<notin> set (pb_returned q)"
proof -
  obtain r1 p1 where g: "getChannel p = (r1, p1)" by (cases "getChannel p")
  obtain r2 p2 where s: "send_message event p1 = (r2, p2)" by (cases "send_message event p1")
  note 1 = getChannel_cases [OF g] and 2 = send_message_cases [OF s]
  have answers: "r1 = Inr () \<Longrightarrow> pb_answers p1 = pb_answers p" using 1 by simp
  have opens: "r1 = Inr ()" if "pb_answers p \<noteq> []" "hd (pb_answers p) \<notin> {Unreachable, NoExchange}"
    using that g by (auto simp: getChannel_def openChannel_def neq_Nil_conv split: broker_answer.splits if_splits)
  have run: "publish event key p = (case r1 of Inl e \<Rightarrow> (Inl e, p1) | Inr _ \<Rightarrow>
      (case r2 of Inl e \<Rightarrow> (Inl e, p2) | Inr _ \<Rightarrow> if eventId event \<in> set (pb_returned p2)
       then (Inl (PlainError ''UnroutableMessageError''), p2\<lparr>pb_returned := removeAll (eventId event) (pb_returned p2)\<rparr>)
       else (Inr (), p2)))"
    unfolding publish_def using g s by (auto simp: and_then_def split: sum.splits)
  show "pb_log q \<in> {pb_log p, pb_log p @ [event]}"
    using assms run 1 2 by (cases r1; cases r2) (auto split: if_splits)
  show "r = Inr () \<longleftrightarrow> pb_answers p \<noteq> [] \<and> hd (pb_answers p) = Confirmed \<and> eventId event \<notin> set (pb_returned p)"
    using assms run 1 2 answers opens by (cases r1; cases r2) (auto split: if_splits)
  show "pb_answers p \<noteq> [] \<Longrightarrow> hd (pb_answers p) = Confirmed \<Longrightarrow> pb_log q = pb_log p @ [event]"
    using assms run 1 2 answers opens by (cases r1; cases r2) (auto split: if_splits)
  show "pb_answers p \<noteq> [] \<Longrightarrow> hd (pb_answers p) = Returned \<Longrightarrow>
      r = Inl (PlainError ''UnroutableMessageError'') \<and> pb_log q = pb_log p \<and> eventId event \<notin> set (pb_returned q)"
    using assms run 1 2 answers opens by (cases r1; cases r2) (auto split: if_splits)
qed

interpretation publisher_sink: broker_sink publish pb_log
proof
  show "confirms publish pb_log"
    unfolding confirms_def
  proof (intro allI)
    fix ev key b
    obtain r q where run: "publish ev key b = (r, q)" by (cases "publish ev key b")
    show "case fst (publish ev key b) of Inr _ \<Rightarrow> pb_log (snd (publish ev key b)) = pb_log b @ [ev]
      | Inl _ \<Rightarrow> pb_log (snd (publish ev key b)) \<in> {pb_log b, pb_log b @ [ev]}"
      using publish_cases(1-3) [OF run] run by (cases r) auto
  qed
qed

text \<open>C36: the courier with the real publisher, whatever the broker answers, in whatever order connections
  break, confirmations get lost and passes are cut off: a row is marked as published only when the
  broker has taken responsibility for its event, and no row is added or lost.\<close>

theorem publisher_relay_sound:
  assumes "\<forall>r \<in> set (outbox s). ob_published_at r \<noteq> None \<longrightarrow> ob_payload r \<in> set (pb_log p)"
    and "distinct (map ob_id (outbox s))"
    and "relayLoop publish options hooks \<lparr>rw_db = s, rw_broker = p\<rparr> = (pauses, w')"
  shows "(\<forall>r \<in> set (outbox (rw_db w')). ob_published_at r \<noteq> None \<longrightarrow> ob_payload r \<in> set (pb_log (rw_broker w')))
    \<and> map ob_id (outbox (rw_db w')) = map ob_id (outbox s)"
  using publisher_sink.loop_keeps [OF _ _ assms(3)] assms(1,2) by (simp add: published_seen_def)

theorem publisher_relay_sound_witness:
  "let w' = snd (relayLoop publish sample_options [True, True]
       \<lparr>rw_db = rw_db sample_relay,
        rw_broker = \<lparr>pb_channel = False, pb_returned = [], pb_log = [], pb_answers = [Late, Confirmed]\<rparr>\<rparr>)
   in \<forall>r \<in> set (outbox (rw_db w')). ob_published_at r \<noteq> None \<longrightarrow> ob_payload r \<in> set (pb_log (rw_broker w'))"
proof -
  have "\<forall>r \<in> set (outbox (rw_db sample_relay)). ob_published_at r = None"
    by (simp add: sample_relay_def sample_outbox_row_def)
  then show ?thesis
    using publisher_relay_sound [OF _ _ prod.collapse [symmetric], of "rw_db sample_relay"
        "\<lparr>pb_channel = False, pb_returned = [], pb_log = [], pb_answers = [Late, Confirmed]\<rparr>" sample_options "[True, True]"]
      sample_relay_ids by (simp add: Let_def del: relayLoop.simps)
qed

text \<open>\<open>publishOrderPlaced\<close> never throws and promises nothing false: it answers \<open>true\<close> only when the broker
  confirmed the event and no queue is missing, an unroutable event is answered with \<open>false\<close> and leaves no
  trace, and without a configured broker nothing is sent.\<close>

theorem publishOrderPlaced_correct:
  assumes "publishOrderPlaced enabled d now publish p = (answer, q)"
  shows "(answer \<longrightarrow> pb_log q = pb_log p @ [buildOrderPlacedEvent d now])
    \<and> (answer \<longleftrightarrow> enabled \<and> pb_answers p \<noteq> [] \<and> hd (pb_answers p) = Confirmed
          \<and> orderPlacedEventId (ev_orderId d) \<notin> set (pb_returned p))
    \<and> (enabled \<and> pb_answers p \<noteq> [] \<and> hd (pb_answers p) = Returned \<longrightarrow>
          pb_log q = pb_log p \<and> orderPlacedEventId (ev_orderId d) \<notin> set (pb_returned q))
    \<and> (\<not> enabled \<longrightarrow> q = p)"
proof (cases enabled)
  case True
  let ?ev = "buildOrderPlacedEvent d now"
  obtain r p1 where run: "publish ?ev ROUTING_KEY_ORDER_PLACED p = (r, p1)"
    by (cases "publish ?ev ROUTING_KEY_ORDER_PLACED p")
  have id: "eventId ?ev = orderPlacedEventId (ev_orderId d)" by (simp add: buildOrderPlacedEvent_def)
  have "answer = (r = Inr ()) \<and> q = p1"
    using assms run True by (cases r) (auto simp: publishOrderPlaced_def)
  then show ?thesis using publish_cases [OF run] True id by auto
qed (use assms in \<open>simp add: publishOrderPlaced_def\<close>)

theorem publishOrderPlaced_correct_witness:
  "let p = \<lparr>pb_channel = False, pb_returned = [], pb_log = [], pb_answers = [Confirmed]\<rparr>;
       (answer, q) = publishOrderPlaced True (ev_data (sample_event 1)) 7 publish p
   in answer \<and> pb_log q = [sample_event 1]"
  using publishOrderPlaced_correct [OF prod.collapse [symmetric], of True "ev_data (sample_event 1)" 7
      "\<lparr>pb_channel = False, pb_returned = [], pb_log = [], pb_answers = [Confirmed]\<rparr>"]
  by (simp add: Let_def case_prod_beta) (simp add: sample_event_def)

end
