(* ===== verification/Sessions.thy ===== *)
theory Sessions
  imports Publisher AccessTokens RefreshTokens
begin

text \<open>
  Server-side sessions: \<open>src/sessions/session-store.ts\<close> and \<open>session-middleware.ts\<close>.

  A session is a JSON text in Redis under a random identifier that travels in a cookie. Every visit moves
  its expiry (\<open>GETEX\<close>), and a session older than the absolute limit is deleted when it is next asked for.
  \<open>Date.now()\<close> of the application is an argument; the server clock of Redis is that of theory \<open>Redis\<close>.
  The 32 random bytes of an identifier are an argument (their base64url text). Header texts are UTF-8
  bytes; \<open>decodeURIComponent\<close> throws on a malformed escape, as in the language.
\<close>

definition SESSION_TTL_SEC :: int where "SESSION_TTL_SEC = 1800"
definition SESSION_ABSOLUTE_TTL_SEC :: int where "SESSION_ABSOLUTE_TTL_SEC = 86400"
definition SESSION_COOKIE :: string where "SESSION_COOKIE = ''sid''"

record session_store =
  ss_ttlSec :: int
  ss_absoluteTtlSec :: int

definition new_session_store :: "int option \<Rightarrow> int option \<Rightarrow> session_store" where
  "new_session_store ttlSec absoluteTtlSec =
     \<lparr>ss_ttlSec = (case ttlSec of None \<Rightarrow> SESSION_TTL_SEC | Some n \<Rightarrow> n),
      ss_absoluteTtlSec = (case absoluteTtlSec of None \<Rightarrow> SESSION_ABSOLUTE_TTL_SEC | Some n \<Rightarrow> n)\<rparr>"

definition SID_PATTERN :: "string \<Rightarrow> bool" where
  "SID_PATTERN sid \<longleftrightarrow> length sid = 43 \<and> list_all is_base64url_char sid"

definition sessionKey :: "string \<Rightarrow> string" where
  "sessionKey sid = ''sess:'' @ sid"

definition session_data :: "int \<Rightarrow> json \<Rightarrow> json" where
  "session_data createdAt vals = JObject [(''createdAt'', JNumber (Num (of_int createdAt))), (''values'', vals)]"

definition session_create :: "session_store \<Rightarrow> string \<Rightarrow> json \<Rightarrow> int \<Rightarrow> string redis_action" where
  "session_create store sid vals nowMs =
     and_then (redis_set_ex (sessionKey sid) (json_text (session_data nowMs vals)) (ss_ttlSec store)) (\<lambda>_. ret sid)"

text \<open>\<open>Date.now() - data.createdAt > limit\<close>: false for what is not a number.\<close>

fun older_than :: "int \<Rightarrow> int \<Rightarrow> jsnum \<Rightarrow> bool" where
  "older_than nowMs limitMs (Num c) = (of_int limitMs < of_int nowMs - c)"
| "older_than nowMs limitMs NegInf = True"
| "older_than nowMs limitMs _ = False"

definition session_get :: "session_store \<Rightarrow> string \<Rightarrow> int \<Rightarrow> json option redis_action" where
  "session_get store sid nowMs =
     (if \<not> SID_PATTERN sid then ret None
      else and_then (redis_getex (sessionKey sid) (ss_ttlSec store)) (\<lambda>raw.
        case raw of
          None \<Rightarrow> ret None
        | Some txt \<Rightarrow>
            (case json_parse txt of
               None \<Rightarrow> and_then (redis_del (sessionKey sid)) (\<lambda>_. ret None)
             | Some JNull \<Rightarrow> throw (PlainError ''TypeError'')
             | Some data \<Rightarrow>
                 if older_than nowMs (ss_absoluteTtlSec store * 1000) (js_Number_of (field_of ''createdAt'' data))
                 then and_then (redis_del (sessionKey sid)) (\<lambda>_. ret None)
                 else ret (Some data))))"

definition session_destroy :: "string \<Rightarrow> unit redis_action" where
  "session_destroy sid =
     (if SID_PATTERN sid then and_then (redis_del (sessionKey sid)) (\<lambda>_. ret ()) else ret ())"

subsection \<open>Cookies\<close>

text \<open>The byte a \<open>%XX\<close> at the start of the text stands for.\<close>

definition percent_octet :: "string \<Rightarrow> nat option" where
  "percent_octet s =
     (if 3 \<le> length s \<and> hd s = CHR ''%'' then
        (case (radix_digit 16 (s ! 1), radix_digit 16 (s ! 2)) of
           (Some a, Some b) \<Rightarrow> Some (16 * a + b) | _ \<Rightarrow> None)
      else None)"

definition code_point :: "nat list \<Rightarrow> nat" where
  "code_point octets =
     (let lead = hd octets;
          first = (if length octets = 1 then lead else lead mod 2 ^ (7 - length octets))
      in fold (\<lambda>b v. 64 * v + b mod 64) (tl octets) first)"

definition octet_count :: "nat \<Rightarrow> nat" where
  "octet_count lead = (if lead < 128 then 1 else if lead < 224 then 2 else if lead < 240 then 3 else 4)"

text \<open>One escaped character: its UTF-8 bytes and the length of the escapes that gave them.\<close>

definition percent_char :: "string \<Rightarrow> (string \<times> nat) option" where
  "percent_char s =
     (case percent_octet s of
        None \<Rightarrow> None
      | Some lead \<Rightarrow>
          (let octets = List.map_filter (\<lambda>i. percent_octet (drop (3 * i) s)) [0..<octet_count lead];
               point = code_point octets;
               txt = map char_of octets
           in if length octets = octet_count lead \<and> txt = utf8 point
                 \<and> point \<le> 1114111 \<and> \<not> (55296 \<le> point \<and> point \<le> 57343)
              then Some (txt, 3 * octet_count lead) else None))"

function decodeURIComponent :: "string \<Rightarrow> string option" where
  "decodeURIComponent [] = Some []"
| "decodeURIComponent (c # s) =
     (if c \<noteq> CHR ''%'' then map_option (Cons c) (decodeURIComponent s)
      else (case percent_char (c # s) of
              None \<Rightarrow> None
            | Some (txt, n) \<Rightarrow> map_option (append txt) (decodeURIComponent (drop (n - 1) s))))"
  by pat_completeness auto

termination by (relation "measure length") auto

fun split_on :: "char \<Rightarrow> string \<Rightarrow> string list" where
  "split_on c [] = [[]]"
| "split_on c (x # xs) =
     (if x = c then [] # split_on c xs
      else (case split_on c xs of [] \<Rightarrow> [[x]] | y # ys \<Rightarrow> (x # y) # ys))"

fun find_cookie :: "string \<Rightarrow> string list \<Rightarrow> error + string option" where
  "find_cookie name [] = Inr None"
| "find_cookie name (part # parts) =
     (if CHR ''='' \<notin> set part then find_cookie name parts
      else if trim (takeWhile (\<lambda>c. c \<noteq> CHR ''='') part) = name
      then (case decodeURIComponent (trim (tl (dropWhile (\<lambda>c. c \<noteq> CHR ''='') part))) of
              None \<Rightarrow> Inl (PlainError ''URIError'') | Some v \<Rightarrow> Inr (Some v))
      else find_cookie name parts)"

definition readCookie :: "string option \<Rightarrow> string \<Rightarrow> error + string option" where
  "readCookie header name =
     (case header of
        None \<Rightarrow> Inr None
      | Some h \<Rightarrow> if h = [] then Inr None else find_cookie name (split_on (CHR '';'') h))"

definition session_cookie :: "bool \<Rightarrow> string \<Rightarrow> int \<Rightarrow> string" where
  "session_cookie production sid ttlSec =
     SESSION_COOKIE @ ''='' @ encodeURIComponent sid @ ''; Max-Age='' @ show_int ttlSec
     @ ''; Path=/; HttpOnly; SameSite=Lax'' @ (if production then ''; Secure'' else '''')"

subsection \<open>In front of a handler\<close>

text \<open>One request and its response: what the middleware reads and leaves.\<close>

record session_exchange =
  sx_redis :: redis
  sx_cookie :: "string option"
  sx_sessionId :: "string option"
  sx_session :: "json option"
  sx_set_cookie :: "string list"

type_synonym 'a session_action = "(session_exchange, error, 'a) action"

definition session_redis :: "'a redis_action \<Rightarrow> 'a session_action" where
  "session_redis m = (\<lambda>x. let (r, s) = m (sx_redis x) in (r, x\<lparr>sx_redis := s\<rparr>))"

definition setSessionCookie :: "bool \<Rightarrow> string \<Rightarrow> int \<Rightarrow> unit session_action" where
  "setSessionCookie production sid ttlSec =
     modify (\<lambda>x. x\<lparr>sx_set_cookie := sx_set_cookie x @ [session_cookie production sid ttlSec]\<rparr>)"

text \<open>The result is the argument of \<open>next\<close>: an error (\<open>Inl\<close>) or none.\<close>

definition sessionMiddleware :: "session_store \<Rightarrow> bool \<Rightarrow> int \<Rightarrow> unit session_action" where
  "sessionMiddleware store production nowMs =
     and_then (gets sx_cookie) (\<lambda>cookie.
     case readCookie cookie SESSION_COOKIE of
       Inl e \<Rightarrow> throw e
     | Inr None \<Rightarrow> ret ()
     | Inr (Some sid) \<Rightarrow>
         if sid = [] then ret ()
         else and_then (session_redis (session_get store sid nowMs)) (\<lambda>session.
           case session of
             None \<Rightarrow> ret ()
           | Some data \<Rightarrow>
               and_then (modify (\<lambda>x. x\<lparr>sx_sessionId := Some sid, sx_session := Some data\<rparr>)) (\<lambda>_.
                 setSessionCookie production sid (ss_ttlSec store))))"

definition startSession :: "session_store \<Rightarrow> bool \<Rightarrow> string \<Rightarrow> json \<Rightarrow> int \<Rightarrow> string session_action" where
  "startSession store production sid vals nowMs =
     and_then (session_redis (session_create store sid vals nowMs)) (\<lambda>s.
     and_then (setSessionCookie production s (ss_ttlSec store)) (\<lambda>_. ret s))"

subsection \<open>A cookie comes back as it was set\<close>

lemma sid_char_plain:
  assumes "is_base64url_char c"
  shows "uri_plain c" and "c \<noteq> CHR ''%''" and "c \<noteq> CHR '';''" and "c \<noteq> CHR ''=''" and "\<not> is_space c"
  using assms by (auto simp: is_base64url_char_def uri_plain_def is_space_def Let_def)

lemma encode_plain: "list_all is_base64url_char sid \<Longrightarrow> encodeURIComponent sid = sid"
  by (induction sid) (auto simp: encodeURIComponent_def uri_char_def sid_char_plain(1))

lemma decode_plain: "list_all is_base64url_char sid \<Longrightarrow> decodeURIComponent sid = Some sid"
  by (induction sid) (auto simp: sid_char_plain(2))

lemma trim_plain:
  assumes "list_all (\<lambda>c. \<not> is_space c) s"
  shows "trim s = s" and "is_space c \<Longrightarrow> trim (c # s) = s"
proof -
  have front: "dropWhile is_space s = s" using assms by (cases s) simp_all
  have "dropWhile is_space (rev s) = rev s"
    unfolding dropWhile_eq_self_iff using assms hd_in_set [of "rev s"] by (auto simp: list_all_iff)
  then show "trim s = s" "is_space c \<Longrightarrow> trim (c # s) = s" using front by (simp_all add: trim_def)
qed

lemma split_on_no_sep: "c \<notin> set s \<Longrightarrow> split_on c s = [s]"
  by (induction s) auto

lemma split_on_nonempty: "split_on c s \<noteq> []"
  by (induction s) (auto split: list.splits)

lemma split_on_join: "c \<notin> set s \<Longrightarrow> split_on c (s @ c # r) = s # split_on c r"
  by (induction s) auto

text \<open>A cookie of another name in front of the one looked for.\<close>

definition other_cookie :: "string \<Rightarrow> string \<Rightarrow> bool" where
  "other_cookie name part \<longleftrightarrow>
     CHR '';'' \<notin> set part \<and> (CHR ''='' \<in> set part \<longrightarrow> trim (takeWhile (\<lambda>c. c \<noteq> CHR ''='') part) \<noteq> name)"

definition sid_pair :: "string \<Rightarrow> string" where
  "sid_pair sid = SESSION_COOKIE @ ''='' @ sid"

lemma session_cookie_pair:
  assumes "list_all is_base64url_char sid"
  shows "takeWhile (\<lambda>c. c \<noteq> CHR '';'') (session_cookie production sid ttl) = sid_pair sid"
proof -
  have "\<forall>c \<in> set sid. c \<noteq> CHR '';''" using assms sid_char_plain(3) by (auto simp: list_all_iff)
  then have "takeWhile (\<lambda>c. c \<noteq> CHR '';'') (sid @ CHR '';'' # r) = sid" for r
    by (simp add: takeWhile_append2)
  then show ?thesis by (simp add: session_cookie_def sid_pair_def SESSION_COOKIE_def encode_plain [OF assms])
qed

lemma find_cookie_pair:
  assumes "list_all is_base64url_char sid" and "pre = [] \<or> pre = '' ''"
  shows "find_cookie SESSION_COOKIE ((pre @ sid_pair sid) # rest) = Inr (Some sid)"
proof -
  have plain: "list_all (\<lambda>c. \<not> is_space c) sid" using assms(1) sid_char_plain(5) by (auto simp: list_all_iff)
  have name: "trim ''sid'' = ''sid''" "trim '' sid'' = ''sid''" by code_simp+
  have "trim (takeWhile (\<lambda>c. c \<noteq> CHR ''='') (pre @ sid_pair sid)) = SESSION_COOKIE"
    "tl (dropWhile (\<lambda>c. c \<noteq> CHR ''='') (pre @ sid_pair sid)) = sid" "CHR ''='' \<in> set (pre @ sid_pair sid)"
    using assms(2) name by (auto simp: sid_pair_def SESSION_COOKIE_def)
  then show ?thesis by (simp add: trim_plain(1) [OF plain] decode_plain [OF assms(1)])
qed

lemma find_other_cookie: "other_cookie name part \<Longrightarrow> find_cookie name (part # parts) = find_cookie name parts"
  by (simp add: other_cookie_def)

text \<open>Browsers join cookies by a semicolon and a space.\<close>

fun cookie_header :: "string list \<Rightarrow> string \<Rightarrow> string list \<Rightarrow> string" where
  "cookie_header [] pair after = pair @ concat (map (\<lambda>p. ''; '' @ p) after)"
| "cookie_header (p # ps) pair after = p @ ''; '' @ cookie_header ps pair after"

lemma other_cookie_space: "other_cookie name p \<Longrightarrow> other_cookie name (CHR '' '' # p)"
  by (auto simp: other_cookie_def trim_def is_space_def)

lemma find_in_header:
  assumes "list_all is_base64url_char sid" and "\<forall>p \<in> set ps. other_cookie SESSION_COOKIE p" and "pre = [] \<or> pre = '' ''"
  shows "find_cookie SESSION_COOKIE (split_on (CHR '';'') (pre @ cookie_header ps (sid_pair sid) after)) = Inr (Some sid)"
  using assms(2,3)
proof (induction ps arbitrary: pre)
  case Nil
  have "CHR '';'' \<notin> set sid" using assms(1) sid_char_plain(3) unfolding list_all_iff by blast
  then have "CHR '';'' \<notin> set (pre @ sid_pair sid)"
    using Nil.prems(2) by (elim disjE) (simp_all add: sid_pair_def SESSION_COOKIE_def)
  moreover have "concat (map (\<lambda>p. ''; '' @ p) after) = [] \<or> (\<exists>r. concat (map (\<lambda>p. ''; '' @ p) after) = CHR '';'' # r)"
    by (cases after) auto
  ultimately obtain rest where "split_on (CHR '';'') (pre @ cookie_header [] (sid_pair sid) after) = (pre @ sid_pair sid) # rest"
    using split_on_join [of "CHR '';''" "pre @ sid_pair sid"] split_on_no_sep [of "CHR '';''" "pre @ sid_pair sid"] by fastforce
  then show ?case using find_cookie_pair [OF assms(1) Nil.prems(2)] by simp
next
  case (Cons p ps)
  have p: "other_cookie SESSION_COOKIE (pre @ p)"
    using Cons.prems other_cookie_space by auto
  then have "CHR '';'' \<notin> set (pre @ p)" by (simp add: other_cookie_def)
  from split_on_join [OF this, of "'' '' @ cookie_header ps (sid_pair sid) after"]
  have "split_on (CHR '';'') (pre @ cookie_header (p # ps) (sid_pair sid) after)
      = (pre @ p) # split_on (CHR '';'') ('' '' @ cookie_header ps (sid_pair sid) after)" by simp
  then show ?case using find_other_cookie [OF p] Cons.IH [of "'' ''"] Cons.prems(1) by simp
qed

lemma readCookie_header:
  assumes "list_all is_base64url_char sid" and "\<forall>p \<in> set ps. other_cookie SESSION_COOKIE p"
  shows "readCookie (Some (cookie_header ps (sid_pair sid) after)) SESSION_COOKIE = Inr (Some sid)"
proof -
  have "cookie_header ps (sid_pair sid) after \<noteq> []" by (cases ps) (simp_all add: sid_pair_def SESSION_COOKIE_def)
  then show ?thesis using find_in_header [OF assms, of "[]"] by (simp add: readCookie_def)
qed

subsection \<open>How long a session lives\<close>

lemma session_data_text:
  "int_numbers vals \<Longrightarrow> json_parse (json_text (session_data t0 vals)) = Some (session_data t0 vals)"
  by (rule json_parse_text) (simp add: session_data_def)

lemma session_data_created: "js_Number_of (field_of ''createdAt'' (session_data t0 vals)) = Num (of_int t0)"
  by (simp add: session_data_def js_Number_of_def)

definition stored_session :: "string \<Rightarrow> int \<Rightarrow> json \<Rightarrow> int \<Rightarrow> redis \<Rightarrow> bool" where
  "stored_session sid t0 vals until r \<longleftrightarrow>
     r_up r \<and> r_data r (sessionKey sid) = Some (RString (json_text (session_data t0 vals)), Some until)"

lemma older_than_int: "older_than nowMs limitMs (Num (of_int c)) \<longleftrightarrow> limitMs < nowMs - c"
  unfolding older_than.simps by (metis of_int_diff of_int_less_iff)

lemma session_get_stored:
  assumes "SID_PATTERN sid" and "stored_session sid t0 vals until r" and "int_numbers vals" and "0 < ss_ttlSec store"
    and r': "r' = put (sessionKey sid) (RString (json_text (session_data t0 vals))) (Some (now_ms r + ss_ttlSec store * 1000)) r"
  shows "session_get store sid nowMs r =
    (if now_ms r < until
     then if ss_absoluteTtlSec store * 1000 < nowMs - t0 then (Inr None, erase (sessionKey sid) r')
          else (Inr (Some (session_data t0 vals)), r')
     else (Inr None, r))"
proof -
  have up: "r_up r" and live: "live r (sessionKey sid) = (if now_ms r < until then Some (RString (json_text (session_data t0 vals))) else None)"
    using assms(2) by (simp_all add: stored_session_def live_def)
  have x: "redis_getex (sessionKey sid) (ss_ttlSec store) r =
      (if now_ms r < until then (Inr (Some (json_text (session_data t0 vals))), r') else (Inr None, r))"
    using up live assms(4) r' by (simp add: redis_getex_def command_up)
  have d: "redis_del (sessionKey sid) r' = (Inr 1, erase (sessionKey sid) r')" if "now_ms r < until"
    using up assms(4) r' by (simp add: redis_del_def command_up live_put)
  have "session_data t0 vals \<noteq> JNull" by (simp add: session_data_def)
  then show ?thesis
    using assms(1) x d session_data_text [OF assms(3)] session_data_created older_than_int
    by (auto simp: session_get_def and_then_def session_data_def)
qed

lemma session_get_gone:
  assumes "r_up r" and "live r (sessionKey sid) = None"
  shows "session_get store sid nowMs r = (Inr None, r)"
  using assms by (simp add: session_get_def redis_getex_def command_up and_then_def)

text \<open>Visits at the given instants, by both clocks.\<close>

fun visits :: "session_store \<Rightarrow> string \<Rightarrow> int list \<Rightarrow> redis \<Rightarrow> redis" where
  "visits store sid [] r = r"
| "visits store sid (t # ts) r = visits store sid ts (snd (session_get store sid t (at_time (t * 1000) r)))"

lemma at_time_again [simp]: "at_time us (at_time us' r) = at_time us r"
  by (simp add: at_time_def)

lemma visits_gone:
  assumes "r_up r" and "live (at_time (hd (ts @ [t]) * 1000) r) (sessionKey sid) = None" and "sorted (ts @ [t])"
  shows "session_get store sid t (at_time (t * 1000) (visits store sid ts r))
      = (Inr None, at_time (t * 1000) (visits store sid ts r))"
  using assms
proof (induction ts arbitrary: r)
  case Nil
  then show ?case using session_get_gone [of "at_time (t * 1000) r"] by simp
next
  case (Cons u ts)
  then have gone: "session_get store sid u (at_time (u * 1000) r) = (Inr None, at_time (u * 1000) r)"
    using session_get_gone [of "at_time (u * 1000) r"] by simp
  have "u \<le> hd (ts @ [t])" using Cons.prems(3) by (cases ts) auto
  then have "live (at_time (hd (ts @ [t]) * 1000) r) (sessionKey sid) = None"
    using Cons.prems(2) live_expired_stays [of "u * 1000" r "sessionKey sid" "hd (ts @ [t]) * 1000"] by simp
  then show ?case using Cons.IH [of "at_time (u * 1000) r"] gone Cons.prems(1,3) by simp
qed

lemma visits_stored:
  assumes "SID_PATTERN sid" and "int_numbers vals" and "0 < ss_ttlSec store"
    and "stored_session sid t0 vals (seen + ss_ttlSec store * 1000) r" and "sorted (seen # ts @ [t])"
  shows "fst (session_get store sid t (at_time (t * 1000) (visits store sid ts r))) =
    Inr (if successively (\<lambda>a b. b - a < ss_ttlSec store * 1000) (seen # ts @ [t]) \<and> t - t0 \<le> ss_absoluteTtlSec store * 1000
         then Some (session_data t0 vals) else None)"
  using assms(4,5)
proof (induction ts arbitrary: seen r)
  case Nil
  then have "stored_session sid t0 vals (seen + ss_ttlSec store * 1000) (at_time (t * 1000) r)"
    by (simp add: stored_session_def)
  from session_get_stored [OF assms(1) this assms(2,3) refl] show ?case by auto
next
  case (Cons u ts)
  let ?r = "at_time (u * 1000) r"
  have s: "stored_session sid t0 vals (seen + ss_ttlSec store * 1000) ?r"
    using Cons.prems(1) by (simp add: stored_session_def)
  note get = session_get_stored [OF assms(1) s assms(2,3) refl, of u]
  have up: "r_up ?r" using s by (simp add: stored_session_def)
  have ut: "u \<le> hd (ts @ [t])" "u \<le> t" using Cons.prems(2) by (cases ts; auto)+
  consider "seen + ss_ttlSec store * 1000 \<le> u"
    | "u < seen + ss_ttlSec store * 1000" "ss_absoluteTtlSec store * 1000 < u - t0"
    | "u < seen + ss_ttlSec store * 1000" "u - t0 \<le> ss_absoluteTtlSec store * 1000" by linarith
  then show ?case
  proof cases
    case 1
    then have "live ?r (sessionKey sid) = None" using s by (simp add: stored_session_def live_def)
    then show ?thesis using 1 visits_gone [of r "u # ts" t sid store] Cons.prems(2) up by simp
  next
    case 2
    then have "snd (session_get store sid u ?r) = erase (sessionKey sid) (put (sessionKey sid) (RString (json_text (session_data t0 vals)))
        (Some (u + ss_ttlSec store * 1000)) ?r)" using get by simp
    then show ?thesis
      using 2 ut visits_gone [of "snd (session_get store sid u ?r)" ts t sid store] Cons.prems(2) up
      by (simp add: live_def erase_def put_def at_time_def)
  next
    case 3
    then have "stored_session sid t0 vals (u + ss_ttlSec store * 1000) (snd (session_get store sid u ?r))"
      using get up by (simp add: stored_session_def put_def)
    from Cons.IH [OF this] show ?thesis using 3 Cons.prems(2) by simp
  qed
qed

text \<open>C37: a session lives exactly as long as it should. After it was created, and whenever it was visited since,
  a visit finds its data, unchanged, if no two successive visits lay the idle limit apart and the
  absolute limit has not passed since its creation; otherwise it finds nothing.\<close>

theorem session_lifetime:
  assumes "SID_PATTERN sid" and "int_numbers vals" and "0 < ss_ttlSec store" and "r_up r"
    and "session_create store sid vals t0 (at_time (t0 * 1000) r) = (res, s)" and "sorted (t0 # ts @ [t])"
  shows "res = Inr sid \<and> fst (session_get store sid t (at_time (t * 1000) (visits store sid ts s))) =
    Inr (if successively (\<lambda>a b. b - a < ss_ttlSec store * 1000) (t0 # ts @ [t]) \<and> t - t0 \<le> ss_absoluteTtlSec store * 1000
         then Some (session_data t0 vals) else None)"
proof -
  have "res = Inr sid \<and> stored_session sid t0 vals (t0 + ss_ttlSec store * 1000) s"
    using assms(3-5) by (auto simp: session_create_def redis_set_ex_def command_def and_then_def stored_session_def put_def)
  then show ?thesis using visits_stored [OF assms(1-3) _ assms(6)] by blast
qed

text \<open>The cookie leads back to the session. When a session was started, any later request within both
  limits that sends the cookie back (its part before the attributes, among whatever other cookies) is
  handled with that session: the middleware finds its identifier and its data and sets the same cookie
  again, for another full idle period.\<close>

theorem session_roundtrip:
  assumes "SID_PATTERN sid" and "int_numbers vals" and "0 < ss_ttlSec store"
    and "r_up (sx_redis x0)" and "now_ms (sx_redis x0) = t0"
    and "startSession store production sid vals t0 x0 = (res, x1)"
    and "t0 \<le> t" and "t < t0 + ss_ttlSec store * 1000" and "t - t0 \<le> ss_absoluteTtlSec store * 1000"
    and "sx_redis x = at_time (t * 1000) (sx_redis x1)"
    and "sx_cookie x = Some (cookie_header ps (takeWhile (\<lambda>c. c \<noteq> CHR '';'') (last (sx_set_cookie x1))) after)"
    and "\<forall>p \<in> set ps. other_cookie SESSION_COOKIE p"
  shows "res = Inr sid \<and> (\<exists>x2. sessionMiddleware store production t x = (Inr (), x2)
      \<and> sx_sessionId x2 = Some sid \<and> sx_session x2 = Some (session_data t0 vals)
      \<and> sx_set_cookie x2 = sx_set_cookie x @ [last (sx_set_cookie x1)]
      \<and> r_data (sx_redis x2) (sessionKey sid)
          = Some (RString (json_text (session_data t0 vals)), Some (t + ss_ttlSec store * 1000)))"
proof -
  have plain: "list_all is_base64url_char sid" and ne: "sid \<noteq> []" using assms(1) by (auto simp: SID_PATTERN_def)
  have x1: "res = Inr sid" "sx_set_cookie x1 = sx_set_cookie x0 @ [session_cookie production sid (ss_ttlSec store)]"
    and stored: "stored_session sid t0 vals (t0 + ss_ttlSec store * 1000) (sx_redis x1)"
    using assms(3-6)
    by (auto simp: startSession_def session_create_def session_redis_def setSessionCookie_def redis_set_ex_def command_def
        and_then_def stored_session_def put_def)
  have cookie: "readCookie (sx_cookie x) SESSION_COOKIE = Inr (Some sid)"
    using assms(11) x1(2) readCookie_header [OF plain assms(12)] by (simp add: session_cookie_pair [OF plain])
  have "stored_session sid t0 vals (t0 + ss_ttlSec store * 1000) (sx_redis x)"
    using stored assms(10) by (simp add: stored_session_def)
  moreover have "now_ms (sx_redis x) = t" using assms(10) by simp
  ultimately have get: "session_get store sid t (sx_redis x) = (Inr (Some (session_data t0 vals)),
      put (sessionKey sid) (RString (json_text (session_data t0 vals))) (Some (t + ss_ttlSec store * 1000)) (sx_redis x))"
    using session_get_stored [OF assms(1) _ assms(2,3) refl, of t0 "t0 + ss_ttlSec store * 1000" "sx_redis x" t] assms(8,9) by simp
  have "sessionMiddleware store production t x = (Inr (), x\<lparr>sx_redis := snd (session_get store sid t (sx_redis x)),
      sx_sessionId := Some sid, sx_session := Some (session_data t0 vals),
      sx_set_cookie := sx_set_cookie x @ [session_cookie production sid (ss_ttlSec store)]\<rparr>)"
    using cookie get ne by (simp add: sessionMiddleware_def session_redis_def setSessionCookie_def and_then_def)
  then show ?thesis using x1 get by (simp add: put_def)
qed

subsection \<open>Examples\<close>

definition sample_sid :: string where
  "sample_sid = replicate 43 (CHR ''a'')"

lemma sample_sid_ok: "SID_PATTERN sample_sid"
  by code_simp

definition quiet_redis :: redis where
  "quiet_redis = \<lparr>r_us = 5000, r_up = True, r_data = (\<lambda>_. None)\<rparr>"

theorem session_lifetime_witness:
  "fst (session_get (new_session_store None None) sample_sid 3000000 (at_time 3000000000
     (visits (new_session_store None None) sample_sid [1500000]
       (snd (session_create (new_session_store None None) sample_sid (JObject []) 5 (at_time 5000 quiet_redis))))))
     = Inr (Some (session_data 5 (JObject [])))
   \<and> fst (session_get (new_session_store None None) sample_sid 3000000 (at_time 3000000000
     (visits (new_session_store None None) sample_sid []
       (snd (session_create (new_session_store None None) sample_sid (JObject []) 5 (at_time 5000 quiet_redis))))))
     = Inr None"
proof -
  let ?store = "new_session_store None None"
  obtain res s where c: "session_create ?store sample_sid (JObject []) 5 (at_time (5 * 1000) quiet_redis) = (res, s)" by fastforce
  have ttl: "0 < ss_ttlSec ?store" "int_numbers (JObject [])" "r_up quiet_redis"
    by (simp_all add: new_session_store_def SESSION_TTL_SEC_def quiet_redis_def)
  note life = session_lifetime [OF sample_sid_ok ttl(2,1,3) c]
  from life [of "[1500000]" 3000000] life [of "[]" 3000000] show ?thesis
    using c by (simp add: new_session_store_def SESSION_TTL_SEC_def SESSION_ABSOLUTE_TTL_SEC_def)
qed

definition sample_exchange :: session_exchange where
  "sample_exchange = \<lparr>sx_redis = quiet_redis, sx_cookie = None, sx_sessionId = None, sx_session = None, sx_set_cookie = []\<rparr>"

theorem session_roundtrip_witness:
  "let x1 = snd (startSession (new_session_store None None) True sample_sid (JObject []) 5 sample_exchange);
       x = sample_exchange\<lparr>sx_redis := at_time 60000000 (sx_redis x1),
             sx_cookie := Some (cookie_header [''lang=uk''] (takeWhile (\<lambda>c. c \<noteq> CHR '';'') (last (sx_set_cookie x1))) [''a'', ''sid=b''])\<rparr>
   in sx_session (snd (sessionMiddleware (new_session_store None None) True 60000 x)) = Some (session_data 5 (JObject []))"
proof -
  let ?store = "new_session_store None None"
  obtain res x1 where s: "startSession ?store True sample_sid (JObject []) 5 sample_exchange = (res, x1)" by fastforce
  have ttl: "0 < ss_ttlSec ?store" "int_numbers (JObject [])" "r_up (sx_redis sample_exchange)" "now_ms (sx_redis sample_exchange) = 5"
    by (simp_all add: new_session_store_def SESSION_TTL_SEC_def sample_exchange_def quiet_redis_def now_ms_def)
  have other: "\<forall>p \<in> set [''lang=uk'']. other_cookie SESSION_COOKIE p" by code_simp
  note trip = session_roundtrip [OF sample_sid_ok ttl(2,1,3,4) s, of 60000
      "sample_exchange\<lparr>sx_redis := at_time 60000000 (sx_redis x1),
             sx_cookie := Some (cookie_header [''lang=uk''] (takeWhile (\<lambda>c. c \<noteq> CHR '';'') (last (sx_set_cookie x1))) [''a'', ''sid=b''])\<rparr>"
      "[''lang=uk'']" "[''a'', ''sid=b'']"]
  have "\<exists>x2. sessionMiddleware ?store True 60000 (sample_exchange\<lparr>sx_redis := at_time 60000000 (sx_redis x1),
             sx_cookie := Some (cookie_header [''lang=uk''] (takeWhile (\<lambda>c. c \<noteq> CHR '';'') (last (sx_set_cookie x1))) [''a'', ''sid=b''])\<rparr>) = (Inr (), x2)
      \<and> sx_session x2 = Some (session_data 5 (JObject []))"
    using trip other by (auto simp: new_session_store_def SESSION_TTL_SEC_def SESSION_ABSOLUTE_TTL_SEC_def)
  then show ?thesis using s by (auto simp: Let_def)
qed

end
