(* ===== verification/Workers.thy ===== *)
theory Workers
  imports Database
begin

text \<open>
  Parallel workers on the table of jobs: \<open>claimOne\<close>, \<open>runWorker\<close> and \<open>main\<close> of \<open>src/demo-workers.ts\<close>.

  \<open>claimOne\<close> is one transaction that locks the first free job (\<open>FOR UPDATE SKIP LOCKED\<close>), works on it and
  marks it done. Workers interleave between its statements, so the transaction is two steps of
  \<open>work_step\<close>: \<open>Claims\<close> takes the row lock (\<open>ws_held\<close>), \<open>Commits\<close> writes the row and releases it, \<open>Aborts\<close>
  is the rollback. The count query of \<open>runWorker\<close> reads committed rows. \<open>claimOne\<close> as a whole, run with
  the locks of others, is the executable definition; \<open>claimOne_as_steps\<close> says it is two such steps.
\<close>

definition is_free_job :: "job_row \<Rightarrow> bool" where
  "is_free_job r \<longleftrightarrow> j_status r = ''new'' \<and> j_orderId r = None"

definition claimable :: "int set \<Rightarrow> job_row list \<Rightarrow> job_row list" where
  "claimable locked rs = take 1 (sort_key j_id (filter (\<lambda>r. is_free_job r \<and> j_id r \<notin> locked) rs))"

definition finish_job :: "string \<Rightarrow> int \<Rightarrow> job_row \<Rightarrow> job_row" where
  "finish_job worker jobId r =
     (if j_id r = jobId
      then r\<lparr>j_status := ''done'', j_worker := Some worker, j_processed := j_processed r + 1\<rparr> else r)"

datatype claim_result = Claimed | Empty

definition claimOne :: "string \<Rightarrow> int set \<Rightarrow> claim_result db_action" where
  "claimOne worker locked =
     and_then (gets (\<lambda>s. claimable locked (jobs s))) (\<lambda>rows.
       case rows of
         [] \<Rightarrow> ret Empty
       | r # _ \<Rightarrow> and_then (modify (\<lambda>s. s\<lparr>jobs := map (finish_job worker (j_id r)) (jobs s)\<rparr>)) (\<lambda>_. ret Claimed))"

definition remaining_jobs :: "job_row list \<Rightarrow> nat" where
  "remaining_jobs rs = length (filter is_free_job rs)"

subsection \<open>Interleaved\<close>

record workshop =
  ws_jobs :: "job_row list"
  ws_held :: "(string \<times> int) list"
  ws_running :: "string list"
  ws_finished :: "string list"
  ws_stats :: "string \<Rightarrow> nat"

datatype work_event = Claims string | Commits string | Aborts string | Leaves string

inductive work_step :: "workshop \<Rightarrow> work_event \<Rightarrow> workshop \<Rightarrow> bool" where
  claims: "w \<in> set (ws_running s) \<Longrightarrow> w \<notin> fst ` set (ws_held s)
    \<Longrightarrow> claimable (snd ` set (ws_held s)) (ws_jobs s) = [r]
    \<Longrightarrow> work_step s (Claims w) (s\<lparr>ws_held := (w, j_id r) # ws_held s\<rparr>)"
| commits: "(w, j) \<in> set (ws_held s)
    \<Longrightarrow> work_step s (Commits w) (s\<lparr>ws_jobs := map (finish_job w j) (ws_jobs s),
          ws_held := filter (\<lambda>h. fst h \<noteq> w) (ws_held s), ws_stats := (ws_stats s)(w := ws_stats s w + 1)\<rparr>)"
| aborts: "w \<in> set (ws_running s)
    \<Longrightarrow> work_step s (Aborts w) (s\<lparr>ws_held := filter (\<lambda>h. fst h \<noteq> w) (ws_held s), ws_running := removeAll w (ws_running s)\<rparr>)"
| leaves: "w \<in> set (ws_running s) \<Longrightarrow> w \<notin> fst ` set (ws_held s) \<Longrightarrow> remaining_jobs (ws_jobs s) = 0
    \<Longrightarrow> work_step s (Leaves w) (s\<lparr>ws_running := removeAll w (ws_running s), ws_finished := w # ws_finished s\<rparr>)"

inductive_cases work_stepE: "work_step s e s'"

inductive work_run :: "workshop \<Rightarrow> workshop \<Rightarrow> bool" for s0 where
  work_start: "work_run s0 s0"
| work_more: "work_run s0 s \<Longrightarrow> work_step s e s' \<Longrightarrow> work_run s0 s'"

text \<open>How \<open>main\<close> starts: its own jobs, all new, and the workers with nothing counted.\<close>

definition fresh_job :: "job_row \<Rightarrow> bool" where
  "fresh_job r \<longleftrightarrow> j_status r = ''new'' \<and> j_orderId r = None \<and> j_worker r = None \<and> j_processed r = 0"

definition opened :: "workshop \<Rightarrow> bool" where
  "opened s \<longleftrightarrow> distinct (map j_id (ws_jobs s)) \<and> list_all fresh_job (ws_jobs s)
     \<and> ws_held s = [] \<and> ws_finished s = [] \<and> ws_stats s = (\<lambda>_. 0)"

subsection \<open>Each job once\<close>

definition done_job :: "job_row \<Rightarrow> bool" where
  "done_job r \<longleftrightarrow> j_status r = ''done'' \<and> j_worker r \<noteq> None \<and> j_processed r = 1"

definition work_inv :: "workshop \<Rightarrow> bool" where
  "work_inv s \<longleftrightarrow>
     distinct (map j_id (ws_jobs s)) \<and> (\<forall>r \<in> set (ws_jobs s). fresh_job r \<or> done_job r)
   \<and> distinct (map fst (ws_held s)) \<and> distinct (map snd (ws_held s))
   \<and> (\<forall>(w, j) \<in> set (ws_held s). w \<in> set (ws_running s) \<and> (\<exists>r \<in> set (ws_jobs s). j_id r = j \<and> fresh_job r))
   \<and> (\<forall>w. ws_stats s w = length (filter (\<lambda>r. j_worker r = Some w) (ws_jobs s)))
   \<and> (ws_finished s \<noteq> [] \<longrightarrow> remaining_jobs (ws_jobs s) = 0)"

lemma fresh_not_done: "fresh_job r \<Longrightarrow> \<not> done_job r"
  by (simp add: fresh_job_def done_job_def)

lemma fresh_free: "fresh_job r \<Longrightarrow> is_free_job r"
  by (simp add: fresh_job_def is_free_job_def)

lemma finish_id [simp]: "j_id (finish_job w j r) = j_id r"
  by (simp add: finish_job_def)

lemma finish_other: "j_id r \<noteq> j \<Longrightarrow> finish_job w j r = r"
  by (simp add: finish_job_def)

lemma finish_fresh:
  "fresh_job r \<Longrightarrow> j_id r = j \<Longrightarrow> done_job (finish_job w j r) \<and> j_worker (finish_job w j r) = Some w"
  by (simp add: finish_job_def fresh_job_def done_job_def)

lemma claimable_row:
  assumes "claimable locked rs = [r]"
  shows "r \<in> set rs" and "is_free_job r" and "j_id r \<notin> locked"
proof -
  have "r \<in> set (sort_key j_id (filter (\<lambda>r. is_free_job r \<and> j_id r \<notin> locked) rs))"
    using assms unfolding claimable_def by (metis in_set_takeD list.set_intros(1))
  then show "r \<in> set rs" "is_free_job r" "j_id r \<notin> locked" by simp_all
qed

lemma claimable_one: "claimable locked rs = r # rs' \<Longrightarrow> rs' = []"
  unfolding claimable_def by (cases "sort_key j_id (filter (\<lambda>r. is_free_job r \<and> j_id r \<notin> locked) rs)") simp_all

lemma finished_count:
  assumes "distinct (map j_id rs)" and "r \<in> set rs" and "fresh_job r"
  shows "length (filter (\<lambda>q. j_worker q = Some v) (map (finish_job w (j_id r)) rs))
    = length (filter (\<lambda>q. j_worker q = Some v) rs) + (if v = w then 1 else 0)"
  using assms
proof (induction rs)
  case (Cons a rs)
  show ?case
  proof (cases "a = r")
    case True
    have "j_id r \<notin> j_id ` set rs" using Cons.prems(1) True by simp
    then have "map (finish_job w (j_id r)) rs = rs" by (intro map_idI finish_other) (metis imageI)
    then show ?thesis using True finish_fresh [OF Cons.prems(3) refl, of w] Cons.prems(3)
      by (auto simp: fresh_job_def)
  next
    case False
    then have "r \<in> set rs" "j_id a \<noteq> j_id r" using Cons.prems by (auto simp: image_iff)
    then show ?thesis using Cons by (cases "v = w") (simp_all add: finish_other)
  qed
qed simp

lemma remaining_finish: "remaining_jobs rs = 0 \<Longrightarrow> remaining_jobs (map (finish_job w j) rs) = 0"
  by (auto simp: remaining_jobs_def filter_empty_conv finish_job_def is_free_job_def)

lemma opened_inv: "opened s \<Longrightarrow> work_inv s"
  by (auto simp: opened_def work_inv_def list_all_iff fresh_job_def filter_empty_conv)

lemma filter_out_distinct: "distinct (map f xs) \<Longrightarrow> distinct (map f (filter P xs))"
  by (simp add: distinct_map_filter)

lemma work_invD:
  assumes "work_inv s"
  shows "distinct (map j_id (ws_jobs s))" and "r \<in> set (ws_jobs s) \<Longrightarrow> fresh_job r \<or> done_job r"
    and "distinct (map fst (ws_held s))" and "distinct (map snd (ws_held s))"
    and "(w, j) \<in> set (ws_held s) \<Longrightarrow> w \<in> set (ws_running s)"
    and "(w, j) \<in> set (ws_held s) \<Longrightarrow> \<exists>r \<in> set (ws_jobs s). j_id r = j \<and> fresh_job r"
    and "ws_stats s w = length (filter (\<lambda>r. j_worker r = Some w) (ws_jobs s))"
    and "ws_finished s \<noteq> [] \<Longrightarrow> remaining_jobs (ws_jobs s) = 0"
proof -
  note i = assms [unfolded work_inv_def]
  show "distinct (map j_id (ws_jobs s))" "r \<in> set (ws_jobs s) \<Longrightarrow> fresh_job r \<or> done_job r"
    "distinct (map fst (ws_held s))" "distinct (map snd (ws_held s))" using i by blast+
  show "(w, j) \<in> set (ws_held s) \<Longrightarrow> w \<in> set (ws_running s)"
    "(w, j) \<in> set (ws_held s) \<Longrightarrow> \<exists>r \<in> set (ws_jobs s). j_id r = j \<and> fresh_job r" using i by fast+
  show "ws_stats s w = length (filter (\<lambda>r. j_worker r = Some w) (ws_jobs s))"
    "ws_finished s \<noteq> [] \<Longrightarrow> remaining_jobs (ws_jobs s) = 0" using i by simp_all
qed

lemma work_invI:
  assumes "distinct (map j_id (ws_jobs s))" and "\<And>r. r \<in> set (ws_jobs s) \<Longrightarrow> fresh_job r \<or> done_job r"
    and "distinct (map fst (ws_held s))" and "distinct (map snd (ws_held s))"
    and "\<And>w j. (w, j) \<in> set (ws_held s) \<Longrightarrow> w \<in> set (ws_running s)"
    and "\<And>w j. (w, j) \<in> set (ws_held s) \<Longrightarrow> \<exists>r \<in> set (ws_jobs s). j_id r = j \<and> fresh_job r"
    and "\<And>w. ws_stats s w = length (filter (\<lambda>r. j_worker r = Some w) (ws_jobs s))"
    and "ws_finished s \<noteq> [] \<Longrightarrow> remaining_jobs (ws_jobs s) = 0"
  shows "work_inv s"
  unfolding work_inv_def using assms by blast

lemma held_unique:
  assumes "work_inv s" and "(w, j) \<in> set (ws_held s)" and "(v, j) \<in> set (ws_held s)"
  shows "v = w"
proof -
  have "(v, j) = (w, j)"
    using key_eq [OF work_invD(4) [OF assms(1)] assms(3,2)] by simp
  then show ?thesis by simp
qed

lemma work_inv_commit:
  assumes inv: "work_inv s" and held: "(w, j) \<in> set (ws_held s)"
  shows "work_inv (s\<lparr>ws_jobs := map (finish_job w j) (ws_jobs s), ws_held := filter (\<lambda>h. fst h \<noteq> w) (ws_held s),
      ws_stats := (ws_stats s)(w := ws_stats s w + 1)\<rparr>)" (is "work_inv ?s")
proof (rule work_invI)
  obtain r where r: "r \<in> set (ws_jobs s)" "j_id r = j" "fresh_job r" using work_invD(6) [OF inv held] by blast
  note ids = work_invD(1) [OF inv]
  show "distinct (map j_id (ws_jobs ?s))" using ids by (simp add: comp_def)
  show "fresh_job q \<or> done_job q" if "q \<in> set (ws_jobs ?s)" for q
  proof -
    from that obtain q0 where q0: "q0 \<in> set (ws_jobs s)" "q = finish_job w j q0" by auto
    show ?thesis
    proof (cases "j_id q0 = j")
      case True
      then have "q0 = r" using key_eq [OF ids q0(1) r(1)] r(2) by simp
      then show ?thesis using q0(2) finish_fresh [OF r(3,2)] by simp
    qed (use q0 work_invD(2) [OF inv q0(1)] in \<open>simp add: finish_other\<close>)
  qed
  show "distinct (map fst (ws_held ?s))" "distinct (map snd (ws_held ?s))"
    using work_invD(3,4) [OF inv] by (simp_all add: filter_out_distinct)
  fix v k assume h: "(v, k) \<in> set (ws_held ?s)"
  then have vk: "(v, k) \<in> set (ws_held s)" "v \<noteq> w" by auto
  show "v \<in> set (ws_running ?s)" using work_invD(5) [OF inv vk(1)] by simp
  have "k \<noteq> j" using held_unique [OF inv held] vk by blast
  moreover obtain q where "q \<in> set (ws_jobs s)" "j_id q = k" "fresh_job q" using work_invD(6) [OF inv vk(1)] by blast
  ultimately show "\<exists>r \<in> set (ws_jobs ?s). j_id r = k \<and> fresh_job r"
    using finish_other [of q j w] by (intro bexI [of _ q]) (auto intro: image_eqI [of _ _ q])
next
  obtain r where r: "r \<in> set (ws_jobs s)" "j_id r = j" "fresh_job r" using work_invD(6) [OF inv held] by blast
  show "ws_stats ?s v = length (filter (\<lambda>q. j_worker q = Some v) (ws_jobs ?s))" for v
    using finished_count [OF work_invD(1) [OF inv] r(1,3), of v w] work_invD(7) [OF inv] r(2) by simp
  show "remaining_jobs (ws_jobs ?s) = 0" if "ws_finished ?s \<noteq> []"
    using that work_invD(8) [OF inv] remaining_finish by simp
qed

lemma work_inv_step:
  assumes inv: "work_inv s" and "work_step s e s'"
  shows "work_inv s'"
  using assms(2)
proof (cases rule: work_step.cases)
  case (claims w r)
  note c = claimable_row [OF claims(5)]
  have "fresh_job r" using work_invD(2) [OF inv c(1)] c(2) by (auto simp: done_job_def is_free_job_def)
  then show ?thesis unfolding claims(2) using work_invD [OF inv] claims(3,4) c
    by (intro work_invI) (auto simp: image_iff)
next
  case (commits w j)
  then show ?thesis using work_inv_commit [OF inv] by simp
next
  case (aborts w)
  show ?thesis unfolding aborts(2) using work_invD [OF inv]
    by (intro work_invI) (auto intro: filter_out_distinct)
next
  case (leaves w)
  have "v \<noteq> w" if "(v, j) \<in> set (ws_held s)" for v j using that leaves(4) by force
  then show ?thesis unfolding leaves(2) using work_invD [OF inv] leaves(5)
    by (intro work_invI) auto
qed

lemma work_inv_run: "work_run s0 s \<Longrightarrow> work_inv s0 \<Longrightarrow> work_inv s"
  by (induction rule: work_run.induct) (auto intro: work_inv_step)

lemma work_run_ids: "work_run s0 s \<Longrightarrow> map j_id (ws_jobs s) = map j_id (ws_jobs s0)"
proof (induction rule: work_run.induct)
  case (work_more s e s')
  from work_more.hyps(2) have "map j_id (ws_jobs s') = map j_id (ws_jobs s)"
    by (cases rule: work_step.cases) (simp_all add: comp_def)
  then show ?case using work_more.IH by simp
qed simp

text \<open>One call of \<open>claimOne\<close> by a running worker, with the others' locks, is two steps of the workshop.\<close>

lemma claimOne_as_steps:
  assumes "work_inv s" and "w \<in> set (ws_running s)" and "w \<notin> fst ` set (ws_held s)"
    and "claimOne w (snd ` set (ws_held s)) d = (Inr Claimed, d')" and "jobs d = ws_jobs s"
  shows "\<exists>s1 s2. work_step s (Claims w) s1 \<and> work_step s1 (Commits w) s2 \<and> ws_jobs s2 = jobs d' \<and> ws_held s2 = ws_held s"
proof -
  obtain r where r: "claimable (snd ` set (ws_held s)) (ws_jobs s) = [r]" "jobs d' = map (finish_job w (j_id r)) (jobs d)"
    using assms(4,5) unfolding claimOne_def
    by (cases "claimable (snd ` set (ws_held s)) (jobs d)") (auto simp: and_then_def dest: claimable_one)
  let ?s1 = "s\<lparr>ws_held := (w, j_id r) # ws_held s\<rparr>"
  have "filter (\<lambda>h. fst h \<noteq> w) (ws_held s) = ws_held s"
    using assms(3) by (intro filter_True) (metis image_eqI)
  then have "work_step ?s1 (Commits w) (s\<lparr>ws_jobs := map (finish_job w (j_id r)) (ws_jobs s),
      ws_stats := (ws_stats s)(w := ws_stats s w + 1)\<rparr>)"
    using work_step.commits [of w "j_id r" ?s1] by simp
  then show ?thesis using work_step.claims [OF assms(2,3) r(1)] r(2) assms(5) by fastforce
qed

lemma all_done: "work_inv s \<Longrightarrow> ws_finished s \<noteq> [] \<Longrightarrow> r \<in> set (ws_jobs s) \<Longrightarrow> done_job r"
  using work_invD(2,8) fresh_free by (fastforce simp: remaining_jobs_def filter_empty_conv)

text \<open>C39: every job is done once. However the workers interleave, and whichever of them fail, a job is
  processed at most once, and a job is marked done exactly when it was processed; no job appears or
  vanishes; the count each worker keeps is the number of jobs that carry its name; and when a worker has
  left because it found nothing remaining, every job has been processed.\<close>

theorem workers_process_once:
  assumes "opened s0" and "work_run s0 s"
  shows "map j_id (ws_jobs s) = map j_id (ws_jobs s0)
    \<and> (\<forall>r \<in> set (ws_jobs s). j_processed r \<le> 1 \<and> (j_processed r = 1 \<longleftrightarrow> j_status r = ''done''))
    \<and> (\<forall>w. ws_stats s w = length (filter (\<lambda>r. j_worker r = Some w) (ws_jobs s)))
    \<and> (ws_finished s \<noteq> [] \<longrightarrow> (\<forall>r \<in> set (ws_jobs s). j_processed r = 1))"
proof -
  have inv: "work_inv s" using work_inv_run [OF assms(2) opened_inv [OF assms(1)]] .
  have rows: "j_processed r \<le> 1 \<and> (j_processed r = 1 \<longleftrightarrow> j_status r = ''done'')" if "r \<in> set (ws_jobs s)" for r
    using work_invD(2) [OF inv that] by (auto simp: fresh_job_def done_job_def)
  have "j_processed r = 1" if "ws_finished s \<noteq> []" "r \<in> set (ws_jobs s)" for r
    using all_done [OF inv that] by (simp add: done_job_def)
  then show ?thesis using rows work_run_ids [OF assms(2)] work_invD(7) [OF inv] by blast
qed

subsection \<open>The workers come to an end\<close>

definition work_left :: "workshop \<Rightarrow> int" where
  "work_left s = 2 * int (remaining_jobs (ws_jobs s)) + 2 * int (length (ws_running s)) - int (length (ws_held s))"

lemma held_le_remaining:
  assumes "work_inv s"
  shows "length (ws_held s) \<le> remaining_jobs (ws_jobs s)"
proof -
  have "snd ` set (ws_held s) \<subseteq> j_id ` set (filter is_free_job (ws_jobs s))"
    using work_invD(6) [OF assms] fresh_free by fastforce
  then have "card (snd ` set (ws_held s)) \<le> length (filter is_free_job (ws_jobs s))"
    by (metis card_length card_mono finite_imageI finite_set list.set_map length_map order_trans)
  moreover have "card (snd ` set (ws_held s)) = length (ws_held s)"
    using distinct_card [OF work_invD(4) [OF assms]] by simp
  ultimately show ?thesis by (simp add: remaining_jobs_def)
qed

lemma remaining_finish_less:
  assumes "distinct (map j_id rs)" and "r \<in> set rs" and "is_free_job r"
  shows "Suc (remaining_jobs (map (finish_job w (j_id r)) rs)) = remaining_jobs rs"
  using assms
proof (induction rs)
  case (Cons a rs)
  show ?case
  proof (cases "a = r")
    case True
    have "j_id r \<notin> j_id ` set rs" using Cons.prems(1) True by simp
    then have "map (finish_job w (j_id r)) rs = rs" by (intro map_idI finish_other) (metis imageI)
    moreover have "\<not> is_free_job (finish_job w (j_id r) r)" by (simp add: finish_job_def is_free_job_def)
    ultimately show ?thesis using True Cons.prems(3) by (simp add: remaining_jobs_def)
  next
    case False
    then have "r \<in> set rs" "j_id a \<noteq> j_id r" using Cons.prems by (auto simp: image_iff)
    then show ?thesis using Cons by (cases "is_free_job a") (auto simp: finish_other remaining_jobs_def)
  qed
qed simp

lemma length_removeAll_in: "x \<in> set xs \<Longrightarrow> Suc (length (removeAll x xs)) \<le> length xs"
  by (meson Suc_leI length_removeAll_less)

lemma length_filter_key: "distinct (map f xs) \<Longrightarrow> length xs \<le> Suc (length (filter (\<lambda>x. f x \<noteq> k) xs))"
proof (induction xs)
  case (Cons a xs)
  show ?case
  proof (cases "f a = k")
    case True
    then have "k \<notin> f ` set xs" using Cons.prems by simp
    then have "filter (\<lambda>x. f x \<noteq> k) xs = xs" by (intro filter_True) (metis imageI)
    then show ?thesis using True by simp
  qed (use Cons in simp)
qed simp

lemma work_left_less:
  assumes inv: "work_inv s" and "work_step s e s'"
  shows "work_left s' < work_left s"
  using assms(2)
proof (cases rule: work_step.cases)
  case (commits w j)
  obtain r where r: "r \<in> set (ws_jobs s)" "j_id r = j" "fresh_job r" using work_invD(6) [OF inv commits(3)] by blast
  show ?thesis
    using remaining_finish_less [OF work_invD(1) [OF inv] r(1) fresh_free [OF r(3)], of w] r(2)
      length_filter_key [OF work_invD(3) [OF inv], of w] by (simp add: commits(2) work_left_def)
next
  case (aborts w)
  then show ?thesis
    using length_removeAll_in [OF aborts(3)] length_filter_key [OF work_invD(3) [OF inv], of w] by (simp add: work_left_def)
next
  case (leaves w)
  then show ?thesis using length_removeAll_in [OF leaves(3)] by (simp add: work_left_def)
qed (simp add: work_left_def)

lemma some_step:
  assumes inv: "work_inv s" and "w \<in> set (ws_running s)"
  shows "\<exists>e s'. work_step s e s' \<and> (\<forall>v. e \<noteq> Aborts v)"
proof (cases "ws_held s")
  case (Cons h hs)
  then have "(fst h, snd h) \<in> set (ws_held s)" by simp
  from work_step.commits [OF this] show ?thesis by blast
next
  case Nil
  show ?thesis
  proof (cases "claimable {} (ws_jobs s)")
    case Nil': Nil
    then have "remaining_jobs (ws_jobs s) = 0"
      by (simp add: claimable_def remaining_jobs_def take_eq_Nil) (metis length_0_conv length_sort list.size(3))
    then show ?thesis using work_step.leaves [OF assms(2)] Nil by fastforce
  next
    case (Cons r rs)
    then have "rs = []" by (rule claimable_one)
    then show ?thesis using work_step.claims [OF assms(2), of r] Nil Cons by fastforce
  qed
qed

text \<open>The workers come to an end: no run is longer than two steps for every job and every worker, and as long
  as a worker is still running some worker can take a step other than failing (nobody waits for
  somebody who waits). So the workers leave, and unless all of them failed, all jobs are done.\<close>

theorem workers_terminate:
  assumes "opened s0" and "((\<lambda>s s'. \<exists>e. work_step s e s') ^^ n) s0 s"
  shows "n \<le> 2 * length (ws_jobs s0) + 2 * length (ws_running s0)
    \<and> (ws_running s \<noteq> [] \<longrightarrow> (\<exists>e s'. work_step s e s' \<and> (\<forall>w. e \<noteq> Aborts w)))
    \<and> (ws_running s = [] \<longrightarrow> ws_finished s \<noteq> [] \<longrightarrow> (\<forall>r \<in> set (ws_jobs s). j_processed r = 1))"
proof -
  have run: "work_run s0 s \<and> work_inv s \<and> int n + work_left s \<le> work_left s0"
    using assms(2)
  proof (induction n arbitrary: s)
    case 0
    then show ?case using work_start opened_inv [OF assms(1)] by auto
  next
    case (Suc n)
    then obtain s1 e where s1: "((\<lambda>s s'. \<exists>e. work_step s e s') ^^ n) s0 s1" "work_step s1 e s" by auto
    from Suc.IH [OF s1(1)] s1(2) show ?case
      using work_more work_inv_step work_left_less by fastforce
  qed
  then have "0 \<le> work_left s" using held_le_remaining [of s] by (simp add: work_left_def)
  moreover have "work_left s0 \<le> 2 * int (length (ws_jobs s0)) + 2 * int (length (ws_running s0))"
    using assms(1) length_filter_le [of is_free_job "ws_jobs s0"] by (simp add: work_left_def opened_def remaining_jobs_def)
  ultimately have "n \<le> 2 * length (ws_jobs s0) + 2 * length (ws_running s0)" using run by linarith
  moreover have "ws_running s \<noteq> [] \<longrightarrow> (\<exists>e s'. work_step s e s' \<and> (\<forall>w. e \<noteq> Aborts w))"
    using some_step run by (metis list.set_sel(1))
  moreover have "\<forall>r \<in> set (ws_jobs s). j_processed r = 1" if "ws_finished s \<noteq> []"
    using all_done [OF conjunct1 [OF conjunct2 [OF run]] that] by (simp add: done_job_def)
  ultimately show ?thesis by blast
qed

text \<open>There is a run in which nobody fails, from wherever the workers are.\<close>

lemma workers_can_finish:
  assumes "work_inv s" "ws_running s \<noteq> [] \<or> ws_finished s \<noteq> []"
  shows "\<exists>s'. work_run s s' \<and> ws_finished s' \<noteq> []"
  using assms
proof (induction "nat (work_left s)" arbitrary: s rule: less_induct)
  case less
  show ?case
  proof (cases "ws_finished s = []")
    case True
    then obtain v where "v \<in> set (ws_running s)" using less.prems(2) by (cases "ws_running s") auto
    from some_step [OF less.prems(1) this] obtain e s1 where s1: "work_step s e s1" "\<forall>v. e \<noteq> Aborts v" by blast
    have live: "ws_running s1 \<noteq> [] \<or> ws_finished s1 \<noteq> []"
      using s1 less.prems(2) True by (cases rule: work_step.cases) auto
    have inv: "work_inv s1" using work_inv_step [OF less.prems(1) s1(1)] .
    have "nat (work_left s1) < nat (work_left s)"
      using work_left_less [OF less.prems(1) s1(1)] held_le_remaining [OF inv] by (simp add: work_left_def)
    from less.hyps [OF this inv live] obtain s' where "work_run s1 s'" "ws_finished s' \<noteq> []" by blast
    moreover have "work_run s s'" using \<open>work_run s1 s'\<close>
      by (induction rule: work_run.induct) (auto intro: work_more work_start s1(1))
    ultimately show ?thesis by blast
  qed (use work_start in blast)
qed

subsection \<open>The script\<close>

definition JOB_COUNT :: nat where "JOB_COUNT = 12"
definition WORKER_COUNT :: nat where "WORKER_COUNT = 4"
definition WORK_MS :: int where "WORK_MS = 100"

text \<open>Its own jobs: the old ones without an order go, and \<open>JOB_COUNT\<close> new ones are inserted.\<close>

definition new_job :: "int \<Rightarrow> int \<Rightarrow> job_row" where
  "new_job i t = \<lparr>j_id = i, j_orderId = None, j_status = ''new'', j_worker = None, j_processed = 0, j_createdAt = t\<rparr>"

fun insert_jobs :: "nat \<Rightarrow> unit db_action" where
  "insert_jobs 0 = ret ()"
| "insert_jobs (Suc n) =
     and_then (nextval seq_jobs (\<lambda>n s. s\<lparr>seq_jobs := n\<rparr>)) (\<lambda>i.
     and_then (modify (\<lambda>s. s\<lparr>jobs := jobs s @ [new_job i (clock s)]\<rparr>)) (\<lambda>_. insert_jobs n))"

definition prepare_jobs :: "unit db_action" where
  "prepare_jobs =
     and_then (modify (\<lambda>s. s\<lparr>jobs := filter (\<lambda>r. j_orderId r \<noteq> None) (jobs s)\<rparr>)) (\<lambda>_. insert_jobs JOB_COUNT)"

definition own_jobs :: "db \<Rightarrow> job_row list" where
  "own_jobs s = filter (\<lambda>r. j_orderId r = None) (jobs s)"

definition workshop_of :: "db \<Rightarrow> workshop" where
  "workshop_of s =
     \<lparr>ws_jobs = own_jobs s, ws_held = [], ws_running = map (\<lambda>i. ''worker-'' @ show_nat (i + 1)) [0..<WORKER_COUNT],
      ws_finished = [], ws_stats = (\<lambda>_. 0)\<rparr>"

text \<open>The exit code: of the rows after the workers are over, and of the time they took together.\<close>

definition check_jobs :: "job_row list \<Rightarrow> int \<Rightarrow> int" where
  "check_jobs rows elapsedMs =
     (let sequentialMs = int JOB_COUNT * WORK_MS;
          unprocessed = length (filter (\<lambda>r. j_processed r = 0) rows);
          doubleProcessed = length (filter (\<lambda>r. 2 \<le> j_processed r) rows)
      in if 0 < doubleProcessed \<or> 0 < unprocessed \<or> sequentialMs \<le> elapsedMs then 1 else 0)"

lemma fresh_new_job: "fresh_job (new_job i t)" "j_orderId (new_job i t) = None"
  by (simp_all add: fresh_job_def new_job_def)

lemma insert_jobs_opens:
  assumes "insert_jobs n s = (Inr (), s')" "serial (map j_id (jobs s)) (seq_jobs s)" "list_all fresh_job (own_jobs s)"
  shows "serial (map j_id (jobs s')) (seq_jobs s') \<and> list_all fresh_job (own_jobs s') \<and> length (own_jobs s') = length (own_jobs s) + n"
  using assms
proof (induction n arbitrary: s)
  case (Suc n)
  let ?s = "s\<lparr>seq_jobs := seq_jobs s + 1, jobs := jobs s @ [new_job (seq_jobs s) (clock s)]\<rparr>"
  have run: "insert_jobs n ?s = (Inr (), s')" "seq_jobs s \<le> 2147483647"
    using Suc.prems(1) by (auto simp: and_then_def nextval_def split: if_splits)
  have "serial (map j_id (jobs ?s)) (seq_jobs ?s)"
    using serial_snoc [OF Suc.prems(2) run(2)] by (simp add: new_job_def)
  moreover have "list_all fresh_job (own_jobs ?s)" "length (own_jobs ?s) = length (own_jobs s) + 1"
    using Suc.prems(3) by (simp_all add: own_jobs_def fresh_new_job)
  ultimately show ?case using Suc.IH [OF run(1)] by simp
qed simp

lemma prepared_opened:
  assumes "serial (map j_id (jobs s)) (seq_jobs s)" "prepare_jobs s = (Inr (), s')"
  shows "opened (workshop_of s')" "length (own_jobs s') = JOB_COUNT"
proof -
  let ?s = "s\<lparr>jobs := filter (\<lambda>r. j_orderId r \<noteq> None) (jobs s)\<rparr>"
  have "insert_jobs JOB_COUNT ?s = (Inr (), s')" using assms(2) by (simp add: prepare_jobs_def and_then_def)
  moreover have "serial (map j_id (jobs ?s)) (seq_jobs ?s)"
    using assms(1) by (auto simp: serial_def sorted_wrt_map sorted_wrt_filter)
  moreover have "own_jobs ?s = []" by (auto simp: own_jobs_def filter_empty_conv)
  ultimately have "serial (map j_id (jobs s')) (seq_jobs s')" "list_all fresh_job (own_jobs s')" "length (own_jobs s') = JOB_COUNT"
    using insert_jobs_opens [of JOB_COUNT ?s s'] by simp_all
  then show "opened (workshop_of s')" "length (own_jobs s') = JOB_COUNT"
    by (auto simp: opened_def workshop_of_def own_jobs_def dest: serial_distinct intro: filter_out_distinct)
qed

text \<open>The script passes its own check on every table. Whatever way its workers interleave, as long as one of them comes
  to its end and they take less time together than one would alone, it exits with 0: there were twelve jobs, and
  each was processed exactly once.\<close>

theorem workers_demo_holds:
  assumes "serial (map j_id (jobs s)) (seq_jobs s)" and "prepare_jobs s = (Inr (), s1)"
    and "work_run (workshop_of s1) w" and "ws_finished w \<noteq> []" and "elapsedMs < 1200"
  shows "check_jobs (ws_jobs w) elapsedMs = 0 \<and> length (ws_jobs w) = 12"
proof -
  note opened = prepared_opened [OF assms(1,2)]
  have "\<forall>r \<in> set (ws_jobs w). j_processed r = 1"
    using all_done [OF work_inv_run [OF assms(3) opened_inv [OF opened(1)]] assms(4)] by (simp add: done_job_def)
  moreover have "length (map j_id (ws_jobs w)) = length (own_jobs s1)"
    using work_run_ids [OF assms(3)] by (simp add: workshop_of_def)
  ultimately show ?thesis using assms(5) opened(2)
    by (auto simp: check_jobs_def JOB_COUNT_def WORK_MS_def filter_empty_conv)
qed

subsection \<open>An example\<close>

definition sample_job :: "int \<Rightarrow> job_row" where
  "sample_job i = \<lparr>j_id = i, j_orderId = None, j_status = ''new'', j_worker = None, j_processed = 0, j_createdAt = 0\<rparr>"

definition sample_workshop :: workshop where
  "sample_workshop = \<lparr>ws_jobs = [sample_job 1, sample_job 2], ws_held = [], ws_running = [''a'', ''b''],
     ws_finished = [], ws_stats = (\<lambda>_. 0)\<rparr>"

definition claimed_workshop :: workshop where
  "claimed_workshop = sample_workshop\<lparr>ws_held := [(''b'', 1)]\<rparr>"

lemma sample_opened: "opened sample_workshop"
  by (simp add: opened_def sample_workshop_def sample_job_def fresh_job_def)

lemma sample_claim: "work_step sample_workshop (Claims ''b'') claimed_workshop"
proof -
  have "claimable (snd ` set (ws_held sample_workshop)) (ws_jobs sample_workshop) = [sample_job 1]"
    by (simp add: claimable_def sample_workshop_def sample_job_def is_free_job_def)
  from work_step.claims [OF _ _ this, of "''b''"] show ?thesis
    by (simp add: claimed_workshop_def sample_workshop_def sample_job_def)
qed

theorem workers_process_once_witness:
  "let s = claimed_workshop\<lparr>ws_jobs := map (finish_job ''b'' 1) (ws_jobs claimed_workshop), ws_held := [],
         ws_stats := (ws_stats claimed_workshop)(''b'' := 1)\<rparr>
   in (\<forall>r \<in> set (ws_jobs s). j_processed r \<le> 1) \<and> ws_stats s ''b'' = 1"
proof -
  have "work_step claimed_workshop (Commits ''b'') (claimed_workshop\<lparr>ws_jobs := map (finish_job ''b'' 1) (ws_jobs claimed_workshop),
      ws_held := [], ws_stats := (ws_stats claimed_workshop)(''b'' := 1)\<rparr>)"
    using work_step.commits [of "''b''" 1 claimed_workshop] by (simp add: claimed_workshop_def sample_workshop_def)
  from work_more [OF work_more [OF work_start sample_claim] this]
  have "work_run sample_workshop (claimed_workshop\<lparr>ws_jobs := map (finish_job ''b'' 1) (ws_jobs claimed_workshop),
      ws_held := [], ws_stats := (ws_stats claimed_workshop)(''b'' := 1)\<rparr>)" .
  from workers_process_once [OF sample_opened this] show ?thesis by (simp add: Let_def)
qed

theorem workers_demo_holds_witness:
  "\<exists>s1 w. prepare_jobs empty_db = (Inr (), s1) \<and> work_run (workshop_of s1) w \<and> check_jobs (ws_jobs w) 310 = 0"
proof -
  have ok: "serial (map j_id (jobs empty_db)) (seq_jobs empty_db)" by (simp add: empty_db_def serial_def)
  obtain s1 where s1: "prepare_jobs empty_db = (Inr (), s1)"
    by (simp add: prepare_jobs_def JOB_COUNT_def and_then_def nextval_def empty_db_def numeral_eq_Suc)
  have "work_inv (workshop_of s1)" "ws_running (workshop_of s1) \<noteq> []"
    using opened_inv [OF prepared_opened(1) [OF ok s1]] by (simp_all add: workshop_of_def WORKER_COUNT_def)
  then obtain w where w: "work_run (workshop_of s1) w" "ws_finished w \<noteq> []" using workers_can_finish by blast
  from workers_demo_holds [OF ok s1 w, of 310] show ?thesis using s1 w(1) by auto
qed

theorem workers_terminate_witness:
  "(1::nat) \<le> 8 \<and> (\<exists>e s'. work_step claimed_workshop e s')"
proof -
  have "((\<lambda>s s'. \<exists>e. work_step s e s') ^^ 1) sample_workshop claimed_workshop" using sample_claim by auto
  from workers_terminate [OF sample_opened this] show ?thesis
    by (auto simp: claimed_workshop_def sample_workshop_def)
qed

end
