(* ===== verification/Retry.thy ===== *)
theory Retry
  imports Database
begin

text \<open>
  Optimistic updates that are retried: \<open>withRetry\<close>, \<open>bump\<close> and \<open>main\<close> of \<open>src/demo-retry.ts\<close>.

  \<open>bump\<close> reads a balance, thinks, and writes back what it computed, in a \<open>REPEATABLE READ\<close> transaction.
  PostgreSQL gives such a transaction one snapshot and refuses to update a row that another transaction
  has committed a change to since (\<open>40001\<close>). The row is its balance and the number of committed changes
  (\<open>None\<close>: no such user). What other transactions commit while this one thinks or sleeps is an argument:
  the list of amounts they add, each seen from here as one atomic change. The random part of the back-off is
  an argument as well (a number in \<open>[0, 1)\<close>).
\<close>

definition RETRYABLE_CODES :: "string list" where
  "RETRYABLE_CODES = [''40001'', ''40P01'']"

definition SERIALIZATION_FAILURE :: error where
  "SERIALIZATION_FAILURE = QueryFailedError ''40001''"

text \<open>\<open>err?.code ?? err?.driverError?.code\<close>: the SQLSTATE, where the error has one.\<close>

fun error_code :: "error \<Rightarrow> string option" where
  "error_code (QueryFailedError code) = Some code"
| "error_code _ = None"

definition retryable :: "error \<Rightarrow> bool" where
  "retryable err \<longleftrightarrow> (case error_code err of None \<Rightarrow> False | Some code \<Rightarrow> code \<in> set RETRYABLE_CODES)"

text \<open>\<open>Math.round(2 ** attempt * 25 + Math.random() * 25)\<close>.\<close>

definition backoff :: "nat \<Rightarrow> rat \<Rightarrow> int" where
  "backoff attempt random = \<lfloor>2 ^ attempt * 25 + random * 25 + 1 / 2\<rfloor>"

text \<open>
  The loop from its attempt \<open>attempt\<close> on. \<open>fn k\<close> is the transaction as it runs in the k-th attempt,
  \<open>meanwhile k\<close> what happens during the pause after it. The value lists the pauses made.
\<close>

function withRetry ::
  "nat \<Rightarrow> (nat \<Rightarrow> rat) \<Rightarrow> (nat \<Rightarrow> ('s, error, 'a) action) \<Rightarrow> (nat \<Rightarrow> 's \<Rightarrow> 's) \<Rightarrow> nat \<Rightarrow> ('s, error, 'a \<times> int list) action" where
  "withRetry maxAttempts random fn meanwhile attempt s =
     (case fn attempt s of
        (Inr a, s') \<Rightarrow> (Inr (a, []), s')
      | (Inl err, s') \<Rightarrow>
          if retryable err \<and> attempt < maxAttempts
          then (case withRetry maxAttempts random fn meanwhile (attempt + 1) (meanwhile attempt s') of
                  (Inr (a, pauses), s'') \<Rightarrow> (Inr (a, backoff attempt (random attempt) # pauses), s'')
                | (Inl e, s'') \<Rightarrow> (Inl e, s''))
          else (Inl err, s'))"
  by pat_completeness auto

termination by (relation "measure (\<lambda>(m, rnd, f, w, k, s). m - k)") auto

declare withRetry.simps [simp del]

subsection \<open>The transaction\<close>

record account =
  ac_balance :: int
  ac_changes :: nat

fun add_all :: "int list \<Rightarrow> account option \<Rightarrow> account option" where
  "add_all [] row = row"
| "add_all (d # ds) row =
     add_all ds (map_option (\<lambda>r. \<lparr>ac_balance = ac_balance r + d, ac_changes = ac_changes r + 1\<rparr>) row)"

definition bump_tx :: "int \<Rightarrow> int list \<Rightarrow> (account option, error, unit) action" where
  "bump_tx deltaCents others = (\<lambda>row.
     case row of
       None \<Rightarrow> (Inl (TypeError ''rows[0]''), add_all others row)
     | Some snapshot \<Rightarrow>
         (let now = add_all others row; newBalance = ac_balance snapshot + deltaCents in
          if \<not> (-2147483648 \<le> newBalance \<and> newBalance \<le> 2147483647) then (Inl (QueryFailedError ''22003''), now)
          else (case now of
              None \<Rightarrow> (Inr (), now)
            | Some r \<Rightarrow>
                if ac_changes r \<noteq> ac_changes snapshot then (Inl SERIALIZATION_FAILURE, now)
                else (Inr (), Some \<lparr>ac_balance = newBalance, ac_changes = ac_changes r + 1\<rparr>))))"

definition bump ::
  "int \<Rightarrow> (nat \<Rightarrow> rat) \<Rightarrow> (nat \<Rightarrow> int list) \<Rightarrow> (nat \<Rightarrow> int list) \<Rightarrow> (account option, error, unit \<times> int list) action" where
  "bump deltaCents random thinking sleeping =
     withRetry 5 random (\<lambda>k. bump_tx deltaCents (thinking k)) (\<lambda>k. add_all (sleeping k)) 1"

subsection \<open>Attempts\<close>

lemma backoff_bounds:
  assumes "0 \<le> random" and "random < 1"
  shows "2 ^ attempt * 25 \<le> backoff attempt random \<and> backoff attempt random \<le> 2 ^ attempt * 25 + 25"
proof -
  have "of_int (2 ^ attempt * 25) \<le> 2 ^ attempt * 25 + random * 25 + 1 / 2" using assms(1) by simp
  moreover have "2 ^ attempt * 25 + random * 25 + 1 / 2 < of_int (2 ^ attempt * 25 + 25) + 1" using assms(2) by simp
  ultimately show ?thesis unfolding backoff_def by (simp add: le_floor_iff floor_le_iff del: of_int_add of_int_mult)
qed

text \<open>One unrolling: the loop is over after this attempt, or it goes on with the next.\<close>

lemma withRetry_cases:
  assumes "withRetry maxAttempts random fn meanwhile attempt s = (res, s')"
  obtains (over) "fst (fn attempt s) = (case res of Inr (a, _) \<Rightarrow> Inr a | Inl err \<Rightarrow> Inl err)"
      "s' = snd (fn attempt s)" "\<forall>a p. res = Inr (a, p) \<longrightarrow> p = []"
      "\<forall>err. res = Inl err \<longrightarrow> \<not> retryable err \<or> maxAttempts \<le> attempt"
  | (again) err rest where "fst (fn attempt s) = Inl err" "retryable err" "attempt < maxAttempts"
      "withRetry maxAttempts random fn meanwhile (attempt + 1) (meanwhile attempt (snd (fn attempt s))) = (rest, s')"
      "res = (case rest of Inr (a, ps) \<Rightarrow> Inr (a, backoff attempt (random attempt) # ps) | Inl e \<Rightarrow> Inl e)"
proof (cases "fn attempt s")
  case (Pair r s1)
  note unfold = assms [unfolded withRetry.simps [of maxAttempts random fn meanwhile attempt s] Pair prod.case]
  show ?thesis
  proof (cases r)
    case (Inr a)
    with unfold have "res = Inr (a, [])" "s' = s1" by simp_all
    then show ?thesis using Pair Inr by (intro over) simp_all
  next
    case (Inl err)
    show ?thesis
    proof (cases "retryable err \<and> attempt < maxAttempts")
      case True
      obtain rest s2 where go: "withRetry maxAttempts random fn meanwhile (attempt + 1) (meanwhile attempt s1) = (rest, s2)"
        by fastforce
      with unfold Inl True have
        "(res, s') = (case rest of Inr (a, ps) \<Rightarrow> Inr (a, backoff attempt (random attempt) # ps) | Inl e \<Rightarrow> Inl e, s2)"
        by (cases rest) (auto split: prod.splits)
      with go True Pair Inl show ?thesis by (intro again [of err rest]) simp_all
    next
      case False
      with unfold Inl have "res = Inl err" "s' = s1" by auto
      then show ?thesis using Pair Inl False by (intro over) auto
    qed
  qed
qed

text \<open>The loop gives up in time and never without need: it makes at most as many attempts as allowed; each
  one but the last failed with a serialization failure or a deadlock; it ends with the first success or
  with the first failure that is of another kind or is the last allowed; and the k-th pause lies between
  25 * 2^k ms and 25 ms more.\<close>

theorem withRetry_attempts:
  assumes "withRetry maxAttempts random fn meanwhile attempt s = (res, s')" and "attempt \<le> maxAttempts"
    and "\<forall>k. 0 \<le> random k \<and> random k < 1"
  shows "\<exists>states n. attempt + n \<le> maxAttempts \<and> length states = Suc n \<and> hd states = s
    \<and> (\<forall>k < n. \<exists>err. fst (fn (attempt + k) (states ! k)) = Inl err \<and> retryable err
          \<and> states ! Suc k = meanwhile (attempt + k) (snd (fn (attempt + k) (states ! k))))
    \<and> s' = snd (fn (attempt + n) (states ! n))
    \<and> (case res of
         Inr (a, pauses) \<Rightarrow> fst (fn (attempt + n) (states ! n)) = Inr a \<and> length pauses = n
           \<and> (\<forall>k < n. 2 ^ (attempt + k) * 25 \<le> pauses ! k \<and> pauses ! k \<le> 2 ^ (attempt + k) * 25 + 25)
       | Inl err \<Rightarrow> fst (fn (attempt + n) (states ! n)) = Inl err \<and> (retryable err \<longrightarrow> attempt + n = maxAttempts))"
  using assms(1,2)
proof (induction "maxAttempts - attempt" arbitrary: attempt s res)
  case less: (0 attempt s res)
  from less.prems(1) show ?case
  proof (cases rule: withRetry_cases)
    case over
    then show ?thesis using less by (intro exI [of _ "[s]"] exI [of _ 0]) (auto split: sum.splits prod.splits)
  qed (use less in simp)
next
  case (Suc m attempt s res)
  from Suc.prems(1) show ?case
  proof (cases rule: withRetry_cases)
    case over
    then show ?thesis using Suc.prems by (intro exI [of _ "[s]"] exI [of _ 0]) (auto split: sum.splits prod.splits)
  next
    case (again err rest)
    then have "m = maxAttempts - (attempt + 1)" "attempt + 1 \<le> maxAttempts" using Suc.hyps(2) by simp_all
    from Suc.hyps(1) [OF this(1) again(4) this(2)] obtain states n where h:
      "attempt + 1 + n \<le> maxAttempts" "length states = Suc n" "hd states = meanwhile attempt (snd (fn attempt s))"
      "\<forall>k < n. \<exists>err. fst (fn (attempt + 1 + k) (states ! k)) = Inl err \<and> retryable err
          \<and> states ! Suc k = meanwhile (attempt + 1 + k) (snd (fn (attempt + 1 + k) (states ! k)))"
      "s' = snd (fn (attempt + 1 + n) (states ! n))"
      "case rest of
         Inr (a, pauses) \<Rightarrow> fst (fn (attempt + 1 + n) (states ! n)) = Inr a \<and> length pauses = n
           \<and> (\<forall>k < n. 2 ^ (attempt + 1 + k) * 25 \<le> pauses ! k \<and> pauses ! k \<le> 2 ^ (attempt + 1 + k) * 25 + 25)
       | Inl err \<Rightarrow> fst (fn (attempt + 1 + n) (states ! n)) = Inl err \<and> (retryable err \<longrightarrow> attempt + 1 + n = maxAttempts)"
      by blast
    have first: "states ! 0 = meanwhile attempt (snd (fn attempt s))" using h(2,3) by (cases states) auto
    have steps: "\<exists>err. fst (fn (attempt + k) ((s # states) ! k)) = Inl err \<and> retryable err
          \<and> (s # states) ! Suc k = meanwhile (attempt + k) (snd (fn (attempt + k) ((s # states) ! k)))" if "k < Suc n" for k
      using that again(1,2) first h(4) by (cases k) auto
    have pauses: "2 ^ (attempt + k) * 25 \<le> (backoff attempt (random attempt) # ps) ! k
        \<and> (backoff attempt (random attempt) # ps) ! k \<le> 2 ^ (attempt + k) * 25 + 25"
      if "k < Suc n" "\<forall>k < n. 2 ^ (attempt + 1 + k) * 25 \<le> ps ! k \<and> ps ! k \<le> 2 ^ (attempt + 1 + k) * 25 + (25::int)" for k ps
      using that backoff_bounds [of "random attempt" attempt] assms(3) by (cases k) auto
    show ?thesis
    proof (intro exI [of _ "s # states"] exI [of _ "Suc n"] conjI)
      show "\<forall>k < Suc n. \<exists>err. fst (fn (attempt + k) ((s # states) ! k)) = Inl err \<and> retryable err
          \<and> (s # states) ! Suc k = meanwhile (attempt + k) (snd (fn (attempt + k) ((s # states) ! k)))" using steps by blast
      show "case res of
         Inr (a, pauses) \<Rightarrow> fst (fn (attempt + Suc n) ((s # states) ! Suc n)) = Inr a \<and> length pauses = Suc n
           \<and> (\<forall>k < Suc n. 2 ^ (attempt + k) * 25 \<le> pauses ! k \<and> pauses ! k \<le> 2 ^ (attempt + k) * 25 + 25)
       | Inl err \<Rightarrow> fst (fn (attempt + Suc n) ((s # states) ! Suc n)) = Inl err \<and> (retryable err \<longrightarrow> attempt + Suc n = maxAttempts)"
        using h(6) again(5) pauses by (cases rest) auto
    qed (use h in simp_all)
  qed
qed

subsection \<open>No update is lost\<close>

lemma add_all_Some:
  "add_all ds (Some r) = Some \<lparr>ac_balance = ac_balance r + sum_list ds, ac_changes = ac_changes r + length ds\<rparr>"
  by (induction ds arbitrary: r) simp_all

lemma bump_tx_run:
  "bump_tx d others (Some r) =
    (let t = \<lparr>ac_balance = ac_balance r + sum_list others, ac_changes = ac_changes r + length others\<rparr> in
     if \<not> (-2147483648 \<le> ac_balance r + d \<and> ac_balance r + d \<le> 2147483647) then (Inl (QueryFailedError ''22003''), Some t)
     else if others \<noteq> [] then (Inl SERIALIZATION_FAILURE, Some t)
     else (Inr (), Some \<lparr>ac_balance = ac_balance r + d, ac_changes = ac_changes r + 1\<rparr>))"
  by (simp add: bump_tx_def add_all_Some Let_def)

lemma SERIALIZATION_FAILURE_retryable [simp]: "retryable SERIALIZATION_FAILURE"
  by (simp add: SERIALIZATION_FAILURE_def retryable_def RETRYABLE_CODES_def)

lemma OUT_OF_RANGE_final [simp]: "\<not> retryable (QueryFailedError ''22003'')"
  by (simp add: retryable_def RETRYABLE_CODES_def)

text \<open>What is known when the loop ends after its n-th attempt, seen from attempt \<open>lo\<close> on.\<close>

definition settled ::
  "int \<Rightarrow> (nat \<Rightarrow> int list) \<Rightarrow> (nat \<Rightarrow> int list) \<Rightarrow> nat \<Rightarrow> int \<Rightarrow> error + (unit \<times> int list) \<Rightarrow> account option \<Rightarrow> nat \<Rightarrow> bool" where
  "settled d thinking sleeping lo start res row n \<longleftrightarrow>
     lo \<le> n \<and> n \<le> 5 \<and> (\<forall>k. lo \<le> k \<longrightarrow> k < n \<longrightarrow> thinking k \<noteq> [])
   \<and> (\<exists>q. row = Some q \<and> ac_balance q = start + (\<Sum>k \<in> {lo..n}. sum_list (thinking k)) + (\<Sum>k \<in> {lo..<n}. sum_list (sleeping k))
        + (case res of Inr _ \<Rightarrow> d | Inl _ \<Rightarrow> 0)
      \<and> (case res of
           Inr _ \<Rightarrow> thinking n = []
         | Inl e \<Rightarrow> e = SERIALIZATION_FAILURE \<and> n = 5 \<and> thinking n \<noteq> []
             \<or> e = QueryFailedError ''22003''
               \<and> \<not> (-2147483648 \<le> ac_balance q - sum_list (thinking n) + d \<and> ac_balance q - sum_list (thinking n) + d \<le> 2147483647)))"

lemma settled_earlier:
  assumes "settled d thinking sleeping (lo + 1) (start + sum_list (thinking lo) + sum_list (sleeping lo)) res row n"
    and "thinking lo \<noteq> []"
    and "res' = (case res of Inr (u, ps) \<Rightarrow> Inr (u, p # ps) | Inl e \<Rightarrow> Inl e)"
  shows "settled d thinking sleeping lo start res' row n"
proof -
  have le: "lo \<le> n" "lo < n" using assms(1) by (simp_all add: settled_def)
  have "(\<Sum>k \<in> {lo..n}. sum_list (thinking k)) = sum_list (thinking lo) + (\<Sum>k \<in> {lo + 1..n}. sum_list (thinking k))"
    "(\<Sum>k \<in> {lo..<n}. sum_list (sleeping k)) = sum_list (sleeping lo) + (\<Sum>k \<in> {lo + 1..<n}. sum_list (sleeping k))"
    using le by (simp_all add: sum.atLeast_Suc_atMost sum.atLeast_Suc_lessThan)
  moreover have "thinking k \<noteq> []" if "lo \<le> k" "k < n" for k
    using that assms(1,2) by (cases "k = lo") (auto simp: settled_def)
  ultimately show ?thesis using assms(1,3) le
    by (cases res) (auto simp: settled_def split: prod.splits)
qed

lemma settled_now:
  assumes "fst (bump_tx d (thinking lo) (Some r)) = (case res of Inr (a, _) \<Rightarrow> Inr a | Inl err \<Rightarrow> Inl err)"
    and "row = snd (bump_tx d (thinking lo) (Some r))"
    and "\<forall>err. res = Inl err \<longrightarrow> \<not> retryable err \<or> 5 \<le> lo" and "lo \<le> 5"
  shows "settled d thinking sleeping lo (ac_balance r) res row lo"
proof -
  consider "\<not> (-2147483648 \<le> ac_balance r + d \<and> ac_balance r + d \<le> 2147483647)"
    | "-2147483648 \<le> ac_balance r + d \<and> ac_balance r + d \<le> 2147483647" "thinking lo \<noteq> []"
    | "-2147483648 \<le> ac_balance r + d \<and> ac_balance r + d \<le> 2147483647" "thinking lo = []" by blast
  then show ?thesis
  proof cases
    case 1
    then have "res = Inl (QueryFailedError ''22003'')"
      using assms(1) by (cases res) (auto simp: bump_tx_run Let_def split: prod.splits)
    then show ?thesis using 1 assms(2,4) by (simp add: settled_def bump_tx_run Let_def)
  next
    case 2
    then have "res = Inl SERIALIZATION_FAILURE"
      using assms(1) by (cases res) (auto simp: bump_tx_run Let_def split: prod.splits)
    then show ?thesis using 2 assms(2-4) by (simp add: settled_def bump_tx_run Let_def)
  next
    case 3
    then obtain u ps where "res = Inr (u, ps)"
      using assms(1) by (cases res) (auto simp: bump_tx_run Let_def split: prod.splits)
    then show ?thesis using 3 assms(2,4) by (simp add: settled_def bump_tx_run Let_def)
  qed
qed

lemma bump_from:
  assumes "withRetry 5 random (\<lambda>k. bump_tx d (thinking k)) (\<lambda>k. add_all (sleeping k)) lo (Some r) = (res, row)" and "lo \<le> 5"
  shows "\<exists>n. settled d thinking sleeping lo (ac_balance r) res row n"
  using assms
proof (induction "5 - lo" arbitrary: lo r res)
  case (0 lo r res)
  from 0(2) show ?case
  proof (cases rule: withRetry_cases)
    case over
    then show ?thesis using settled_now 0(3) by blast
  qed (use 0 in simp)
next
  case (Suc m lo r res)
  from Suc.prems(1) show ?case
  proof (cases rule: withRetry_cases)
    case over
    then show ?thesis using settled_now Suc.prems(2) by blast
  next
    case (again err rest)
    let ?r = "\<lparr>ac_balance = ac_balance r + sum_list (thinking lo) + sum_list (sleeping lo),
      ac_changes = ac_changes r + length (thinking lo) + length (sleeping lo)\<rparr>"
    have t: "thinking lo \<noteq> []" and go: "add_all (sleeping lo) (snd (bump_tx d (thinking lo) (Some r))) = Some ?r"
      using again(1,2) by (auto simp: bump_tx_run Let_def add_all_Some split: if_splits)
    obtain n where "settled d thinking sleeping (lo + 1) (ac_balance ?r) rest row n"
    proof -
      have "m = 5 - (lo + 1)" "lo + 1 \<le> 5" using Suc.hyps(2) by simp_all
      from Suc.hyps(1) [OF this(1) again(4) [unfolded go] this(2)] that show ?thesis by blast
    qed
    then show ?thesis using settled_earlier [of d thinking sleeping lo "ac_balance r" rest row n res] t again(5) by auto
  qed
qed

text \<open>No update is lost. Whatever other transactions commit while this one thinks and while it waits to try
  again, in the end the balance is what it was plus everything the others added, plus this amount exactly
  if \<open>bump\<close> returned. It returns in the first of its five attempts that is not disturbed; it throws only
  if all five were, or if the new balance would not fit the column.\<close>

theorem bump_no_lost_update:
  assumes "bump deltaCents random thinking sleeping (Some r) = (res, row)"
  shows "\<exists>n q. 1 \<le> n \<and> n \<le> 5 \<and> (\<forall>k. 1 \<le> k \<longrightarrow> k < n \<longrightarrow> thinking k \<noteq> []) \<and> row = Some q
    \<and> ac_balance q = ac_balance r + (\<Sum>k \<in> {1..n}. sum_list (thinking k)) + (\<Sum>k \<in> {1..<n}. sum_list (sleeping k))
        + (case res of Inr _ \<Rightarrow> deltaCents | Inl _ \<Rightarrow> 0)
    \<and> (case res of
         Inr _ \<Rightarrow> thinking n = []
       | Inl e \<Rightarrow> e = SERIALIZATION_FAILURE \<and> n = 5 \<and> thinking n \<noteq> []
           \<or> e = QueryFailedError ''22003''
             \<and> \<not> (-2147483648 \<le> ac_balance q - sum_list (thinking n) + deltaCents
                  \<and> ac_balance q - sum_list (thinking n) + deltaCents \<le> 2147483647))"
proof -
  have "\<exists>n. settled deltaCents thinking sleeping 1 (ac_balance r) res row n"
    using assms unfolding bump_def by (rule bump_from) simp
  then show ?thesis unfolding settled_def by blast
qed

subsection \<open>Several of them at once\<close>

text \<open>The end of the transaction alone: what it does with the row as others left it.\<close>

definition write_back :: "int \<Rightarrow> account \<Rightarrow> account \<Rightarrow> (error + unit) \<times> account" where
  "write_back deltaCents snapshot now =
     (let newBalance = ac_balance snapshot + deltaCents in
      if \<not> (-2147483648 \<le> newBalance \<and> newBalance \<le> 2147483647) then (Inl (QueryFailedError ''22003''), now)
      else if ac_changes now \<noteq> ac_changes snapshot then (Inl SERIALIZATION_FAILURE, now)
      else (Inr (), \<lparr>ac_balance = newBalance, ac_changes = ac_changes now + 1\<rparr>))"

lemma bump_tx_writes:
  "bump_tx d others (Some r) =
     (let now = \<lparr>ac_balance = ac_balance r + sum_list others, ac_changes = ac_changes r + length others\<rparr>
      in (fst (write_back d r now), Some (snd (write_back d r now))))"
  by (simp add: bump_tx_run write_back_def Let_def)

text \<open>Calls of \<open>bump\<close> that run at the same time, each between its attempts, thinking, or over. A move of the i-th
  is its read or its write; the schedule is the order of the moves.\<close>

datatype bump_phase = Ready | Thinking account | Returned | Threw error

record bump_call =
  bc_delta :: int
  bc_attempt :: nat
  bc_phase :: bump_phase

record retry_state =
  rs_row :: account
  rs_calls :: "bump_call list"

definition advance :: "account \<Rightarrow> bump_call \<Rightarrow> bump_call \<times> account" where
  "advance row c =
     (case bc_phase c of
        Ready \<Rightarrow> (c\<lparr>bc_phase := Thinking row\<rparr>, row)
      | Thinking snapshot \<Rightarrow>
          (case write_back (bc_delta c) snapshot row of
             (Inr _, row') \<Rightarrow> (c\<lparr>bc_phase := Returned\<rparr>, row')
           | (Inl err, row') \<Rightarrow>
               (if retryable err \<and> bc_attempt c < 5 then c\<lparr>bc_phase := Ready, bc_attempt := bc_attempt c + 1\<rparr>
                else c\<lparr>bc_phase := Threw err\<rparr>, row'))
      | _ \<Rightarrow> (c, row))"

definition move :: "nat \<Rightarrow> retry_state \<Rightarrow> retry_state" where
  "move i s =
     (if i < length (rs_calls s)
      then (let (c, row) = advance (rs_row s) (rs_calls s ! i) in \<lparr>rs_row = row, rs_calls = (rs_calls s)[i := c]\<rparr>)
      else s)"

definition start_bumps :: "account \<Rightarrow> int list \<Rightarrow> retry_state" where
  "start_bumps row deltas =
     \<lparr>rs_row = row, rs_calls = map (\<lambda>d. \<lparr>bc_delta = d, bc_attempt = 1, bc_phase = Ready\<rparr>) deltas\<rparr>"

definition returned :: "bump_call \<Rightarrow> bool" where
  "returned c \<longleftrightarrow> bc_phase c = Returned"

definition paid :: "bump_call \<Rightarrow> int" where
  "paid c = (if returned c then bc_delta c else 0)"

definition over :: "retry_state \<Rightarrow> int" where
  "over s = sum_list (map (\<lambda>c. if returned c then 1 else 0) (rs_calls s))"

text \<open>A call has failed at most once for every other call that returned, and it sees the row it read as long as
  nobody has changed it.\<close>

definition call_ok :: "int \<Rightarrow> account \<Rightarrow> account \<Rightarrow> int \<Rightarrow> bump_call \<Rightarrow> bool" where
  "call_ok room row0 row k c \<longleftrightarrow>
     (case bc_phase c of
        Ready \<Rightarrow> int (bc_attempt c) \<le> 1 + k
      | Thinking snap \<Rightarrow> int (bc_attempt c) \<le> 1 + (int (ac_changes snap) - int (ac_changes row0))
          \<and> \<bar>ac_balance snap - ac_balance row0\<bar> \<le> room \<and> ac_changes snap \<le> ac_changes row \<and> (ac_changes snap = ac_changes row \<longrightarrow> snap = row)
      | Returned \<Rightarrow> True
      | Threw _ \<Rightarrow> False)"

definition bumps_inv :: "account \<Rightarrow> int list \<Rightarrow> retry_state \<Rightarrow> bool" where
  "bumps_inv row0 deltas s \<longleftrightarrow>
     map bc_delta (rs_calls s) = deltas \<and> (\<forall>c \<in> set (rs_calls s). 1 \<le> bc_attempt c)
   \<and> int (ac_changes (rs_row s)) = int (ac_changes row0) + over s
   \<and> ac_balance (rs_row s) = ac_balance row0 + sum_list (map paid (rs_calls s))
   \<and> (\<forall>c \<in> set (rs_calls s). call_ok (sum_list (map (\<lambda>d. \<bar>d\<bar>) deltas)) row0 (rs_row s) (over s) c)"

lemma sum_list_map_update:
  "i < length xs \<Longrightarrow> sum_list (map f (xs[i := y])) = sum_list (map f xs) - f (xs ! i) + (f y :: int)"
proof (induction xs arbitrary: i)
  case (Cons x xs)
  then show ?case by (cases i) simp_all
qed simp

lemma paid_bound: "\<bar>sum_list (map paid cs)\<bar> \<le> sum_list (map (\<lambda>d. \<bar>d\<bar>) (map bc_delta cs))"
  by (induction cs) (auto simp: paid_def)

lemma paid_all: "\<forall>c \<in> set cs. returned c \<Longrightarrow> sum_list (map paid cs) = sum_list (map bc_delta cs)"
  by (simp add: paid_def cong: map_cong)

lemma over_bound:
  assumes "i < length (rs_calls s)" "\<not> returned (rs_calls s ! i)"
  shows "over s < int (length (rs_calls s))"
proof -
  have le: "sum_list (map (\<lambda>c. if returned c then 1 else 0 :: int) cs) \<le> int (length cs)" for cs
    by (induction cs) auto
  define y where "y = (rs_calls s ! i)\<lparr>bc_phase := Returned\<rparr>"
  have "sum_list (map (\<lambda>c. if returned c then 1 else 0) ((rs_calls s)[i := y])) = over s + 1"
    unfolding over_def sum_list_map_update [OF assms(1)] using assms(2) by (simp add: y_def returned_def)
  then show ?thesis using le [of "(rs_calls s)[i := y]"] by simp
qed

lemma call_ok_mono:
  "call_ok room row0 row k c \<Longrightarrow> call_ok room row0 \<lparr>ac_balance = b, ac_changes = ac_changes row + 1\<rparr> (k + 1) c"
  by (auto simp: call_ok_def split: bump_phase.splits)

text \<open>One move keeps the invariant, and a call that is not over makes progress.\<close>

lemma bumps_inv_move:
  assumes inv: "bumps_inv row0 deltas s" and n: "length deltas \<le> 5"
    and range: "\<bar>ac_balance row0\<bar> + 2 * sum_list (map (\<lambda>d. \<bar>d\<bar>) deltas) \<le> 2147483647"
  shows "bumps_inv row0 deltas (move i s)"
proof (cases "i < length (rs_calls s)")
  case True
  define c where "c = rs_calls s ! i"
  define room where "room = sum_list (map (\<lambda>d. \<bar>d\<bar>) deltas)"
  note inv' = inv [unfolded bumps_inv_def, folded room_def]
  have c: "c \<in> set (rs_calls s)" using True by (simp add: c_def)
  have ok: "call_ok room row0 (rs_row s) (over s) c" and one: "1 \<le> bc_attempt c" using inv' c by blast+
  have len: "length (rs_calls s) = length deltas" using inv' by auto
  have dr: "\<bar>bc_delta c\<bar> \<le> room" unfolding room_def
    using inv' c by (intro member_le_sum_list) auto
  have br: "\<bar>ac_balance (rs_row s) - ac_balance row0\<bar> \<le> room" unfolding room_def
    using inv' paid_bound [of "rs_calls s"] by simp
  obtain c' row' where adv: "advance (rs_row s) c = (c', row')" by fastforce
  have s': "move i s = \<lparr>rs_row = row', rs_calls = (rs_calls s)[i := c']\<rparr>" using True adv by (simp add: move_def c_def)
  have sums: "over (move i s) = over s - (if returned c then 1 else 0) + (if returned c' then 1 else 0)"
    "sum_list (map paid (rs_calls (move i s))) = sum_list (map paid (rs_calls s)) - paid c + paid c'"
    unfolding s' over_def using True by (simp_all add: sum_list_map_update c_def)
  have goal: "bumps_inv row0 deltas (move i s)"
    if "bc_delta c' = bc_delta c" "1 \<le> bc_attempt c'" "int (ac_changes row') = int (ac_changes row0) + over (move i s)"
      "ac_balance row' = ac_balance row0 + sum_list (map paid (rs_calls (move i s)))"
      "call_ok room row0 row' (over (move i s)) c'" "\<forall>q \<in> set (rs_calls s). call_ok room row0 row' (over (move i s)) q"
  proof -
    have "map bc_delta ((rs_calls s)[i := c']) = map bc_delta (rs_calls s)"
      using that(1) True by (simp add: map_update c_def) (metis list_update_id nth_map)
    moreover have "q = c' \<or> q \<in> set (rs_calls s)" if "q \<in> set ((rs_calls s)[i := c'])" for q
      using that set_update_subset_insert by fastforce
    ultimately show ?thesis
      unfolding bumps_inv_def room_def [symmetric] using inv' that unfolding s' by (simp del: map_update) blast
  qed
  show ?thesis
  proof (cases "bc_phase c")
    case Ready
    then have w: "c' = c\<lparr>bc_phase := Thinking (rs_row s)\<rparr>" "row' = rs_row s" using adv by (auto simp: advance_def)
    then have o: "over (move i s) = over s" "paid c' = paid c" using sums(1) Ready by (simp_all add: returned_def paid_def)
    have "call_ok room row0 (rs_row s) (over s) c'" using ok Ready inv' br by (simp add: call_ok_def w)
    then show ?thesis using o w one inv' sums(2) by (intro goal) simp_all
  next
    case (Thinking snap)
    have r: "\<not> returned c" "paid c = 0" using Thinking by (simp_all add: returned_def paid_def)
    have snap: "int (bc_attempt c) \<le> 1 + (int (ac_changes snap) - int (ac_changes row0))" "ac_changes snap \<le> ac_changes (rs_row s)"
      "ac_changes snap = ac_changes (rs_row s) \<longrightarrow> snap = rs_row s" "\<bar>ac_balance snap - ac_balance row0\<bar> \<le> room"
      using ok Thinking by (simp_all add: call_ok_def)
    have fits: "-2147483648 \<le> ac_balance snap + bc_delta c \<and> ac_balance snap + bc_delta c \<le> 2147483647"
      using snap(4) dr range unfolding room_def [symmetric] by linarith
    show ?thesis
    proof (cases "ac_changes snap = ac_changes (rs_row s)")
      case True
      then have w: "c' = c\<lparr>bc_phase := Returned\<rparr>"
        "row' = \<lparr>ac_balance = ac_balance (rs_row s) + bc_delta c, ac_changes = ac_changes (rs_row s) + 1\<rparr>"
        using adv Thinking fits snap(3) True by (auto simp: advance_def write_back_def)
      have o: "over (move i s) = over s + 1" "paid c' = bc_delta c" using sums(1) r by (simp_all add: w(1) returned_def paid_def)
      have "\<forall>q \<in> set (rs_calls s). call_ok room row0 row' (over s + 1) q" using inv' call_ok_mono unfolding w(2) by blast
      moreover have "call_ok room row0 row' (over s + 1) c'" by (simp add: w(1) call_ok_def)
      ultimately show ?thesis using o w one inv' sums(2) r(2) by (intro goal) simp_all
    next
      case False
      have "over s < 5" using over_bound [of i s] True r(1) n len by (simp add: c_def)
      then have attempts: "int (bc_attempt c) \<le> over s" "bc_attempt c < 5" using False snap inv' by linarith+
      then have w: "c' = c\<lparr>bc_phase := Ready, bc_attempt := bc_attempt c + 1\<rparr>" "row' = rs_row s"
        using adv Thinking fits False attempts(2) by (auto simp: advance_def write_back_def)
      have o: "over (move i s) = over s" "paid c' = paid c" using sums(1) r by (simp_all add: w(1) returned_def paid_def)
      have "call_ok room row0 (rs_row s) (over s) c'" using attempts by (simp add: w(1) call_ok_def)
      then show ?thesis using o w one inv' sums(2) by (intro goal) simp_all
    qed
  next
    case Returned
    then have "(c', row') = (rs_calls s ! i, rs_row s)" using adv by (simp add: advance_def c_def)
    then have "move i s = s" by (simp add: s')
    then show ?thesis using inv by simp
  next
    case (Threw e)
    then show ?thesis using ok by (simp add: call_ok_def)
  qed
qed (use inv in \<open>simp add: move_def\<close>)

lemma bumps_inv_start: "bumps_inv row0 deltas (start_bumps row0 deltas)"
  by (simp add: bumps_inv_def start_bumps_def over_def returned_def paid_def call_ok_def comp_def)

lemma bumps_inv_schedule:
  assumes "length deltas \<le> 5" "\<bar>ac_balance row0\<bar> + 2 * sum_list (map (\<lambda>d. \<bar>d\<bar>) deltas) \<le> 2147483647"
  shows "bumps_inv row0 deltas (fold move schedule (start_bumps row0 deltas))"
proof (induction schedule rule: rev_induct)
  case Nil
  show ?case using bumps_inv_start by simp
next
  case (snoc i schedule)
  then show ?case using bumps_inv_move [OF _ assms] by simp
qed

text \<open>The moves a call has made.\<close>

definition effort :: "bump_call \<Rightarrow> int" where
  "effort c = 2 * (int (bc_attempt c) - 1) + (case bc_phase c of Ready \<Rightarrow> 0 | Thinking _ \<Rightarrow> 1 | _ \<Rightarrow> 2)"

lemma effort_advance:
  assumes "advance row c = (c', row')" "\<not> returned c'" "\<forall>e. bc_phase c' \<noteq> Threw e"
  shows "effort c' = effort c + 1 \<and> \<not> returned c"
  using assms
  by (auto simp: advance_def effort_def returned_def split: bump_phase.splits prod.splits sum.splits if_splits)

lemma moves_counted:
  assumes "length deltas \<le> 5" "\<bar>ac_balance row0\<bar> + 2 * sum_list (map (\<lambda>d. \<bar>d\<bar>) deltas) \<le> 2147483647"
    and "i < length deltas" "s = fold move schedule (start_bumps row0 deltas)" "\<not> returned (rs_calls s ! i)"
  shows "effort (rs_calls s ! i) = int (count_list schedule i)"
  using assms(4,5)
proof (induction schedule arbitrary: s rule: rev_induct)
  case Nil
  then show ?case using assms(3) by (simp add: start_bumps_def effort_def)
next
  case (snoc j schedule)
  define s0 where "s0 = fold move schedule (start_bumps row0 deltas)"
  have s: "s = move j s0" using snoc.prems(1) by (simp add: s0_def)
  have len: "length (rs_calls s0) = length deltas" "length (rs_calls s) = length deltas"
    using bumps_inv_schedule [OF assms(1,2), of schedule] bumps_inv_schedule [OF assms(1,2), of "schedule @ [j]"] snoc.prems(1)
    unfolding bumps_inv_def s0_def by (metis length_map)+
  show ?case
  proof (cases "j = i")
    case False
    then have same: "rs_calls s ! i = rs_calls s0 ! i" by (simp add: s move_def Let_def split: prod.split)
    then have "effort (rs_calls s0 ! i) = int (count_list schedule i)" using snoc.IH [OF s0_def] snoc.prems(2) by simp
    then show ?thesis using same False by simp
  next
    case True
    obtain c' row' where adv: "advance (rs_row s0) (rs_calls s0 ! i) = (c', row')" by fastforce
    then have c': "rs_calls s ! i = c'" using True assms(3) len by (simp add: s move_def)
    have "c' \<in> set (rs_calls s)" using c' assms(3) len(2) by (metis nth_mem)
    then have "\<forall>e. bc_phase c' \<noteq> Threw e"
      using bumps_inv_schedule [OF assms(1,2), of "schedule @ [j]"] snoc.prems(1)
      by (auto simp: bumps_inv_def call_ok_def split: bump_phase.splits)
    from effort_advance [OF adv _ this] have "effort c' = effort (rs_calls s0 ! i) + 1" "\<not> returned (rs_calls s0 ! i)"
      using snoc.prems(2) c' by simp_all
    then show ?thesis using snoc.IH [OF s0_def] True c' by simp
  qed
qed

lemma enough_moves:
  assumes "length deltas \<le> 5" "\<bar>ac_balance row0\<bar> + 2 * sum_list (map (\<lambda>d. \<bar>d\<bar>) deltas) \<le> 2147483647"
    and "i < length deltas" "s = fold move schedule (start_bumps row0 deltas)" "2 * length deltas \<le> count_list schedule i"
  shows "returned (rs_calls s ! i)"
proof (rule ccontr)
  assume open_call: "\<not> returned (rs_calls s ! i)"
  note inv = bumps_inv_schedule [OF assms(1,2), of schedule, folded assms(4), unfolded bumps_inv_def]
  have len: "length (rs_calls s) = length deltas" using inv by (metis length_map)
  have i: "i < length (rs_calls s)" using assms(3) len by simp
  have "call_ok (sum_list (map (\<lambda>d. \<bar>d\<bar>) deltas)) row0 (rs_row s) (over s) (rs_calls s ! i)" using inv i by simp
  moreover have "over s < int (length deltas)" using over_bound [OF i open_call] len by simp
  ultimately have "effort (rs_calls s ! i) < 2 * int (length deltas)"
    using inv open_call by (auto simp: call_ok_def effort_def returned_def split: bump_phase.splits)
  then show False using moves_counted [OF assms(1-4) open_call] assms(5) by simp
qed

lemma bumps_succeed:
  assumes "length deltas \<le> 5" and "\<bar>ac_balance row0\<bar> + 2 * sum_list (map (\<lambda>d. \<bar>d\<bar>) deltas) \<le> 2147483647"
    and "s = fold move schedule (start_bumps row0 deltas)"
  shows "(\<forall>c \<in> set (rs_calls s). \<forall>e. bc_phase c \<noteq> Threw e)
    \<and> (\<forall>i < length deltas. 2 * length deltas \<le> count_list schedule i \<longrightarrow> returned (rs_calls s ! i))
    \<and> ((\<forall>c \<in> set (rs_calls s). returned c) \<longrightarrow> ac_balance (rs_row s) = ac_balance row0 + sum_list deltas)"
proof (intro conjI)
  note inv = bumps_inv_schedule [OF assms(1,2), of schedule, folded assms(3), unfolded bumps_inv_def]
  show "\<forall>c \<in> set (rs_calls s). \<forall>e. bc_phase c \<noteq> Threw e"
    using inv by (auto simp: call_ok_def split: bump_phase.splits)
  show "(\<forall>c \<in> set (rs_calls s). returned c) \<longrightarrow> ac_balance (rs_row s) = ac_balance row0 + sum_list deltas"
    using inv paid_all by metis
  show "\<forall>i < length deltas. 2 * length deltas \<le> count_list schedule i \<longrightarrow> returned (rs_calls s ! i)"
    using enough_moves [OF assms(1,2) _ assms(3)] by blast
qed

text \<open>C40: up to five calls of \<open>bump\<close> at the same time always succeed together. In whatever order their reads and writes
  happen, none of them gives up; each is over after at most two moves for every call; and when all are over, the
  balance has changed by the sum of their amounts.\<close>

theorem concurrent_bumps:
  assumes "length deltas \<le> 5" and "\<bar>ac_balance row0\<bar> + 2 * sum_list (map (\<lambda>d. \<bar>d\<bar>) deltas) \<le> 2147483647"
    and "s = fold move schedule (start_bumps row0 deltas)"
  shows "(\<forall>c \<in> set (rs_calls s). \<forall>e. bc_phase c \<noteq> Threw e)
    \<and> (\<forall>i < length deltas. 2 * length deltas \<le> count_list schedule i \<longrightarrow> returned (rs_calls s ! i))
    \<and> ((\<forall>c \<in> set (rs_calls s). returned c) \<longrightarrow> ac_balance (rs_row s) = ac_balance row0 + sum_list deltas)"
  using assms by (rule bumps_succeed)

text \<open>The script: two calls under a schedule, and its exit code. \<open>None\<close>: a call is not over yet.\<close>

definition retry_main :: "nat \<Rightarrow> nat list \<Rightarrow> int option" where
  "retry_main changes schedule =
     (let s = fold move schedule (start_bumps \<lparr>ac_balance = 100000, ac_changes = changes\<rparr> [5000, -3000]);
          expected = 100000 + 5000 - 3000
      in if list_ex (\<lambda>c. case bc_phase c of Threw _ \<Rightarrow> True | _ \<Rightarrow> False) (rs_calls s) then Some 1
         else if list_all returned (rs_calls s) then Some (if ac_balance (rs_row s) \<noteq> expected then 1 else 0)
         else None)"

text \<open>The demonstration passes its own check as soon as each call has had four moves.\<close>

theorem retry_demo_holds:
  assumes "4 \<le> count_list schedule 0" "4 \<le> count_list schedule 1"
  shows "retry_main changes schedule = Some 0"
proof -
  define s where "s = fold move schedule (start_bumps \<lparr>ac_balance = 100000, ac_changes = changes\<rparr> [5000, -3000])"
  note c = bumps_succeed [of "[5000, -3000]" "\<lparr>ac_balance = 100000, ac_changes = changes\<rparr>" s schedule, OF _ _ s_def]
  have "bumps_inv \<lparr>ac_balance = 100000, ac_changes = changes\<rparr> [5000, -3000] s"
    unfolding s_def by (rule bumps_inv_schedule) simp_all
  then have "length (map bc_delta (rs_calls s)) = length [5000, -3000 :: int]" unfolding bumps_inv_def by metis
  then have len: "length (rs_calls s) = 2" by simp
  have "\<forall>i < 2. returned (rs_calls s ! i)" using c assms by (auto simp: less_2_cases_iff)
  then have "\<forall>q \<in> set (rs_calls s). returned q" using len by (metis in_set_conv_nth)
  then show ?thesis using c unfolding retry_main_def s_def [symmetric] Let_def
    by (auto simp: list_all_iff list_ex_iff returned_def)
qed

subsection \<open>Examples\<close>

text \<open>A takes the balance while B takes 30 off in its first attempt.\<close>

theorem bump_no_lost_update_witness:
  "map_option ac_balance (snd (bump 50 (\<lambda>_. 0) (\<lambda>k. if k = 1 then [-30] else []) (\<lambda>_. []) (Some \<lparr>ac_balance = 1000, ac_changes = 0\<rparr>)))
     = Some 1020"
proof -
  let ?think = "\<lambda>k. if k = (1::nat) then [-30::int] else []"
  obtain res row where run: "bump 50 (\<lambda>_. 0) ?think (\<lambda>_. []) (Some \<lparr>ac_balance = 1000, ac_changes = 0\<rparr>) = (res, row)"
    by fastforce
  from bump_no_lost_update [OF run] obtain n q where
    h: "1 \<le> n" "\<forall>k. 1 \<le> k \<longrightarrow> k < n \<longrightarrow> ?think k \<noteq> []" "row = Some q"
    and q: "ac_balance q = 1000 + (\<Sum>k \<in> {1..n}. sum_list (?think k)) + (case res of Inr _ \<Rightarrow> 50 | Inl _ \<Rightarrow> 0)"
    and ended: "case res of
         Inr _ \<Rightarrow> ?think n = []
       | Inl e \<Rightarrow> e = SERIALIZATION_FAILURE \<and> n = 5 \<and> ?think n \<noteq> []
           \<or> e = QueryFailedError ''22003'' \<and> \<not> (-2147483648 \<le> ac_balance q - sum_list (?think n) + 50
                  \<and> ac_balance q - sum_list (?think n) + 50 \<le> 2147483647)"
    by auto
  have sums: "(\<Sum>k \<in> {1..n}. sum_list (?think k)) = -30"
  proof -
    have "(\<Sum>k \<in> {1..n}. sum_list (?think k)) = (\<Sum>k \<in> {1..n}. if k = 1 then -30 else 0)" by (rule sum.cong) simp_all
    then show ?thesis using h(1) by simp
  qed
  have "\<not> 2 < n" using h(2) [rule_format, of 2] by auto
  then have "n = 1 \<or> n = 2" using h(1) by linarith
  then have "ac_balance q = 1020" using q [unfolded sums] ended by (cases res) auto
  then show ?thesis using run h(3) by simp
qed

text \<open>Two calls that read at the same time: one of them has to try again.\<close>

theorem concurrent_bumps_witness:
  "retry_main 0 [0, 1, 1, 0, 0, 0] = Some 0
    \<and> ac_balance (rs_row (fold move [0, 1, 1, 0, 0, 0] (start_bumps \<lparr>ac_balance = 100000, ac_changes = 0\<rparr> [5000, -3000]))) = 102000"
proof -
  define s where "s = fold move [0, 1, 1, 0, 0, 0] (start_bumps \<lparr>ac_balance = 100000, ac_changes = 0\<rparr> [5000, -3000])"
  note c = concurrent_bumps [of "[5000, -3000]" "\<lparr>ac_balance = 100000, ac_changes = 0\<rparr>" s "[0, 1, 1, 0, 0, 0]", OF _ _ s_def]
  have "list_all returned (rs_calls s)" unfolding s_def by code_simp
  then show ?thesis using c unfolding retry_main_def s_def [symmetric] Let_def
    by (auto simp: list_all_iff list_ex_iff returned_def)
qed

theorem retry_demo_holds_witness: "retry_main 7 [0, 1, 1, 0, 1, 0, 0, 1] = Some 0"
  by (rule retry_demo_holds) simp_all

theorem withRetry_attempts_witness:
  "\<exists>states n. 1 + n \<le> (5::nat) \<and> length states = Suc n \<and> hd states = (7::int)"
proof -
  obtain res s' where run: "withRetry 5 (\<lambda>_. 1 / 2) (\<lambda>_ s. (Inl SERIALIZATION_FAILURE :: error + unit, s)) (\<lambda>_ s. s) 1 (7::int) = (res, s')"
    by fastforce
  from withRetry_attempts [OF run] show ?thesis by auto
qed

end
