(* ===== verification/Http.thy ===== *)
theory Http
  imports Authentication OrdersCorrect
begin

text \<open>
  The API as a client meets it: which guards stand in front of which handler, in which order, and what
  response an outcome becomes. Sources: the controllers (\<open>orders.controller.ts\<close>, \<open>products.controller.ts\<close>,
  \<open>auth.controller.ts\<close>, \<open>health.controller.ts\<close>), the global guards of \<open>auth.module.ts\<close>, the limiters of
  \<open>redis.module.ts\<close> and \<open>auth.module.ts\<close>, and \<open>common/filters/problem-exception.filter.ts\<close>.

  A request names its route by a constructor with the parameters Nest extracts (a \<open>limit\<close> already parsed to
  a natural number, the body of a new product already an object). It carries what the server draws from
  outside while it serves it: the clock, the identifiers and the random bytes. The product card, whose
  handler may wait for other requests, is in theory \<open>ProductCards\<close>.

  Guards run before pipes: \<open>AuthGuard\<close>, \<open>RolesGuard\<close>, then the guard of the route, then validation, then
  the handler. An exception of any of them becomes the response of the filter.
\<close>

subsection \<open>Problem documents\<close>

fun exception_status :: "error \<Rightarrow> int" where
  "exception_status (BadRequestException _) = 400"
| "exception_status (UnauthorizedException _) = 401"
| "exception_status (ForbiddenException _) = 403"
| "exception_status (NotFoundException _) = 404"
| "exception_status (ConflictException _) = 409"
| "exception_status (UnprocessableEntityException _) = 422"
| "exception_status (TooManyRequestsException _) = 429"
| "exception_status (ServiceUnavailableException _) = 503"
| "exception_status _ = 500"

fun exception_detail :: "error \<Rightarrow> string" where
  "exception_detail (BadRequestException m) = m"
| "exception_detail (UnauthorizedException m) = m"
| "exception_detail (ForbiddenException m) = m"
| "exception_detail (NotFoundException m) = m"
| "exception_detail (ConflictException m) = m"
| "exception_detail (UnprocessableEntityException m) = m"
| "exception_detail (TooManyRequestsException m) = m"
| "exception_detail (ServiceUnavailableException m) = m"
| "exception_detail (QueryFailedError m) = m"
| "exception_detail (RedisError m) = m"
| "exception_detail (TypeError m) = m"
| "exception_detail (PlainError m) = m"
| "exception_detail (InsufficientStockError i) = ''stock '' @ show_int i"
| "exception_detail (InsufficientFundsError i) = ''funds '' @ show_int i"

definition TITLES :: "(int \<times> string) list" where
  "TITLES =
     [(400, ''Bad Request''), (401, ''Unauthorized''), (403, ''Forbidden''), (404, ''Not Found''), (409, ''Conflict''),
      (422, ''Unprocessable Entity''), (429, ''Too Many Requests''), (500, ''Internal Server Error''),
      (503, ''Service Unavailable'')]"

definition PROBLEM_BASE :: string where
  "PROBLEM_BASE = ''https://example.com/problems''"

definition problem :: "error \<Rightarrow> string \<Rightarrow> json" where
  "problem err originalUrl =
     (let status = exception_status err;
          title = (case map_of TITLES status of None \<Rightarrow> ''Error'' | Some t \<Rightarrow> t)
      in JObject
        [(''type'', JString (PROBLEM_BASE @ ''/'' @ show_int status)), (''title'', JString title),
         (''status'', JNumber (Num (of_int status))), (''detail'', JString (exception_detail err)),
         (''instance'', JString originalUrl)])"

subsection \<open>Routes\<close>

datatype api_call =
    Login string string
  | Refresh string
  | Logout
  | ListProducts nat "string option"
  | GetProduct string
  | CreateProduct create_product_dto
  | ListOrders nat "string option"
  | GetOrder string
  | CreateOrder json "string option"
  | UpdateOrderStatus string string
  | StreamOrder nat string "string option"
  | GetHealth bool

definition PUBLIC :: route where "PUBLIC = \<lparr>rt_http = True, rt_public = True, rt_roles = None\<rparr>"
definition PROTECTED :: route where "PROTECTED = \<lparr>rt_http = True, rt_public = False, rt_roles = None\<rparr>"
definition STAFF :: route where "STAFF = \<lparr>rt_http = True, rt_public = False, rt_roles = Some [seller, admin]\<rparr>"

fun route_of :: "api_call \<Rightarrow> route" where
  "route_of (Login _ _) = PUBLIC"
| "route_of (Refresh _) = PUBLIC"
| "route_of Logout = PROTECTED"
| "route_of (ListProducts _ _) = PUBLIC"
| "route_of (GetProduct _) = PUBLIC"
| "route_of (CreateProduct _) = STAFF"
| "route_of (ListOrders _ _) = PROTECTED"
| "route_of (GetOrder _) = PROTECTED"
| "route_of (CreateOrder _ _) = PROTECTED"
| "route_of (UpdateOrderStatus _ _) = STAFF"
| "route_of (StreamOrder _ _ _) = PROTECTED"
| "route_of (GetHealth _) = PUBLIC"

fun success_status :: "api_call \<Rightarrow> int" where
  "success_status (CreateProduct _) = 201"
| "success_status (CreateOrder _ _) = 201"
| "success_status Logout = 204"
| "success_status _ = 200"

definition ORDERS_RATE_LIMIT :: int where "ORDERS_RATE_LIMIT = 30"
definition ORDERS_RATE_WINDOW_MS :: int where "ORDERS_RATE_WINDOW_MS = 60000"
definition LOGIN_ATTEMPT_LIMIT :: int where "LOGIN_ATTEMPT_LIMIT = 10"
definition LOGIN_ATTEMPT_WINDOW_MS :: int where "LOGIN_ATTEMPT_WINDOW_MS = 900000"

definition orders_limiter :: "redis option \<Rightarrow> limiter option" where
  "orders_limiter redis =
     (case redis of None \<Rightarrow> None
      | Some _ \<Rightarrow> Some (new_limiter ORDERS_RATE_LIMIT ORDERS_RATE_WINDOW_MS (Some ''rl:orders'') None))"

definition login_limiter :: limiter where
  "login_limiter = new_limiter LOGIN_ATTEMPT_LIMIT LOGIN_ATTEMPT_WINDOW_MS (Some ''rl:login'') (Some False)"

subsection \<open>Serving\<close>

record ('k, 'p) server =
  sv_jwt :: "('k, 'p) jwt_lib"
  sv_keys :: "('k, 'p) key_store"
  sv_hmac :: "string \<Rightarrow> string"
  sv_argon2 :: "string \<Rightarrow> string \<Rightarrow> bool"
  sv_sha256 :: "string \<Rightarrow> string"
  sv_isEmail :: "string \<Rightarrow> bool"

record request =
  rq_call :: api_call
  rq_authorization :: "string option"
  rq_ip :: "string option"
  rq_url :: string
  rq_member :: string
  rq_uuid :: string
  rq_now :: int
  rq_random :: randomness

record http_world =
  hw_market :: market
  hw_auth :: redis
  hw_headers :: "(string \<times> string) list"

type_synonym 'a http_action = "(http_world, error, 'a) action"

datatype reply =
    TokenReply token_pair
  | NoContent
  | ProductPage "product_response list" "string option"
  | ProductReply product_response
  | OrderPage "order_response list" "string option"
  | OrderReply order_response
  | StreamOpened
  | HealthReply

abbreviation world_db :: "http_world \<Rightarrow> db" where
  "world_db w \<equiv> market_db (hw_market w)"

definition in_market :: "'a market_action \<Rightarrow> 'a http_action" where
  "in_market m = (\<lambda>w. let (r, k) = m (hw_market w) in (r, w\<lparr>hw_market := k\<rparr>))"

definition in_tables :: "'a db_action \<Rightarrow> 'a http_action" where
  "in_tables m = in_market (in_shop (on_db m))"

definition in_auth :: "'a auth_action \<Rightarrow> 'a http_action" where
  "in_auth m = (\<lambda>w. let (r, a) = m \<lparr>aw_db = world_db w, aw_redis = hw_auth w\<rparr> in
     (r, w\<lparr>hw_market := hw_market w\<lparr>mk_shop := mk_shop (hw_market w)\<lparr>sh_db := aw_db a\<rparr>\<rparr>, hw_auth := aw_redis a\<rparr>))"

definition setHeader :: "string \<Rightarrow> string \<Rightarrow> unit http_action" where
  "setHeader name v = modify (\<lambda>w. w\<lparr>hw_headers := hw_headers w @ [(name, v)]\<rparr>)"

definition authenticated :: "('k, 'p) server \<Rightarrow> request \<Rightarrow> access_principal option http_action" where
  "authenticated sv rq = (\<lambda>w.
     let (r, g) = auth_guard (sv_jwt sv) (sv_keys sv) (route_of (rq_call rq)) (rq_authorization rq) (rq_now rq)
                    \<lparr>gd_redis = hw_auth w, gd_www_authenticate = False, gd_user = None\<rparr>;
         w' = w\<lparr>hw_auth := gd_redis g,
                hw_headers := hw_headers w @ (if gd_www_authenticate g then [(''WWW-Authenticate'', ''Bearer'')] else [])\<rparr>
     in (case r of Inl e \<Rightarrow> Inl e | Inr _ \<Rightarrow> Inr (gd_user g), w'))"

definition rate_limited :: "request \<Rightarrow> unit http_action" where
  "rate_limited rq = (\<lambda>w.
     case sh_cache (mk_shop (hw_market w)) of
       None \<Rightarrow> (Inr (), w)
     | Some redis \<Rightarrow>
         (let (r, redis') = rate_limit_guard (orders_limiter (Some redis)) (rq_member rq) (rq_ip rq) redis;
              w' = w\<lparr>hw_market := hw_market w\<lparr>mk_shop := mk_shop (hw_market w)\<lparr>sh_cache := Some redis'\<rparr>\<rparr>\<rparr>
          in (case r of
                Inl e \<Rightarrow> (Inl e, w')
              | Inr Pass \<Rightarrow> (Inr (), w')
              | Inr (Refuse e after) \<Rightarrow>
                  (Inl e, case after of None \<Rightarrow> w'
                    | Some sec \<Rightarrow> w'\<lparr>hw_headers := hw_headers w' @ [(''Retry-After'', show_int sec)]\<rparr>))))"

fun route_guard :: "request \<Rightarrow> api_call \<Rightarrow> unit http_action" where
  "route_guard rq (CreateOrder _ _) = rate_limited rq"
| "route_guard rq _ = ret ()"

definition with_user :: "access_principal option \<Rightarrow> (access_principal \<Rightarrow> 'a http_action) \<Rightarrow> 'a http_action" where
  "with_user user f = (case user of None \<Rightarrow> throw (PlainError ''CurrentUser'') | Some who \<Rightarrow> f who)"

definition login_dto_ok :: "(string \<Rightarrow> bool) \<Rightarrow> string \<Rightarrow> string \<Rightarrow> bool" where
  "login_dto_ok isEmail email password \<longleftrightarrow>
     isEmail email \<and> char_count email \<le> 254 \<and> password \<noteq> [] \<and> char_count password \<le> 200"

definition refresh_dto_ok :: "string \<Rightarrow> bool" where
  "refresh_dto_ok refreshToken \<longleftrightarrow> refreshToken \<noteq> [] \<and> char_count refreshToken \<le> 200"

subsubsection \<open>\<open>AuthController\<close>\<close>

definition AuthController_login :: "('k, 'p) server \<Rightarrow> request \<Rightarrow> string \<Rightarrow> string \<Rightarrow> reply http_action" where
  "AuthController_login sv rq email password =
     (if \<not> login_dto_ok (sv_isEmail sv) email password then throw (BadRequestException ''validation'')
      else and_then (in_auth (login_route (sv_jwt sv) (sv_keys sv) (sv_hmac sv) (sv_argon2 sv) (sv_sha256 sv) login_limiter
          (rq_member rq) (rq_random rq) (case rq_ip rq of None \<Rightarrow> ''undefined'' | Some ip \<Rightarrow> ip) email password)) (\<lambda>answer.
        case answer of
          LoggedIn pair \<Rightarrow> ret (TokenReply pair)
        | TooMany sec \<Rightarrow> and_then (setHeader ''Retry-After'' (show_int sec)) (\<lambda>_. throw (TooManyRequestsException ''login''))))"

definition AuthController_refresh :: "('k, 'p) server \<Rightarrow> request \<Rightarrow> string \<Rightarrow> reply http_action" where
  "AuthController_refresh sv rq refreshToken =
     (if \<not> refresh_dto_ok refreshToken then throw (BadRequestException ''validation'')
      else and_then (in_auth (auth_refresh (sv_jwt sv) (sv_keys sv) (sv_hmac sv) (rq_random rq) refreshToken))
        (\<lambda>pair. ret (TokenReply pair)))"

definition AuthController_logout :: "request \<Rightarrow> access_principal \<Rightarrow> reply http_action" where
  "AuthController_logout rq principal' = and_then (in_auth (auth_logout principal' (rq_now rq))) (\<lambda>_. ret NoContent)"

subsubsection \<open>\<open>ProductsController\<close>\<close>

definition ProductsController_findAll :: "nat \<Rightarrow> string option \<Rightarrow> reply http_action" where
  "ProductsController_findAll limit cursor =
     and_then (in_tables (products_findAll limit cursor)) (\<lambda>(items, next). ret (ProductPage items next))"

definition ProductsController_create :: "create_product_dto \<Rightarrow> reply http_action" where
  "ProductsController_create dto =
     (if \<not> create_product_dto_ok dto then throw (BadRequestException ''validation'')
      else and_then (in_tables (products_create dto)) (\<lambda>p. ret (ProductReply p)))"

definition ProductsController_findOne :: "string \<Rightarrow> reply http_action" where
  "ProductsController_findOne productId = and_then (in_tables (products_findOne productId)) (\<lambda>p. ret (ProductReply p))"

subsubsection \<open>\<open>OrdersController\<close>\<close>

definition OrdersController_findAll :: "access_principal \<Rightarrow> nat \<Rightarrow> string option \<Rightarrow> reply http_action" where
  "OrdersController_findAll who limit cursor =
     and_then (in_tables (orders_findAll limit cursor (ap_userId who))) (\<lambda>(items, next). ret (OrderPage items next))"

definition OrdersController_findOne :: "string \<Rightarrow> access_principal \<Rightarrow> reply http_action" where
  "OrdersController_findOne orderId who = and_then (in_tables (findOneFor orderId (ap_userId who))) (\<lambda>o'. ret (OrderReply o'))"

definition OrdersController_create ::
    "('k, 'p) server \<Rightarrow> request \<Rightarrow> json \<Rightarrow> string option \<Rightarrow> access_principal \<Rightarrow> reply http_action" where
  "OrdersController_create sv rq body idempotencyKey who =
     and_then (in_market (in_shop (post_order (sv_sha256 sv) (sv_isEmail sv) (rq_uuid rq) (rq_now rq) body idempotencyKey
         (ap_userId who)))) (\<lambda>(order, replayed).
     and_then (if replayed then setHeader ''Idempotency-Replay'' ''true'' else ret ()) (\<lambda>_. ret (OrderReply order)))"

definition OrdersController_updateStatus :: "string \<Rightarrow> string \<Rightarrow> reply http_action" where
  "OrdersController_updateStatus orderId status = and_then (in_market (patch_status orderId status)) (\<lambda>o'. ret (OrderReply o'))"

definition OrdersController_streamEvents :: "nat \<Rightarrow> string \<Rightarrow> string option \<Rightarrow> access_principal \<Rightarrow> reply http_action" where
  "OrdersController_streamEvents i orderId lastEventId who =
     and_then (in_market (open_stream i orderId lastEventId (ap_userId who))) (\<lambda>_. ret StreamOpened)"

subsubsection \<open>\<open>HealthController\<close>\<close>

definition HealthController_check :: "bool \<Rightarrow> reply http_action" where
  "HealthController_check database_up =
     (if database_up then ret HealthReply else throw (ServiceUnavailableException ''Database is not reachable''))"

lemmas controllers = AuthController_login_def AuthController_refresh_def AuthController_logout_def
  ProductsController_findAll_def ProductsController_create_def ProductsController_findOne_def
  OrdersController_findAll_def OrdersController_findOne_def OrdersController_create_def
  OrdersController_updateStatus_def OrdersController_streamEvents_def HealthController_check_def

fun handle :: "('k, 'p) server \<Rightarrow> request \<Rightarrow> access_principal option \<Rightarrow> api_call \<Rightarrow> reply http_action" where
  "handle sv rq user (Login email password) = AuthController_login sv rq email password"
| "handle sv rq user (Refresh refreshToken) = AuthController_refresh sv rq refreshToken"
| "handle sv rq user Logout = with_user user (AuthController_logout rq)"
| "handle sv rq user (ListProducts limit cursor) = ProductsController_findAll limit cursor"
| "handle sv rq user (GetProduct productId) = ProductsController_findOne productId"
| "handle sv rq user (CreateProduct dto) = ProductsController_create dto"
| "handle sv rq user (ListOrders limit cursor) = with_user user (\<lambda>who. OrdersController_findAll who limit cursor)"
| "handle sv rq user (GetOrder orderId) = with_user user (OrdersController_findOne orderId)"
| "handle sv rq user (CreateOrder body idempotencyKey) = with_user user (OrdersController_create sv rq body idempotencyKey)"
| "handle sv rq user (UpdateOrderStatus orderId status) = OrdersController_updateStatus orderId status"
| "handle sv rq user (StreamOrder i orderId lastEventId) = with_user user (OrdersController_streamEvents i orderId lastEventId)"
| "handle sv rq user (GetHealth database_up) = HealthController_check database_up"

definition pipeline :: "('k, 'p) server \<Rightarrow> request \<Rightarrow> reply http_action" where
  "pipeline sv rq =
     and_then (authenticated sv rq) (\<lambda>user.
     and_then (in_tables (roles_guard (route_of (rq_call rq)) user)) (\<lambda>_.
     and_then (route_guard rq (rq_call rq)) (\<lambda>_.
       handle sv rq user (rq_call rq))))"

record response =
  rs_status :: int
  rs_headers :: "(string \<times> string) list"
  rs_body :: "json + reply"

definition respond :: "('k, 'p) server \<Rightarrow> request \<Rightarrow> http_world \<Rightarrow> response \<times> http_world" where
  "respond sv rq w =
     (let (r, w') = pipeline sv rq (w\<lparr>hw_headers := []\<rparr>)
      in (case r of
            Inl e \<Rightarrow> \<lparr>rs_status = exception_status e, rs_headers = hw_headers w', rs_body = Inl (problem e (rq_url rq))\<rparr>
          | Inr reply \<Rightarrow> \<lparr>rs_status = success_status (rq_call rq), rs_headers = hw_headers w', rs_body = Inr reply\<rparr>,
          w'))"

subsection \<open>Who gets in\<close>

text \<open>The guards leave the tables and the event service as they are.\<close>

lemma authenticated_run:
  assumes "authenticated sv rq w = (r, w')"
  shows "hw_market w' = hw_market w"
    and "r = Inr user \<Longrightarrow> rt_public (route_of (rq_call rq)) \<and> user = None
      \<or> (\<exists>header token who. rq_authorization rq = Some header \<and> bearer_token header = Some token \<and> user = Some who
          \<and> verifyAccess (sv_jwt sv) (sv_keys sv) token (rq_now rq) = Inr who \<and> r_up (hw_auth w)
          \<and> fst (isDenied (ap_jti who) (ap_familyId who) (hw_auth w)) = Inr False)"
proof -
  let ?g = "\<lparr>gd_redis = hw_auth w, gd_www_authenticate = False, gd_user = None\<rparr>"
  obtain r0 g where run: "auth_guard (sv_jwt sv) (sv_keys sv) (route_of (rq_call rq)) (rq_authorization rq) (rq_now rq) ?g = (r0, g)"
    by fastforce
  have http: "rt_http (route_of c)" for c by (cases c) (simp_all add: PUBLIC_def PROTECTED_def STAFF_def)
  show "hw_market w' = hw_market w" using assms by (auto simp: authenticated_def Let_def split: prod.splits)
  assume "r = Inr user"
  then obtain b where r0: "r0 = Inr b" "user = gd_user g"
    using assms run by (cases r0) (simp_all add: authenticated_def)
  show "rt_public (route_of (rq_call rq)) \<and> user = None
      \<or> (\<exists>header token who. rq_authorization rq = Some header \<and> bearer_token header = Some token \<and> user = Some who
          \<and> verifyAccess (sv_jwt sv) (sv_keys sv) token (rq_now rq) = Inr who \<and> r_up (hw_auth w)
          \<and> fst (isDenied (ap_jti who) (ap_familyId who) (hw_auth w)) = Inr False)"
  proof (cases "rt_public (route_of (rq_call rq))")
    case True
    then have "g = ?g" using run http by (simp add: auth_guard_def)
    then show ?thesis using True r0 by simp
  next
    case False
    note closed = guard_fails_closed [OF http False run]
    have "r0 \<noteq> Inr False" using closed by blast
    then have "r0 = Inr True" using r0(1) by (cases b) simp_all
    then obtain header token who where "rq_authorization rq = Some header" "bearer_token header = Some token"
      "verifyAccess (sv_jwt sv) (sv_keys sv) token (rq_now rq) = Inr who" "r_up (gd_redis ?g)"
      "fst (isDenied (ap_jti who) (ap_familyId who) (gd_redis ?g)) = Inr False" "gd_user g = Some who"
      using closed by blast
    then show ?thesis using r0(2) by simp
  qed
qed

lemma roles_guard_passed:
  assumes "roles_guard rt user s = (Inr b, s')" and "rt_http rt" and "rt_roles rt = Some required" and "required \<noteq> []"
  shows "s' = s \<and> (\<exists>who u. user = Some who \<and> find (\<lambda>u. u_id u = ap_userId who) (users s) = Some u \<and> u_role u \<in> set required)"
  using assms by (auto simp: roles_guard_def find_user_run and_then_def split: option.splits list.splits if_splits)

lemma keeps_roles_guard [keeps_intro]: "keeps P (roles_guard rt user)"
  unfolding roles_guard_def by (auto intro!: keeps_intro split: option.split list.split)

lemma keeps_in_market: "keeps P m \<Longrightarrow> keeps (\<lambda>w. P (hw_market w)) (in_market m)"
  by (auto simp: keeps_def in_market_def split: prod.splits)

lemma keeps_in_tables: "keeps P m \<Longrightarrow> keeps (\<lambda>w. P (world_db w)) (in_tables m)"
  unfolding in_tables_def using keeps_in_market [OF keeps_in_shop [OF keeps_on_db]] .

lemma in_tables_idle:
  assumes "\<And>P. keeps P m"
  shows "in_tables m w = (fst (m (world_db w)), w)"
proof -
  have "m (world_db w) = (fst (m (world_db w)), world_db w)" using keeps_all_run [OF assms] .
  then show ?thesis by (simp add: in_tables_def in_market_def in_shop_def on_db_def Let_def split: prod.splits) auto
qed

definition permitted :: "('k, 'p) server \<Rightarrow> request \<Rightarrow> http_world \<Rightarrow> bool" where
  "permitted sv rq w \<longleftrightarrow>
     (\<exists>header token who. rq_authorization rq = Some header \<and> bearer_token header = Some token
        \<and> verifyAccess (sv_jwt sv) (sv_keys sv) token (rq_now rq) = Inr who
        \<and> r_up (hw_auth w) \<and> fst (isDenied (ap_jti who) (ap_familyId who) (hw_auth w)) = Inr False
        \<and> (case rt_roles (route_of (rq_call rq)) of
             None \<Rightarrow> True
           | Some required \<Rightarrow> \<exists>u. find (\<lambda>u. u_id u = ap_userId who) (users (world_db w)) = Some u \<and> u_role u \<in> set required))"

lemma keeps_product_reads [keeps_intro]:
  "keeps P (products_findAll limit cursor)" "keeps P (products_findOne productId)"
  unfolding products_findAll_def products_findOne_def Let_def
  by (auto intro!: keeps_intro split: sum.split)

fun writes :: "api_call \<Rightarrow> bool" where
  "writes (CreateProduct _) = True"
| "writes (CreateOrder _ _) = True"
| "writes (UpdateOrderStatus _ _) = True"
| "writes (StreamOrder _ _ _) = True"
| "writes Logout = True"
| "writes (Login _ _) = True"
| "writes (Refresh _) = True"
| "writes _ = False"

lemma handle_reads: "\<not> writes c \<Longrightarrow> hw_market (snd (handle sv rq user c w)) = hw_market w"
  by (cases c; cases user)
    (simp_all add: controllers with_user_def and_then_def in_tables_idle keeps_intro split: sum.split prod.split)

lemma pipeline_run:
  assumes "pipeline sv rq w = (r, w')"
  obtains (refused) e where "r = Inl e" "hw_market w' = hw_market w"
  | (passed) user w1 w2 where "authenticated sv rq w = (Inr user, w1)" "hw_market w1 = hw_market w"
      "fst (roles_guard (route_of (rq_call rq)) user (world_db w)) = Inr True \<or> rt_roles (route_of (rq_call rq)) = None"
      "route_guard rq (rq_call rq) w1 = (Inr (), w2)" "handle sv rq user (rq_call rq) w2 = (r, w')"
  | (limited) user w1 e where "authenticated sv rq w = (Inr user, w1)" "hw_market w1 = hw_market w"
      "fst (roles_guard (route_of (rq_call rq)) user (world_db w)) = Inr True \<or> rt_roles (route_of (rq_call rq)) = None"
      "route_guard rq (rq_call rq) w1 = (Inl e, w')" "r = Inl e"
proof -
  obtain ru w1 where a: "authenticated sv rq w = (ru, w1)" by fastforce
  note market = authenticated_run(1) [OF a]
  show ?thesis
  proof (cases ru)
    case (Inl e)
    then show ?thesis using assms a market by (intro refused [of e]) (simp_all add: pipeline_def)
  next
    case (Inr user)
    let ?roles = "roles_guard (route_of (rq_call rq)) user"
    have roles: "in_tables ?roles w1 = (fst (?roles (world_db w)), w1)"
      using in_tables_idle [of ?roles w1] market by (simp add: keeps_intro)
    show ?thesis
    proof (cases "fst (?roles (world_db w))")
      case (Inl e)
      then show ?thesis using assms a Inr market roles by (intro refused [of e]) (simp_all add: pipeline_def)
    next
      case ok: (Inr b)
      have b: "fst (?roles (world_db w)) = Inr True \<or> rt_roles (route_of (rq_call rq)) = None"
        using ok by (auto simp: roles_guard_def find_user_run and_then_def split: option.splits list.splits if_splits)
      obtain rg w2 where g: "route_guard rq (rq_call rq) w1 = (rg, w2)" by fastforce
      have run: "pipeline sv rq w = (case rg of Inl e \<Rightarrow> (Inl e, w2) | Inr _ \<Rightarrow> handle sv rq user (rq_call rq) w2)"
        using a Inr roles ok g by (simp add: pipeline_def and_then_def split: sum.split)
      show ?thesis
      proof (cases rg)
        case (Inl e)
        then show ?thesis using assms run a Inr market b g by (intro limited [of user w1 e]) simp_all
      next
        case (Inr u)
        then show ?thesis using assms run a \<open>ru = Inr user\<close> market b g by (intro passed [of user w1 w2]) simp_all
      qed
    qed
  qed
qed

lemma passed_permitted:
  assumes "authenticated sv rq w = (Inr user, w1)" and "\<not> rt_public (route_of (rq_call rq))"
    and "fst (roles_guard (route_of (rq_call rq)) user (world_db w)) = Inr True \<or> rt_roles (route_of (rq_call rq)) = None"
  shows "permitted sv rq w"
proof -
  from authenticated_run(2) [OF assms(1) refl] assms(2) obtain header token who where h:
    "rq_authorization rq = Some header" "bearer_token header = Some token" "user = Some who"
    "verifyAccess (sv_jwt sv) (sv_keys sv) token (rq_now rq) = Inr who" "r_up (hw_auth w)"
    "fst (isDenied (ap_jti who) (ap_familyId who) (hw_auth w)) = Inr False" by blast
  have "\<exists>u. find (\<lambda>u. u_id u = ap_userId who) (users (world_db w)) = Some u \<and> u_role u \<in> set required"
    if "rt_roles (route_of (rq_call rq)) = Some required" for required
  proof -
    have r: "roles_guard (route_of (rq_call rq)) user (world_db w)
        = (Inr True, snd (roles_guard (route_of (rq_call rq)) user (world_db w)))"
      using assms(3) that by (metis option.distinct(1) prod.collapse)
    have "rt_http (route_of (rq_call rq))" "required \<noteq> []"
      using that by (cases "rq_call rq"; auto simp: PUBLIC_def PROTECTED_def STAFF_def)+
    from roles_guard_passed [OF r this(1) that this(2)] show ?thesis using h(3) by auto
  qed
  then show ?thesis unfolding permitted_def using h(1,2,4-6) by (auto split: option.split)
qed

lemma exception_status_error: "400 \<le> exception_status e"
  by (cases e) simp_all

subsection \<open>Invariants of the tables\<close>

text \<open>
  What every service promises of an invariant of the database, and what the API then promises of it: the
  services change the tables by placing an order, setting a status, creating a product or touching the
  refresh tokens, and by nothing else.
\<close>

lemma keeps_in_db: "keeps P m \<Longrightarrow> keeps (\<lambda>w. P (aw_db w)) (in_db m)"
  by (auto simp: keeps_def in_db_def split: prod.splits)

lemma keeps_in_redis [keeps_intro]: "keeps (\<lambda>w. P (aw_db w)) (in_redis m)"
  by (auto simp: keeps_def in_redis_def split: prod.splits)

lemma keeps_in_auth: "keeps (\<lambda>w. P (aw_db w)) m \<Longrightarrow> keeps (\<lambda>w. P (world_db w)) (in_auth m)"
  by (auto simp: keeps_def in_auth_def Let_def split: prod.splits)
    (metis auth_world.select_convs(1) snd_conv)

lemma keeps_setHeader [keeps_intro]: "keeps (\<lambda>w. P (world_db w)) (setHeader name v)"
  by (simp add: keeps_def setHeader_def)

lemma keeps_with_user: "(\<And>who. keeps P (f who)) \<Longrightarrow> keeps P (with_user user f)"
  unfolding with_user_def by (intro keeps_intro)

definition touches_tokens :: "'a db_action \<Rightarrow> bool" where
  "touches_tokens m \<longleftrightarrow> (\<forall>s. \<exists>ts. snd (m s) = s\<lparr>refresh_tokens := ts\<rparr>)"

lemma touches_tokensI: "(\<And>s :: db. keeps (\<lambda>t. \<exists>ts. t = s\<lparr>refresh_tokens := ts\<rparr>) m) \<Longrightarrow> touches_tokens m"
  unfolding touches_tokens_def
proof
  fix s :: db assume k: "\<And>s :: db. keeps (\<lambda>t. \<exists>ts. t = s\<lparr>refresh_tokens := ts\<rparr>) m"
  have "s = s\<lparr>refresh_tokens := refresh_tokens s\<rparr>" by simp
  then show "\<exists>ts. snd (m s) = s\<lparr>refresh_tokens := ts\<rparr>" using keepsD [OF k [of s], of s] by blast
qed

lemma touches_tokens_transaction:
  assumes "touches_tokens m"
  shows "touches_tokens (transaction m)"
  unfolding touches_tokens_def
proof
  fix s
  obtain ts where ts: "snd (m s) = s\<lparr>refresh_tokens := ts\<rparr>" using assms unfolding touches_tokens_def by blast
  show "\<exists>ts. snd (transaction m s) = s\<lparr>refresh_tokens := ts\<rparr>"
  proof (cases "fst (m s)")
    case (Inl e)
    then have "m s = (Inl e, s\<lparr>refresh_tokens := ts\<rparr>)" using ts by (simp add: prod_eq_iff)
    then have "snd (transaction m s) = s\<lparr>refresh_tokens := refresh_tokens s\<rparr>"
      by (simp add: transaction_def rolled_back_def)
    then show ?thesis by blast
  next
    case (Inr a)
    then have "m s = (Inr a, s\<lparr>refresh_tokens := ts\<rparr>)" using ts by (simp add: prod_eq_iff)
    then show ?thesis by (auto simp: transaction_def)
  qed
qed

lemma keeps_token_write [keeps_intro]:
  "keeps (\<lambda>t. \<exists>ts. t = s\<lparr>refresh_tokens := ts\<rparr>) (modify (\<lambda>s. s\<lparr>refresh_tokens := f s\<rparr>))"
  by (auto simp: keeps_def)

lemma keeps_insert_token [keeps_intro]:
  "keeps (\<lambda>t. \<exists>ts. t = s\<lparr>refresh_tokens := ts\<rparr>) (insert_refresh_token r)"
  unfolding insert_refresh_token_def by (intro keeps_intro)

lemma keeps_revoke [keeps_intro]:
  "keeps (\<lambda>t. \<exists>ts. t = s\<lparr>refresh_tokens := ts\<rparr>) (revokeFamily f)"
  unfolding revokeFamily_def by (intro keeps_intro)

lemma touches_revokeFamily: "touches_tokens (revokeFamily f)"
  by (rule touches_tokensI) (rule keeps_intro)

lemma touches_auth_login: "touches_tokens (auth_login lib keys hmac argon2 rnd email password)"
  unfolding auth_login_def Let_def issue_def
  by (rule touches_tokensI) (auto intro!: keeps_intro split: prod.split)

lemma touches_rotate: "touches_tokens (rotate_token hmac i n t)"
proof -
  have "touches_tokens (rotate_body hmac i n t)"
    unfolding rotate_body_def Let_def by (rule touches_tokensI) (intro keeps_intro)
  then have "touches_tokens (transaction (rotate_body hmac i n t))" by (rule touches_tokens_transaction)
  moreover have "touches_tokens (ret x)" for x :: rotation_result
    by (rule touches_tokensI) (rule keeps_intro)
  ultimately show ?thesis by (cases "TOKEN_PATTERN t") (simp_all add: rotate_token_def touches_tokens_def)
qed

lemma keeps_open_stream: "keeps (\<lambda>k. P (market_db k)) (open_stream i orderId lastEventId userId)"
proof -
  have view: "keeps (\<lambda>k. P (market_db k)) (in_shop (on_db (assertCanView orderId userId)))"
    by (intro keeps_in_shop keeps_on_db keeps_reads)
  show ?thesis
    unfolding open_stream_def by (rule keeps_and_then [OF view]) (auto intro!: keeps_intro simp: keeps_def split: option.split)
qed

locale table_invariant =
  fixes P :: "db \<Rightarrow> bool"
  assumes claims: "order_dto_ok dto \<Longrightarrow> keeps P (transaction (claim_or_create uuid now dto (namespaced_key (Some user) key) h (Some user)))"
    and statuses: "st \<in> set ORDER_STATUSES \<Longrightarrow> keeps P (set_order_status n st)"
    and products: "create_product_dto_ok dto' \<Longrightarrow> keeps P (products_create dto')"
    and tokens: "P s \<Longrightarrow> P (s\<lparr>refresh_tokens := ts\<rparr>)"
begin

lemma token_services: "touches_tokens m \<Longrightarrow> keeps P m"
  unfolding touches_tokens_def by (rule keepsI) (metis tokens)

lemma auth_services:
  "keeps (\<lambda>w. P (aw_db w)) (login_route lib keys hmac argon2 sha limit member rnd ip email password)"
  "keeps (\<lambda>w. P (aw_db w)) (auth_refresh lib keys hmac rnd refreshToken)"
  "keeps (\<lambda>w. P (aw_db w)) (auth_logout who nowMs)"
proof -
  note in_db = keeps_in_db [OF token_services]
  show "keeps (\<lambda>w. P (aw_db w)) (login_route lib keys hmac argon2 sha limit member rnd ip email password)"
    unfolding login_route_def by (intro keeps_intro in_db touches_auth_login)
  show "keeps (\<lambda>w. P (aw_db w)) (auth_logout who nowMs)"
    unfolding auth_logout_def by (intro keeps_intro in_db touches_revokeFamily)
  have user: "keeps (\<lambda>w. P (aw_db w)) (in_db (find_user n))" for n
    by (intro keeps_in_db) (simp add: keeps_def)
  show "keeps (\<lambda>w. P (aw_db w)) (auth_refresh lib keys hmac rnd refreshToken)"
    unfolding auth_refresh_def
    by (rule keeps_and_then [OF in_db [OF touches_rotate]])
      (auto intro!: keeps_intro user split: rotation_result.split reject_reason.split)
qed

lemma handlers: "keeps (\<lambda>w. P (world_db w)) (handle sv rq user c)"
proof -
  have create: "keeps (\<lambda>w. P (world_db w)) (in_market (in_shop (post_order sha isEmail uuid now body key who)))"
    for sha isEmail uuid now body key who
    by (rule keeps_in_market [OF keeps_in_shop [OF keeps_post_order [of P, OF claims]]])
  have status: "keeps (\<lambda>w. P (world_db w)) (in_market (patch_status orderId st))" for orderId st
    by (rule keeps_in_market [OF keeps_patch_status [where P = P, OF statuses]])
  have stream: "keeps (\<lambda>w. P (world_db w)) (in_market (open_stream i orderId ev who))" for i orderId ev who
    by (rule keeps_in_market) (rule keeps_open_stream)
  have reads: "keeps (\<lambda>w. P (world_db w)) (in_tables m)" if "\<And>Q. keeps Q m" for m :: "'x db_action"
    by (rule keeps_in_tables) (rule that)
  show ?thesis
    by (cases c)
      (auto simp: controllers intro!: keeps_intro keeps_with_user create status stream reads
        keeps_in_auth auth_services keeps_in_tables [OF products] split: login_answer.split)
qed

lemma api: "P (world_db w) \<Longrightarrow> P (world_db (snd (respond sv rq w)))"
proof -
  assume P: "P (world_db w)"
  obtain r w' where run: "pipeline sv rq (w\<lparr>hw_headers := []\<rparr>) = (r, w')" by fastforce
  have guard: "world_db w2 = world_db w1" if "route_guard rq (rq_call rq) w1 = (x, w2)" for w1 x w2
    using that by (cases "rq_call rq")
      (auto simp: rate_limited_def Let_def split: option.splits prod.splits sum.splits guarded.splits)
  from run have "P (world_db w')"
  proof (cases rule: pipeline_run)
    case (passed user w1 w2)
    then show ?thesis using keepsD' [OF handlers _ passed(5)] guard [OF passed(4)] P by simp
  next
    case (limited user w1 e)
    then show ?thesis using guard [OF limited(4)] P by simp
  qed (use P in simp)
  then show ?thesis using run by (simp add: respond_def)
qed

lemma always: "P (world_db w) \<Longrightarrow> P (world_db (fold (\<lambda>rq w. snd (respond sv rq w)) rqs w))"
  by (induction rqs arbitrary: w) (simp_all add: api)

end

lemma db_wf_tokens: "db_wf s \<Longrightarrow> db_wf (s\<lparr>refresh_tokens := ts\<rparr>)"
  by (simp add: db_wf_defs)

lemma since_tokens: "since s0 s \<Longrightarrow> since s0 (s\<lparr>refresh_tokens := ts\<rparr>)"
proof -
  assume s: "since s0 s"
  have "later s (s\<lparr>refresh_tokens := ts\<rparr>)" by (rule later_same_rows) simp_all
  then show ?thesis using s db_wf_tokens later_trans unfolding since_def by blast
qed

lemma own_keys_kept:
  assumes "own_keys s" and "\<And>s0. keeps (since s0) m"
    and "idempotency_keys (snd (m s)) = idempotency_keys s"
  shows "own_keys (snd (m s))"
  using own_keys_later [OF assms(1) keepsD [OF assms(2) since_refl]] assms(1,3) by (simp add: own_keys_def)

interpretation one_event_per_order: table_invariant in_step
proof (unfold_locales, goal_cases)
  case (4 s ts)
  then show ?case using in_step_same [OF 4, of "s\<lparr>refresh_tokens := ts\<rparr>"] db_wf_tokens by (simp add: in_step_def)
qed (rule keeps_in_step_claim keeps_in_step_status keeps_in_step_products)+

interpretation nothing_lost: table_invariant "since s0" for s0
  by unfold_locales (rule keeps_since_claim keeps_since_status keeps_since_products since_tokens; assumption?)+

interpretation keys_are_own: table_invariant own_keys
proof (unfold_locales, goal_cases)
  case (2 st n)
  show ?case
    by (rule keepsI) (rule own_keys_kept [OF _ keeps_since_status], simp_all add: set_order_status_run)
next
  case (3 dto')
  have "idempotency_keys s' = idempotency_keys s" if "products_create dto' s = (x, s')" for s x s'
    using that unfolding products_create_cases
    by (auto split: prod.splits sum.splits dest: insert_product_ok transaction_error)
  then have "idempotency_keys (snd (products_create dto' s)) = idempotency_keys s" for s by (metis prod.collapse)
  then show ?case by (intro keepsI own_keys_kept [OF _ keeps_since_products])
next
  case (4 s ts)
  then show ?case using own_keys_later [OF 4 since_tokens [OF since_refl]] by (simp add: own_keys_def)
qed (rule keeps_own_keys_claim)

definition api_tables :: "db \<Rightarrow> bool" where
  "api_tables s \<longleftrightarrow> in_step s \<and> own_keys s"

text \<open>C7: whatever requests the API serves, from whomever, with whatever outcome: the tables stay well
  formed, the outbox holds exactly one event per order and every idempotency key belongs to the user of
  its order; and no order that ever existed is lost or changes anything but its status.\<close>

theorem api_invariants:
  assumes "api_tables (world_db w)"
  shows "api_tables (world_db (fold (\<lambda>rq w. snd (respond sv rq w)) rqs w))
    \<and> since (world_db w) (world_db (fold (\<lambda>rq w. snd (respond sv rq w)) rqs w))"
  using assms one_event_per_order.always [of w sv rqs] keys_are_own.always [of w sv rqs]
    nothing_lost.always [of "world_db w" w sv rqs] since_refl [of "world_db w"]
  by (simp add: api_tables_def in_step_def)

lemma in_step_event:
  assumes "in_step s" "r \<in> set (orders s)"
  shows "\<exists>ob. filter (\<lambda>ob. eventId (ob_payload ob) = orderPlacedEventId (o_id r)) (outbox s) = [ob]
    \<and> ev_data (ob_payload ob) = order_event s r"
proof -
  let ?id = "\<lambda>ob. eventId (ob_payload ob)"
  have ids: "map ?id (outbox s) = map (\<lambda>r. orderPlacedEventId (o_id r)) (orders s)"
    and data: "map (\<lambda>ob. ev_data (ob_payload ob)) (outbox s) = map (order_event s) (orders s)"
    and wf: "db_wf s" using assms(1) by (simp_all add: in_step_def)
  have "inj_on (\<lambda>r. orderPlacedEventId (o_id r)) (set (orders s))"
    using order_ids_distinct [OF wf] by (auto simp: inj_on_def orderPlacedEventId_def show_int_inj distinct_map)
  then have "distinct (map ?id (outbox s))"
    using order_ids_distinct [OF wf] unfolding ids by (simp add: distinct_map)
  moreover obtain n where n: "n < length (orders s)" "orders s ! n = r" using assms(2) by (auto simp: in_set_conv_nth)
  have len: "length (outbox s) = length (orders s)" using arg_cong [OF ids, of length] by simp
  have "?id (outbox s ! n) = orderPlacedEventId (o_id r)" "ev_data (ob_payload (outbox s ! n)) = order_event s r"
    using arg_cong [OF ids, of "\<lambda>xs. xs ! n"] arg_cong [OF data, of "\<lambda>xs. xs ! n"] n len by simp_all
  ultimately show ?thesis
    using filter_key [of ?id "outbox s" "outbox s ! n"] n(1) len by (intro exI [of _ "outbox s ! n"]) simp
qed

lemma created_answer:
  assumes "respond sv rq w = (rs, w')" "rq_call rq = CreateOrder body key" "rs_status rs = 201"
  obtains who w2 answer rep shop' where "permitted sv rq w" "rs_body rs = Inr (OrderReply answer)"
    "verifyAccess (sv_jwt sv) (sv_keys sv) (the (Option.bind (rq_authorization rq) bearer_token)) (rq_now rq) = Inr who"
    "sh_db w2 = world_db w" "sh_db shop' = world_db w'"
    "post_order (sv_sha256 sv) (sv_isEmail sv) (rq_uuid rq) (rq_now rq) body key (ap_userId who) w2
      = (Inr (answer, rep), shop')"
proof -
  let ?w = "w\<lparr>hw_headers := []\<rparr>"
  have never: "exception_status e \<noteq> 201" for e by (cases e) simp_all
  obtain r where run: "pipeline sv rq ?w = (r, w')" and rs: "rs = (case r of
      Inl e \<Rightarrow> \<lparr>rs_status = exception_status e, rs_headers = hw_headers w', rs_body = Inl (problem e (rq_url rq))\<rparr>
    | Inr reply \<Rightarrow> \<lparr>rs_status = success_status (rq_call rq), rs_headers = hw_headers w', rs_body = Inr reply\<rparr>)"
    using assms(1) by (auto simp: respond_def Let_def split: prod.splits)
  have ok: "\<exists>reply. r = Inr reply" using assms(3) rs never by (cases r) simp_all
  have guarded_route: "\<not> rt_public (route_of (rq_call rq))" using assms(2) by (simp add: PROTECTED_def)
  have same: "permitted sv rq ?w = permitted sv rq w" by (simp add: permitted_def cong: option.case_cong)
  from run show ?thesis
  proof (cases rule: pipeline_run)
    case (passed user w1 w2)
    from authenticated_run(2) [OF passed(1) refl] guarded_route obtain header token who where who:
      "rq_authorization rq = Some header" "bearer_token header = Some token" "user = Some who"
      "verifyAccess (sv_jwt sv) (sv_keys sv) token (rq_now rq) = Inr who" by blast
    have db: "world_db w2 = world_db w"
      using passed(2,4) assms(2)
      by (auto simp: rate_limited_def Let_def split: option.splits prod.splits sum.splits guarded.splits)
    obtain reply where "r = Inr reply" using ok by blast
    with passed(5) assms(2) who(3) obtain answer rep shop' where
      "post_order (sv_sha256 sv) (sv_isEmail sv) (rq_uuid rq) (rq_now rq) body key (ap_userId who) (mk_shop (hw_market w2))
        = (Inr (answer, rep), shop')" "reply = OrderReply answer" "world_db w' = sh_db shop'"
      by (auto simp: with_user_def OrdersController_create_def and_then_ok_iff in_market_def in_shop_def setHeader_def Let_def
          split: prod.splits if_splits)
    then show ?thesis
      using that [of answer who "mk_shop (hw_market w2)" shop' rep] passed_permitted [OF passed(1) guarded_route passed(3)]
        same db who rs \<open>r = Inr reply\<close> by simp
  qed (use ok in auto)
qed



definition plain_server :: "(string, string) server" where
  "plain_server = \<lparr>sv_jwt = plain_jwt, sv_keys = plain_keys, sv_hmac = id, sv_argon2 = (=), sv_sha256 = id,
     sv_isEmail = (\<lambda>_. True)\<rparr>"

definition sample_http :: http_world where
  "sample_http = \<lparr>hw_market = sample_market, hw_auth = sample_redis_up, hw_headers = []\<rparr>"

definition sample_request :: "api_call \<Rightarrow> string option \<Rightarrow> request" where
  "sample_request call authorization = \<lparr>rq_call = call, rq_authorization = authorization, rq_ip = Some ''10.0.0.1'',
     rq_url = ''/orders'', rq_member = ''m1'', rq_uuid = ''row-1'', rq_now = 1500, rq_random = sample_random\<rparr>"


lemma sample_api_tables: "api_tables (world_db sample_http)"
  using sample_in_step sample_market_wf
  by (simp add: api_tables_def own_keys_def sample_http_def sample_db_def empty_db_def)

theorem api_invariants_witness:
  "api_tables (world_db (fold (\<lambda>rq w. snd (respond plain_server rq w))
     [sample_request (CreateOrder sample_body (Some ''k'')) (Some (''Bearer '' @ sample_access)),
      sample_request (Login ''u1@example.com'' ''secret'') None] sample_http))"
  using api_invariants [OF sample_api_tables] by blast

definition order_header :: string where
  "order_header = ''Bearer '' @ sample_access"

definition order_request :: request where
  "order_request = sample_request (CreateOrder sample_body (Some ''k'')) (Some order_header)"

lemma sample_verifies: "verifyAccess plain_jwt plain_keys sample_access 1500 = Inr sample_principal"
  by (simp add: sample_access_def signAccess_def verifyAccess_def plain_jwt_def plain_parse verificationKey_def
      truthy_def plain_keys_def ACCESS_TTL_SEC_def sample_principal_def)

lemma sample_token_text: "sample_access = json_text (plain_token SIGNING_ALG ''k1'' (access_claims 1 customer ''f'' ''j'' 1500) ''key'')"
  by (simp add: sample_access_def signAccess_def plain_jwt_def plain_keys_def)

lemma sample_bearer: "bearer_token order_header = Some sample_access"
  unfolding order_header_def sample_token_text by code_simp

lemma sample_posted:
  "fst (post_order id (\<lambda>_. True) ''row-1'' 1500 sample_body (Some ''k'') 1 sample_shop) = Inr (sample_answer, False)"
  by code_simp

lemma sample_authenticated:
  "\<exists>w1. authenticated plain_server order_request (sample_http\<lparr>hw_headers := []\<rparr>) = (Inr (Some sample_principal), w1)
    \<and> hw_market w1 = sample_market"
proof -
  obtain r w1 where run: "authenticated plain_server order_request (sample_http\<lparr>hw_headers := []\<rparr>) = (r, w1)"
    by fastforce
  obtain redis where d: "isDenied (ap_jti sample_principal) (ap_familyId sample_principal) sample_redis_up = (Inr False, redis)"
    using isDenied_run [of "ap_jti sample_principal" "ap_familyId sample_principal" sample_redis_up]
    by (auto simp: sample_redis_up_def live_def prod_eq_iff)
  have "fst (authenticated plain_server order_request (sample_http\<lparr>hw_headers := []\<rparr>)) = Inr (Some sample_principal)"
    using d
    by (simp add: authenticated_def order_request_def sample_request_def plain_server_def PROTECTED_def auth_guard_def
        sample_bearer sample_verifies sample_http_def)
  then show ?thesis using run authenticated_run(1) [OF run] by (simp add: sample_http_def)
qed

lemma order_request_run:
  "rs_status (fst (respond plain_server order_request sample_http)) = 201
    \<and> world_db (snd (respond plain_server order_request sample_http))
      = sh_db (snd (post_order id (\<lambda>_. True) ''row-1'' 1500 sample_body (Some ''k'') 1 sample_shop))"
proof -
  obtain w1 where a: "authenticated plain_server order_request (sample_http\<lparr>hw_headers := []\<rparr>)
      = (Inr (Some sample_principal), w1)" and w1: "hw_market w1 = sample_market"
    using sample_authenticated by blast
  have "roles_guard PROTECTED u s = (Inr True, s)" for u s by (simp add: roles_guard_def PROTECTED_def)
  moreover obtain shop' where "post_order id (\<lambda>_. True) ''row-1'' 1500 sample_body (Some ''k'') 1 sample_shop
      = (Inr (sample_answer, False), shop')"
    using sample_posted by (metis prod.collapse)
  ultimately show ?thesis
    using a w1
    by (simp add: respond_def pipeline_def order_request_def sample_request_def in_tables_def in_market_def in_shop_def
        on_db_def rate_limited_def with_user_def OrdersController_create_def plain_server_def sample_principal_def)
qed

lemmas order_request_created = conjunct1 [OF order_request_run]
lemmas order_request_db = conjunct2 [OF order_request_run]


end
