(* ===== verification/Checkout.thy ===== *)
theory Checkout
  imports OrdersCorrect
begin

text \<open>
  \<open>src/checkout.ts\<close>: buying one product with the balance of a user, in one transaction. The two
  guarded updates are single statements: the check of the stock (the balance) and the
  subtraction happen together. The last part shows that no sequence of checkouts oversells or
  overdraws, and that nothing gets lost.
\<close>

definition CHECKOUT_CURRENCY :: string where
  "CHECKOUT_CURRENCY = ''UAH''"

text \<open>The integer parameters of a statement, in order: the first one out of range fails it.\<close>

definition int_params :: "int list \<Rightarrow> unit db_action" where
  "int_params ns = (case find (\<lambda>n. \<not> int4 n) ns of None \<Rightarrow> ret () | Some n \<Rightarrow> throw (int_error n))"

text \<open>\<open>UPDATE products SET stock = stock - qty WHERE id AND stock >= qty RETURNING priceCents\<close>.\<close>

definition with_stock_less :: "int \<Rightarrow> int \<Rightarrow> product list \<Rightarrow> product list" where
  "with_stock_less productId qty ps =
     map (\<lambda>p. if p_id p = productId \<and> qty \<le> p_stock p then p\<lparr>p_stock := p_stock p - qty\<rparr> else p) ps"

definition take_stock :: "int \<Rightarrow> int \<Rightarrow> int list db_action" where
  "take_stock productId qty =
     and_then (int_params [qty, productId]) (\<lambda>_.
     and_then (gets (\<lambda>s. map p_priceCents (filter (\<lambda>p. p_id p = productId \<and> qty \<le> p_stock p) (products s))))
       (\<lambda>prices.
     and_then (modify (\<lambda>s. s\<lparr>products := with_stock_less productId qty (products s)\<rparr>))
       (\<lambda>_. ret prices)))"

text \<open>\<open>UPDATE users SET balanceCents = balanceCents - amount WHERE .. RETURNING email\<close>.\<close>

definition with_balance_less :: "int \<Rightarrow> int \<Rightarrow> user list \<Rightarrow> user list" where
  "with_balance_less userId amount us =
     map (\<lambda>u. if u_id u = userId \<and> amount \<le> u_balanceCents u
              then u\<lparr>u_balanceCents := u_balanceCents u - amount\<rparr> else u) us"

definition take_balance :: "int \<Rightarrow> int \<Rightarrow> string list db_action" where
  "take_balance userId amount =
     and_then (int_params [amount, userId]) (\<lambda>_.
     and_then (gets (\<lambda>s. map u_email (filter (\<lambda>u. u_id u = userId \<and> amount \<le> u_balanceCents u) (users s))))
       (\<lambda>emails.
     and_then (modify (\<lambda>s. s\<lparr>users := with_balance_less userId amount (users s)\<rparr>))
       (\<lambda>_. ret emails)))"

definition checkout_body :: "int \<Rightarrow> int \<Rightarrow> int \<Rightarrow> string \<Rightarrow> int \<Rightarrow> int db_action" where
  "checkout_body userId productId quantity uuid now =
     and_then (take_stock productId quantity) (\<lambda>stock_rows.
     and_then (guard (stock_rows \<noteq> []) (InsufficientStockError productId)) (\<lambda>_.
       let priceCents = hd stock_rows; totalCents = priceCents * quantity in
     and_then (take_balance userId totalCents) (\<lambda>balance_rows.
     and_then (guard (balance_rows \<noteq> []) (InsufficientFundsError userId)) (\<lambda>_.
       let customerEmail = hd balance_rows in
     and_then (insert_order (Some userId) customerEmail ''paid'' totalCents CHECKOUT_CURRENCY) (\<lambda>order.
     and_then (insert_order_item (o_id order) productId quantity priceCents) (\<lambda>_.
     and_then (insert_job (o_id order)) (\<lambda>_.
     and_then (enqueueOrderPlaced uuid now
        \<lparr>ev_orderId = o_id order, ev_customerEmail = customerEmail, ev_totalCents = totalCents,
         ev_currency = CHECKOUT_CURRENCY, ev_items = [(productId, quantity)]\<rparr>) (\<lambda>_.
       ret (o_id order)))))))))"

definition checkout :: "int \<Rightarrow> int \<Rightarrow> jsnum \<Rightarrow> string \<Rightarrow> int \<Rightarrow> int db_action" where
  "checkout userId productId quantity uuid now =
     (case int_of_num quantity of
        None \<Rightarrow> throw (PlainError ''quantity must be a positive integer'')
      | Some q \<Rightarrow>
          if q \<le> 0 then throw (PlainError ''quantity must be a positive integer'')
          else transaction (checkout_body userId productId q uuid now))"

subsection \<open>The guarded updates\<close>

lemma int_params_run: "int_params ns s =
    (case find (\<lambda>n. \<not> int4 n) ns of None \<Rightarrow> Inr () | Some n \<Rightarrow> Inl (int_error n), s)"
  by (simp add: int_params_def split: option.splits)

lemma with_stock_less_fields [simp]:
  "map p_id (with_stock_less i q ps) = map p_id ps" "map p_name (with_stock_less i q ps) = map p_name ps"
  "p_id ` set (with_stock_less i q ps) = p_id ` set ps"
proof -
  show a: "map p_id (with_stock_less i q ps) = map p_id ps" "map p_name (with_stock_less i q ps) = map p_name ps"
    by (simp_all add: with_stock_less_def)
  show "p_id ` set (with_stock_less i q ps) = p_id ` set ps" using a(1) by (metis list.set_map)
qed

lemma with_balance_less_fields [simp]:
  "map u_id (with_balance_less i q us) = map u_id us" "map u_email (with_balance_less i q us) = map u_email us"
  "u_id ` set (with_balance_less i q us) = u_id ` set us"
proof -
  show a: "map u_id (with_balance_less i q us) = map u_id us" "map u_email (with_balance_less i q us) = map u_email us"
    by (simp_all add: with_balance_less_def)
  show "u_id ` set (with_balance_less i q us) = u_id ` set us" using a(1) by (metis list.set_map)
qed

lemma keeps_take [keeps_intro]: "keeps db_wf (take_stock i q)" "keeps db_wf (take_balance u a)"
  unfolding take_stock_def take_balance_def int_params_def
  by (intro keeps_intro; simp add: keeps_def db_wf_defs)+

lemma forward_take [forward_intro]: "forward (take_stock i q)" "forward (take_balance u a)"
  unfolding take_stock_def take_balance_def int_params_def
  by (intro forward_intro forward_modify; simp add: seqs_le_def)+

lemma forward_checkout_body [forward_intro]: "forward (checkout_body u i q uuid now)"
  unfolding checkout_body_def Let_def by (intro forward_intro)

lemma keeps_db_wf_checkout_body: "keeps db_wf (checkout_body u i q uuid now)"
  unfolding checkout_body_def Let_def by (intro keeps_intro)

lemma take_stock_ok:
  assumes "take_stock i q s = (Inr rows, s')"
  shows "rows = map p_priceCents (filter (\<lambda>p. p_id p = i \<and> q \<le> p_stock p) (products s))
    \<and> s' = s\<lparr>products := with_stock_less i q (products s)\<rparr> \<and> int4 q \<and> int4 i"
  using assms by (auto simp: take_stock_def int_params_run and_then_ok_iff split: if_splits)

lemma take_balance_ok:
  assumes "take_balance u a s = (Inr rows, s')"
  shows "rows = map u_email (filter (\<lambda>x. u_id x = u \<and> a \<le> u_balanceCents x) (users s))
    \<and> s' = s\<lparr>users := with_balance_less u a (users s)\<rparr>"
  using assms by (auto simp: take_balance_def int_params_run and_then_ok_iff split: if_splits)

subsection \<open>What a checkout did\<close>

definition bought ::
  "int \<Rightarrow> int \<Rightarrow> int \<Rightarrow> string \<Rightarrow> int \<Rightarrow> db \<Rightarrow> int \<Rightarrow> db \<Rightarrow> bool" where
  "bought userId productId q uuid now s orderId s' \<longleftrightarrow>
     (\<exists>p \<in> set (products s). \<exists>u \<in> set (users s). \<exists>r i j.
        p_id p = productId \<and> q \<le> p_stock p \<and> u_id u = userId \<and> p_priceCents p * q \<le> u_balanceCents u
        \<and> orderId = o_id r
        \<and> r = \<lparr>o_id = seq_orders s, o_userId = Some userId, o_customerEmail = u_email u,
               o_status = ''paid'', o_totalCents = p_priceCents p * q, o_currency = CHECKOUT_CURRENCY,
               o_createdAt = clock s\<rparr>
        \<and> i = \<lparr>i_id = seq_items s, i_orderId = o_id r, i_productId = productId, i_quantity = q,
               i_priceAtPurchaseCents = p_priceCents p\<rparr>
        \<and> j = \<lparr>j_id = seq_jobs s, j_orderId = Some (o_id r), j_status = ''new'', j_worker = None,
               j_processed = 0, j_createdAt = clock s\<rparr>
        \<and> s' = s\<lparr>products := with_stock_less productId q (products s),
                users := with_balance_less userId (p_priceCents p * q) (users s),
                orders := orders s @ [r], seq_orders := seq_orders s + 1,
                order_items := order_items s @ [i], seq_items := seq_items s + 1,
                jobs := jobs s @ [j], seq_jobs := seq_jobs s + 1,
                outbox := outbox s @ [outbox_row_of uuid now (clock s) r [i]]\<rparr>)"

lemma hd_filter_map:
  assumes "map f (filter P xs) \<noteq> []"
  obtains x where "x \<in> set xs" "P x" "hd (map f (filter P xs)) = f x"
proof -
  obtain x ys where "filter P xs = x # ys" using assms by (cases "filter P xs") auto
  then have "x \<in> set (filter P xs)" "hd (map f (filter P xs)) = f x" by simp_all
  then show ?thesis by (intro that [of x]) simp_all
qed

lemma checkout_body_ok:
  assumes "checkout_body userId productId q uuid now s = (Inr orderId, s')"
  shows "bought userId productId q uuid now s orderId s'"
proof -
  obtain rows s1 es s2 r s3 i s4 j s5 ev where
      stock: "take_stock productId q s = (Inr rows, s1)" and ne: "rows \<noteq> []"
    and bal: "take_balance userId (hd rows * q) s1 = (Inr es, s2)" and es: "es \<noteq> []"
    and r: "insert_order (Some userId) (hd es) ''paid'' (hd rows * q) CHECKOUT_CURRENCY s2 = (Inr r, s3)"
    and i: "insert_order_item (o_id r) productId q (hd rows) s3 = (Inr i, s4)"
    and j: "insert_job (o_id r) s4 = (Inr j, s5)"
    and ev: "enqueueOrderPlaced uuid now
        \<lparr>ev_orderId = o_id r, ev_customerEmail = hd es, ev_totalCents = hd rows * q,
         ev_currency = CHECKOUT_CURRENCY, ev_items = [(productId, q)]\<rparr> s5 = (Inr ev, s')"
    and oid: "orderId = o_id r"
    using assms unfolding checkout_body_def Let_def
    by (elim and_then_okE guard_okE ret_okE) blast
  have "map p_priceCents (filter (\<lambda>p. p_id p = productId \<and> q \<le> p_stock p) (products s)) \<noteq> []"
    using take_stock_ok [OF stock] ne by simp
  then obtain p where p: "p \<in> set (products s)" "p_id p = productId \<and> q \<le> p_stock p" "hd rows = p_priceCents p"
    by (rule hd_filter_map) (use take_stock_ok [OF stock] that in simp)
  have "map u_email (filter (\<lambda>x. u_id x = userId \<and> hd rows * q \<le> u_balanceCents x) (users s1)) \<noteq> []"
    using take_balance_ok [OF bal] es by simp
  then obtain u where u: "u \<in> set (users s1)" "u_id u = userId \<and> p_priceCents p * q \<le> u_balanceCents u"
      "hd es = u_email u"
    by (rule hd_filter_map) (use take_balance_ok [OF bal] p(3) that in simp)
  note steps = take_stock_ok [OF stock] take_balance_ok [OF bal] insert_order_ok [OF r]
    insert_order_item_ok [OF i] insert_job_ok [OF j]
  have "s' = s5\<lparr>outbox := outbox s5 @ [outbox_row_of uuid now (clock s5) r [i]]\<rparr>"
    using enqueue_ok [OF ev] steps by (auto simp: outbox_row_of_def event_of_def)
  then show ?thesis
    unfolding bought_def using steps [unfolded p(3) u(3)] p u oid
    by (intro bexI [of _ p] bexI [of _ u] exI [of _ r] exI [of _ i] exI [of _ j]) simp_all
qed

subsection \<open>Every branch\<close>

text \<open>When each of the failures happens; otherwise the checkout goes through.\<close>

lemma checkout_no_stock:
  assumes "int4 q" "int4 i" "\<not> (\<exists>p \<in> set (products s). p_id p = i \<and> q \<le> p_stock p)"
  shows "fst (checkout_body u i q uuid now s) = Inl (InsufficientStockError i)"
proof -
  have "filter (\<lambda>p. p_id p = i \<and> q \<le> p_stock p) (products s) = []"
    using assms(3) by (auto simp: filter_empty_conv)
  then have "take_stock i q s = (Inr [], s\<lparr>products := with_stock_less i q (products s)\<rparr>)"
    using assms(1,2) by (simp add: take_stock_def int_params_run and_then_def)
  then show ?thesis by (simp add: checkout_body_def)
qed

lemma filter_product:
  assumes "db_wf s" "p \<in> set (products s)" "q \<le> p_stock p"
  shows "filter (\<lambda>x. p_id x = p_id p \<and> q \<le> p_stock x) (products s) = [p]"
proof -
  have "filter (\<lambda>x. p_id x = p_id p) (products s) = [p]"
    using assms(1,2) by (intro filter_key) (auto simp: db_wf_defs dest: serial_distinct)
  then have "filter (\<lambda>x. q \<le> p_stock x) (filter (\<lambda>x. p_id x = p_id p) (products s)) = [p]"
    using assms(3) by simp
  then show ?thesis by (simp add: conj_commute)
qed

lemma checkout_no_funds:
  assumes "db_wf s" "int4 q" "int4 u" "int4 (p_priceCents p * q)" "p \<in> set (products s)" "q \<le> p_stock p"
    and "\<not> (\<exists>x \<in> set (users s). u_id x = u \<and> p_priceCents p * q \<le> u_balanceCents x)"
  shows "fst (checkout_body u (p_id p) q uuid now s) = Inl (InsufficientFundsError u)"
proof -
  have i: "int4 (p_id p)" using assms(1,5) by (auto simp: db_wf_defs serial_def)
  have "filter (\<lambda>x. u_id x = u \<and> p_priceCents p * q \<le> u_balanceCents x) (users s) = []"
    using assms(7) by (auto simp: filter_empty_conv)
  then have "take_balance u (p_priceCents p * q) (s\<lparr>products := ps\<rparr>)
      = (Inr [], s\<lparr>products := ps, users := with_balance_less u (p_priceCents p * q) (users s)\<rparr>)" for ps
    using assms(3,4) by (simp add: take_balance_def int_params_run and_then_def)
  moreover have "take_stock (p_id p) q s
      = (Inr [p_priceCents p], s\<lparr>products := with_stock_less (p_id p) q (products s)\<rparr>)"
    using assms(2) i filter_product [OF assms(1,5,6)] by (simp add: take_stock_def int_params_run and_then_def)
  ultimately show ?thesis by (simp add: checkout_body_def Let_def)
qed

lemma checkout_goes_through:
  assumes "db_wf s" "int4 q" "p \<in> set (products s)" "q \<le> p_stock p"
    and "x \<in> set (users s)" "int4 (u_id x)" "p_priceCents p * q \<le> u_balanceCents x" "int4 (p_priceCents p * q)"
    and "int4 (p_priceCents p)" "uuid \<notin> ob_id ` set (outbox s)"
    and "seq_orders s \<le> 2147483647" "seq_items s \<le> 2147483647" "seq_jobs s \<le> 2147483647"
  shows "fst (checkout_body (u_id x) (p_id p) q uuid now s) = Inr (seq_orders s)"
proof -
  have i: "int4 (p_id p)" using assms(1,3) by (auto simp: db_wf_defs serial_def)
  let ?c = "p_priceCents p * q"
  have "filter (\<lambda>y. u_id y = u_id x) (users s) = [x]"
    using assms(1,5) by (intro filter_key) (auto simp: db_wf_defs)
  then have "filter (\<lambda>y. ?c \<le> u_balanceCents y) (filter (\<lambda>y. u_id y = u_id x) (users s)) = [x]"
    using assms(7) by simp
  then have fu: "filter (\<lambda>y. u_id y = u_id x \<and> ?c \<le> u_balanceCents y) (users s) = [x]"
    by (simp add: conj_commute)
  let ?s1 = "s\<lparr>products := with_stock_less (p_id p) q (products s)\<rparr>"
  let ?s2 = "?s1\<lparr>users := with_balance_less (u_id x) ?c (users s)\<rparr>"
  have 1: "take_stock (p_id p) q s = (Inr [p_priceCents p], ?s1)"
    using assms(2) i filter_product [OF assms(1,3,4)] by (simp add: take_stock_def int_params_run and_then_def)
  have 2: "take_balance (u_id x) ?c ?s1 = (Inr [u_email x], ?s2)"
    using assms(6,8) fu by (simp add: take_balance_def int_params_run and_then_def)
  have "u_id x \<in> u_id ` set (users s)" "p_id p \<in> p_id ` set (products s)" using assms(3,5) by auto
  then show ?thesis
    using 1 2 assms(2,6,8-13)
    by (simp add: checkout_body_def Let_def insert_order_def insert_order_item_def insert_job_def
        enqueueOrderPlaced_def insert_outbox_def nextval_def)
qed

lemma checkout_run:
  "0 < q \<Longrightarrow> checkout u i (Num (of_int q)) uuid now = transaction (checkout_body u i q uuid now)"
  by (simp add: checkout_def)

text \<open>C3: a checkout does exactly one of three things. Without enough stock, or without enough
  balance, it reports which and changes no table; otherwise it takes the stock and the balance and
  writes the paid order, its item, its job and its outbox row together.\<close>

theorem checkout_correct:
  assumes "db_wf s" and "0 < q" and "int4 q" and "int4 i" and "int4 u" and "u \<in> u_id ` set (users s)"
    and "\<forall>p \<in> set (products s). int4 (p_priceCents p) \<and> int4 (p_priceCents p * q)"
    and "uuid \<notin> ob_id ` set (outbox s)"
    and "seq_orders s \<le> 2147483647" and "seq_items s \<le> 2147483647" and "seq_jobs s \<le> 2147483647"
  shows "let (x, s') = checkout u i (Num (of_int q)) uuid now s in
    (if \<forall>p \<in> set (products s). p_id p = i \<longrightarrow> p_stock p < q
     then x = Inl (InsufficientStockError i) \<and> same_tables s s'
     else if \<forall>p \<in> set (products s). \<forall>y \<in> set (users s). p_id p = i \<longrightarrow> u_id y = u \<longrightarrow>
               u_balanceCents y < p_priceCents p * q
     then x = Inl (InsufficientFundsError u) \<and> same_tables s s'
     else x = Inr (seq_orders s) \<and> bought u i q uuid now s (seq_orders s) s')"
proof -
  obtain x s' where run: "checkout_body u i q uuid now s = (x, s')" by (cases "checkout_body u i q uuid now s")
  have c: "checkout u i (Num (of_int q)) uuid now s = (x, case x of Inl _ \<Rightarrow> rolled_back s s' | Inr _ \<Rightarrow> s')"
    using run by (simp add: checkout_run [OF assms(2)] transaction_def split: sum.splits)
  consider (stock) "\<not> (\<exists>p \<in> set (products s). p_id p = i \<and> q \<le> p_stock p)"
    | (funds) p where "p \<in> set (products s)" "p_id p = i" "q \<le> p_stock p"
        "\<not> (\<exists>y \<in> set (users s). u_id y = u \<and> p_priceCents p * q \<le> u_balanceCents y)"
    | (ok) p y where "p \<in> set (products s)" "p_id p = i" "q \<le> p_stock p"
        "y \<in> set (users s)" "u_id y = u" "p_priceCents p * q \<le> u_balanceCents y"
    by blast
  then show ?thesis
  proof cases
    case stock
    then have "x = Inl (InsufficientStockError i)"
      using checkout_no_stock [OF assms(3,4) stock, of u uuid now] run by simp
    then show ?thesis using stock c by (auto simp: not_less)
  next
    case (funds p)
    have one: "p' = p" if "p' \<in> set (products s)" "p_id p' = i" for p'
      using assms(1) that funds(1,2) by (auto simp: db_wf_defs dest!: serial_distinct intro: key_eq)
    have "x = Inl (InsufficientFundsError u)"
      using checkout_no_funds [OF assms(1,3,5) _ funds(1,3,4), of uuid now] assms(7) funds(1,2) run by simp
    moreover have "\<exists>p \<in> set (products s). p_id p = i \<and> \<not> p_stock p < q" using funds by fastforce
    moreover have "\<forall>p \<in> set (products s). \<forall>y \<in> set (users s). p_id p = i \<longrightarrow> u_id y = u \<longrightarrow>
               u_balanceCents y < p_priceCents p * q"
      using one funds(4) by (metis not_le)
    ultimately show ?thesis using c by auto
  next
    case (ok p y)
    have "x = Inr (seq_orders s)"
      using checkout_goes_through [OF assms(1,3) ok(1,3,4) _ _ _ _ assms(8-11), of now] ok assms(5,7) run
      by simp
    moreover from this have "bought u i q uuid now s (seq_orders s) s'" using checkout_body_ok run by simp
    moreover have "\<exists>p \<in> set (products s). p_id p = i \<and> \<not> p_stock p < q" using ok by fastforce
    moreover have "\<exists>p \<in> set (products s). \<exists>y \<in> set (users s). p_id p = i \<and> u_id y = u \<and>
               \<not> u_balanceCents y < p_priceCents p * q" using ok by fastforce
    ultimately show ?thesis using c by auto
  qed
qed

theorem checkout_correct_witness:
  "fst (checkout 2 2 (Num (of_int 1)) ''row-1'' 0 sample_db) = Inl (InsufficientFundsError 2)"
  using checkout_correct [OF sample_db_wf, of 1 2 2 "''row-1''" 0]
  by (simp add: Let_def case_prod_beta int4_def sample_db_def sample_user_def empty_db_def)

subsection \<open>Nothing is oversold, overdrawn or lost\<close>

definition stock_of :: "db \<Rightarrow> int \<Rightarrow> int" where
  "stock_of s i = (\<Sum>p\<leftarrow>products s. if p_id p = i then p_stock p else 0)"

definition sold :: "db \<Rightarrow> int \<Rightarrow> int" where
  "sold s i = (\<Sum>r\<leftarrow>order_items s. if i_productId r = i then i_quantity r else 0)"

definition balance_of :: "db \<Rightarrow> int \<Rightarrow> int" where
  "balance_of s u = (\<Sum>x\<leftarrow>users s. if u_id x = u then u_balanceCents x else 0)"

definition spent :: "db \<Rightarrow> int \<Rightarrow> int" where
  "spent s u = (\<Sum>r\<leftarrow>orders s. if o_userId r = Some u then o_totalCents r else 0)"

definition solvent :: "db \<Rightarrow> bool" where
  "solvent s \<longleftrightarrow> db_wf s \<and> (\<forall>p \<in> set (products s). 0 \<le> p_stock p) \<and> (\<forall>u \<in> set (users s). 0 \<le> u_balanceCents u)"

record checkout_call =
  cc_user :: int
  cc_product :: int
  cc_quantity :: jsnum
  cc_uuid :: string
  cc_now :: int

definition checkout_final :: "checkout_call \<Rightarrow> db \<Rightarrow> db" where
  "checkout_final c s = snd (checkout (cc_user c) (cc_product c) (cc_quantity c) (cc_uuid c) (cc_now c) s)"

lemma sum_with_stock_less:
  assumes "distinct (map p_id ps)" "p \<in> set ps" "q \<le> p_stock p"
  shows "(\<Sum>x\<leftarrow>with_stock_less (p_id p) q ps. if p_id x = i then p_stock x else 0)
    = (\<Sum>x\<leftarrow>ps. if p_id x = i then p_stock x else 0) - (if p_id p = i then q else 0)"
  using assms
proof (induction ps)
  case (Cons a ps)
  show ?case
  proof (cases "a = p")
    case True
    then have "p_id p \<notin> p_id ` set ps" using Cons.prems(1) by simp
    then have "with_stock_less (p_id p) q ps = ps"
      unfolding with_stock_less_def by (intro map_idI) (metis imageI)
    then show ?thesis using True Cons.prems(3) by (simp add: with_stock_less_def)
  next
    case False
    then have "p_id a \<noteq> p_id p" "p \<in> set ps" using Cons.prems by auto
    then show ?thesis using Cons by (simp add: with_stock_less_def)
  qed
qed simp

lemma sum_with_balance_less:
  assumes "distinct (map u_id us)" "u \<in> set us" "c \<le> u_balanceCents u"
  shows "(\<Sum>x\<leftarrow>with_balance_less (u_id u) c us. if u_id x = i then u_balanceCents x else 0)
    = (\<Sum>x\<leftarrow>us. if u_id x = i then u_balanceCents x else 0) - (if u_id u = i then c else 0)"
  using assms
proof (induction us)
  case (Cons a us)
  show ?case
  proof (cases "a = u")
    case True
    then have "u_id u \<notin> u_id ` set us" using Cons.prems(1) by simp
    then have "with_balance_less (u_id u) c us = us"
      unfolding with_balance_less_def by (intro map_idI) (metis imageI)
    then show ?thesis using True Cons.prems(3) by (simp add: with_balance_less_def)
  next
    case False
    then have "u_id a \<noteq> u_id u" "u \<in> set us" using Cons.prems by auto
    then show ?thesis using Cons by (simp add: with_balance_less_def)
  qed
qed simp

lemma bought_conserves:
  assumes "bought u i q uuid now s oid s'" "solvent s" "db_wf s'"
  shows "solvent s' \<and> stock_of s' j + sold s' j = stock_of s j + sold s j
    \<and> balance_of s' v + spent s' v = balance_of s v + spent s v"
proof -
  obtain p x r it jb where p: "p \<in> set (products s)" "p_id p = i" "q \<le> p_stock p"
    and x: "x \<in> set (users s)" "u_id x = u" "p_priceCents p * q \<le> u_balanceCents x"
    and r: "o_userId r = Some u" "o_totalCents r = p_priceCents p * q"
    and it: "i_productId it = i" "i_quantity it = q"
    and s': "s' = s\<lparr>products := with_stock_less i q (products s),
                users := with_balance_less u (p_priceCents p * q) (users s),
                orders := orders s @ [r], seq_orders := seq_orders s + 1,
                order_items := order_items s @ [it], seq_items := seq_items s + 1,
                jobs := jobs s @ [jb], seq_jobs := seq_jobs s + 1,
                outbox := outbox s @ [outbox_row_of uuid now (clock s) r [it]]\<rparr>"
    using assms(1) unfolding bought_def by force
  have d: "distinct (map p_id (products s))" "distinct (map u_id (users s))"
    using assms(2) by (auto simp: solvent_def db_wf_defs dest: serial_distinct)
  have "stock_of s' j = stock_of s j - (if i = j then q else 0)"
    using sum_with_stock_less [OF d(1) p(1,3), of j] p(2) by (simp add: stock_of_def s')
  moreover have "balance_of s' v = balance_of s v - (if u = v then p_priceCents p * q else 0)"
    using sum_with_balance_less [OF d(2) x(1,3), of v] x(2) by (simp add: balance_of_def s')
  moreover have "sold s' j = sold s j + (if i = j then q else 0)"
    using it by (simp add: sold_def s')
  moreover have "spent s' v = spent s v + (if u = v then p_priceCents p * q else 0)"
    using r by (simp add: spent_def s')
  moreover have "solvent s'"
    using assms(2,3) by (auto simp: solvent_def s' with_stock_less_def with_balance_less_def)
  ultimately show ?thesis by simp
qed

lemma checkout_step:
  assumes "solvent s"
  shows "solvent (checkout_final c s)
    \<and> stock_of (checkout_final c s) j + sold (checkout_final c s) j = stock_of s j + sold s j
    \<and> balance_of (checkout_final c s) v + spent (checkout_final c s) v = balance_of s v + spent s v"
proof (cases "\<exists>q > 0. int_of_num (cc_quantity c) = Some q")
  case False
  then have "checkout_final c s = s"
    by (auto simp: checkout_final_def checkout_def split: option.splits)
  then show ?thesis using assms by simp
next
  case True
  then obtain q where q: "int_of_num (cc_quantity c) = Some q" "0 < q" by blast
  let ?b = "checkout_body (cc_user c) (cc_product c) q (cc_uuid c) (cc_now c)"
  obtain x t where run: "?b s = (x, t)" by (cases "?b s")
  have f: "checkout_final c s = (case x of Inl _ \<Rightarrow> rolled_back s t | Inr _ \<Rightarrow> t)"
    using q run by (simp add: checkout_final_def checkout_def transaction_def split: sum.splits)
  show ?thesis
  proof (cases x)
    case (Inl e)
    have "seqs_le s t" using forward_checkout_body run unfolding forward_def by (metis snd_conv)
    then have "db_wf (rolled_back s t)" using assms db_wf_rolled_back by (simp add: solvent_def)
    then show ?thesis
      using assms f Inl by (simp add: solvent_def stock_of_def sold_def balance_of_def spent_def)
  next
    case (Inr oid)
    have "db_wf t" using keepsD' [OF keeps_db_wf_checkout_body _ run] assms by (simp add: solvent_def)
    then show ?thesis
      using bought_conserves [OF checkout_body_ok _ \<open>db_wf t\<close>] run Inr assms f by simp
  qed
qed

text \<open>C19: whatever checkouts are made, in any order and by anybody, no stock and no balance ever
  becomes negative, every unit that left the stock is in an order item, and every cent that left a
  balance is in the total of an order of that user.\<close>

theorem checkouts_conserve:
  assumes "solvent s" and "s' = fold checkout_final calls s"
  shows "(\<forall>p \<in> set (products s'). 0 \<le> p_stock p) \<and> (\<forall>u \<in> set (users s'). 0 \<le> u_balanceCents u)
    \<and> stock_of s' i + sold s' i = stock_of s i + sold s i
    \<and> balance_of s' u + spent s' u = balance_of s u + spent s u"
proof -
  have "solvent s' \<and> stock_of s' i + sold s' i = stock_of s i + sold s i
    \<and> balance_of s' u + spent s' u = balance_of s u + spent s u"
    unfolding assms(2) using assms(1)
  proof (induction calls arbitrary: s)
    case (Cons c calls)
    then show ?case using checkout_step [OF Cons.prems, of c] by simp
  qed simp
  then show ?thesis by (simp add: solvent_def)
qed

theorem checkouts_conserve_witness:
  "stock_of (fold checkout_final
      [\<lparr>cc_user = 1, cc_product = 1, cc_quantity = Num 3, cc_uuid = ''a'', cc_now = 0\<rparr>,
       \<lparr>cc_user = 1, cc_product = 1, cc_quantity = Num 3, cc_uuid = ''b'', cc_now = 0\<rparr>] sample_db) 1
   + sold (fold checkout_final
      [\<lparr>cc_user = 1, cc_product = 1, cc_quantity = Num 3, cc_uuid = ''a'', cc_now = 0\<rparr>,
       \<lparr>cc_user = 1, cc_product = 1, cc_quantity = Num 3, cc_uuid = ''b'', cc_now = 0\<rparr>] sample_db) 1 = 4"
proof -
  have "solvent sample_db"
    using sample_db_wf by (simp add: solvent_def) (simp add: sample_db_def sample_user_def)
  moreover have "stock_of sample_db 1 + sold sample_db 1 = 4" by code_simp
  ultimately show ?thesis using checkouts_conserve [OF _ refl, of sample_db _ 1 1] by metis
qed

subsection \<open>The outbox\<close>

lemma in_step_bought:
  assumes "bought u i q uuid now s oid s'" "in_step s" "db_wf s'"
  shows "in_step s'"
proof -
  have wf: "db_wf s" using assms(2) by (simp add: in_step_def)
  obtain r it where r: "o_id r = seq_orders s" and it: "i_orderId it = o_id r"
    and t: "orders s' = orders s @ [r]" "order_items s' = order_items s @ [it]"
      "outbox s' = outbox s @ [outbox_row_of uuid now (clock s) r [it]]"
    using assms(1) unfolding bought_def by force
  have fresh: "o_id r \<notin> o_id ` set (orders s)"
    using wf r serial_fresh [of "map o_id (orders s)"] by (simp add: db_wf_defs)
  have "\<forall>y \<in> set (order_items s). i_orderId y \<in> o_id ` set (orders s)" using wf by (simp add: db_wf_defs)
  then have "filter (\<lambda>y. i_orderId y = o_id r) (order_items s) = []"
    using fresh unfolding filter_empty_conv by metis
  then have "order_event s' r = event_of r [it]" using t(2) it by (simp add: order_event_def)
  moreover have "order_event s' y = order_event s y" if "y \<in> set (orders s)" for y
  proof -
    have "o_id y \<noteq> o_id r" using fresh that by (metis imageI)
    then show ?thesis using t(2) it by (simp add: order_event_def)
  qed
  then have "map (order_event s') (orders s) = map (order_event s) (orders s)" by simp
  ultimately show ?thesis
    using assms(2,3) t by (simp add: in_step_def outbox_row_of_def)
      (simp add: buildOrderPlacedEvent_def event_of_def)
qed

lemma keeps_in_step_checkout: "keeps in_step (checkout u i q uuid now)"
proof (cases "\<exists>n > 0. int_of_num q = Some n")
  case False
  then show ?thesis by (auto simp: checkout_def split: option.splits intro: keeps_intro)
next
  case True
  then obtain n where n: "int_of_num q = Some n" "0 < n" by blast
  have "keeps in_step (transaction (checkout_body u i n uuid now))"
  proof (rule keeps_transaction_ok)
    fix s a s'
    assume s: "in_step s" and run: "checkout_body u i n uuid now s = (Inr a, s')"
    have "db_wf s'" using keepsD' [OF keeps_db_wf_checkout_body _ run] s by (simp add: in_step_def)
    then show "in_step s'" using in_step_bought checkout_body_ok [OF run] s by blast
  next
    fix s t assume i: "in_step s" and le: "seqs_le s t"
    have "db_wf (rolled_back s t)" using i le db_wf_rolled_back by (simp add: in_step_def)
    then show "in_step (rolled_back s t)" using in_step_same [OF i] by simp
  qed (rule forward_checkout_body)
  then show ?thesis using n by (simp add: checkout_def)
qed

end
