(* ===== verification/EndToEnd.thy ===== *)
theory EndToEnd
  imports Http Publisher Checkout
begin

text \<open>
  The whole way of an order: requests and checkouts write orders and outbox rows, couriers carry the rows to
  the broker, the broker delivers what it accepted as often as it likes, and the consumer records the effects.
  All of them work on the same tables, one atomic step at a time (theory \<open>Couriers\<close> takes the courier's step
  apart). What the broker answers to a publication is the sink of theory \<open>Relay\<close>.
\<close>

subsection \<open>The plant\<close>

record 'b plant =
  pl_world :: http_world
  pl_broker :: 'b
  pl_acked :: "string list"

abbreviation plant_db :: "'b plant \<Rightarrow> db" where
  "plant_db p \<equiv> world_db (pl_world p)"

definition set_db :: "db \<Rightarrow> http_world \<Rightarrow> http_world" where
  "set_db s w = w\<lparr>hw_market := hw_market w\<lparr>mk_shop := mk_shop (hw_market w)\<lparr>sh_db := s\<rparr>\<rparr>\<rparr>"

lemma world_db_set_db [simp]: "world_db (set_db s w) = s"
  by (simp add: set_db_def)

definition at_courier :: "'b plant \<Rightarrow> 'b relay_world" where
  "at_courier p = \<lparr>rw_db = plant_db p, rw_broker = pl_broker p\<rparr>"

inductive plant_step ::
  "('k, 'p) server \<Rightarrow> 'b sink \<Rightarrow> ('b \<Rightarrow> order_placed_event list) \<Rightarrow> relay_options \<Rightarrow> 'b plant \<Rightarrow> 'b plant \<Rightarrow> bool"
  for sv sink seen options
where
  request: "plant_step sv sink seen options p (p\<lparr>pl_world := snd (respond sv rq (pl_world p))\<rparr>)"
| buy: "plant_step sv sink seen options p
    (p\<lparr>pl_world := set_db (snd (checkout u i q uuid now (plant_db p))) (pl_world p)\<rparr>)"
| courier: "relayOnce sink options {} hook (at_courier p) = (res, w') \<Longrightarrow>
    plant_step sv sink seen options p (p\<lparr>pl_world := set_db (rw_db w') (pl_world p), pl_broker := rw_broker w'\<rparr>)"
| deliver: "ev \<in> set (seen (pl_broker p)) \<Longrightarrow> dl_content msg = event_content ev \<Longrightarrow>
    handleMessage hooks opened fate msg (plant_db p) = ((outc, cmds), s') \<Longrightarrow>
    plant_step sv sink seen options p (p\<lparr>pl_world := set_db s' (pl_world p),
      pl_acked := pl_acked p @ (if Ack \<in> set cmds then [eventId ev] else [])\<rparr>)"
| tick: "plant_step sv sink seen options p (p\<lparr>pl_world := set_db ((plant_db p)\<lparr>clock := t\<rparr>) (pl_world p)\<rparr>)"

inductive plant_run ::
  "('k, 'p) server \<Rightarrow> 'b sink \<Rightarrow> ('b \<Rightarrow> order_placed_event list) \<Rightarrow> relay_options \<Rightarrow> 'b plant \<Rightarrow> 'b plant \<Rightarrow> bool"
  for sv sink seen options p0
where
  start: "plant_run sv sink seen options p0 p0"
| more: "plant_run sv sink seen options p0 p \<Longrightarrow> plant_step sv sink seen options p p' \<Longrightarrow>
    plant_run sv sink seen options p0 p'"

subsection \<open>What writes orders adds unpublished events\<close>

definition built :: "order_placed_event \<Rightarrow> bool" where
  "built ev \<longleftrightarrow> (\<exists>d now. ev = buildOrderPlacedEvent d now)"

definition grown :: "db \<Rightarrow> db \<Rightarrow> bool" where
  "grown s0 s \<longleftrightarrow> processed_messages s = processed_messages s0 \<and> processed_order_events s = processed_order_events s0
     \<and> o_id ` set (orders s0) \<subseteq> o_id ` set (orders s)
     \<and> (\<exists>new. outbox s = outbox s0 @ new \<and> (\<forall>ob \<in> set new. ob_published_at ob = None \<and> built (ob_payload ob)))"

lemma grownI:
  "processed_messages s' = processed_messages s \<Longrightarrow> processed_order_events s' = processed_order_events s \<Longrightarrow>
   o_id ` set (orders s) \<subseteq> o_id ` set (orders s') \<Longrightarrow> outbox s' = outbox s \<Longrightarrow> grown s s'"
  by (simp add: grown_def)

lemma grown_trans: "grown s0 s \<Longrightarrow> grown s s' \<Longrightarrow> grown s0 s'"
proof -
  assume "grown s0 s" "grown s s'"
  then obtain xs ys where "outbox s' = outbox s0 @ (xs @ ys)"
    "\<forall>ob \<in> set (xs @ ys). ob_published_at ob = None \<and> built (ob_payload ob)"
    unfolding grown_def by (metis append.assoc Un_iff set_append)
  then show ?thesis using \<open>grown s0 s\<close> \<open>grown s s'\<close> unfolding grown_def by (metis subset_trans)
qed

lemma keeps_grownI: "(\<And>s. grown s (snd (m s))) \<Longrightarrow> keeps (grown s0) m"
  by (rule keepsI) (rule grown_trans)

lemma grown_rolled_back: "grown s (rolled_back s t)"
  by (rule grownI) simp_all

lemma grown_transaction:
  assumes "\<And>a s s'. m s = (Inr a, s') \<Longrightarrow> grown s s'"
  shows "keeps (grown s0) (transaction m)"
proof (rule keeps_grownI)
  fix s
  obtain r s' where run: "m s = (r, s')" by (cases "m s")
  show "grown s (snd (transaction m s))"
    using assms [of s _ s'] run grown_rolled_back by (cases r) (simp_all add: transaction_def)
qed

lemma grown_one: 
  assumes "processed_messages s' = processed_messages s" "processed_order_events s' = processed_order_events s"
    and "orders s' = orders s @ [r]" "outbox s' = outbox s @ [outbox_row_of uuid now t r' is]"
  shows "grown s s'"
  using assms by (auto simp: grown_def outbox_row_of_def built_def)

lemma keeps_grown_claim: "keeps (grown s0) (transaction (claim_or_create uuid now dto key h userId))"
proof (rule grown_transaction)
  fix a s s' assume run: "claim_or_create uuid now dto key h userId s = (Inr a, s')"
  show "grown s s'"
  proof (cases a)
    case (Replay row)
    then have "s' = s" using claim_or_create_replay run by blast
    then show ?thesis by (simp add: grownI)
  next
    case (Created e)
    then show ?thesis
      using claim_or_create_created [of uuid now dto key h userId s e s'] run
      by (auto simp: placed_def Let_def intro!: grown_one)
  qed
qed

lemma keeps_grown_checkout: "keeps (grown s0) (checkout u i q uuid now)"
proof (cases "\<exists>n > 0. int_of_num q = Some n")
  case False
  then show ?thesis by (auto simp: checkout_def split: option.splits intro: keeps_intro)
next
  case True
  then obtain n where n: "int_of_num q = Some n" "0 < n" by blast
  have "keeps (grown s0) (transaction (checkout_body u i n uuid now))"
    by (rule grown_transaction, drule checkout_body_ok) (auto simp: bought_def intro!: grown_one)
  then show ?thesis using n by (simp add: checkout_def)
qed

interpretation only_grows: table_invariant "grown s0" for s0
proof (unfold_locales, goal_cases)
  case (2 st n)
  have "o_id ` set (with_status n st rs) = o_id ` set rs" for rs
    using with_status_ids by (metis set_map)
  then show ?case by (intro keeps_grownI grownI) (simp_all add: set_order_status_run)
next
  case (3 dto')
  show ?case
  proof (rule keeps_grownI)
    fix s
    obtain r s' where run: "products_create dto' s = (r, s')" by (cases "products_create dto' s")
    then show "grown s (snd (products_create dto' s))"
      unfolding products_create_cases
      by (auto split: prod.splits sum.splits dest: insert_product_ok transaction_error intro!: grownI)
  qed
next
  case (4 s ts)
  then show ?case using grown_trans [OF 4 grownI] by simp
qed (rule keeps_grown_claim)

subsection \<open>The invariant of the plant\<close>

definition genuine :: "db \<Rightarrow> order_placed_event \<Rightarrow> bool" where
  "genuine s ev \<longleftrightarrow> (\<exists>d now. ev = buildOrderPlacedEvent d now \<and> ev_orderId d \<in> o_id ` set (orders s))"

definition effects_ok :: "db \<Rightarrow> bool" where
  "effects_ok s \<longleftrightarrow> journal_ok s
     \<and> (\<forall>(i, n) \<in> set (processed_order_events s). i = orderPlacedEventId n \<and> n \<in> o_id ` set (orders s))"

definition plant_inv :: "('b \<Rightarrow> order_placed_event list) \<Rightarrow> 'b plant \<Rightarrow> bool" where
  "plant_inv seen p \<longleftrightarrow> in_step (plant_db p) \<and> published_seen seen (at_courier p)
     \<and> (\<forall>ob \<in> set (outbox (plant_db p)). genuine (plant_db p) (ob_payload ob))
     \<and> (\<forall>ev \<in> set (seen (pl_broker p)). genuine (plant_db p) ev)
     \<and> effects_ok (plant_db p) \<and> set (pl_acked p) \<subseteq> fst ` set (processed_order_events (plant_db p))"

lemma plant_invD:
  assumes "plant_inv seen p"
  shows "in_step (plant_db p)" "published_seen seen (at_courier p)"
    "ob \<in> set (outbox (plant_db p)) \<Longrightarrow> genuine (plant_db p) (ob_payload ob)"
    "ev \<in> set (seen (pl_broker p)) \<Longrightarrow> genuine (plant_db p) ev"
    "effects_ok (plant_db p)" "set (pl_acked p) \<subseteq> fst ` set (processed_order_events (plant_db p))"
  using assms unfolding plant_inv_def by blast+

lemma genuine_more: "genuine s ev \<Longrightarrow> o_id ` set (orders s) \<subseteq> o_id ` set (orders s') \<Longrightarrow> genuine s' ev"
  unfolding genuine_def by blast

lemma built_genuine:
  assumes "in_step s" "ob \<in> set (outbox s)" "built (ob_payload ob)"
  shows "genuine s (ob_payload ob)"
proof -
  have "ev_data (ob_payload ob) \<in> set (map (\<lambda>ob. ev_data (ob_payload ob)) (outbox s))" using assms(2) by simp
  also have "\<dots> = set (map (order_event s) (orders s))" using assms(1) by (simp add: in_step_def)
  finally obtain r where "r \<in> set (orders s)" "ev_data (ob_payload ob) = order_event s r" by auto
  then have "ev_orderId (ev_data (ob_payload ob)) \<in> o_id ` set (orders s)"
    by (simp add: order_event_def event_of_def)
  then show ?thesis using assms(3) unfolding built_def genuine_def by (metis buildOrderPlacedEvent_data)
qed

text \<open>A step that only writes orders.\<close>

lemma plant_inv_written:
  assumes inv: "plant_inv seen p" and "in_step s'" and grown: "grown (plant_db p) s'"
    and "plant_db p' = s'" "pl_broker p' = pl_broker p" "pl_acked p' = pl_acked p"
  shows "plant_inv seen p'"
proof -
  note i = plant_invD [OF inv]
  from grown obtain new where new: "outbox s' = outbox (plant_db p) @ new"
      "\<forall>ob \<in> set new. ob_published_at ob = None \<and> built (ob_payload ob)"
    and same: "processed_messages s' = processed_messages (plant_db p)"
      "processed_order_events s' = processed_order_events (plant_db p)"
    and ids: "o_id ` set (orders (plant_db p)) \<subseteq> o_id ` set (orders s')"
    unfolding grown_def by blast
  have "genuine s' (ob_payload ob)" if "ob \<in> set (outbox s')" for ob
    using that new i(3) genuine_more [OF _ ids] built_genuine [OF assms(2) that] by auto
  moreover have "published_seen seen (at_courier p')"
    using i(2) new assms(4,5) by (auto simp: published_seen_def at_courier_def)
  moreover have "effects_ok s'" using i(5) same ids by (fastforce simp: effects_ok_def journal_ok_def)
  ultimately show ?thesis
    using assms(2,4-6) i(4,6) genuine_more [OF _ ids] same by (simp add: plant_inv_def)
qed

text \<open>A courier's pass touches nothing of an outbox row but its marks, and publishes only rows of the outbox.\<close>

lemma courier_pass:
  assumes "confirms sink seen" "distinct (map ob_id (outbox (rw_db w)))" "relayOnce sink options taken hook w = (res, w')"
  obtains f where "rw_db w' = (rw_db w)\<lparr>outbox := map f (outbox (rw_db w))\<rparr>"
    "\<And>r. ob_payload (f r) = ob_payload r" "\<And>r. ob_id (f r) = ob_id r"
    "set (seen (rw_broker w')) \<subseteq> set (seen (rw_broker w)) \<union> ob_payload ` set (outbox (rw_db w))"
proof (cases hook)
  case False
  let ?rows = "rows_of options taken (rw_db w)"
  obtain sent stopped b where s: "send_rows sink ?rows (rw_broker w) = (sent, stopped, b)"
    by (cases "send_rows sink ?rows (rw_broker w)")
  have b: "rw_broker w' = b" using assms(3) False s by (auto simp: relayOnce_def rows_of_def Let_def)
  have "set (seen b) \<subseteq> set (seen (rw_broker w)) \<union> ob_payload ` set ?rows"
    using send_rows_log [OF assms(1) s] by (auto split: option.splits dest!: in_set_takeD)
  then have "set (seen b) \<subseteq> set (seen (rw_broker w)) \<union> ob_payload ` set (outbox (rw_db w))"
    using rows_of_in by fastforce
  moreover have "rw_db w' = rw_db w" using relayOnce_abandoned assms(3) False by (cases hook) auto
  ultimately show ?thesis using b by (intro that [of id]) simp_all
next
  case True
  have "relayOnce sink options taken True w = (res, w')" using assms(3) True by simp
  then obtain pass where "relayOnce sink options taken True w = (Inr pass, w')"
    using relayOnce_result by blast
  from relayOnce_run [OF assms(1,2) this] obtain k where
    "rw_db w' = (rw_db w)\<lparr>outbox := map (after_pass (clock (rw_db w)) (rows_of options taken (rw_db w)) k) (outbox (rw_db w))\<rparr>"
    and log: "\<exists>j. seen (rw_broker w') = seen (rw_broker w) @ map ob_payload (take j (rows_of options taken (rw_db w)))"
    unfolding Let_def by blast
  moreover have "set (seen (rw_broker w')) \<subseteq> set (seen (rw_broker w)) \<union> ob_payload ` set (outbox (rw_db w))"
    using log rows_of_in by (fastforce dest!: in_set_takeD)
  ultimately show ?thesis
    by (intro that [of "after_pass (clock (rw_db w)) (rows_of options taken (rw_db w)) k"]) simp_all
qed

lemma in_step_marks:
  assumes "in_step s" "\<And>r. ob_payload (f r) = ob_payload r" "\<And>r. ob_id (f r) = ob_id r"
  shows "in_step (s\<lparr>outbox := map f (outbox s)\<rparr>)"
  using assms by (simp add: in_step_def db_wf_defs order_event_def comp_def)

lemma plant_inv_courier:
  assumes inv: "plant_inv seen p" and sink: "confirms sink seen"
    and run: "relayOnce sink options {} hook (at_courier p) = (res, w')"
  shows "plant_inv seen (p\<lparr>pl_world := set_db (rw_db w') (pl_world p), pl_broker := rw_broker w'\<rparr>)"
proof -
  note i = plant_invD [OF inv]
  have d: "distinct (map ob_id (outbox (rw_db (at_courier p))))"
    using i(1) by (simp add: at_courier_def in_step_def db_wf_defs)
  obtain f where f: "rw_db w' = (plant_db p)\<lparr>outbox := map f (outbox (plant_db p))\<rparr>"
    "\<And>r. ob_payload (f r) = ob_payload r" "\<And>r. ob_id (f r) = ob_id r"
    "set (seen (rw_broker w')) \<subseteq> set (seen (pl_broker p)) \<union> ob_payload ` set (outbox (plant_db p))"
    using courier_pass [OF sink d run] by (auto simp: at_courier_def)
  have g: "genuine (rw_db w') ev \<longleftrightarrow> genuine (plant_db p) ev" for ev by (simp add: genuine_def f(1))
  have "genuine (plant_db p) ev" if "ev \<in> set (seen (rw_broker w'))" for ev using that f(4) i(3,4) by blast
  moreover have "published_seen seen w'" using published_seen_pass [OF i(2) d sink run] by blast
  moreover have "in_step (rw_db w')" unfolding f(1) by (rule in_step_marks [OF i(1) f(2,3)])
  moreover have "effects_ok (rw_db w')" using i(5) by (simp add: effects_ok_def journal_ok_def f(1))
  moreover have "genuine (plant_db p) (ob_payload ob)" if "ob \<in> set (outbox (rw_db w'))" for ob
    using that i(3) f(2) by (auto simp: f(1))
  moreover have "at_courier (p\<lparr>pl_world := set_db (rw_db w') (pl_world p), pl_broker := rw_broker w'\<rparr>) = w'"
    by (simp add: at_courier_def)
  moreover have "processed_order_events (rw_db w') = processed_order_events (plant_db p)" by (simp add: f(1))
  ultimately show ?thesis using i(6) unfolding plant_inv_def by (simp add: g)
qed

text \<open>A delivery of an event that is genuine.\<close>

lemma genuine_parse:
  assumes "genuine s ev" "dl_content msg = event_content ev"
  obtains body n where "n \<in> o_id ` set (orders s)" "eventId ev = orderPlacedEventId n"
    "parseOrderPlaced (dl_content msg) = Some \<lparr>re_eventId = orderPlacedEventId n, re_orderId = n, re_body = body\<rparr>"
proof -
  obtain d now where ev: "ev = buildOrderPlacedEvent d now" "ev_orderId d \<in> o_id ` set (orders s)"
    using assms(1) unfolding genuine_def by blast
  show ?thesis
  proof (rule that [OF ev(2)])
    show "eventId ev = orderPlacedEventId (ev_orderId d)" by (simp add: ev(1) buildOrderPlacedEvent_def)
    show "parseOrderPlaced (dl_content msg)
        = Some \<lparr>re_eventId = orderPlacedEventId (ev_orderId d), re_orderId = ev_orderId d, re_body = event_json ev\<rparr>"
      using content_parses [OF ev(1)] by (simp add: assms(2) orderPlacedEventId_def)
  qed
qed

lemma plant_inv_deliver:
  assumes inv: "plant_inv seen p" and ev: "ev \<in> set (seen (pl_broker p))" "dl_content msg = event_content ev"
    and run: "handleMessage hooks opened fate msg (plant_db p) = ((outc, cmds), s')"
  shows "plant_inv seen (p\<lparr>pl_world := set_db s' (pl_world p),
      pl_acked := pl_acked p @ (if Ack \<in> set cmds then [eventId ev] else [])\<rparr>)"
proof -
  note i = plant_invD [OF inv]
  let ?s = "plant_db p"
  obtain body n where n: "n \<in> o_id ` set (orders ?s)" "eventId ev = orderPlacedEventId n"
    "parseOrderPlaced (dl_content msg) = Some \<lparr>re_eventId = orderPlacedEventId n, re_orderId = n, re_body = body\<rparr>"
    using genuine_parse [OF i(4) [OF ev(1)] ev(2)] .
  let ?ev = "\<lparr>re_eventId = orderPlacedEventId n, re_orderId = n, re_body = body\<rparr>"
  have j: "journal_ok ?s" using i(5) by (simp add: effects_ok_def)
  have s': "s' = applied_to ?ev ?s \<or> s' = ?s"
    using handle_final [of hooks opened fate msg ?s] run n(3) apply_run(2) [of fate ?ev ?s] by (auto split: if_splits)
  then have same: "orders s' = orders ?s" "outbox s' = outbox ?s" "order_items s' = order_items ?s"
    "db_wf s' = db_wf ?s" "set (processed_order_events ?s) \<subseteq> set (processed_order_events s')"
    "set (processed_order_events s') \<subseteq> insert (orderPlacedEventId n, n) (set (processed_order_events ?s))"
    by (auto simp: applied_to_def db_wf_defs split: if_splits)
  have "effects_ok s'"
    using i(5) journal_ok_handle [OF j, of hooks opened fate msg] run same(1,6) n(1)
    by (auto simp: effects_ok_def)
  moreover have "eventId ev \<in> fst ` set (processed_order_events s')" if "Ack \<in> set cmds"
    using settled_right [OF j run] that n(2,3) by auto
  moreover have "in_step s'" using in_step_same [OF i(1) _ same(1,3,2)] same(4) i(1) by (simp add: in_step_def)
  moreover have "genuine s' e = genuine ?s e" for e by (simp add: genuine_def same(1))
  moreover have "published_seen seen (at_courier (p\<lparr>pl_world := set_db s' (pl_world p), pl_acked := a\<rparr>))" for a
    using i(2) by (simp add: published_seen_def at_courier_def same(2))
  moreover have "fst ` set (processed_order_events ?s) \<subseteq> fst ` set (processed_order_events s')" using same(5) by blast
  ultimately show ?thesis using i(3,4,6) same(2) by (auto simp: plant_inv_def)
qed

lemma plant_inv_step:
  assumes "plant_step sv sink seen options p p'" "confirms sink seen" "plant_inv seen p"
  shows "plant_inv seen p'"
  using assms(1)
proof (cases rule: plant_step.cases)
  case (request rq)
  have "grown (plant_db p) (plant_db p)" by (rule grownI) simp_all
  then have "grown (plant_db p) (world_db (snd (respond sv rq (pl_world p))))" by (rule only_grows.api)
  then show ?thesis
    using one_event_per_order.api [of "pl_world p" sv rq] plant_invD(1) [OF assms(3)] request
    by (intro plant_inv_written [OF assms(3)]) simp_all
next
  case (buy u i q uuid now)
  have "grown (plant_db p) (plant_db p)" by (rule grownI) simp_all
  then have "grown (plant_db p) (snd (checkout u i q uuid now (plant_db p)))"
    by (rule keepsD [OF keeps_grown_checkout])
  then show ?thesis
    using keepsD [OF keeps_in_step_checkout plant_invD(1) [OF assms(3)]] buy
    by (intro plant_inv_written [OF assms(3)]) simp_all
next
  case (courier hook res w')
  then show ?thesis using plant_inv_courier [OF assms(3,2)] by simp
next
  case (deliver ev msg hooks opened fate outc cmds s')
  then show ?thesis using plant_inv_deliver [OF assms(3)] by simp
next
  case (tick t)
  let ?s = "(plant_db p)\<lparr>clock := t\<rparr>"
  have "in_step ?s" using plant_invD(1) [OF assms(3)] by (simp add: in_step_def db_wf_defs order_event_def)
  then show ?thesis using tick by (intro plant_inv_written [OF assms(3)]) (simp_all add: grown_def)
qed

lemma plant_inv_run:
  "plant_run sv sink seen options p0 p \<Longrightarrow> confirms sink seen \<Longrightarrow> plant_inv seen p0 \<Longrightarrow> plant_inv seen p"
  by (induction rule: plant_run.induct) (auto intro: plant_inv_step)

definition plant_start :: "('b \<Rightarrow> order_placed_event list) \<Rightarrow> 'b plant \<Rightarrow> bool" where
  "plant_start seen p \<longleftrightarrow> in_step (plant_db p) \<and> outbox (plant_db p) = [] \<and> processed_messages (plant_db p) = []
     \<and> processed_order_events (plant_db p) = [] \<and> seen (pl_broker p) = [] \<and> pl_acked p = []"

lemma plant_start_inv: "plant_start seen p \<Longrightarrow> plant_inv seen p"
  by (simp add: plant_start_def plant_inv_def published_seen_def at_courier_def effects_ok_def journal_ok_def)

text \<open>Once everything was published and acknowledged, the effects are the orders.\<close>

lemma take_effect_once:
  assumes "confirms sink seen" "plant_start seen p0" "plant_run sv sink seen options p0 p"
  shows "distinct (map snd (processed_order_events (plant_db p)))
    \<and> set (map snd (processed_order_events (plant_db p))) \<subseteq> o_id ` set (orders (plant_db p))
    \<and> ((\<forall>ob \<in> set (outbox (plant_db p)). ob_published_at ob \<noteq> None)
        \<and> (\<forall>ev \<in> set (seen (pl_broker p)). eventId ev \<in> set (pl_acked p))
      \<longrightarrow> mset (map snd (processed_order_events (plant_db p))) = mset (map o_id (orders (plant_db p))))"
proof -
  let ?s = "plant_db p"
  let ?effects = "processed_order_events ?s"
  note i = plant_invD [OF plant_inv_run [OF assms(3,1) plant_start_inv [OF assms(2)]]]
  have ids: "\<And>i n. (i, n) \<in> set ?effects \<Longrightarrow> i = orderPlacedEventId n \<and> n \<in> o_id ` set (orders ?s)"
    and "distinct (map fst ?effects)"
    using i(5) by (auto simp: effects_ok_def journal_ok_def)
  moreover have "map fst ?effects = map orderPlacedEventId (map snd ?effects)" using ids by auto
  ultimately have d: "distinct (map snd ?effects)" by (metis distinct_map)
  have sub: "set (map snd ?effects) \<subseteq> o_id ` set (orders ?s)" using ids by auto
  have "o_id r \<in> set (map snd ?effects)" if r: "r \<in> set (orders ?s)"
    and all: "\<forall>ob \<in> set (outbox ?s). ob_published_at ob \<noteq> None" "\<forall>ev \<in> set (seen (pl_broker p)). eventId ev \<in> set (pl_acked p)" for r
  proof -
    obtain ob where "filter (\<lambda>ob. eventId (ob_payload ob) = orderPlacedEventId (o_id r)) (outbox ?s) = [ob]"
      using in_step_event [OF i(1) r] by blast
    then have "ob \<in> set (filter (\<lambda>ob. eventId (ob_payload ob) = orderPlacedEventId (o_id r)) (outbox ?s))" by simp
    then have ob: "ob \<in> set (outbox ?s)" "eventId (ob_payload ob) = orderPlacedEventId (o_id r)" by simp_all
    then have "ob_payload ob \<in> set (seen (pl_broker p))"
      using i(2) all(1) by (auto simp: published_seen_def at_courier_def)
    then have "orderPlacedEventId (o_id r) \<in> fst ` set ?effects" using all(2) ob(2) i(6) by fastforce
    then obtain n where "(orderPlacedEventId (o_id r), n) \<in> set ?effects" by auto
    moreover from ids [OF this] have "n = o_id r" by (simp add: orderPlacedEventId_def show_int_inj)
    ultimately show ?thesis by force
  qed
  moreover have "distinct (map o_id (orders ?s))" using order_ids_distinct i(1) by (simp add: in_step_def)
  ultimately have "mset (map snd ?effects) = mset (map o_id (orders ?s))"
    if "\<forall>ob \<in> set (outbox ?s). ob_published_at ob \<noteq> None" "\<forall>ev \<in> set (seen (pl_broker p)). eventId ev \<in> set (pl_acked p)"
    using that d sub set_eq_iff_mset_eq_distinct [OF d, of "map o_id (orders ?s)"] by fastforce
  then show ?thesis using d sub by blast
qed

text \<open>C8: every order takes effect exactly once, from the request to the consumer. However requests, checkouts,
  couriers (whose publications may fail, be lost or be confirmed late), deliveries (of anything the broker
  accepted, in any order, repeated, failing, with lost commits) and the clock interleave: no order has two
  effects and no effect lacks its order; and when the couriers have published every row and every event
  the broker accepted has been acknowledged once, the effects are exactly the orders.\<close>

theorem orders_take_effect_once:
  assumes "confirms sink seen" "plant_start seen p0" "plant_run sv sink seen options p0 p"
  shows "distinct (map snd (processed_order_events (plant_db p)))
    \<and> set (map snd (processed_order_events (plant_db p))) \<subseteq> o_id ` set (orders (plant_db p))
    \<and> ((\<forall>ob \<in> set (outbox (plant_db p)). ob_published_at ob \<noteq> None)
        \<and> (\<forall>ev \<in> set (seen (pl_broker p)). eventId ev \<in> set (pl_acked p))
      \<longrightarrow> mset (map snd (processed_order_events (plant_db p))) = mset (map o_id (orders (plant_db p))))"
  by (rule take_effect_once [OF assms])

subsection \<open>Nothing gets stuck\<close>

lemma plant_run_trans:
  "plant_run sv sink seen options q r \<Longrightarrow> plant_run sv sink seen options p q \<Longrightarrow> plant_run sv sink seen options p r"
  by (induction rule: plant_run.induct) (auto intro: more)

lemma reliable_confirms: "reliable sink seen \<Longrightarrow> confirms sink seen"
  by (simp add: reliable_def confirms_def)

lemma relayOnce_frame:
  "relayOnce sink options taken hook w = (res, w') \<Longrightarrow> \<exists>rows. rw_db w' = (rw_db w)\<lparr>outbox := rows\<rparr>"
proof -
  assume run: "relayOnce sink options taken hook w = (res, w')"
  show ?thesis
  proof (cases hook)
    case True
    then show ?thesis using run unfolding relayOnce_def by (auto simp: Let_def split: prod.splits)
  next
    case False
    then have "rw_db w' = (rw_db w)\<lparr>outbox := outbox (rw_db w)\<rparr>" using relayOnce_abandoned run by (cases hook) auto
    then show ?thesis by blast
  qed
qed

text \<open>The couriers' loop is a run of the plant that changes nothing but the outbox and the broker.\<close>

lemma courier_run:
  "\<exists>p' rows. plant_run sv sink seen options p p' \<and> at_courier p' = snd (relayLoop sink options hooks (at_courier p))
    \<and> plant_db p' = (plant_db p)\<lparr>outbox := rows\<rparr> \<and> pl_acked p' = pl_acked p"
proof (induction hooks arbitrary: p)
  case Nil
  have "plant_db p = (plant_db p)\<lparr>outbox := outbox (plant_db p)\<rparr>" by simp
  then show ?case by (metis start relayLoop.simps(1) snd_conv)
next
  case (Cons hook hooks)
  obtain res w1 where one: "relayOnce sink options {} hook (at_courier p) = (res, w1)" by fastforce
  let ?p = "p\<lparr>pl_world := set_db (rw_db w1) (pl_world p), pl_broker := rw_broker w1\<rparr>"
  have step: "plant_run sv sink seen options p ?p" using more [OF start courier [OF one]] .
  have here: "at_courier ?p = w1" by (simp add: at_courier_def)
  obtain rows where rows: "rw_db w1 = (plant_db p)\<lparr>outbox := rows\<rparr>"
    using relayOnce_frame [OF one] by (auto simp: at_courier_def)
  obtain p' rows' where p': "plant_run sv sink seen options ?p p'"
    "at_courier p' = snd (relayLoop sink options hooks (at_courier ?p))"
    "plant_db p' = (plant_db ?p)\<lparr>outbox := rows'\<rparr>" "pl_acked p' = pl_acked ?p"
    using Cons.IH by blast
  have "at_courier p' = snd (relayLoop sink options (hook # hooks) (at_courier p))"
    unfolding relayLoop_Cons [OF one] using p'(2) here by simp
  moreover have "plant_db p' = (plant_db p)\<lparr>outbox := rows'\<rparr>" using p'(3) rows by simp
  ultimately show ?case using plant_run_trans [OF p'(1) step] p'(4) by auto
qed

text \<open>A delivery that nothing disturbs is acknowledged.\<close>

lemma deliver_acks:
  assumes inv: "plant_inv seen p" and ev: "ev \<in> set (seen (pl_broker p))"
    and small: "\<forall>r \<in> set (orders (plant_db p)). int4 (o_id r)"
  shows "\<exists>p'. plant_step sv sink seen options p p' \<and> orders (plant_db p') = orders (plant_db p)
    \<and> outbox (plant_db p') = outbox (plant_db p) \<and> pl_broker p' = pl_broker p \<and> pl_acked p' = pl_acked p @ [eventId ev]"
proof -
  let ?msg = "\<lparr>dl_content = event_content ev, dl_redelivered = False, dl_count = None\<rparr>"
  obtain body n where n: "n \<in> o_id ` set (orders (plant_db p))"
    "parseOrderPlaced (event_content ev) = Some \<lparr>re_eventId = orderPlacedEventId n, re_orderId = n, re_body = body\<rparr>"
      (is "_ = Some ?ev")
    using genuine_parse [OF plant_invD(4) [OF inv ev], of ?msg] by (metis delivery.select_convs(1))
  have "storable ?ev" using storable_order [of n body] n(1) small by (auto simp: orderPlacedEventId_def)
  then have "\<exists>applied. fst (applyOrderPlacedEffect Commits ?ev (plant_db p)) = Inr applied"
    using apply_run(1) [of Commits ?ev "plant_db p"] by (cases "marked (plant_db p) (re_eventId ?ev)") (auto simp: storable_def)
  then obtain applied s' where a: "applyOrderPlacedEffect Commits ?ev (plant_db p) = (Inr applied, s')" by (metis prod.collapse)
  then have run: "handleMessage plain_hooks True Commits ?msg (plant_db p)
      = ((if applied then Acked else Skipped, [Ack]), s')"
    by (simp add: handleMessage_def handle_body_def n(2) plain_hooks_def send_command_def)
  have "s' = applied_to ?ev (plant_db p) \<or> s' = plant_db p"
    using apply_run(2) [of Commits ?ev "plant_db p"] a by (auto split: if_splits)
  then have "orders s' = orders (plant_db p)" "outbox s' = outbox (plant_db p)" by (auto simp: applied_to_def)
  then show ?thesis
    using deliver [of ev seen p ?msg, OF ev _ run, of sv sink options]
    by (intro exI [of _ "p\<lparr>pl_world := set_db s' (pl_world p), pl_acked := pl_acked p @ [eventId ev]\<rparr>"]) simp
qed

lemma deliver_all:
  assumes "confirms sink seen" "plant_inv seen p" "set evs \<subseteq> set (seen (pl_broker p))"
    and "\<forall>r \<in> set (orders (plant_db p)). int4 (o_id r)"
  shows "\<exists>p'. plant_run sv sink seen options p p' \<and> orders (plant_db p') = orders (plant_db p)
    \<and> outbox (plant_db p') = outbox (plant_db p) \<and> pl_broker p' = pl_broker p \<and> eventId ` set evs \<subseteq> set (pl_acked p')"
  using assms(3)
proof (induction evs)
  case Nil
  show ?case using start by fastforce
next
  case (Cons ev evs)
  then obtain q where q: "plant_run sv sink seen options p q" "orders (plant_db q) = orders (plant_db p)"
    "outbox (plant_db q) = outbox (plant_db p)" "pl_broker q = pl_broker p" "eventId ` set evs \<subseteq> set (pl_acked q)"
    by auto
  have inv: "plant_inv seen q" using plant_inv_run [OF q(1) assms(1,2)] .
  obtain p' where p': "plant_step sv sink seen options q p'" "orders (plant_db p') = orders (plant_db q)"
    "outbox (plant_db p') = outbox (plant_db q)" "pl_broker p' = pl_broker q" "pl_acked p' = pl_acked q @ [eventId ev]"
    using deliver_acks [OF inv, of ev sv sink options] Cons.prems assms(4) q(2,4) by auto
  show ?case using more [OF q(1) p'(1)] p' q by (intro exI [of _ p']) auto
qed

lemma plant_finishes:
  assumes sink: "reliable sink seen" and "plant_start seen p0" "plant_run sv sink seen options p0 p"
    and "notBefore options = None" "batchSize options \<noteq> Some 0"
    and small: "\<forall>r \<in> set (orders (plant_db p)). int4 (o_id r)"
  shows "\<exists>p'. plant_run sv sink seen options p p' \<and> orders (plant_db p') = orders (plant_db p)
    \<and> (\<forall>ob \<in> set (outbox (plant_db p')). ob_published_at ob \<noteq> None)
    \<and> (\<forall>ev \<in> set (seen (pl_broker p')). eventId ev \<in> set (pl_acked p'))"
proof -
  note confirms = reliable_confirms [OF sink]
  have inv: "plant_inv seen p" using plant_inv_run [OF assms(3) confirms plant_start_inv [OF assms(2)]] .
  let ?m = "length (filter (\<lambda>r. ob_published_at r = None) (outbox (rw_db (at_courier p))))"
  obtain q rows where q: "plant_run sv sink seen options p q"
    "at_courier q = snd (relayLoop sink options (replicate ?m True) (at_courier p))"
    "plant_db q = (plant_db p)\<lparr>outbox := rows\<rparr>"
    using courier_run by blast
  have "?m \<le> ?m * (case batchSize options of None \<Rightarrow> 100 | Some k \<Rightarrow> k)"
    using assms(5) by (cases "batchSize options") auto
  moreover have "distinct (map ob_id (outbox (rw_db (at_courier p))))"
    using plant_invD(1) [OF inv] by (simp add: at_courier_def in_step_def db_wf_defs)
  ultimately have "\<forall>r \<in> set (outbox (rw_db (at_courier q))). ob_published_at r \<noteq> None"
    unfolding q(2) using conjunct1 [OF loop_delivers [OF sink _ assms(4) _ prod.collapse [symmetric]]] by blast
  then have published: "\<forall>r \<in> set (outbox (plant_db q)). ob_published_at r \<noteq> None" by (simp add: at_courier_def)
  have "plant_inv seen q" using plant_inv_run [OF q(1) confirms inv] .
  moreover have "\<forall>r \<in> set (orders (plant_db q)). int4 (o_id r)" using small q(3) by simp
  ultimately obtain p' where p': "plant_run sv sink seen options q p'" "orders (plant_db p') = orders (plant_db q)"
    "outbox (plant_db p') = outbox (plant_db q)" "pl_broker p' = pl_broker q"
    "eventId ` set (seen (pl_broker q)) \<subseteq> set (pl_acked p')"
    using deliver_all [OF confirms _ subset_refl] by blast
  show ?thesis
    using plant_run_trans [OF p'(1) q(1)] p'(2-5) q(3) published by (intro exI [of _ p']) auto
qed


subsection \<open>Examples\<close>

definition list_sink :: "order_placed_event list sink" where
  "list_sink = (\<lambda>ev key b. (Inr (), b @ [ev]))"

definition sample_plant :: "order_placed_event list plant" where
  "sample_plant = \<lparr>pl_world = sample_http, pl_broker = [], pl_acked = []\<rparr>"

definition ordered_plant :: "order_placed_event list plant" where
  "ordered_plant = sample_plant\<lparr>pl_world := snd (respond plain_server order_request sample_http)\<rparr>"

definition sample_options :: relay_options where
  "sample_options = \<lparr>batchSize = None, lockMode = None, notBefore = None\<rparr>"

lemma list_sink_reliable: "reliable list_sink id"
  by (simp add: reliable_def list_sink_def)

lemma sample_plant_start: "plant_start id sample_plant"
  using sample_in_step by (simp add: plant_start_def sample_plant_def sample_http_def sample_db_def empty_db_def)

lemma sample_plant_run: "plant_run plain_server list_sink id sample_options sample_plant ordered_plant"
  using more [OF start request, of plain_server list_sink id sample_options sample_plant order_request]
  by (simp add: ordered_plant_def sample_plant_def)

lemma ordered_plant_ids: "map o_id (orders (plant_db ordered_plant)) = [1]"
proof -
  obtain r w' where run: "respond plain_server order_request sample_http = (r, w')" by fastforce
  have posted: "map o_id (orders (sh_db (snd (post_order id (\<lambda>_. True) ''row-1'' 1500 sample_body (Some ''k'') 1 sample_shop))))
      = [1]" by code_simp
  have "world_db w' = sh_db (snd (post_order id (\<lambda>_. True) ''row-1'' 1500 sample_body (Some ''k'') 1 sample_shop))"
    using order_request_db run by (metis snd_conv)
  then show ?thesis using posted run by (simp add: ordered_plant_def)
qed

lemma ordered_plant_small: "\<forall>r \<in> set (orders (plant_db ordered_plant)). int4 (o_id r)"
proof
  fix r assume "r \<in> set (orders (plant_db ordered_plant))"
  then have "o_id r \<in> set (map o_id (orders (plant_db ordered_plant)))" by simp
  then show "int4 (o_id r)" unfolding ordered_plant_ids by (simp add: int4_def)
qed

theorem orders_take_effect_once_witness:
  "\<exists>p. plant_run plain_server list_sink id sample_options sample_plant p
    \<and> mset (map snd (processed_order_events (plant_db p))) = {#1#}"
proof -
  from plant_finishes [OF list_sink_reliable sample_plant_start sample_plant_run _ _ ordered_plant_small] obtain p where
    p: "plant_run plain_server list_sink id sample_options ordered_plant p" "orders (plant_db p) = orders (plant_db ordered_plant)"
      "\<forall>ob \<in> set (outbox (plant_db p)). ob_published_at ob \<noteq> None" "\<forall>ev \<in> set (id (pl_broker p)). eventId ev \<in> set (pl_acked p)"
    by (auto simp: sample_options_def)
  note run = plant_run_trans [OF p(1) sample_plant_run]
  have "mset (map snd (processed_order_events (plant_db p))) = mset (map o_id (orders (plant_db p)))"
    using orders_take_effect_once [OF reliable_confirms [OF list_sink_reliable] sample_plant_start run] p(3,4) by blast
  then show ?thesis using run ordered_plant_ids p(2) by auto
qed


end
