(* ===== verification/Books.thy ===== *)
theory Books
  imports EndToEnd
begin

text \<open>
  The types of the rows. The columns of the schema are wide (\<open>varchar\<close>, \<open>integer\<close>); what the entities and
  the responses promise of them (a status of \<open>ORDER_STATUSES\<close>, a currency of \<open>PRODUCT_CURRENCIES\<close>, positive
  quantities and prices, a total that is the sum of the items) is kept by the validation of the requests and
  by the guarded updates. \<open>books\<close> collects it; it is an invariant of everything that writes.
\<close>

definition product_typed :: "product \<Rightarrow> bool" where
  "product_typed p \<longleftrightarrow> p_name p \<noteq> [] \<and> char_count (p_name p) \<le> 200
     \<and> 1 \<le> p_priceCents p \<and> p_priceCents p \<le> 1000000000 \<and> 0 \<le> p_stock p \<and> p_stock p \<le> 1000000
     \<and> p_currency p \<in> set PRODUCT_CURRENCIES"

definition user_typed :: "user \<Rightarrow> bool" where
  "user_typed u \<longleftrightarrow> 0 \<le> u_balanceCents u \<and> int4 (u_balanceCents u)"

definition item_typed :: "order_item_row \<Rightarrow> bool" where
  "item_typed i \<longleftrightarrow> 1 \<le> i_quantity i \<and> 1 \<le> i_priceAtPurchaseCents i \<and> i_priceAtPurchaseCents i \<le> 1000000000"

text \<open>An order with its items \<open>is\<close>.\<close>

definition order_typed :: "order_item_row list \<Rightarrow> order_row \<Rightarrow> bool" where
  "order_typed is r \<longleftrightarrow> o_status r \<in> set ORDER_STATUSES \<and> o_currency r \<in> set PRODUCT_CURRENCIES
     \<and> is \<noteq> [] \<and> o_totalCents r = items_total is \<and> 1 \<le> o_totalCents r \<and> int4 (o_totalCents r)"

definition books :: "db \<Rightarrow> bool" where
  "books s \<longleftrightarrow> db_wf s \<and> (\<forall>p \<in> set (products s). product_typed p) \<and> (\<forall>u \<in> set (users s). user_typed u)
     \<and> (\<forall>i \<in> set (order_items s). item_typed i) \<and> (\<forall>r \<in> set (orders s). order_typed (items_of s r) r)"

lemma booksD:
  assumes "books s"
  shows "db_wf s" "p \<in> set (products s) \<Longrightarrow> product_typed p" "u \<in> set (users s) \<Longrightarrow> user_typed u"
    "i \<in> set (order_items s) \<Longrightarrow> item_typed i" "r \<in> set (orders s) \<Longrightarrow> order_typed (items_of s r) r"
  using assms by (auto simp: books_def)

lemma books_same:
  assumes "books s" "db_wf s'" "set (products s') \<subseteq> set (products s)" "set (users s') \<subseteq> set (users s)"
    "orders s' = orders s" "order_items s' = order_items s"
  shows "books s'"
  using assms by (auto simp: books_def)

lemma books_rolled_back: "books s \<Longrightarrow> seqs_le s t \<Longrightarrow> books (rolled_back s t)"
  using books_same [of s "rolled_back s t"] booksD(1) [of s] db_wf_rolled_back [of s t] by simp

lemma items_total_pos:
  "is \<noteq> [] \<Longrightarrow> (\<And>i. i \<in> set is \<Longrightarrow> item_typed i) \<Longrightarrow> 1 \<le> items_total is"
proof (induction "is")
  case (Cons i "is")
  have "1 * 1 \<le> i_priceAtPurchaseCents i * i_quantity i"
    using Cons.prems(2) [of i] by (intro mult_mono) (simp_all add: item_typed_def)
  moreover have "0 \<le> items_total is"
    using Cons.IH Cons.prems(2) by (cases "is = []") (force simp: items_total_def)+
  ultimately show ?case by (simp add: items_total_def)
qed simp

text \<open>A new order with its items keeps the books.\<close>

lemma books_new_order:
  assumes "books s" "db_wf s'" "orders s' = orders s @ [r]" "order_items s' = order_items s @ is"
    and "is \<noteq> []" "\<And>i. i \<in> set is \<Longrightarrow> i_orderId i = o_id r \<and> item_typed i"
    and "\<And>p. p \<in> set (products s') \<Longrightarrow> product_typed p" "\<And>u. u \<in> set (users s') \<Longrightarrow> user_typed u"
    and "o_status r \<in> set ORDER_STATUSES" "o_currency r \<in> set PRODUCT_CURRENCIES"
    and "o_totalCents r = items_total is" "int4 (o_totalCents r)"
  shows "books s'"
proof -
  have "o_id r \<notin> o_id ` set (orders s)"
    using assms(2,3) serial_distinct [of "map o_id (orders s')"] by (auto simp: db_wf_defs)
  moreover have "\<forall>i \<in> set (order_items s). i_orderId i \<in> o_id ` set (orders s)"
    using booksD(1) [OF assms(1)] by (simp add: db_wf_defs)
  ultimately have old: "filter (\<lambda>i. i_orderId i = o_id r) (order_items s) = []"
    and other: "\<And>r'. r' \<in> set (orders s) \<Longrightarrow> o_id r' \<noteq> o_id r"
    unfolding filter_empty_conv by (metis, metis imageI)
  have new: "items_of s' r = is" using old assms(4,6) by (simp add: filter_id_conv)
  have kept: "items_of s' r' = items_of s r'" if "r' \<in> set (orders s)" for r'
  proof -
    have "filter (\<lambda>i. i_orderId i = o_id r') is = []"
      using other [OF that] assms(6) by (auto simp: filter_empty_conv)
    then show ?thesis using assms(4) by simp
  qed
  have "order_typed is r"
    using assms(5,6,9-12) items_total_pos [of "is"] by (simp add: order_typed_def)
  then have "\<forall>r' \<in> set (orders s'). order_typed (items_of s' r') r'"
    using assms(3) new kept booksD(5) [OF assms(1)] by auto
  then show ?thesis
    using assms(2,4,6-8) booksD(4) [OF assms(1)] by (auto simp: books_def)
qed

subsection \<open>The writes of the services\<close>

lemma books_placed:
  assumes "books s" "placed uuid now dto userId s e t" "order_dto_ok dto" "db_wf s'"
    and "orders s' = orders t" "order_items s' = order_items t" "products s' = products t" "users s' = users t"
  shows "books s'"
proof (rule books_new_order)
  let ?is = "map fst (oe_items e)"
  note f = assms(2) [unfolded placed_def Let_def]
  note old = booksD [OF assms(1)]
  show "books s" "db_wf s'" by fact+
  show "orders s' = orders s @ [oe_row e]" "order_items s' = order_items s @ ?is"
    using placed_tables [OF assms(2)] assms(5,6) by simp_all
  have rows: "list_all2 (\<lambda>(t, q) (i, p). i_quantity i = q \<and> i_orderId i = o_id (oe_row e)
           \<and> (\<exists>p'. p = Some p' \<and> p' \<in> set (products s) \<and> js_Number t = Num (of_int (p_id p'))
                 \<and> i_productId i = p_id p' \<and> i_priceAtPurchaseCents i = p_priceCents p'))
           (co_items dto) (oe_items e)" using f by blast
  show "?is \<noteq> []" using rows assms(3) by (auto simp: order_dto_ok_def)
  show "i_orderId i = o_id (oe_row e) \<and> item_typed i" if i: "i \<in> set ?is" for i
  proof -
    obtain po where po: "(i, po) \<in> set (oe_items e)" using i by auto
    from list_all2_right [OF rows po] obtain x where x: "x \<in> set (co_items dto)"
      and f: "case x of (t, q) \<Rightarrow> i_quantity i = q \<and> i_orderId i = o_id (oe_row e)
           \<and> (\<exists>p'. po = Some p' \<and> p' \<in> set (products s) \<and> js_Number t = Num (of_int (p_id p'))
                 \<and> i_productId i = p_id p' \<and> i_priceAtPurchaseCents i = p_priceCents p')" by auto
    obtain t q where tq: "x = (t, q)" by (cases x)
    obtain p' where p': "p' \<in> set (products s)" "i_priceAtPurchaseCents i = p_priceCents p'" using f tq by auto
    have "1 \<le> q" using assms(3) x tq by (auto simp: order_dto_ok_def)
    moreover have "i_quantity i = q" "i_orderId i = o_id (oe_row e)" using f tq by simp_all
    ultimately show ?thesis using old(2) [OF p'(1)] p'(2) by (simp add: item_typed_def product_typed_def)
  qed
  show "product_typed p" if "p \<in> set (products s')" for p
    using that old(2) assms(7) placed_tables(3) [OF assms(2)] by simp
  show "user_typed u" if "u \<in> set (users s')" for u
    using that old(3) assms(8) placed_tables(4) [OF assms(2)] by simp
  show "o_status (oe_row e) \<in> set ORDER_STATUSES" using f by (simp add: ORDER_STATUSES_def)
  have "''UAH'' \<in> set PRODUCT_CURRENCIES" by (simp add: PRODUCT_CURRENCIES_def)
  then show "o_currency (oe_row e) \<in> set PRODUCT_CURRENCIES" using f old(2) by (auto simp: product_typed_def)
  show "o_totalCents (oe_row e) = items_total ?is" "int4 (o_totalCents (oe_row e))" using f by blast+
qed

lemma keeps_books_claim:
  assumes "order_dto_ok dto"
  shows "keeps books (transaction (claim_or_create uuid now dto key h userId))"
proof (rule keeps_transaction_ok)
  fix s a s'
  assume s: "books s" and run: "claim_or_create uuid now dto key h userId s = (Inr a, s')"
  show "books s'"
  proof (cases a)
    case (Replay row)
    then show ?thesis using claim_or_create_replay run s by blast
  next
    case (Created e)
    then have run': "claim_or_create uuid now dto key h userId s = (Inr (Created e), s')" using run by simp
    have "db_wf s'" using created_db(1) [OF run'] booksD(1) [OF s] by (simp add: since_def)
    moreover obtain t where p: "placed uuid now dto userId s e t"
      and t: "s' = t\<lparr>idempotency_keys := idempotency_keys s @
             [\<lparr>ik_key = key, ik_request_hash = h, ik_order_id = Some (o_id (oe_row e))\<rparr>]\<rparr>"
      using claim_or_create_created [OF run'] by blast
    ultimately show ?thesis by (intro books_placed [OF s p assms]) (simp_all add: t)
  qed
qed (auto intro: forward_intro books_rolled_back)

lemma keeps_books_status:
  assumes "st \<in> set ORDER_STATUSES"
  shows "keeps books (set_order_status n st)"
proof
  fix s assume s: "books s"
  let ?s = "s\<lparr>orders := with_status n st (orders s)\<rparr>"
  have "db_wf ?s"
    using keepsD [OF keeps_since_status [of s n st], of s] booksD(1) [OF s]
    by (simp add: since_def set_order_status_run)
  moreover have "order_typed (items_of ?s r) r" if r: "r \<in> set (with_status n st (orders s))" for r
  proof -
    obtain r' where "r' \<in> set (orders s)" "r = (if o_id r' = n then r'\<lparr>o_status := st\<rparr> else r')"
      using r by (auto simp: with_status_def)
    then show ?thesis using booksD(5) [OF s, of r'] assms by (auto simp: order_typed_def)
  qed
  ultimately show "books (snd (set_order_status n st s))"
    using s by (simp add: set_order_status_run books_def)
qed

lemma keeps_books_products:
  assumes "create_product_dto_ok d"
  shows "keeps books (products_create d)"
  unfolding products_create_def
proof (intro keeps_intro)
  let ?cur = "case dto_currency d of None \<Rightarrow> ''UAH'' | Some c \<Rightarrow> c"
  let ?m = "insert_product (dto_name d) (dto_priceCents d) (dto_stock d) ?cur"
  show "keeps books (transaction ?m)"
  proof (rule keeps_transaction_ok)
    fix s a s'
    assume s: "books s" and run: "?m s = (Inr a, s')"
    have "db_wf s'" using keepsD' [OF keeps_db_wf_insert_product _ run] booksD(1) [OF s] by simp
    moreover have "?cur \<in> set PRODUCT_CURRENCIES"
      using assms by (cases "dto_currency d") (simp_all add: create_product_dto_ok_def PRODUCT_CURRENCIES_def)
    ultimately show "books s'"
      using insert_product_ok [OF run] s assms
      by (auto simp: books_def product_typed_def create_product_dto_ok_def)
  qed (auto intro: forward_intro books_rolled_back)
qed

interpretation typed_rows: table_invariant books
proof (unfold_locales, goal_cases)
  case (4 s ts)
  then show ?case
    using books_same [OF 4, of "s\<lparr>refresh_tokens := ts\<rparr>"] db_wf_tokens booksD(1) [OF 4] by simp
qed (rule keeps_books_claim keeps_books_status keeps_books_products; assumption)+

text \<open>A checkout: what it takes was there.\<close>

lemma books_bought:
  assumes "books s" "bought userId productId q uuid now s orderId s'" "0 < q" "db_wf s'"
  shows "books s'"
proof -
  obtain p u r i where p: "p \<in> set (products s)" "p_id p = productId" "q \<le> p_stock p"
    and u: "u \<in> set (users s)" "u_id u = userId" "p_priceCents p * q \<le> u_balanceCents u"
    and r: "o_status r = ''paid''" "o_currency r = CHECKOUT_CURRENCY" "o_totalCents r = p_priceCents p * q"
    and i: "i_orderId i = o_id r" "i_quantity i = q" "i_priceAtPurchaseCents i = p_priceCents p"
    and s': "products s' = with_stock_less productId q (products s)"
      "users s' = with_balance_less userId (p_priceCents p * q) (users s)"
      "orders s' = orders s @ [r]" "order_items s' = order_items s @ [i]"
    using assms(2) unfolding bought_def by (elim bexE exE conjE) (rule that, simp_all)
  note old = booksD [OF assms(1)]
  have price: "1 \<le> p_priceCents p" "p_priceCents p \<le> 1000000000" using old(2) [OF p(1)] by (simp_all add: product_typed_def)
  then have "0 \<le> p_priceCents p * q" using assms(3) by simp
  moreover have "u_balanceCents u \<le> 2147483647" using old(3) [OF u(1)] by (simp add: user_typed_def int4_def)
  ultimately have amount: "0 \<le> p_priceCents p * q" "int4 (p_priceCents p * q)" using u(3) by (simp_all add: int4_def)
  show ?thesis
  proof (rule books_new_order [OF assms(1,4) s'(3,4)])
    show "product_typed x" if "x \<in> set (products s')" for x
      using that old(2) assms(3) unfolding s' with_stock_less_def by (fastforce simp: product_typed_def)
    show "user_typed x" if "x \<in> set (users s')" for x
      using that old(3) amount unfolding s' with_balance_less_def by (fastforce simp: user_typed_def int4_def)
  qed (use i r price assms(3) amount in \<open>simp_all add: item_typed_def items_total_def ORDER_STATUSES_def
      CHECKOUT_CURRENCY_def PRODUCT_CURRENCIES_def\<close>)
qed

lemma keeps_books_checkout: "keeps books (checkout u i q uuid now)"
proof (cases "\<exists>n > 0. int_of_num q = Some n")
  case False
  then show ?thesis by (auto simp: checkout_def split: option.splits intro: keeps_intro)
next
  case True
  then obtain n where n: "int_of_num q = Some n" "0 < n" by blast
  have "keeps books (transaction (checkout_body u i n uuid now))"
  proof (rule keeps_transaction_ok)
    fix s a s'
    assume s: "books s" and run: "checkout_body u i n uuid now s = (Inr a, s')"
    have "db_wf s'" using keepsD' [OF keeps_db_wf_checkout_body _ run] booksD(1) [OF s] by simp
    then show "books s'" using books_bought [OF s checkout_body_ok [OF run] n(2)] by blast
  qed (auto intro: forward_checkout_body books_rolled_back)
  then show ?thesis using n by (simp add: checkout_def)
qed

subsection \<open>The whole plant\<close>

lemma books_step:
  assumes "plant_step sv sink seen options p p'" "confirms sink seen" "plant_inv seen p" "books (plant_db p)"
  shows "books (plant_db p')"
proof -
  have wf: "db_wf (plant_db p')"
    using plant_invD(1) [OF plant_inv_step [OF assms(1-3)]] by (simp add: in_step_def)
  from assms(1) show ?thesis
  proof (cases rule: plant_step.cases)
    case (request rq)
    then show ?thesis using typed_rows.api [OF assms(4)] by simp
  next
    case (buy u i q uuid now)
    then show ?thesis using keepsD [OF keeps_books_checkout assms(4)] by simp
  next
    case (courier hook res w')
    then obtain rows where "plant_db p' = (plant_db p)\<lparr>outbox := rows\<rparr>"
      using relayOnce_frame [OF courier(2)] by (auto simp: at_courier_def)
    then show ?thesis using books_same [OF assms(4) wf] by simp
  next
    case (deliver ev msg hooks opened fate outc cmds s')
    have "s' = plant_db p \<or> (\<exists>e. s' = applied_to e (plant_db p))"
      using handle_final [of hooks opened fate msg "plant_db p"] deliver(4) apply_run(2) [of fate _ "plant_db p"]
      by (auto split: option.splits if_splits)
    then have "products s' = products (plant_db p)" "users s' = users (plant_db p)"
      "orders s' = orders (plant_db p)" "order_items s' = order_items (plant_db p)"
      by (auto simp: applied_to_def)
    then show ?thesis using books_same [OF assms(4) wf] deliver(1) by simp
  next
    case (tick t)
    then show ?thesis using books_same [OF assms(4) wf] by simp
  qed
qed

lemma books_run:
  assumes "plant_run sv sink seen options p0 p" "confirms sink seen" "plant_inv seen p0" "books (plant_db p0)"
  shows "books (plant_db p)"
  using assms
proof (induction rule: plant_run.induct)
  case (more p p')
  then show ?case using books_step plant_inv_run by blast
qed

text \<open>C10: every row keeps its type. Whatever requests (valid or not), checkouts, couriers and deliveries do, in
  any order and with any failures, an order has a status of \<open>ORDER_STATUSES\<close>, at least one item, a currency of
  \<open>PRODUCT_CURRENCIES\<close> and a total that is exactly the sum of its items and fits the column; items have a
  positive quantity and price; products stay within the bounds of \<open>CreateProductDto\<close>, with a stock that is
  never negative, and no balance is negative.\<close>

theorem rows_well_typed:
  assumes "plant_run sv sink seen options p0 p" and "confirms sink seen" and "plant_start seen p0"
    and "books (plant_db p0)"
  defines "s \<equiv> plant_db p"
  shows "(\<forall>r \<in> set (orders s). o_status r \<in> set ORDER_STATUSES \<and> o_currency r \<in> set PRODUCT_CURRENCIES
        \<and> items_of s r \<noteq> [] \<and> int4 (o_totalCents r)
        \<and> o_totalCents r = (\<Sum>i\<leftarrow>items_of s r. i_priceAtPurchaseCents i * i_quantity i))
    \<and> (\<forall>i \<in> set (order_items s). 1 \<le> i_quantity i \<and> 1 \<le> i_priceAtPurchaseCents i)
    \<and> (\<forall>p \<in> set (products s). 1 \<le> p_priceCents p \<and> p_priceCents p \<le> 1000000000 \<and> p_currency p \<in> set PRODUCT_CURRENCIES
        \<and> 0 \<le> p_stock p \<and> p_stock p \<le> 1000000 \<and> p_name p \<noteq> [] \<and> char_count (p_name p) \<le> 200)
    \<and> (\<forall>u \<in> set (users s). 0 \<le> u_balanceCents u)"
proof -
  have "books s" unfolding s_def by (rule books_run [OF assms(1,2) plant_start_inv [OF assms(3)] assms(4)])
  then show ?thesis
    by (auto simp: books_def order_typed_def item_typed_def product_typed_def user_typed_def items_total_def)
qed

lemma sample_plant_books: "books (plant_db sample_plant)"
  by code_simp

theorem rows_well_typed_witness:
  "map (\<lambda>r. o_totalCents r = (\<Sum>i\<leftarrow>items_of (plant_db ordered_plant) r. i_priceAtPurchaseCents i * i_quantity i))
     (orders (plant_db ordered_plant)) = [True]"
proof -
  obtain r where "orders (plant_db ordered_plant) = [r]" using ordered_plant_ids by auto
  then show ?thesis
    using rows_well_typed [OF sample_plant_run reliable_confirms [OF list_sink_reliable] sample_plant_start
        sample_plant_books] by simp
qed

end
