(* ===== verification/Seed.thy ===== *)
theory Seed
  imports Books
begin

text \<open>
  The development data: \<open>src/seed.ts\<close>. Users and products are upserted by their unique column; orders are
  only made when there are none. \<open>repo.upsert\<close> is one \<open>INSERT .. ON CONFLICT DO UPDATE\<close> of the columns that
  are given; it draws an identifier for every row, also for those it updates. The identifiers that the
  sequence of the users offers and the password hashes are arguments.
\<close>

text \<open>The names are not ASCII: their bytes.\<close>

definition utf8 :: "nat list \<Rightarrow> string" where
  "utf8 = map char_of"

record user_spec =
  us_email :: string
  us_name :: string
  us_role :: user_role

record product_spec =
  ps_name :: string
  ps_priceCents :: int
  ps_currency :: string
  ps_stock :: int

definition seedUsers :: "user_spec list" where
  "seedUsers =
     [\<lparr>us_email = ''olena.kravchenko@example.com'',
       us_name = utf8 [208, 158, 208, 187, 208, 181, 208, 189, 208, 176, 32, 208, 154, 209, 128, 208, 176, 208, 178, 209,
            135, 208, 181, 208, 189, 208, 186, 208, 190],
       us_role = admin\<rparr>,
      \<lparr>us_email = ''ivan.petrenko@example.com'',
       us_name = utf8 [208, 134, 208, 178, 208, 176, 208, 189, 32, 208, 159, 208, 181, 209, 130, 209, 128, 208, 181, 208,
            189, 208, 186, 208, 190],
       us_role = seller\<rparr>,
      \<lparr>us_email = ''maria.bondar@example.com'',
       us_name = utf8 [208, 156, 208, 176, 209, 128, 209, 150, 209, 143, 32, 208, 145, 208, 190, 208, 189, 208, 180, 208,
            176, 209, 128],
       us_role = customer\<rparr>,
      \<lparr>us_email = ''andriy.tkachenko@example.com'',
       us_name = utf8 [208, 144, 208, 189, 208, 180, 209, 128, 209, 150, 208, 185, 32, 208, 162, 208, 186, 208, 176, 209,
            135, 208, 181, 208, 189, 208, 186, 208, 190],
       us_role = customer\<rparr>,
      \<lparr>us_email = ''natalia.moroz@example.com'',
       us_name = utf8 [208, 157, 208, 176, 209, 130, 208, 176, 208, 187, 209, 150, 209, 143, 32, 208, 156, 208, 190, 209,
            128, 208, 190, 208, 183],
       us_role = customer\<rparr>,
      \<lparr>us_email = ''dmytro.shevchenko@example.com'',
       us_name = utf8 [208, 148, 208, 188, 208, 184, 209, 130, 209, 128, 208, 190, 32, 208, 168, 208, 181, 208, 178, 209,
            135, 208, 181, 208, 189, 208, 186, 208, 190],
       us_role = customer\<rparr>]"

definition productsData :: "product_spec list" where
  "productsData =
     [\<lparr>ps_name = utf8 [208, 156, 208, 181, 209, 133, 208, 176, 208, 189, 209, 150, 209, 135, 208, 189, 208, 176, 32, 208,
            186, 208, 187, 208, 176, 208, 178, 209, 150, 208, 176, 209, 130, 209, 131, 209, 128, 208, 176],
       ps_priceCents = 249900, ps_currency = ''UAH'', ps_stock = 50\<rparr>,
      \<lparr>ps_name = utf8 [208, 145, 208, 181, 208, 183, 208, 180, 209, 128, 208, 190, 209, 130, 208, 190, 208, 178, 208,
            176, 32, 208, 188, 208, 184, 209, 136, 208, 176],
       ps_priceCents = 89900, ps_currency = ''UAH'', ps_stock = 50\<rparr>,
      \<lparr>ps_name = utf8 [208, 156, 208, 190, 208, 189, 209, 150, 209, 130, 208, 190, 209, 128, 32, 50, 55, 34],
       ps_priceCents = 899900, ps_currency = ''UAH'', ps_stock = 50\<rparr>,
      \<lparr>ps_name = utf8 [85, 83, 66, 45, 67, 32, 209, 133, 208, 176, 208, 177],
       ps_priceCents = 64900, ps_currency = ''UAH'', ps_stock = 50\<rparr>,
      \<lparr>ps_name = utf8 [208, 146, 208, 181, 208, 177, 45, 208, 186, 208, 176, 208, 188, 208, 181, 209, 128, 208, 176, 32,
            70, 117, 108, 108, 32, 72, 68],
       ps_priceCents = 129900, ps_currency = ''UAH'', ps_stock = 50\<rparr>,
      \<lparr>ps_name = utf8 [208, 157, 208, 176, 208, 178, 209, 131, 209, 136, 208, 189, 208, 184, 208, 186, 208, 184, 32, 208,
            183, 32, 208, 188, 209, 150, 208, 186, 209, 128, 208, 190, 209, 132, 208, 190, 208, 189, 208, 190, 208,
            188],
       ps_priceCents = 159900, ps_currency = ''UAH'', ps_stock = 50\<rparr>,
      \<lparr>ps_name = utf8 [208, 151, 208, 190, 208, 178, 208, 189, 209, 150, 209, 136, 208, 189, 209, 150, 208, 185, 32, 83,
            83, 68, 32, 49, 84, 66],
       ps_priceCents = 249900, ps_currency = ''UAH'', ps_stock = 50\<rparr>,
      \<lparr>ps_name = utf8 [208, 159, 208, 190, 209, 128, 209, 130, 208, 176, 209, 130, 208, 184, 208, 178, 208, 189, 208,
            176, 32, 208, 186, 208, 190, 208, 187, 208, 190, 208, 189, 208, 186, 208, 176],
       ps_priceCents = 99900, ps_currency = ''UAH'', ps_stock = 50\<rparr>]"

definition seed_statuses :: "string list" where
  "seed_statuses = [''pending'', ''paid'', ''shipped'', ''delivered'', ''cancelled'']"

subsection \<open>Upserts\<close>

text \<open>The role and the hash are set when they are given; a new row has the defaults of the columns.\<close>

definition upsert_user ::
  "int \<Rightarrow> string \<Rightarrow> string \<Rightarrow> user_role option \<Rightarrow> int \<Rightarrow> string option \<Rightarrow> unit db_action" where
  "upsert_user newId email name role balance hash =
     and_then (guard (int4 balance) OUT_OF_RANGE) (\<lambda>_.
     modify (\<lambda>s. s\<lparr>users :=
       (if email \<in> u_email ` set (users s)
        then map (\<lambda>u. if u_email u = email
                    then u\<lparr>u_name := name, u_balanceCents := balance,
                           u_role := (case role of None \<Rightarrow> u_role u | Some r \<Rightarrow> r),
                           u_passwordHash := (case hash of None \<Rightarrow> u_passwordHash u | Some h \<Rightarrow> Some h)\<rparr>
                    else u) (users s)
        else users s @
          [\<lparr>u_id = newId, u_email = email, u_name = name, u_passwordHash = hash,
            u_role = (case role of None \<Rightarrow> customer | Some r \<Rightarrow> r), u_balanceCents = balance,
            u_createdAt = clock s\<rparr>])\<rparr>))"

definition upsert_product :: "string \<Rightarrow> int \<Rightarrow> string \<Rightarrow> int \<Rightarrow> unit db_action" where
  "upsert_product name price cur stock =
     and_then (guard (int4 price \<and> int4 stock) OUT_OF_RANGE) (\<lambda>_.
     and_then (nextval seq_products (\<lambda>n s. s\<lparr>seq_products := n\<rparr>)) (\<lambda>i.
     modify (\<lambda>s. s\<lparr>products :=
       (if name \<in> p_name ` set (products s)
        then map (\<lambda>p. if p_name p = name
                    then p\<lparr>p_priceCents := price, p_currency := cur, p_stock := stock\<rparr> else p) (products s)
        else products s @
          [\<lparr>p_id = i, p_name = name, p_priceCents = price, p_stock = stock, p_currency = cur,
            p_createdAt = clock s\<rparr>])\<rparr>)))"

subsection \<open>The orders\<close>

definition items_specs :: "nat \<Rightarrow> product list \<Rightarrow> (product \<times> int) list" where
  "items_specs i ps = map (\<lambda>j. (ps ! ((i + j) mod length ps), int ((i + j) mod 3) + 1)) [0..<i mod 3 + 1]"

definition seed_order :: "user list \<Rightarrow> product list \<Rightarrow> nat \<Rightarrow> unit db_action" where
  "seed_order us ps i =
     (let user = us ! (i mod length us); status = seed_statuses ! (i mod length seed_statuses);
          specs = items_specs i ps;
          totalCents = fold (\<lambda>(p, q) t. t + p_priceCents p * q) specs 0
      in
      and_then (transaction (insert_order (Some (u_id user)) (u_email user) status totalCents ''UAH'')) (\<lambda>order.
      and_then (transaction (for_each (\<lambda>(p, q). and_then (insert_order_item (o_id order) (p_id p) q (p_priceCents p))
                                                  (\<lambda>r. ret (r, Some p))) specs)) (\<lambda>_. ret ())))"

definition upsert_seed_user :: "(nat \<Rightarrow> int) \<Rightarrow> (nat \<Rightarrow> string) \<Rightarrow> nat \<times> user_spec \<Rightarrow> unit db_action" where
  "upsert_seed_user newIds hashes x =
     upsert_user (newIds (fst x)) (us_email (snd x)) (us_name (snd x)) (Some (us_role (snd x))) 500000 (Some (hashes (fst x)))"

definition seed :: "(nat \<Rightarrow> int) \<Rightarrow> (nat \<Rightarrow> string) \<Rightarrow> unit db_action" where
  "seed newIds hashes =
     and_then (transaction (for_each (upsert_seed_user newIds hashes) (enumerate 0 seedUsers))) (\<lambda>_.
     and_then (gets (\<lambda>s. sort_key u_id (users s))) (\<lambda>us.
     and_then (transaction (for_each (\<lambda>p. upsert_product (ps_name p) (ps_priceCents p) (ps_currency p) (ps_stock p))
                             productsData)) (\<lambda>_.
     and_then (gets (\<lambda>s. sort_key p_id (products s))) (\<lambda>ps.
     and_then (gets (\<lambda>s. length (orders s))) (\<lambda>existing.
       if 0 < existing then ret ()
       else and_then (for_each (seed_order us ps) [0..<10]) (\<lambda>_. ret ()))))))"

subsection \<open>What an upsert does\<close>

lemma db_wf_users:
  assumes "db_wf s" "distinct (map u_id us)" "distinct (map u_email us)" "u_id ` set (users s) \<subseteq> u_id ` set us"
  shows "db_wf (s\<lparr>users := us\<rparr>)"
proof -
  have "pred_option (\<lambda>u. u \<in> u_id ` set us) x" if "pred_option (\<lambda>u. u \<in> u_id ` set (users s)) x" for x
    using that assms(4) by (cases x) auto
  then show ?thesis using assms(1-3) by (simp add: db_wf_defs)
qed

lemma db_wf_products:
  assumes "db_wf s" "serial (map p_id ps) n" "distinct (map p_name ps)" "p_id ` set (products s) \<subseteq> p_id ` set ps"
  shows "db_wf (s\<lparr>products := ps, seq_products := n\<rparr>)"
  using assms by (auto simp: db_wf_defs)

text \<open>A row of the users as the upsert leaves it.\<close>

definition user_is :: "string \<Rightarrow> string \<Rightarrow> user_role option \<Rightarrow> int \<Rightarrow> user \<Rightarrow> bool" where
  "user_is email name role balance u \<longleftrightarrow> u_email u = email \<and> u_name u = name \<and> u_balanceCents u = balance
     \<and> (\<forall>r. role = Some r \<longrightarrow> u_role u = r)"

definition product_is :: "string \<Rightarrow> int \<Rightarrow> string \<Rightarrow> int \<Rightarrow> product \<Rightarrow> bool" where
  "product_is name price cur stock p \<longleftrightarrow>
     p_name p = name \<and> p_priceCents p = price \<and> p_currency p = cur \<and> p_stock p = stock"

lemma upsert_user_ok:
  assumes "upsert_user newId email name role balance hash s = (Inr x, s')" "books s" "0 \<le> balance"
    and new: "newId \<notin> u_id ` set (users s)"
  shows "books s' \<and> s' = s\<lparr>users := users s'\<rparr> \<and> u_id ` set (users s') \<subseteq> insert newId (u_id ` set (users s))
    \<and> (\<exists>u \<in> set (users s'). user_is email name role balance u)
    \<and> (\<forall>u \<in> set (users s). u_email u \<noteq> email \<longrightarrow> u \<in> set (users s'))"
proof -
  define us where "us = users s"
  define f where "f = (\<lambda>u :: user. if u_email u = email
                then u\<lparr>u_name := name, u_balanceCents := balance,
                       u_role := (case role of None \<Rightarrow> u_role u | Some r \<Rightarrow> r),
                       u_passwordHash := (case hash of None \<Rightarrow> u_passwordHash u | Some h \<Rightarrow> Some h)\<rparr> else u)"
  define row where "row = \<lparr>u_id = newId, u_email = email, u_name = name, u_passwordHash = hash,
            u_role = (case role of None \<Rightarrow> customer | Some r \<Rightarrow> r), u_balanceCents = balance, u_createdAt = clock s\<rparr>"
  define us' where "us' = (if email \<in> u_email ` set us then map f us else us @ [row])"
  have run: "s' = s\<lparr>users := us'\<rparr>" "int4 balance"
    using assms(1) by (auto simp: upsert_user_def and_then_def guard_def us_def us'_def f_def row_def split: if_splits)
  have f: "u_id (f u) = u_id u" "u_email (f u) = u_email u" "u_email u \<noteq> email \<Longrightarrow> f u = u"
    "u_email u = email \<Longrightarrow> user_is email name role balance (f u)" for u
    by (simp_all add: f_def user_is_def)
  have row: "u_id row = newId" "u_email row = email" "user_is email name role balance row"
    by (simp_all add: row_def user_is_def)
  have d: "distinct (map u_id us)" "distinct (map u_email us)"
    using booksD(1) [OF assms(2)] by (simp_all add: db_wf_defs us_def)
  have ids: "u_id ` set us \<subseteq> u_id ` set us'" "u_id ` set us' \<subseteq> insert newId (u_id ` set us)"
    unfolding us'_def by (auto simp: f image_image row)
  have "distinct (map u_id us')" "distinct (map u_email us')"
    using d new unfolding us'_def by (auto simp: f row comp_def us_def)
  then have wf: "db_wf s'" using db_wf_users booksD(1) [OF assms(2)] ids(1) by (simp add: run us_def)
  have "user_typed (f u)" if "user_typed u" for u
    using that assms(3) run(2) by (simp add: f_def user_typed_def)
  moreover have "user_typed row" using assms(3) run(2) by (simp add: row_def user_typed_def)
  ultimately have "\<forall>u \<in> set us'. user_typed u"
    using booksD(3) [OF assms(2)] unfolding us'_def us_def by auto
  then have "books s'" using wf assms(2) unfolding books_def run(1) by simp
  moreover have "\<exists>u \<in> set us'. user_is email name role balance u"
    using f(4) row(3) unfolding us'_def by auto
  moreover have "\<forall>u \<in> set us. u_email u \<noteq> email \<longrightarrow> u \<in> set us'"
    using f(3) unfolding us'_def by (auto simp: image_iff) metis
  ultimately show ?thesis using ids(2) by (simp add: run(1) us_def)
qed

lemma upsert_product_ok:
  assumes "upsert_product name price cur stock s = (Inr x, s')" "books s"
    and spec: "product_typed \<lparr>p_id = 0, p_name = name, p_priceCents = price, p_stock = stock, p_currency = cur, p_createdAt = 0\<rparr>"
  shows "books s' \<and> s' = s\<lparr>products := products s', seq_products := seq_products s'\<rparr>
    \<and> (\<exists>p \<in> set (products s'). product_is name price cur stock p)
    \<and> (\<forall>p \<in> set (products s). p_name p \<noteq> name \<longrightarrow> p \<in> set (products s'))"
proof -
  define ps where "ps = products s"
  define f where "f = (\<lambda>p :: product. if p_name p = name then p\<lparr>p_priceCents := price, p_currency := cur, p_stock := stock\<rparr> else p)"
  define row where "row = \<lparr>p_id = seq_products s, p_name = name, p_priceCents = price, p_stock = stock,
            p_currency = cur, p_createdAt = clock s\<rparr>"
  define ps' where "ps' = (if name \<in> p_name ` set ps then map f ps else ps @ [row])"
  have run: "s' = s\<lparr>products := ps', seq_products := seq_products s + 1\<rparr>" "seq_products s \<le> 2147483647"
    using assms(1)
    by (auto simp: upsert_product_def and_then_def guard_def nextval_def ps_def ps'_def f_def row_def split: if_splits)
  have f: "p_id (f p) = p_id p" "p_name (f p) = p_name p" "p_name p \<noteq> name \<Longrightarrow> f p = p"
    "p_name p = name \<Longrightarrow> product_is name price cur stock (f p)" for p
    by (simp_all add: f_def product_is_def)
  have row: "p_id row = seq_products s" "p_name row = name" "product_is name price cur stock row"
    by (simp_all add: row_def product_is_def)
  have ser: "serial (map p_id ps) (seq_products s)" "distinct (map p_name ps)"
    using booksD(1) [OF assms(2)] by (simp_all add: db_wf_defs ps_def)
  have "serial (map p_id ps') (seq_products s + 1)"
    using serial_snoc [OF ser(1) run(2)] serial_grow [OF ser(1), of "seq_products s + 1"] unfolding ps'_def
    by (simp add: f row comp_def)
  moreover have "distinct (map p_name ps')" using ser(2) unfolding ps'_def by (simp add: f row comp_def)
  moreover have "p_id ` set ps \<subseteq> p_id ` set ps'" unfolding ps'_def by (auto simp: f image_image row)
  ultimately have wf: "db_wf s'" using db_wf_products booksD(1) [OF assms(2)] by (simp add: run ps_def)
  have "product_typed (f p)" if "product_typed p" for p
    using that spec by (simp add: f_def product_typed_def)
  moreover have "product_typed row" using spec by (simp add: row_def product_typed_def)
  ultimately have "\<forall>p \<in> set ps'. product_typed p"
    using booksD(2) [OF assms(2)] unfolding ps'_def ps_def by auto
  then have "books s'" using wf assms(2) unfolding books_def run(1) by simp
  moreover have "\<exists>p \<in> set ps'. product_is name price cur stock p"
    using f(4) row(3) unfolding ps'_def by auto
  moreover have "\<forall>p \<in> set ps. p_name p \<noteq> name \<longrightarrow> p \<in> set ps'"
    using f(3) unfolding ps'_def by (auto simp: image_iff) metis
  ultimately show ?thesis by (simp add: run(1) ps_def)
qed

definition seeded_user :: "db \<Rightarrow> user_spec \<Rightarrow> bool" where
  "seeded_user s u \<longleftrightarrow> (\<exists>row \<in> set (users s). user_is (us_email u) (us_name u) (Some (us_role u)) 500000 row)"

lemma upsert_users_ok:
  assumes "for_each (upsert_seed_user newIds hashes) xs s = (Inr ys, s')" "books s"
    and "distinct (map (\<lambda>x. us_email (snd x)) xs)" "distinct (map (\<lambda>x. newIds (fst x)) xs)"
    and "\<And>x. x \<in> set xs \<Longrightarrow> newIds (fst x) \<notin> u_id ` set (users s)"
  shows "books s' \<and> s' = s\<lparr>users := users s'\<rparr>
    \<and> (\<forall>x \<in> set xs. seeded_user s' (snd x))
    \<and> (\<forall>row \<in> set (users s). u_email row \<notin> (\<lambda>x. us_email (snd x)) ` set xs \<longrightarrow> row \<in> set (users s'))"
  using assms
proof (induction xs arbitrary: s ys)
  case (Cons x xs)
  obtain y s1 ys' where one: "upsert_seed_user newIds hashes x s = (Inr y, s1)"
    and rest: "for_each (upsert_seed_user newIds hashes) xs s1 = (Inr ys', s')"
    using Cons.prems(1) by (auto simp: and_then_ok_iff)
  have new: "newIds (fst x) \<notin> u_id ` set (users s)" using Cons.prems(5) by simp
  note step = upsert_user_ok [OF one [unfolded upsert_seed_user_def] Cons.prems(2) _ new, simplified]
  have fresh: "newIds (fst x') \<notin> u_id ` set (users s1)" if x': "x' \<in> set xs" for x'
  proof -
    have "newIds (fst x') \<noteq> newIds (fst x)" using Cons.prems(4) x' by (auto simp: image_iff)
    moreover have "newIds (fst x') \<notin> u_id ` set (users s)" using Cons.prems(5) x' by simp
    ultimately show ?thesis using step by blast
  qed
  have d: "distinct (map (\<lambda>x. us_email (snd x)) xs)" "distinct (map (\<lambda>x. newIds (fst x)) xs)" using Cons.prems(3,4) by simp_all
  note ih = Cons.IH [OF rest conjunct1 [OF step] d fresh]
  obtain row where row: "row \<in> set (users s1)" "user_is (us_email (snd x)) (us_name (snd x)) (Some (us_role (snd x))) 500000 row"
    using step by blast
  then have "u_email row \<notin> (\<lambda>x. us_email (snd x)) ` set xs" using Cons.prems(3) by (simp add: user_is_def)
  then have "row \<in> set (users s')" using ih row(1) by blast
  then have "seeded_user s' (snd x)" using row(2) unfolding seeded_user_def by blast
  moreover have "s' = s\<lparr>users := users s'\<rparr>"
    using arg_cong [of _ _ "\<lambda>t. t\<lparr>users := users s'\<rparr>", OF conjunct1 [OF conjunct2 [OF step]]] ih by simp
  moreover have "row \<in> set (users s')" if r: "row \<in> set (users s)" "u_email row \<notin> (\<lambda>x. us_email (snd x)) ` set (x # xs)" for row
  proof -
    have "row \<in> set (users s1)" using step r by simp
    then show ?thesis using ih r(2) by simp
  qed
  ultimately show ?case using ih by simp
qed simp

lemma upsert_products_ok:
  assumes "for_each (\<lambda>p. upsert_product (ps_name p) (ps_priceCents p) (ps_currency p) (ps_stock p)) xs s = (Inr ys, s')"
    and "books s" "distinct (map ps_name xs)"
    and "\<forall>p \<in> set xs. product_typed \<lparr>p_id = 0, p_name = ps_name p, p_priceCents = ps_priceCents p, p_stock = ps_stock p,
           p_currency = ps_currency p, p_createdAt = 0\<rparr>"
  shows "books s' \<and> s' = s\<lparr>products := products s', seq_products := seq_products s'\<rparr>
    \<and> (\<forall>p \<in> set xs. \<exists>row \<in> set (products s'). product_is (ps_name p) (ps_priceCents p) (ps_currency p) (ps_stock p) row)
    \<and> (\<forall>row \<in> set (products s). p_name row \<notin> ps_name ` set xs \<longrightarrow> row \<in> set (products s'))"
  using assms
proof (induction xs arbitrary: s ys)
  case (Cons x xs)
  obtain y s1 ys' where one: "upsert_product (ps_name x) (ps_priceCents x) (ps_currency x) (ps_stock x) s = (Inr y, s1)"
    and rest: "for_each (\<lambda>p. upsert_product (ps_name p) (ps_priceCents p) (ps_currency p) (ps_stock p)) xs s1 = (Inr ys', s')"
    using Cons.prems(1) by (auto simp: and_then_ok_iff)
  note step = upsert_product_ok [OF one Cons.prems(2)]
  have typed: "product_typed \<lparr>p_id = 0, p_name = ps_name x, p_priceCents = ps_priceCents x, p_stock = ps_stock x,
           p_currency = ps_currency x, p_createdAt = 0\<rparr>" using Cons.prems(4) by simp
  have ih: "books s' \<and> s' = s1\<lparr>products := products s', seq_products := seq_products s'\<rparr>
    \<and> (\<forall>p \<in> set xs. \<exists>row \<in> set (products s'). product_is (ps_name p) (ps_priceCents p) (ps_currency p) (ps_stock p) row)
    \<and> (\<forall>row \<in> set (products s1). p_name row \<notin> ps_name ` set xs \<longrightarrow> row \<in> set (products s'))"
    using Cons.IH [OF rest] step [OF typed] Cons.prems(3,4) by simp
  obtain row where row: "row \<in> set (products s1)" "product_is (ps_name x) (ps_priceCents x) (ps_currency x) (ps_stock x) row"
    using step [OF typed] by blast
  then have "row \<in> set (products s')" using ih Cons.prems(3) by (auto simp: product_is_def)
  moreover have "s' = s\<lparr>products := products s', seq_products := seq_products s'\<rparr>"
    using ih step [OF typed] by (metis (no_types, lifting) db.surjective db.update_convs(3,12))
  ultimately show ?case using ih step [OF typed] row(2) by auto
qed simp

subsection \<open>The seeded orders\<close>

lemma items_specs_ok:
  "items_specs i ps \<noteq> []" "ps \<noteq> [] \<Longrightarrow> (p, q) \<in> set (items_specs i ps) \<Longrightarrow> p \<in> set ps \<and> 1 \<le> q"
  by (auto simp: items_specs_def)

lemma items_specs_bounds: "(p, q) \<in> set (items_specs i ps) \<Longrightarrow> q \<le> 3" "length (items_specs i ps) \<le> 3"
proof -
  have m: "(n :: nat) mod 3 \<le> 2" for n by (rule less_Suc_eq_le [THEN iffD1]) simp
  show "length (items_specs i ps) \<le> 3" using m [of i] by (simp add: items_specs_def del: less_Suc_eq_le)
  assume "(p, q) \<in> set (items_specs i ps)"
  then obtain j where "q = int ((i + j) mod 3) + 1" by (auto simp: items_specs_def)
  then show "q \<le> 3" using m [of "i + j"] by linarith
qed

lemma keeps_db_wf_seed_order: "keeps db_wf (seed_order us ps i)"
proof -
  have items: "keeps db_wf (for_each (\<lambda>(p, q). and_then (insert_order_item oid (p_id p) q (p_priceCents p)) (\<lambda>r. ret (r, Some p))) specs)"
    "forward (for_each (\<lambda>(p, q). and_then (insert_order_item oid (p_id p) q (p_priceCents p)) (\<lambda>r. ret (r, Some p))) specs)"
    for oid specs
    by (auto intro!: keeps_intro forward_intro split: prod.splits)
  show ?thesis unfolding seed_order_def Let_def
    by (intro keeps_and_then keeps_db_wf_transaction items) (auto intro!: keeps_intro forward_intro)
qed

lemma seed_order_ok:
  assumes "seed_order us ps i s = (Inr x, s')" "books s" "us \<noteq> []" "ps \<noteq> []"
    and "set ps \<subseteq> set (products s)"
  shows "books s' \<and> users s' = users s \<and> products s' = products s \<and> length (orders s') = Suc (length (orders s))"
proof -
  let ?u = "us ! (i mod length us)" and ?st = "seed_statuses ! (i mod length seed_statuses)"
  let ?specs = "items_specs i ps"
  let ?total = "fold (\<lambda>(p, q) t. t + p_priceCents p * q) ?specs 0"
  obtain r s1 rows where r: "insert_order (Some (u_id ?u)) (u_email ?u) ?st ?total ''UAH'' s = (Inr r, s1)"
    and rows: "for_each (\<lambda>(p, q). and_then (insert_order_item (o_id r) (p_id p) q (p_priceCents p))
                                                  (\<lambda>r. ret (r, Some p))) ?specs s1 = (Inr rows, s')"
    using assms(1) by (auto simp: seed_order_def Let_def and_then_ok_iff transaction_ok_iff)
  note o = insert_order_ok [OF r]
  note items = save_items_ok [OF rows]
  have total: "items_total (map fst rows) = (\<Sum>(p, q)\<leftarrow>?specs. p_priceCents p * q)"
    using conjunct2 [OF items] by (induction rule: list_all2_induct) (auto simp: items_total_def)
  have "books s'"
  proof (rule books_new_order [OF assms(2)])
    show "db_wf s'" by (rule keepsD' [OF keeps_db_wf_seed_order booksD(1) [OF assms(2)] assms(1)])
    show "orders s' = orders s @ [r]" "order_items s' = order_items s @ map fst rows" using o items by simp_all
    show "map fst rows \<noteq> []" using items items_specs_ok(1) [of i ps] by auto
    show "i_orderId it = o_id r \<and> item_typed it" if it: "it \<in> set (map fst rows)" for it
    proof -
      obtain po where "(it, po) \<in> set rows" using it by auto
      from list_all2_right [OF conjunct2 [OF items] this] obtain p q where pq: "(p, q) \<in> set ?specs"
        "i_quantity it = q" "i_orderId it = o_id r" "i_priceAtPurchaseCents it = p_priceCents p" by auto
      then have "product_typed p" "1 \<le> q"
        using items_specs_ok(2) [OF assms(4) pq(1)] assms(5) booksD(2) [OF assms(2)] by blast+
      then show ?thesis using pq by (simp add: item_typed_def product_typed_def)
    qed
    show "product_typed p" if "p \<in> set (products s')" for p using that o items booksD(2) [OF assms(2)] by simp
    show "user_typed u" if "u \<in> set (users s')" for u using that o items booksD(3) [OF assms(2)] by simp
    have "?st \<in> set seed_statuses" by (intro nth_mem) (simp add: seed_statuses_def)
    then show "o_status r \<in> set ORDER_STATUSES" using o by (auto simp: seed_statuses_def ORDER_STATUSES_def)
    show "o_currency r \<in> set PRODUCT_CURRENCIES" using o by (simp add: PRODUCT_CURRENCIES_def)
    show "o_totalCents r = items_total (map fst rows)" "int4 (o_totalCents r)" using o total by (simp_all add: total_fold)
  qed
  then show ?thesis using o items by simp
qed

lemma seed_orders_ok:
  assumes "for_each (seed_order us ps) is s = (Inr ys, s')" "books s" "us \<noteq> []" "ps \<noteq> []" "set ps \<subseteq> set (products s)"
  shows "books s' \<and> users s' = users s \<and> products s' = products s \<and> length (orders s') = length (orders s) + length is"
  using assms
proof (induction "is" arbitrary: s ys)
  case (Cons i "is")
  obtain y s1 ys' where one: "seed_order us ps i s = (Inr y, s1)" and rest: "for_each (seed_order us ps) is s1 = (Inr ys', s')"
    using Cons.prems(1) by (auto simp: and_then_ok_iff)
  note step = seed_order_ok [OF one Cons.prems(2-5)]
  then show ?case using Cons.IH [OF rest _ Cons.prems(3,4)] Cons.prems(5) by simp
qed simp

lemma utf8_eq: "list_all (\<lambda>n. n < 256) xs \<Longrightarrow> list_all (\<lambda>n. n < 256) ys \<Longrightarrow> utf8 xs = utf8 ys \<longleftrightarrow> xs = ys"
proof (induction xs arbitrary: ys)
  case (Cons x xs)
  have "(char_of x :: char) = char_of y \<longleftrightarrow> x = y" if "x < 256" "y < 256" for x y :: nat
    using that by (metis of_char_of mod_less)
  then show ?case using Cons by (cases ys) (auto simp: utf8_def)
qed (auto simp: utf8_def)

lemma utf8_short: "length xs \<le> 200 \<Longrightarrow> char_count (utf8 xs) \<le> 200"
  unfolding char_count_def by (rule le_trans [OF length_filter_le]) (simp add: utf8_def)

lemma utf8_empty: "utf8 xs = [] \<longleftrightarrow> xs = []"
  by (simp add: utf8_def)

lemma seed_specs_distinct:
  "distinct (map us_email seedUsers)" "distinct (map ps_name productsData)" "length seedUsers = 6"
  by (simp_all add: seedUsers_def productsData_def utf8_eq)

lemma seed_specs_typed:
  "\<forall>p \<in> set productsData. product_typed \<lparr>p_id = 0, p_name = ps_name p, p_priceCents = ps_priceCents p, p_stock = ps_stock p,
           p_currency = ps_currency p, p_createdAt = 0\<rparr>"
  by (simp add: productsData_def product_typed_def utf8_short utf8_empty PRODUCT_CURRENCIES_def)

lemma distinct_numbered:
  fixes f :: "nat \<Rightarrow> 'b"
  assumes "map fst xs = [0..<n]" "inj_on f {..<n}"
  shows "distinct (map (\<lambda>x. f (fst x)) xs)"
proof -
  have "map (\<lambda>x. f (fst x)) xs = map f [0..<n]" unfolding assms(1) [symmetric] by (simp only: map_map comp_def)
  then show ?thesis using assms(2) by (simp only: distinct_map distinct_upt set_upt lessThan_atLeast0)
qed

lemma sort_key_Nil: "sort_key f xs = [] \<longleftrightarrow> xs = []"
  by (metis length_0_conv length_sort)

lemma seed_phases:
  "and_then A (\<lambda>_. and_then (gets f) (\<lambda>us. and_then B (\<lambda>_. and_then (gets g) (\<lambda>ps. C us ps)))) s = (Inr x, s') \<Longrightarrow>
   \<exists>a s1 b s2. A s = (Inr a, s1) \<and> B s1 = (Inr b, s2) \<and> C (f s1) (g s2) s2 = (Inr x, s')"
  by (auto simp: and_then_ok_iff)

lemma run_and_gets: "and_then (gets f) m s = m (f s) s"
  by (simp add: and_then_def)

lemma seed_users_ok:
  assumes "for_each (upsert_seed_user newIds hashes) (enumerate 0 seedUsers) s = (Inr ys, s')" "books s"
    and "inj_on newIds {..<6}" "\<And>k. k < 6 \<Longrightarrow> newIds k \<notin> u_id ` set (users s)"
  shows "books s' \<and> s' = s\<lparr>users := users s'\<rparr> \<and> users s' \<noteq> [] \<and> (\<forall>u \<in> set seedUsers. seeded_user s' u)"
proof -
  let ?xs = "enumerate 0 seedUsers"
  have keys: "map fst ?xs = [0..<6]" "map snd ?xs = seedUsers"
    using seed_specs_distinct(3) by (simp_all add: enumerate_eq_zip)
  have "map (\<lambda>x. us_email (snd x)) ?xs = map us_email (map snd ?xs)" by (simp only: map_map comp_def)
  then have emails: "distinct (map (\<lambda>x. us_email (snd x)) ?xs)" using seed_specs_distinct(1) by (simp only: keys(2))
  note ids = distinct_numbered [OF keys(1) assms(3)]
  have new: "newIds (fst x) \<notin> u_id ` set (users s)" if "x \<in> set ?xs" for x
  proof -
    have "fst x \<in> set (map fst ?xs)" using that unfolding set_map by (rule imageI)
    then show ?thesis unfolding keys using assms(4) by (simp del: upt_rec_numeral)
  qed
  note users_ok = upsert_users_ok [OF assms(1,2) emails ids new]
  have all: "\<forall>u \<in> set seedUsers. seeded_user s' u" using users_ok keys(2) by (metis (no_types, lifting) imageE list.set_map)
  then have "users s' \<noteq> []" by (force simp: seeded_user_def seedUsers_def)
  then show ?thesis using users_ok all by blast
qed

lemma seed_products_ok:
  assumes "for_each (\<lambda>p. upsert_product (ps_name p) (ps_priceCents p) (ps_currency p) (ps_stock p)) productsData s = (Inr ys, s')"
    and "books s"
  shows "books s' \<and> s' = s\<lparr>products := products s', seq_products := seq_products s'\<rparr> \<and> products s' \<noteq> []
    \<and> (\<forall>p \<in> set productsData. \<exists>row \<in> set (products s').
         product_is (ps_name p) (ps_priceCents p) (ps_currency p) (ps_stock p) row)"
proof -
  note ok = upsert_products_ok [OF assms seed_specs_distinct(2) seed_specs_typed]
  then have "products s' \<noteq> []" by (force simp: productsData_def)
  then show ?thesis using ok by blast
qed

text \<open>Seeding leaves a well-typed shop, and can be repeated. When it succeeds every user and product of
  the script is there with the values of the script (so a second run puts stocks and balances back), all rows
  are well-typed, every total being the sum of its items; orders are made only when there were none, ten of
  them, and otherwise orders and items stay as they are.\<close>

theorem seed_correct:
  assumes "books s" and "seed newIds hashes s = (Inr (), s')"
    and "inj_on newIds {..<6}" and "\<And>k. k < 6 \<Longrightarrow> newIds k \<notin> u_id ` set (users s)"
  shows "books s' \<and> (\<forall>u \<in> set seedUsers. seeded_user s' u)
    \<and> (\<forall>p \<in> set productsData. \<exists>row \<in> set (products s').
         product_is (ps_name p) (ps_priceCents p) (ps_currency p) (ps_stock p) row)
    \<and> (if orders s = [] then length (orders s') = 10 else orders s' = orders s \<and> order_items s' = order_items s)"
proof -
  let ?xs = "enumerate 0 seedUsers"
  obtain us1 s1 ps1 s2 where u: "for_each (upsert_seed_user newIds hashes) ?xs s = (Inr us1, s1)"
    and p: "for_each (\<lambda>p. upsert_product (ps_name p) (ps_priceCents p) (ps_currency p) (ps_stock p)) productsData s1 = (Inr ps1, s2)"
    and o: "(if 0 < length (orders s2) then ret ()
       else and_then (for_each (seed_order (sort_key u_id (users s1)) (sort_key p_id (products s2))) [0..<10]) (\<lambda>_. ret ())) s2
      = (Inr (), s')"
    using seed_phases [OF assms(2) [unfolded seed_def]] unfolding run_and_gets transaction_ok_iff by blast
  note users_ok = seed_users_ok [OF u assms(1,3,4)]
  note products_ok = seed_products_ok [OF p conjunct1 [OF users_ok]]
  have s12: "s1 = s\<lparr>users := users s1\<rparr>" "s2 = s1\<lparr>products := products s2, seq_products := seq_products s2\<rparr>"
    using users_ok products_ok by blast+
  have same: "users s2 = users s1" "orders s2 = orders s" "order_items s2 = order_items s"
    using arg_cong [OF s12(2), of users] arg_cong [OF s12(2), of orders] arg_cong [OF s12(2), of order_items]
      arg_cong [OF s12(1), of orders] arg_cong [OF s12(1), of order_items] by simp_all
  have ne: "users s1 \<noteq> []" "products s2 \<noteq> []" using users_ok products_ok by blast+
  have fin: "books s' \<and> users s' = users s1 \<and> products s' = products s2
    \<and> (if orders s = [] then length (orders s') = 10 else orders s' = orders s \<and> order_items s' = order_items s)"
  proof (cases "orders s = []")
    case True
    obtain ys where "for_each (seed_order (sort_key u_id (users s1)) (sort_key p_id (products s2))) [0..<10] s2 = (Inr ys, s')"
      using o same(2) True by (auto simp: and_then_ok_iff simp del: for_each.simps upt_rec_numeral)
    from seed_orders_ok [OF this conjunct1 [OF products_ok]] ne same True show ?thesis
      by (simp add: sort_key_Nil del: upt_rec_numeral)
  next
    case False
    then show ?thesis using o same products_ok by (simp del: for_each.simps upt_rec_numeral)
  qed
  then show ?thesis using users_ok products_ok same(1) by (simp add: seeded_user_def)
qed

subsection \<open>Seeding an empty database succeeds\<close>

definition cheap :: "db \<Rightarrow> bool" where
  "cheap s \<longleftrightarrow> (\<forall>p \<in> set (products s). p_priceCents p \<le> 100000000) \<and> (\<forall>u \<in> set (users s). int4 (u_id u))"

lemma upsert_users_run:
  assumes "cheap s" "\<And>k. int4 (newIds k)"
  shows "\<exists>ys s'. for_each (upsert_seed_user newIds hashes) xs s = (Inr ys, s') \<and> cheap s'
    \<and> seq_products s' = seq_products s \<and> seq_orders s' = seq_orders s \<and> seq_items s' = seq_items s"
  using assms(1)
proof (induction xs arbitrary: s)
  case (Cons x xs)
  define us where "us = users (snd (upsert_seed_user newIds hashes x s))"
  have run: "upsert_seed_user newIds hashes x s = (Inr (), s\<lparr>users := us\<rparr>)"
    by (simp add: us_def upsert_seed_user_def upsert_user_def and_then_def int4_def)
  have "\<forall>u \<in> set us. int4 (u_id u)"
    using Cons.prems assms(2) by (auto simp: us_def upsert_seed_user_def upsert_user_def and_then_def cheap_def split: if_splits)
  then have "cheap (s\<lparr>users := us\<rparr>)" using Cons.prems by (simp add: cheap_def)
  from Cons.IH [OF this] show ?case using run by (auto simp: and_then_ok_iff)
qed simp

lemma upsert_products_run:
  assumes "cheap s" "\<forall>p \<in> set xs. 0 \<le> ps_priceCents p \<and> ps_priceCents p \<le> 100000000 \<and> int4 (ps_stock p)"
    and "seq_products s + int (length xs) \<le> 2147483648"
  shows "\<exists>ys s'. for_each (\<lambda>p. upsert_product (ps_name p) (ps_priceCents p) (ps_currency p) (ps_stock p)) xs s = (Inr ys, s')
    \<and> cheap s' \<and> seq_orders s' = seq_orders s \<and> seq_items s' = seq_items s"
  using assms
proof (induction xs arbitrary: s)
  case (Cons x xs)
  define ps where "ps = products (snd (upsert_product (ps_name x) (ps_priceCents x) (ps_currency x) (ps_stock x) s))"
  have run: "upsert_product (ps_name x) (ps_priceCents x) (ps_currency x) (ps_stock x) s
      = (Inr (), s\<lparr>products := ps, seq_products := seq_products s + 1\<rparr>)" "\<forall>p \<in> set ps. p_priceCents p \<le> 100000000"
    using Cons.prems
    by (simp add: ps_def upsert_product_def and_then_def nextval_def int4_def,
        auto simp: ps_def upsert_product_def and_then_def nextval_def guard_def cheap_def split: if_splits)
  let ?s = "s\<lparr>products := ps, seq_products := seq_products s + 1\<rparr>"
  have "cheap ?s" using run(2) Cons.prems(1) by (simp add: cheap_def)
  then obtain ys s' where "for_each (\<lambda>p. upsert_product (ps_name p) (ps_priceCents p) (ps_currency p) (ps_stock p)) xs ?s
      = (Inr ys, s')" "cheap s' \<and> seq_orders s' = seq_orders s \<and> seq_items s' = seq_items s"
    using Cons.IH [of ?s] Cons.prems(2,3) by auto
  then show ?case using run(1) by (simp add: and_then_ok_iff)
qed simp

lemma insert_items_run:
  assumes "oid \<in> o_id ` set (orders s)" "\<forall>(p, q) \<in> set specs. p \<in> set (products s) \<and> int4 (p_priceCents p) \<and> int4 q"
    and "seq_items s + int (length specs) \<le> 2147483648"
  shows "\<exists>rows s'. for_each (\<lambda>(p, q). and_then (insert_order_item oid (p_id p) q (p_priceCents p)) (\<lambda>r. ret (r, Some p))) specs s
    = (Inr rows, s')"
  using assms
proof (induction specs arbitrary: s)
  case (Cons x specs)
  obtain p q where x: "x = (p, q)" by (cases x)
  obtain r s1 where run: "insert_order_item oid (p_id p) q (p_priceCents p) s = (Inr r, s1)"
    using Cons.prems x by (fastforce simp: insert_order_item_def and_then_def nextval_def guard_def Let_def)
  then have "s1 = s\<lparr>order_items := order_items s @ [r], seq_items := seq_items s + 1\<rparr>"
    using insert_order_item_ok by blast
  then show ?case using Cons.IH [of s1] Cons.prems run x by (auto simp: and_then_ok_iff)
qed simp

lemma insert_order_run:
  assumes "int4 tot" "u \<in> set (users s)" "int4 (u_id u)" "seq_orders s \<le> 2147483647"
  shows "\<exists>r s'. insert_order (Some (u_id u)) email status tot cur s = (Inr r, s')"
proof -
  have "u_id u \<in> u_id ` set (users s)" using assms(2) by simp
  then show ?thesis using assms(1,3,4) by (simp add: insert_order_def and_then_def nextval_def Let_def)
qed

lemma specs_total:
  "\<forall>(p, q) \<in> set xs. 0 \<le> p_priceCents p \<and> p_priceCents p \<le> 100000000 \<and> 1 \<le> q \<and> q \<le> 3 \<Longrightarrow>
   0 \<le> (\<Sum>(p, q)\<leftarrow>xs. p_priceCents p * q) \<and> (\<Sum>(p, q)\<leftarrow>xs. p_priceCents p * q) \<le> 300000000 * int (length xs)"
proof (induction xs)
  case (Cons x xs)
  obtain p q where x: "x = (p, q)" by (cases x)
  have b: "0 \<le> p_priceCents p" "p_priceCents p \<le> 100000000" "1 \<le> q" "q \<le> 3" using Cons.prems x by auto
  then have "0 \<le> p_priceCents p * q" by simp
  moreover have "p_priceCents p * q \<le> 100000000 * 3" using b by (intro mult_mono) simp_all
  ultimately show ?case using Cons x by simp
qed simp

lemma seed_order_run:
  assumes "cheap s" "us \<noteq> []" "ps \<noteq> []" "set us \<subseteq> set (users s)" "set ps \<subseteq> set (products s)"
    and "\<forall>p \<in> set ps. 0 \<le> p_priceCents p" "seq_orders s \<le> 2147483647" "seq_items s + 3 \<le> 2147483648"
  shows "\<exists>s'. seed_order us ps i s = (Inr (), s') \<and> users s' = users s \<and> products s' = products s
    \<and> seq_orders s' = seq_orders s + 1 \<and> seq_items s' \<le> seq_items s + 3"
proof -
  let ?u = "us ! (i mod length us)" and ?specs = "items_specs i ps"
  have u: "?u \<in> set (users s)" using assms(2,4) by (meson length_greater_0_conv mod_less_divisor nth_mem subsetD)
  have spec: "p \<in> set (products s) \<and> 0 \<le> p_priceCents p \<and> p_priceCents p \<le> 100000000 \<and> 1 \<le> q \<and> q \<le> 3"
    if pq: "(p, q) \<in> set ?specs" for p q
  proof -
    have "p \<in> set ps" "1 \<le> q" using items_specs_ok(2) [OF assms(3) pq] by blast+
    moreover from this have "p \<in> set (products s)" using assms(5) by blast
    ultimately show ?thesis using items_specs_bounds(1) [OF pq] assms(1,6) by (simp add: cheap_def)
  qed
  note len = items_specs_bounds(2) [of i ps]
  have "\<forall>(p, q) \<in> set ?specs. 0 \<le> p_priceCents p \<and> p_priceCents p \<le> 100000000 \<and> 1 \<le> q \<and> q \<le> 3" using spec by blast
  from specs_total [OF this] have total: "int4 (fold (\<lambda>(p, q) t. t + p_priceCents p * q) ?specs 0)"
    using len by (simp add: total_fold int4_def)
  obtain r s1 where r: "insert_order (Some (u_id ?u)) (u_email ?u) (seed_statuses ! (i mod length seed_statuses))
      (fold (\<lambda>(p, q) t. t + p_priceCents p * q) ?specs 0) ''UAH'' s = (Inr r, s1)"
    using insert_order_run [OF total u _ assms(7)] u assms(1) unfolding cheap_def by blast
  note o = insert_order_ok [OF r]
  have new: "o_id r \<in> o_id ` set (orders s1)" using o by simp
  have "int4 (p_priceCents p) \<and> int4 q \<and> p \<in> set (products s1)" if "(p, q) \<in> set ?specs" for p q
    using spec [OF that] o by (simp add: int4_def)
  then have known: "\<forall>(p, q) \<in> set ?specs. p \<in> set (products s1) \<and> int4 (p_priceCents p) \<and> int4 q" by blast
  have room: "seq_items s1 + int (length ?specs) \<le> 2147483648" using o len assms(8) by simp
  from insert_items_run [OF new known room] obtain rows s' where rows: "for_each (\<lambda>(p, q). and_then
      (insert_order_item (o_id r) (p_id p) q (p_priceCents p)) (\<lambda>r. ret (r, Some p))) ?specs s1 = (Inr rows, s')" by blast
  note items = save_items_ok [OF rows]
  have "length rows = length ?specs" using list_all2_lengthD [OF conjunct2 [OF items]] by simp
  moreover have "seed_order us ps i s = (Inr (), s')"
    unfolding seed_order_def Let_def by (simp only: and_then_ok_iff transaction_ok_iff run_ret prod.inject) (use r rows in blast)
  ultimately show ?thesis using o items len by auto
qed

lemma seed_orders_run:
  assumes "cheap s" "us \<noteq> []" "ps \<noteq> []" "set us \<subseteq> set (users s)" "set ps \<subseteq> set (products s)"
    and "\<forall>p \<in> set ps. 0 \<le> p_priceCents p"
    and "seq_orders s + int (length is) \<le> 2147483648" "seq_items s + 3 * int (length is) \<le> 2147483648"
  shows "\<exists>ys s'. for_each (seed_order us ps) is s = (Inr ys, s')"
  using assms
proof (induction "is" arbitrary: s)
  case (Cons i "is")
  obtain s1 where one: "seed_order us ps i s = (Inr (), s1)" "users s1 = users s" "products s1 = products s"
    "seq_orders s1 = seq_orders s + 1" "seq_items s1 \<le> seq_items s + 3"
    using seed_order_run [OF Cons.prems(1-6)] Cons.prems(7,8) by auto
  have "cheap s1" using Cons.prems(1) one by (simp add: cheap_def)
  then obtain ys s' where "for_each (seed_order us ps) is s1 = (Inr ys, s')"
    using Cons.IH [of s1] Cons.prems one by auto
  then show ?case using one(1) by (auto simp: and_then_ok_iff)
qed simp

lemma books_empty: "books empty_db"
  using db_wf_empty by (simp add: books_def) (simp add: empty_db_def)

lemma seed_empty_run: "\<exists>s'. seed (\<lambda>k. int (k mod 6) + 1) hashes empty_db = (Inr (), s')"
proof -
  let ?ids = "\<lambda>k :: nat. int (k mod 6) + 1"
  let ?products = "for_each (\<lambda>p. upsert_product (ps_name p) (ps_priceCents p) (ps_currency p) (ps_stock p)) productsData"
  have "int4 (?ids k)" for k by (simp add: int4_def)
  moreover have "cheap empty_db" by (simp add: cheap_def empty_db_def)
  ultimately obtain us1 s1 where u: "for_each (upsert_seed_user ?ids hashes) (enumerate 0 seedUsers) empty_db = (Inr us1, s1)"
    and s1: "cheap s1" "seq_products s1 = 1" "seq_orders s1 = 1" "seq_items s1 = 1"
    using upsert_users_run [of empty_db ?ids hashes "enumerate 0 seedUsers"] by (auto simp: empty_db_def)
  have "inj_on ?ids {..<6}" by (auto simp: inj_on_def)
  note users_ok = seed_users_ok [OF u books_empty this]
  have cheap_specs: "\<forall>p \<in> set productsData. 0 \<le> ps_priceCents p \<and> ps_priceCents p \<le> 100000000 \<and> int4 (ps_stock p)"
    by (simp add: productsData_def int4_def)
  have "length productsData = 8" by (simp add: productsData_def)
  then obtain ps1 s2 where p: "?products s1 = (Inr ps1, s2)" and s2: "cheap s2" "seq_orders s2 = 1" "seq_items s2 = 1"
    using upsert_products_run [OF s1(1) cheap_specs] s1 by auto
  have b1: "books s1" "s1 = empty_db\<lparr>users := users s1\<rparr>" "users s1 \<noteq> []" using users_ok by (simp_all add: empty_db_def)
  note products_ok = seed_products_ok [OF p b1(1)]
  have s12: "s2 = s1\<lparr>products := products s2, seq_products := seq_products s2\<rparr>" using products_ok by blast
  have "orders s2 = []" "users s2 = users s1"
    using arg_cong [OF s12, of orders] arg_cong [OF b1(2), of orders] arg_cong [OF s12, of users] by (simp_all add: empty_db_def)
  moreover have "\<forall>p \<in> set (products s2). 0 \<le> p_priceCents p"
    using products_ok booksD(2) [of s2] by (fastforce simp: product_typed_def)
  ultimately obtain ys s3 where "for_each (seed_order (sort_key u_id (users s1)) (sort_key p_id (products s2))) [0..<10] s2
      = (Inr ys, s3)"
    using seed_orders_run [OF s2(1), of "sort_key u_id (users s1)" "sort_key p_id (products s2)" "[0..<10]"] products_ok b1(3) s2
    by (auto simp: sort_key_Nil simp del: upt_rec_numeral for_each.simps)
  then have "seed ?ids hashes empty_db = (Inr (), s3)"
    unfolding seed_def using u p \<open>orders s2 = []\<close>
    by (simp add: and_then_def transaction_def del: upt_rec_numeral for_each.simps)
  then show ?thesis by blast
qed

theorem seed_correct_witness:
  "\<exists>s'. seed (\<lambda>k. int (k mod 6) + 1) (\<lambda>k. ''hash'') empty_db = (Inr (), s') \<and> length (orders s') = 10 \<and> books s'"
proof -
  obtain s' where run: "seed (\<lambda>k. int (k mod 6) + 1) (\<lambda>k. ''hash'') empty_db = (Inr (), s')" using seed_empty_run by blast
  have "inj_on (\<lambda>k :: nat. int (k mod 6) + 1) {..<6}" by (auto simp: inj_on_def)
  from seed_correct [OF books_empty run this] run show ?thesis by (simp add: empty_db_def)
qed

end
