(* ===== verification/Race.thy ===== *)
theory Race
  imports Seed
begin

text \<open>
  The demonstration \<open>src/demo-race.ts\<close>: fifty checkouts of one piece each, at the same time, of a product
  with ten pieces. The first statement of a checkout locks the row of the product until the transaction
  ends, so concurrent checkouts of one product take effect one after the other; the list of attempts is
  the order in which they do. The theory proves the check that the script prints.
\<close>

definition ATTEMPTS :: nat where "ATTEMPTS = 50"
definition PRODUCT_NAME :: string where "PRODUCT_NAME = ''DEMO_RACE_PRODUCT''"
definition INITIAL_STOCK :: int where "INITIAL_STOCK = 10"
definition BUYER_EMAIL :: string where "BUYER_EMAIL = ''demo-race@example.com''"

record attempt =
  at_ok :: bool
  at_expected :: bool

definition attempt_of :: "error + int \<Rightarrow> attempt" where
  "attempt_of r =
     (case r of
        Inr _ \<Rightarrow> \<lparr>at_ok = True, at_expected = False\<rparr>
      | Inl e \<Rightarrow> \<lparr>at_ok = False,
                 at_expected = (case e of InsufficientStockError _ \<Rightarrow> True | InsufficientFundsError _ \<Rightarrow> True | _ \<Rightarrow> False)\<rparr>)"

text \<open>Each attempt with the uuid and the time of its event.\<close>

fun run_attempts :: "int \<Rightarrow> int \<Rightarrow> (string \<times> int) list \<Rightarrow> attempt list db_action" where
  "run_attempts buyerId productId [] = ret []"
| "run_attempts buyerId productId ((uuid, now) # cs) =
     (\<lambda>s. let (r, s1) = checkout buyerId productId (Num 1) uuid now s
          in and_then (run_attempts buyerId productId cs) (\<lambda>rs. ret (attempt_of r # rs)) s1)"

text \<open>\<open>findOneByOrFail\<close>.\<close>

definition find_or_fail :: "'a option \<Rightarrow> 'a db_action" where
  "find_or_fail x = (case x of None \<Rightarrow> throw (PlainError ''EntityNotFoundError'') | Some a \<Rightarrow> ret a)"

definition demo_race :: "int \<Rightarrow> (string \<times> int) list \<Rightarrow> bool db_action" where
  "demo_race newId calls =
     and_then (transaction (upsert_product PRODUCT_NAME 10000 ''UAH'' INITIAL_STOCK)) (\<lambda>_.
     and_then (transaction (upsert_user newId BUYER_EMAIL ''Demo Race Buyer'' None 100000000 None)) (\<lambda>_.
     and_then (and_then (gets (\<lambda>s. find (\<lambda>p. p_name p = PRODUCT_NAME) (products s))) find_or_fail) (\<lambda>product.
     and_then (and_then (gets (\<lambda>s. find (\<lambda>u. u_email u = BUYER_EMAIL) (users s))) find_or_fail) (\<lambda>buyer.
     and_then (run_attempts (u_id buyer) (p_id product) calls) (\<lambda>results.
       let successful = length (filter at_ok results);
           unexpected = filter (\<lambda>r. \<not> at_ok r \<and> \<not> at_expected r) results
       in
     and_then (and_then (gets (\<lambda>s. find (\<lambda>p. p_name p = PRODUCT_NAME) (products s))) find_or_fail) (\<lambda>finalProduct.
     and_then (gets (\<lambda>s. length (filter (\<lambda>p. p_stock p < 0) (products s)))) (\<lambda>negativeStockRows.
       ret (int successful = INITIAL_STOCK \<and> p_stock finalProduct = 0 \<and> negativeStockRows = 0 \<and> unexpected = []))))))))"

subsection \<open>One attempt\<close>

definition ready :: "db \<Rightarrow> int \<Rightarrow> int \<Rightarrow> (string \<times> int) list \<Rightarrow> product \<Rightarrow> user \<Rightarrow> bool" where
  "ready s i k calls p u \<longleftrightarrow> books s \<and> p \<in> set (products s) \<and> p_id p = i \<and> u \<in> set (users s) \<and> u_id u = k \<and> int4 k
     \<and> p_priceCents p = 10000 \<and> 10000 * p_stock p \<le> u_balanceCents u
     \<and> distinct (map fst calls) \<and> fst ` set calls \<inter> ob_id ` set (outbox s) = {}
     \<and> seq_orders s + int (length calls) \<le> 2147483648 \<and> seq_items s + int (length calls) \<le> 2147483648
     \<and> seq_jobs s + int (length calls) \<le> 2147483648"

lemma readyD:
  assumes "ready s i k ((uuid, now) # calls) p u"
  shows "books s" "db_wf s" "p \<in> set (products s)" "p_id p = i" "u \<in> set (users s)" "u_id u = k" "int4 k"
    "p_priceCents p = 10000" "10000 * p_stock p \<le> u_balanceCents u" "uuid \<notin> ob_id ` set (outbox s)"
    "seq_orders s \<le> 2147483647" "seq_items s \<le> 2147483647" "seq_jobs s \<le> 2147483647" "int4 i"
  using assms booksD(1) [of s] by (auto simp: ready_def db_wf_defs serial_def)

lemma only_product:
  assumes "db_wf s" "p \<in> set (products s)" "x \<in> set (products s)" "p_id x = p_id p"
  shows "x = p"
proof -
  have "distinct (map p_id (products s))" using assms(1) by (auto simp: db_wf_defs dest: serial_distinct)
  then show ?thesis by (rule key_eq) (use assms in simp_all)
qed

lemma attempt_sold_out:
  assumes "ready s i k ((uuid, now) # calls) p u" "p_stock p < 1"
  shows "checkout k i (Num 1) uuid now s = (Inl (InsufficientStockError i), s)"
proof -
  note r = readyD [OF assms(1)]
  have "filter (\<lambda>x. p_id x = i \<and> 1 \<le> p_stock x) (products s) = []"
    using only_product [OF r(2,3)] r(4) assms(2) by (force simp: filter_empty_conv)
  then have "take_stock i 1 s = (Inr [], s\<lparr>products := with_stock_less i 1 (products s)\<rparr>)"
    using r(14) by (simp add: take_stock_def int_params_run and_then_def int4_def)
  then have "checkout_body k i 1 uuid now s
      = (Inl (InsufficientStockError i), s\<lparr>products := with_stock_less i 1 (products s)\<rparr>)"
    by (simp add: checkout_body_def and_then_def)
  then show ?thesis using checkout_run [of 1 k i uuid now] by (simp add: transaction_def rolled_back_def)
qed

lemma bought_tables:
  assumes "bought k i q uuid now s oid s'"
  obtains p r it jb where "p \<in> set (products s)" "p_id p = i"
    and "s' = s\<lparr>products := with_stock_less i q (products s),
                users := with_balance_less k (p_priceCents p * q) (users s),
                orders := orders s @ [r], seq_orders := seq_orders s + 1,
                order_items := order_items s @ [it], seq_items := seq_items s + 1,
                jobs := jobs s @ [jb], seq_jobs := seq_jobs s + 1,
                outbox := outbox s @ [outbox_row_of uuid now (clock s) r [it]]\<rparr>"
  using assms unfolding bought_def by force

lemma attempt_sells:
  assumes "ready s i k ((uuid, now) # calls) p u" "1 \<le> p_stock p"
  shows "\<exists>oid s'. checkout k i (Num 1) uuid now s = (Inr oid, s')
    \<and> ready s' i k calls (p\<lparr>p_stock := p_stock p - 1\<rparr>) (u\<lparr>u_balanceCents := u_balanceCents u - 10000\<rparr>)"
proof -
  note r = readyD [OF assms(1)]
  have funds: "p_priceCents p * 1 \<le> u_balanceCents u" using r(8,9) assms(2) by simp
  have small: "int4 1" "int4 (u_id u)" "int4 (p_priceCents p * 1)" "int4 (p_priceCents p)"
    using r(6-8) by (simp_all add: int4_def)
  have "fst (checkout_body k i 1 uuid now s) = Inr (seq_orders s)"
    using checkout_goes_through [OF r(2) small(1) r(3) assms(2) r(5) small(2) funds small(3,4) r(10-13)] r(4,6) by simp
  then obtain s' where run: "checkout_body k i 1 uuid now s = (Inr (seq_orders s), s')" by (metis prod.collapse)
  have c: "checkout k i (Num 1) uuid now s = (Inr (seq_orders s), s')"
    using checkout_run [of 1 k i uuid now] run by (simp add: transaction_def)
  have wf: "db_wf s'" by (rule keepsD' [OF keeps_db_wf_checkout_body r(2) run])
  note b = checkout_body_ok [OF run]
  obtain p1 o1 i1 j1 where p1: "p1 \<in> set (products s)" "p_id p1 = i"
    and s': "s' = s\<lparr>products := with_stock_less i 1 (products s),
                users := with_balance_less k (p_priceCents p1 * 1) (users s),
                orders := orders s @ [o1], seq_orders := seq_orders s + 1,
                order_items := order_items s @ [i1], seq_items := seq_items s + 1,
                jobs := jobs s @ [j1], seq_jobs := seq_jobs s + 1,
                outbox := outbox s @ [outbox_row_of uuid now (clock s) o1 [i1]]\<rparr>"
    by (rule bought_tables [OF b])
  have "p1 = p" using only_product [OF r(2,3) p1(1)] p1(2) r(4) by simp
  then have price: "p_priceCents p1 * 1 = 10000" using r(8) by simp
  have "p\<lparr>p_stock := p_stock p - 1\<rparr> \<in> set (products s')"
    using imageI [OF r(3), of "\<lambda>p. if p_id p = i \<and> 1 \<le> p_stock p then p\<lparr>p_stock := p_stock p - 1\<rparr> else p"] r(4) assms(2)
    by (simp add: s' with_stock_less_def)
  moreover have "u\<lparr>u_balanceCents := u_balanceCents u - 10000\<rparr> \<in> set (users s')"
    using imageI [OF r(5), of "\<lambda>u. if u_id u = k \<and> 10000 \<le> u_balanceCents u
        then u\<lparr>u_balanceCents := u_balanceCents u - 10000\<rparr> else u"] r(6,9) assms(2)
    unfolding s' price by (simp add: with_balance_less_def)
  moreover have "books s'" by (rule books_bought [OF r(1) b _ wf]) simp
  ultimately have "ready s' i k calls (p\<lparr>p_stock := p_stock p - 1\<rparr>) (u\<lparr>u_balanceCents := u_balanceCents u - 10000\<rparr>)"
    using assms r by (auto simp: ready_def s' outbox_row_of_def)
  then show ?thesis using c by blast
qed

lemma run_attempts_result:
  assumes "ready s i k calls p u" "0 \<le> p_stock p"
  shows "\<exists>rs s' p' u'. run_attempts k i calls s = (Inr rs, s') \<and> ready s' i k [] p' u' \<and> p_name p' = p_name p
    \<and> int (length (filter at_ok rs)) = min (p_stock p) (int (length calls))
    \<and> p_stock p' = p_stock p - min (p_stock p) (int (length calls))
    \<and> filter (\<lambda>r. \<not> at_ok r \<and> \<not> at_expected r) rs = []"
  using assms
proof (induction calls arbitrary: s p u)
  case Nil
  then show ?case by auto
next
  case (Cons c calls)
  obtain uuid now where c: "c = (uuid, now)" by (cases c)
  show ?case
  proof (cases "1 \<le> p_stock p")
    case True
    obtain oid s1 where one: "checkout k i (Num 1) uuid now s = (Inr oid, s1)"
      and ready1: "ready s1 i k calls (p\<lparr>p_stock := p_stock p - 1\<rparr>) (u\<lparr>u_balanceCents := u_balanceCents u - 10000\<rparr>)"
      using attempt_sells [of s i k uuid now calls p u] Cons.prems(1) True c by blast
    obtain rs s' p' u' where rest: "run_attempts k i calls s1 = (Inr rs, s')" "ready s' i k [] p' u'" "p_name p' = p_name p"
      "int (length (filter at_ok rs)) = min (p_stock p - 1) (int (length calls))"
      "p_stock p' = p_stock p - 1 - min (p_stock p - 1) (int (length calls))"
      "filter (\<lambda>r. \<not> at_ok r \<and> \<not> at_expected r) rs = []"
      using Cons.IH [OF ready1] True by auto
    have "run_attempts k i (c # calls) s = (Inr (attempt_of (Inr oid) # rs), s')"
      using one rest(1) c by (simp add: and_then_def)
    then show ?thesis
      using rest True by (intro exI [of _ "attempt_of (Inr oid) # rs"] exI [of _ s'] exI [of _ p'] exI [of _ u'])
        (simp add: attempt_of_def min_def)
  next
    case False
    have one: "checkout k i (Num 1) uuid now s = (Inl (InsufficientStockError i), s)"
      using attempt_sold_out Cons.prems(1) False c by simp
    have "ready s i k calls p u" using Cons.prems(1) by (simp add: ready_def)
    from Cons.IH [OF this Cons.prems(2)] obtain rs s' p' u' where rest: "run_attempts k i calls s = (Inr rs, s')"
      "ready s' i k [] p' u'" "p_name p' = p_name p" "int (length (filter at_ok rs)) = min (p_stock p) (int (length calls))"
      "p_stock p' = p_stock p - min (p_stock p) (int (length calls))"
      "filter (\<lambda>r. \<not> at_ok r \<and> \<not> at_expected r) rs = []" by blast
    have "run_attempts k i (c # calls) s = (Inr (attempt_of (Inl (InsufficientStockError i)) # rs), s')"
      using one rest(1) c by (simp add: and_then_def)
    then show ?thesis
      using rest False Cons.prems(2)
      by (intro exI [of _ "attempt_of (Inl (InsufficientStockError i)) # rs"] exI [of _ s'] exI [of _ p'] exI [of _ u'])
        (simp add: attempt_of_def)
  qed
qed

subsection \<open>The demonstration\<close>

lemma find_named:
  assumes "distinct (map f xs)" "x \<in> set xs" "f x = n"
  shows "find (\<lambda>y. f y = n) xs = Some x"
  using find_key [OF assms(1,2)] assms(3) by simp

lemma race_setup:
  assumes "books s" "\<And>u. u \<in> set (users s) \<Longrightarrow> int4 (u_id u)" "int4 newId" "newId \<notin> u_id ` set (users s)"
    and "seq_products s \<le> 2147483647" "length calls = ATTEMPTS" "distinct (map fst calls)"
    and "fst ` set calls \<inter> ob_id ` set (outbox s) = {}" "seq_orders s + 50 \<le> 2147483648" "seq_items s + 50 \<le> 2147483648"
    "seq_jobs s + 50 \<le> 2147483648"
  shows "\<exists>s1 s2 p u. upsert_product PRODUCT_NAME 10000 ''UAH'' INITIAL_STOCK s = (Inr (), s1)
    \<and> upsert_user newId BUYER_EMAIL ''Demo Race Buyer'' None 100000000 None s1 = (Inr (), s2)
    \<and> ready s2 (p_id p) (u_id u) calls p u \<and> p_stock p = 10
    \<and> find (\<lambda>p. p_name p = PRODUCT_NAME) (products s2) = Some p \<and> find (\<lambda>u. u_email u = BUYER_EMAIL) (users s2) = Some u"
proof -
  obtain s1 where one: "upsert_product PRODUCT_NAME 10000 ''UAH'' INITIAL_STOCK s = (Inr (), s1)"
    using assms(5) by (simp add: upsert_product_def and_then_def nextval_def int4_def INITIAL_STOCK_def)
  have typed: "product_typed \<lparr>p_id = 0, p_name = PRODUCT_NAME, p_priceCents = 10000, p_stock = INITIAL_STOCK,
      p_currency = ''UAH'', p_createdAt = 0\<rparr>"
    by (simp add: product_typed_def PRODUCT_NAME_def INITIAL_STOCK_def PRODUCT_CURRENCIES_def char_count_def)
  note ok1 = upsert_product_ok [OF one assms(1) typed]
  have s1: "s1 = s\<lparr>products := products s1, seq_products := seq_products s1\<rparr>" using ok1 by blast
  have u1: "users s1 = users s" using arg_cong [OF s1, of users] by simp
  obtain s2 where two: "upsert_user newId BUYER_EMAIL ''Demo Race Buyer'' None 100000000 None s1 = (Inr (), s2)"
    by (simp add: upsert_user_def and_then_def int4_def)
  have fresh: "newId \<notin> u_id ` set (users s1)" using assms(4) u1 by simp
  note ok2 = upsert_user_ok [OF two conjunct1 [OF ok1] _ fresh, simplified]
  have s2: "s2 = s1\<lparr>users := users s2\<rparr>" using ok2 by blast
  have same: "products s2 = products s1" "outbox s2 = outbox s" "seq_orders s2 = seq_orders s" "seq_items s2 = seq_items s"
    "seq_jobs s2 = seq_jobs s"
    using arg_cong [OF s2, of products] arg_cong [OF s2, of outbox] arg_cong [OF s2, of seq_orders] arg_cong [OF s2, of seq_items]
      arg_cong [OF s2, of seq_jobs] arg_cong [OF s1, of outbox] arg_cong [OF s1, of seq_orders] arg_cong [OF s1, of seq_items]
      arg_cong [OF s1, of seq_jobs] by simp_all
  obtain p where p: "p \<in> set (products s2)" "product_is PRODUCT_NAME 10000 ''UAH'' INITIAL_STOCK p" using ok1 same(1) by metis
  obtain u where u: "u \<in> set (users s2)" "user_is BUYER_EMAIL ''Demo Race Buyer'' None 100000000 u" using ok2 by blast
  have wf: "db_wf s2" using ok2 booksD(1) by blast
  have "u_id u = newId \<or> u_id u \<in> u_id ` set (users s)" using ok2 u(1) u1 by auto
  then have "int4 (u_id u)" using assms(2,3) by auto
  then have "ready s2 (p_id p) (u_id u) calls p u"
    using ok2 p u assms(6-11) same
    by (simp add: ready_def product_is_def user_is_def INITIAL_STOCK_def ATTEMPTS_def)
  moreover have "find (\<lambda>p. p_name p = PRODUCT_NAME) (products s2) = Some p"
    using wf p by (intro find_named) (simp_all add: db_wf_defs product_is_def)
  moreover have "find (\<lambda>u. u_email u = BUYER_EMAIL) (users s2) = Some u"
    using wf u by (intro find_named) (simp_all add: db_wf_defs user_is_def)
  ultimately show ?thesis using one two p(2) by (auto simp: product_is_def INITIAL_STOCK_def)
qed

text \<open>The race cannot be lost. In a well-typed shop with room in its sequences, whatever order the
  transactions of the fifty concurrent checkouts take effect in, the demonstration ends with its check
  satisfied: exactly ten succeed, the stock is zero, no stock is negative and every other checkout fails
  with one of the two expected errors.\<close>

theorem race_check_holds:
  assumes "books s" and "\<And>u. u \<in> set (users s) \<Longrightarrow> int4 (u_id u)" and "int4 newId" and "newId \<notin> u_id ` set (users s)"
    and "seq_products s \<le> 2147483647" and "length calls = ATTEMPTS" and "distinct (map fst calls)"
    and "fst ` set calls \<inter> ob_id ` set (outbox s) = {}"
    and "seq_orders s + 50 \<le> 2147483648" and "seq_items s + 50 \<le> 2147483648" and "seq_jobs s + 50 \<le> 2147483648"
  shows "outcome (demo_race newId calls) s = Inr True"
proof -
  obtain s1 s2 p u where upserts: "upsert_product PRODUCT_NAME 10000 ''UAH'' INITIAL_STOCK s = (Inr (), s1)"
    "upsert_user newId BUYER_EMAIL ''Demo Race Buyer'' None 100000000 None s1 = (Inr (), s2)"
    and ready: "ready s2 (p_id p) (u_id u) calls p u" and stock: "p_stock p = 10"
    and found: "find (\<lambda>p. p_name p = PRODUCT_NAME) (products s2) = Some p" "find (\<lambda>u. u_email u = BUYER_EMAIL) (users s2) = Some u"
    using race_setup [OF assms] by blast
  obtain rs s3 p' u' where run: "run_attempts (u_id u) (p_id p) calls s2 = (Inr rs, s3)"
    and ready3: "ready s3 (p_id p) (u_id u) [] p' u'" and "p_name p' = p_name p"
    and count: "int (length (filter at_ok rs)) = min (p_stock p) (int (length calls))"
    and left: "p_stock p' = p_stock p - min (p_stock p) (int (length calls))"
    and none: "filter (\<lambda>r. \<not> at_ok r \<and> \<not> at_expected r) rs = []"
    using run_attempts_result [OF ready] stock by auto
  have books: "books s3" using ready3 by (simp add: ready_def)
  have "p_name p' = PRODUCT_NAME" using found(1) \<open>p_name p' = p_name p\<close> by (auto simp: find_Some_iff)
  then have found3: "find (\<lambda>p. p_name p = PRODUCT_NAME) (products s3) = Some p'"
    using booksD(1) [OF books] ready3 by (intro find_named) (simp_all add: db_wf_defs ready_def)
  have "filter (\<lambda>p. p_stock p < 0) (products s3) = []"
    using booksD(2) [OF books] by (fastforce simp: filter_empty_conv product_typed_def)
  moreover have "int (length (filter at_ok rs)) = INITIAL_STOCK" "p_stock p' = 0"
    using count left stock assms(6) by (simp_all add: ATTEMPTS_def INITIAL_STOCK_def)
  ultimately show ?thesis
    using upserts found run found3 none
    by (simp add: demo_race_def and_then_def transaction_def find_or_fail_def Let_def)
qed

theorem race_check_holds_witness:
  "outcome (demo_race 1 (map (\<lambda>k. (show_nat k, 0)) [0..<50])) empty_db = Inr True"
proof (rule race_check_holds)
  show "distinct (map fst (map (\<lambda>k. (show_nat k, 0)) [0..<50]))"
    by (simp add: comp_def distinct_map inj_on_def show_nat_inj)
qed (rule books_empty | simp add: empty_db_def int4_def ATTEMPTS_def)+

end
