(* ===== verification/Report.thy ===== *)
theory Report
  imports Books
begin

text \<open>
  The sales report: \<open>src/report.ts\<close>, its query and the lines it prints. The query joins the items with their products, groups them by
  product and sorts the groups by revenue, highest first (groups of equal revenue in any order, here in that
  of the table). A product of two \<open>integer\<close> columns is an \<open>integer\<close> and can overflow; the sums are \<open>bigint\<close>.
\<close>

record report_row =
  rr_productId :: int
  rr_productName :: string
  rr_totalQuantity :: int
  rr_totalRevenueCents :: int

definition report_group :: "order_item_row list \<Rightarrow> product \<Rightarrow> report_row" where
  "report_group is p =
     \<lparr>rr_productId = p_id p, rr_productName = p_name p,
      rr_totalQuantity = (\<Sum>i\<leftarrow>is. i_quantity i),
      rr_totalRevenueCents = (\<Sum>i\<leftarrow>is. i_quantity i * i_priceAtPurchaseCents i)\<rparr>"

definition sales_report :: "report_row list db_action" where
  "sales_report =
     and_then (gets (\<lambda>s. map (\<lambda>p. (p, filter (\<lambda>i. i_productId i = p_id p) (order_items s))) (products s))) (\<lambda>joined.
     let groups = filter (\<lambda>(p, is). is \<noteq> []) joined in
     and_then (guard (\<forall>(p, is) \<in> set groups. \<forall>i \<in> set is. int4 (i_quantity i * i_priceAtPurchaseCents i)) OUT_OF_RANGE) (\<lambda>_.
     ret (sort_key (\<lambda>r. - rr_totalRevenueCents r) (map (\<lambda>(p, is). report_group is p) groups))))"

subsection \<open>The printed lines\<close>

text \<open>\<open>padEnd\<close> and \<open>padStart\<close> count UTF-16 units: one for a character, two outside the basic plane.\<close>

definition utf16_length :: "string \<Rightarrow> nat" where
  "utf16_length t = char_count t + length (filter (\<lambda>c. 240 \<le> (of_char c :: nat)) t)"

definition padEnd :: "nat \<Rightarrow> string \<Rightarrow> string" where
  "padEnd n t = t @ replicate (n - utf16_length t) (CHR '' '')"

definition padStart :: "nat \<Rightarrow> string \<Rightarrow> string" where
  "padStart n t = replicate (n - utf16_length t) (CHR '' '') @ t"

text \<open>\<open>(cents / 100).toFixed(2)\<close> of an amount that is not negative and is exact as a number.\<close>

definition cents_text :: "int \<Rightarrow> string" where
  "cents_text cents =
     show_nat (nat cents div 100) @ [CHR ''.'', digit_char (nat cents mod 100 div 10), digit_char (nat cents mod 10)]"

text \<open>The two labels of a line, which are in Ukrainian: their bytes.\<close>

definition SOLD_LABEL :: string where
  "SOLD_LABEL = map char_of [208, 191, 209, 128, 208, 190, 208, 180, 208, 176, 208, 189, 208, 190, 58, 32 :: nat]"

definition REVENUE_LABEL :: string where
  "REVENUE_LABEL = map char_of [32, 209, 136, 209, 130, 46, 32, 32, 208, 178, 208, 184, 209, 130, 208, 190, 209, 128, 208, 179, 58, 32 :: nat]"

definition report_line :: "report_row \<Rightarrow> string" where
  "report_line r =
     ''  '' @ padEnd 28 (rr_productName r) @ '' '' @ SOLD_LABEL @ padStart 3 (show_int (rr_totalQuantity r))
     @ REVENUE_LABEL @ cents_text (rr_totalRevenueCents r) @ '' UAH''"

definition report_main :: "string list db_action" where
  "report_main = and_then sales_report (\<lambda>rows. ret (map report_line rows))"

text \<open>No cent is lost in print: the amount is read back as it is.\<close>

lemma two_digits: "(10 * (m mod 100 div 10) + m mod 10 :: nat) = m mod 100"
proof -
  have "m mod 10 = m mod 100 mod 10" by (simp add: mod_mod_cancel)
  then show ?thesis by simp
qed

lemma cents_text_read:
  assumes "0 \<le> cents"
  shows "js_Number (cents_text cents) = Num (of_int cents / 100)"
proof -
  define m where "m = nat cents"
  let ?ip = "show_nat (m div 100)" and ?fp = "[digit_char (m mod 100 div 10), digit_char (m mod 10)]"
  have d: "m mod 100 div 10 < 10" "m mod 10 < 10" by (simp_all add: less_mult_imp_div_less)
  have shape: "cents_text cents = ?ip @ CHR ''.'' # ?fp" by (simp add: cents_text_def m_def)
  have ip: "list_all is_digit ?ip" "?ip \<noteq> []" by (simp_all add: show_nat_digits)
  have dot: "\<not> is_digit (CHR ''.'')" "\<not> is_space (CHR ''.'')" by (simp_all add: is_digit_def is_space_def)
  have parts: "takeWhile is_digit (cents_text cents) = ?ip" "dropWhile is_digit (cents_text cents) = CHR ''.'' # ?fp"
    using ip(1) dot(1) unfolding shape by (simp_all add: list_all_iff takeWhile_append2 dropWhile_append2)
  have "unsigned_decimal (cents_text cents) = Num (of_nat (digits_val (?ip @ ?fp)) * ten_to (- 2))"
    using d ip(2) by (simp add: unsigned_decimal_def parts exponent_of_def Let_def)
  moreover have "digits_val (?ip @ ?fp) = m"
  proof -
    have "digits_val (?ip @ ?fp) = 100 * (m div 100) + (10 * (m mod 100 div 10) + m mod 10)"
      using digits_val_snoc [of "?ip @ [digit_char (m mod 100 div 10)]" "digit_char (m mod 10)"]
        digits_val_snoc [of ?ip "digit_char (m mod 100 div 10)"] d by simp
    then show ?thesis using mult_div_mod_eq [of 100 m] by (simp only: two_digits)
  qed
  ultimately have "unsigned_decimal (cents_text cents) = Num (of_int cents / 100)"
    using assms by (simp add: ten_to_def m_def)
  moreover have "js_Number (cents_text cents) = unsigned_decimal (cents_text cents)"
  proof -
    obtain c cs where c: "?ip = c # cs" "is_digit c" using ip by (cases ?ip) auto
    have whole: "cents_text cents = c # cs @ CHR ''.'' # ?fp" by (simp add: shape c(1))
    have "trim (cents_text cents) = cents_text cents"
      unfolding whole trim_def using digit_not_space [OF c(2)] digit_not_space [OF is_digit_digit [OF d(2)]] by simp
    moreover have "radix_prefix (cents_text cents) = None"
    proof -
      obtain x where x: "take 2 (cents_text cents) = [c, x]" "x = CHR ''.'' \<or> is_digit x"
        using ip(1) unfolding whole c(1) by (cases cs) auto
      then show ?thesis using digit_not_letter [of x] by (auto simp: radix_prefix_def)
    qed
    ultimately show ?thesis using digit_not_letter [OF c(2)] by (auto simp: js_Number_def signed_decimal_def whole)
  qed
  ultimately show ?thesis by simp
qed

subsection \<open>Sums by key\<close>

lemma sum_list_one:
  assumes "distinct (map k rs)" "x \<in> k ` set rs"
  shows "(\<Sum>r\<leftarrow>rs. if x = k r then c else (0 :: int)) = c"
  using assms
proof (induction rs)
  case (Cons a rs)
  show ?case
  proof (cases "x = k a")
    case True
    then have "(\<Sum>r\<leftarrow>rs. if x = k r then c else 0) = (\<Sum>r\<leftarrow>rs. 0)"
      using Cons.prems(1) by (intro arg_cong [of _ _ sum_list] map_cong) auto
    then show ?thesis using True by simp
  next
    case False
    then show ?thesis using Cons by auto
  qed
qed simp

text \<open>Items grouped by a key that identifies the rows: the sum of the groups is the sum of all.\<close>

lemma sum_by_key:
  fixes c :: "'i \<Rightarrow> int"
  assumes "distinct (map k rs)" "\<forall>i \<in> set is. f i \<in> k ` set rs"
  shows "(\<Sum>r\<leftarrow>rs. \<Sum>i\<leftarrow>filter (\<lambda>i. f i = k r) is. c i) = (\<Sum>i\<leftarrow>is. c i)"
  using assms(2)
proof (induction "is")
  case (Cons i "is")
  have "(\<Sum>r\<leftarrow>rs. \<Sum>i\<leftarrow>filter (\<lambda>i. f i = k r) (i # is). c i)
      = (\<Sum>r\<leftarrow>rs. (if f i = k r then c i else 0) + (\<Sum>i\<leftarrow>filter (\<lambda>i. f i = k r) is. c i))"
    by (intro arg_cong [of _ _ sum_list] map_cong) auto
  also have "\<dots> = (\<Sum>r\<leftarrow>rs. if f i = k r then c i else 0) + (\<Sum>r\<leftarrow>rs. \<Sum>i\<leftarrow>filter (\<lambda>i. f i = k r) is. c i)"
    by (simp add: sum_list_addf)
  finally show ?case using Cons sum_list_one [OF assms(1), of "f i" "c i"] by simp
qed simp

lemma sum_drop_zero:
  "(\<And>x. x \<in> set xs \<Longrightarrow> \<not> P x \<Longrightarrow> g x = 0) \<Longrightarrow> (\<Sum>x\<leftarrow>filter P xs. g x) = (\<Sum>x\<leftarrow>xs. g x :: int)"
  by (induction xs) auto

lemma sum_list_sort: "(\<Sum>x\<leftarrow>sort_key h xs. g x :: int) = (\<Sum>x\<leftarrow>xs. g x)"
  by (metis mset_map mset_sort sum_mset_sum_list)

subsection \<open>The revenue is the sum of the orders\<close>

lemma books_sums:
  assumes "books s"
  shows "(\<Sum>r\<leftarrow>orders s. o_totalCents r) = (\<Sum>i\<leftarrow>order_items s. i_quantity i * i_priceAtPurchaseCents i)"
    and "(\<Sum>p\<leftarrow>products s. \<Sum>i\<leftarrow>filter (\<lambda>i. i_productId i = p_id p) (order_items s). i_quantity i * i_priceAtPurchaseCents i)
      = (\<Sum>i\<leftarrow>order_items s. i_quantity i * i_priceAtPurchaseCents i)"
proof -
  have wf: "distinct (map o_id (orders s))" "distinct (map p_id (products s))"
    "\<forall>i \<in> set (order_items s). i_orderId i \<in> o_id ` set (orders s)"
    "\<forall>i \<in> set (order_items s). i_productId i \<in> p_id ` set (products s)"
    using booksD(1) [OF assms] by (auto simp: db_wf_defs dest: serial_distinct)
  have "(\<Sum>r\<leftarrow>orders s. o_totalCents r)
      = (\<Sum>r\<leftarrow>orders s. \<Sum>i\<leftarrow>items_of s r. i_quantity i * i_priceAtPurchaseCents i)"
    using booksD(5) [OF assms]
    by (intro arg_cong [of _ _ sum_list] map_cong) (auto simp: order_typed_def items_total_def mult.commute)
  then show "(\<Sum>r\<leftarrow>orders s. o_totalCents r) = (\<Sum>i\<leftarrow>order_items s. i_quantity i * i_priceAtPurchaseCents i)"
    using sum_by_key [OF wf(1,3)] by simp
  show "(\<Sum>p\<leftarrow>products s. \<Sum>i\<leftarrow>filter (\<lambda>i. i_productId i = p_id p) (order_items s). i_quantity i * i_priceAtPurchaseCents i)
      = (\<Sum>i\<leftarrow>order_items s. i_quantity i * i_priceAtPurchaseCents i)"
    by (rule sum_by_key [OF wf(2,4)])
qed

lemma item_no_overflow:
  assumes "books s" "i \<in> set (order_items s)"
  shows "int4 (i_quantity i * i_priceAtPurchaseCents i)"
proof -
  obtain r where r: "r \<in> set (orders s)" "i_orderId i = o_id r"
    using booksD(1) [OF assms(1)] assms(2) by (auto simp: db_wf_defs)
  let ?c = "\<lambda>i. i_priceAtPurchaseCents i * i_quantity i"
  have pos: "0 \<le> ?c x" if "x \<in> set (order_items s)" for x
    using booksD(4) [OF assms(1) that] by (simp add: item_typed_def)
  have "?c i \<in> set (map ?c (items_of s r))" using assms(2) r(2) by auto
  moreover have "\<And>x. x \<in> set (map ?c (items_of s r)) \<Longrightarrow> 0 \<le> x" using pos by auto
  ultimately have "?c i \<le> items_total (items_of s r)" unfolding items_total_def by (rule member_le_sum_list)
  then have "?c i \<le> o_totalCents r" "int4 (o_totalCents r)" using booksD(5) [OF assms(1) r(1)] by (auto simp: order_typed_def)
  then show ?thesis using pos [OF assms(2)] by (simp add: int4_def mult.commute)
qed

lemma sold_ids:
  assumes "\<forall>i \<in> set is. i_productId i \<in> p_id ` set ps"
  shows "p_id ` set (filter (\<lambda>p. filter (\<lambda>i. i_productId i = p_id p) is \<noteq> []) ps) = i_productId ` set is"
proof
  show "p_id ` set (filter (\<lambda>p. filter (\<lambda>i. i_productId i = p_id p) is \<noteq> []) ps) \<subseteq> i_productId ` set is"
    by (auto simp: filter_empty_conv) (metis imageI)
  show "i_productId ` set is \<subseteq> p_id ` set (filter (\<lambda>p. filter (\<lambda>i. i_productId i = p_id p) is \<noteq> []) ps)"
  proof (rule image_subsetI)
    fix i assume i: "i \<in> set is"
    then obtain p where "p \<in> set ps" "i_productId i = p_id p" using assms by auto
    moreover from this have "filter (\<lambda>i. i_productId i = p_id p) is \<noteq> []" using i by (auto simp: filter_empty_conv)
    ultimately show "i_productId i \<in> p_id ` set (filter (\<lambda>p. filter (\<lambda>i. i_productId i = p_id p) is \<noteq> []) ps)" by auto
  qed
qed

lemma sold_filter: "sold s n = (\<Sum>i\<leftarrow>filter (\<lambda>i. i_productId i = n) (order_items s). i_quantity i)"
  unfolding sold_def sum_list_map_filter' ..

text \<open>C20: the report accounts for every cent. On well-typed tables the query does not overflow and changes
  nothing; it has one row for each product that was sold, with all units of it, highest revenue first, and
  its revenues add up to the totals of all orders.\<close>

theorem report_accounts:
  assumes "books s"
  shows "\<exists>rows. sales_report s = (Inr rows, s)
    \<and> (\<Sum>r\<leftarrow>rows. rr_totalRevenueCents r) = (\<Sum>r\<leftarrow>orders s. o_totalCents r)
    \<and> distinct (map rr_productId rows) \<and> rr_productId ` set rows = i_productId ` set (order_items s)
    \<and> (\<forall>r \<in> set rows. rr_totalQuantity r = sold s (rr_productId r))
    \<and> sorted_wrt (\<lambda>r r'. rr_totalRevenueCents r' \<le> rr_totalRevenueCents r) rows"
proof -
  let ?of = "\<lambda>p. filter (\<lambda>i. i_productId i = p_id p) (order_items s)"
  let ?sold = "filter (\<lambda>p. ?of p \<noteq> []) (products s)"
  let ?rows = "sort_key (\<lambda>r. - rr_totalRevenueCents r) (map (\<lambda>p. report_group (?of p) p) ?sold)"
  have ids: "distinct (map p_id (products s))" "\<forall>i \<in> set (order_items s). i_productId i \<in> p_id ` set (products s)"
    using booksD(1) [OF assms] by (auto simp: db_wf_defs dest: serial_distinct)
  have groups: "filter (\<lambda>(p, is). is \<noteq> []) (map (\<lambda>p. (p, ?of p)) ps) = map (\<lambda>p. (p, ?of p)) (filter (\<lambda>p. ?of p \<noteq> []) ps)"
    for ps by (induction ps) auto
  have run: "sales_report s = (Inr ?rows, s)"
    using item_no_overflow [OF assms]
    by (auto simp: sales_report_def and_then_def groups Let_def comp_def guard_def)
  have "(\<Sum>r\<leftarrow>?rows. rr_totalRevenueCents r)
      = (\<Sum>p\<leftarrow>?sold. \<Sum>i\<leftarrow>?of p. i_quantity i * i_priceAtPurchaseCents i)"
    by (simp add: sum_list_sort comp_def report_group_def)
  also have "\<dots> = (\<Sum>p\<leftarrow>products s. \<Sum>i\<leftarrow>?of p. i_quantity i * i_priceAtPurchaseCents i)"
    by (rule sum_drop_zero) simp
  finally have sum: "(\<Sum>r\<leftarrow>?rows. rr_totalRevenueCents r) = (\<Sum>r\<leftarrow>orders s. o_totalCents r)"
    using books_sums [OF assms] by simp
  have "mset (map rr_productId ?rows) = mset (map p_id ?sold)"
    by (simp only: mset_map mset_sort multiset.map_comp comp_def report_group_def report_row.simps)
  moreover have "distinct (map p_id ?sold)" by (rule distinct_map_filter [OF ids(1)])
  ultimately have d: "distinct (map rr_productId ?rows)" by (rule mset_eq_imp_distinct_iff [THEN iffD2])
  have "rr_productId ` set ?rows = p_id ` set ?sold" by (simp add: image_image report_group_def)
  then have sold: "rr_productId ` set ?rows = i_productId ` set (order_items s)" using sold_ids [OF ids(2)] by (simp only:)
  have units: "\<forall>r \<in> set ?rows. rr_totalQuantity r = sold s (rr_productId r)"
    by (auto simp: report_group_def sold_filter)
  have "sorted (map (\<lambda>r. - rr_totalRevenueCents r) ?rows)" by (rule sorted_sort_key)
  then have "sorted_wrt (\<lambda>r r'. rr_totalRevenueCents r' \<le> rr_totalRevenueCents r) ?rows"
    unfolding sorted_wrt_map by (simp only: neg_le_iff_le)
  with run sum d sold units show ?thesis by (intro exI [of _ ?rows] conjI)
qed

theorem report_accounts_witness:
  "\<exists>rows. sales_report (plant_db ordered_plant) = (Inr rows, plant_db ordered_plant)
    \<and> (\<Sum>r\<leftarrow>rows. rr_totalRevenueCents r) = (\<Sum>r\<leftarrow>orders (plant_db ordered_plant). o_totalCents r)"
proof -
  have "books (plant_db ordered_plant)"
    by (rule books_run [OF sample_plant_run reliable_confirms [OF list_sink_reliable]
          plant_start_inv [OF sample_plant_start] sample_plant_books])
  then show ?thesis using report_accounts by blast
qed

end
