(* ===== verification/CardsCorrect.thy ===== *)
theory CardsCorrect
  imports OrdersCorrect
begin

text \<open>
  What the cached product card promises (\<open>products/product-card.service.ts\<close> with \<open>cache\<close>): reading a card always
  ends and answers with the card of the tables, whether the cache has it or not, whether Redis answers or
  not and whoever holds the lock; and placing orders keeps the cache honest.
\<close>

subsection \<open>Honest caches\<close>

definition card_of :: "db \<Rightarrow> int \<Rightarrow> error + json" where
  "card_of s n = (case fst (loadCard n s) of Inl e \<Rightarrow> Inl e | Inr c \<Rightarrow> Inr (card_json c))"

text \<open>What the service would read of the key of a card is the card.\<close>

definition honest_for :: "db \<Rightarrow> redis \<Rightarrow> bool" where
  "honest_for s r \<longleftrightarrow>
     (\<forall>n txt v. live r (cardKey n) = Some (RString txt) \<longrightarrow> json_parse txt = Some v \<longrightarrow> card_of s n = Inr v)"

definition coherent :: "shop \<Rightarrow> bool" where
  "coherent w \<longleftrightarrow> (case sh_cache w of None \<Rightarrow> True | Some r \<Rightarrow> honest_for (sh_db w) r)"

lemma keeps_loadCard [keeps_intro]: "keeps P (loadCard n)"
  unfolding loadCard_def Let_def by (intro keeps_intro)

lemma loadCard_run: "loadCard n s = (fst (loadCard n s), s)"
  by (rule keeps_all_run) (rule keeps_loadCard)

lemma card_of_cong:
  assumes "products s' = products s"
    and "filter (\<lambda>i. i_productId i = n) (order_items s') = filter (\<lambda>i. i_productId i = n) (order_items s)"
  shows "card_of s' n = card_of s n"
  using assms by (simp add: card_of_def loadCard_def and_then_def Let_def split: option.split)

lemma cardKey_inj: "cardKey m = cardKey n \<longleftrightarrow> m = n"
  by (simp add: cardKey_def show_int_inj)

lemma cardKey_lock: "cardKey m \<noteq> cardLockKey n"
  by (simp add: cardKey_def cardLockKey_def)

lemma honest_put_lock: "honest_for s r \<Longrightarrow> honest_for s (put (cardLockKey n) v e r)"
  by (simp add: honest_for_def live_put cardKey_lock)

lemma honest_erase: "honest_for s r \<Longrightarrow> honest_for s (erase k r)"
  by (simp add: honest_for_def)

lemma int_numbers_card: "int_numbers (card_json c)"
  by (simp add: card_json_def json_int_def split: option.split)

lemma honest_put_card:
  assumes "honest_for s r" "card_of s n = Inr (card_json c)"
  shows "honest_for s (put (cardKey n) (RString (json_text (card_json c))) e r)"
  using assms
  by (auto simp: honest_for_def live_put cardKey_inj json_parse_text [OF int_numbers_card] split: option.splits if_splits)

lemma honest_set:
  assumes "honest_for s r" "card_of s n = Inr (card_json c)"
  shows "honest_for s (snd (cache_set (cardKey n) (card_json c) ttl r))"
  using assms by (simp add: cache_set_state honest_put_card)

lemma honest_release: "honest_for s r \<Longrightarrow> honest_for s (snd (lock_release name token r))"
  by (auto simp: lock_release_def command_def RELEASE_LUA_def on_error_def and_then_def honest_erase
      split: option.splits rvalue.splits)

lemma honest_hit:
  assumes "honest_for s r" "cache_get (cardKey n) r = (Inr (Hit v), r')"
  shows "r' = r \<and> card_of s n = Inr v"
  using assms by (auto simp: cache_get_cases honest_for_def split: if_splits option.splits rvalue.splits)

subsection \<open>Reading a card\<close>

lemma loadAndStore_current:
  assumes "sh_cache w = Some r" "honest_for (sh_db w) r" "loadAndStore random n w = (res, w')"
  shows "res = card_of (sh_db w') n \<and> coherent w' \<and> sh_cache w' \<noteq> None"
proof (cases "fst (loadCard n (sh_db w))")
  case (Inl e)
  then have "loadAndStore random n w = (Inl e, w)"
    using loadCard_run [of n "sh_db w"] by (simp add: loadAndStore_def on_db_def Let_def split: prod.splits)
  then show ?thesis using assms Inl by (simp add: card_of_def coherent_def)
next
  case (Inr c)
  have card: "card_of (sh_db w) n = Inr (card_json c)" using Inr by (simp add: card_of_def)
  have "on_db (loadCard n) w = (Inr c, w)"
    using loadCard_run [of n "sh_db w"] Inr by (simp add: on_db_def Let_def split: prod.splits)
  moreover have "on_cache (cache_set (cardKey n) (card_json c) ttl) w
      = (Inr (), w\<lparr>sh_cache := Some (snd (cache_set (cardKey n) (card_json c) ttl r))\<rparr>)" for ttl
    using assms(1) cache_set_result [of "cardKey n" "card_json c" ttl r]
    by (cases "cache_set (cardKey n) (card_json c) ttl r") (simp add: on_cache_def)
  ultimately obtain ttl where "loadAndStore random n w =
      (Inr (card_json c), w\<lparr>sh_cache := Some (snd (cache_set (cardKey n) (card_json c) ttl r))\<rparr>)"
    by (simp add: loadAndStore_def)
  then show ?thesis using assms(2,3) card honest_set [OF assms(2) card] by (auto simp: coherent_def)
qed

lemma under_lock_current:
  assumes "sh_cache w = Some r" "honest_for (sh_db w) r" "under_lock random n token w = (res, w')"
  shows "res = card_of (sh_db w') n \<and> coherent w'"
proof -
  obtain g where g: "on_cache (cache_get (cardKey n)) w = (Inr g, w)"
    using assms(1) by (simp add: on_cache_def cache_get_cases)
  define rest where "rest = (case g of Hit v \<Rightarrow> ret v | Miss \<Rightarrow> loadAndStore random n)"
  obtain w1 where body: "rest w = (res, w1)"
    and w': "w' = snd (on_cache (lock_release (cardLockKey n) token) w1)"
    using assms(3) g unfolding under_lock_def rest_def
    by (cases g) (auto simp: and_then_def Let_def split: prod.splits)
  have one: "res = card_of (sh_db w1) n \<and> coherent w1 \<and> sh_cache w1 \<noteq> None"
  proof (cases g)
    case (Hit v)
    have "cache_get (cardKey n) r = (Inr (Hit v), r)"
      using g assms(1) Hit by (auto simp: on_cache_def cache_get_cases split: prod.splits)
    then show ?thesis using honest_hit [OF assms(2)] body Hit assms(1,2) by (simp add: rest_def coherent_def)
  next
    case Miss
    then show ?thesis using loadAndStore_current [OF assms(1,2)] body by (simp add: rest_def)
  qed
  then obtain r1 where "sh_cache w1 = Some r1" "honest_for (sh_db w1) r1" by (auto simp: coherent_def)
  then show ?thesis using one w' honest_release
    by (simp add: on_cache_def coherent_def Let_def split: prod.splits) (metis snd_conv)
qed

text \<open>
  What happens while a reader sleeps: anything that keeps the cache honest, at least as long as the sleep.
\<close>

definition patient :: "(nat \<Rightarrow> shop \<Rightarrow> shop) \<Rightarrow> bool" where
  "patient others \<longleftrightarrow> (\<forall>k w. coherent w \<longrightarrow> sh_cache w \<noteq> None \<longrightarrow>
     coherent (others k w) \<and> sh_cache (others k w) \<noteq> None \<and> sh_now w + LOCK_POLL_MS \<le> sh_now (others k w))"

lemma lock_loop_current:
  assumes "patient others" "coherent w" "sh_cache w \<noteq> None" "0 < fuel" "deadline \<le> sh_now w + LOCK_POLL_MS * (int fuel - 1)"
  shows "\<exists>res w'. lock_loop fuel tokens others random n deadline k w = Some (res, w')
    \<and> res = card_of (sh_db w') n \<and> coherent w'"
  using assms(2-5)
proof (induction fuel arbitrary: k w)
  case (Suc fuel)
  obtain r where r: "sh_cache w = Some r" and h: "honest_for (sh_db w) r"
    using Suc.prems(1,2) by (auto simp: coherent_def)
  have load: "\<exists>res w'. Some (loadAndStore random n w) = Some (res, w') \<and> res = card_of (sh_db w') n \<and> coherent w'"
    using loadAndStore_current [OF r h] by (metis prod.collapse)
  consider (over) "deadline \<le> sh_now w" | (down) "sh_now w < deadline" "\<not> r_up r"
    | (free) "sh_now w < deadline" "r_up r" "live r (cardLockKey n) = None"
    | (busy) "sh_now w < deadline" "r_up r" "live r (cardLockKey n) \<noteq> None"
    by linarith
  then show ?case
  proof cases
    case over
    then show ?thesis using load by simp
  next
    case down
    then have "on_cache (lock_acquire (tokens k) (cardLockKey n) LOCK_TTL_MS) w = (Inl (RedisError ''unavailable''), w)"
      using r by (simp add: on_cache_def lock_acquire_def redis_set_nx_px_def command_def and_then_def)
    then show ?thesis using load down by simp
  next
    case free
    let ?r = "put (cardLockKey n) (RString (tokens k)) (Some (now_ms r + LOCK_TTL_MS)) r"
    have "on_cache (lock_acquire (tokens k) (cardLockKey n) LOCK_TTL_MS) w
        = (Inr (Some (tokens k)), w\<lparr>sh_cache := Some ?r\<rparr>)"
      using r free lock_acquire_run [of r LOCK_TTL_MS "tokens k" "cardLockKey n"]
      by (simp add: on_cache_def LOCK_TTL_MS_def)
    then show ?thesis
      using under_lock_current [of "w\<lparr>sh_cache := Some ?r\<rparr>" ?r random n "tokens k"] honest_put_lock [OF h] free
      by (cases "under_lock random n (tokens k) (w\<lparr>sh_cache := Some ?r\<rparr>)") simp
  next
    case busy
    have acquire: "on_cache (lock_acquire (tokens k) (cardLockKey n) LOCK_TTL_MS) w = (Inr None, w)"
      using r busy lock_acquire_run [of r LOCK_TTL_MS "tokens k" "cardLockKey n"]
      by (simp add: on_cache_def LOCK_TTL_MS_def)
    let ?w = "others k w"
    have o: "coherent ?w" "sh_cache ?w \<noteq> None" "sh_now w + LOCK_POLL_MS \<le> sh_now ?w"
      using assms(1) Suc.prems(1,2) unfolding patient_def by blast+
    obtain r2 where r2: "sh_cache ?w = Some r2" "honest_for (sh_db ?w) r2" using o(1,2) by (auto simp: coherent_def)
    obtain g where g: "on_cache (cache_get (cardKey n)) ?w = (Inr g, ?w)"
      using r2(1) by (simp add: on_cache_def cache_get_cases)
    show ?thesis
    proof (cases g)
      case (Hit v)
      have "cache_get (cardKey n) r2 = (Inr (Hit v), r2)"
        using g r2(1) Hit by (auto simp: on_cache_def cache_get_cases split: prod.splits)
      then have "card_of (sh_db ?w) n = Inr v" using honest_hit [OF r2(2)] by blast
      then show ?thesis using busy acquire g Hit o(1) by simp
    next
      case Miss
      have "0 < fuel" using busy(1) Suc.prems(4) by (cases fuel) simp_all
      moreover have "deadline \<le> sh_now ?w + LOCK_POLL_MS * (int fuel - 1)"
        using Suc.prems(4) o(3) by (simp add: algebra_simps LOCK_POLL_MS_def)
      ultimately show ?thesis using Suc.IH [OF o(1,2)] busy acquire g Miss by simp
    qed
  qed
qed simp

lemma getCard_reads:
  assumes "patient others" "coherent w" "80 < fuel"
  shows "\<exists>res w'. getCard fuel singleFlight tokens others random n w = Some (res, w')
    \<and> res = card_of (sh_db w') n \<and> coherent w'"
proof (cases "sh_cache w")
  case None
  have "and_then (on_db (loadCard n)) (\<lambda>c. ret (card_json c)) w = (card_of (sh_db w) n, w)"
    using loadCard_run [of n "sh_db w"]
    by (cases "fst (loadCard n (sh_db w))") (simp_all add: on_db_def card_of_def and_then_def Let_def split: prod.splits)
  then show ?thesis using None assms(2) by (simp add: getCard_def)
next
  case (Some r)
  then have h: "honest_for (sh_db w) r" using assms(2) by (simp add: coherent_def)
  obtain g where g: "on_cache (cache_get (cardKey n)) w = (Inr g, w)"
    using Some by (simp add: on_cache_def cache_get_cases)
  show ?thesis
  proof (cases g)
    case (Hit v)
    have "cache_get (cardKey n) r = (Inr (Hit v), r)"
      using g Some Hit by (auto simp: on_cache_def cache_get_cases split: prod.splits)
    then show ?thesis using honest_hit [OF h] g Hit Some assms(2) by (simp add: getCard_def)
  next
    case Miss
    have "\<exists>res w'. loadOnMiss fuel singleFlight tokens others random n w = Some (res, w')
        \<and> res = card_of (sh_db w') n \<and> coherent w'"
    proof (cases singleFlight)
      case True
      then show ?thesis
        using lock_loop_current [OF assms(1,2), of fuel "sh_now w + LOCK_WAIT_BUDGET_MS" tokens random n 0] Some assms(3)
        by (simp add: loadOnMiss_def LOCK_WAIT_BUDGET_MS_def LOCK_POLL_MS_def)
    next
      case False
      then show ?thesis
        using loadAndStore_current [OF Some h] by (cases "loadAndStore random n w") (simp add: loadOnMiss_def)
    qed
    then show ?thesis using g Miss Some by (simp add: getCard_def)
  qed
qed


subsection \<open>Ordering keeps the cache honest\<close>

lemma for_each_invalidate_erases:
  assumes "sh_cache w = Some r" "r_up r"
  shows "\<exists>us r'. for_each invalidate ns w = (Inr us, w\<lparr>sh_cache := Some r'\<rparr>) \<and> r_up r'
    \<and> (\<forall>k. live r' k = (if k \<in> cardKey ` set ns then None else live r k))"
  using assms
proof (induction ns arbitrary: w r)
  case Nil
  then have "w\<lparr>sh_cache := Some r\<rparr> = w" by simp
  then show ?case using Nil by (intro exI [of _ "[]"] exI [of _ r]) simp
next
  case (Cons n ns)
  let ?r = "erase (cardKey n) r"
  have one: "invalidate n w = (Inr (), w\<lparr>sh_cache := Some ?r\<rparr>)"
    using Cons.prems by (simp add: invalidate_def on_cache_def cache_del_run)
  obtain us r' where rest: "for_each invalidate ns (w\<lparr>sh_cache := Some ?r\<rparr>) = (Inr us, w\<lparr>sh_cache := Some r'\<rparr>)"
    "r_up r'" "\<forall>k. live r' k = (if k \<in> cardKey ` set ns then None else live ?r k)"
    using Cons.IH [of "w\<lparr>sh_cache := Some ?r\<rparr>" ?r] Cons.prems(2) by auto
  show ?case using one rest by (intro exI [of _ "() # us"] exI [of _ r']) auto
qed

lemma invalidateCards_erases:
  assumes "joined e" "sh_cache w = Some r" "r_up r"
  shows "\<exists>r'. invalidateCards e w = (Inr (), w\<lparr>sh_cache := Some r'\<rparr>)
    \<and> (\<forall>k. live r' k = (if k \<in> (cardKey \<circ> i_productId \<circ> fst) ` set (oe_items e) then None else live r k))"
proof -
  let ?ps = "map (\<lambda>(i, p). the p) (oe_items e)"
  have "for_each item_product (oe_items e) s = (Inr ?ps, s)" for s
    using assms(1) by (intro for_each_ret) (auto simp: joined_def)
  moreover have "p_id ` set ?ps = (i_productId \<circ> fst) ` set (oe_items e)"
    using assms(1) by (force simp: joined_def)
  then have "cardKey ` set (remdups (map p_id ?ps)) = (cardKey \<circ> i_productId \<circ> fst) ` set (oe_items e)"
    by (metis image_comp set_map set_remdups)
  moreover obtain us r' where "for_each invalidate (remdups (map p_id ?ps)) w = (Inr us, w\<lparr>sh_cache := Some r'\<rparr>)"
    "\<forall>k. live r' k = (if k \<in> cardKey ` set (remdups (map p_id ?ps)) then None else live r k)"
    using for_each_invalidate_erases [OF assms(2,3)] by blast
  ultimately show ?thesis
    by (intro exI [of _ r']) (simp add: invalidateCards_def on_db_def del: set_remdups)
qed

lemma invalidateCards_disabled:
  assumes "joined e" "sh_cache w = None"
  shows "invalidateCards e w = (Inr (), w)"
proof -
  have "for_each item_product (oe_items e) s = (Inr (map (\<lambda>(i, p). the p) (oe_items e)), s)" for s
    using assms(1) by (intro for_each_ret) (auto simp: joined_def)
  moreover have "for_each invalidate ns w = (Inr (map (\<lambda>_. ()) ns), w)" for ns
    using assms(2) by (intro for_each_ret) (simp add: invalidate_def)
  ultimately show ?thesis by (simp add: invalidateCards_def on_db_def)
qed

lemma honest_after_order:
  assumes "honest_for s r" "placed uuid now dto userId s e t" "products s' = products t" "order_items s' = order_items t"
    and "\<forall>k. live r' k = (if k \<in> (cardKey \<circ> i_productId \<circ> fst) ` set (oe_items e) then None else live r k)"
  shows "honest_for s' r'"
  unfolding honest_for_def
proof (intro allI impI)
  fix n str v assume l: "live r' (cardKey n) = Some (RString str)" and p: "json_parse str = Some v"
  then have out: "cardKey n \<notin> (cardKey \<circ> i_productId \<circ> fst) ` set (oe_items e)" and old: "live r (cardKey n) = Some (RString str)"
    using assms(5) by (auto split: if_splits)
  have "filter (\<lambda>i. i_productId i = n) (map fst (oe_items e)) = []"
    using out by (force simp: filter_empty_conv)
  then have "card_of s' n = card_of s n"
    using placed_tables(3,5) [OF assms(2)] assms(3,4) by (intro card_of_cong) simp_all
  then show "card_of s' n = Inr v" using assms(1) old p unfolding honest_for_def by simp
qed

lemma honest_same: "honest_for s r \<Longrightarrow> products s' = products s \<Longrightarrow> order_items s' = order_items s \<Longrightarrow> honest_for s' r"
  using card_of_cong [of s' s] unfolding honest_for_def by simp

definition cache_answers :: "shop \<Rightarrow> bool" where
  "cache_answers w \<longleftrightarrow> pred_option r_up (sh_cache w)"

lemma coherent_tables:
  "coherent w \<Longrightarrow> products s = products (sh_db w) \<Longrightarrow> order_items s = order_items (sh_db w) \<Longrightarrow> coherent (w\<lparr>sh_db := s\<rparr>)"
  using honest_same by (auto simp: coherent_def split: option.splits)

lemma create_stays_coherent:
  assumes "coherent w" "cache_answers w"
    and run: "createIdempotent sha uuid now body dto key userId w = (x, w')"
  shows "coherent w'"
proof -
  let ?claim = "claim_or_create uuid now dto (namespaced_key userId key) (sha (json_text body)) userId"
  obtain o1 s1 where claim: "transaction ?claim (sh_db w) = (o1, s1)" by fastforce
  note def = run [unfolded createIdempotent_def Let_def]
  have reads: "coherent w2" if "on_db m w1 = (r, w2)" "\<And>P. keeps P m" "coherent w1"
    for m :: "'a db_action" and w1 r w2
  proof -
    have "m (sh_db w1) = (fst (m (sh_db w1)), sh_db w1)" using keeps_all_run [OF that(2)] .
    then have "w2 = w1" using that(1) by (metis (no_types, lifting) on_db_ok prod.inject shop.surjective shop.update_convs(1))
    then show ?thesis using that(3) by simp
  qed
  show ?thesis
  proof (cases o1)
    case (Inl e)
    then obtain t where "s1 = rolled_back (sh_db w) t" using transaction_error claim by blast
    moreover have "w' = w\<lparr>sh_db := s1\<rparr>" using def claim Inl by (simp add: and_then_def)
    ultimately show ?thesis using coherent_tables [OF assms(1)] by simp
  next
    case (Inr outcome)
    then have ok: "?claim (sh_db w) = (Inr outcome, s1)" using claim by simp
    show ?thesis
    proof (cases outcome)
      case (Replay row)
      then have s1: "s1 = sh_db w" using claim_or_create_replay ok by blast
      then have w: "w\<lparr>sh_db := s1\<rparr> = w" by simp
      show ?thesis
      proof (cases row)
        case None
        then show ?thesis using def claim Inr Replay w assms(1) by (simp add: and_then_def)
      next
        case (Some existing)
        let ?find = "orders_findOne (case ik_order_id existing of None \<Rightarrow> ''null'' | Some i \<Rightarrow> show_int i)"
        obtain r2 w2 where find: "on_db ?find w = (r2, w2)" by fastforce
        have "coherent w2" by (rule reads [OF find _ assms(1)]) (rule keeps_reads)
        moreover have "w' = w2 \<or> w' = w"
          using def claim Inr Replay Some w find by (auto simp: and_then_def split: if_splits sum.splits)
        ultimately show ?thesis using assms(1) by auto
      qed
    next
      case (Created e)
      then obtain t where p: "placed uuid now dto userId (sh_db w) e t"
        and s1: "products s1 = products t" "order_items s1 = order_items t"
        using claim_or_create_created [OF ok [unfolded Created]] by auto
      have j: "joined e" using joined_placed p by blast
      obtain w1 where inv: "invalidateCards e (w\<lparr>sh_db := s1\<rparr>) = (Inr (), w1)" and c1: "coherent w1"
      proof (cases "sh_cache w")
        case None
        then show ?thesis using that invalidateCards_disabled [OF j, of "w\<lparr>sh_db := s1\<rparr>"] by (simp add: coherent_def)
      next
        case (Some r)
        then have "honest_for (sh_db w) r" "r_up r" using assms(1,2) by (simp_all add: coherent_def cache_answers_def)
        then show ?thesis
          using invalidateCards_erases [OF j, of "w\<lparr>sh_db := s1\<rparr>" r] Some honest_after_order [OF _ p s1] that
          by (fastforce simp: coherent_def)
      qed
      obtain r2 w2 where resp: "on_db (order_toResponse e) w1 = (r2, w2)" by fastforce
      have "coherent w2" by (rule reads [OF resp _ c1]) (rule keeps_reads)
      moreover have "w' = w2"
        using def claim Inr Created inv resp by (auto simp: and_then_def split: sum.splits)
      ultimately show ?thesis by simp
    qed
  qed
qed

lemma post_order_coherent:
  assumes "coherent w" "cache_answers w" "post_order sha isEmail uuid now body hdr userId w = (x, w')"
  shows "coherent w'"
  using assms(3)
proof (cases rule: post_order_cases)
  case (1 e)
  then show ?thesis using assms(1) by simp
next
  case (2 dto key)
  then show ?thesis using create_stays_coherent [OF assms(1,2)] by blast
qed


subsection \<open>Examples\<close>

definition cached_shop :: shop where
  "cached_shop = sample_shop\<lparr>sh_cache := Some \<lparr>r_us = 0, r_up = True, r_data = (\<lambda>_. None)\<rparr>\<rparr>"

definition sleeping :: "nat \<Rightarrow> shop \<Rightarrow> shop" where
  "sleeping k w = w\<lparr>sh_now := sh_now w + LOCK_POLL_MS\<rparr>"

lemma cached_shop_coherent: "coherent cached_shop" "cache_answers cached_shop"
  by (simp_all add: coherent_def honest_for_def cache_answers_def cached_shop_def live_def)

lemma sleeping_patient: "patient sleeping"
  by (auto simp: patient_def sleeping_def coherent_def)



text \<open>
  Creating a product does not take back the answer that there is none: who asked for the card of the next
  identifier before keeps getting no card until the negative entry expires.
\<close>

definition new_product :: create_product_dto where
  "new_product = \<lparr>dto_name = ''Pot'', dto_priceCents = 10, dto_stock = 1, dto_currency = None\<rparr>"

lemma new_product_without_card:
  "let asked = snd (the (getCard 81 True (\<lambda>_. ''t'') sleeping 0 3 cached_shop));
       created = asked\<lparr>sh_db := snd (products_create new_product (sh_db asked))\<rparr>
   in (\<exists>p \<in> set (products (sh_db created)). p_id p = 3)
      \<and> map_option fst (getCard 81 True (\<lambda>_. ''t'') sleeping 0 3 created) = Some (Inr JNull)"
  by code_simp

end
