(* ===== verification/Tasks.thy ===== *)
theory Tasks
  imports Relay Consumer
begin

text \<open>
  The deferred work: \<open>src/queue/order-tasks.ts\<close> (what is put into the BullMQ queue),
  \<open>src/queue/order-tasks-worker.ts\<close> (how a job is dispatched), \<open>src/queue/run-worker.ts\<close> (the handlers,
  among them the cleaning of the outbox) and \<open>src/messaging/run-consumer.ts\<close> (the consumer that enqueues
  the receipt of every event it has applied).

  BullMQ is not part of the repository: its client is a parameter, an action on a state \<open>'q\<close> that
  receives commands. \<open>dedups\<close> states what its documentation says of \<open>jobId\<close>.
\<close>

definition QUEUE_NAME :: string where "QUEUE_NAME = ''order-tasks''"
definition JOB_SEND_RECEIPT :: string where "JOB_SEND_RECEIPT = ''send-receipt''"
definition JOB_OUTBOX_CLEANUP :: string where "JOB_OUTBOX_CLEANUP = ''outbox-cleanup''"
definition SCHEDULER_OUTBOX_CLEANUP :: string where "SCHEDULER_OUTBOX_CLEANUP = ''outbox-cleanup-scheduler''"

definition RECEIPT_ATTEMPTS :: nat where "RECEIPT_ATTEMPTS = 5"
definition RECEIPT_BACKOFF_DELAY_MS :: int where "RECEIPT_BACKOFF_DELAY_MS = 1000"
definition RECEIPT_BACKOFF_JITTER :: rat where "RECEIPT_BACKOFF_JITTER = 1 / 2"
definition COMPLETED_KEEP_SEC :: int where "COMPLETED_KEEP_SEC = 24 * 3600"
definition FAILED_KEEP_SEC :: int where "FAILED_KEEP_SEC = 7 * 24 * 3600"

text \<open>The e-mail is whatever the event carries under \<open>data.customerEmail\<close>; nothing has checked it.\<close>

record receipt_job_data =
  rd_orderId :: int
  rd_customerEmail :: "json option"

definition receiptJobId :: "int \<Rightarrow> string" where
  "receiptJobId orderId = ''receipt-order-'' @ show_int orderId"

subsection \<open>The queue\<close>

datatype removal = AtOnce | AfterSec int

record job_options =
  jo_jobId :: "string option"
  jo_attempts :: "nat option"
  jo_backoff :: "(string \<times> int \<times> rat) option"
  jo_removeOnComplete :: removal
  jo_removeOnFail :: removal

datatype queue_command =
    AddJob string receipt_job_data job_options
  | UpsertJobScheduler string jsnum string job_options

type_synonym 'q queue_client = "queue_command \<Rightarrow> ('q, error, unit) action"

record task_queue_options =
  tqo_name :: "string option"
  tqo_prefix :: "string option"
  tqo_backoffDelayMs :: "int option"

record order_tasks_queue =
  tq_name :: string
  tq_prefix :: "string option"
  tq_backoffDelayMs :: int

definition new_order_tasks_queue :: "task_queue_options \<Rightarrow> order_tasks_queue" where
  "new_order_tasks_queue options =
     \<lparr>tq_name = (case tqo_name options of None \<Rightarrow> QUEUE_NAME | Some n \<Rightarrow> n),
      tq_prefix = (case tqo_prefix options of Some [] \<Rightarrow> None | p \<Rightarrow> p),
      tq_backoffDelayMs = (case tqo_backoffDelayMs options of None \<Rightarrow> RECEIPT_BACKOFF_DELAY_MS | Some d \<Rightarrow> d)\<rparr>"

definition enqueueReceipt ::
  "'q queue_client \<Rightarrow> order_tasks_queue \<Rightarrow> receipt_job_data \<Rightarrow> ('q, error, unit) action" where
  "enqueueReceipt client tasks data =
     client (AddJob JOB_SEND_RECEIPT data
       \<lparr>jo_jobId = Some (receiptJobId (rd_orderId data)), jo_attempts = Some RECEIPT_ATTEMPTS,
        jo_backoff = Some (''exponential'', tq_backoffDelayMs tasks, RECEIPT_BACKOFF_JITTER),
        jo_removeOnComplete = AfterSec COMPLETED_KEEP_SEC, jo_removeOnFail = AfterSec FAILED_KEEP_SEC\<rparr>)"

definition upsertCleanupScheduler :: "'q queue_client \<Rightarrow> jsnum \<Rightarrow> ('q, error, unit) action" where
  "upsertCleanupScheduler client everyMs =
     client (UpsertJobScheduler SCHEDULER_OUTBOX_CLEANUP everyMs JOB_OUTBOX_CLEANUP
       \<lparr>jo_jobId = None, jo_attempts = None, jo_backoff = None,
        jo_removeOnComplete = AtOnce, jo_removeOnFail = AfterSec FAILED_KEEP_SEC\<rparr>)"

text \<open>
  What BullMQ documents of \<open>add\<close> with a \<open>jobId\<close>: a job whose id is in the queue is not added again; else
  it is added. A command that throws may or may not have been carried out. \<open>kept\<close> are the jobs the queue
  still holds (a completed one for a day, a failed one for a week).
\<close>

definition dedups :: "'q queue_client \<Rightarrow> ('q \<Rightarrow> (string \<times> receipt_job_data) list) \<Rightarrow> bool" where
  "dedups client kept \<longleftrightarrow>
     (\<forall>name data opts i q. jo_jobId opts = Some i \<longrightarrow>
        (let (r, q') = client (AddJob name data opts) q;
             ids = fst ` set (kept q);
             added = kept q @ (if i \<in> ids then [] else [(i, data)])
         in if r = Inr () then kept q' = added else kept q' = kept q \<or> kept q' = added))"

subsection \<open>The worker\<close>

record queued_job =
  qj_name :: string
  qj_data :: receipt_job_data
  qj_attemptsMade :: nat

text \<open>The handlers are those of \<open>run-worker.ts\<close>; the receipt itself is a line on the console.\<close>

record 's task_handlers =
  sendReceipt :: "receipt_job_data \<Rightarrow> nat \<Rightarrow> ('s, error, unit) action"
  cleanupOutbox :: "('s, error, unit) action"

definition process_job :: "'s task_handlers \<Rightarrow> queued_job \<Rightarrow> ('s, error, unit) action" where
  "process_job handlers job =
     (if qj_name job = JOB_SEND_RECEIPT then sendReceipt handlers (qj_data job) (qj_attemptsMade job + 1)
      else if qj_name job = JOB_OUTBOX_CLEANUP then cleanupOutbox handlers
      else throw (PlainError (''unknown job type: '' @ qj_name job)))"

definition OUTBOX_RETENTION_DAYS :: int where "OUTBOX_RETENTION_DAYS = 7"
definition DEFAULT_CLEANUP_EVERY_MS :: int where "DEFAULT_CLEANUP_EVERY_MS = 60 * 60 * 1000"

definition readCleanupInterval :: "string option \<Rightarrow> error + jsnum" where
  "readCleanupInterval env =
     (let v = (case env of None \<Rightarrow> Num (of_int DEFAULT_CLEANUP_EVERY_MS) | Some t \<Rightarrow> js_Number t)
      in case v of
           Num q \<Rightarrow> if q < 1000 then Inl (PlainError ''OUTBOX_CLEANUP_EVERY_MS'') else Inr v
         | _ \<Rightarrow> Inl (PlainError ''OUTBOX_CLEANUP_EVERY_MS''))"

text \<open>\<open>DELETE FROM outbox WHERE published_at IS NOT NULL AND published_at < now() - 7 days\<close>, and its row count.\<close>

definition expired :: "int \<Rightarrow> outbox_row \<Rightarrow> bool" where
  "expired now r \<longleftrightarrow> (case ob_published_at r of None \<Rightarrow> False
     | Some t \<Rightarrow> t < now - OUTBOX_RETENTION_DAYS * 24 * 3600 * 1000)"

definition cleanup_outbox :: "nat db_action" where
  "cleanup_outbox =
     and_then (gets (\<lambda>s. length (filter (expired (clock s)) (outbox s)))) (\<lambda>n.
     and_then (modify (\<lambda>s. s\<lparr>outbox := filter (\<lambda>r. \<not> expired (clock s) r) (outbox s)\<rparr>)) (\<lambda>_. ret n))"

definition worker_handlers :: "db task_handlers" where
  "worker_handlers =
     \<lparr>sendReceipt = (\<lambda>data attempt. ret ()), cleanupOutbox = and_then cleanup_outbox (\<lambda>_. ret ())\<rparr>"

subsection \<open>The consumer process\<close>

definition openTasksQueue :: "string option \<Rightarrow> string option \<Rightarrow> order_tasks_queue option" where
  "openTasksQueue REDIS_DISABLED REDIS_QUEUE_URL =
     (if REDIS_DISABLED = Some ''1'' \<or> REDIS_QUEUE_URL = None \<or> REDIS_QUEUE_URL = Some [] then None
      else Some (new_order_tasks_queue \<lparr>tqo_name = None, tqo_prefix = None, tqo_backoffDelayMs = None\<rparr>))"

definition receipt_of :: "received_event \<Rightarrow> receipt_job_data" where
  "receipt_of event =
     \<lparr>rd_orderId = re_orderId event,
      rd_customerEmail = Option.bind (field_of ''data'' (re_body event)) (field_of ''customerEmail'')\<rparr>"

definition after_applied ::
  "'q queue_client \<Rightarrow> order_tasks_queue option \<Rightarrow> received_event \<Rightarrow> ('q, error, unit) action" where
  "after_applied client tasks event =
     (case tasks of None \<Rightarrow> ret () | Some t \<Rightarrow> enqueueReceipt client t (receipt_of event))"

record 'q consumer_process =
  cp_db :: db
  cp_queue :: 'q

text \<open>One delivery: the hook runs once the effect's transaction has returned, before the acknowledgement.\<close>

definition consume_delivery ::
  "'q queue_client \<Rightarrow> order_tasks_queue option \<Rightarrow> bool \<Rightarrow> commit_fate \<Rightarrow> delivery \<Rightarrow> 'q consumer_process
     \<Rightarrow> (settled_outcome \<times> channel_command list) \<times> 'q consumer_process" where
  "consume_delivery client tasks opened fate msg w =
     (let hook = (\<lambda>event. after_applied client tasks event (cp_queue w));
          (settled, s') = handleMessage \<lparr>afterEffect = None, afterApplied = Some (\<lambda>event. fst (hook event))\<rparr>
                            opened fate msg (cp_db w);
          q' = (case parseOrderPlaced (dl_content msg) of
                  None \<Rightarrow> cp_queue w
                | Some event \<Rightarrow> (case fst (applyOrderPlacedEffect fate event (cp_db w)) of
                      Inl _ \<Rightarrow> cp_queue w
                    | Inr _ \<Rightarrow> snd (hook event)))
      in (settled, \<lparr>cp_db = s', cp_queue = q'\<rparr>))"

fun consume_deliveries ::
  "'q queue_client \<Rightarrow> order_tasks_queue option \<Rightarrow> (bool \<times> commit_fate \<times> delivery) list \<Rightarrow> 'q consumer_process
     \<Rightarrow> (settled_outcome \<times> channel_command list) list \<times> 'q consumer_process" where
  "consume_deliveries client tasks [] w = ([], w)"
| "consume_deliveries client tasks ((opened, fate, msg) # ds) w =
     (let (r, w1) = consume_delivery client tasks opened fate msg w;
          (rs, w2) = consume_deliveries client tasks ds w1
      in (r # rs, w2))"

subsection \<open>Cleaning is invisible to the couriers\<close>

lemma cleanup_run:
  "cleanup_outbox s = (Inr (length (filter (expired (clock s)) (outbox s))),
     s\<lparr>outbox := filter (\<lambda>r. \<not> expired (clock s) r) (outbox s)\<rparr>)"
  by (simp add: cleanup_outbox_def and_then_def)

lemma expired_not_pending: "pending since r \<Longrightarrow> \<not> expired now r"
  by (auto simp: pending_def expired_def)

lemma take_batch_cleaned: "take_batch mode taken n since (filter (\<lambda>r. \<not> expired now r) rs) = take_batch mode taken n since rs"
proof -
  have "filter (\<lambda>r. pending since r \<and> (mode = SkipLocked \<longrightarrow> ob_id r \<notin> taken)) (filter (\<lambda>r. \<not> expired now r) rs)
      = filter (\<lambda>r. pending since r \<and> (mode = SkipLocked \<longrightarrow> ob_id r \<notin> taken)) rs"
    using expired_not_pending by (induction rs) auto
  then show ?thesis by (simp only: take_batch_def)
qed

lemma send_rows_sent: "send_rows sink rows b = (sent, stopped, b') \<Longrightarrow> set sent \<subseteq> ob_id ` set rows"
  by (induction rows arbitrary: b sent stopped b') (fastforce split: prod.splits sum.splits)+

lemma mark_expired:
  assumes "distinct (map ob_id rs)" "r \<in> set rs" "set sent \<subseteq> ob_id ` set (take_batch mode taken n since rs)"
  shows "expired now (mark_failed failedId (mark_sent now sent r)) \<longleftrightarrow> expired now r"
proof (cases "ob_id r \<in> set sent")
  case True
  then obtain r' where r': "r' \<in> set (take_batch mode taken n since rs)" "ob_id r' = ob_id r" using assms(3) by force
  then have "r' \<in> set rs" "pending since r'" using take_batch_rows [of mode taken n since rs] by auto
  then have "pending since r" using r'(2) assms(1,2) by (metis distinct_map inj_on_contraD)
  then show ?thesis using True by (auto simp: expired_def pending_def mark_failed_def mark_sent_def OUTBOX_RETENTION_DAYS_def)
next
  case False
  then show ?thesis by (simp add: expired_def mark_failed_def mark_sent_def)
qed

abbreviation cleaned :: "'b relay_world \<Rightarrow> 'b relay_world" where
  "cleaned w \<equiv> w\<lparr>rw_db := snd (cleanup_outbox (rw_db w))\<rparr>"

lemma relayOnce_cleaned:
  assumes "distinct (map ob_id (outbox (rw_db w)))" "relayOnce sink options taken hook w = (res, w')"
  shows "relayOnce sink options taken hook (cleaned w) = (res, cleaned w')"
proof -
  let ?s = "rw_db w"
  let ?mode = "case lockMode options of None \<Rightarrow> SkipLocked | Some m \<Rightarrow> m"
  let ?n = "case batchSize options of None \<Rightarrow> 100 | Some k \<Rightarrow> k"
  let ?rows = "take_batch ?mode taken ?n (notBefore options) (outbox ?s)"
  obtain sent stopped b where s: "send_rows sink ?rows (rw_broker w) = (sent, stopped, b)"
    by (cases "send_rows sink ?rows (rw_broker w)")
  let ?g = "\<lambda>r. mark_failed stopped (mark_sent (clock ?s) sent r)"
  have "filter (\<lambda>r. \<not> expired (clock ?s) r) (map ?g rs) = map ?g (filter (\<lambda>r. \<not> expired (clock ?s) r) rs)"
    if "set rs \<subseteq> set (outbox ?s)" for rs
    using that mark_expired [OF assms(1) _ send_rows_sent [OF s]] by (induction rs) auto
  then have g: "filter (\<lambda>r. \<not> expired (clock ?s) r) (map ?g (outbox ?s))
      = map ?g (filter (\<lambda>r. \<not> expired (clock ?s) r) (outbox ?s))" by simp
  show ?thesis
    using assms(2) s g by (auto simp: relayOnce_def Let_def cleanup_run take_batch_cleaned)
qed

lemma relayOnce_ids:
  "relayOnce sink options taken hook w = (res, w') \<Longrightarrow> map ob_id (outbox (rw_db w')) = map ob_id (outbox (rw_db w))"
  by (auto simp: relayOnce_def Let_def mark_failed_def mark_sent_def comp_def split: prod.splits if_splits)

lemma relayLoop_cleaned:
  assumes "distinct (map ob_id (outbox (rw_db w)))" "relayLoop sink options hooks w = (pauses, w')"
  shows "relayLoop sink options hooks (cleaned w) = (pauses, cleaned w')"
  using assms
proof (induction hooks arbitrary: w w' pauses)
  case (Cons hook hooks)
  obtain res w1 where one: "relayOnce sink options {} hook w = (res, w1)" by fastforce
  obtain p2 w2 where rest: "relayLoop sink options hooks w1 = (p2, w2)" by fastforce
  have "relayLoop sink options hooks (cleaned w1) = (p2, cleaned w2)"
    using Cons.IH [OF _ rest] Cons.prems(1) relayOnce_ids [OF one] by simp
  then show ?case
    using Cons.prems(2) one rest relayOnce_cleaned [OF Cons.prems(1) one] by (simp add: Let_def)
qed simp

text \<open>C31: cleaning the outbox loses nothing. It removes only rows that were published more than seven days ago,
  and the couriers cannot tell: from a cleaned outbox the courier's loop sends the broker the same, makes the
  same pauses, and ends in the cleaned outbox of the run without the cleaning.\<close>

theorem cleanup_invisible:
  assumes "distinct (map ob_id (outbox (rw_db w)))" and "relayLoop sink options hooks w = (pauses, w')"
    and "cleanup_outbox (rw_db w) = (Inr n, s')"
  shows "relayLoop sink options hooks (w\<lparr>rw_db := s'\<rparr>) = (pauses, w'\<lparr>rw_db := snd (cleanup_outbox (rw_db w'))\<rparr>)
    \<and> outbox s' = filter (\<lambda>r. case ob_published_at r of None \<Rightarrow> True
           | Some t \<Rightarrow> clock (rw_db w) - 604800000 \<le> t) (outbox (rw_db w))
    \<and> n + length (outbox s') = length (outbox (rw_db w))"
proof (intro conjI)
  show "relayLoop sink options hooks (w\<lparr>rw_db := s'\<rparr>) = (pauses, w'\<lparr>rw_db := snd (cleanup_outbox (rw_db w'))\<rparr>)"
    using relayLoop_cleaned [OF assms(1,2)] assms(3) by simp
  show "outbox s' = filter (\<lambda>r. case ob_published_at r of None \<Rightarrow> True
           | Some t \<Rightarrow> clock (rw_db w) - 604800000 \<le> t) (outbox (rw_db w))"
    using assms(3) by (auto simp: cleanup_run expired_def OUTBOX_RETENTION_DAYS_def intro!: filter_cong split: option.splits)
  show "n + length (outbox s') = length (outbox (rw_db w))"
    using assms(3) sum_length_filter_compl [of "expired (clock (rw_db w))" "outbox (rw_db w)"]
    by (auto simp: cleanup_run)
qed

subsection \<open>Receipts\<close>

lemma enqueue_dedup:
  assumes "dedups client kept" "enqueueReceipt client tasks d q = (r, q')"
  shows "(r = Inr () \<longrightarrow> receiptJobId (rd_orderId d) \<in> fst ` set (kept q'))
    \<and> (kept q' = kept q \<or> receiptJobId (rd_orderId d) \<notin> fst ` set (kept q)
         \<and> kept q' = kept q @ [(receiptJobId (rd_orderId d), d)])"
proof -
  let ?i = "receiptJobId (rd_orderId d)"
  let ?added = "kept q @ (if ?i \<in> fst ` set (kept q) then [] else [(?i, d)])"
  have "if r = Inr () then kept q' = ?added else kept q' = kept q \<or> kept q' = ?added"
    using assms(1) [unfolded dedups_def, rule_format, of
        "\<lparr>jo_jobId = Some ?i, jo_attempts = Some RECEIPT_ATTEMPTS,
          jo_backoff = Some (''exponential'', tq_backoffDelayMs tasks, RECEIPT_BACKOFF_JITTER),
          jo_removeOnComplete = AfterSec COMPLETED_KEEP_SEC, jo_removeOnFail = AfterSec FAILED_KEEP_SEC\<rparr>" ?i
        JOB_SEND_RECEIPT d q] assms(2)
    unfolding enqueueReceipt_def by (simp add: Let_def)
  then show ?thesis by (auto split: if_splits)
qed

text \<open>What one delivery does to the queue and the journal.\<close>

lemma consume_delivery_step:
  assumes "dedups client kept" "journal_ok (cp_db w)"
    and run: "consume_delivery client (Some tasks) opened fate msg w = ((outc, cmds), w')"
  shows "journal_ok (cp_db w')"
    and "set (processed_order_events (cp_db w)) \<subseteq> set (processed_order_events (cp_db w'))"
    and "(kept (cp_queue w') = kept (cp_queue w) \<or> (\<exists>ev. parseOrderPlaced (dl_content msg) = Some ev
           \<and> re_eventId ev \<in> fst ` set (processed_order_events (cp_db w'))
           \<and> receiptJobId (re_orderId ev) \<notin> fst ` set (kept (cp_queue w))
           \<and> kept (cp_queue w') = kept (cp_queue w) @ [(receiptJobId (re_orderId ev), receipt_of ev)]))
      \<and> (Ack \<in> set cmds \<longrightarrow> (\<exists>ev. parseOrderPlaced (dl_content msg) = Some ev
           \<and> receiptJobId (re_orderId ev) \<in> fst ` set (kept (cp_queue w'))))" (is ?receipt)
proof -
  let ?s = "cp_db w" and ?q = "cp_queue w"
  let ?hooks = "\<lparr>afterEffect = None, afterApplied = Some (\<lambda>event. fst (after_applied client (Some tasks) event ?q))\<rparr>"
  have msg: "handleMessage ?hooks opened fate msg ?s = ((outc, cmds), cp_db w')"
    using run by (auto simp: consume_delivery_def Let_def split: prod.splits)
  show "journal_ok (cp_db w')" using journal_ok_handle [OF assms(2)] msg by (metis snd_conv)
  show "set (processed_order_events ?s) \<subseteq> set (processed_order_events (cp_db w'))"
    using handle_final [of ?hooks opened fate msg ?s] msg
    by (auto simp: apply_run(2) applied_to_def split: option.splits if_splits)
  have queue: "cp_queue w' = (case parseOrderPlaced (dl_content msg) of None \<Rightarrow> ?q
      | Some event \<Rightarrow> (case fst (applyOrderPlacedEffect fate event ?s) of Inl _ \<Rightarrow> ?q
          | Inr _ \<Rightarrow> snd (after_applied client (Some tasks) event ?q)))"
    using run by (auto simp: consume_delivery_def Let_def split: prod.splits)
  show ?receipt
  proof (cases "parseOrderPlaced (dl_content msg)")
    case None
    then show ?thesis
      using queue handle_poison [OF None, of ?hooks opened fate ?s] msg by (auto split: if_splits)
  next
    case (Some ev)
    obtain res s1 where app: "applyOrderPlacedEffect fate ev ?s = (res, s1)" by fastforce
    obtain r q' where enq: "enqueueReceipt client tasks (receipt_of ev) ?q = (r, q')" by fastforce
    have d: "rd_orderId (receipt_of ev) = re_orderId ev" by (simp add: receipt_of_def)
    show ?thesis
    proof (cases res)
      case (Inl e)
      then show ?thesis using queue app Some handle_error [OF Some, of fate ?s e s1 ?hooks opened] msg by auto
    next
      case (Inr applied)
      have q': "cp_queue w' = q'" using queue Some app Inr enq by (simp add: after_applied_def)
      have s1: "cp_db w' = s1" using handle_final [of ?hooks opened fate msg ?s] msg Some app by simp
      have e: "re_eventId ev \<in> fst ` set (processed_order_events s1)"
        using applied_recorded [OF assms(2)] app Inr by blast
      have "Ack \<in> set cmds \<longrightarrow> r = Inr ()"
        using msg Some app Inr enq
        by (cases r) (auto simp: handleMessage_def handle_body_def after_applied_def split: if_splits)
      then show ?thesis using enqueue_dedup [OF assms(1) enq] Some e q' s1 d by auto
    qed
  qed
qed

definition delivered_event :: "bool \<times> commit_fate \<times> delivery \<Rightarrow> received_event option" where
  "delivered_event x = parseOrderPlaced (dl_content (snd (snd x)))"

definition receipt_id :: "received_event \<Rightarrow> string" where
  "receipt_id ev = receiptJobId (re_orderId ev)"

text \<open>A job of the queue comes from a delivered event whose effect is in the database.\<close>

definition receipt_from :: "(bool \<times> commit_fate \<times> delivery) list \<Rightarrow> db \<Rightarrow> string \<times> receipt_job_data \<Rightarrow> bool" where
  "receipt_from ds s job \<longleftrightarrow> (\<exists>x \<in> set ds. \<exists>ev. delivered_event x = Some ev
     \<and> job = (receipt_id ev, receipt_of ev) \<and> re_eventId ev \<in> fst ` set (processed_order_events s))"

text \<open>If the delivery was acknowledged, its receipt is among the jobs.\<close>

definition receipted :: "string set \<Rightarrow> bool \<times> commit_fate \<times> delivery \<Rightarrow> settled_outcome \<times> channel_command list \<Rightarrow> bool" where
  "receipted ids x r \<longleftrightarrow> (Ack \<in> set (snd r) \<longrightarrow> (\<exists>ev. delivered_event x = Some ev \<and> receipt_id ev \<in> ids))"

lemma receipt_from_more:
  "receipt_from ds s job \<Longrightarrow> set ds \<subseteq> set ds' \<Longrightarrow>
   set (processed_order_events s) \<subseteq> set (processed_order_events s') \<Longrightarrow> receipt_from ds' s' job"
  unfolding receipt_from_def by blast

lemma consume_deliveries_receipts:
  assumes "dedups client kept" "journal_ok (cp_db w)" "distinct (map fst (kept (cp_queue w)))"
    and "consume_deliveries client (Some tasks) ds w = (rs, w')"
  shows "distinct (map fst (kept (cp_queue w')))
    \<and> set (kept (cp_queue w)) \<subseteq> set (kept (cp_queue w'))
    \<and> set (processed_order_events (cp_db w)) \<subseteq> set (processed_order_events (cp_db w'))
    \<and> (\<forall>job \<in> set (kept (cp_queue w')) - set (kept (cp_queue w)). receipt_from ds (cp_db w') job)
    \<and> list_all2 (receipted (fst ` set (kept (cp_queue w')))) ds rs"
  using assms(2-4)
proof (induction ds arbitrary: w rs)
  case (Cons x ds)
  obtain opened fate msg where x: "x = (opened, fate, msg)" by (cases x) auto
  obtain outc cmds w1 where one: "consume_delivery client (Some tasks) opened fate msg w = ((outc, cmds), w1)"
    by (metis prod.collapse)
  obtain rs' where rest: "consume_deliveries client (Some tasks) ds w1 = (rs', w')" and rs: "rs = (outc, cmds) # rs'"
    using Cons.prems(3) unfolding x by (auto simp: one split: prod.splits)
  note step = consume_delivery_step [OF assms(1) Cons.prems(1) one]
  have ev: "delivered_event x = parseOrderPlaced (dl_content msg)" by (simp add: delivered_event_def x)
  have queue: "distinct (map fst (kept (cp_queue w1))) \<and> set (kept (cp_queue w)) \<subseteq> set (kept (cp_queue w1))
      \<and> (\<forall>job \<in> set (kept (cp_queue w1)) - set (kept (cp_queue w)). receipt_from [x] (cp_db w1) job)"
    using conjunct1 [OF step(3)]
  proof
    assume "\<exists>ev. parseOrderPlaced (dl_content msg) = Some ev
           \<and> re_eventId ev \<in> fst ` set (processed_order_events (cp_db w1))
           \<and> receiptJobId (re_orderId ev) \<notin> fst ` set (kept (cp_queue w))
           \<and> kept (cp_queue w1) = kept (cp_queue w) @ [(receiptJobId (re_orderId ev), receipt_of ev)]"
    then obtain ev' where "parseOrderPlaced (dl_content msg) = Some ev'"
      "re_eventId ev' \<in> fst ` set (processed_order_events (cp_db w1))" "receipt_id ev' \<notin> fst ` set (kept (cp_queue w))"
      "kept (cp_queue w1) = kept (cp_queue w) @ [(receipt_id ev', receipt_of ev')]"
      unfolding receipt_id_def by blast
    then show ?thesis using Cons.prems(2) by (auto simp: receipt_from_def ev)
  qed (use Cons.prems(2) in simp)
  have acked: "receipted (fst ` set (kept (cp_queue w1))) x (outc, cmds)"
    using step(3) unfolding receipted_def ev receipt_id_def by simp
  note ih = Cons.IH [OF step(1) conjunct1 [OF queue] rest]
  have "receipt_from (x # ds) (cp_db w') job"
    if "job \<in> set (kept (cp_queue w')) - set (kept (cp_queue w))" for job
  proof (cases "job \<in> set (kept (cp_queue w1))")
    case True
    then have "receipt_from [x] (cp_db w1) job" using queue that by blast
    then show ?thesis by (rule receipt_from_more) (use ih in auto)
  next
    case False
    then have "receipt_from ds (cp_db w') job" using ih that by blast
    then show ?thesis by (rule receipt_from_more) auto
  qed
  moreover have "receipted (fst ` set (kept (cp_queue w'))) x (outc, cmds)"
    using acked ih unfolding receipted_def by blast
  ultimately show ?case using ih queue step(2) rs by auto
qed simp


text \<open>A queue that keeps every job, and the same event delivered twice.\<close>

definition list_queue :: "(string \<times> receipt_job_data) list queue_client" where
  "list_queue cmd q = (case cmd of
       AddJob name data opts \<Rightarrow> (case jo_jobId opts of
           Some i \<Rightarrow> (Inr (), if i \<in> fst ` set q then q else q @ [(i, data)])
         | None \<Rightarrow> (Inr (), q))
     | UpsertJobScheduler _ _ _ _ \<Rightarrow> (Inr (), q))"

lemma list_queue_dedups: "dedups list_queue id"
  by (simp add: dedups_def list_queue_def)

definition plain_tasks :: order_tasks_queue where
  "plain_tasks = new_order_tasks_queue \<lparr>tqo_name = None, tqo_prefix = None, tqo_backoffDelayMs = None\<rparr>"

definition tea_twice :: "(bool \<times> commit_fate \<times> delivery) list" where
  "tea_twice = [(False, Commits, tea_delivery), (True, Commits, tea_delivery)]"


definition clean_options :: relay_options where
  "clean_options = \<lparr>batchSize = None, lockMode = None, notBefore = None\<rparr>"

definition clean_row :: "string \<Rightarrow> int option \<Rightarrow> outbox_row" where
  "clean_row i at_ms =
     \<lparr>ob_id = i, ob_aggregate_type = AGGREGATE_ORDER, ob_aggregate_id = ''1'', ob_type = ROUTING_KEY_ORDER_PLACED,
      ob_payload = tea_event, ob_created_at = 0, ob_published_at = at_ms, ob_attempts = 0\<rparr>"

definition old_relay :: "order_placed_event list relay_world" where
  "old_relay = \<lparr>rw_db = sample_db\<lparr>clock := 1000000000,
       outbox := [clean_row ''a'' (Some 5), clean_row ''b'' None, clean_row ''c'' (Some 900000000)]\<rparr>, rw_broker = []\<rparr>"

theorem cleanup_invisible_witness:
  "\<exists>s'. cleanup_outbox (rw_db old_relay) = (Inr 1, s') \<and> map ob_id (outbox s') = [''b'', ''c'']
     \<and> rw_broker (snd (relayLoop (\<lambda>ev _ b. (Inr (), b @ [ev])) clean_options [True] (old_relay\<lparr>rw_db := s'\<rparr>))) = [tea_event]"
proof -
  let ?sink = "\<lambda>ev _ b. (Inr (), b @ [ev])"
  obtain p w' where loop: "relayLoop ?sink clean_options [True] old_relay = (p, w')" by fastforce
  obtain n s' where clean: "cleanup_outbox (rw_db old_relay) = (Inr n, s')" by (simp add: cleanup_run)
  have ids: "distinct (map ob_id (outbox (rw_db old_relay)))" by (simp add: old_relay_def clean_row_def)
  have rows: "n = 1" "map ob_id (outbox s') = [''b'', ''c'']"
    using clean by (auto simp: cleanup_run old_relay_def clean_row_def expired_def OUTBOX_RETENTION_DAYS_def)
  have "rw_broker w' = [tea_event]"
    using loop by (auto simp: relayOnce_def Let_def take_batch_def pending_def by_age_def old_relay_def clean_row_def
        clean_options_def)
  then show ?thesis using cleanup_invisible [OF ids loop clean] clean rows by auto
qed

subsection \<open>The worker\<close>

lemma process_job_unknown:
  "qj_name job \<notin> {JOB_SEND_RECEIPT, JOB_OUTBOX_CLEANUP} \<Longrightarrow>
   process_job handlers job s = (Inl (PlainError (''unknown job type: '' @ qj_name job)), s)"
  by (simp add: process_job_def)

lemma readCleanupInterval_ok: "readCleanupInterval env = Inr v \<Longrightarrow> \<exists>q. v = Num q \<and> 1000 \<le> q"
  by (cases v) (auto simp: readCleanupInterval_def Let_def split: option.splits jsnum.splits if_splits)

lemma readCleanupInterval_default: "readCleanupInterval None = Inr (Num 3600000)"
  by (simp add: readCleanupInterval_def DEFAULT_CLEANUP_EVERY_MS_def)

end
