(* ===== verification/DemoKit.thy ===== *)
theory DemoKit
  imports Books Publisher
begin

text \<open>
  What the demonstration scripts share: their bookkeeping of failures (\<open>src/lib/demo-output.ts\<close>,
  \<open>src/messaging/demo-kit.ts\<close>), the polling loops, and the reset of their own data
  (\<open>src/outbox/demo-kit.ts\<close>, \<open>src/messaging/demo-kit.ts\<close>).

  A polling loop may run for ever when time stands still, so it is a partial function: \<open>None\<close> is not
  returning. What happens while a script sleeps is an argument, a function of the milliseconds and the
  state; the readings of \<open>Date.now()\<close> are a function of the state. The rows a script writes to the journals
  get their time from \<open>now()\<close>, which the tables of theory \<open>Database\<close> do not keep: the rows \<open>processed since t\<close>
  are those that the tables did not have at \<open>t\<close>.
\<close>

subsection \<open>Failures\<close>

text \<open>The message of a failure is the name of what was expected.\<close>

definition expectEq :: "string list \<Rightarrow> string \<Rightarrow> 'a \<Rightarrow> 'a \<Rightarrow> string list" where
  "expectEq failures name actual expected = (if actual \<noteq> expected then failures @ [name] else failures)"

definition expectAtLeast :: "string list \<Rightarrow> string \<Rightarrow> int \<Rightarrow> int \<Rightarrow> string list" where
  "expectAtLeast failures name actual least = (if least \<le> actual then failures else failures @ [name])"

text \<open>\<open>runStandalone\<close>: the exit code. The body adds to the failures and may throw after some.\<close>

definition runStandalone :: "('s \<Rightarrow> ((error + unit) \<times> string list) \<times> 's) \<Rightarrow> 's \<Rightarrow> int \<times> 's" where
  "runStandalone body s =
     (let ((r, failures), s') = body s;
          failures = (case r of Inl _ \<Rightarrow> failures @ [''exception''] | Inr _ \<Rightarrow> failures)
      in (if failures \<noteq> [] then 1 else 0, s'))"

lemma expectEq_ok [simp]: "expectEq fs name a b = [] \<longleftrightarrow> fs = [] \<and> a = b"
  by (simp add: expectEq_def)

lemma expectEq_same [simp]: "expectEq fs name a a = fs"
  by (simp add: expectEq_def)

lemma expectAtLeast_ok [simp]: "expectAtLeast fs name a b = [] \<longleftrightarrow> fs = [] \<and> b \<le> a"
  by (simp add: expectAtLeast_def)

lemma runStandalone_passes:
  "fst (runStandalone body s) = 0 \<longleftrightarrow> fst (body s) = (Inr (), [])"
  by (cases "body s", cases "fst (body s)", cases "fst (fst (body s))")
    (auto simp: runStandalone_def Let_def)

subsection \<open>Waiting\<close>

partial_function (option) wait_rounds ::
  "('s \<Rightarrow> int) \<Rightarrow> (int \<Rightarrow> 's \<Rightarrow> 's) \<Rightarrow> ('s \<Rightarrow> bool) \<Rightarrow> int \<Rightarrow> int \<Rightarrow> 's \<Rightarrow> (bool \<times> 's) option"
where
  "wait_rounds now sleep condition deadline stepMs s =
     (if now s < deadline
      then (if condition s then Some (True, s) else wait_rounds now sleep condition deadline stepMs (sleep stepMs s))
      else Some (condition s, s))"

definition waitUntil ::
  "('s \<Rightarrow> int) \<Rightarrow> (int \<Rightarrow> 's \<Rightarrow> 's) \<Rightarrow> ('s \<Rightarrow> bool) \<Rightarrow> int \<Rightarrow> int option \<Rightarrow> 's \<Rightarrow> (bool \<times> 's) option" where
  "waitUntil now sleep condition timeoutMs stepMs s =
     wait_rounds now sleep condition (now s + timeoutMs) (case stepMs of None \<Rightarrow> 50 | Some k \<Rightarrow> k) s"

text \<open>\<open>waitFor\<close> of the messaging kit is the same loop.\<close>

definition waitFor ::
  "('s \<Rightarrow> int) \<Rightarrow> (int \<Rightarrow> 's \<Rightarrow> 's) \<Rightarrow> ('s \<Rightarrow> bool) \<Rightarrow> int \<Rightarrow> int option \<Rightarrow> 's \<Rightarrow> (bool \<times> 's) option" where
  "waitFor now sleep cond timeoutMs stepMs s =
     wait_rounds now sleep cond (now s + timeoutMs) (case stepMs of None \<Rightarrow> 50 | Some k \<Rightarrow> k) s"

text \<open>A sleep takes at least as long as it is asked to.\<close>

definition sleeps :: "('s \<Rightarrow> int) \<Rightarrow> (int \<Rightarrow> 's \<Rightarrow> 's) \<Rightarrow> bool" where
  "sleeps now sleep \<longleftrightarrow> (\<forall>ms s. now s + ms \<le> now (sleep ms s))"

lemma wait_rounds_returns:
  assumes "sleeps now sleep" "0 < k"
  shows "\<exists>n b. wait_rounds now sleep condition deadline k s = Some (b, (sleep k ^^ n) s)
    \<and> b = condition ((sleep k ^^ n) s) \<and> (\<forall>m < n. \<not> condition ((sleep k ^^ m) s))
    \<and> (b \<or> deadline \<le> now ((sleep k ^^ n) s)) \<and> (0 < n \<longrightarrow> now s + int (n - 1) * k < deadline)"
  using assms(1)
proof (induction "nat (deadline - now s)" arbitrary: s rule: less_induct)
  case less
  let ?s = "sleep k s"
  have time: "now s + k \<le> now ?s" using less.prems by (simp add: sleeps_def)
  show ?case
  proof (cases "now s < deadline \<and> \<not> condition s")
    case False
    then show ?thesis by (intro exI [of _ "0::nat"]) (auto simp: wait_rounds.simps [of now sleep condition deadline k s])
  next
    case True
    then have "nat (deadline - now ?s) < nat (deadline - now s)" using time assms(2) by linarith
    from less.hyps [OF this less.prems] obtain n b where
      ih: "wait_rounds now sleep condition deadline k ?s = Some (b, (sleep k ^^ n) ?s)"
        "b = condition ((sleep k ^^ n) ?s)" "\<forall>m < n. \<not> condition ((sleep k ^^ m) ?s)"
        "b \<or> deadline \<le> now ((sleep k ^^ n) ?s)" "0 < n \<longrightarrow> now ?s + int (n - 1) * k < deadline" by blast
    have pow: "(sleep k ^^ Suc m) s = (sleep k ^^ m) ?s" for m by (simp add: funpow_swap1)
    have "\<not> condition ((sleep k ^^ m) s)" if "m < Suc n" for m
      using that ih(3) True pow by (cases m) (simp_all del: funpow.simps(2))
    moreover have "now s + int (Suc n - 1) * k < deadline"
      using ih(5) True time by (cases n) (auto simp: algebra_simps)
    ultimately show ?thesis
      using ih True by (intro exI [of _ "Suc n"] exI [of _ b])
        (simp add: wait_rounds.simps [of now sleep condition deadline k s] pow del: funpow.simps(2))
  qed
qed

text \<open>Polling ends: whatever the condition and whatever happens meanwhile, as long as a sleep takes its time,
  \<open>waitUntil\<close> returns after at most as many rounds as fit into the timeout (one more for the last). It answers
  whether the condition held when it last looked, stops at the first round at which it holds, and gives up
  only when the time is over.\<close>

theorem waitUntil_returns:
  assumes "sleeps now sleep" and "k = (case stepMs of None \<Rightarrow> 50 | Some k \<Rightarrow> k)" and "0 < k"
  shows "\<exists>n b. waitUntil now sleep condition timeoutMs stepMs s = Some (b, (sleep k ^^ n) s)
    \<and> b = condition ((sleep k ^^ n) s) \<and> (\<forall>m < n. \<not> condition ((sleep k ^^ m) s))
    \<and> (b \<or> now s + timeoutMs \<le> now ((sleep k ^^ n) s)) \<and> (0 < n \<longrightarrow> int (n - 1) * k < timeoutMs)"
proof -
  from wait_rounds_returns [OF assms(1,3), of condition "now s + timeoutMs" s] obtain n b where
    "wait_rounds now sleep condition (now s + timeoutMs) k s = Some (b, (sleep k ^^ n) s)"
    "b = condition ((sleep k ^^ n) s)" "\<forall>m < n. \<not> condition ((sleep k ^^ m) s)"
    "b \<or> now s + timeoutMs \<le> now ((sleep k ^^ n) s)" "0 < n \<longrightarrow> now s + int (n - 1) * k < now s + timeoutMs"
    by blast
  then show ?thesis unfolding waitUntil_def assms(2) [symmetric] by (intro exI [of _ n] exI [of _ b]) auto
qed

theorem waitUntil_returns_witness:
  "\<exists>n. waitUntil id (\<lambda>ms t. t + ms) (\<lambda>t. 120 \<le> t) 1000 None 0 = Some (True, ((\<lambda>t::int. t + 50) ^^ n) 0)"
proof -
  obtain n b where w: "waitUntil id (\<lambda>ms t. t + ms) (\<lambda>t. 120 \<le> t) 1000 None 0 = Some (b, ((\<lambda>t::int. t + 50) ^^ n) 0)"
    "b = (120 \<le> ((\<lambda>t::int. t + 50) ^^ n) 0)" "b \<or> 1000 \<le> ((\<lambda>t::int. t + 50) ^^ n) 0"
    using waitUntil_returns [of id "\<lambda>ms t. t + ms" 50 None "\<lambda>t. 120 \<le> t" 1000 0] by (auto simp: sleeps_def)
  then have b by (cases b) auto
  then show ?thesis using w(1) by auto
qed

subsection \<open>Carrying until it is done\<close>

partial_function (option) relay_rounds ::
  "'b sink \<Rightarrow> int \<Rightarrow> nat \<Rightarrow> ('b relay_world \<Rightarrow> int) \<Rightarrow> (int \<Rightarrow> 'b relay_world \<Rightarrow> 'b relay_world)
     \<Rightarrow> ('b relay_world \<Rightarrow> string set) \<Rightarrow> int \<Rightarrow> nat \<Rightarrow> 'b relay_world \<Rightarrow> ((error + nat) \<times> 'b relay_world) option"
where
  "relay_rounds sink t0 expected now sleep held deadline carried w =
     (if carried < expected \<and> now w < deadline
      then (case relayOnce sink \<lparr>batchSize = None, lockMode = None, notBefore = Some t0\<rparr> (held w) True w of
              (Inl err, w1) \<Rightarrow> Some (Inl err, w1)
            | (Inr pass, w1) \<Rightarrow>
                if 0 < failed pass then Some (Inl (PlainError ''relay''), w1)
                else if carried + published pass < expected
                then relay_rounds sink t0 expected now sleep held deadline (carried + published pass) (sleep 100 w1)
                else relay_rounds sink t0 expected now sleep held deadline (carried + published pass) w1)
      else Some (Inr carried, w))"

text \<open>\<open>relayUntil\<close>: passes of the courier until \<open>expected\<close> rows are carried or the time is over. \<open>held\<close> are the
  rows that others have locked: after a courier was killed, the database may hold its locks for a while.\<close>

definition relayUntil ::
  "'b sink \<Rightarrow> int \<Rightarrow> nat \<Rightarrow> ('b relay_world \<Rightarrow> int) \<Rightarrow> (int \<Rightarrow> 'b relay_world \<Rightarrow> 'b relay_world)
     \<Rightarrow> ('b relay_world \<Rightarrow> string set) \<Rightarrow> int option \<Rightarrow> 'b relay_world \<Rightarrow> ((error + nat) \<times> 'b relay_world) option"
where
  "relayUntil sink t0 expected now sleep held timeoutMs w =
     relay_rounds sink t0 expected now sleep held (now w + (case timeoutMs of None \<Rightarrow> 10000 | Some t \<Rightarrow> t)) 0 w"

text \<open>The clock does not run backwards during a pass.\<close>

definition passes_take_time :: "'b sink \<Rightarrow> ('b relay_world \<Rightarrow> int) \<Rightarrow> bool" where
  "passes_take_time sink now \<longleftrightarrow>
     (\<forall>options taken w. now w \<le> now (snd (relayOnce sink options taken True w)))"

lemma relay_rounds_returns:
  assumes "sleeps now sleep" "passes_take_time sink now"
  shows "\<exists>r w'. relay_rounds sink t0 expected now sleep held deadline carried w = Some (r, w')
    \<and> (\<forall>n. r = Inr n \<longrightarrow> carried \<le> n \<and> (expected \<le> n \<or> deadline \<le> now w'))"
proof (induction "nat (deadline - now w)" arbitrary: w carried rule: less_induct)
  case less
  let ?options = "\<lparr>batchSize = None, lockMode = None, notBefore = Some t0\<rparr>"
  note step = relay_rounds.simps [of sink t0 expected now sleep held deadline carried w]
  show ?case
  proof (cases "carried < expected \<and> now w < deadline")
    case False
    then show ?thesis using step by auto
  next
    case True
    obtain r w1 where run: "relayOnce sink ?options (held w) True w = (r, w1)" by fastforce
    then obtain pass where r: "r = Inr pass" using relayOnce_result by blast
    let ?n = "carried + published pass"
    have "now w \<le> now w1" using assms(2) run unfolding passes_take_time_def by (metis snd_conv)
    then have time: "nat (deadline - now (sleep 100 w1)) < nat (deadline - now w)"
      using assms(1) True unfolding sleeps_def by (smt (verit) zless_nat_conj)
    from less.hyps [OF this, of ?n]
    have ih: "\<exists>r w'. relay_rounds sink t0 expected now sleep held deadline ?n (sleep 100 w1) = Some (r, w')
      \<and> (\<forall>n. r = Inr n \<longrightarrow> ?n \<le> n \<and> (expected \<le> n \<or> deadline \<le> now w'))" .
    have finish: "relay_rounds sink t0 expected now sleep held deadline ?n w1 = Some (Inr ?n, w1)" if "\<not> ?n < expected"
      using that relay_rounds.simps [of sink t0 expected now sleep held deadline ?n w1] by simp
    consider "0 < failed pass" | "failed pass = 0" "?n < expected" | "failed pass = 0" "\<not> ?n < expected" by blast
    then show ?thesis
    proof cases
      case 2
      then show ?thesis using ih step run r True by (auto intro: order_trans)
    qed (use step run r True finish in auto)
  qed
qed

subsection \<open>Deleting orders\<close>

text \<open>\<open>DELETE FROM orders\<close>; the items, the jobs and the idempotency keys of an order go with it (\<open>ON DELETE CASCADE\<close>).\<close>

definition delete_orders :: "(order_row \<Rightarrow> bool) \<Rightarrow> db \<Rightarrow> db" where
  "delete_orders p s =
     (let gone = o_id ` set (filter p (orders s)) in
      s\<lparr>orders := filter (\<lambda>r. \<not> p r) (orders s),
        order_items := filter (\<lambda>i. i_orderId i \<notin> gone) (order_items s),
        jobs := filter (\<lambda>j. \<not> pred_option (\<lambda>n. n \<in> gone) (j_orderId j) \<or> j_orderId j = None) (jobs s),
        idempotency_keys :=
          filter (\<lambda>k. \<not> pred_option (\<lambda>n. n \<in> gone) (ik_order_id k) \<or> ik_order_id k = None) (idempotency_keys s)\<rparr>)"

lemma serial_filter: "serial (map f xs) n \<Longrightarrow> serial (map f (filter p xs)) n"
  by (auto simp: serial_def sorted_wrt_map sorted_wrt_filter)

text \<open>An order that stays is not among those that go: identifiers are unique.\<close>

lemma kept_ids:
  assumes "db_wf s"
  shows "o_id ` set (filter (\<lambda>r. \<not> p r) (orders s)) = o_id ` set (orders s) - o_id ` set (filter p (orders s))"
proof -
  have "inj_on o_id (set (orders s))" using order_ids_distinct [OF assms] by (simp add: distinct_map)
  moreover have "set (filter (\<lambda>r. \<not> p r) (orders s)) = set (orders s) - set (filter p (orders s))" by auto
  ultimately show ?thesis by (simp add: inj_on_image_set_diff [of o_id "set (orders s)"])
qed

lemma db_wf_delete_orders:
  assumes "db_wf s"
  shows "db_wf (delete_orders p s)"
proof -
  define gone where "gone = o_id ` set (filter p (orders s))"
  define kept where "kept = o_id ` set (filter (\<lambda>r. \<not> p r) (orders s))"
  have ids: "kept = o_id ` set (orders s) - gone" unfolding kept_def gone_def by (rule kept_ids [OF assms])
  have image: "o_id ` {r \<in> set (orders s). \<not> p r} = kept" by (simp add: kept_def)
  have d: "delete_orders p s = s\<lparr>orders := filter (\<lambda>r. \<not> p r) (orders s),
        order_items := filter (\<lambda>i. i_orderId i \<notin> gone) (order_items s),
        jobs := filter (\<lambda>j. \<not> pred_option (\<lambda>n. n \<in> gone) (j_orderId j) \<or> j_orderId j = None) (jobs s),
        idempotency_keys :=
          filter (\<lambda>k. \<not> pred_option (\<lambda>n. n \<in> gone) (ik_order_id k) \<or> ik_order_id k = None) (idempotency_keys s)\<rparr>"
    by (simp add: delete_orders_def gone_def)
  have "serials (delete_orders p s)" "uniques (delete_orders p s)"
    using assms by (simp_all add: db_wf_defs d serial_filter distinct_map_filter)
  moreover have "references (delete_orders p s)"
  proof -
    have "i_orderId i \<in> kept \<and> i_productId i \<in> p_id ` set (products s)"
      if "i \<in> set (order_items s)" "i_orderId i \<notin> gone" for i
      using assms that ids by (auto simp: db_wf_defs)
    moreover have "pred_option (\<lambda>i. i \<in> kept) (j_orderId j)"
      if "j \<in> set (jobs s)" "\<not> pred_option (\<lambda>n. n \<in> gone) (j_orderId j) \<or> j_orderId j = None" for j
      using assms that ids by (cases "j_orderId j") (auto simp: db_wf_defs)
    moreover have "pred_option (\<lambda>i. i \<in> kept) (ik_order_id k)"
      if "k \<in> set (idempotency_keys s)" "\<not> pred_option (\<lambda>n. n \<in> gone) (ik_order_id k) \<or> ik_order_id k = None" for k
      using assms that ids by (cases "ik_order_id k") (auto simp: db_wf_defs)
    moreover have "\<forall>r \<in> set (orders s). pred_option (\<lambda>u. u \<in> u_id ` set (users s)) (o_userId r)"
      using assms by (simp add: db_wf_defs)
    ultimately show ?thesis by (simp add: references_def d image)
  qed
  ultimately show ?thesis by (simp add: db_wf_def)
qed

lemma items_after_delete:
  assumes "db_wf s" "r \<in> set (orders (delete_orders p s))"
  shows "items_of (delete_orders p s) r = items_of s r"
proof -
  define gone where "gone = o_id ` set (filter p (orders s))"
  have "r \<in> set (filter (\<lambda>r. \<not> p r) (orders s))" using assms(2) by (simp add: delete_orders_def Let_def)
  then have "o_id r \<in> o_id ` set (filter (\<lambda>r. \<not> p r) (orders s))" by (rule imageI)
  then have "o_id r \<notin> gone" unfolding kept_ids [OF assms(1)] gone_def by blast
  then have "filter (\<lambda>i. i_orderId i = o_id r) (filter (\<lambda>i. i_orderId i \<notin> gone) (order_items s)) = items_of s r"
    by (auto intro!: filter_cong)
  then show ?thesis by (simp add: delete_orders_def Let_def gone_def)
qed

lemma books_delete_orders: "books s \<Longrightarrow> books (delete_orders p s)"
proof -
  assume b: "books s"
  have "order_typed (items_of (delete_orders p s) r) r" if "r \<in> set (orders (delete_orders p s))" for r
    unfolding items_after_delete [OF booksD(1) [OF b] that]
    using that booksD(5) [OF b] by (simp add: delete_orders_def Let_def)
  then show ?thesis
    using b db_wf_delete_orders [of s p] by (auto simp: books_def delete_orders_def Let_def)
qed

subsection \<open>An order of one product\<close>

definition can_place :: "db \<Rightarrow> int \<Rightarrow> string \<Rightarrow> bool" where
  "can_place s pid uuid \<longleftrightarrow> db_wf s \<and> (\<exists>p \<in> set (products s). p_id p = pid \<and> int4 (p_priceCents p))
     \<and> uuid \<notin> ob_id ` set (outbox s) \<and> seq_orders s \<le> 2147483647 \<and> seq_items s \<le> 2147483647"

definition single :: "string \<Rightarrow> int \<Rightarrow> create_order_dto" where
  "single customerEmail productId = \<lparr>co_customerEmail = customerEmail, co_items = [(show_int productId, 1)]\<rparr>"

definition known_user :: "db \<Rightarrow> int \<Rightarrow> bool" where
  "known_user s u \<longleftrightarrow> int4 u \<and> u \<in> u_id ` set (users s)"

lemma insert_single_order:
  assumes "can_place s pid uuid" "pred_option (known_user s) user"
  shows "\<exists>e s'. insertOrderWithEvent uuid now (single mail pid) user s = (Inr e, s')"
proof -
  obtain p where p: "p \<in> set (products s)" "p_id p = pid" "int4 (p_priceCents p)" and wf: "db_wf s"
    using assms by (auto simp: can_place_def)
  have pid: "int4 pid" "0 \<le> pid" using wf p by (auto simp: db_wf_defs serial_def)
  have "distinct (map p_id (products s))" using wf by (auto simp: db_wf_defs dest: serial_distinct)
  then have "find (\<lambda>q. p_id q = pid) (products s) = Some p" using find_key [of p_id "products s" p] p by simp
  then have "collect_item (show_int pid, 1) s = (Inr (p, 1), s)"
    using pid by (simp add: collect_item_def Let_def find_product_def int_param_int and_then_def)
  moreover have "pid \<in> p_id ` set (products s)" using p by blast
  ultimately show ?thesis
    using assms p pid
    by (cases user) (simp_all add: insertOrderWithEvent_def single_def Let_def and_then_def save_order_def insert_order_def
        insert_order_item_def enqueueOrderPlaced_def insert_outbox_def nextval_def can_place_def known_user_def int4_def)
qed

end
