(* ===== verification/Instances.thy ===== *)
theory Instances
  imports RateLimit
begin

text \<open>
  Several instances behind one limit: \<open>src/ratelimit/rate-limit-middleware.ts\<close> and the comparison of
  \<open>src/demo-ratelimit.ts\<close>. A burst of requests of one client is spread over the instances in turn. With
  the sliding window in Redis the instances share one window; the counter in memory
  (\<open>MemoryWindowLimiter\<close>) is a window per instance.
\<close>

datatype middleware_answer = Next | NextError error | TooMany int

definition rateLimitMiddleware :: "('s, error, limit_result) action \<Rightarrow> ('s, error, middleware_answer) action" where
  "rateLimitMiddleware consume_call =
     on_error
       (and_then consume_call (\<lambda>result. if allowed result then ret Next else ret (TooMany (retryAfterSec result))))
       (\<lambda>err. ret (NextError err))"

record memory_limiter =
  ml_limit :: int
  ml_windowMs :: int
  ml_count :: int
  ml_windowStart :: int

definition memory_consume :: "int \<Rightarrow> (memory_limiter, error, limit_result) action" where
  "memory_consume now = (\<lambda>m0.
     let m = (if ml_windowMs m0 \<le> now - ml_windowStart m0 then m0\<lparr>ml_windowStart := now, ml_count := 0\<rparr> else m0)
     in if ml_count m < ml_limit m
        then let m' = m\<lparr>ml_count := ml_count m + 1\<rparr>
             in (Inr \<lparr>allowed = True, remaining = ml_limit m' - ml_count m', retryAfterSec = 0\<rparr>, m')
        else let retryMs = ml_windowStart m + ml_windowMs m - now
             in (Inr \<lparr>allowed = False, remaining = 0, retryAfterSec = max 1 (ceil_div retryMs 1000)\<rparr>, m))"

definition INSTANCES :: nat where "INSTANCES = 3"
definition LIMIT :: int where "LIMIT = 5"
definition WINDOW_MS :: int where "WINDOW_MS = 10000"
definition TOTAL_REQUESTS :: nat where "TOTAL_REQUESTS = 15"
definition CLIENT_ID :: string where "CLIENT_ID = ''demo-client''"

text \<open>The \<open>i\<close>-th request of a burst goes to the instance \<open>i mod pods.length\<close>. A call is the instant at which
  the script (or the instance) sees it, and the member it adds.\<close>

fun burst_shared :: "limiter list \<Rightarrow> nat \<Rightarrow> (int \<times> string) list \<Rightarrow> redis \<Rightarrow> (error + middleware_answer) list \<times> redis" where
  "burst_shared pods i [] r = ([], r)"
| "burst_shared pods i ((us, member) # calls) r =
     (let (a, r1) = rateLimitMiddleware (consume (pods ! (i mod length pods)) member CLIENT_ID) (at_time us r);
          (as, r2) = burst_shared pods (i + 1) calls r1
      in (a # as, r2))"

fun burst_memory :: "memory_limiter list \<Rightarrow> nat \<Rightarrow> int list \<Rightarrow> (error + middleware_answer) list \<times> memory_limiter list" where
  "burst_memory pods i [] = ([], pods)"
| "burst_memory pods i (now # calls) =
     (let k = i mod length pods;
          (a, m) = rateLimitMiddleware (memory_consume now) (pods ! k);
          (as, pods') = burst_memory (pods[k := m]) (i + 1) calls
      in (a # as, pods'))"

subsection \<open>One shared window\<close>

lemma middleware_run:
  "consume_call s = (Inr v, s') \<Longrightarrow>
   rateLimitMiddleware consume_call s = (Inr (if allowed v then Next else TooMany (retryAfterSec v)), s')"
  by (simp add: rateLimitMiddleware_def and_then_def on_error_def)

lemma all_closed: "n \<le> h \<Longrightarrow> map (\<lambda>j. j < n) [h..<h + k] = replicate k False"
  by (intro nth_equalityI) (simp_all del: upt_Suc)

text \<open>As long as every call falls into the window behind the first, the history is the window.\<close>

lemma burst_shared_from:
  assumes "window_inv (l_prefix l @ '':'' @ CLIENT_ID) (l_windowMs l) used hist r"
    and "\<forall>t \<in> set hist. t0 \<le> t" "length hist \<le> nat (l_limit l)"
    and "sorted (r_us r # map fst calls)" "\<forall>c \<in> set calls. t0 \<le> fst c div 1000 \<and> fst c div 1000 < t0 + l_windowMs l"
    and "distinct (map snd calls)" "snd ` set calls \<inter> used = {}" "0 < l_windowMs l" "0 < l_limit l" "0 < n"
    and "burst_shared (replicate n l) i calls r = (as, r')"
  shows "map (\<lambda>a. a = Inr Next) as
      = map (\<lambda>j. j < nat (l_limit l)) [length hist..<length hist + length calls]
    \<and> (\<forall>a \<in> set as. a = Inr Next \<or> (\<exists>k. a = Inr (TooMany k) \<and> 1 \<le> k))"
  using assms
proof (induction calls arbitrary: hist used r i as)
  case (Cons c calls)
  obtain us m where c: "c = (us, m)" by (cases c)
  let ?now = "us div 1000" and ?key = "l_prefix l @ '':'' @ CLIENT_ID"
  have pod: "replicate n l ! (i mod length (replicate n l)) = l" using Cons.prems(10) by simp
  obtain res r1 where run: "consume l m CLIENT_ID (at_time us r) = (res, r1)" by fastforce
  obtain as' where rest: "burst_shared (replicate n l) (i + 1) calls r1 = (as', r')"
    and as: "as = fst (rateLimitMiddleware (consume l m CLIENT_ID) (at_time us r)) # as'"
    using Cons.prems(11) run unfolding c burst_shared.simps(2) pod
    by (cases res) (auto simp: rateLimitMiddleware_def and_then_def on_error_def split: prod.splits if_splits)
  have us: "r_us r \<le> us" and fresh: "m \<notin> used" using Cons.prems(4,7) c by auto
  have all: "filter (\<lambda>t. ?now - l_windowMs l < t) hist = hist"
    using Cons.prems(2,5) c by (fastforce simp: filter_id_conv)
  note step = consume_step [OF Cons.prems(1) us Cons.prems(8,9) fresh run, unfolded all]
  have next_calls: "sorted (r_us r1 # map fst calls)" "\<forall>c \<in> set calls. t0 \<le> fst c div 1000 \<and> fst c div 1000 < t0 + l_windowMs l"
    "distinct (map snd calls)" "snd ` set calls \<inter> insert m used = {}"
    using Cons.prems(4-7) c step by auto
  show ?case
  proof (cases "length hist < nat (l_limit l)")
    case True
    then have "int (length hist) < l_limit l" by linarith
    then obtain v where v: "res = Inr v" "allowed v"
      and inv1: "window_inv ?key (l_windowMs l) (insert m used) (hist @ [?now]) r1" using step by auto
    have "\<forall>t \<in> set (hist @ [?now]). t0 \<le> t" "length (hist @ [?now]) \<le> nat (l_limit l)"
      using Cons.prems(2,5) c True by auto
    note ih = Cons.IH [OF inv1 this next_calls Cons.prems(8-10) rest]
    have "[length hist..<length hist + length (c # calls)]
        = length hist # [length (hist @ [?now])..<length (hist @ [?now]) + length calls]"
      by (simp add: upt_conv_Cons del: upt_Suc)
    moreover have "as = Inr Next # as'"
      using as v middleware_run [of "consume l m CLIENT_ID" "at_time us r" v r1] run by simp
    ultimately show ?thesis using ih True by (simp del: upt_Suc)
  next
    case False
    then have "\<not> int (length hist) < l_limit l" by linarith
    then obtain v where v: "res = Inr v" "\<not> allowed v" "1 \<le> retryAfterSec v"
      and inv1: "window_inv ?key (l_windowMs l) (insert m used) hist r1" using step by auto
    from Cons.IH [OF inv1 Cons.prems(2,3) next_calls Cons.prems(8-10) rest]
    have ih: "map (\<lambda>a. a = Inr Next) as' = map (\<lambda>j. j < nat (l_limit l)) [length hist..<length hist + length calls]"
      "\<forall>a \<in> set as'. a = Inr Next \<or> (\<exists>k. a = Inr (TooMany k) \<and> 1 \<le> k)" by blast+
    note closed = all_closed [of "nat (l_limit l)" "length hist"]
    have "map (\<lambda>j. j < nat (l_limit l)) [length hist..<length hist + length calls] = replicate (length calls) False"
      "map (\<lambda>j. j < nat (l_limit l)) [length hist..<length hist + length (c # calls)] = replicate (Suc (length calls)) False"
      using closed [of "length calls"] closed [of "length (c # calls)"] False by (simp_all del: upt_Suc replicate_Suc)
    then show ?thesis using as v ih middleware_run [of "consume l m CLIENT_ID" "at_time us r" v r1] run by simp
  qed
qed simp

lemma fresh_window: "r_up r \<Longrightarrow> r_data r k = None \<Longrightarrow> window_inv k w {} [] r"
  by (simp add: window_inv_def)

subsection \<open>A window per instance\<close>

text \<open>A pod that has answered \<open>c\<close> requests of the window that began at \<open>t0\<close>.\<close>

definition pod_after :: "int \<Rightarrow> int \<Rightarrow> int \<Rightarrow> nat \<Rightarrow> memory_limiter" where
  "pod_after limit w t0 c = \<lparr>ml_limit = limit, ml_windowMs = w, ml_count = min limit (int c), ml_windowStart = t0\<rparr>"

lemma memory_step:
  assumes "t0 \<le> now" "now < t0 + w" "0 < limit"
  shows "rateLimitMiddleware (memory_consume now) (pod_after limit w t0 c)
    = (Inr (if int c < limit then Next else TooMany (max 1 (ceil_div (t0 + w - now) 1000))), pod_after limit w t0 (Suc c))"
  using assms by (simp add: rateLimitMiddleware_def memory_consume_def pod_after_def and_then_def on_error_def Let_def)

text \<open>How many of the first \<open>i\<close> requests went to instance \<open>k\<close> of \<open>n\<close>.\<close>

definition turns :: "nat \<Rightarrow> nat \<Rightarrow> nat \<Rightarrow> nat" where
  "turns n i k = i div n + (if k < i mod n then 1 else 0)"

lemma turns_Suc:
  assumes "0 < n" "k < n"
  shows "turns n (Suc i) k = (if k = i mod n then Suc (turns n i k) else turns n i k)"
proof (cases "Suc (i mod n) = n")
  case True
  then have "Suc i mod n = 0" "Suc i div n = Suc (i div n)" by (auto simp: mod_Suc div_Suc)
  then show ?thesis using True assms(2) by (auto simp: turns_def)
next
  case False
  then have "Suc i mod n = Suc (i mod n)" "Suc i div n = i div n" by (auto simp: mod_Suc div_Suc)
  then show ?thesis by (auto simp: turns_def)
qed

lemma turns_here: "0 < n \<Longrightarrow> turns n i (i mod n) = i div n"
  by (simp add: turns_def)

lemma burst_memory_from:
  assumes "0 < n" "0 < limit" "\<forall>now \<in> set calls. t0 \<le> now \<and> now < t0 + w"
  shows "map (\<lambda>a. a = Inr Next) (fst (burst_memory (map (\<lambda>k. pod_after limit w t0 (turns n i k)) [0..<n]) i calls))
    = map (\<lambda>j. int (j div n) < limit) [i..<i + length calls]"
  using assms(3)
proof (induction calls arbitrary: i)
  case (Cons now calls)
  let ?pods = "\<lambda>i. map (\<lambda>k. pod_after limit w t0 (turns n i k)) [0..<n]"
  let ?k = "i mod n"
  have pod: "?pods i ! ?k = pod_after limit w t0 (i div n)" using assms(1) by (simp add: turns_here)
  have step: "rateLimitMiddleware (memory_consume now) (?pods i ! ?k)
    = (Inr (if int (i div n) < limit then Next else TooMany (max 1 (ceil_div (t0 + w - now) 1000))), pod_after limit w t0 (Suc (i div n)))"
    unfolding pod using memory_step Cons.prems assms(2) by simp
  have "(?pods i)[?k := pod_after limit w t0 (Suc (i div n))] = ?pods (Suc i)"
    using assms(1) turns_here [OF assms(1), of i]
    by (intro nth_equalityI) (auto simp: nth_list_update turns_Suc)
  then have "burst_memory (?pods i) i (now # calls)
      = (Inr (if int (i div n) < limit then Next else TooMany (max 1 (ceil_div (t0 + w - now) 1000)))
           # fst (burst_memory (?pods (Suc i)) (Suc i) calls), snd (burst_memory (?pods (Suc i)) (Suc i) calls))"
    using step by (simp add: Let_def split: prod.split)
  moreover have "[i..<i + length (now # calls)] = i # [Suc i..<Suc i + length calls]"
    by (simp add: upt_conv_Cons del: upt_Suc)
  ultimately show ?case using Cons.IH [of "Suc i"] Cons.prems by (simp del: upt_Suc burst_memory.simps)
qed simp

lemma new_pods: "0 < limit \<Longrightarrow>
  replicate n \<lparr>ml_limit = limit, ml_windowMs = w, ml_count = 0, ml_windowStart = t0\<rparr>
    = map (\<lambda>k. pod_after limit w t0 (turns n 0 k)) [0..<n]"
  by (intro nth_equalityI) (simp_all add: turns_def pod_after_def)

lemma shared_burst:
  assumes "r_up r" and "r_data r (prefix @ '':'' @ CLIENT_ID) = None"
    and "0 < limit" and "0 < w" and "0 < n" and "sorted (r_us r # map fst calls)" and "distinct (map snd calls)"
    and "\<forall>c \<in> set calls. t0 \<le> fst c div 1000 \<and> fst c div 1000 < t0 + w"
    and "burst_shared (replicate n (new_limiter limit w (Some prefix) None)) 0 calls r = (as, r')"
  shows "map (\<lambda>a. a = Inr Next) as = map (\<lambda>j. j < nat limit) [0..<length calls]
    \<and> (\<forall>a \<in> set as. a = Inr Next \<or> (\<exists>k. a = Inr (TooMany k) \<and> 1 \<le> k))"
proof -
  let ?l = "new_limiter limit w (Some prefix) None"
  have inv: "window_inv (l_prefix ?l @ '':'' @ CLIENT_ID) (l_windowMs ?l) {} [] r"
    using fresh_window assms(1,2) by (simp add: new_limiter_def)
  show ?thesis
    using burst_shared_from [OF inv _ _ assms(6) _ assms(7) _ _ _ assms(5,9), of t0] assms(3,4,8)
    by (simp add: new_limiter_def)
qed

lemma memory_burst:
  assumes "0 < limit" and "0 < n" and "\<forall>now \<in> set calls. t0 \<le> now \<and> now < t0 + w"
  shows "map (\<lambda>a. a = Inr Next) (fst (burst_memory (replicate n
      \<lparr>ml_limit = limit, ml_windowMs = w, ml_count = 0, ml_windowStart = t0\<rparr>) 0 calls))
    = map (\<lambda>j. int (j div n) < limit) [0..<length calls]"
  using burst_memory_from [OF assms(2,1,3), of 0] new_pods [OF assms(1), of n w t0] by simp



end
