(* ===== verification/LimitDemo.thy ===== *)
theory LimitDemo
  imports DemoKit Instances
begin

text \<open>
  The demonstration of the rate limit, \<open>src/demo-ratelimit.ts\<close>: the answers its small applications give, what it
  counts and what it expects. The instants and members of the calls, the start of the memory windows and the
  time in the prefix of the keys are arguments.
\<close>

record limit_reply =
  lr_status :: int
  lr_retryAfter :: "int option"

text \<open>What \<open>/ping\<close> behind the middleware answers; an error goes to the default handler.\<close>

definition limit_reply_of :: "error + middleware_answer \<Rightarrow> limit_reply" where
  "limit_reply_of a =
     (case a of
        Inr Next \<Rightarrow> \<lparr>lr_status = 200, lr_retryAfter = None\<rparr>
      | Inr (middleware_answer.TooMany sec) \<Rightarrow> \<lparr>lr_status = 429, lr_retryAfter = Some sec\<rparr>
      | _ \<Rightarrow> \<lparr>lr_status = 500, lr_retryAfter = None\<rparr>)"

text \<open>\<open>Number(null)\<close> is 0.\<close>

definition retry_after_number :: "limit_reply \<Rightarrow> int" where
  "retry_after_number reply = (case lr_retryAfter reply of None \<Rightarrow> 0 | Some sec \<Rightarrow> sec)"

definition demo_ratelimit ::
  "int \<Rightarrow> (int \<times> string) list \<Rightarrow> int list \<Rightarrow> int list \<Rightarrow> redis \<Rightarrow> ((error + unit) \<times> string list) \<times> redis"
where
  "demo_ratelimit startMs calls memoryStarts memoryCalls r =
     (let prefix = ''rl-demo-'' @ show_int startMs;
          limiters = replicate INSTANCES (new_limiter LIMIT WINDOW_MS (Some prefix) None);
          (answers, r1) = burst_shared limiters 0 calls r;
          replies = map limit_reply_of answers;
          allowed = length (filter (\<lambda>q. lr_status q = 200) replies);
          blockedReplies = filter (\<lambda>q. lr_status q \<noteq> 200) replies;
          lastBlocked = (if blockedReplies = [] then None else Some (List.last blockedReplies));
          everyHasRetryAfter = (blockedReplies \<noteq> [] \<and> list_all (\<lambda>q. 1 \<le> retry_after_number q) blockedReplies);
          memoryPods = map (\<lambda>t. \<lparr>ml_limit = LIMIT, ml_windowMs = WINDOW_MS, ml_count = 0, ml_windowStart = t\<rparr>) memoryStarts;
          (memoryAnswers, _) = burst_memory memoryPods 0 memoryCalls;
          memoryAllowed = length (filter (\<lambda>q. lr_status q = 200) (map limit_reply_of memoryAnswers));
          failures = expectAtLeast [] ''instances'' (int INSTANCES) 2;
          failures = expectEq failures ''allowed'' (int allowed) LIMIT;
          failures = expectAtLeast failures ''blocked'' (int (length blockedReplies)) 1;
          failures = expectEq failures ''status'' (case lastBlocked of None \<Rightarrow> 0 | Some q \<Rightarrow> lr_status q) 429;
          failures = expectEq failures ''retry-after'' everyHasRetryAfter True;
          failures = expectAtLeast failures ''memory-allowed'' (int memoryAllowed) (LIMIT + 1);
          r2 = snd (redis_del (prefix @ '':'' @ CLIENT_ID) r1)
      in ((Inr (), failures), r2))"

subsection \<open>What it counts\<close>

lemma reply_200: "lr_status (limit_reply_of a) = 200 \<longleftrightarrow> a = Inr Next"
  by (simp add: limit_reply_of_def split: sum.split middleware_answer.split)

lemma count_allowed:
  "length (filter (\<lambda>q. lr_status q = 200) (map limit_reply_of as)) = length (filter id (map (\<lambda>a. a = Inr Next) as))"
  by (simp add: filter_map comp_def reply_200)

lemma blocked_reply:
  assumes "\<forall>a \<in> set as. a = Inr Next \<or> (\<exists>k. a = Inr (middleware_answer.TooMany k) \<and> 1 \<le> k)" "q \<in> set (filter (\<lambda>q. lr_status q \<noteq> 200) (map limit_reply_of as))"
  shows "lr_status q = 429 \<and> 1 \<le> retry_after_number q"
  using assms by (auto simp: reply_200 limit_reply_of_def retry_after_number_def)

lemma count_blocked:
  "length (filter (\<lambda>q. lr_status q = 200) qs) + length (filter (\<lambda>q. lr_status q \<noteq> 200) qs) = length qs"
  by (rule sum_length_filter_compl)

lemma demo_counts:
  "length (filter id (map (\<lambda>j. j < nat LIMIT) [0..<TOTAL_REQUESTS])) = 5"
  "length (filter id (map (\<lambda>j. int (j div INSTANCES) < LIMIT) [0..<TOTAL_REQUESTS])) = 15"
  by code_simp+

text \<open>The demonstration of the rate limit passes its own checks. On every Redis that answers and has no window
  under its prefix, if its burst falls into one window: 5 of the 15 requests pass, the other 10 are answered 429 and
  told to wait a second or more, while counters in the memory of the three instances let all 15 pass.\<close>

theorem ratelimit_demo_holds:
  assumes "r_up r" and "r_data r ((''rl-demo-'' @ show_int startMs) @ '':'' @ CLIENT_ID) = None"
    and "length calls = TOTAL_REQUESTS" and "sorted (r_us r # map fst calls)" and "distinct (map snd calls)"
    and "\<forall>c \<in> set calls. t0 \<le> fst c div 1000 \<and> fst c div 1000 < t0 + WINDOW_MS"
    and "memoryStarts = replicate INSTANCES t1" and "length memoryCalls = TOTAL_REQUESTS"
    and "\<forall>now \<in> set memoryCalls. t1 \<le> now \<and> now < t1 + WINDOW_MS"
  shows "fst (demo_ratelimit startMs calls memoryStarts memoryCalls r) = (Inr (), [])"
proof -
  let ?pods = "replicate INSTANCES (new_limiter LIMIT WINDOW_MS (Some (''rl-demo-'' @ show_int startMs)) None)"
  have pos: "0 < LIMIT" "0 < WINDOW_MS" "0 < INSTANCES" by (simp_all add: LIMIT_def WINDOW_MS_def INSTANCES_def)
  obtain as r1 where shared: "burst_shared ?pods 0 calls r = (as, r1)" by fastforce
  obtain ms pods where own: "burst_memory (replicate INSTANCES
      \<lparr>ml_limit = LIMIT, ml_windowMs = WINDOW_MS, ml_count = 0, ml_windowStart = t1\<rparr>) 0 memoryCalls = (ms, pods)" by fastforce
  have s: "map (\<lambda>a. a = Inr Next) as = map (\<lambda>j. j < nat LIMIT) [0..<TOTAL_REQUESTS]"
    "\<forall>a \<in> set as. a = Inr Next \<or> (\<exists>k. a = Inr (middleware_answer.TooMany k) \<and> 1 \<le> k)"
    using shared_burst [OF assms(1,2) pos assms(4-6) shared] unfolding assms(3) by blast+
  have m: "map (\<lambda>a. a = Inr Next) ms = map (\<lambda>j. int (j div INSTANCES) < LIMIT) [0..<TOTAL_REQUESTS]"
    using memory_burst [OF pos(1,3) assms(9)] unfolding own assms(8) by simp
  define blocked where "blocked = filter (\<lambda>q. lr_status q \<noteq> 200) (map limit_reply_of as)"
  have allowed: "length (filter (\<lambda>q. lr_status q = 200) (map limit_reply_of as)) = 5"
    "length (filter (\<lambda>q. lr_status q = 200) (map limit_reply_of ms)) = 15"
    unfolding count_allowed s m by (rule demo_counts)+
  have "length as = 15" using arg_cong [OF s(1), of length] by (simp add: TOTAL_REQUESTS_def)
  then have ten: "length blocked = 10" using count_blocked [of "map limit_reply_of as"] allowed(1) by (simp add: blocked_def)
  then have some: "blocked \<noteq> []" by auto
  have each: "\<forall>q \<in> set blocked. lr_status q = 429 \<and> 1 \<le> retry_after_number q"
    unfolding blocked_def using blocked_reply [OF s(2)] by blast
  then have "lr_status (List.last blocked) = 429" "list_all (\<lambda>q. 1 \<le> retry_after_number q) blocked"
    using some last_in_set by (auto simp: list_all_iff)
  then show ?thesis
    using shared own allowed ten some
    by (simp add: demo_ratelimit_def Let_def assms(7) map_replicate blocked_def [symmetric] del: length_filter_map)
      (simp add: INSTANCES_def LIMIT_def)
qed

theorem ratelimit_demo_holds_witness:
  "fst (demo_ratelimit 1700000000000 (map (\<lambda>j. (int j * 1000, show_nat j)) [0..<TOTAL_REQUESTS]) [7, 7, 7]
     (replicate TOTAL_REQUESTS 9) \<lparr>r_us = 0, r_up = True, r_data = (\<lambda>_. None)\<rparr>) = (Inr (), [])"
  by (rule ratelimit_demo_holds [where ?t0.0 = 0 and ?t1.0 = 7])
    (auto simp: sorted_iff_nth_mono comp_def distinct_map inj_on_def show_nat_inj TOTAL_REQUESTS_def WINDOW_MS_def
      INSTANCES_def numeral_3_eq_3 simp del: upt_rec_numeral)

end
