(* ===== verification/OutboxDemos.thy ===== *)
theory OutboxDemos
  imports DemoKit
begin

text \<open>
  The demonstrations of the outbox: \<open>src/outbox/demo-kit.ts\<close>, \<open>src/outbox/crash-relay.ts\<close>,
  \<open>src/demo-outbox.ts\<close>, \<open>src/demo-crash-write.ts\<close> and \<open>src/demo-crash-relay.ts\<close>. Each script is a function
  from the tables and the broker to the list of the expectations that failed; the theory proves that none fails.

  The broker is the sink of the courier, with \<open>queued\<close> what is in the order queue and \<open>deliver\<close> what it hands
  to a consumer that subscribes. The identifier of an outbox row, the time of the event and the hash function
  are arguments.
\<close>

subsection \<open>The kit\<close>

definition OUTBOX_DEMO_EMAIL :: string where "OUTBOX_DEMO_EMAIL = ''outbox-demo@example.com''"
definition OUTBOX_DEMO_PRODUCT :: string where "OUTBOX_DEMO_PRODUCT = ''OUTBOX_DEMO_PRODUCT''"
definition OUTBOX_DEMO_KEY_PREFIX :: string where "OUTBOX_DEMO_KEY_PREFIX = ''demo-outbox-''"

definition demoDto :: "int \<Rightarrow> create_order_dto" where
  "demoDto productId = \<lparr>co_customerEmail = OUTBOX_DEMO_EMAIL, co_items = [(show_int productId, 1)]\<rparr>"

definition demo_body :: "int \<Rightarrow> json" where
  "demo_body productId =
     JObject [(''customerEmail'', JString OUTBOX_DEMO_EMAIL),
              (''items'', JArray [JObject [(''productId'', JString (show_int productId)), (''quantity'', JNumber (Num 1))]])]"

definition is_demo_order :: "order_row \<Rightarrow> bool" where
  "is_demo_order r \<longleftrightarrow> o_customerEmail r = OUTBOX_DEMO_EMAIL"

definition demo_ids :: "db \<Rightarrow> int set" where
  "demo_ids s = o_id ` set (filter is_demo_order (orders s))"

definition upsert_demo_product :: "int db_action" where
  "upsert_demo_product =
     and_then (nextval seq_products (\<lambda>n s. s\<lparr>seq_products := n\<rparr>)) (\<lambda>i.
     and_then (gets (\<lambda>s. find (\<lambda>p. p_name p = OUTBOX_DEMO_PRODUCT) (products s))) (\<lambda>found.
       case found of
         Some p \<Rightarrow>
           and_then (modify (\<lambda>s. s\<lparr>products := map (\<lambda>q. if p_name q = OUTBOX_DEMO_PRODUCT then q\<lparr>p_stock := 1000\<rparr> else q)
                                                 (products s)\<rparr>)) (\<lambda>_. ret (p_id p))
       | None \<Rightarrow>
           and_then (modify (\<lambda>s. s\<lparr>products := products s @
               [\<lparr>p_id = i, p_name = OUTBOX_DEMO_PRODUCT, p_priceCents = 10000, p_stock = 1000, p_currency = ''UAH'',
                 p_createdAt = clock s\<rparr>]\<rparr>)) (\<lambda>_. ret i)))"

text \<open>The answer is the product and the time of the start.\<close>

definition prepareOutboxDemo :: "(int \<times> int) db_action" where
  "prepareOutboxDemo =
     and_then (modify (\<lambda>s. s\<lparr>outbox := filter (\<lambda>r. \<not> (ob_aggregate_type r = AGGREGATE_ORDER
         \<and> ob_aggregate_id r \<in> show_int ` demo_ids s)) (outbox s)\<rparr>)) (\<lambda>_.
     and_then (modify (\<lambda>s. s\<lparr>processed_messages :=
         filter (\<lambda>m. fst m \<notin> orderPlacedEventId ` demo_ids s) (processed_messages s)\<rparr>)) (\<lambda>_.
     and_then (modify (\<lambda>s. s\<lparr>processed_order_events :=
         filter (\<lambda>e. snd e \<notin> demo_ids s) (processed_order_events s)\<rparr>)) (\<lambda>_.
     and_then (modify (\<lambda>s. s\<lparr>idempotency_keys :=
         filter (\<lambda>k. take (length OUTBOX_DEMO_KEY_PREFIX) (ik_key k) \<noteq> OUTBOX_DEMO_KEY_PREFIX) (idempotency_keys s)\<rparr>)) (\<lambda>_.
     and_then (modify (\<lambda>s. s\<lparr>order_items := filter (\<lambda>i. i_orderId i \<notin> demo_ids s) (order_items s)\<rparr>)) (\<lambda>_.
     and_then (modify (delete_orders is_demo_order)) (\<lambda>_.
     and_then upsert_demo_product (\<lambda>productId.
     and_then (gets clock) (\<lambda>t. ret (productId, t)))))))))"

record demo_snapshot =
  sn_orders :: nat
  sn_outbox :: nat
  sn_published :: nat
  sn_effect :: nat
  sn_processed :: nat

text \<open>\<open>base\<close> are the tables as they were at the time \<open>t0\<close>.\<close>

definition snapshot :: "db \<Rightarrow> int \<Rightarrow> db \<Rightarrow> demo_snapshot" where
  "snapshot base t0 s =
     \<lparr>sn_orders = length (filter is_demo_order (orders s)),
      sn_outbox = length (filter (\<lambda>r. t0 \<le> ob_created_at r) (outbox s)),
      sn_published = length (filter (\<lambda>r. t0 \<le> ob_created_at r \<and> ob_published_at r \<noteq> None) (outbox s)),
      sn_effect = length (filter (\<lambda>e. e \<notin> set (processed_order_events base)) (processed_order_events s)),
      sn_processed = length (filter (\<lambda>m. m \<notin> set (processed_messages base)) (processed_messages s))\<rparr>"

record consumer_probe =
  pr_deliveries :: nat
  pr_applied :: nat
  pr_skipped :: nat
  pr_settled :: nat

text \<open>The consumer of the application with counters, for the deliveries it gets until it is stopped.\<close>

fun startProbeConsumer :: "delivery list \<Rightarrow> db \<Rightarrow> consumer_probe \<times> db" where
  "startProbeConsumer [] s = (\<lparr>pr_deliveries = 0, pr_applied = 0, pr_skipped = 0, pr_settled = 0\<rparr>, s)"
| "startProbeConsumer (msg # msgs) s =
     (let ((outc, cmds), s1) = handleMessage plain_hooks True Commits msg s;
          (probe, s2) = startProbeConsumer msgs s1
      in (\<lparr>pr_deliveries = pr_deliveries probe + 1,
           pr_applied = pr_applied probe + (if outc = Acked then 1 else 0),
           pr_skipped = pr_skipped probe + (if outc = Skipped then 1 else 0),
           pr_settled = pr_settled probe + 1\<rparr>, s2))"

text \<open>
  \<open>createIdempotent\<close> of the application's service, constructed without the cards, and with a given transaction:
  \<open>installCommitFailure\<close> creates a deferred trigger on the outbox that makes \<open>COMMIT\<close> fail.
\<close>

definition demo_transaction :: "bool \<Rightarrow> 'a db_action \<Rightarrow> 'a db_action" where
  "demo_transaction trigger m = (\<lambda>s.
     case transaction m s of
       (Inr a, s') \<Rightarrow>
         if trigger \<and> length (outbox s) < length (outbox s') then (Inl (QueryFailedError ''P0001''), rolled_back s s')
         else (Inr a, s')
     | (Inl e, s') \<Rightarrow> (Inl e, s'))"

definition place_demo_order ::
  "bool \<Rightarrow> (string \<Rightarrow> string) \<Rightarrow> string \<Rightarrow> int \<Rightarrow> int \<Rightarrow> string \<Rightarrow> (order_response \<times> bool) db_action" where
  "place_demo_order trigger sha uuid now productId clientKey =
     (let idempotencyKey = namespaced_key None clientKey;
          requestHash = sha (json_text (demo_body productId))
      in
      and_then (demo_transaction trigger
                  (claim_or_create uuid now (demoDto productId) idempotencyKey requestHash None)) (\<lambda>outcome.
        case outcome of
          Created saved \<Rightarrow> and_then (order_toResponse saved) (\<lambda>order. ret (order, False))
        | Replay None \<Rightarrow> throw (TypeError ''undefined'')
        | Replay (Some existing) \<Rightarrow>
            if ik_request_hash existing \<noteq> requestHash
            then throw (UnprocessableEntityException ''Idempotency-Key already used with a different request body'')
            else and_then (orders_findOne (case ik_order_id existing of None \<Rightarrow> ''null'' | Some i \<Rightarrow> show_int i))
                   (\<lambda>order. ret (order, True))))"

subsection \<open>What the preparation leaves\<close>

definition reset_orders :: "db \<Rightarrow> db" where
  "reset_orders s =
     delete_orders is_demo_order
       (s\<lparr>outbox := filter (\<lambda>r. \<not> (ob_aggregate_type r = AGGREGATE_ORDER \<and> ob_aggregate_id r \<in> show_int ` demo_ids s)) (outbox s),
          processed_messages := filter (\<lambda>m. fst m \<notin> orderPlacedEventId ` demo_ids s) (processed_messages s),
          processed_order_events := filter (\<lambda>e. snd e \<notin> demo_ids s) (processed_order_events s),
          idempotency_keys :=
            filter (\<lambda>k. take (length OUTBOX_DEMO_KEY_PREFIX) (ik_key k) \<noteq> OUTBOX_DEMO_KEY_PREFIX) (idempotency_keys s)\<rparr>)"

lemma prepare_run:
  "prepareOutboxDemo s = and_then upsert_demo_product (\<lambda>productId. and_then (gets clock) (\<lambda>t. ret (productId, t))) (reset_orders s)"
  by (simp add: prepareOutboxDemo_def and_then_def reset_orders_def demo_ids_def delete_orders_def Let_def)

subsection \<open>Placing the order\<close>

lemma demo_transaction_off [simp]: "demo_transaction False m = transaction m"
  by (auto simp: demo_transaction_def fun_eq_iff split: prod.split sum.split)

text \<open>Without the trigger it is the service's \<open>createIdempotent\<close>, whatever cards there are.\<close>

lemma place_is_createIdempotent:
  assumes "db_wf (sh_db w)" "namespaced_key None key \<notin> ik_key ` set (idempotency_keys (sh_db w))"
    and "createIdempotent sha uuid now (demo_body pid) (demoDto pid) key None w = (Inr (x, r), w')"
  shows "place_demo_order False sha uuid now pid key (sh_db w) = (Inr (x, r), sh_db w')"
proof -
  obtain e d where run: "claim_or_create uuid now (demoDto pid) (namespaced_key None key)
      (sha (json_text (demo_body pid))) None (sh_db w) = (Inr (Created e), d)" "sh_db w' = d" "x = order_view e" "\<not> r"
    using createIdempotent_unknown [OF assms(2,3,1)] by blast
  then show ?thesis
    using order_toResponse_run [OF created_db(4) [OF run(1) assms(1)]]
    by (simp add: place_demo_order_def Let_def)
qed

lemma insert_demo_order:
  assumes "can_place s pid uuid"
  shows "\<exists>e s'. insertOrderWithEvent uuid now (demoDto pid) None s = (Inr e, s')"
  using insert_single_order [OF assms, of None now OUTBOX_DEMO_EMAIL] by (simp add: demoDto_def single_def)

lemma place_run:
  assumes "can_place s pid uuid" "key \<notin> ik_key ` set (idempotency_keys s)"
  obtains e s' where "place_demo_order False sha uuid now pid key s = (Inr (order_view e, False), s')"
    "claim_or_create uuid now (demoDto pid) key (sha (json_text (demo_body pid))) None s = (Inr (Created e), s')"
proof -
  let ?k = "\<lparr>ik_key = key, ik_request_hash = sha (json_text (demo_body pid)), ik_order_id = None\<rparr>"
  have wf: "db_wf s" using assms(1) by (simp add: can_place_def)
  have "db_wf (s\<lparr>idempotency_keys := idempotency_keys s @ [?k]\<rparr>)" using wf assms(2) by (auto simp: db_wf_defs)
  then have "can_place (s\<lparr>idempotency_keys := idempotency_keys s @ [?k]\<rparr>) pid uuid"
    using assms(1) by (simp add: can_place_def)
  from insert_demo_order [OF this] obtain e t where
    "insertOrderWithEvent uuid now (demoDto pid) None (s\<lparr>idempotency_keys := idempotency_keys s @ [?k]\<rparr>) = (Inr e, t)" by blast
  then obtain s' where run: "claim_or_create uuid now (demoDto pid) key (sha (json_text (demo_body pid))) None s
      = (Inr (Created e), s')"
    using assms(2) by (simp add: claim_or_create_def claim_key_def and_then_def set_key_order_def)
  then have "place_demo_order False sha uuid now pid key s = (Inr (order_view e, False), s')"
    using order_toResponse_run [OF created_db(4) [OF run wf]]
    by (simp add: place_demo_order_def namespaced_key_def Let_def)
  then show ?thesis using run that by blast
qed

text \<open>What the tables have after it: one order of the demonstration and one row for the courier.\<close>

definition order_placed :: "db \<Rightarrow> string \<Rightarrow> int \<Rightarrow> order_placed_event \<Rightarrow> db \<Rightarrow> bool" where
  "order_placed s uuid now ev s' \<longleftrightarrow>
     (\<exists>r ob d. orders s' = orders s @ [r] \<and> is_demo_order r \<and> o_id r = seq_orders s
        \<and> outbox s' = outbox s @ [ob] \<and> ob_id ob = uuid \<and> ob_created_at ob = clock s \<and> ob_published_at ob = None
        \<and> ob_payload ob = ev \<and> ev = buildOrderPlacedEvent d now \<and> ev_orderId d = seq_orders s
        \<and> processed_messages s' = processed_messages s \<and> processed_order_events s' = processed_order_events s
        \<and> clock s' = clock s \<and> int4 (seq_orders s) \<and> uuid \<notin> ob_id ` set (outbox s))"

lemma claimed_placed:
  assumes "claim_or_create uuid now (demoDto pid) key h None s = (Inr (Created e), s')" "can_place s pid uuid"
  obtains ev where "order_placed s uuid now ev s'"
proof -
  obtain t where p: "placed uuid now (demoDto pid) None s e t"
    and t: "s' = t\<lparr>idempotency_keys := idempotency_keys s @
             [\<lparr>ik_key = key, ik_request_hash = h, ik_order_id = Some (o_id (oe_row e))\<rparr>]\<rparr>"
    using claim_or_create_created [OF assms(1)] by blast
  note tabs = placed_tables [OF p]
  have more: "processed_messages t = processed_messages s" "processed_order_events t = processed_order_events s"
    "clock t = clock s" "o_customerEmail (oe_row e) = OUTBOX_DEMO_EMAIL"
    using p by (auto simp: placed_def Let_def demoDto_def)
  have "int4 (seq_orders s)" using assms(2) by (auto simp: can_place_def db_wf_defs serial_def int4_def)
  then have "order_placed s uuid now (ob_payload (outbox_row_of uuid now (clock s) (oe_row e) (map fst (oe_items e)))) s'"
    unfolding order_placed_def
    using tabs more assms(2) t
    by (intro exI [of _ "oe_row e"] exI [of _ "outbox_row_of uuid now (clock s) (oe_row e) (map fst (oe_items e))"]
        exI [of _ "event_of (oe_row e) (map fst (oe_items e))"])
      (simp add: outbox_row_of_def event_of_def is_demo_order_def can_place_def)
  then show ?thesis by (rule that)
qed

subsection \<open>Carrying it\<close>

text \<open>The clock of a courier's state, and a sleep during which nothing else happens.\<close>

definition demo_now :: "'b relay_world \<Rightarrow> int" where
  "demo_now w = clock (rw_db w)"

definition demo_sleep :: "int \<Rightarrow> 'b relay_world \<Rightarrow> 'b relay_world" where
  "demo_sleep ms w = w\<lparr>rw_db := (rw_db w)\<lparr>clock := clock (rw_db w) + ms\<rparr>\<rparr>"

lemma sleeps_demo: "sleeps demo_now demo_sleep"
  by (simp add: sleeps_def demo_now_def demo_sleep_def)

lemma passes_take_time_demo: "passes_take_time sink demo_now"
  unfolding passes_take_time_def demo_now_def
  using relayOnce_frame by (metis (no_types, lifting) db.select_convs(1) db.surjective db.update_convs(7) order_refl prod.collapse)

text \<open>A pass over an outbox in which one row waits.\<close>

definition one_waits :: "int \<Rightarrow> outbox_row \<Rightarrow> db \<Rightarrow> bool" where
  "one_waits t0 ob s \<longleftrightarrow> filter (pending (Some t0)) (outbox s) = [ob] \<and> distinct (map ob_id (outbox s))"

definition marked_sent :: "int \<Rightarrow> outbox_row \<Rightarrow> outbox_row \<Rightarrow> outbox_row" where
  "marked_sent now ob r = (if ob_id r = ob_id ob then r\<lparr>ob_published_at := Some now, ob_attempts := ob_attempts r + 1\<rparr> else r)"

abbreviation since_options :: "int \<Rightarrow> relay_options" where
  "since_options t0 \<equiv> \<lparr>batchSize = None, lockMode = None, notBefore = Some t0\<rparr>"

lemma one_batch:
  assumes "one_waits t0 ob s"
  shows "take_batch SkipLocked L 100 (Some t0) (outbox s) = (if ob_id ob \<in> L then [] else [ob])"
proof -
  have "filter (\<lambda>r. ob_id r \<notin> L) (filter (pending (Some t0)) (outbox s)) = (if ob_id ob \<in> L then [] else [ob])"
    using assms by (simp add: one_waits_def del: filter_filter)
  then have "filter (\<lambda>r. pending (Some t0) r \<and> ob_id r \<notin> L) (outbox s) = (if ob_id ob \<in> L then [] else [ob])" by simp
  then show ?thesis by (simp add: take_batch_def by_age_def)
qed

lemma pass_locked:
  assumes "one_waits t0 ob (rw_db w)" "ob_id ob \<in> L"
  shows "relayOnce sink (since_options t0) L True w = (Inr \<lparr>published = 0, failed = 0\<rparr>, w)"
  using one_batch [OF assms(1), of L] assms(2)
  by (simp add: relayOnce_def Let_def mark_failed_def mark_sent_def)

lemma pass_free:
  assumes "one_waits t0 ob (rw_db w)" "ob_id ob \<notin> L" "reliable sink queued"
  obtains b where "queued b = queued (rw_broker w) @ [ob_payload ob]"
    "relayOnce sink (since_options t0) L True w = (Inr \<lparr>published = 1, failed = 0\<rparr>,
       \<lparr>rw_db = (rw_db w)\<lparr>outbox := map (marked_sent (demo_now w) ob) (outbox (rw_db w))\<rparr>, rw_broker = b\<rparr>)"
    "relayOnce sink (since_options t0) L False w = (Inl (PlainError ''afterPublish''), w\<lparr>rw_broker := b\<rparr>)"
proof -
  obtain b where b: "sink (ob_payload ob) (ob_type ob) (rw_broker w) = (Inr (), b)" "queued b = queued (rw_broker w) @ [ob_payload ob]"
    using assms(3) unfolding reliable_def by (metis prod.collapse)
  have "mark_failed None (mark_sent now [ob_id ob] r) = marked_sent now ob r" for now r
    by (simp add: mark_failed_def mark_sent_def marked_sent_def)
  then show ?thesis
    using b one_batch [OF assms(1), of L] assms(2)
    by (intro that [of b]) (simp_all add: relayOnce_def Let_def demo_now_def)
qed

text \<open>The locks of a killed courier: the rows \<open>L\<close> until the time \<open>free\<close>.\<close>

definition locked_until :: "int \<Rightarrow> string set \<Rightarrow> 'b relay_world \<Rightarrow> string set" where
  "locked_until free L w = (if demo_now w < free then L else {})"

definition carried_at :: "int \<Rightarrow> outbox_row \<Rightarrow> db \<Rightarrow> db" where
  "carried_at t ob s = s\<lparr>clock := t, outbox := map (marked_sent t ob) (outbox s)\<rparr>"

lemma rounds_free:
  assumes "reliable sink queued" "one_waits t0 ob (rw_db w)" "demo_now w < deadline" "ob_id ob \<notin> held w"
  shows "\<exists>b. relay_rounds sink t0 1 demo_now demo_sleep held deadline 0 w
      = Some (Inr 1, \<lparr>rw_db = carried_at (demo_now w) ob (rw_db w), rw_broker = b\<rparr>)
    \<and> queued b = queued (rw_broker w) @ [ob_payload ob]"
proof -
  obtain b where b: "queued b = queued (rw_broker w) @ [ob_payload ob]"
    "relayOnce sink (since_options t0) (held w) True w = (Inr \<lparr>published = 1, failed = 0\<rparr>,
       \<lparr>rw_db = (rw_db w)\<lparr>outbox := map (marked_sent (demo_now w) ob) (outbox (rw_db w))\<rparr>, rw_broker = b\<rparr>)"
    using pass_free [OF assms(2,4,1)] by metis
  have "(rw_db w)\<lparr>outbox := map (marked_sent (demo_now w) ob) (outbox (rw_db w))\<rparr> = carried_at (demo_now w) ob (rw_db w)"
    by (simp add: carried_at_def demo_now_def)
  then show ?thesis
    using b assms(3) relay_rounds.simps [of sink t0 1 demo_now demo_sleep held deadline 0 w]
      relay_rounds.simps [of sink t0 1 demo_now demo_sleep held deadline 1]
    by (intro exI [of _ b]) simp
qed

lemma rounds_carry:
  assumes "reliable sink queued" "one_waits t0 ob (rw_db w)" "demo_now w + 100 * int n < deadline" "free \<le> demo_now w + 100 * int n"
  shows "\<exists>t b. relay_rounds sink t0 1 demo_now demo_sleep (locked_until free L) deadline 0 w
      = Some (Inr 1, \<lparr>rw_db = carried_at t ob (rw_db w), rw_broker = b\<rparr>)
    \<and> queued b = queued (rw_broker w) @ [ob_payload ob] \<and> demo_now w \<le> t"
  using assms(2-4)
proof (induction n arbitrary: w)
  case 0
  then have "ob_id ob \<notin> locked_until free L w" "demo_now w < deadline" by (simp_all add: locked_until_def)
  then show ?case using rounds_free [OF assms(1) "0.prems"(1)] by blast
next
  case (Suc n)
  show ?case
  proof (cases "ob_id ob \<in> locked_until free L w")
    case True
    have w': "one_waits t0 ob (rw_db (demo_sleep 100 w))" "demo_now (demo_sleep 100 w) = demo_now w + 100"
      "rw_broker (demo_sleep 100 w) = rw_broker w" "carried_at t ob (rw_db (demo_sleep 100 w)) = carried_at t ob (rw_db w)" for t
      using Suc.prems(1) by (simp_all add: one_waits_def demo_sleep_def demo_now_def carried_at_def)
    have "relay_rounds sink t0 1 demo_now demo_sleep (locked_until free L) deadline 0 w
        = relay_rounds sink t0 1 demo_now demo_sleep (locked_until free L) deadline 0 (demo_sleep 100 w)"
      using relay_rounds.simps [of sink t0 1 demo_now demo_sleep "locked_until free L" deadline 0 w]
        Suc.prems(2) pass_locked [OF Suc.prems(1) True, of sink] by simp
    moreover obtain t b where
      "relay_rounds sink t0 1 demo_now demo_sleep (locked_until free L) deadline 0 (demo_sleep 100 w)
        = Some (Inr 1, \<lparr>rw_db = carried_at t ob (rw_db (demo_sleep 100 w)), rw_broker = b\<rparr>)"
      "queued b = queued (rw_broker (demo_sleep 100 w)) @ [ob_payload ob]" "demo_now (demo_sleep 100 w) \<le> t"
      using Suc.IH [of "demo_sleep 100 w"] Suc.prems(2,3) w' by auto
    ultimately show ?thesis unfolding w' by (intro exI [of _ t] exI [of _ b]) simp
  next
    case False
    moreover have "demo_now w < deadline" using Suc.prems(2) by simp
    ultimately show ?thesis using rounds_free [OF assms(1) Suc.prems(1)] by blast
  qed
qed

subsection \<open>What the preparation leaves, and what it does not touch\<close>

definition prepared :: "db \<Rightarrow> int \<Rightarrow> db \<Rightarrow> bool" where
  "prepared s pid s1 \<longleftrightarrow>
     books s1 \<and> effects_ok s1 \<and> clock s1 = clock s \<and> users s1 = users s
   \<and> orders s1 = filter (\<lambda>r. \<not> is_demo_order r) (orders s)
   \<and> (\<forall>r \<in> set (orders s1). items_of s1 r = items_of s r)
   \<and> (\<forall>k \<in> set (idempotency_keys s1). take (length OUTBOX_DEMO_KEY_PREFIX) (ik_key k) \<noteq> OUTBOX_DEMO_KEY_PREFIX)
   \<and> (\<exists>p \<in> set (products s1). p_id p = pid \<and> p_name p = OUTBOX_DEMO_PRODUCT \<and> p_stock p = 1000)
   \<and> filter (\<lambda>p. p_name p \<noteq> OUTBOX_DEMO_PRODUCT) (products s1) = filter (\<lambda>p. p_name p \<noteq> OUTBOX_DEMO_PRODUCT) (products s)
   \<and> outbox s1 = filter (\<lambda>r. \<not> (ob_aggregate_type r = AGGREGATE_ORDER \<and> ob_aggregate_id r \<in> show_int ` demo_ids s)) (outbox s)
   \<and> processed_order_events s1 = filter (\<lambda>e. snd e \<notin> demo_ids s) (processed_order_events s)
   \<and> seq_orders s1 = seq_orders s \<and> seq_items s1 = seq_items s"

text \<open>The journals lose the rows of the orders that go, and still agree with the orders.\<close>

lemma effects_ok_without:
  assumes "effects_ok s" "db_wf s" "orders s' = filter (\<lambda>r. \<not> is_demo_order r) (orders s)"
    and "processed_messages s' = filter (\<lambda>m. fst m \<notin> orderPlacedEventId ` demo_ids s) (processed_messages s)"
    and "processed_order_events s' = filter (\<lambda>e. snd e \<notin> demo_ids s) (processed_order_events s)"
  shows "effects_ok s'"
proof -
  have j: "journal_ok s" and e: "\<And>i n. (i, n) \<in> set (processed_order_events s) \<Longrightarrow> i = orderPlacedEventId n \<and> n \<in> o_id ` set (orders s)"
    using assms(1) by (auto simp: effects_ok_def)
  have kept: "o_id ` set (orders s') = o_id ` set (orders s) - demo_ids s"
    using kept_ids [OF assms(2), of is_demo_order] by (simp only: assms(3) demo_ids_def)
  have "(i, n) \<in> set (processed_order_events s') \<Longrightarrow> i = orderPlacedEventId n \<and> n \<in> o_id ` set (orders s')" for i n
    unfolding kept using e [of i n] by (simp add: assms(5))
  moreover have "i \<in> fst ` set (processed_order_events s')" if i: "(i, CONSUMER_ORDER_PLACED) \<in> set (processed_messages s')" for i
  proof -
    have "i \<in> fst ` set (processed_order_events s)" "i \<notin> orderPlacedEventId ` demo_ids s"
      using i j by (auto simp: assms(4) journal_ok_def)
    then obtain n where n: "(i, n) \<in> set (processed_order_events s)" by force
    then have "n \<notin> demo_ids s" using e [OF n] \<open>i \<notin> orderPlacedEventId ` demo_ids s\<close> by blast
    then show ?thesis using n by (force simp: assms(5))
  qed
  moreover have "distinct (map fst (processed_order_events s'))" "distinct (processed_messages s')"
    using j by (simp_all add: assms(4,5) journal_ok_def distinct_map_filter)
  ultimately show ?thesis by (auto simp: effects_ok_def journal_ok_def)
qed

lemma effects_ok_tables:
  "effects_ok s \<Longrightarrow> orders s' = orders s \<Longrightarrow> processed_messages s' = processed_messages s \<Longrightarrow>
   processed_order_events s' = processed_order_events s \<Longrightarrow> effects_ok s'"
  by (simp add: effects_ok_def journal_ok_def)

lemma reset_orders_run:
  "orders (reset_orders s) = filter (\<lambda>r. \<not> is_demo_order r) (orders s)" "clock (reset_orders s) = clock s"
  "users (reset_orders s) = users s" "products (reset_orders s) = products s"
  "outbox (reset_orders s) = filter (\<lambda>r. \<not> (ob_aggregate_type r = AGGREGATE_ORDER \<and> ob_aggregate_id r \<in> show_int ` demo_ids s)) (outbox s)"
  "processed_messages (reset_orders s) = filter (\<lambda>m. fst m \<notin> orderPlacedEventId ` demo_ids s) (processed_messages s)"
  "processed_order_events (reset_orders s) = filter (\<lambda>e. snd e \<notin> demo_ids s) (processed_order_events s)"
  "seq_products (reset_orders s) = seq_products s" "seq_orders (reset_orders s) = seq_orders s" "seq_items (reset_orders s) = seq_items s"
  by (simp_all add: reset_orders_def delete_orders_def Let_def)

lemma reset_orders_keys:
  "k \<in> set (idempotency_keys (reset_orders s)) \<Longrightarrow> take (length OUTBOX_DEMO_KEY_PREFIX) (ik_key k) \<noteq> OUTBOX_DEMO_KEY_PREFIX"
  by (simp add: reset_orders_def delete_orders_def Let_def)

lemma books_reset_orders:
  assumes "books s"
  shows "books (reset_orders s)"
    and "r \<in> set (orders (reset_orders s)) \<Longrightarrow> items_of (reset_orders s) r = items_of s r"
proof -
  let ?t = "s\<lparr>outbox := filter (\<lambda>r. \<not> (ob_aggregate_type r = AGGREGATE_ORDER \<and> ob_aggregate_id r \<in> show_int ` demo_ids s)) (outbox s),
          processed_messages := filter (\<lambda>m. fst m \<notin> orderPlacedEventId ` demo_ids s) (processed_messages s),
          processed_order_events := filter (\<lambda>e. snd e \<notin> demo_ids s) (processed_order_events s),
          idempotency_keys :=
            filter (\<lambda>k. take (length OUTBOX_DEMO_KEY_PREFIX) (ik_key k) \<noteq> OUTBOX_DEMO_KEY_PREFIX) (idempotency_keys s)\<rparr>"
  have "db_wf ?t" using booksD(1) [OF assms] by (simp add: db_wf_defs distinct_map_filter)
  then have t: "books ?t" "db_wf ?t" using books_same [OF assms, of ?t] by simp_all
  then show "books (reset_orders s)" unfolding reset_orders_def by (intro books_delete_orders)
  show "r \<in> set (orders (reset_orders s)) \<Longrightarrow> items_of (reset_orders s) r = items_of s r"
    using items_after_delete [OF t(2), of r is_demo_order] by (simp add: reset_orders_def)
qed

lemma books_products:
  assumes "books s" "db_wf (s\<lparr>products := ps, seq_products := n\<rparr>)" "\<forall>p \<in> set ps. product_typed p"
  shows "books (s\<lparr>products := ps, seq_products := n\<rparr>)"
  using assms by (simp add: books_def)

lemma db_wf_restock:
  assumes "db_wf s" "serial (map p_id ps) n" "distinct (map p_name ps)" "p_id ` set (products s) \<subseteq> p_id ` set ps"
  shows "db_wf (s\<lparr>products := ps, seq_products := n\<rparr>)"
  using assms by (auto simp: db_wf_defs)

lemma upsert_demo_product_ok:
  assumes "books s" "seq_products s \<le> 2147483647"
  obtains pid ps where "upsert_demo_product s = (Inr pid, s\<lparr>products := ps, seq_products := seq_products s + 1\<rparr>)"
    "books (s\<lparr>products := ps, seq_products := seq_products s + 1\<rparr>)"
    "\<exists>p \<in> set ps. p_id p = pid \<and> p_name p = OUTBOX_DEMO_PRODUCT \<and> p_stock p = 1000"
    "filter (\<lambda>p. p_name p \<noteq> OUTBOX_DEMO_PRODUCT) ps = filter (\<lambda>p. p_name p \<noteq> OUTBOX_DEMO_PRODUCT) (products s)"
proof -
  note wf = booksD(1) [OF assms(1)]
  have ser: "serial (map p_id (products s)) (seq_products s)" "distinct (map p_name (products s))"
    using wf by (simp_all add: db_wf_defs)
  show ?thesis
  proof (cases "find (\<lambda>p. p_name p = OUTBOX_DEMO_PRODUCT) (products s)")
    case None
    define row where "row = \<lparr>p_id = seq_products s, p_name = OUTBOX_DEMO_PRODUCT, p_priceCents = 10000, p_stock = 1000,
        p_currency = ''UAH'', p_createdAt = clock s\<rparr>"
    have "product_typed row" by (simp add: row_def product_typed_def OUTBOX_DEMO_PRODUCT_def char_count_def PRODUCT_CURRENCIES_def)
    moreover have "OUTBOX_DEMO_PRODUCT \<notin> p_name ` set (products s)" using None by (auto simp: find_None_iff)
    ultimately show ?thesis
      using serial_snoc [OF ser(1) assms(2)] ser(2) None assms
      by (intro that [of "seq_products s" "products s @ [row]"] books_products db_wf_restock wf)
        (auto simp: row_def upsert_demo_product_def nextval_def and_then_def dest: booksD(2))
  next
    case (Some p)
    define f where "f = (\<lambda>q :: product. if p_name q = OUTBOX_DEMO_PRODUCT then q\<lparr>p_stock := 1000\<rparr> else q)"
    have f: "p_id (f q) = p_id q" "p_name (f q) = p_name q" "p_name q \<noteq> OUTBOX_DEMO_PRODUCT \<Longrightarrow> f q = q"
      "product_typed q \<Longrightarrow> product_typed (f q)" for q by (auto simp: f_def product_typed_def)
    have p: "p \<in> set (products s)" "p_name p = OUTBOX_DEMO_PRODUCT" using find_Some_in [OF Some] by auto
    have "filter (\<lambda>p. p_name p \<noteq> OUTBOX_DEMO_PRODUCT) (map f ps) = filter (\<lambda>p. p_name p \<noteq> OUTBOX_DEMO_PRODUCT) ps" for ps
      by (induction ps) (auto simp: f)
    moreover have "f p \<in> f ` set (products s)" "p_stock (f p) = 1000" using p by (auto simp: f_def)
    ultimately show ?thesis
      using serial_grow [OF ser(1), of "seq_products s + 1"] ser(2) Some assms p booksD(2) [OF assms(1)]
      by (intro that [of "p_id p" "map f (products s)"] books_products db_wf_restock wf)
        (auto simp: f comp_def image_image upsert_demo_product_def nextval_def and_then_def f_def [symmetric]
          intro!: bexI [of _ p])
  qed
qed

lemma prepare_ok:
  assumes "books s" "effects_ok s" "seq_products s \<le> 2147483647"
  obtains pid s1 where "prepareOutboxDemo s = (Inr (pid, clock s), s1)" "prepared s pid s1"
proof -
  have b: "books (reset_orders s)" using books_reset_orders(1) [OF assms(1)] .
  have "seq_products (reset_orders s) \<le> 2147483647" using assms(3) by (simp add: reset_orders_run)
  from upsert_demo_product_ok [OF b this] obtain pid ps where
    up: "upsert_demo_product (reset_orders s) = (Inr pid, (reset_orders s)\<lparr>products := ps, seq_products := seq_products (reset_orders s) + 1\<rparr>)"
      "books ((reset_orders s)\<lparr>products := ps, seq_products := seq_products (reset_orders s) + 1\<rparr>)"
      "\<exists>p \<in> set ps. p_id p = pid \<and> p_name p = OUTBOX_DEMO_PRODUCT \<and> p_stock p = 1000"
      "filter (\<lambda>p. p_name p \<noteq> OUTBOX_DEMO_PRODUCT) ps = filter (\<lambda>p. p_name p \<noteq> OUTBOX_DEMO_PRODUCT) (products (reset_orders s))" .
  let ?s1 = "(reset_orders s)\<lparr>products := ps, seq_products := seq_products (reset_orders s) + 1\<rparr>"
  have "effects_ok (reset_orders s)"
    by (rule effects_ok_without [OF assms(2) booksD(1) [OF assms(1)]]) (simp_all add: reset_orders_run)
  then have "effects_ok ?s1" by (rule effects_ok_tables) simp_all
  then have "prepared s pid ?s1"
    using up(2-4) books_reset_orders(2) [OF assms(1)] reset_orders_keys
    by (simp add: prepared_def reset_orders_run)
  then show ?thesis
    using up(1) by (intro that [of pid ?s1]) (simp_all add: prepare_run and_then_def reset_orders_run)
qed

subsection \<open>The consumer of a demonstration\<close>

definition effect_added :: "order_placed_event \<Rightarrow> db \<Rightarrow> db" where
  "effect_added ev s = s\<lparr>processed_messages := processed_messages s @ [(eventId ev, CONSUMER_ORDER_PLACED)],
     processed_order_events := processed_order_events s @ [(eventId ev, ev_orderId (ev_data ev))]\<rparr>"

definition unknown_event :: "order_placed_event \<Rightarrow> db \<Rightarrow> bool" where
  "unknown_event ev s \<longleftrightarrow> \<not> marked s (eventId ev) \<and> eventId ev \<notin> fst ` set (processed_order_events s)"

lemma effect_added_marked [simp]: "marked (effect_added ev s) (eventId ev)"
  by (simp add: marked_def effect_added_def)

text \<open>An event whose order number fits the column is understood, and what applying it does.\<close>

lemma event_read:
  assumes "ev = buildOrderPlacedEvent d now" "int4 (ev_orderId d)" "dl_content m = event_content ev"
  obtains re where "parseOrderPlaced (dl_content m) = Some re" "re_eventId re = eventId ev"
    "unknown_event ev s \<Longrightarrow> applyOrderPlacedEffect Commits re s = (Inr True, effect_added ev s)"
    "marked s (eventId ev) \<Longrightarrow> applyOrderPlacedEffect Commits re s = (Inr False, s)"
proof -
  define re where "re = \<lparr>re_eventId = eventId ev, re_orderId = ev_orderId d, re_body = event_json ev\<rparr>"
  have id: "eventId ev = ''order-placed:'' @ show_int (ev_orderId d)" "ev_data ev = d"
    by (simp_all add: assms(1)) (simp add: buildOrderPlacedEvent_def orderPlacedEventId_def)
  have parse: "parseOrderPlaced (dl_content m) = Some re"
    using content_parses [OF assms(1)] assms(3) by (simp add: re_def id(1))
  have storable: "storable re" using storable_order [OF assms(2)] by (simp add: re_def id(1))
  have "unknown_event ev s \<Longrightarrow> applied_to re s = effect_added ev s"
    by (simp add: unknown_event_def applied_to_def effect_added_def re_def id(2))
  then show ?thesis
    using apply_run [of Commits re s] storable
    by (intro that [OF parse]) (simp_all add: prod_eq_iff storable_def re_def unknown_event_def)
qed

lemma handle_unknown:
  assumes "ev = buildOrderPlacedEvent d now" "int4 (ev_orderId d)" "dl_content m = event_content ev" "unknown_event ev s"
  shows "handleMessage plain_hooks True Commits m s = ((Acked, [Ack]), effect_added ev s)"
proof (rule event_read [OF assms(1-3), of s])
  fix re assume "parseOrderPlaced (dl_content m) = Some re"
    "unknown_event ev s \<Longrightarrow> applyOrderPlacedEffect Commits re s = (Inr True, effect_added ev s)"
  then show ?thesis using assms(4)
    by (simp add: handleMessage_def handle_body_def plain_hooks_def send_command_def)
qed

lemma handle_again:
  assumes "ev = buildOrderPlacedEvent d now" "int4 (ev_orderId d)" "dl_content m = event_content ev" "marked s (eventId ev)"
  shows "handleMessage plain_hooks True Commits m s = ((Skipped, [Ack]), s)"
proof (rule event_read [OF assms(1-3), of s])
  fix re assume "parseOrderPlaced (dl_content m) = Some re"
    "marked s (eventId ev) \<Longrightarrow> applyOrderPlacedEffect Commits re s = (Inr False, s)"
  then show ?thesis using assms(4)
    by (simp add: handleMessage_def handle_body_def plain_hooks_def send_command_def and_then_def)
qed

text \<open>Deliveries of one event that has not been applied: the first applies it, the others are skipped.\<close>

lemma probe_marked:
  assumes "ev = buildOrderPlacedEvent d now" "int4 (ev_orderId d)" "\<forall>m \<in> set msgs. dl_content m = event_content ev"
    and "marked s (eventId ev)"
  shows "startProbeConsumer msgs s = (\<lparr>pr_deliveries = length msgs, pr_applied = 0, pr_skipped = length msgs,
      pr_settled = length msgs\<rparr>, s)"
  using assms(3) by (induction msgs) (simp_all add: handle_again [OF assms(1,2) _ assms(4)])

lemma probe_new:
  assumes "ev = buildOrderPlacedEvent d now" "int4 (ev_orderId d)" "\<forall>m \<in> set msgs. dl_content m = event_content ev" "msgs \<noteq> []"
    and "journal_ok s" "eventId ev \<notin> fst ` set (processed_order_events s)"
  shows "startProbeConsumer msgs s = (\<lparr>pr_deliveries = length msgs, pr_applied = 1, pr_skipped = length msgs - 1,
      pr_settled = length msgs\<rparr>, effect_added ev s)"
proof -
  obtain m ms where msgs: "msgs = m # ms" using assms(4) by (cases msgs) auto
  have "unknown_event ev s" using assms(5,6) by (auto simp: unknown_event_def marked_def journal_ok_def)
  then show ?thesis
    using handle_unknown [OF assms(1,2), of m s] probe_marked [OF assms(1,2), of ms "effect_added ev s"] assms(3)
    by (simp add: msgs)
qed

subsection \<open>The scripts\<close>

text \<open>The process \<open>crash-relay.ts\<close>: one pass that is killed between publishing and marking.\<close>

definition crash_relay :: "'b sink \<Rightarrow> int \<Rightarrow> 'b relay_world \<Rightarrow> (error + relay_pass) \<times> 'b relay_world" where
  "crash_relay sink startedAt = relayOnce sink \<lparr>batchSize = None, lockMode = None, notBefore = Some startedAt\<rparr> {} False"

definition demo_crash_relay ::
  "'b sink \<Rightarrow> ('b \<Rightarrow> order_placed_event list) \<Rightarrow> ('b \<Rightarrow> delivery list) \<Rightarrow> ('b relay_world \<Rightarrow> string set)
     \<Rightarrow> (string \<Rightarrow> string) \<Rightarrow> string \<Rightarrow> int \<Rightarrow> 'b relay_world \<Rightarrow> (((error + unit) \<times> string list) \<times> 'b relay_world) option"
where
  "demo_crash_relay sink queued deliver held sha uuid now w =
     (case prepareOutboxDemo (rw_db w) of
        (Inl e, s1) \<Rightarrow> Some ((Inl e, []), w\<lparr>rw_db := s1\<rparr>)
      | (Inr (productId, startedAt), s1) \<Rightarrow>
     (case place_demo_order False sha uuid now productId (OUTBOX_DEMO_KEY_PREFIX @ ''crash-relay'') s1 of
        (Inl e, s2) \<Rightarrow> Some ((Inl e, []), w\<lparr>rw_db := s2\<rparr>)
      | (Inr _, s2) \<Rightarrow>
     (let (crash, w3) = crash_relay sink startedAt (w\<lparr>rw_db := s2\<rparr>);
          failures = (case crash of Inr _ \<Rightarrow> [''finished normally''] | Inl _ \<Rightarrow> []);
          afterCrash = snapshot s1 startedAt (rw_db w3);
          queuedAfterCrash = length (queued (rw_broker w3))
      in
     (case relayUntil sink startedAt 1 demo_now demo_sleep held None w3 of
        None \<Rightarrow> None
      | Some (Inl e, w4) \<Rightarrow> Some ((Inl e, failures), w4)
      | Some (Inr _, w4) \<Rightarrow>
     (let (probe, s5) = startProbeConsumer (deliver (rw_broker w4)) (rw_db w4);
          snap = snapshot s1 startedAt s5;
          failures = expectEq failures ''in the broker after the crash'' queuedAfterCrash 1;
          failures = expectEq failures ''marked as carried after the crash'' (sn_published afterCrash) 0;
          failures = expectAtLeast failures ''deliveries'' (int (pr_deliveries probe)) 2;
          failures = expectEq failures ''published'' (sn_published snap) 1;
          failures = expectEq failures ''applied'' (pr_applied probe) 1;
          failures = expectEq failures ''effect'' (sn_effect snap) 1;
          failures = expectEq failures ''processed'' (sn_processed snap) 1
      in Some ((Inr (), failures), w4\<lparr>rw_db := s5\<rparr>))))))"

definition demo_crash_write ::
  "'b sink \<Rightarrow> ('b \<Rightarrow> delivery list) \<Rightarrow> (string \<Rightarrow> string) \<Rightarrow> string \<Rightarrow> int \<Rightarrow> 'b relay_world
     \<Rightarrow> ((error + unit) \<times> string list) \<times> 'b relay_world"
where
  "demo_crash_write sink deliver sha uuid now w =
     (case prepareOutboxDemo (rw_db w) of
        (Inl e, s1) \<Rightarrow> ((Inl e, []), w\<lparr>rw_db := s1\<rparr>)
      | (Inr (productId, startedAt), s1) \<Rightarrow>
     (let (r, s2) = place_demo_order True sha uuid now productId (OUTBOX_DEMO_KEY_PREFIX @ ''crash-write'') s1;
          writeFailed = (case r of Inl _ \<Rightarrow> 1 | Inr _ \<Rightarrow> 0);
          (pass, w3) = relayOnce sink \<lparr>batchSize = None, lockMode = None, notBefore = Some startedAt\<rparr> {} True (w\<lparr>rw_db := s2\<rparr>);
          (probe, s4) = startProbeConsumer (deliver (rw_broker w3)) (rw_db w3);
          snap = snapshot s1 startedAt s4;
          failures = expectEq [] ''write-failed'' writeFailed (1 :: nat);
          failures = expectEq failures ''orders'' (sn_orders snap) 0;
          failures = expectEq failures ''outbox'' (sn_outbox snap) 0;
          failures = expectEq failures ''published'' (sn_published snap) 0;
          failures = expectEq failures ''deliveries'' (pr_deliveries probe) 0;
          failures = expectEq failures ''effect'' (sn_effect snap) 0
      in ((Inr (), failures), w3\<lparr>rw_db := s4\<rparr>)))"

definition demo_outbox ::
  "'b sink \<Rightarrow> ('b \<Rightarrow> delivery list) \<Rightarrow> ('b relay_world \<Rightarrow> string set) \<Rightarrow> (string \<Rightarrow> string) \<Rightarrow> string \<Rightarrow> string \<Rightarrow> int \<Rightarrow> int
     \<Rightarrow> 'b relay_world \<Rightarrow> (((error + unit) \<times> string list) \<times> 'b relay_world) option"
where
  "demo_outbox sink deliver held sha uuid uuid' now now' w =
     (case prepareOutboxDemo (rw_db w) of
        (Inl e, s1) \<Rightarrow> Some ((Inl e, []), w\<lparr>rw_db := s1\<rparr>)
      | (Inr (productId, startedAt), s1) \<Rightarrow>
     (let key = OUTBOX_DEMO_KEY_PREFIX @ ''happy-path''; requests = 0 + 1 + 1 in
      case place_demo_order False sha uuid now productId key s1 of
        (Inl e, s2) \<Rightarrow> Some ((Inl e, []), w\<lparr>rw_db := s2\<rparr>)
      | (Inr (first, firstReplayed), s2) \<Rightarrow>
     (case place_demo_order False sha uuid' now' productId key s2 of
        (Inl e, s3) \<Rightarrow> Some ((Inl e, []), w\<lparr>rw_db := s3\<rparr>)
      | (Inr (second, secondReplayed), s3) \<Rightarrow>
     (case relayUntil sink startedAt 1 demo_now demo_sleep held None (w\<lparr>rw_db := s3\<rparr>) of
        None \<Rightarrow> None
      | Some (Inl e, w4) \<Rightarrow> Some ((Inl e, []), w4)
      | Some (Inr _, w4) \<Rightarrow>
     (let (probe, s5) = startProbeConsumer (deliver (rw_broker w4)) (rw_db w4);
          snap = snapshot s1 startedAt s5;
          failures = expectEq [] ''requests'' requests (2 :: nat);
          failures = expectEq failures ''orders'' (sn_orders snap) 1;
          failures = expectEq failures ''outbox'' (sn_outbox snap) 1;
          failures = expectEq failures ''published'' (sn_published snap) 1;
          failures = expectEq failures ''effect'' (sn_effect snap) 1;
          failures = expectEq failures ''processed'' (sn_processed snap) 1;
          failures = expectEq failures ''the second request answers the same order'' (or_id second) (or_id first);
          failures = expectEq failures ''the first request is no replay'' firstReplayed False;
          failures = expectEq failures ''the second request is a replay'' secondReplayed True
      in Some ((Inr (), failures), w4\<lparr>rw_db := s5\<rparr>))))))"

subsection \<open>The checks hold\<close>

text \<open>The state in which a script starts: the tables are in order, the journals agree with them, nothing in the
  outbox is as young as now, the sequences have room, and the identifier of the new outbox row is new.\<close>

definition demo_start :: "db \<Rightarrow> string \<Rightarrow> bool" where
  "demo_start s uuid \<longleftrightarrow> books s \<and> effects_ok s \<and> (\<forall>r \<in> set (outbox s). ob_created_at r < clock s)
     \<and> uuid \<notin> ob_id ` set (outbox s) \<and> seq_products s \<le> 2147483647 \<and> seq_orders s \<le> 2147483647 \<and> seq_items s \<le> 2147483647"

lemma demo_startD:
  assumes "demo_start s uuid" "prepared s pid s1"
  shows "can_place s1 pid uuid" "filter is_demo_order (orders s1) = []" "\<forall>r \<in> set (outbox s1). ob_created_at r < clock s1"
    "distinct (map ob_id (outbox s1))" "journal_ok s1" "OUTBOX_DEMO_KEY_PREFIX @ x \<notin> ik_key ` set (idempotency_keys s1)"
    "orderPlacedEventId (seq_orders s1) \<notin> fst ` set (processed_order_events s1)"
proof -
  have books: "books s1" "effects_ok s1" using assms(2) by (simp_all add: prepared_def)
  obtain p where p: "p \<in> set (products s1)" "p_id p = pid" using assms(2) by (auto simp: prepared_def)
  have "int4 (p_priceCents p)" using booksD(2) [OF books(1) p(1)] by (simp add: product_typed_def int4_def)
  then show "can_place s1 pid uuid"
    using assms p booksD(1) [OF books(1)] by (auto simp: can_place_def demo_start_def prepared_def)
  show "filter is_demo_order (orders s1) = []" "\<forall>r \<in> set (outbox s1). ob_created_at r < clock s1"
    using assms by (auto simp: demo_start_def prepared_def filter_empty_conv)
  show "distinct (map ob_id (outbox s1))" using booksD(1) [OF books(1)] by (simp add: db_wf_defs)
  show "journal_ok s1" using books(2) by (simp add: effects_ok_def)
  show "OUTBOX_DEMO_KEY_PREFIX @ x \<notin> ik_key ` set (idempotency_keys s1)"
  proof
    assume "OUTBOX_DEMO_KEY_PREFIX @ x \<in> ik_key ` set (idempotency_keys s1)"
    then obtain k where "k \<in> set (idempotency_keys s1)" "ik_key k = OUTBOX_DEMO_KEY_PREFIX @ x" by auto
    then show False using assms(2) by (auto simp: prepared_def)
  qed
  have "seq_orders s1 \<notin> o_id ` set (orders s1)"
    using booksD(1) [OF books(1)] serial_fresh [of "map o_id (orders s1)" "seq_orders s1"] by (simp add: db_wf_defs)
  then show "orderPlacedEventId (seq_orders s1) \<notin> fst ` set (processed_order_events s1)"
    using books(2) by (auto simp: effects_ok_def orderPlacedEventId_def show_int_inj)
qed

text \<open>A consumer that subscribes is handed the messages of the queue, in their order.\<close>

definition hands_out :: "('b \<Rightarrow> delivery list) \<Rightarrow> ('b \<Rightarrow> order_placed_event list) \<Rightarrow> bool" where
  "hands_out deliver queued \<longleftrightarrow> (\<forall>b. map dl_content (deliver b) = map event_content (queued b))"

lemma hands_out_same:
  assumes "hands_out deliver queued" "queued b = replicate n ev"
  shows "length (deliver b) = n" "\<forall>m \<in> set (deliver b). dl_content m = event_content ev"
proof -
  have m: "map dl_content (deliver b) = replicate n (event_content ev)"
    using assms unfolding hands_out_def by (metis map_replicate)
  then show "length (deliver b) = n" by (metis length_map length_replicate)
  show "\<forall>m \<in> set (deliver b). dl_content m = event_content ev"
  proof
    fix m assume "m \<in> set (deliver b)"
    then have "dl_content m \<in> set (map dl_content (deliver b))" by simp
    then show "dl_content m = event_content ev" unfolding m by simp
  qed
qed

lemma nothing_waits:
  assumes "\<forall>r \<in> set (outbox (rw_db w)). ob_created_at r < t0"
  shows "relayOnce sink (since_options t0) L True w = (Inr \<lparr>published = 0, failed = 0\<rparr>, w)"
proof -
  have "take_batch SkipLocked L 100 (Some t0) (outbox (rw_db w)) = []"
  proof -
    have "filter (\<lambda>r. pending (Some t0) r \<and> (SkipLocked = SkipLocked \<longrightarrow> ob_id r \<notin> L)) (outbox (rw_db w)) = []"
      using assms by (force simp: pending_def filter_empty_conv)
    then show ?thesis unfolding take_batch_def by (simp only:) (simp add: by_age_def)
  qed
  then show ?thesis by (simp add: relayOnce_def Let_def mark_failed_def mark_sent_def)
qed

text \<open>An order whose \<open>COMMIT\<close> fails leaves nothing behind. The demonstration breaks the commit after the
  order, its items, its key and its event have been written, and then lets a courier and a consumer look for
  remains: for every shop it starts from, every expectation of the script holds, so neither an order, nor an
  event, nor a message, nor an effect exists, and the tables are those it had prepared.\<close>

theorem crash_write_holds:
  assumes "demo_start (rw_db w) uuid" and "hands_out deliver queued" and "queued (rw_broker w) = []"
    and "demo_crash_write sink deliver sha uuid now w = (res, w')"
  shows "res = (Inr (), []) \<and> rw_broker w' = rw_broker w
    \<and> (\<exists>pid s1. prepareOutboxDemo (rw_db w) = (Inr (pid, clock (rw_db w)), s1) \<and> same_tables s1 (rw_db w'))"
proof -
  obtain pid s1 where prep: "prepareOutboxDemo (rw_db w) = (Inr (pid, clock (rw_db w)), s1)" "prepared (rw_db w) pid s1"
    using prepare_ok assms(1) unfolding demo_start_def by metis
  note d = demo_startD [OF assms(1) prep(2)]
  have clock: "clock s1 = clock (rw_db w)" using prep(2) by (simp add: prepared_def)
  let ?key = "OUTBOX_DEMO_KEY_PREFIX @ ''crash-write''"
  obtain e s2 where claim: "claim_or_create uuid now (demoDto pid) ?key (sha (json_text (demo_body pid))) None s1 = (Inr (Created e), s2)"
    using place_run [OF d(1,6)] by metis
  obtain ev where "order_placed s1 uuid now ev s2" using claimed_placed [OF claim d(1)] .
  then have "length (outbox s1) < length (outbox s2)" by (auto simp: order_placed_def)
  then have place: "place_demo_order True sha uuid now pid ?key s1 = (Inl (QueryFailedError ''P0001''), rolled_back s1 s2)"
    using claim by (simp add: place_demo_order_def Let_def demo_transaction_def namespaced_key_def and_then_def)
  have pass: "relayOnce sink (since_options (clock (rw_db w))) {} True (w\<lparr>rw_db := rolled_back s1 s2\<rparr>)
      = (Inr \<lparr>published = 0, failed = 0\<rparr>, w\<lparr>rw_db := rolled_back s1 s2\<rparr>)"
    using d(3) clock by (intro nothing_waits) simp
  have none: "deliver (rw_broker w) = []" using hands_out_same(1) [OF assms(2), of "rw_broker w" 0] assms(3) by simp
  have "filter (\<lambda>r. clock (rw_db w) \<le> ob_created_at r) (outbox s1) = []"
    "filter (\<lambda>r. clock (rw_db w) \<le> ob_created_at r \<and> ob_published_at r \<noteq> None) (outbox s1) = []"
    using d(3) clock by (auto simp: filter_empty_conv)
  then have "snapshot s1 (clock (rw_db w)) (rolled_back s1 s2)
      = \<lparr>sn_orders = 0, sn_outbox = 0, sn_published = 0, sn_effect = 0, sn_processed = 0\<rparr>"
    using d(2) by (simp add: snapshot_def)
  then have "res = (Inr (), [])" "w' = w\<lparr>rw_db := rolled_back s1 s2\<rparr>"
    using assms(4) prep(1) place pass none by (simp_all add: demo_crash_write_def Let_def)
  then show ?thesis using prep(1) by simp
qed

text \<open>The numbers of the tables once the order is placed, and once its event has been carried and applied.\<close>

lemma filter_new: "x \<notin> set xs \<Longrightarrow> filter (\<lambda>y. y \<notin> set xs) (xs @ [x]) = [x]"
  by (simp add: filter_empty_conv)

lemma after_placing:
  assumes "demo_start s uuid" "prepared s pid s1" "order_placed s1 uuid now ev s2"
  obtains ob d where "one_waits (clock s) ob s2" "ob_payload ob = ev" "ev = buildOrderPlacedEvent d now" "int4 (ev_orderId d)"
    "snapshot s1 (clock s) s2 = \<lparr>sn_orders = 1, sn_outbox = 1, sn_published = 0, sn_effect = 0, sn_processed = 0\<rparr>"
    "\<forall>t. snapshot s1 (clock s) (effect_added ev (carried_at t ob s2))
        = \<lparr>sn_orders = 1, sn_outbox = 1, sn_published = 1, sn_effect = 1, sn_processed = 1\<rparr>"
    "\<forall>t. journal_ok (carried_at t ob s2) \<and> eventId ev \<notin> fst ` set (processed_order_events (carried_at t ob s2))"
proof -
  note i = demo_startD [OF assms(1,2)]
  obtain r ob d where o': "orders s2 = orders s1 @ [r]" "is_demo_order r" "outbox s2 = outbox s1 @ [ob]" "ob_id ob = uuid"
      "ob_created_at ob = clock s1" "ob_published_at ob = None" "ob_payload ob = ev" "ev = buildOrderPlacedEvent d now"
      "ev_orderId d = seq_orders s1" "processed_messages s2 = processed_messages s1"
      "processed_order_events s2 = processed_order_events s1" "int4 (seq_orders s1)" "uuid \<notin> ob_id ` set (outbox s1)"
    using assms(3) unfolding order_placed_def by blast
  have c: "clock s1 = clock s" using assms(2) by (simp add: prepared_def)
  have old: "filter (\<lambda>r. clock s \<le> ob_created_at r) (outbox s1) = []"
      "filter (\<lambda>r. clock s \<le> ob_created_at r \<and> P r) (outbox s1) = []" for P
    using i(3) c by (auto simp: filter_empty_conv)
  have id: "eventId ev = orderPlacedEventId (seq_orders s1)" using o'(8,9) by (simp add: buildOrderPlacedEvent_def)
  have new: "eventId ev \<notin> fst ` set (processed_order_events s1)" using i(7) id by simp
  have "ob_id x \<noteq> ob_id ob" if "x \<in> set (outbox s1)" for x using o'(4,13) that by (metis imageI)
  then have marks: "map (marked_sent t ob) (outbox s2) = outbox s1 @ [marked_sent t ob ob]" for t
    by (simp add: marked_sent_def o'(3) map_idI)
  have "filter (pending (Some (clock s))) (outbox s1) = []"
    using i(3) c by (force simp: filter_empty_conv pending_def)
  then have "one_waits (clock s) ob s2"
    using o' i(4) c by (simp add: one_waits_def pending_def)
  moreover have "snapshot s1 (clock s) s2 = \<lparr>sn_orders = 1, sn_outbox = 1, sn_published = 0, sn_effect = 0, sn_processed = 0\<rparr>"
    using o' i(2) old c by (simp add: snapshot_def)
  moreover have "(eventId ev, n) \<notin> set (processed_order_events s1)" "(eventId ev, CONSUMER_ORDER_PLACED) \<notin> set (processed_messages s1)" for n
    using new i(5) by (force simp: journal_ok_def)+
  then have "snapshot s1 (clock s) (effect_added ev (carried_at t ob s2))
        = \<lparr>sn_orders = 1, sn_outbox = 1, sn_published = 1, sn_effect = 1, sn_processed = 1\<rparr>" for t
    using o'(1,2,5,10,11) i(2) old c by (simp add: snapshot_def effect_added_def carried_at_def marks filter_new del: filter_append)
      (simp add: marked_sent_def)
  moreover have "journal_ok (carried_at t ob s2) \<and> eventId ev \<notin> fst ` set (processed_order_events (carried_at t ob s2))" for t
    using i(5) new o'(10,11) by (simp_all add: journal_ok_def carried_at_def)
  ultimately show ?thesis using that o'(7,8,9,12) by metis
qed

text \<open>From the placed order on: a courier carries the event, and the consumer takes all copies of it.\<close>

lemma carried_and_applied:
  assumes "demo_start s uuid" "prepared s pid s1" "order_placed s1 uuid now ev (rw_db w)" "reliable sink queued"
    and "hands_out deliver queued" "queued (rw_broker w) = replicate n ev" "free \<le> clock s + 9900"
  obtains w4 s5 where
    "relayUntil sink (clock s) 1 demo_now demo_sleep (locked_until free L) None w = Some (Inr 1, w4)"
    "startProbeConsumer (deliver (rw_broker w4)) (rw_db w4) = (\<lparr>pr_deliveries = Suc n, pr_applied = 1, pr_skipped = n,
       pr_settled = Suc n\<rparr>, s5)"
    "snapshot s1 (clock s) s5 = \<lparr>sn_orders = 1, sn_outbox = 1, sn_published = 1, sn_effect = 1, sn_processed = 1\<rparr>"
    "length (deliver (rw_broker w4)) = Suc n"
proof -
  obtain ob d where a: "one_waits (clock s) ob (rw_db w)" "ob_payload ob = ev" "ev = buildOrderPlacedEvent d now" "int4 (ev_orderId d)"
    "\<forall>t. snapshot s1 (clock s) (effect_added ev (carried_at t ob (rw_db w)))
        = \<lparr>sn_orders = 1, sn_outbox = 1, sn_published = 1, sn_effect = 1, sn_processed = 1\<rparr>"
    "\<forall>t. journal_ok (carried_at t ob (rw_db w)) \<and> eventId ev \<notin> fst ` set (processed_order_events (carried_at t ob (rw_db w)))"
    using after_placing [OF assms(1-3)] .
  have now: "demo_now w = clock s" using assms(2,3) by (auto simp: demo_now_def order_placed_def prepared_def)
  obtain t b where r: "relay_rounds sink (clock s) 1 demo_now demo_sleep (locked_until free L) (clock s + 10000) 0 w
      = Some (Inr 1, \<lparr>rw_db = carried_at t ob (rw_db w), rw_broker = b\<rparr>)" "queued b = replicate n ev @ [ev]"
    using rounds_carry [OF assms(4) a(1), of 99 "clock s + 10000" free L] now assms(6,7) a(2) by auto
  have "queued b = replicate (Suc n) ev" using r(2) by (simp add: replicate_append_same)
  note msgs = hands_out_same [OF assms(5) this]
  have "deliver b \<noteq> []" using msgs(1) by auto
  from probe_new [OF a(3,4) msgs(2) this] a(6) have
    "startProbeConsumer (deliver b) (carried_at t ob (rw_db w)) = (\<lparr>pr_deliveries = Suc n, pr_applied = 1, pr_skipped = n,
       pr_settled = Suc n\<rparr>, effect_added ev (carried_at t ob (rw_db w)))"
    by (simp add: msgs(1))
  then show ?thesis
    using r(1) a(5) now msgs(1)
    by (intro that [of "\<lparr>rw_db = carried_at t ob (rw_db w), rw_broker = b\<rparr>" "effect_added ev (carried_at t ob (rw_db w))"])
      (simp_all add: relayUntil_def)
qed

lemma demo_placed:
  assumes "demo_start s uuid"
  obtains pid s1 e s2 ev where "prepareOutboxDemo s = (Inr (pid, clock s), s1)" "prepared s pid s1"
    "place_demo_order False sha uuid now pid (OUTBOX_DEMO_KEY_PREFIX @ x) s1 = (Inr (order_view e, False), s2)"
    "claim_or_create uuid now (demoDto pid) (OUTBOX_DEMO_KEY_PREFIX @ x) (sha (json_text (demo_body pid))) None s1 = (Inr (Created e), s2)"
    "order_placed s1 uuid now ev s2"
proof -
  obtain pid s1 where prep: "prepareOutboxDemo s = (Inr (pid, clock s), s1)" "prepared s pid s1"
    using prepare_ok assms(1) unfolding demo_start_def by metis
  note d = demo_startD [OF assms(1) prep(2)]
  obtain e s2 where place: "place_demo_order False sha uuid now pid (OUTBOX_DEMO_KEY_PREFIX @ x) s1 = (Inr (order_view e, False), s2)"
      "claim_or_create uuid now (demoDto pid) (OUTBOX_DEMO_KEY_PREFIX @ x) (sha (json_text (demo_body pid))) None s1 = (Inr (Created e), s2)"
    using place_run [OF d(1,6)] .
  obtain ev where "order_placed s1 uuid now ev s2" using claimed_placed [OF place(2) d(1)] .
  then show ?thesis using that prep place by blast
qed

text \<open>C38: a courier that dies between publishing and marking loses nothing and doubles no effect. The
  demonstration places one order, kills a courier after the broker has confirmed its event and before the mark,
  starts another (while the database may hold the dead courier's lock for up to 9.9 seconds more), and lets a
  consumer take what is in the queue. For every shop it starts from, every expectation of the script holds:
  the event was in the broker with no mark, was carried and delivered twice, and took effect once.\<close>

theorem crash_relay_holds:
  assumes "demo_start (rw_db w) uuid" and "reliable sink queued" and "hands_out deliver queued" and "queued (rw_broker w) = []"
    and "free \<le> clock (rw_db w) + 9900"
  shows "\<exists>w'. demo_crash_relay sink queued deliver (locked_until free L) sha uuid now w = Some ((Inr (), []), w')
    \<and> length (deliver (rw_broker w')) = 2"
proof -
  let ?s = "rw_db w"
  obtain pid s1 e s2 ev where p: "prepareOutboxDemo ?s = (Inr (pid, clock ?s), s1)" "prepared ?s pid s1"
    "place_demo_order False sha uuid now pid (OUTBOX_DEMO_KEY_PREFIX @ ''crash-relay'') s1 = (Inr (order_view e, False), s2)"
    "order_placed s1 uuid now ev s2"
    using demo_placed [OF assms(1)] .
  let ?w2 = "w\<lparr>rw_db := s2\<rparr>"
  obtain ob where a: "one_waits (clock ?s) ob (rw_db ?w2)" "ob_payload ob = ev"
    "snapshot s1 (clock ?s) s2 = \<lparr>sn_orders = 1, sn_outbox = 1, sn_published = 0, sn_effect = 0, sn_processed = 0\<rparr>"
    using after_placing [OF assms(1) p(2,4)] by (metis relay_world.select_convs(1) relay_world.surjective relay_world.update_convs(1))
  obtain b where b: "queued b = [ev]" "crash_relay sink (clock ?s) ?w2 = (Inl (PlainError ''afterPublish''), ?w2\<lparr>rw_broker := b\<rparr>)"
    using pass_free [OF a(1) _ assms(2), of "{}"] a(2) assms(4) unfolding crash_relay_def by auto
  have w3: "order_placed s1 uuid now ev (rw_db (?w2\<lparr>rw_broker := b\<rparr>))" "queued (rw_broker (?w2\<lparr>rw_broker := b\<rparr>)) = replicate 1 ev"
    using p(4) b(1) by simp_all
  obtain w4 s5 where
    "relayUntil sink (clock ?s) 1 demo_now demo_sleep (locked_until free L) None (?w2\<lparr>rw_broker := b\<rparr>) = Some (Inr 1, w4)"
    "startProbeConsumer (deliver (rw_broker w4)) (rw_db w4) = (\<lparr>pr_deliveries = Suc 1, pr_applied = 1, pr_skipped = 1,
       pr_settled = Suc 1\<rparr>, s5)"
    "snapshot s1 (clock ?s) s5 = \<lparr>sn_orders = 1, sn_outbox = 1, sn_published = 1, sn_effect = 1, sn_processed = 1\<rparr>"
    "length (deliver (rw_broker w4)) = Suc 1"
    using carried_and_applied [OF assms(1) p(2) w3(1) assms(2,3) w3(2) assms(5)] .
  then show ?thesis
    using p(1,3) b a(3) by (intro exI [of _ "w4\<lparr>rw_db := s5\<rparr>"]) (simp add: demo_crash_relay_def Let_def expectAtLeast_def)
qed

text \<open>Asking again with the same key answers the same order and changes nothing.\<close>

lemma place_again:
  assumes "claim_or_create uuid now (demoDto pid) key (sha (json_text (demo_body pid))) None s = (Inr (Created e), s')" "db_wf s"
  shows "\<exists>order. place_demo_order False sha uuid' now' pid key s' = (Inr (order, True), s') \<and> or_id order = or_id (order_view e)"
proof -
  note c = created_db [OF assms]
  have wf: "db_wf s'" using c(1) by (simp add: since_def)
  have "claim_or_create uuid' now' (demoDto pid) key (sha (json_text (demo_body pid))) None s'
      = (Inr (Replay (Some \<lparr>ik_key = key, ik_request_hash = sha (json_text (demo_body pid)), ik_order_id = Some (o_id (oe_row e))\<rparr>)), s')"
    using claim_known [OF wf c(5)] by simp
  then show ?thesis
    using orders_findOne_present [OF wf c(2)]
    by (simp add: place_demo_order_def namespaced_key_def Let_def and_then_def order_view_def load_order_def)
qed

text \<open>The happy path: a request and its repetition make one order, which is carried, delivered and applied once.\<close>

theorem demo_outbox_holds:
  assumes "demo_start (rw_db w) uuid" and "reliable sink queued" and "hands_out deliver queued" and "queued (rw_broker w) = []"
    and "free \<le> clock (rw_db w) + 9900"
  shows "\<exists>w'. demo_outbox sink deliver (locked_until free L) sha uuid uuid' now now' w = Some ((Inr (), []), w')
    \<and> length (deliver (rw_broker w')) = 1"
proof -
  let ?s = "rw_db w" and ?key = "OUTBOX_DEMO_KEY_PREFIX @ ''happy-path''"
  obtain pid s1 e s2 ev where p: "prepareOutboxDemo ?s = (Inr (pid, clock ?s), s1)" "prepared ?s pid s1"
    "place_demo_order False sha uuid now pid ?key s1 = (Inr (order_view e, False), s2)"
    "claim_or_create uuid now (demoDto pid) ?key (sha (json_text (demo_body pid))) None s1 = (Inr (Created e), s2)"
    "order_placed s1 uuid now ev s2"
    using demo_placed [OF assms(1)] .
  have "db_wf s1" using p(2) booksD(1) by (auto simp: prepared_def)
  from place_again [of uuid now pid ?key sha s1 e s2 uuid' now', OF p(4) this] obtain order where
    again: "place_demo_order False sha uuid' now' pid ?key s2 = (Inr (order, True), s2)" "or_id order = or_id (order_view e)" by blast
  have w2: "order_placed s1 uuid now ev (rw_db (w\<lparr>rw_db := s2\<rparr>))" "queued (rw_broker (w\<lparr>rw_db := s2\<rparr>)) = replicate 0 ev"
    using p(5) assms(4) by simp_all
  obtain w4 s5 where
    "relayUntil sink (clock ?s) 1 demo_now demo_sleep (locked_until free L) None (w\<lparr>rw_db := s2\<rparr>) = Some (Inr 1, w4)"
    "startProbeConsumer (deliver (rw_broker w4)) (rw_db w4) = (\<lparr>pr_deliveries = Suc 0, pr_applied = 1, pr_skipped = 0,
       pr_settled = Suc 0\<rparr>, s5)"
    "snapshot s1 (clock ?s) s5 = \<lparr>sn_orders = 1, sn_outbox = 1, sn_published = 1, sn_effect = 1, sn_processed = 1\<rparr>"
    "length (deliver (rw_broker w4)) = Suc 0"
    using carried_and_applied [OF assms(1) p(2) w2(1) assms(2,3) w2(2) assms(5)] .
  then show ?thesis
    using p(1,3) again by (intro exI [of _ "w4\<lparr>rw_db := s5\<rparr>"]) (simp add: demo_outbox_def Let_def)
qed

subsection \<open>Examples\<close>

definition demo_world :: "order_placed_event list relay_world" where
  "demo_world = \<lparr>rw_db = sample_db, rw_broker = []\<rparr>"

definition plain_deliver :: "order_placed_event list \<Rightarrow> delivery list" where
  "plain_deliver = map (\<lambda>ev. \<lparr>dl_content = event_content ev, dl_redelivered = False, dl_count = None\<rparr>)"

lemma hands_out_plain: "hands_out plain_deliver id"
  by (simp add: hands_out_def plain_deliver_def)

lemma demo_start_sample: "demo_start (rw_db demo_world) ''row-1''"
proof -
  have "books sample_db" using sample_plant_books by (simp add: sample_plant_def sample_http_def)
  then show ?thesis
    by (simp add: demo_start_def demo_world_def effects_ok_def journal_ok_def) (simp add: sample_db_def empty_db_def)
qed

theorem crash_write_holds_witness:
  "fst (demo_crash_write list_sink plain_deliver id ''row-1'' 1500 demo_world) = (Inr (), [])"
proof -
  obtain res w' where run: "demo_crash_write list_sink plain_deliver id ''row-1'' 1500 demo_world = (res, w')" by fastforce
  have "id (rw_broker demo_world) = []" by (simp add: demo_world_def)
  from crash_write_holds [OF demo_start_sample hands_out_plain this run] show ?thesis by (simp add: run)
qed

theorem crash_relay_holds_witness:
  "\<exists>w'. demo_crash_relay list_sink id plain_deliver (locked_until 5000 {''row-1''}) id ''row-1'' 1500 demo_world
      = Some ((Inr (), []), w')"
proof -
  have "id (rw_broker demo_world) = []" "5000 \<le> clock (rw_db demo_world) + 9900"
    by (simp_all add: demo_world_def sample_db_def empty_db_def)
  from crash_relay_holds [OF demo_start_sample list_sink_reliable hands_out_plain this] show ?thesis by blast
qed

theorem demo_outbox_holds_witness:
  "\<exists>w'. demo_outbox list_sink plain_deliver (locked_until 0 {}) id ''row-1'' ''row-2'' 1500 1600 demo_world = Some ((Inr (), []), w')"
proof -
  have "id (rw_broker demo_world) = []" "0 \<le> clock (rw_db demo_world) + 9900"
    by (simp_all add: demo_world_def sample_db_def empty_db_def)
  from demo_outbox_holds [OF demo_start_sample list_sink_reliable hands_out_plain this] show ?thesis by blast
qed

end
