(* ===== verification/RabbitDemos.thy ===== *)
theory RabbitDemos
  imports OutboxDemos
begin

text \<open>
  The demonstrations of the messaging: \<open>src/messaging/demo-kit.ts\<close>, \<open>src/messaging/crash-consumer.ts\<close>,
  \<open>src/demo-rabbit-publish.ts\<close>, \<open>src/demo-rabbit-duplicate.ts\<close> and \<open>src/demo-rabbit-dlq.ts\<close>.

  The state is that of the outbox demonstrations: the tables and the broker. A message leaves its queue when it is
  acknowledged, moves to the dead-letter queue when it is rejected for good, and is back in its queue when the
  channel closes before either; so what is left in the queues is read off the commands of the consumer.
  How long a message took to handle is an argument.
\<close>

subsection \<open>The kit\<close>

definition DEMO_ORDER_ID_BASE :: int where "DEMO_ORDER_ID_BASE = 900000"

text \<open>\<open>message_id ~ '^order-placed:9[0-9]{5}$'\<close>.\<close>

definition is_demo_message :: "string \<Rightarrow> bool" where
  "is_demo_message m \<longleftrightarrow> take 14 m = ''order-placed:9'' \<and> length m = 19 \<and> list_all is_digit (drop 14 m)"

definition resetDemoState :: "nat \<Rightarrow> ('b \<Rightarrow> 'b) \<Rightarrow> 'b relay_world \<Rightarrow> (error + unit) \<times> 'b relay_world" where
  "resetDemoState consumerCount purge w =
     (if 0 < consumerCount then (Inl (PlainError ''a consumer is running''), w)
      else (Inr (),
        \<lparr>rw_db = (rw_db w)
           \<lparr>processed_order_events := filter (\<lambda>e. \<not> DEMO_ORDER_ID_BASE \<le> snd e) (processed_order_events (rw_db w)),
            processed_messages := filter (\<lambda>m. \<not> is_demo_message (fst m)) (processed_messages (rw_db w))\<rparr>,
         rw_broker = purge (rw_broker w)\<rparr>))"

definition demoEvent :: "int \<Rightarrow> int \<Rightarrow> order_placed_event" where
  "demoEvent n now =
     buildOrderPlacedEvent
       \<lparr>ev_orderId = DEMO_ORDER_ID_BASE + n, ev_customerEmail = ''demo@example.com'', ev_totalCents = 1000 * n,
        ev_currency = ''UAH'', ev_items = [(1, 1)]\<rparr> now"

definition countEffects :: "db \<Rightarrow> nat" where
  "countEffects s = length (filter (\<lambda>e. DEMO_ORDER_ID_BASE \<le> snd e) (processed_order_events s))"

text \<open>The frame of a demonstration: reset, run, exit code.\<close>

definition runDemo ::
  "nat \<Rightarrow> ('b \<Rightarrow> 'b) \<Rightarrow> ('b relay_world \<Rightarrow> ((error + unit) \<times> string list) \<times> 'b relay_world)
     \<Rightarrow> 'b relay_world \<Rightarrow> int \<times> 'b relay_world"
where
  "runDemo consumerCount purge body w =
     (let ((r, failures), w') =
        (case resetDemoState consumerCount purge w of
           (Inl e, w1) \<Rightarrow> ((Inl e, []), w1)
         | (Inr _, w1) \<Rightarrow> body w1);
          failures = (case r of Inl _ \<Rightarrow> failures @ [''exception''] | Inr _ \<Rightarrow> failures)
      in (if failures \<noteq> [] then 1 else 0, w'))"

text \<open>A subscription: what the consumer does with the deliveries it gets, one after the other.\<close>

fun consume_queue :: "delivery list \<Rightarrow> db \<Rightarrow> (delivery_info \<times> settled_outcome \<times> channel_command list) list \<times> db" where
  "consume_queue [] s = ([], s)"
| "consume_queue (msg # msgs) s =
     (let ((outc, cmds), s1) = handleMessage plain_hooks True Commits msg s;
          (rest, s2) = consume_queue msgs s1
      in ((delivery_info_of msg, outc, cmds) # rest, s2))"

definition outcomes_of :: "settled_outcome \<Rightarrow> (delivery_info \<times> settled_outcome \<times> channel_command list) list \<Rightarrow> nat" where
  "outcomes_of oc rs = length (filter (\<lambda>r. fst (snd r) = oc) rs)"

text \<open>After the channel is closed: the messages that went to the dead letters, and those back in their queue.\<close>

definition dead_lettered :: "(delivery_info \<times> settled_outcome \<times> channel_command list) list \<Rightarrow> nat" where
  "dead_lettered rs = length (filter (\<lambda>r. Reject False \<in> set (snd (snd r))) rs)"

definition left_over :: "(delivery_info \<times> settled_outcome \<times> channel_command list) list \<Rightarrow> nat" where
  "left_over rs = length (filter (\<lambda>r. Ack \<notin> set (snd (snd r)) \<and> Reject False \<notin> set (snd (snd r))) rs)"

subsection \<open>Publishing and consuming\<close>

definition COUNT :: nat where "COUNT = 5"
definition CONSUMER_TIMEOUT_MS :: int where "CONSUMER_TIMEOUT_MS = 30 * 60 * 1000"
definition QUORUM_PREFETCH_CAP :: int where "QUORUM_PREFETCH_CAP = 2000"

text \<open>\<open>instants\<close>: the times of the events, one for each; the publisher stops at the first error.\<close>

fun publish_events :: "'b sink \<Rightarrow> (nat \<Rightarrow> int) \<Rightarrow> nat list \<Rightarrow> ('b, error, nat) action" where
  "publish_events sink instants [] = ret 0"
| "publish_events sink instants (n # ns) =
     and_then (sink (demoEvent (int n) (instants n)) ROUTING_KEY_ORDER_PLACED) (\<lambda>_.
     and_then (publish_events sink instants ns) (\<lambda>n. ret (n + 1)))"

definition prefetch_ceiling :: "int list \<Rightarrow> int" where
  "prefetch_ceiling durations =
     (let longest = (if durations = [] then 0 else Max (set durations));
          worst = max longest 1;
          byTimeout = CONSUMER_TIMEOUT_MS div worst
      in min byTimeout QUORUM_PREFETCH_CAP)"

definition demo_publish ::
  "'b sink \<Rightarrow> ('b \<Rightarrow> delivery list) \<Rightarrow> (nat \<Rightarrow> int) \<Rightarrow> int list \<Rightarrow> 'b relay_world
     \<Rightarrow> ((error + unit) \<times> string list) \<times> 'b relay_world"
where
  "demo_publish sink deliver instants durations w =
     (case publish_events sink instants [1..<COUNT + 1] (rw_broker w) of
        (Inl e, b) \<Rightarrow> ((Inl e, []), w\<lparr>rw_broker := b\<rparr>)
      | (Inr sent, b) \<Rightarrow>
     (let (settled, s1) = consume_queue (deliver b) (rw_db w);
          delivered = length settled;
          acked = outcomes_of Acked settled + outcomes_of Skipped settled;
          leftover = left_over settled;
          dlq = dead_lettered settled;
          effect = countEffects s1;
          ceiling = prefetch_ceiling durations;
          failures = expectEq [] ''published'' sent COUNT;
          failures = expectEq failures ''delivered'' delivered COUNT;
          failures = expectEq failures ''effect'' effect COUNT;
          failures = expectEq failures ''acked'' acked COUNT;
          failures = expectEq failures ''dlq'' dlq 0;
          failures = expectEq failures ''left in the queue'' leftover 0;
          failures = (if int PREFETCH < 1 \<or> ceiling < int PREFETCH then failures @ [''prefetch''] else failures)
      in ((Inr (), failures), \<lparr>rw_db = s1, rw_broker = b\<rparr>)))"

subsection \<open>A consumer that dies\<close>

text \<open>\<open>crash-consumer.ts\<close>: killed after the effect and before the acknowledgement, so no command is sent.\<close>

definition crash_consumer :: "delivery \<Rightarrow> db \<Rightarrow> (settled_outcome \<times> channel_command list) \<times> db" where
  "crash_consumer msg =
     handleMessage \<lparr>afterEffect = Some (\<lambda>_ _. Inl (PlainError ''SIGKILL'')), afterApplied = None\<rparr> False Commits msg"

definition demo_duplicate ::
  "'b sink \<Rightarrow> ('b \<Rightarrow> delivery list) \<Rightarrow> ('b \<Rightarrow> delivery list) \<Rightarrow> int \<Rightarrow> 'b relay_world
     \<Rightarrow> ((error + unit) \<times> string list) \<times> 'b relay_world"
where
  "demo_duplicate sink deliver redeliver now w =
     (case sink (demoEvent 1 now) ROUTING_KEY_ORDER_PLACED (rw_broker w) of
        (Inl e, b) \<Rightarrow> ((Inl e, []), w\<lparr>rw_broker := b\<rparr>)
      | (Inr _, b) \<Rightarrow>
     (let (crashed, s1) =
            (case deliver b of [] \<Rightarrow> (None, rw_db w)
             | msg # _ \<Rightarrow> (let (r, s) = crash_consumer msg (rw_db w) in (Some r, s)));
          diedAbruptly = (crashed \<noteq> None);
          effectAfterCrash = countEffects s1;
          returned = (case crashed of Some (_, []) \<Rightarrow> length (redeliver b) = 1 | _ \<Rightarrow> False);
          (settled, s2) = consume_queue (redeliver b) s1;
          deliveries = foldr (\<lambda>r n. max n (di_deliveryCount (fst r))) settled 0;
          redelivered = list_ex (\<lambda>r. di_redelivered (fst r)) settled;
          skipped = outcomes_of Skipped settled;
          leftover = left_over settled;
          dlq = dead_lettered settled;
          effect = countEffects s2;
          failures = (if \<not> diedAbruptly then [''crash-consumer finished normally''] else []);
          failures = expectEq failures ''effects after the crash'' effectAfterCrash 1;
          failures = (if \<not> returned then failures @ [''the message did not return''] else failures);
          failures = (if deliveries < 2 then failures @ [''deliveries''] else failures);
          failures = (if \<not> redelivered then failures @ [''redelivered''] else failures);
          failures = expectEq failures ''effect'' effect 1;
          failures = expectEq failures ''skipped'' skipped 1;
          failures = expectEq failures ''left in the queue'' leftover 0;
          failures = expectEq failures ''dlq'' dlq 0
      in ((Inr (), failures), \<lparr>rw_db = s2, rw_broker = b\<rparr>)))"

subsection \<open>A poisonous message\<close>

text \<open>The text is not ASCII: its bytes.\<close>

definition poison :: string where
  "poison = map char_of [209, 134, 208, 181, 32, 208, 189, 208, 181, 32, 74, 83, 79, 78, 32, 123, 123, 123 :: nat]"

text \<open>\<open>publishText\<close> sends a text as a persistent message and waits for the confirmation; \<open>stamped\<close> are the headers
  that the broker puts on a message which it moves to the dead letters.\<close>

definition demo_dlq ::
  "(string \<Rightarrow> ('b, error, unit) action) \<Rightarrow> ('b \<Rightarrow> delivery list) \<Rightarrow> death_headers option \<Rightarrow> 'b relay_world
     \<Rightarrow> ((error + unit) \<times> string list) \<times> 'b relay_world"
where
  "demo_dlq publishText deliver stamped w =
     (case publishText poison (rw_broker w) of
        (Inl e, b) \<Rightarrow> ((Inl e, []), w\<lparr>rw_broker := b\<rparr>)
      | (Inr _, b) \<Rightarrow>
     (let (settled, s1) = consume_queue (deliver b) (rw_db w);
          rejected = outcomes_of Dead settled;
          work = left_over settled;
          dlq = dead_lettered settled;
          reason = (if 0 < dlq then dead_reason (readDeathInfo stamped) else ''unknown'');
          effect = countEffects s1;
          failures = expectEq [] ''rejected'' rejected 1;
          failures = expectEq failures ''work'' work 0;
          failures = expectEq failures ''dlq'' dlq 1;
          failures = expectEq failures ''effect'' effect 0;
          failures = (if reason \<notin> set DEATH_REASONS then failures @ [''dlq-reason''] else failures)
      in ((Inr (), failures), \<lparr>rw_db = s1, rw_broker = b\<rparr>)))"

subsection \<open>After the reset\<close>

text \<open>The rows of the effects carry the identifiers of the events of their orders.\<close>

definition effects_keyed :: "db \<Rightarrow> bool" where
  "effects_keyed s \<longleftrightarrow> (\<forall>e \<in> set (processed_order_events s). fst e = orderPlacedEventId (snd e))"

definition clean :: "db \<Rightarrow> bool" where
  "clean s \<longleftrightarrow> (\<forall>e \<in> set (processed_order_events s). fst e = orderPlacedEventId (snd e) \<and> snd e < DEMO_ORDER_ID_BASE)
     \<and> (\<forall>m \<in> set (processed_messages s). \<not> is_demo_message (fst m))"

lemma runDemo_passes:
  assumes "effects_keyed (rw_db w)"
    and "\<And>w1. clean (rw_db w1) \<Longrightarrow> rw_broker w1 = purge (rw_broker w) \<Longrightarrow> fst (body w1) = (Inr (), [])"
  shows "fst (runDemo 0 purge body w) = 0"
proof -
  define w1 where "w1 = snd (resetDemoState 0 purge w)"
  have w1: "resetDemoState 0 purge w = (Inr (), w1)" "clean (rw_db w1)" "rw_broker w1 = purge (rw_broker w)"
    using assms(1) by (auto simp: w1_def resetDemoState_def clean_def effects_keyed_def)
  then show ?thesis using assms(2) [of w1] by (cases "body w1") (simp add: runDemo_def Let_def)
qed

lemma countEffects_clean: "clean s \<Longrightarrow> countEffects s = 0"
  by (auto simp: countEffects_def clean_def filter_empty_conv)

lemma countEffects_added:
  "DEMO_ORDER_ID_BASE \<le> ev_orderId (ev_data ev) \<Longrightarrow> countEffects (effect_added ev s) = countEffects s + 1"
  by (simp add: countEffects_def effect_added_def)

definition demo_numbers :: "int list" where
  "demo_numbers = [1, 2, 3, 4, 5]"

lemma show_nat_step:
  "10 \<le> n \<Longrightarrow> show_nat n = show_nat (n div 10) @ [digit_char (n mod 10)]" "n < 10 \<Longrightarrow> show_nat n = [digit_char n]"
  by (simp_all add: show_nat.simps [of n])

lemma demo_message:
  assumes "n \<in> set demo_numbers"
  shows "is_demo_message (orderPlacedEventId (DEMO_ORDER_ID_BASE + n))"
proof -
  have "char_of (57 :: nat) = CHR ''9''" by code_simp
  then show ?thesis using assms
    by (auto simp: demo_numbers_def is_demo_message_def orderPlacedEventId_def DEMO_ORDER_ID_BASE_def show_int_def
        show_nat_step digit_char_def is_digit_def)
qed

lemma demo_event:
  "demoEvent n now = buildOrderPlacedEvent (ev_data (demoEvent n now)) now"
  "ev_orderId (ev_data (demoEvent n now)) = DEMO_ORDER_ID_BASE + n"
  "eventId (demoEvent n now) = orderPlacedEventId (DEMO_ORDER_ID_BASE + n)"
  by (simp_all add: demoEvent_def buildOrderPlacedEvent_def)

lemma demo_event_int4: "n \<in> set demo_numbers \<Longrightarrow> int4 (DEMO_ORDER_ID_BASE + n)"
  by (auto simp: demo_numbers_def int4_def DEMO_ORDER_ID_BASE_def)

lemma clean_unknown:
  assumes "clean s" "n \<in> set demo_numbers"
  shows "unknown_event (demoEvent n now) s"
proof -
  have "DEMO_ORDER_ID_BASE \<le> DEMO_ORDER_ID_BASE + n" using assms(2) by (auto simp: demo_numbers_def)
  then show ?thesis
    using assms demo_message [OF assms(2)]
    by (force simp: unknown_event_def marked_def clean_def demo_event(3) orderPlacedEventId_def show_int_inj)
qed

lemma unknown_kept:
  assumes "unknown_event (demoEvent n now) s" "m \<noteq> n"
  shows "unknown_event (demoEvent n now) (effect_added (demoEvent m now') s)"
  using assms
  by (auto simp: unknown_event_def marked_def effect_added_def demo_event(3) orderPlacedEventId_def show_int_inj)

text \<open>Events of the demonstration that are new: each is applied and acknowledged.\<close>

lemma consume_new:
  assumes "map dl_content msgs = map (\<lambda>n. event_content (demoEvent n (f n))) ns" "distinct ns" "set ns \<subseteq> set demo_numbers"
    and "\<forall>n \<in> set ns. unknown_event (demoEvent n (f n)) s"
  shows "\<exists>s'. consume_queue msgs s = (map (\<lambda>m. (delivery_info_of m, Acked, [Ack])) msgs, s')
    \<and> countEffects s' = countEffects s + length ns"
  using assms
proof (induction msgs arbitrary: ns s)
  case (Cons m msgs)
  then obtain n ns' where ns: "ns = n # ns'" "dl_content m = event_content (demoEvent n (f n))"
    "map dl_content msgs = map (\<lambda>n. event_content (demoEvent n (f n))) ns'" by (cases ns) auto
  let ?s = "effect_added (demoEvent n (f n)) s"
  have n: "n \<in> set demo_numbers" using Cons.prems(3) ns(1) by simp
  then have "0 < n" by (auto simp: demo_numbers_def)
  have "handleMessage plain_hooks True Commits m s = ((Acked, [Ack]), ?s)"
    using handle_unknown [OF demo_event(1) _ ns(2)] Cons.prems(4) demo_event_int4 [OF n] by (simp add: demo_event(2) ns(1))
  moreover have "\<forall>k \<in> set ns'. unknown_event (demoEvent k (f k)) ?s"
    using Cons.prems(2,4) ns(1) by (auto intro!: unknown_kept)
  then obtain s' where "consume_queue msgs ?s = (map (\<lambda>m. (delivery_info_of m, Acked, [Ack])) msgs, s')"
    "countEffects s' = countEffects ?s + length ns'"
    using Cons.IH [OF ns(3), of ?s] Cons.prems(2,3) ns(1) by auto
  ultimately show ?case using \<open>0 < n\<close> by (simp add: countEffects_added demo_event(2) ns(1))
qed simp

lemma publish_all:
  assumes "reliable sink queued"
  shows "\<exists>b'. publish_events sink f ns b = (Inr (length ns), b') \<and> queued b' = queued b @ map (\<lambda>n. demoEvent (int n) (f n)) ns"
proof (induction ns arbitrary: b)
  case (Cons n ns)
  obtain b1 where "sink (demoEvent (int n) (f n)) ROUTING_KEY_ORDER_PLACED b = (Inr (), b1)"
    "queued b1 = queued b @ [demoEvent (int n) (f n)]"
    using assms unfolding reliable_def by (metis prod.collapse)
  then show ?case using Cons.IH [of b1] by (auto simp: and_then_def)
qed simp

lemma settled_all:
  "outcomes_of Acked (map (\<lambda>m. (g m, Acked, [Ack])) msgs) = length msgs" "outcomes_of Skipped (map (\<lambda>m. (g m, Acked, [Ack])) msgs) = 0"
  "left_over (map (\<lambda>m. (g m, oc, [Ack])) msgs) = 0" "dead_lettered (map (\<lambda>m. (g m, oc, [Ack])) msgs) = 0"
  by (simp_all add: outcomes_of_def left_over_def dead_lettered_def comp_def filter_map)

text \<open>Messages that took at most ninety seconds leave room for the prefetch of the consumer.\<close>

lemma ceiling_enough:
  assumes "\<forall>d \<in> set durations. d \<le> 90000"
  shows "int PREFETCH \<le> prefetch_ceiling durations"
proof -
  let ?worst = "max (if durations = [] then 0 else Max (set durations)) 1"
  have "?worst \<le> 90000" using assms by auto
  then have "20 \<le> CONSUMER_TIMEOUT_MS div ?worst"
    using zdiv_mono2 [of 1800000 ?worst 90000] by (simp add: CONSUMER_TIMEOUT_MS_def)
  then show ?thesis by (simp add: prefetch_ceiling_def Let_def QUORUM_PREFETCH_CAP_def PREFETCH_def)
qed

text \<open>The publishing demonstration passes its own checks, on whatever tables it is run: five events are confirmed,
  delivered, applied once each and acknowledged, none goes to the dead letters or back to the queue, and the prefetch
  is within the bounds when no message took more than ninety seconds.\<close>

theorem publish_demo_holds:
  assumes "reliable sink queued" and "hands_out deliver queued" and "queued (purge (rw_broker w)) = []"
    and "effects_keyed (rw_db w)" and "\<forall>d \<in> set durations. d \<le> 90000"
  shows "fst (runDemo 0 purge (demo_publish sink deliver instants durations) w) = 0"
proof (rule runDemo_passes [OF assms(4)])
  fix w1 :: "'a relay_world"
  assume clean: "clean (rw_db w1)" and empty: "rw_broker w1 = purge (rw_broker w)"
  have ns: "map int [1..<COUNT + 1] = demo_numbers" by (simp add: COUNT_def demo_numbers_def upt_rec)
  obtain b where b: "publish_events sink instants [1..<COUNT + 1] (rw_broker w1) = (Inr COUNT, b)"
    "queued b = map (\<lambda>n. demoEvent (int n) (instants n)) [1..<COUNT + 1]"
    using publish_all [OF assms(1), of instants "[1..<COUNT + 1]" "rw_broker w1"] assms(3) empty by auto
  have contents: "map dl_content (deliver b) = map (\<lambda>n. event_content (demoEvent n (instants (nat n)))) demo_numbers"
    using assms(2) b(2) unfolding hands_out_def ns [symmetric] by simp
  obtain s' where s': "consume_queue (deliver b) (rw_db w1) = (map (\<lambda>m. (delivery_info_of m, Acked, [Ack])) (deliver b), s')"
    "countEffects s' = 5"
    using consume_new [OF contents, of "rw_db w1"] clean_unknown [OF clean] countEffects_clean [OF clean]
    by (auto simp: demo_numbers_def)
  have "length (deliver b) = 5" using arg_cong [OF contents, of length] by (simp add: demo_numbers_def)
  then show "fst (demo_publish sink deliver instants durations w1) = (Inr (), [])"
    using b(1) s' ceiling_enough [OF assms(5)]
    by (simp add: demo_publish_def Let_def settled_all) (simp add: COUNT_def PREFETCH_def)
qed

text \<open>A consumer that subscribes after another has died gets the messages back, marked and counted as redeliveries.\<close>

definition hands_back :: "('b \<Rightarrow> delivery list) \<Rightarrow> ('b \<Rightarrow> order_placed_event list) \<Rightarrow> bool" where
  "hands_back redeliver queued \<longleftrightarrow> hands_out redeliver queued
     \<and> (\<forall>b. \<forall>m \<in> set (redeliver b). dl_redelivered m \<and> (\<exists>k \<ge> 1. dl_count m = Some k))"

lemma crash_applies:
  assumes "ev = buildOrderPlacedEvent d now" "int4 (ev_orderId d)" "dl_content m = event_content ev" "unknown_event ev s"
  shows "crash_consumer m s = ((Failed, []), effect_added ev s)"
proof (rule event_read [OF assms(1-3), of s])
  fix re assume "parseOrderPlaced (dl_content m) = Some re"
    "unknown_event ev s \<Longrightarrow> applyOrderPlacedEffect Commits re s = (Inr True, effect_added ev s)"
  then show ?thesis using assms(4)
    by (simp add: crash_consumer_def handleMessage_def handle_body_def and_then_def)
qed

lemma one_handed:
  assumes "hands_out deliver queued" "queued b = [ev]"
  obtains m where "deliver b = [m]" "dl_content m = event_content ev"
  using hands_out_same [OF assms(1), of b 1 ev] assms(2) by (auto simp: length_Suc_conv)

text \<open>The demonstration of a consumer that is killed after the effect and before the acknowledgement passes its
  own checks on whatever tables it is run: the effect is there after the crash, the message comes back, the next
  consumer skips and acknowledges it, and there is still one effect.\<close>

theorem duplicate_demo_holds:
  assumes "reliable sink queued" and "hands_out deliver queued" and "hands_back redeliver queued"
    and "queued (purge (rw_broker w)) = []" and "effects_keyed (rw_db w)"
  shows "fst (runDemo 0 purge (demo_duplicate sink deliver redeliver now) w) = 0"
proof (rule runDemo_passes [OF assms(5)])
  fix w1 :: "'a relay_world"
  assume clean: "clean (rw_db w1)" and empty: "rw_broker w1 = purge (rw_broker w)"
  let ?ev = "demoEvent 1 now" and ?s = "rw_db w1"
  have one: "(1 :: int) \<in> set demo_numbers" by (simp add: demo_numbers_def)
  obtain b where b: "sink ?ev ROUTING_KEY_ORDER_PLACED (rw_broker w1) = (Inr (), b)" "queued b = [?ev]"
    using assms(1,4) empty unfolding reliable_def by (metis append_Nil prod.collapse)
  obtain m where m: "deliver b = [m]" "dl_content m = event_content ?ev" using one_handed [OF assms(2) b(2)] .
  have handed: "hands_out redeliver queued" using assms(3) by (simp add: hands_back_def)
  obtain m' where m': "redeliver b = [m']" "dl_content m' = event_content ?ev" using one_handed [OF handed b(2)] .
  obtain k where k: "dl_redelivered m'" "dl_count m' = Some k" "1 \<le> k"
    using assms(3) m'(1) unfolding hands_back_def by (metis list.set_intros(1))
  have int4: "int4 (ev_orderId (ev_data ?ev))" using demo_event_int4 [OF one] by (simp add: demo_event(2))
  have "crash_consumer m ?s = ((Failed, []), effect_added ?ev ?s)"
    by (rule crash_applies [OF demo_event(1) int4 m(2) clean_unknown [OF clean one]])
  moreover have "handleMessage plain_hooks True Commits m' (effect_added ?ev ?s) = ((Skipped, [Ack]), effect_added ?ev ?s)"
    by (rule handle_again [OF demo_event(1) int4 m'(2) effect_added_marked])
  moreover have "countEffects (effect_added ?ev ?s) = 1"
    using countEffects_clean [OF clean] by (simp add: countEffects_added demo_event(2))
  ultimately show "fst (demo_duplicate sink deliver redeliver now w1) = (Inr (), [])"
    using b m m' k
    by (simp add: demo_duplicate_def Let_def outcomes_of_def left_over_def dead_lettered_def delivery_info_of_def)
qed

lemma poison_unread: "parseOrderPlaced poison = None"
  by code_simp

text \<open>The demonstration of a message that is no event passes its own checks: whoever publishes this text gets it
  rejected for good, it is in the dead letters with the reason that the broker stamps, the order queue is empty and
  no effect is written.\<close>

theorem dlq_demo_holds:
  assumes "publishText poison (purge (rw_broker w)) = (Inr (), b)" and "map dl_content (deliver b) = [poison]"
    and "effects_keyed (rw_db w)"
    and "Option.bind stamped x_death = Some (e # es)" and "de_reason e = Some r" and "r \<in> set DEATH_REASONS"
  shows "fst (runDemo 0 purge (demo_dlq publishText deliver stamped) w) = 0"
proof (rule runDemo_passes [OF assms(3)])
  fix w1 :: "'a relay_world"
  assume clean: "clean (rw_db w1)" and b: "rw_broker w1 = purge (rw_broker w)"
  obtain m where m: "deliver b = [m]" "parseOrderPlaced (dl_content m) = None"
    using assms(2) poison_unread by (auto simp: map_eq_Cons_conv)
  then have "handleMessage plain_hooks True Commits m (rw_db w1) = ((Dead, [Reject False]), rw_db w1)"
    by (simp add: handle_poison)
  moreover have "dead_reason (readDeathInfo stamped) \<in> set DEATH_REASONS"
    using assms(4-6) by (auto simp: readDeathInfo_def or_else_def DEATH_REASONS_def)
  ultimately show "fst (demo_dlq publishText deliver stamped w1) = (Inr (), [])"
    using m(1) assms(1) countEffects_clean [OF clean]
    by (simp add: demo_dlq_def Let_def outcomes_of_def left_over_def dead_lettered_def b)
qed

subsection \<open>What the reset does to real orders\<close>

lemma show_nat_long: "10 ^ k \<le> n \<Longrightarrow> k < length (show_nat n)"
proof (induction k arbitrary: n)
  case 0
  show ?case by (subst show_nat.simps) simp
next
  case (Suc k)
  have n: "10 ^ k \<le> n div 10" using Suc.prems by (simp add: less_eq_div_iff_mult_less_eq mult.commute)
  then have "0 < n div 10" using less_le_trans [of 0 "10 ^ k" "n div 10"] by simp
  then have ten: "10 \<le> n" by (simp add: div_greater_zero_iff)
  then show ?case using Suc.IH [OF n] by (simp add: show_nat_step(1) [OF ten])
qed

text \<open>The effects are chosen by \<open>orderId >= 900000\<close>, the marks by a pattern of six digits. So a real order from number
  1000000 on loses its effect to a demonstration and keeps its mark: no delivery brings the effect back.\<close>

lemma reset_forgets_real_effect:
  assumes "1000000 \<le> ev_orderId d" "int4 (ev_orderId d)" "ev = buildOrderPlacedEvent d now" "marked (rw_db w) (eventId ev)"
    and "resetDemoState 0 purge w = (Inr (), w1)" "dl_content m = event_content ev"
  shows "ev_orderId d \<notin> snd ` set (processed_order_events (rw_db w1))
    \<and> handleMessage plain_hooks True Commits m (rw_db w1) = ((Skipped, [Ack]), rw_db w1)"
proof -
  have "10 ^ 6 \<le> nat (ev_orderId d)" using assms(1) by simp
  then have "6 < length (show_int (ev_orderId d))" using show_nat_long [of 6 "nat (ev_orderId d)"] assms(1) by (simp add: show_int_def)
  then have "\<not> is_demo_message (eventId ev)"
    by (simp add: assms(3) buildOrderPlacedEvent_def orderPlacedEventId_def is_demo_message_def)
  then have "marked (rw_db w1) (eventId ev)" using assms(4,5) by (auto simp: resetDemoState_def marked_def)
  then have "handleMessage plain_hooks True Commits m (rw_db w1) = ((Skipped, [Ack]), rw_db w1)"
    by (rule handle_again [OF assms(3,2,6)])
  moreover have "ev_orderId d \<notin> snd ` set (processed_order_events (rw_db w1))"
    using assms(1,5) by (auto simp: resetDemoState_def DEMO_ORDER_ID_BASE_def)
  ultimately show ?thesis by blast
qed

subsection \<open>Examples\<close>

definition plain_redeliver :: "order_placed_event list \<Rightarrow> delivery list" where
  "plain_redeliver = map (\<lambda>ev. \<lparr>dl_content = event_content ev, dl_redelivered = True, dl_count = Some 1\<rparr>)"

lemma hands_back_plain: "hands_back plain_redeliver id"
  by (auto simp: hands_back_def hands_out_def plain_redeliver_def)

lemma demo_world_keyed: "effects_keyed (rw_db (demo_world\<lparr>rw_broker := b\<rparr>))" "effects_keyed (rw_db demo_world)"
  by (simp_all add: effects_keyed_def demo_world_def sample_db_def empty_db_def)

theorem publish_demo_holds_witness:
  "fst (runDemo 0 (\<lambda>_. []) (demo_publish list_sink plain_deliver (\<lambda>n. 1700000000000 + int n) [3, 0, 12, 1, 1]) demo_world) = 0"
  by (rule publish_demo_holds [OF list_sink_reliable hands_out_plain _ demo_world_keyed(2)]) simp_all

theorem duplicate_demo_holds_witness:
  "fst (runDemo 0 (\<lambda>_. []) (demo_duplicate list_sink plain_deliver plain_redeliver 1700000000000) demo_world) = 0"
  by (rule duplicate_demo_holds [OF list_sink_reliable hands_out_plain hands_back_plain _ demo_world_keyed(2)]) simp

definition text_queue :: "string \<Rightarrow> (string list, error, unit) action" where
  "text_queue t ts = (Inr (), ts @ [t])"

definition text_deliver :: "string list \<Rightarrow> delivery list" where
  "text_deliver = map (\<lambda>t. \<lparr>dl_content = t, dl_redelivered = False, dl_count = None\<rparr>)"

definition dead_stamp :: death_headers where
  "dead_stamp = \<lparr>x_death = Some [\<lparr>de_reason = Some ''rejected'', de_queue = Some QUEUE_ORDER_PLACED, de_count = Some 1\<rparr>],
     x_first_death_reason = Some ''rejected'', x_first_death_queue = Some QUEUE_ORDER_PLACED\<rparr>"

theorem dlq_demo_holds_witness:
  "fst (runDemo 0 (\<lambda>_. []) (demo_dlq text_queue text_deliver (Some dead_stamp)) \<lparr>rw_db = sample_db, rw_broker = [''old'']\<rparr>) = 0"
proof (rule dlq_demo_holds [where b = "[poison]" and es = "[]" and r = "''rejected''"
      and e = "\<lparr>de_reason = Some ''rejected'', de_queue = Some QUEUE_ORDER_PLACED, de_count = Some 1\<rparr>"])
  show "effects_keyed (rw_db \<lparr>rw_db = sample_db, rw_broker = [''old'']\<rparr>)"
    by (simp add: effects_keyed_def sample_db_def empty_db_def)
qed (simp_all add: text_queue_def text_deliver_def dead_stamp_def DEATH_REASONS_def)

end
