(* ===== verification/SessionDemo.thy ===== *)
theory SessionDemo
  imports Sessions DemoKit
begin

text \<open>
  The demonstration of the sessions: \<open>src/demo-session.ts\<close> and the second process it starts,
  \<open>src/session-probe.ts\<close>. An application with the session middleware and two routes is called over a few
  seconds; the state is the Redis of the sessions. The instants of the operations (their milliseconds) and the
  random bytes of the identifier are arguments. \<open>whole\<close> is how the command \<open>TTL\<close> rounds to seconds.
\<close>

subsection \<open>The application of the script\<close>

definition DEMO_TTL_SEC :: int where "DEMO_TTL_SEC = 4"

definition demo_store :: session_store where
  "demo_store = new_session_store (Some DEMO_TTL_SEC) None"

definition login_values :: json where
  "login_values = JObject [(''userId'', JNumber (Num 42))]"

datatype demo_route = Login | Me

text \<open>A request without an error is 200, or 401 when \<open>/me\<close> finds no session; what the middleware or the handler
  throws is answered 500.\<close>

definition demo_handler :: "string \<Rightarrow> demo_route \<Rightarrow> int \<Rightarrow> int session_action" where
  "demo_handler sid path nowMs =
     and_then (sessionMiddleware demo_store False nowMs) (\<lambda>_.
     case path of
       Login \<Rightarrow> and_then (startSession demo_store False sid login_values nowMs) (\<lambda>_. ret 200)
     | Me \<Rightarrow> and_then (gets sx_session) (\<lambda>session. ret (case session of None \<Rightarrow> 401 | Some _ \<Rightarrow> 200)))"

record session_client =
  sc_requests :: nat
  sc_seenSids :: "string set"
  sc_lastSid :: string

text \<open>\<open>/^sid=([^;]+)/\<close>: the identifier in a \<open>Set-Cookie\<close> header.\<close>

definition sid_of_cookie :: "string \<Rightarrow> string option" where
  "sid_of_cookie cookie =
     (if take 4 cookie = ''sid='' \<and> takeWhile (\<lambda>c. c \<noteq> CHR '';'') (drop 4 cookie) \<noteq> []
      then decodeURIComponent (takeWhile (\<lambda>c. c \<noteq> CHR '';'') (drop 4 cookie)) else None)"

definition see_cookie :: "string \<Rightarrow> session_client \<Rightarrow> session_client" where
  "see_cookie cookie c =
     (case sid_of_cookie cookie of
        None \<Rightarrow> c
      | Some sid \<Rightarrow> c\<lparr>sc_lastSid := sid, sc_seenSids := insert sid (sc_seenSids c)\<rparr>)"

definition call :: "string \<Rightarrow> demo_route \<Rightarrow> string option \<Rightarrow> int \<Rightarrow> session_client \<times> redis \<Rightarrow> int \<times> session_client \<times> redis" where
  "call rnd path sid nowMs = (\<lambda>(c, r).
     let (res, x) = demo_handler rnd path nowMs
           \<lparr>sx_redis = at_time (nowMs * 1000) r, sx_cookie = map_option (\<lambda>s. ''sid='' @ s) sid, sx_sessionId = None,
            sx_session = None, sx_set_cookie = []\<rparr>
     in (case res of Inr status \<Rightarrow> status | Inl _ \<Rightarrow> 500,
         fold see_cookie (sx_set_cookie x) (c\<lparr>sc_requests := sc_requests c + 1\<rparr>), sx_redis x))"

definition redis_ttl :: "(int \<Rightarrow> int) \<Rightarrow> string \<Rightarrow> redis \<Rightarrow> int" where
  "redis_ttl whole k r =
     (case live r k of
        None \<Rightarrow> -2
      | Some _ \<Rightarrow> (case r_data r k of Some (_, Some t) \<Rightarrow> whole (t - now_ms r) | _ \<Rightarrow> -1))"

text \<open>The other process opens its own store on the same Redis.\<close>

definition probeSession :: "string \<Rightarrow> int \<Rightarrow> redis \<Rightarrow> (error + int) \<times> redis" where
  "probeSession sid nowMs r =
     (case session_get demo_store sid nowMs (at_time (nowMs * 1000) r) of
        (Inl e, r1) \<Rightarrow> (Inl (PlainError ''session-probe''), r1)
      | (Inr session, r1) \<Rightarrow> (Inr (if session = None then 0 else 1), r1))"

record demo_instants =
  t_login :: int
  t_ttlBefore :: int
  t_firstMe :: int
  t_ttlAfter :: int
  t_secondMe :: int
  t_exists :: int
  t_probe :: int
  t_anonymous :: int
  t_idle :: int

definition demo_session :: "(int \<Rightarrow> int) \<Rightarrow> string \<Rightarrow> demo_instants \<Rightarrow> redis \<Rightarrow> ((error + unit) \<times> string list) \<times> redis" where
  "demo_session whole rnd t r0 =
     (let (loginStatus, c1, r1) = call rnd Login None (t_login t) (\<lparr>sc_requests = 0, sc_seenSids = {}, sc_lastSid = []\<rparr>, r0);
          sid = sc_lastSid c1;
          ttlBefore = redis_ttl whole (sessionKey sid) (at_time (t_ttlBefore t * 1000) r1);
          (firstMeStatus, c2, r2) = call rnd Me (Some sid) (t_firstMe t) (c1, r1);
          ttlAfter = redis_ttl whole (sessionKey sid) (at_time (t_ttlAfter t * 1000) r2);
          (secondMeStatus, c3, r3) = call rnd Me (Some sid) (t_secondMe t) (c2, r2)
      in
      case redis_exists [sessionKey sid] (at_time (t_exists t * 1000) r3) of
        (Inl e, r4) \<Rightarrow> ((Inl e, []), r4)
      | (Inr inRedis, r4) \<Rightarrow>
     (case probeSession sid (t_probe t) r4 of
        (Inl e, r5) \<Rightarrow> ((Inl e, []), r5)
      | (Inr foundByOtherProcess, r5) \<Rightarrow>
     (let (anonymousStatus, c4, r6) = call rnd Me None (t_anonymous t) (c3, r5);
          (idleStatus, c5, r7) = call rnd Me (Some sid) (t_idle t) (c4, r6);
          failures = expectEq [] ''login status'' loginStatus 200;
          failures = expectEq failures ''first /me status'' firstMeStatus 200;
          failures = expectEq failures ''second /me status'' secondMeStatus 200;
          failures = expectAtLeast failures ''requests'' (int (sc_requests c5)) 3;
          failures = expectEq failures ''sessions'' (card (sc_seenSids c5)) 1;
          failures = expectEq failures ''in-redis'' inRedis 1;
          failures = expectEq failures ''ttl-renewed'' (ttlBefore < ttlAfter) True;
          failures = expectEq failures ''found-by-other-process'' foundByOtherProcess 1;
          failures = expectEq failures ''anonymous-status'' anonymousStatus 401;
          failures = expectEq failures ''idle-status'' idleStatus 401
      in case redis_del (sessionKey sid) r7 of
           (Inl e, r8) \<Rightarrow> ((Inl e, failures), r8)
         | (Inr _, r8) \<Rightarrow> ((Inr (), failures), r8))))"

subsection \<open>What a call does\<close>

lemma demo_store_ttl [simp]: "ss_ttlSec demo_store = 4" "ss_absoluteTtlSec demo_store = 86400"
  by (simp_all add: demo_store_def new_session_store_def DEMO_TTL_SEC_def SESSION_ABSOLUTE_TTL_SEC_def)

lemma login_values_numbers: "int_numbers login_values"
  by (simp add: login_values_def)

lemma seen_cookie:
  assumes "SID_PATTERN sid"
  shows "sid_of_cookie (session_cookie False sid ttl) = Some sid"
proof -
  have sid: "list_all is_base64url_char sid" "sid \<noteq> []" using assms by (auto simp: SID_PATTERN_def)
  then have "takeWhile (\<lambda>c. c \<noteq> CHR '';'') (sid @ CHR '';'' # z) = sid" for z
    using sid_char_plain(3) by (simp add: takeWhile_append2 list_all_iff)
  then show ?thesis using sid
    by (simp add: sid_of_cookie_def session_cookie_def SESSION_COOKIE_def encode_plain decode_plain)
qed

lemma own_cookie:
  assumes "SID_PATTERN sid"
  shows "readCookie (Some (''sid='' @ sid)) SESSION_COOKIE = Inr (Some sid)"
proof -
  have "''sid='' @ sid = cookie_header [] (sid_pair sid) []" by (simp add: sid_pair_def SESSION_COOKIE_def)
  then show ?thesis using readCookie_header [of sid "[]" "[]"] assms by (simp add: SID_PATTERN_def)
qed

lemma stored_at_time [simp]: "stored_session sid t0 vals until (at_time us r) \<longleftrightarrow> stored_session sid t0 vals until r"
  by (simp add: stored_session_def)

lemma stored_renewed:
  "stored_session sid t0 vals until r \<Longrightarrow>
   stored_session sid t0 vals u (put (sessionKey sid) (RString (json_text (session_data t0 vals))) (Some u) r)"
  by (simp add: stored_session_def put_def)

lemma get_alive:
  assumes "SID_PATTERN sid" "stored_session sid t0 login_values until r" "nowMs < until" "nowMs - t0 \<le> 86400000"
  obtains r' where "session_get demo_store sid nowMs (at_time (nowMs * 1000) r) = (Inr (Some (session_data t0 login_values)), r')"
    "stored_session sid t0 login_values (nowMs + 4000) r'"
proof -
  have s: "stored_session sid t0 login_values until (at_time (nowMs * 1000) r)" using assms(2) by simp
  have "0 < ss_ttlSec demo_store" by simp
  from session_get_stored [OF assms(1) s login_values_numbers this refl, of nowMs] assms(3,4)
  show ?thesis using that stored_renewed [OF s] by simp
qed

lemma call_login:
  assumes "SID_PATTERN rnd" "r_up r"
  obtains r' where "call rnd Login None nowMs (c, r)
      = (200, c\<lparr>sc_requests := sc_requests c + 1, sc_lastSid := rnd, sc_seenSids := insert rnd (sc_seenSids c)\<rparr>, r')"
    "stored_session rnd nowMs login_values (nowMs + 4000) r'"
proof -
  let ?r = "put (sessionKey rnd) (RString (json_text (session_data nowMs login_values))) (Some (nowMs + 4000)) (at_time (nowMs * 1000) r)"
  have "session_create demo_store rnd login_values nowMs (at_time (nowMs * 1000) r) = (Inr rnd, ?r)"
    using assms(2) by (simp add: session_create_def redis_set_ex_def command_def and_then_def)
  then have "call rnd Login None nowMs (c, r)
      = (200, c\<lparr>sc_requests := sc_requests c + 1, sc_lastSid := rnd, sc_seenSids := insert rnd (sc_seenSids c)\<rparr>, ?r)"
    by (simp add: call_def demo_handler_def sessionMiddleware_def readCookie_def startSession_def session_redis_def
        setSessionCookie_def and_then_def see_cookie_def seen_cookie [OF assms(1)])
  moreover have "stored_session rnd nowMs login_values (nowMs + 4000) ?r"
    using assms(2) by (simp add: stored_session_def put_def)
  ultimately show ?thesis by (rule that)
qed

lemma call_me:
  assumes "SID_PATTERN sid" "stored_session sid t0 login_values until r" "nowMs < until" "nowMs - t0 \<le> 86400000"
  obtains r' where "call rnd Me (Some sid) nowMs (c, r)
      = (200, c\<lparr>sc_requests := sc_requests c + 1, sc_lastSid := sid, sc_seenSids := insert sid (sc_seenSids c)\<rparr>, r')"
    "stored_session sid t0 login_values (nowMs + 4000) r'"
proof -
  obtain r' where get: "session_get demo_store sid nowMs (at_time (nowMs * 1000) r) = (Inr (Some (session_data t0 login_values)), r')"
    "stored_session sid t0 login_values (nowMs + 4000) r'" using get_alive [OF assms] .
  have "sid \<noteq> []" using assms(1) by (auto simp: SID_PATTERN_def)
  then have "call rnd Me (Some sid) nowMs (c, r)
      = (200, c\<lparr>sc_requests := sc_requests c + 1, sc_lastSid := sid, sc_seenSids := insert sid (sc_seenSids c)\<rparr>, r')"
    using get(1) own_cookie [OF assms(1)]
    by (simp add: call_def demo_handler_def sessionMiddleware_def session_redis_def
        setSessionCookie_def and_then_def see_cookie_def seen_cookie [OF assms(1)])
  then show ?thesis using get(2) by (rule that)
qed

lemma call_anonymous:
  "call rnd Me None nowMs (c, r) = (401, c\<lparr>sc_requests := sc_requests c + 1\<rparr>, at_time (nowMs * 1000) r)"
  by (simp add: call_def demo_handler_def sessionMiddleware_def readCookie_def and_then_def)

lemma call_idle:
  assumes "SID_PATTERN sid" "stored_session sid t0 login_values until r" "until \<le> nowMs"
  shows "call rnd Me (Some sid) nowMs (c, r) = (401, c\<lparr>sc_requests := sc_requests c + 1\<rparr>, at_time (nowMs * 1000) r)"
proof -
  have s: "stored_session sid t0 login_values until (at_time (nowMs * 1000) r)" using assms(2) by simp
  have "0 < ss_ttlSec demo_store" by simp
  from session_get_stored [OF assms(1) s login_values_numbers this refl, of nowMs] assms(3)
  have "session_get demo_store sid nowMs (at_time (nowMs * 1000) r) = (Inr None, at_time (nowMs * 1000) r)" by simp
  moreover have "sid \<noteq> []" using assms(1) by (auto simp: SID_PATTERN_def)
  ultimately show ?thesis using own_cookie [OF assms(1)]
    by (simp add: call_def demo_handler_def sessionMiddleware_def session_redis_def and_then_def)
qed

lemma ttl_stored:
  assumes "stored_session sid t0 vals until r" "nowMs < until"
  shows "redis_ttl whole (sessionKey sid) (at_time (nowMs * 1000) r) = whole (until - nowMs)"
  using assms by (simp add: redis_ttl_def stored_session_def live_def)

subsection \<open>The checks hold\<close>

text \<open>The instants of a run: the sleeps of 2, 3 and 5.5 seconds take at least as long, nothing between them takes
  long (at most a second altogether before the second sleep, and less than the idle limit after it), and whole
  seconds are rounded down or up.\<close>

definition run_in_time :: "demo_instants \<Rightarrow> bool" where
  "run_in_time t \<longleftrightarrow>
     t_login t + 2000 \<le> t_ttlBefore t \<and> t_ttlBefore t \<le> t_firstMe t \<and> t_firstMe t < t_login t + 4000
   \<and> t_firstMe t \<le> t_ttlAfter t \<and> t_ttlAfter t \<le> t_firstMe t + 1000
   \<and> t_ttlAfter t + 3000 \<le> t_secondMe t \<and> t_secondMe t < t_firstMe t + 4000
   \<and> t_secondMe t \<le> t_exists t \<and> t_exists t \<le> t_probe t \<and> t_probe t < t_secondMe t + 4000
   \<and> t_probe t \<le> t_anonymous t \<and> t_anonymous t + 5500 \<le> t_idle t"

definition rounds :: "(int \<Rightarrow> int) \<Rightarrow> bool" where
  "rounds whole \<longleftrightarrow> (\<forall>ms. ms div 1000 \<le> whole ms \<and> whole ms \<le> (ms + 999) div 1000)"

text \<open>The demonstration of the sessions passes its own checks. Whenever its calls keep to the times it intends, on
  every Redis that answers: the visit renews the time to live, the session outlives the time it was first given,
  another process finds it, a request without the cookie has none, and it ends when it is left idle. One
  identifier was given out in all.\<close>

theorem session_demo_holds:
  assumes "r_up r" and "SID_PATTERN rnd" and "run_in_time t" and "rounds whole"
  shows "fst (demo_session whole rnd t r) = (Inr (), [])"
proof -
  note t = assms(3) [unfolded run_in_time_def]
  obtain r1 where r1: "call rnd Login None (t_login t) (\<lparr>sc_requests = 0, sc_seenSids = {}, sc_lastSid = []\<rparr>, r)
      = (200, \<lparr>sc_requests = 1, sc_seenSids = {rnd}, sc_lastSid = rnd\<rparr>, r1)"
    "stored_session rnd (t_login t) login_values (t_login t + 4000) r1"
    using call_login [OF assms(2,1), of "t_login t" "\<lparr>sc_requests = 0, sc_seenSids = {}, sc_lastSid = []\<rparr>"] by auto
  obtain r2 where r2: "call rnd Me (Some rnd) (t_firstMe t) (\<lparr>sc_requests = 1, sc_seenSids = {rnd}, sc_lastSid = rnd\<rparr>, r1)
      = (200, \<lparr>sc_requests = 2, sc_seenSids = {rnd}, sc_lastSid = rnd\<rparr>, r2)"
    "stored_session rnd (t_login t) login_values (t_firstMe t + 4000) r2"
    using call_me [OF assms(2) r1(2), of "t_firstMe t" rnd "\<lparr>sc_requests = 1, sc_seenSids = {rnd}, sc_lastSid = rnd\<rparr>"] t
    by (auto simp: numeral_2_eq_2)
  obtain r3 where r3: "call rnd Me (Some rnd) (t_secondMe t) (\<lparr>sc_requests = 2, sc_seenSids = {rnd}, sc_lastSid = rnd\<rparr>, r2)
      = (200, \<lparr>sc_requests = 3, sc_seenSids = {rnd}, sc_lastSid = rnd\<rparr>, r3)"
    "stored_session rnd (t_login t) login_values (t_secondMe t + 4000) r3"
    using call_me [OF assms(2) r2(2), of "t_secondMe t" rnd "\<lparr>sc_requests = 2, sc_seenSids = {rnd}, sc_lastSid = rnd\<rparr>"] t
    by auto
  obtain r5 where r5: "session_get demo_store rnd (t_probe t) (at_time (t_probe t * 1000) r3)
      = (Inr (Some (session_data (t_login t) login_values)), r5)"
    "stored_session rnd (t_login t) login_values (t_probe t + 4000) r5"
    using get_alive [OF assms(2) r3(2), of "t_probe t"] t by auto
  have probe: "probeSession rnd (t_probe t) (at_time (t_exists t * 1000) r3) = (Inr 1, r5)"
    using r5(1) by (simp add: probeSession_def)
  have exists: "redis_exists [sessionKey rnd] (at_time (t_exists t * 1000) r3) = (Inr 1, at_time (t_exists t * 1000) r3)"
    using r3(2) t by (simp add: redis_exists_def stored_session_def command_def live_def)
  have "stored_session rnd (t_login t) login_values (t_probe t + 4000) (at_time (t_anonymous t * 1000) r5)" using r5(2) by simp
  note idle = call_idle [OF assms(2) this, of "t_idle t" rnd]
  have "whole (t_login t + 4000 - t_ttlBefore t) \<le> (t_login t + 4000 - t_ttlBefore t + 999) div 1000"
    "(t_firstMe t + 4000 - t_ttlAfter t) div 1000 \<le> whole (t_firstMe t + 4000 - t_ttlAfter t)"
    using assms(4) unfolding rounds_def by blast+
  moreover have "(t_login t + 4000 - t_ttlBefore t + 999) div 1000 \<le> 2"
    using zdiv_mono1 [of "t_login t + 4000 - t_ttlBefore t + 999" 2999 1000] t by simp
  moreover have "3 \<le> (t_firstMe t + 4000 - t_ttlAfter t) div 1000"
    using zdiv_mono1 [of 3000 "t_firstMe t + 4000 - t_ttlAfter t" 1000] t by simp
  ultimately have "whole (t_login t + 4000 - t_ttlBefore t) < whole (t_firstMe t + 4000 - t_ttlAfter t)" by linarith
  then show ?thesis
    using r1 r2(1) r3(1) probe exists idle t ttl_stored [OF r1(2), of "t_ttlBefore t" whole] ttl_stored [OF r2(2), of "t_ttlAfter t" whole] r5(2)
    by (simp add: demo_session_def Let_def call_anonymous redis_del_def stored_session_def command_def)
qed

subsection \<open>Example\<close>

definition demo_times :: demo_instants where
  "demo_times = \<lparr>t_login = 0, t_ttlBefore = 2010, t_firstMe = 2012, t_ttlAfter = 2020, t_secondMe = 5030, t_exists = 5040,
     t_probe = 5400, t_anonymous = 5420, t_idle = 10930\<rparr>"

theorem session_demo_holds_witness:
  "fst (demo_session (\<lambda>ms. (ms + 500) div 1000) (replicate 43 (CHR ''a'')) demo_times \<lparr>r_us = 0, r_up = True, r_data = (\<lambda>_. None)\<rparr>)
    = (Inr (), [])"
proof (rule session_demo_holds)
  show "rounds (\<lambda>ms. (ms + 500) div 1000)" by (simp add: rounds_def zdiv_mono1)
qed (simp_all add: SID_PATTERN_def is_base64url_char_def demo_times_def run_in_time_def list_all_iff)

end
