(* ===== verification/AuthDemos.thy ===== *)
theory AuthDemos
  imports Http Books DemoKit
begin

text \<open>
  The demonstrations of the logins over HTTP: \<open>src/lib/auth-demo-kit.ts\<close>, \<open>src/demo-auth.ts\<close> and
  \<open>src/demo-reuse.ts\<close>.

  A demonstration starts the application, calls it and looks into its tables. A call is \<open>respond\<close> of theory
  \<open>Http\<close>; what differs from call to call (the time, the random values) is its \<open>call_env\<close>, an argument. The
  argon2 hash of the password and the identifier of the new user are arguments too.
\<close>

subsection \<open>The kit\<close>

definition DEMO_PASSWORD :: string where "DEMO_PASSWORD = ''demo-password-not-a-secret''"

text \<open>\<open>ce_us\<close> is the instant of a call, in microseconds.\<close>

record call_env =
  ce_us :: int
  ce_member :: string
  ce_uuid :: string
  ce_rowId :: string
  ce_token :: string
  ce_familyId :: string
  ce_jti :: string

definition call_random :: "call_env \<Rightarrow> randomness" where
  "call_random e =
     \<lparr>rnd_rowId = ce_rowId e, rnd_token = ce_token e, rnd_familyId = ce_familyId e, rnd_jti = ce_jti e,
      rnd_nowMs = ce_us e div 1000\<rparr>"

text \<open>A call without a token sends no header.\<close>

definition demo_call :: "call_env \<Rightarrow> string \<Rightarrow> string \<Rightarrow> api_call \<Rightarrow> request" where
  "demo_call e path token c =
     \<lparr>rq_call = c, rq_authorization = (if token = [] then None else Some (''Bearer '' @ token)), rq_ip = Some ''127.0.0.1'',
      rq_url = path, rq_member = ce_member e, rq_uuid = ce_uuid e, rq_now = ce_us e div 1000, rq_random = call_random e\<rparr>"

definition app_call ::
  "('k, 'p) server \<Rightarrow> call_env \<Rightarrow> string \<Rightarrow> string \<Rightarrow> api_call \<Rightarrow> http_world \<Rightarrow> response \<times> http_world" where
  "app_call sv e path token c w = respond sv (demo_call e path token c) (w\<lparr>hw_auth := at_time (ce_us e) (hw_auth w)\<rparr>)"

text \<open>\<open>tokenOf\<close>: the field of the body, if it is a text.\<close>

definition accessToken_of :: "response \<Rightarrow> string" where
  "accessToken_of q = (case rs_body q of Inr (TokenReply p) \<Rightarrow> tp_accessToken p | _ \<Rightarrow> [])"

definition refreshToken_of :: "response \<Rightarrow> string" where
  "refreshToken_of q = (case rs_body q of Inr (TokenReply p) \<Rightarrow> tp_refreshToken p | _ \<Rightarrow> [])"

definition createDemoUser :: "int \<Rightarrow> string \<Rightarrow> string \<Rightarrow> user_role \<Rightarrow> user db_action" where
  "createDemoUser newId hash email role =
     and_then (gets id) (\<lambda>s.
     and_then (guard (email \<notin> u_email ` set (users s)) (QueryFailedError UNIQUE_VIOLATION)) (\<lambda>_.
     (let u = \<lparr>u_id = newId, u_email = email, u_name = takeWhile (\<lambda>c. c \<noteq> CHR ''@'') email, u_passwordHash = Some hash,
               u_role = role, u_balanceCents = 0, u_createdAt = clock s\<rparr>
      in and_then (modify (\<lambda>s. s\<lparr>users := users s @ [u]\<rparr>)) (\<lambda>_. ret u))))"

text \<open>The products that are deleted must not be in an order any more (\<open>ON DELETE RESTRICT\<close>); the refresh tokens go
  with their users (\<open>ON DELETE CASCADE\<close>), who must not have an order any more.\<close>

definition owned_by :: "string list \<Rightarrow> db \<Rightarrow> int set" where
  "owned_by emails s = u_id ` set (filter (\<lambda>u. u_email u \<in> set emails) (users s))"

definition is_owned :: "string list \<Rightarrow> db \<Rightarrow> order_row \<Rightarrow> bool" where
  "is_owned emails s r \<longleftrightarrow> pred_option (\<lambda>u. u \<in> owned_by emails s) (o_userId r) \<and> o_userId r \<noteq> None"

definition cleanupDemoData :: "string list \<Rightarrow> string list \<Rightarrow> nat db_action" where
  "cleanupDemoData emails productNames =
     and_then (modify (\<lambda>s. s\<lparr>outbox := filter (\<lambda>r. \<not> (ob_aggregate_type r = AGGREGATE_ORDER
         \<and> ob_aggregate_id r \<in> (show_int \<circ> o_id) ` set (filter (is_owned emails s) (orders s)))) (outbox s)\<rparr>)) (\<lambda>_.
     and_then (modify (\<lambda>s. delete_orders (is_owned emails s) s)) (\<lambda>_.
     and_then (gets id) (\<lambda>s.
     and_then (guard (\<forall>i \<in> set (order_items s). \<forall>p \<in> set (products s). p_name p \<in> set productNames \<longrightarrow> i_productId i \<noteq> p_id p)
                 FK_VIOLATION) (\<lambda>_.
     and_then (modify (\<lambda>s. s\<lparr>products := filter (\<lambda>p. p_name p \<notin> set productNames) (products s)\<rparr>)) (\<lambda>_.
     and_then (modify (\<lambda>s. s\<lparr>users := filter (\<lambda>u. u_email u \<notin> set emails) (users s),
         refresh_tokens := filter (\<lambda>t. rt_user_id t \<notin> owned_by emails s) (refresh_tokens s)\<rparr>)) (\<lambda>_.
       gets (\<lambda>s. length (filter (\<lambda>u. u_email u \<in> set emails) (users s))
               + length (filter (\<lambda>p. p_name p \<in> set productNames) (products s)))))))))"

definition put_db :: "db \<Rightarrow> http_world \<Rightarrow> http_world" where
  "put_db d w = w\<lparr>hw_market := hw_market w\<lparr>mk_shop := mk_shop (hw_market w)\<lparr>sh_db := d\<rparr>\<rparr>\<rparr>"

text \<open>The \<open>finally\<close> of a demonstration.\<close>

definition with_cleanup ::
  "string list \<Rightarrow> string list \<Rightarrow> ((error + unit) \<times> string list) \<times> http_world \<Rightarrow> ((error + unit) \<times> string list) \<times> http_world"
where
  "with_cleanup emails productNames = (\<lambda>((r, failures), w).
     let (c, d) = cleanupDemoData emails productNames (world_db w);
         failures = (case c of Inl _ \<Rightarrow> failures @ [''cleanup''] | Inr _ \<Rightarrow> failures);
         leftovers = (case c of Inl _ \<Rightarrow> 0 | Inr n \<Rightarrow> n);
         failures = expectEq failures ''leftovers'' leftovers 0
     in ((r, failures), put_db d w))"

definition alive_tokens :: "int \<Rightarrow> db \<Rightarrow> nat" where
  "alive_tokens userId s = length (filter (\<lambda>t. rt_user_id t = userId \<and> rt_revoked_at t = None) (refresh_tokens s))"

subsection \<open>A stolen refresh token\<close>

definition demo_reuse ::
  "('k, 'p) server \<Rightarrow> string \<Rightarrow> int \<Rightarrow> (nat \<Rightarrow> call_env) \<Rightarrow> string \<Rightarrow> http_world \<Rightarrow> ((error + unit) \<times> string list) \<times> http_world"
where
  "demo_reuse sv hash newId env email w =
     with_cleanup [email] []
     (case createDemoUser newId hash email customer (world_db w) of
        (Inl e, d) \<Rightarrow> ((Inl e, []), put_db d w)
      | (Inr u, d) \<Rightarrow>
     (let (login, w1) = app_call sv (env 0) ''/auth/login'' [] (Login email DEMO_PASSWORD) (put_db d w);
          r1 = refreshToken_of login;
          (r1Refresh, w2) = app_call sv (env 1) ''/auth/refresh'' [] (Refresh r1) w1;
          r2 = refreshToken_of r1Refresh;
          (accessBefore, w3) = app_call sv (env 2) ''/orders'' (accessToken_of r1Refresh) (ListOrders 20 None) w2;
          (r1Reuse, w4) = app_call sv (env 3) ''/auth/refresh'' [] (Refresh r1) w3;
          (r2AfterReuse, w5) = app_call sv (env 4) ''/auth/refresh'' [] (Refresh r2) w4;
          (accessAfter, w6) = app_call sv (env 5) ''/orders'' (accessToken_of r1Refresh) (ListOrders 20 None) w5;
          failures = expectEq [] ''login'' (rs_status login) 200;
          failures = expectEq failures ''r1-refresh'' (rs_status r1Refresh) 200;
          failures = expectEq failures ''r1-reuse'' (rs_status r1Reuse) 401;
          failures = expectEq failures ''r2-after-reuse'' (rs_status r2AfterReuse) 401;
          failures = expectEq failures ''access before the reuse'' (rs_status accessBefore) 200;
          failures = expectEq failures ''access after the reuse'' (rs_status accessAfter) 401;
          failures = expectEq failures ''living family after the reuse'' (alive_tokens (u_id u) (world_db w6)) 0
      in ((Inr (), failures), w6)))"

subsection \<open>Logging in and out\<close>

definition demo_auth ::
  "('k, 'p) server \<Rightarrow> string \<Rightarrow> int \<Rightarrow> (nat \<Rightarrow> call_env) \<Rightarrow> string \<Rightarrow> http_world \<Rightarrow> ((error + unit) \<times> string list) \<times> http_world"
where
  "demo_auth sv hash newId env email w =
     with_cleanup [email] []
     (case createDemoUser newId hash email customer (world_db w) of
        (Inl e, d) \<Rightarrow> ((Inl e, []), put_db d w)
      | (Inr u, d) \<Rightarrow>
     (let (login, w1) = app_call sv (env 0) ''/auth/login'' [] (Login email DEMO_PASSWORD) (put_db d w);
          (noToken, w2) = app_call sv (env 1) ''/orders'' [] (ListOrders 20 None) w1;
          (withToken, w3) = app_call sv (env 2) ''/orders'' (accessToken_of login) (ListOrders 20 None) w2;
          (refresh, w4) = app_call sv (env 3) ''/auth/refresh'' [] (Refresh (refreshToken_of login)) w3;
          (logout, w5) = app_call sv (env 4) ''/auth/logout'' (accessToken_of refresh) Logout w4;
          (afterLogout, w6) = app_call sv (env 5) ''/orders'' (accessToken_of refresh) (ListOrders 20 None) w5;
          (refreshAfterLogout, w7) = app_call sv (env 6) ''/auth/refresh'' [] (Refresh (refreshToken_of refresh)) w6;
          failures = expectEq [] ''login'' (rs_status login) 200;
          failures = expectEq failures ''no-token'' (rs_status noToken) 401;
          failures = expectEq failures ''with-token'' (rs_status withToken) 200;
          failures = expectEq failures ''refresh'' (rs_status refresh) 200;
          failures = expectEq failures ''logout'' (rs_status logout \<in> {200, 204}) True;
          failures = expectEq failures ''after-logout'' (rs_status afterLogout) 401;
          failures = expectEq failures ''refresh-after-logout'' (rs_status refreshAfterLogout) 401;
          failures = expectEq failures ''living family after the logout'' (alive_tokens (u_id u) (world_db w7)) 0
      in ((Inr (), failures), w7)))"

subsection \<open>Single calls\<close>

text \<open>What a call does to the tables and to the Redis of the logins.\<close>

definition call_result :: "response \<times> http_world \<Rightarrow> int \<Rightarrow> db \<Rightarrow> redis \<Rightarrow> bool" where
  "call_result x status d r \<longleftrightarrow> rs_status (fst x) = status \<and> world_db (snd x) = d \<and> hw_auth (snd x) = r"

lemma put_db_simps [simp]: "world_db (put_db d w) = d" "hw_auth (put_db d w) = hw_auth w"
  by (simp_all add: put_db_def)

lemma demo_call_simps [simp]:
  "rq_call (demo_call e path token c) = c" "rq_url (demo_call e path token c) = path"
  "rq_ip (demo_call e path token c) = Some ''127.0.0.1''" "rq_member (demo_call e path token c) = ce_member e"
  "rq_now (demo_call e path token c) = ce_us e div 1000" "rq_random (demo_call e path token c) = call_random e"
  "rq_authorization (demo_call e path token c) = (if token = [] then None else Some (''Bearer '' @ token))"
  by (simp_all add: demo_call_def)

text \<open>A public route is entered without further ado.\<close>

lemma public_call:
  assumes "route_of c = PUBLIC" "route_guard (demo_call e path token c) c = ret ()"
  shows "app_call sv e path token c w =
    (let (r, w') = handle sv (demo_call e path token c) None c (w\<lparr>hw_auth := at_time (ce_us e) (hw_auth w), hw_headers := []\<rparr>)
     in (case r of
           Inl err \<Rightarrow> \<lparr>rs_status = exception_status err, rs_headers = hw_headers w', rs_body = Inl (problem err path)\<rparr>
         | Inr reply \<Rightarrow> \<lparr>rs_status = success_status c, rs_headers = hw_headers w', rs_body = Inr reply\<rparr>, w'))"
  using assms
  by (simp add: app_call_def respond_def pipeline_def authenticated_def auth_guard_def PUBLIC_def
      in_tables_def in_market_def in_shop_def on_db_def roles_guard_def and_then_def split: prod.split sum.split)

lemma consume_first:
  assumes "r_up r" "r_data r (l_prefix l @ '':'' @ i) = None" "0 < l_limit l"
  shows "consume l m i r = (Inr \<lparr>allowed = True, remaining = l_limit l - 1, retryAfterSec = 0\<rparr>,
    put (l_prefix l @ '':'' @ i) (RZset [(now_ms r, m)]) (Some (now_ms r + l_windowMs l)) (erase (l_prefix l @ '':'' @ i) r))"
  using assms
  by (simp add: consume_def command_def SLIDING_WINDOW_LUA_def zset_of_def live_def store_zset_def zadd_def
      and_then_def on_error_def Let_def)

definition login_key :: "('k, 'p) server \<Rightarrow> string \<Rightarrow> string" where
  "login_key sv email = ''rl:login'' @ '':'' @ (''127.0.0.1'' @ '':'' @ take 32 (sv_sha256 sv (to_lower (trim email))))"

definition after_login :: "('k, 'p) server \<Rightarrow> string \<Rightarrow> call_env \<Rightarrow> redis \<Rightarrow> redis" where
  "after_login sv email e r =
     put (login_key sv email) (RZset [(ce_us e div 1000, ce_member e)]) (Some (ce_us e div 1000 + LOGIN_ATTEMPT_WINDOW_MS))
       (erase (login_key sv email) (at_time (ce_us e) r))"

definition first_row :: "('k, 'p) server \<Rightarrow> call_env \<Rightarrow> int \<Rightarrow> int \<Rightarrow> refresh_token_row" where
  "first_row sv e userId now =
     \<lparr>rt_id = ce_rowId e, rt_user_id = userId, rt_family_id = ce_familyId e, rt_token_hash = sv_hmac sv (ce_token e),
      rt_created_at = now, rt_used_at = None, rt_revoked_at = None,
      rt_expires_at = now + REFRESH_TTL_SEC * 1000, rt_family_started_at = now\<rparr>"

definition new_pair :: "('k, 'p) server \<Rightarrow> call_env \<Rightarrow> user \<Rightarrow> string \<Rightarrow> token_pair" where
  "new_pair sv e u familyId = buildPair (sv_jwt sv) (sv_keys sv) (ce_jti e) (ce_us e div 1000) (u_id u) (u_role u) familyId (ce_token e)"

lemma login_call:
  assumes "find (\<lambda>u. u_email u = email) (users (world_db w)) = Some u" "u_passwordHash u = Some hash" "hash \<noteq> []"
    and "sv_argon2 sv hash password" "login_dto_ok (sv_isEmail sv) email password"
    and "r_up (hw_auth w)" "r_data (hw_auth w) (login_key sv email) = None"
    and "ce_rowId e \<notin> rt_id ` set (refresh_tokens (world_db w))"
    and "sv_hmac sv (ce_token e) \<notin> rt_token_hash ` set (refresh_tokens (world_db w))"
  shows "call_result (app_call sv e path [] (Login email password) w) 200
      (let d = world_db w in d\<lparr>refresh_tokens := refresh_tokens d @ [first_row sv e (u_id u) (clock d)]\<rparr>)
      (after_login sv email e (hw_auth w))
    \<and> rs_body (fst (app_call sv e path [] (Login email password) w)) = Inr (TokenReply (new_pair sv e u (ce_familyId e)))"
proof -
  have u: "u \<in> set (users (world_db w))" using find_Some_in [OF assms(1)] by simp
  let ?r = "at_time (ce_us e) (hw_auth w)"
  have "consume login_limiter (ce_member e) (''127.0.0.1'' @ '':'' @ take 32 (sv_sha256 sv (to_lower (trim email)))) ?r
      = (Inr \<lparr>allowed = True, remaining = l_limit login_limiter - 1, retryAfterSec = 0\<rparr>, after_login sv email e (hw_auth w))"
    using consume_first [of ?r login_limiter] assms(6,7)
    by (simp add: login_limiter_def new_limiter_def after_login_def login_key_def LOGIN_ATTEMPT_LIMIT_def)
  then have throttle: "login_throttle (sv_sha256 sv) login_limiter (ce_member e) ''127.0.0.1'' email ?r
      = (Inr \<lparr>allowed = True, remaining = l_limit login_limiter - 1, retryAfterSec = 0\<rparr>, after_login sv email e (hw_auth w))"
    by (simp add: login_throttle_def on_error_def)
  have login: "auth_login (sv_jwt sv) (sv_keys sv) (sv_hmac sv) (sv_argon2 sv) (call_random e) email password (world_db w)
      = (Inr (new_pair sv e u (ce_familyId e)),
         (world_db w)\<lparr>refresh_tokens := refresh_tokens (world_db w) @ [first_row sv e (u_id u) (clock (world_db w))]\<rparr>)"
    using assms(1-4,8,9) u
    by (simp add: auth_login_run verifyPassword_def truthy_def issue_def insert_refresh_token_cases and_then_def
        call_random_def first_row_def new_pair_def)
  have c: "route_of (Login email password) = PUBLIC" "route_guard (demo_call e path [] (Login email password)) (Login email password) = ret ()"
    by simp_all
  have "handle sv (demo_call e path [] (Login email password)) None (Login email password)
      (w\<lparr>hw_auth := ?r, hw_headers := []\<rparr>)
    = (Inr (TokenReply (new_pair sv e u (ce_familyId e))),
       (put_db ((world_db w)\<lparr>refresh_tokens := refresh_tokens (world_db w) @ [first_row sv e (u_id u) (clock (world_db w))]\<rparr>) w)
         \<lparr>hw_auth := after_login sv email e (hw_auth w), hw_headers := []\<rparr>)"
    using assms(5) throttle login
    by (simp add: AuthController_login_def in_auth_def login_route_def in_redis_def in_db_def and_then_def put_db_def)
  then show ?thesis unfolding public_call [OF c] by (simp add: call_result_def Let_def)
qed

text \<open>Exchanging a refresh token, by the state of its row.\<close>

definition next_row :: "('k, 'p) server \<Rightarrow> call_env \<Rightarrow> refresh_token_row \<Rightarrow> int \<Rightarrow> refresh_token_row" where
  "next_row sv e row now =
     \<lparr>rt_id = ce_rowId e, rt_user_id = rt_user_id row, rt_family_id = rt_family_id row, rt_token_hash = sv_hmac sv (ce_token e),
      rt_created_at = now, rt_used_at = None, rt_revoked_at = None,
      rt_expires_at = min (now + REFRESH_TTL_SEC * 1000) (rt_family_started_at row + REFRESH_ABSOLUTE_TTL_SEC * 1000),
      rt_family_started_at = rt_family_started_at row\<rparr>"

lemma token_dto: "TOKEN_PATTERN token \<Longrightarrow> refresh_dto_ok token"
  by (auto simp: TOKEN_PATTERN_def refresh_dto_ok_def char_count_def intro: order_trans [OF length_filter_le])

lemma refresh_answered:
  assumes "auth_refresh (sv_jwt sv) (sv_keys sv) (sv_hmac sv) (call_random e) token
      \<lparr>aw_db = world_db w, aw_redis = at_time (ce_us e) (hw_auth w)\<rparr> = (res, a)"
    and "TOKEN_PATTERN token"
  shows "call_result (app_call sv e path [] (Refresh token) w) (case res of Inl err \<Rightarrow> exception_status err | Inr _ \<Rightarrow> 200)
      (aw_db a) (aw_redis a)
    \<and> (\<forall>pair. res = Inr pair \<longrightarrow> rs_body (fst (app_call sv e path [] (Refresh token) w)) = Inr (TokenReply pair))"
proof -
  have c: "route_of (Refresh token) = PUBLIC" "route_guard (demo_call e path [] (Refresh token)) (Refresh token) = ret ()"
    by simp_all
  show ?thesis unfolding public_call [OF c] using assms token_dto [OF assms(2)]
    by (cases res) (simp_all add: AuthController_refresh_def in_auth_def call_result_def and_then_def)
qed

lemma refresh_usable:
  assumes "TOKEN_PATTERN token" "find (\<lambda>r. rt_token_hash r = sv_hmac sv token) (refresh_tokens (world_db w)) = Some row"
    and "usable row" "clock (world_db w) < rt_expires_at row"
    and "ce_rowId e \<notin> rt_id ` set (refresh_tokens (world_db w))"
    and "sv_hmac sv (ce_token e) \<notin> rt_token_hash ` set (refresh_tokens (world_db w))"
    and "find (\<lambda>u. u_id u = rt_user_id row) (users (world_db w)) = Some u" "int4 (rt_user_id row)"
  shows "call_result (app_call sv e path [] (Refresh token) w) 200
      (let d = world_db w in d\<lparr>refresh_tokens :=
         map (use_row (rt_id row) (clock d)) (refresh_tokens d) @ [next_row sv e row (clock d)]\<rparr>)
      (at_time (ce_us e) (hw_auth w))
    \<and> rs_body (fst (app_call sv e path [] (Refresh token) w)) = Inr (TokenReply (new_pair sv e u (rt_family_id row)))"
proof -
  let ?d = "world_db w"
  have "u \<in> set (users ?d)" "u_id u = rt_user_id row" using assms(7) by (auto simp: find_Some_iff)
  then have owner: "rt_user_id row \<in> u_id ` set (users ?d)" by (metis imageI)
  have "rt_id ` set (map (use_row i n) rs) = rt_id ` set rs" "rt_token_hash ` set (map (use_row i n) rs) = rt_token_hash ` set rs"
    for i n rs by (simp_all add: image_image)
  then have "rotate_token (sv_hmac sv) (ce_rowId e) (ce_token e) token ?d
      = (Inr (Rotated \<lparr>ow_userId = rt_user_id row, ow_familyId = rt_family_id row\<rparr> (ce_token e)),
         ?d\<lparr>refresh_tokens := map (use_row (rt_id row) (clock ?d)) (refresh_tokens ?d) @ [next_row sv e row (clock ?d)]\<rparr>)"
    using assms(1-6) owner
    by (simp add: rotate_token_def rotate_body_def usable_def insert_refresh_token_cases and_then_def next_row_def)
  then have "auth_refresh (sv_jwt sv) (sv_keys sv) (sv_hmac sv) (call_random e) token \<lparr>aw_db = ?d, aw_redis = at_time (ce_us e) (hw_auth w)\<rparr>
      = (Inr (new_pair sv e u (rt_family_id row)),
         \<lparr>aw_db = ?d\<lparr>refresh_tokens := map (use_row (rt_id row) (clock ?d)) (refresh_tokens ?d) @ [next_row sv e row (clock ?d)]\<rparr>,
          aw_redis = at_time (ce_us e) (hw_auth w)\<rparr>)"
    using assms(7,8) by (simp add: auth_refresh_def in_db_def call_random_def find_user_run and_then_def new_pair_def)
  from refresh_answered [OF this assms(1)] show ?thesis by (simp add: Let_def)
qed

lemma refresh_reused:
  assumes "TOKEN_PATTERN token" "find (\<lambda>r. rt_token_hash r = sv_hmac sv token) (refresh_tokens (world_db w)) = Some row"
    and "rt_revoked_at row = None" "rt_used_at row \<noteq> None" "rt_family_id row \<noteq> []"
  shows "call_result (app_call sv e path [] (Refresh token) w) 401
      (let d = world_db w in d\<lparr>refresh_tokens := map (revoke_row (rt_family_id row) (clock d)) (refresh_tokens d)\<rparr>)
      (snd (denyFamily (rt_family_id row) (at_time (ce_us e) (hw_auth w))))"
proof -
  let ?d = "world_db w"
  have "rotate_token (sv_hmac sv) (rnd_rowId (call_random e)) (rnd_token (call_random e)) token ?d
      = (Inr (Rejected Reused (Some \<lparr>ow_userId = rt_user_id row, ow_familyId = rt_family_id row\<rparr>)
            (Some (length (filter (\<lambda>r. rt_family_id r = rt_family_id row \<and> rt_revoked_at r = None) (refresh_tokens ?d))))),
         ?d\<lparr>refresh_tokens := map (revoke_row (rt_family_id row) (clock ?d)) (refresh_tokens ?d)\<rparr>)"
    using assms(1-4) by (simp add: rotate_token_def rotate_body_def revokeFamily_run and_then_def)
  from auth_refresh_reused [where w = "\<lparr>aw_db = ?d, aw_redis = at_time (ce_us e) (hw_auth w)\<rparr>", simplified, OF this]
  have "auth_refresh (sv_jwt sv) (sv_keys sv) (sv_hmac sv) (call_random e) token \<lparr>aw_db = ?d, aw_redis = at_time (ce_us e) (hw_auth w)\<rparr>
      = (Inl (UnauthorizedException ''refresh''),
         \<lparr>aw_db = ?d\<lparr>refresh_tokens := map (revoke_row (rt_family_id row) (clock ?d)) (refresh_tokens ?d)\<rparr>,
          aw_redis = snd (denyFamily (rt_family_id row) (at_time (ce_us e) (hw_auth w)))\<rparr>)"
    using assms(5) by simp
  from refresh_answered [OF this assms(1)] show ?thesis by (simp add: Let_def)
qed

lemma refresh_revoked:
  assumes "TOKEN_PATTERN token" "find (\<lambda>r. rt_token_hash r = sv_hmac sv token) (refresh_tokens (world_db w)) = Some row"
    and "rt_revoked_at row \<noteq> None"
  shows "call_result (app_call sv e path [] (Refresh token) w) 401 (world_db w) (at_time (ce_us e) (hw_auth w))"
proof -
  let ?d = "world_db w"
  have "rotate_token (sv_hmac sv) i n token ?d
      = (Inr (Rejected Revoked (Some \<lparr>ow_userId = rt_user_id row, ow_familyId = rt_family_id row\<rparr>) None), ?d)" for i n
    using assms by (simp add: rotate_token_def rotate_body_def and_then_def)
  then have "auth_refresh (sv_jwt sv) (sv_keys sv) (sv_hmac sv) (call_random e) token \<lparr>aw_db = ?d, aw_redis = at_time (ce_us e) (hw_auth w)\<rparr>
      = (Inl (UnauthorizedException ''refresh''), \<lparr>aw_db = ?d, aw_redis = at_time (ce_us e) (hw_auth w)\<rparr>)"
    by (simp add: auth_refresh_def in_db_def and_then_def)
  from refresh_answered [OF this assms(1)] show ?thesis by simp
qed

text \<open>The listing of somebody without orders. A token of the library is one word.\<close>

definition one_word :: "string \<Rightarrow> bool" where
  "one_word token \<longleftrightarrow> token \<noteq> [] \<and> list_all (\<lambda>c. \<not> is_space c) token"

lemma bearer_word:
  assumes "one_word token" shows "bearer_token (''Bearer '' @ token) = Some token"
proof -
  have "is_space CHR '' ''" "to_lower ''Bearer'' = ''bearer''" by code_simp+
  then show ?thesis using assms by (cases token) (simp_all add: bearer_token_def one_word_def)
qed

lemma no_orders_listed:
  assumes "int4 a" "visible s a = []" shows "orders_findAll n None a s = (Inr ([], None), s)"
  using assms roleOf_run [OF assms(1), of s]
  by (simp add: orders_findAll_def visible_def and_then_def select_after_def truthy_num_def page_of_def Let_def)

definition on_denylist :: "access_principal \<Rightarrow> redis \<Rightarrow> bool" where
  "on_denylist who r \<longleftrightarrow> live r (denyJtiKey (ap_jti who)) \<noteq> None \<or> live r (denyFamilyKey (ap_familyId who)) \<noteq> None"

lemma list_call:
  assumes "one_word token" "verifyAccess (sv_jwt sv) (sv_keys sv) token (ce_us e div 1000) = Inr who" "r_up (hw_auth w)"
    and "int4 (ap_userId who)" "visible (world_db w) (ap_userId who) = []"
  shows "call_result (app_call sv e path token (ListOrders n None) w)
    (if on_denylist who (at_time (ce_us e) (hw_auth w)) then 401 else 200) (world_db w) (at_time (ce_us e) (hw_auth w))"
  using assms bearer_word [OF assms(1)] no_orders_listed [OF assms(4,5), of n]
  by (simp add: app_call_def respond_def pipeline_def authenticated_def auth_guard_def isDenied_run on_denylist_def
      one_word_def unauthorized_def PROTECTED_def roles_guard_def in_tables_def in_market_def in_shop_def on_db_def
      with_user_def OrdersController_findAll_def and_then_def call_result_def)

lemma list_call_refused:
  assumes "one_word token" "verifyAccess (sv_jwt sv) (sv_keys sv) token (ce_us e div 1000) = Inl err"
  shows "call_result (app_call sv e path token (ListOrders n None) w) 401 (world_db w) (at_time (ce_us e) (hw_auth w))"
  using assms bearer_word [OF assms(1)]
  by (simp add: app_call_def respond_def pipeline_def authenticated_def auth_guard_def one_word_def unauthorized_def
      PROTECTED_def and_then_def call_result_def)

lemma list_call_anonymous:
  "call_result (app_call sv e path [] (ListOrders n None) w) 401 (world_db w) (at_time (ce_us e) (hw_auth w))"
  by (simp add: app_call_def respond_def pipeline_def authenticated_def auth_guard_def bearer_token_def unauthorized_def
      PROTECTED_def and_then_def call_result_def)

lemma logout_call:
  assumes "one_word token" "verifyAccess (sv_jwt sv) (sv_keys sv) token (ce_us e div 1000) = Inr who" "r_up (hw_auth w)"
    and "\<not> on_denylist who (at_time (ce_us e) (hw_auth w))"
  shows "call_result (app_call sv e path token Logout w) 204
    (let d = world_db w in d\<lparr>refresh_tokens := map (revoke_row (ap_familyId who) (clock d)) (refresh_tokens d)\<rparr>)
    (snd (revokeAccess (ap_jti who) (ap_expiresAt who) (ce_us e div 1000) (at_time (ce_us e) (hw_auth w))))"
proof -
  let ?r = "at_time (ce_us e) (hw_auth w)" and ?d = "world_db w"
  obtain b r1 where r: "revokeAccess (ap_jti who) (ap_expiresAt who) (ce_us e div 1000) ?r = (Inr b, r1)"
    using assms(3) by (cases "revokeAccess (ap_jti who) (ap_expiresAt who) (ce_us e div 1000) ?r")
      (auto simp: revokeAccess_def and_then_def redis_set_ex_def command_def Let_def split: if_splits)
  then have "auth_logout who (ce_us e div 1000) \<lparr>aw_db = ?d, aw_redis = ?r\<rparr>
      = (Inr (), \<lparr>aw_db = ?d\<lparr>refresh_tokens := map (revoke_row (ap_familyId who) (clock ?d)) (refresh_tokens ?d)\<rparr>, aw_redis = r1\<rparr>)"
    by (simp add: auth_logout_run revokeFamily_run)
  then show ?thesis using assms bearer_word [OF assms(1)] r
    by (simp add: app_call_def respond_def pipeline_def authenticated_def auth_guard_def isDenied_run on_denylist_def
        one_word_def unauthorized_def PROTECTED_def roles_guard_def in_tables_def in_market_def in_shop_def on_db_def
        with_user_def AuthController_logout_def in_auth_def and_then_def call_result_def Let_def)
qed

lemma cleanup_users: "fst (cleanupDemoData emails [] s) = Inr 0"
  by (simp add: cleanupDemoData_def and_then_def)

lemma with_cleanup_users: "fst (with_cleanup emails [] ((r, fs), w)) = (r, fs)"
  using cleanup_users [of emails "world_db w"]
  by (cases "cleanupDemoData emails [] (world_db w)") (simp add: with_cleanup_def Let_def)

subsection \<open>The stolen token is of no use\<close>

definition newcomer :: "int \<Rightarrow> string \<Rightarrow> db \<Rightarrow> bool" where
  "newcomer n email s \<longleftrightarrow> 0 < n \<and> int4 n \<and> n \<notin> u_id ` set (users s) \<and> email \<notin> u_email ` set (users s)
     \<and> n \<notin> rt_user_id ` set (refresh_tokens s) \<and> Some n \<notin> o_userId ` set (orders s)"

definition new_token :: "('k, 'p) server \<Rightarrow> call_env \<Rightarrow> db \<Rightarrow> bool" where
  "new_token sv e s \<longleftrightarrow> TOKEN_PATTERN (ce_token e) \<and> ce_rowId e \<notin> rt_id ` set (refresh_tokens s)
     \<and> sv_hmac sv (ce_token e) \<notin> rt_token_hash ` set (refresh_tokens s)"

definition demo_user :: "int \<Rightarrow> string \<Rightarrow> string \<Rightarrow> db \<Rightarrow> user" where
  "demo_user n hash email s =
     \<lparr>u_id = n, u_email = email, u_name = takeWhile (\<lambda>c. c \<noteq> CHR ''@'') email, u_passwordHash = Some hash,
      u_role = customer, u_balanceCents = 0, u_createdAt = clock s\<rparr>"

lemma demo_user_created:
  "newcomer n email s \<Longrightarrow> createDemoUser n hash email customer s
    = (Inr (demo_user n hash email s), s\<lparr>users := users s @ [demo_user n hash email s]\<rparr>)"
  by (simp add: createDemoUser_def newcomer_def demo_user_def and_then_def Let_def)

lemma demo_user_found:
  assumes "newcomer n email s"
  shows "find (\<lambda>u. u_email u = email) (users s @ [demo_user n hash email s]) = Some (demo_user n hash email s)"
    "find (\<lambda>u. u_id u = n) (users s @ [demo_user n hash email s]) = Some (demo_user n hash email s)"
  using assms by (auto simp: newcomer_def demo_user_def find_append find_None_iff split: option.splits) (auto simp: find_Some_iff)

lemma use_row_others: "i \<notin> rt_id ` set rs \<Longrightarrow> map (use_row i now) rs = rs"
  by (rule map_idI) (auto simp: use_row_def)

lemma hash_found:
  assumes "rt_token_hash row \<notin> rt_token_hash ` set rs"
  shows "find (\<lambda>r. rt_token_hash r = rt_token_hash row) (rs @ row # qs) = Some row"
proof -
  have "find (\<lambda>r. rt_token_hash r = rt_token_hash row) rs = None" using assms
    by (induction rs) auto
  then show ?thesis by (simp add: find_append)
qed

lemma data_after_login:
  "k \<noteq> login_key sv email \<Longrightarrow> r_data (after_login sv email e r) k = r_data r k" "r_up (after_login sv email e r) = r_up r"
  by (simp_all add: after_login_def put_def erase_def at_time_def)

lemma login_key_apart: "denyJtiKey j \<noteq> login_key sv email" "denyFamilyKey f \<noteq> login_key sv email"
  by (simp_all add: login_key_def denyJtiKey_def denyFamilyKey_def DENY_JTI_PREFIX_def DENY_FAMILY_PREFIX_def)

text \<open>The first three calls: login, exchange, and the listing with the access token of the exchange.\<close>

definition demo_token :: "('k, 'p) server \<Rightarrow> int \<Rightarrow> string \<Rightarrow> call_env \<Rightarrow> string" where
  "demo_token sv n f e = sa_token (signAccess (sv_jwt sv) (sv_keys sv) n customer f (ce_jti e) (ce_us e div 1000))"

definition demo_who :: "int \<Rightarrow> string \<Rightarrow> call_env \<Rightarrow> access_principal" where
  "demo_who n f e =
     \<lparr>ap_userId = n, ap_role = customer, ap_jti = ce_jti e, ap_familyId = f,
      ap_expiresAt = of_int (ce_us e div 1000 div 1000 + 600)\<rparr>"

lemma demo_token_verified:
  assumes "jwt_contract (sv_jwt sv) pub" "verificationKey (sv_keys sv) (Some (ks_kid (sv_keys sv))) = Inr (pub (ks_signingKey (sv_keys sv)))"
    and "0 < n"
  shows "verifyAccess (sv_jwt sv) (sv_keys sv) (demo_token sv n f e) t = Inr (demo_who n f e) \<and> t div 1000 < ce_us e div 1000 div 1000 + 600
    \<or> (\<exists>err. verifyAccess (sv_jwt sv) (sv_keys sv) (demo_token sv n f e) t = Inl err) \<and> \<not> t div 1000 < ce_us e div 1000 div 1000 + 600"
  using signed_verifies [OF assms(1,3), of "demo_token sv n f e" "sv_keys sv" customer f "ce_jti e" "ce_us e div 1000" "sv_keys sv" t]
    assms(2)
  by (cases "verifyAccess (sv_jwt sv) (sv_keys sv) (demo_token sv n f e) t") (auto simp: demo_token_def demo_who_def)

definition first_used :: "('k, 'p) server \<Rightarrow> int \<Rightarrow> call_env \<Rightarrow> int \<Rightarrow> refresh_token_row" where
  "first_used sv n e now = (first_row sv e n now)\<lparr>rt_used_at := Some now\<rparr>"

text \<open>The tables while a demonstration runs: its user and some refresh tokens are new.\<close>

definition demo_db :: "int \<Rightarrow> string \<Rightarrow> string \<Rightarrow> db \<Rightarrow> refresh_token_row list \<Rightarrow> db" where
  "demo_db n hash email s rs = s\<lparr>users := users s @ [demo_user n hash email s], refresh_tokens := rs\<rparr>"

lemma demo_db_fields [simp]:
  "users (demo_db n hash email s rs) = users s @ [demo_user n hash email s]" "refresh_tokens (demo_db n hash email s rs) = rs"
  "orders (demo_db n hash email s rs) = orders s" "clock (demo_db n hash email s rs) = clock s"
  "(demo_db n hash email s rs)\<lparr>refresh_tokens := qs\<rparr> = demo_db n hash email s qs"
  by (simp_all add: demo_db_def)

lemma demo_login:
  assumes "sv_argon2 sv hash DEMO_PASSWORD" "hash \<noteq> []" "login_dto_ok (sv_isEmail sv) email DEMO_PASSWORD"
    and "newcomer n email s" "new_token sv e s" "r_up (hw_auth w)" "r_data (hw_auth w) (login_key sv email) = None"
    and "world_db w = demo_db n hash email s (refresh_tokens s)"
  obtains login w1 where "app_call sv e path [] (Login email DEMO_PASSWORD) w = (login, w1)" "rs_status login = 200"
    "refreshToken_of login = ce_token e" "accessToken_of login = demo_token sv n (ce_familyId e) e"
    "world_db w1 = demo_db n hash email s (refresh_tokens s @ [first_row sv e n (clock s)])"
    "hw_auth w1 = after_login sv email e (hw_auth w)"
proof -
  obtain login w1 where l: "app_call sv e path [] (Login email DEMO_PASSWORD) w = (login, w1)" by fastforce
  show ?thesis
    by (rule that [OF l])
      (use login_call [of email w "demo_user n hash email s" hash sv DEMO_PASSWORD e path, unfolded l] assms demo_user_found(1) [OF assms(4)]
       in \<open>simp_all add: call_result_def Let_def demo_user_def new_token_def refreshToken_of_def accessToken_of_def new_pair_def
            buildPair_def demo_token_def\<close>)
qed

lemma demo_refresh:
  assumes "newcomer n email s" "new_token sv e0 s" "new_token sv e1 s"
    and "ce_rowId e0 \<noteq> ce_rowId e1" "sv_hmac sv (ce_token e0) \<noteq> sv_hmac sv (ce_token e1)"
    and "world_db w = demo_db n hash email s (refresh_tokens s @ [first_row sv e0 n (clock s)])"
  obtains q w1 where "app_call sv e1 path [] (Refresh (ce_token e0)) w = (q, w1)" "rs_status q = 200"
    "refreshToken_of q = ce_token e1" "accessToken_of q = demo_token sv n (ce_familyId e0) e1"
    "world_db w1 = demo_db n hash email s (refresh_tokens s
       @ [first_used sv n e0 (clock s), next_row sv e1 (first_row sv e0 n (clock s)) (clock s)])"
    "hw_auth w1 = at_time (ce_us e1) (hw_auth w)"
proof -
  let ?row = "first_row sv e0 n (clock s)" and ?u = "demo_user n hash email s"
  obtain q w1 where f: "app_call sv e1 path [] (Refresh (ce_token e0)) w = (q, w1)" by fastforce
  have row: "usable ?row" "clock s < rt_expires_at ?row" "rt_user_id ?row = n" "rt_id ?row = ce_rowId e0"
    "rt_token_hash ?row = sv_hmac sv (ce_token e0)" "rt_family_id ?row = ce_familyId e0"
    by (simp_all add: usable_def first_row_def REFRESH_TTL_SEC_def)
  have "find (\<lambda>r. rt_token_hash r = sv_hmac sv (ce_token e0)) (refresh_tokens s @ [?row]) = Some ?row"
    using hash_found [of ?row "refresh_tokens s" "[]"] assms(2) row(5) by (simp add: new_token_def)
  then have c: "call_result (q, w1) 200 (demo_db n hash email s
      (map (use_row (ce_rowId e0) (clock s)) (refresh_tokens s @ [?row]) @ [next_row sv e1 ?row (clock s)])) (at_time (ce_us e1) (hw_auth w))"
    "rs_body q = Inr (TokenReply (new_pair sv e1 ?u (ce_familyId e0)))"
    using refresh_usable [of "ce_token e0" sv w ?row e1 ?u path, unfolded f] assms row demo_user_found(2) [OF assms(1)]
    by (auto simp: Let_def new_token_def newcomer_def)
  have "use_row (ce_rowId e0) (clock s) ?row = first_used sv n e0 (clock s)"
    "map (use_row (ce_rowId e0) (clock s)) (refresh_tokens s) = refresh_tokens s"
    using use_row_others assms(2) by (simp_all add: use_row_def first_used_def first_row_def new_token_def)
  then show ?thesis
    by (intro that [OF f])
      (use c in \<open>simp_all add: call_result_def refreshToken_of_def accessToken_of_def new_pair_def buildPair_def Let_def
         demo_token_def demo_user_def\<close>)
qed

lemma revoked_row: "rt_family_id r = f \<Longrightarrow> rt_revoked_at (revoke_row f now r) \<noteq> None"
  by (simp add: revoke_row_def)

lemma demo_who_fields [simp]: "ap_userId (demo_who n f e) = n" "ap_jti (demo_who n f e) = ce_jti e" "ap_familyId (demo_who n f e) = f"
  by (simp_all add: demo_who_def)

lemma no_orders_visible:
  assumes "newcomer n email s"
  shows "visible (demo_db n hash email s rs) n = []"
proof -
  have "role_in (demo_db n hash email s rs) n = Some customer"
    using demo_user_found(2) [OF assms, of hash] by (simp add: role_in_def demo_user_def)
  moreover have "o_userId r \<noteq> Some n" if "r \<in> set (orders s)" for r
    using assms that unfolding newcomer_def by (metis imageI)
  ultimately show ?thesis by (auto simp: visible_def filter_empty_conv)
qed

text \<open>The listing, as long as the access token is valid.\<close>

lemma demo_listing:
  assumes "jwt_contract (sv_jwt sv) pub" "verificationKey (sv_keys sv) (Some (ks_kid (sv_keys sv))) = Inr (pub (ks_signingKey (sv_keys sv)))"
    and "newcomer n email s" "one_word (demo_token sv n f e0)" "world_db w = demo_db n hash email s rs"
    and "ce_us e div 1000 div 1000 < ce_us e0 div 1000 div 1000 + 600" "r_up (hw_auth w)"
  shows "call_result (app_call sv e path (demo_token sv n f e0) (ListOrders m None) w)
    (if on_denylist (demo_who n f e0) (at_time (ce_us e) (hw_auth w)) then 401 else 200) (world_db w) (at_time (ce_us e) (hw_auth w))"
proof -
  have n: "0 < n" "int4 n" using assms(3) by (simp_all add: newcomer_def)
  have "verifyAccess (sv_jwt sv) (sv_keys sv) (demo_token sv n f e0) (ce_us e div 1000) = Inr (demo_who n f e0)"
    using demo_token_verified [OF assms(1,2) n(1), of f e0 "ce_us e div 1000"] assms(6) by blast
  from list_call [OF assms(4) this assms(7)] show ?thesis
    using n(2) no_orders_visible [OF assms(3), where hash = hash and rs = rs] assms(5) by simp
qed

lemma second_begins: "(t :: int) div 1000 * 1000 \<le> t"
  using mult_div_mod_eq [of 1000 t] pos_mod_sign [of 1000 t] by linarith

lemma before_second: "(t :: int) div 1000 < b div 1000 + n \<Longrightarrow> t < (b div 1000 + n) * 1000"
proof -
  assume "t div 1000 < b div 1000 + n"
  then have "t div 1000 + 1 \<le> b div 1000 + n" by simp
  then have "(t div 1000 + 1) * 1000 \<le> (b div 1000 + n) * 1000" by simp
  then show ?thesis using mult_div_mod_eq [of 1000 t] pos_mod_bound [of 1000 t] by (simp add: algebra_simps)
qed

text \<open>When one of its two keys lives as long as the token could be used, the token is refused for good.\<close>

lemma demo_listing_denied:
  assumes "jwt_contract (sv_jwt sv) pub" "verificationKey (sv_keys sv) (Some (ks_kid (sv_keys sv))) = Inr (pub (ks_signingKey (sv_keys sv)))"
    and "newcomer n email s" "one_word (demo_token sv n f e0)" "world_db w = demo_db n hash email s rs" "r_up (hw_auth w)"
    and "lives_until (of_int ((ce_us e0 div 1000 div 1000 + 600) * 1000)) k (hw_auth w)" "k = denyJtiKey (ce_jti e0) \<or> k = denyFamilyKey f"
  shows "call_result (app_call sv e path (demo_token sv n f e0) (ListOrders m None) w) 401 (world_db w) (at_time (ce_us e) (hw_auth w))"
proof -
  have "0 < n" using assms(3) by (simp add: newcomer_def)
  note v = demo_token_verified [OF assms(1,2) this, of f e0 "ce_us e div 1000"]
  show ?thesis
  proof (cases "ce_us e div 1000 div 1000 < ce_us e0 div 1000 div 1000 + 600")
    case True
    then have "ce_us e div 1000 < (ce_us e0 div 1000 div 1000 + 600) * 1000" by (rule before_second)
    then have "live (at_time (ce_us e) (hw_auth w)) k \<noteq> None"
      by (intro lives_until_live [OF assms(7)]) (simp only: of_int_less_iff)
    then have "on_denylist (demo_who n f e0) (at_time (ce_us e) (hw_auth w))" using assms(8) by (auto simp: on_denylist_def)
    then show ?thesis using demo_listing [OF assms(1-5) True assms(6), of path m] by simp
  next
    case False
    then show ?thesis using v list_call_refused [OF assms(4)] by blast
  qed
qed

lemma denyFamily_outlives:
  assumes "r_up r" "ce_us e0 \<le> us"
  shows "lives_until (of_int ((ce_us e0 div 1000 div 1000 + 600) * 1000)) (denyFamilyKey f) (snd (denyFamily f (at_time us r)))"
proof -
  have "ce_us e0 div 1000 \<le> us div 1000" by (rule zdiv_mono1 [OF assms(2)]) simp
  then have "(ce_us e0 div 1000 div 1000 + 600) * 1000 \<le> us div 1000 + 600000"
    using second_begins [of "ce_us e0 div 1000"] by (simp add: algebra_simps)
  then show ?thesis
    using denyFamily_lives [of "at_time us r" "of_int ((ce_us e0 div 1000 div 1000 + 600) * 1000)" f] assms(1)
    by (simp only: redis_fields of_int_le_iff)
qed

text \<open>After the family was revoked, its newest refresh token is refused, and none of the user's is alive.\<close>

lemma demo_successor_revoked:
  assumes "new_token sv e1 s" "sv_hmac sv (ce_token e0) \<noteq> sv_hmac sv (ce_token e1)"
    and "rt_family_id r2 = F" "rt_token_hash r1 = sv_hmac sv (ce_token e0)" "rt_token_hash r2 = sv_hmac sv (ce_token e1)"
    and "world_db w = demo_db n hash email s (map (revoke_row F now) (refresh_tokens s @ [r1, r2]))"
  shows "call_result (app_call sv e path [] (Refresh (ce_token e1)) w) 401 (world_db w) (at_time (ce_us e) (hw_auth w))"
proof -
  have "find (\<lambda>r. rt_token_hash r = sv_hmac sv (ce_token e1)) (refresh_tokens (world_db w)) = Some (revoke_row F now r2)"
    using hash_found [of "revoke_row F now r2" "map (revoke_row F now) (refresh_tokens s @ [r1])" "[]"] assms
    by (simp add: new_token_def image_image)
  moreover have "rt_revoked_at (revoke_row F now r2) \<noteq> None" by (rule revoked_row [OF assms(3)])
  ultimately show ?thesis using assms(1) by (intro refresh_revoked) (simp_all add: new_token_def)
qed

lemma no_token_alive:
  assumes "newcomer n email s" "rt_family_id r1 = F" "rt_family_id r2 = F" "rt_user_id r1 = n" "rt_user_id r2 = n"
  shows "alive_tokens n (demo_db n hash email s (map (revoke_row F now) (refresh_tokens s @ [r1, r2]))) = 0"
proof -
  have "rt_user_id r \<noteq> n" if "r \<in> set (refresh_tokens s)" for r
    using assms(1) that unfolding newcomer_def by (metis imageI)
  then show ?thesis using revoked_row [OF assms(2), of now] revoked_row [OF assms(3), of now]
    by (auto simp: alive_tokens_def filter_empty_conv)
qed

text \<open>Logging out with the access token \<open>demo_token sv n F e1\<close>.\<close>

lemma demo_logout:
  assumes "jwt_contract (sv_jwt sv) pub" "verificationKey (sv_keys sv) (Some (ks_kid (sv_keys sv))) = Inr (pub (ks_signingKey (sv_keys sv)))"
    and "newcomer n email s" "one_word (demo_token sv n F e1)" "world_db w = demo_db n hash email s rs" "r_up (hw_auth w)"
    and "ce_us e div 1000 div 1000 < ce_us e1 div 1000 div 1000 + 600"
    and "r_data (hw_auth w) (denyJtiKey (ce_jti e1)) = None" "r_data (hw_auth w) (denyFamilyKey F) = None"
  obtains q w1 where "app_call sv e path (demo_token sv n F e1) Logout w = (q, w1)" "rs_status q = 204"
    "world_db w1 = demo_db n hash email s (map (revoke_row F (clock s)) rs)" "r_up (hw_auth w1)"
    "lives_until (of_int ((ce_us e1 div 1000 div 1000 + 600) * 1000)) (denyJtiKey (ce_jti e1)) (hw_auth w1)"
    "\<forall>k. k \<noteq> denyJtiKey (ce_jti e1) \<longrightarrow> r_data (hw_auth w1) k = r_data (hw_auth w) k"
proof -
  have n: "0 < n" using assms(3) by (simp add: newcomer_def)
  let ?r = "at_time (ce_us e) (hw_auth w)" and ?due = "(ce_us e1 div 1000 div 1000 + 600) * 1000"
  let ?q = "snd (revokeAccess (ce_jti e1) (of_int (ce_us e1 div 1000 div 1000 + 600)) (ce_us e div 1000) ?r)"
  have who: "verifyAccess (sv_jwt sv) (sv_keys sv) (demo_token sv n F e1) (ce_us e div 1000) = Inr (demo_who n F e1)"
    using demo_token_verified [OF assms(1,2) n, of F e1 "ce_us e div 1000"] assms(7) by blast
  have fresh: "\<not> on_denylist (demo_who n F e1) ?r" using assms(8,9) by (simp add: on_denylist_def live_def)
  have c: "call_result (app_call sv e path (demo_token sv n F e1) Logout w) 204
      (demo_db n hash email s (map (revoke_row F (clock s)) rs)) ?q"
    using logout_call [OF assms(4) who assms(6) fresh, of path] assms(5) by (simp add: Let_def demo_who_def)
  have "(of_int (now_ms ?r) :: rat) < of_int ?due" using before_second [OF assms(7)] by (simp only: redis_fields of_int_less_iff)
  then have early: "(of_int (now_ms ?r) :: rat) < of_int (ce_us e1 div 1000 div 1000 + 600) * 1000"
    by (simp only: of_int_mult of_int_numeral)
  have "r_up ?r" using assms(6) by simp
  from revokeAccess_lives(2) [OF this early, of "ce_jti e1"]
  have alive: "lives_until (of_int ?due) (denyJtiKey (ce_jti e1)) ?q" by (simp only: redis_fields of_int_mult of_int_numeral)
  have "r_up ?q = r_up (hw_auth w)"
    by (simp add: revokeAccess_def and_then_def redis_set_ex_def command_def Let_def)
  then show ?thesis
    by (intro that [of "fst (app_call sv e path (demo_token sv n F e1) Logout w)" "snd (app_call sv e path (demo_token sv n F e1) Logout w)"])
      (use c alive assms(6) in \<open>simp_all add: call_result_def revokeAccess_other\<close>)
qed

text \<open>What is not in the script: the logout puts only the token it was called with on the denylist. Another access token of the
  same login, issued before, keeps its access to the protected routes until it expires.\<close>

theorem other_access_outlives_logout:
  assumes "jwt_contract (sv_jwt sv) pub" and "verificationKey (sv_keys sv) (Some (ks_kid (sv_keys sv))) = Inr (pub (ks_signingKey (sv_keys sv)))"
    and "newcomer n email s" and "one_word (demo_token sv n F e0)" and "one_word (demo_token sv n F e1)"
    and "world_db w = demo_db n hash email s rs" and "r_up (hw_auth w)"
    and "\<And>k. r_data (hw_auth w) k = None" and "ce_jti e0 \<noteq> ce_jti e1"
    and "ce_us e div 1000 div 1000 < ce_us e1 div 1000 div 1000 + 600" and "ce_us e' div 1000 div 1000 < ce_us e0 div 1000 div 1000 + 600"
  shows "\<exists>w1. rs_status (fst (app_call sv e ''/auth/logout'' (demo_token sv n F e1) Logout w)) = 204
    \<and> snd (app_call sv e ''/auth/logout'' (demo_token sv n F e1) Logout w) = w1
    \<and> rs_status (fst (app_call sv e' ''/orders'' (demo_token sv n F e0) (ListOrders 20 None) w1)) = 200"
proof -
  obtain q w1 where o: "app_call sv e ''/auth/logout'' (demo_token sv n F e1) Logout w = (q, w1)" "rs_status q = 204"
    "world_db w1 = demo_db n hash email s (map (revoke_row F (clock s)) rs)" "r_up (hw_auth w1)"
    "lives_until (of_int ((ce_us e1 div 1000 div 1000 + 600) * 1000)) (denyJtiKey (ce_jti e1)) (hw_auth w1)"
    "\<forall>k. k \<noteq> denyJtiKey (ce_jti e1) \<longrightarrow> r_data (hw_auth w1) k = r_data (hw_auth w) k"
    by (rule demo_logout [OF assms(1-3,5-7,10) assms(8) assms(8), where path = "''/auth/logout''"])
  have "\<not> on_denylist (demo_who n F e0) (at_time (ce_us e') (hw_auth w1))"
    using o(6) assms(8,9) by (simp add: on_denylist_def live_def)
  then show ?thesis
    using demo_listing [OF assms(1-4) o(3) assms(11) o(4), of "''/orders''" 20] o(1,2) by (simp add: call_result_def)
qed

text \<open>The demonstration of logging in and out passes its own check: with no token the listing is refused, with the token of the
  login it is answered; after the exchange and the logout neither the access token nor the refresh token of
  the exchange is of use, and no refresh token of the user is alive.\<close>

theorem auth_demo_holds:
  assumes "jwt_contract (sv_jwt sv) pub" and "verificationKey (sv_keys sv) (Some (ks_kid (sv_keys sv))) = Inr (pub (ks_signingKey (sv_keys sv)))"
    and "sv_argon2 sv hash DEMO_PASSWORD" and "hash \<noteq> []" and "login_dto_ok (sv_isEmail sv) email DEMO_PASSWORD"
    and "newcomer n email (world_db w)" and "new_token sv (env 0) (world_db w)" and "new_token sv (env 3) (world_db w)"
    and "ce_rowId (env 0) \<noteq> ce_rowId (env 3)" and "sv_hmac sv (ce_token (env 0)) \<noteq> sv_hmac sv (ce_token (env 3))"
    and "one_word (demo_token sv n (ce_familyId (env 0)) (env 0))" and "one_word (demo_token sv n (ce_familyId (env 0)) (env 3))"
    and "r_up (hw_auth w)" and "\<And>k. r_data (hw_auth w) k = None"
    and "ce_us (env 2) div 1000 div 1000 < ce_us (env 0) div 1000 div 1000 + 600"
    and "ce_us (env 4) div 1000 div 1000 < ce_us (env 3) div 1000 div 1000 + 600"
  shows "fst (demo_auth sv hash n env email w) = (Inr (), [])"
proof -
  define s F where "s = world_db w" and "F = ce_familyId (env 0)"
  let ?a = "demo_token sv n F (env 0)" and ?b = "demo_token sv n F (env 3)" and ?ts = "refresh_tokens s"
  let ?r1 = "first_used sv n (env 0) (clock s)" and ?r2 = "next_row sv (env 3) (first_row sv (env 0) n (clock s)) (clock s)"
  note new = assms(6-8) [folded s_def] and words = assms(11,12) [folded F_def]
  have start: "s\<lparr>users := users s @ [demo_user n hash email s]\<rparr> = demo_db n hash email s ?ts" by (simp add: demo_db_def)
  let ?w = "put_db (demo_db n hash email s ?ts) w"
  have pre: "r_up (hw_auth ?w)" "r_data (hw_auth ?w) (login_key sv email) = None" "world_db ?w = demo_db n hash email s ?ts"
    using assms(13,14) by simp_all
  obtain l1 w1 where c1: "app_call sv (env 0) ''/auth/login'' [] (Login email DEMO_PASSWORD) ?w = (l1, w1)" "rs_status l1 = 200"
    "refreshToken_of l1 = ce_token (env 0)" "accessToken_of l1 = ?a"
    and w1: "world_db w1 = demo_db n hash email s (?ts @ [first_row sv (env 0) n (clock s)])"
      "hw_auth w1 = after_login sv email (env 0) (hw_auth w)"
    by (rule demo_login [OF assms(3-5) new(1,2) pre, unfolded put_db_simps, folded F_def])
  have free: "r_data (hw_auth w1) (denyJtiKey j) = None" "r_data (hw_auth w1) (denyFamilyKey f) = None" "r_up (hw_auth w1)" for j f
    using assms(13,14) by (simp_all add: w1(2) data_after_login login_key_apart)
  obtain l2 w2 where c2: "app_call sv (env 1) ''/orders'' [] (ListOrders 20 None) w1 = (l2, w2)" by fastforce
  have w2: "rs_status l2 = 401" "world_db w2 = world_db w1" "hw_auth w2 = at_time (ce_us (env 1)) (hw_auth w1)"
    using list_call_anonymous [of sv "env 1" "''/orders''" 20 w1] c2 by (simp_all add: call_result_def)
  obtain l3 w3 where c3: "app_call sv (env 2) ''/orders'' ?a (ListOrders 20 None) w2 = (l3, w3)" by fastforce
  have w3: "rs_status l3 = 200" "world_db w3 = world_db w1" "hw_auth w3 = at_time (ce_us (env 2)) (hw_auth w2)"
    using demo_listing [OF assms(1,2) new(1) words(1) w2(2) [unfolded w1(1)] assms(15), of "''/orders''" 20, unfolded c3] free w2
    by (simp_all add: call_result_def on_denylist_def live_def)
  obtain l4 w4 where c4: "app_call sv (env 3) ''/auth/refresh'' [] (Refresh (ce_token (env 0))) w3 = (l4, w4)" "rs_status l4 = 200"
    "refreshToken_of l4 = ce_token (env 3)" "accessToken_of l4 = ?b"
    and w4: "world_db w4 = demo_db n hash email s (?ts @ [?r1, ?r2])" "hw_auth w4 = at_time (ce_us (env 3)) (hw_auth w3)"
    by (rule demo_refresh [OF new assms(9,10) w3(2) [unfolded w1(1)], folded F_def])
  have free4: "r_data (hw_auth w4) (denyJtiKey j) = None" "r_data (hw_auth w4) (denyFamilyKey f) = None" "r_up (hw_auth w4)" for j f
    using free by (simp_all add: w4(2) w3(3) w2(3))
  obtain l5 w5 where c5: "app_call sv (env 4) ''/auth/logout'' ?b Logout w4 = (l5, w5)" "rs_status l5 = 204"
    and w5: "world_db w5 = demo_db n hash email s (map (revoke_row F (clock s)) (?ts @ [?r1, ?r2]))" "r_up (hw_auth w5)"
      "lives_until (of_int ((ce_us (env 3) div 1000 div 1000 + 600) * 1000)) (denyJtiKey (ce_jti (env 3))) (hw_auth w5)"
      "\<forall>k. k \<noteq> denyJtiKey (ce_jti (env 3)) \<longrightarrow> r_data (hw_auth w5) k = r_data (hw_auth w4) k"
    by (rule demo_logout [OF assms(1,2) new(1) words(2) w4(1) free4(3) assms(16) free4(1,2), where path = "''/auth/logout''"])
  obtain l6 w6 where c6: "app_call sv (env 5) ''/orders'' ?b (ListOrders 20 None) w5 = (l6, w6)" by fastforce
  have w6: "rs_status l6 = 401" "world_db w6 = world_db w5"
    using demo_listing_denied [OF assms(1,2) new(1) words(2) w5(1,2,3), of "env 5" "''/orders''" 20, unfolded c6]
    by (simp_all add: call_result_def)
  obtain l7 w7 where c7: "app_call sv (env 6) ''/auth/refresh'' [] (Refresh (ce_token (env 3))) w6 = (l7, w7)" by fastforce
  have fam: "rt_family_id ?r1 = F" "rt_family_id ?r2 = F" "rt_token_hash ?r1 = sv_hmac sv (ce_token (env 0))"
    "rt_token_hash ?r2 = sv_hmac sv (ce_token (env 3))" "rt_user_id ?r1 = n" "rt_user_id ?r2 = n"
    by (simp_all add: first_used_def first_row_def next_row_def F_def)
  have w7: "rs_status l7 = 401" "world_db w7 = world_db w6"
    using demo_successor_revoked [OF new(3) assms(10) fam(2-4) w6(2) [unfolded w5(1)], of "env 6" "''/auth/refresh''", unfolded c7]
    by (simp_all add: call_result_def)
  have "alive_tokens n (world_db w7) = 0" using no_token_alive [OF new(1) fam(1,2,5,6)] w7(2) w6(2) w5(1) by simp
  then show ?thesis
    using c1 c2 c3 c4 c5 c6 c7 w2(1) w3(1) w6(1) w7(1) demo_user_created [OF new(1), of hash] start
    by (simp add: demo_auth_def with_cleanup_users demo_user_def s_def [symmetric])
qed

text \<open>C18: a stolen refresh token buys nothing. Somebody logs in and exchanges the first refresh token; when the first
  token is presented again, both it and its successor are refused, no token of the family is left alive, and
  the access token that still worked before is refused as well. Every expectation of the script holds and its data
  are gone, for every server whose library signs one-word tokens as documented and every state in which the user,
  the random values and their keys in Redis are new.\<close>

theorem reuse_demo_holds:
  assumes "jwt_contract (sv_jwt sv) pub" and "verificationKey (sv_keys sv) (Some (ks_kid (sv_keys sv))) = Inr (pub (ks_signingKey (sv_keys sv)))"
    and "sv_argon2 sv hash DEMO_PASSWORD" and "hash \<noteq> []" and "login_dto_ok (sv_isEmail sv) email DEMO_PASSWORD"
    and "newcomer n email (world_db w)" and "new_token sv (env 0) (world_db w)" and "new_token sv (env 1) (world_db w)"
    and "ce_rowId (env 0) \<noteq> ce_rowId (env 1)" and "sv_hmac sv (ce_token (env 0)) \<noteq> sv_hmac sv (ce_token (env 1))"
    and "ce_familyId (env 0) \<noteq> []" and "one_word (demo_token sv n (ce_familyId (env 0)) (env 1))"
    and "r_up (hw_auth w)" and "r_data (hw_auth w) (login_key sv email) = None"
    and "r_data (hw_auth w) (denyJtiKey (ce_jti (env 1))) = None" and "r_data (hw_auth w) (denyFamilyKey (ce_familyId (env 0))) = None"
    and "ce_us (env 2) div 1000 div 1000 < ce_us (env 1) div 1000 div 1000 + 600" and "ce_us (env 1) \<le> ce_us (env 3)"
  shows "fst (demo_reuse sv hash n env email w) = (Inr (), [])"
proof -
  define s F where "s = world_db w" and "F = ce_familyId (env 0)"
  let ?a = "demo_token sv n F (env 1)" and ?ts = "refresh_tokens s"
  let ?r1 = "first_used sv n (env 0) (clock s)" and ?r2 = "next_row sv (env 1) (first_row sv (env 0) n (clock s)) (clock s)"
  note new = assms(6-8) [folded s_def]
  have start: "s\<lparr>users := users s @ [demo_user n hash email s]\<rparr> = demo_db n hash email s ?ts" by (simp add: demo_db_def)
  let ?w = "put_db (demo_db n hash email s ?ts) w"
  have pre: "r_up (hw_auth ?w)" "r_data (hw_auth ?w) (login_key sv email) = None" "world_db ?w = demo_db n hash email s ?ts"
    using assms(13,14) by simp_all
  obtain l1 w1 where c1: "app_call sv (env 0) ''/auth/login'' [] (Login email DEMO_PASSWORD) ?w = (l1, w1)" "rs_status l1 = 200"
    "refreshToken_of l1 = ce_token (env 0)" and w1: "world_db w1 = demo_db n hash email s (?ts @ [first_row sv (env 0) n (clock s)])"
      "hw_auth w1 = after_login sv email (env 0) (hw_auth w)"
    by (rule demo_login [OF assms(3-5) new(1,2) pre, unfolded put_db_simps])
  obtain l2 w2 where c2: "app_call sv (env 1) ''/auth/refresh'' [] (Refresh (ce_token (env 0))) w1 = (l2, w2)" "rs_status l2 = 200"
    "refreshToken_of l2 = ce_token (env 1)" "accessToken_of l2 = ?a"
    and w2: "world_db w2 = demo_db n hash email s (?ts @ [?r1, ?r2])" "hw_auth w2 = at_time (ce_us (env 1)) (hw_auth w1)"
    by (rule demo_refresh [OF new assms(9,10) w1(1), folded F_def])
  obtain l3 w3 where c3: "app_call sv (env 2) ''/orders'' ?a (ListOrders 20 None) w2 = (l3, w3)" by fastforce
  obtain l4 w4 where c4: "app_call sv (env 3) ''/auth/refresh'' [] (Refresh (ce_token (env 0))) w3 = (l4, w4)" by fastforce
  obtain l5 w5 where c5: "app_call sv (env 4) ''/auth/refresh'' [] (Refresh (ce_token (env 1))) w4 = (l5, w5)" by fastforce
  obtain l6 w6 where c6: "app_call sv (env 5) ''/orders'' ?a (ListOrders 20 None) w5 = (l6, w6)" by fastforce
  have up: "r_up (hw_auth w2)" using assms(13) by (simp add: w2(2) w1(2) data_after_login)
  have free: "\<not> on_denylist (demo_who n F (env 1)) (at_time (ce_us (env 2)) (hw_auth w2))"
    using assms(15,16) by (simp add: on_denylist_def live_def w2(2) w1(2) data_after_login login_key_apart F_def)
  have w3: "rs_status l3 = 200" "world_db w3 = world_db w2" "hw_auth w3 = at_time (ce_us (env 2)) (hw_auth w2)"
    using demo_listing [OF assms(1,2) new(1) assms(12) [folded F_def] w2(1) assms(17) up, of "''/orders''" 20, unfolded c3] free
    by (simp_all add: call_result_def)
  have fam: "rt_family_id ?r1 = F" "rt_family_id ?r2 = F" "rt_token_hash ?r1 = sv_hmac sv (ce_token (env 0))"
    "rt_token_hash ?r2 = sv_hmac sv (ce_token (env 1))" "rt_used_at ?r1 \<noteq> None" "rt_revoked_at ?r1 = None" "rt_user_id ?r1 = n" "rt_user_id ?r2 = n"
    by (simp_all add: first_used_def first_row_def next_row_def F_def)
  let ?rs = "map (revoke_row F (clock s)) (?ts @ [?r1, ?r2])"
  have w4: "rs_status l4 = 401" "world_db w4 = demo_db n hash email s ?rs"
    "hw_auth w4 = snd (denyFamily F (at_time (ce_us (env 3)) (hw_auth w3)))"
    using refresh_reused [of "ce_token (env 0)" sv w3 ?r1 "env 3" "''/auth/refresh''", unfolded c4]
      hash_found [of ?r1 ?ts "[?r2]"] new(2) assms(11) [folded F_def] fam w3(2) w2(1)
    by (simp_all add: call_result_def new_token_def Let_def)
  have w5: "rs_status l5 = 401" "world_db w5 = demo_db n hash email s ?rs" "hw_auth w5 = at_time (ce_us (env 4)) (hw_auth w4)"
    using demo_successor_revoked [OF new(3) assms(10) fam(2-4) w4(2), of "env 4" "''/auth/refresh''", unfolded c5] w4(2)
    by (simp_all add: call_result_def)
  have up5: "r_up (hw_auth w5)" using up by (simp add: w5(3) w4(3) w3(3) denyFamily_def redis_set_ex_def command_def)
  have "lives_until (of_int ((ce_us (env 1) div 1000 div 1000 + 600) * 1000)) (denyFamilyKey F) (hw_auth w5)"
    using denyFamily_outlives [of "hw_auth w3" "env 1" "ce_us (env 3)" F] up w3(3) assms(18) by (simp add: w5(3) w4(3))
  then have w6: "rs_status l6 = 401" "world_db w6 = demo_db n hash email s ?rs"
    using demo_listing_denied [OF assms(1,2) new(1) assms(12) [folded F_def] w5(2) up5, of "denyFamilyKey F" "env 5" "''/orders''" 20, unfolded c6]
      w5(2) by (simp_all add: call_result_def)
  have "alive_tokens n (world_db w6) = 0" using no_token_alive [OF new(1) fam(1,2,7,8)] w6(2) by simp
  then show ?thesis
    using c1 c2 c3 c4 c5 c6 w3(1) w4(1) w5(1) w6(1) demo_user_created [OF new(1), of hash] start
    by (simp add: demo_reuse_def with_cleanup_users demo_user_def s_def [symmetric])
qed

definition demo_env :: "nat \<Rightarrow> call_env" where
  "demo_env k =
     \<lparr>ce_us = 1500000, ce_member = ''m'', ce_uuid = ''u'', ce_rowId = (if k = 0 then ''r1'' else ''r2''),
      ce_token = sample_token (if k = 0 then CHR ''x'' else CHR ''y''), ce_familyId = ''f'', ce_jti = (if k = 0 then ''i'' else ''j'')\<rparr>"

lemma demo_env_fields: "ce_us (demo_env k) = 1500000" "ce_jti (demo_env k) = (if k = 0 then ''i'' else ''j'')"
  by (simp_all add: demo_env_def)

lemma demo_word: "one_word (demo_token plain_server 77 ''f'' (demo_env k))"
proof -
  have shown: "demo_token plain_server 77 ''f'' (demo_env k)
      = json_text (plain_token SIGNING_ALG ''k1'' (access_claims 77 customer ''f'' (if k = 0 then ''i'' else ''j'') 1500) ''key'')"
    by (simp add: demo_token_def signAccess_def plain_server_def plain_jwt_def plain_keys_def demo_env_def)
  have "one_word (json_text (plain_token SIGNING_ALG ''k1'' (access_claims 77 customer ''f'' ''i'' 1500) ''key''))"
    "one_word (json_text (plain_token SIGNING_ALG ''k1'' (access_claims 77 customer ''f'' ''j'' 1500) ''key''))"
    unfolding one_word_def by code_simp+
  then show ?thesis unfolding shown by simp
qed

lemma plain_fields:
  "sv_jwt plain_server = plain_jwt" "sv_keys plain_server = plain_keys" "sv_argon2 plain_server = (=)"
  "sv_hmac plain_server = id" "sv_isEmail plain_server = (\<lambda>_. True)" "hw_auth sample_http = sample_redis_up"
  by (simp_all add: plain_server_def sample_http_def)

lemma demo_facts:
  "verificationKey plain_keys (Some (ks_kid plain_keys)) = Inr (''pub '' @ ks_signingKey plain_keys)"
  "newcomer 77 ''demo-1@example.com'' (world_db sample_http)" "refresh_tokens (world_db sample_http) = []"
  "TOKEN_PATTERN (sample_token CHR ''x'')" "TOKEN_PATTERN (sample_token CHR ''y'')"
  "sample_token CHR ''x'' \<noteq> sample_token CHR ''y''"
  "login_dto_ok (\<lambda>_. True) ''demo-1@example.com'' DEMO_PASSWORD" "DEMO_PASSWORD \<noteq> []"
  unfolding newcomer_def int4_def sample_http_def by code_simp+

theorem reuse_demo_holds_witness:
  "fst (demo_reuse plain_server DEMO_PASSWORD 77 demo_env ''demo-1@example.com'' sample_http) = (Inr (), [])"
  by (rule reuse_demo_holds [where pub = "\<lambda>key. ''pub '' @ key"])
    (use plain_fields demo_facts plain_contract demo_word [of 1] in
      \<open>simp_all add: new_token_def demo_env_def sample_redis_up_def\<close>)

theorem auth_demo_holds_witness:
  "fst (demo_auth plain_server DEMO_PASSWORD 77 demo_env ''demo-1@example.com'' sample_http) = (Inr (), [])"
  by (rule auth_demo_holds [where pub = "\<lambda>key. ''pub '' @ key"])
    (use plain_fields demo_facts plain_contract demo_word [of 0] demo_word [of 3] in
      \<open>simp_all add: new_token_def demo_env_def sample_redis_up_def\<close>)

theorem other_access_outlives_logout_witness:
  "\<exists>w1. rs_status (fst (app_call plain_server (demo_env 1) ''/orders'' (demo_token plain_server 77 ''f'' (demo_env 0)) (ListOrders 20 None)
      (snd (app_call plain_server (demo_env 1) ''/auth/logout'' (demo_token plain_server 77 ''f'' (demo_env 1)) Logout w1)))) = 200
    \<and> rs_status (fst (app_call plain_server (demo_env 1) ''/auth/logout'' (demo_token plain_server 77 ''f'' (demo_env 1)) Logout w1)) = 204"
  using other_access_outlives_logout [of plain_server "\<lambda>key. ''pub '' @ key" 77 "''demo-1@example.com''" "world_db sample_http" "''f''"
      "demo_env 0" "demo_env 1" "put_db (demo_db 77 DEMO_PASSWORD ''demo-1@example.com'' (world_db sample_http) []) sample_http"
      DEMO_PASSWORD "[]" "demo_env 1" "demo_env 1"] plain_fields demo_facts plain_contract
    demo_word [of 0] demo_word [of 1] demo_env_fields
  by (auto simp: sample_redis_up_def)

end
