(* ===== verification/RbacDemo.thy ===== *)
theory RbacDemo
  imports AuthDemos Sessions
begin

text \<open>
  The demonstration of the roles, \<open>src/demo-rbac.ts\<close>, and the rest of \<open>src/lib/auth-demo-kit.ts\<close>: two customers and
  a seller log in, the customers order, and then each of them tries what he may and what he may not, up to a
  token whose payload was changed to say that its owner is an administrator.
\<close>

subsection \<open>A changed payload\<close>

definition runTag :: "string \<Rightarrow> string \<Rightarrow> string" where
  "runTag demo hex = ''demo-'' @ demo @ ''-'' @ hex"

text \<open>The own properties of a value, and \<open>{...claims, role: 'admin'}\<close>: a property that is there keeps its place.\<close>

fun own_properties :: "json \<Rightarrow> (string \<times> json) list" where
  "own_properties (JObject ms) = ms"
| "own_properties (JArray vs) = zip (map (show_int \<circ> int) [0..<length vs]) vs"
| "own_properties (JString t) = zip (map (show_int \<circ> int) [0..<length t]) (map (\<lambda>c. JString [c]) t)"
| "own_properties _ = []"

definition with_property :: "string \<Rightarrow> json \<Rightarrow> (string \<times> json) list \<Rightarrow> (string \<times> json) list" where
  "with_property k v ms =
     (if k \<in> fst ` set ms then map (\<lambda>(i, x). (i, if i = k then v else x)) ms else ms @ [(k, v)])"

definition as_admin :: "json \<Rightarrow> json" where
  "as_admin claims = JObject (with_property ''role'' (JString ''admin'') (own_properties claims))"

text \<open>A part that is missing is \<open>undefined\<close>: as a payload it cannot be decoded, as a signature it is printed.\<close>

definition forgeAdminToken :: "string \<Rightarrow> error + string" where
  "forgeAdminToken accessToken =
     (case split_on (CHR ''.'') accessToken of
        header # payload # rest \<Rightarrow>
          (case json_parse (unbase64url payload) of
             None \<Rightarrow> Inl (PlainError ''SyntaxError'')
           | Some claims \<Rightarrow>
               (let forged = base64url (json_text (as_admin claims));
                    signature = (case rest of [] \<Rightarrow> ''undefined'' | t # _ \<Rightarrow> t)
                in Inr (header @ ''.'' @ forged @ ''.'' @ signature)))
      | _ \<Rightarrow> Inl (TypeError ''payload''))"

text \<open>
  The compact serialisation of a token, as the library writes it: the header, the payload and the
  signature, each in the alphabet of base64url, the signature over the text of the other two.
\<close>

definition signing_input :: "(string \<Rightarrow> string \<Rightarrow> string) \<Rightarrow> string \<Rightarrow> string \<Rightarrow> json \<Rightarrow> string" where
  "signing_input hdr alg kid claims = base64url (hdr alg kid) @ ''.'' @ base64url (json_text claims)"

definition compact :: "('k, 'p) jwt_lib \<Rightarrow> (string \<Rightarrow> string \<Rightarrow> string) \<Rightarrow> ('k \<Rightarrow> string \<Rightarrow> string) \<Rightarrow> bool" where
  "compact lib hdr sg \<longleftrightarrow>
     (\<forall>alg kid claims key. jwt_sign lib alg kid claims key
        = signing_input hdr alg kid claims @ ''.'' @ sg key (signing_input hdr alg kid claims))
     \<and> (\<forall>key x. list_all is_base64url_char (sg key x))"

text \<open>No other text has the signature of this one, whatever the key.\<close>

definition unforged :: "('k \<Rightarrow> string \<Rightarrow> string) \<Rightarrow> 'k \<Rightarrow> string \<Rightarrow> bool" where
  "unforged sg key x \<longleftrightarrow> (\<forall>key' y. sg key' y = sg key x \<longrightarrow> y = x)"

lemma base64url_chars: "list_all is_base64url_char (base64url s)"
proof -
  have "is_base64url_char (b64_char n)" if "n < 64" for n
    using that by (auto simp: is_base64url_char_def b64_char_def Let_def)
  moreover have "\<forall>b \<in> set (map of_char s). b < (256::nat)" by (simp add: of_char_def)
  from to_sextets_bound [OF this] have "\<forall>x \<in> set (to_sextets (map of_char s)). x < 64" .
  ultimately show ?thesis by (auto simp: base64url_def list_all_iff)
qed

lemma base64url_inj: "base64url s = base64url t \<longleftrightarrow> s = t"
  by (metis unbase64url_base64url)

lemma base64url_word:
  assumes "list_all is_base64url_char s" shows "CHR ''.'' \<notin> set s" "list_all (\<lambda>c. \<not> is_space c) s"
proof -
  have "\<not> is_base64url_char CHR ''.''" by code_simp
  then show "CHR ''.'' \<notin> set s" using assms by (auto simp: list_all_iff)
  show "list_all (\<lambda>c. \<not> is_space c) s" using assms
    by (rule list.pred_mono_strong) (auto simp: is_space_def is_base64url_char_def Let_def)
qed

lemma split_compact:
  assumes "list_all is_base64url_char a" "list_all is_base64url_char b" "list_all is_base64url_char c"
  shows "split_on (CHR ''.'') ((a @ ''.'' @ b) @ ''.'' @ c) = [a, b, c]"
  using assms [THEN base64url_word(1)] split_on_join [of "CHR ''.''" a] split_on_join [of "CHR ''.''" b]
    split_on_no_sep [of "CHR ''.''" c] by simp

lemma compact_parts:
  assumes "compact lib hdr sg"
  shows "split_on (CHR ''.'') (jwt_sign lib alg kid claims key)
      = [base64url (hdr alg kid), base64url (json_text claims), sg key (signing_input hdr alg kid claims)]"
    and "one_word (jwt_sign lib alg kid claims key)"
proof -
  let ?x = "signing_input hdr alg kid claims"
  have t: "jwt_sign lib alg kid claims key = ?x @ ''.'' @ sg key ?x" and c: "list_all is_base64url_char (sg key ?x)"
    using assms by (simp_all add: compact_def)
  show "split_on (CHR ''.'') (jwt_sign lib alg kid claims key)
      = [base64url (hdr alg kid), base64url (json_text claims), sg key ?x]"
    using split_compact [OF base64url_chars base64url_chars c] unfolding t signing_input_def by simp
  have "\<not> is_space CHR ''.''" by code_simp
  then show "one_word (jwt_sign lib alg kid claims key)"
    using base64url_word(2) [OF c] base64url_chars [THEN base64url_word(2)]
    by (simp add: t one_word_def signing_input_def)
qed

text \<open>Changing the role makes another text, and no key has signed it.\<close>

lemma as_admin_claims: "as_admin (access_claims n r f j t) = access_claims n admin f j t"
  by (simp add: as_admin_def access_claims_def with_property_def)

lemma claims_role_inj: "access_claims n r f j t = access_claims n r' f j t \<longleftrightarrow> r = r'"
proof
  assume "access_claims n r f j t = access_claims n r' f j t"
  then have "field_of ''role'' (access_claims n r f j t) = field_of ''role'' (access_claims n r' f j t)" by simp
  then have "role_text r = role_text r'" by simp
  then show "r = r'" by (metis role_of_text_text option.inject)
qed simp

lemma forged_refused:
  assumes "jwt_contract lib pub" "compact lib hdr sg" "r \<noteq> admin"
    and "unforged sg key (signing_input hdr alg kid (access_claims n r f j t))"
  obtains forged where "forgeAdminToken (jwt_sign lib alg kid (access_claims n r f j t) key) = Inr forged" "one_word forged"
    "\<And>keys now. \<exists>err. verifyAccess lib keys forged now = Inl err"
proof -
  let ?c = "access_claims n r f j t" and ?a = "access_claims n admin f j t"
  let ?h = "base64url (hdr alg kid)" and ?s = "sg key (signing_input hdr alg kid ?c)"
  define forged where "forged = (?h @ ''.'' @ base64url (json_text ?a)) @ ''.'' @ ?s"
  have sig: "list_all is_base64url_char ?s" using assms(2) by (simp add: compact_def)
  note parts = split_compact [OF base64url_chars base64url_chars sig, of "hdr alg kid" "json_text ?a", folded forged_def]
  have made: "forgeAdminToken (jwt_sign lib alg kid ?c key) = Inr forged"
    by (simp add: forgeAdminToken_def compact_parts(1) [OF assms(2)] json_parse_text as_admin_claims forged_def Let_def)
  have "\<not> is_space CHR ''.''" by code_simp
  then have word: "one_word forged"
    using base64url_word(2) [OF sig] base64url_chars [THEN base64url_word(2)] by (simp add: forged_def one_word_def)
  have "False" if v: "verifyAccess lib keys forged now = Inr who" for keys now who
  proof -
    obtain p payload where "jwt_verify lib forged p [SIGNING_ALG] JWT_ISSUER JWT_AUDIENCE (now div 1000) = Some payload"
      using v by (auto simp: verifyAccess_def split: sum.splits option.splits)
    then obtain kid' key' where signed: "forged = jwt_sign lib SIGNING_ALG kid' payload key'"
      using assms(1) unfolding jwt_contract_def by blast
    then have eq: "[?h, base64url (json_text ?a), ?s] = [base64url (hdr SIGNING_ALG kid'), base64url (json_text payload),
        sg key' (signing_input hdr SIGNING_ALG kid' payload)]"
      using parts compact_parts(1) [OF assms(2)] by metis
    then have "signing_input hdr SIGNING_ALG kid' payload = signing_input hdr alg kid ?c"
      using assms(4) unfolding unforged_def by auto
    then have "base64url (json_text ?a) = base64url (json_text ?c)" using eq by (simp add: signing_input_def)
    then have "?a = ?c" by (intro json_text_inj) (simp_all add: base64url_inj)
    then show False using assms(3) claims_role_inj by metis
  qed
  then have "\<exists>err. verifyAccess lib keys forged now = Inl err" for keys now
    by (cases "verifyAccess lib keys forged now") auto
  then show ?thesis using that made word by blast
qed

subsection \<open>The script\<close>

definition loginToken :: "('k, 'p) server \<Rightarrow> call_env \<Rightarrow> string \<Rightarrow> http_world \<Rightarrow> string \<times> http_world" where
  "loginToken sv e email w =
     (let (login, w') = app_call sv e ''/auth/login'' [] (Login email DEMO_PASSWORD) w in (accessToken_of login, w'))"

definition order_body :: "string \<Rightarrow> int \<Rightarrow> json" where
  "order_body customerEmail productId =
     JObject [(''customerEmail'', JString customerEmail),
              (''items'', JArray [JObject [(''productId'', JString (show_int productId)), (''quantity'', json_int 1)]])]"

text \<open>\<open>String(placed.body?.id ?? '')\<close>: a problem document has no \<open>id\<close>.\<close>

definition orderId_of :: "response \<Rightarrow> string" where
  "orderId_of q = (case rs_body q of Inr (OrderReply o') \<Rightarrow> or_id o' | _ \<Rightarrow> [])"

definition placeOrder ::
  "('k, 'p) server \<Rightarrow> call_env \<Rightarrow> string \<Rightarrow> int \<Rightarrow> string \<Rightarrow> http_world \<Rightarrow> string \<times> http_world" where
  "placeOrder sv e token productId key w =
     (let (placed, w') = app_call sv e ''/orders'' token (CreateOrder (order_body ''demo@example.com'' productId) (Some key)) w
      in (orderId_of placed, w'))"

text \<open>Without an identifier the path is that of the listing.\<close>

definition getOrder :: "('k, 'p) server \<Rightarrow> call_env \<Rightarrow> string \<Rightarrow> string \<Rightarrow> http_world \<Rightarrow> response \<times> http_world" where
  "getOrder sv e token orderId w =
     app_call sv e (''/orders/'' @ orderId) token (if orderId = [] then ListOrders 20 None else GetOrder orderId) w"

definition new_product :: "string \<Rightarrow> create_product_dto" where
  "new_product name = \<lparr>dto_name = name, dto_priceCents = 5000, dto_stock = 5, dto_currency = None\<rparr>"

definition rbac_calls ::
  "('k, 'p) server \<Rightarrow> (nat \<Rightarrow> call_env) \<Rightarrow> string \<Rightarrow> string \<Rightarrow> string \<Rightarrow> string \<Rightarrow> string \<Rightarrow> product \<Rightarrow> http_world
     \<Rightarrow> ((error + unit) \<times> string list) \<times> http_world"
where
  "rbac_calls sv env tag alice bob seller' sellerProduct product w =
     (let (aliceToken, w) = loginToken sv (env 0) alice w;
          (bobToken, w) = loginToken sv (env 1) bob w;
          (sellerToken, w) = loginToken sv (env 2) seller' w;
          (aliceOrder, w) = placeOrder sv (env 3) aliceToken (p_id product) (tag @ ''-alice'') w;
          (bobOrder, w) = placeOrder sv (env 4) bobToken (p_id product) (tag @ ''-bob'') w;
          (anon, w) = getOrder sv (env 5) [] aliceOrder w;
          (own, w) = getOrder sv (env 6) aliceToken aliceOrder w;
          (foreign, w) = getOrder sv (env 7) aliceToken bobOrder w;
          (roleDenied, w) = app_call sv (env 8) ''/products'' aliceToken (CreateProduct (new_product sellerProduct)) w;
          (roleAllowed, w) = app_call sv (env 9) ''/products'' sellerToken (CreateProduct (new_product sellerProduct)) w
      in (case forgeAdminToken aliceToken of
            Inl e \<Rightarrow> ((Inl e, []), w)
          | Inr forged \<Rightarrow>
            (let (tampered, w) = getOrder sv (env 10) forged bobOrder w;
                 failures = expectEq [] ''order of Alice'' (aliceOrder \<noteq> []) True;
                 failures = expectEq failures ''order of Bob'' (bobOrder \<noteq> []) True;
                 failures = expectEq failures ''anon'' (rs_status anon) 401;
                 failures = expectEq failures ''own'' (rs_status own) 200;
                 failures = expectEq failures ''foreign'' (rs_status foreign) 404;
                 failures = expectEq failures ''role-denied'' (rs_status roleDenied) 403;
                 failures = expectEq failures ''role-allowed'' (rs_status roleAllowed \<in> {200, 201}) True;
                 failures = expectEq failures ''tampered'' (rs_status tampered) 401
             in ((Inr (), failures), w))))"

definition rbac_start :: "(nat \<Rightarrow> string) \<Rightarrow> (nat \<Rightarrow> int) \<Rightarrow> string \<Rightarrow> string \<Rightarrow> string \<Rightarrow> string \<Rightarrow> product db_action" where
  "rbac_start hash newId alice bob seller' demoProduct =
     and_then (createDemoUser (newId 0) (hash 0) alice customer) (\<lambda>_.
     and_then (createDemoUser (newId 1) (hash 1) bob customer) (\<lambda>_.
     and_then (createDemoUser (newId 2) (hash 2) seller' seller) (\<lambda>_.
       insert_product demoProduct 1000 10 ''UAH'')))"

definition rbac_email :: "string \<Rightarrow> nat \<Rightarrow> string" where
  "rbac_email tag i = tag @ ''-'' @ [''alice'', ''bob'', ''seller''] ! i @ ''@example.com''"

definition demo_rbac ::
  "('k, 'p) server \<Rightarrow> (nat \<Rightarrow> string) \<Rightarrow> (nat \<Rightarrow> int) \<Rightarrow> (nat \<Rightarrow> call_env) \<Rightarrow> string \<Rightarrow> http_world
     \<Rightarrow> ((error + unit) \<times> string list) \<times> http_world"
where
  "demo_rbac sv hash newId env hex w =
     (let tag = runTag ''rbac'' hex;
          alice = rbac_email tag 0; bob = rbac_email tag 1; seller' = rbac_email tag 2;
          demoProduct = tag @ ''-product''; sellerProduct = tag @ ''-seller-product''
      in with_cleanup [alice, bob, seller'] [demoProduct, sellerProduct]
           (case rbac_start hash newId alice bob seller' demoProduct (world_db w) of
              (Inl e, d) \<Rightarrow> ((Inl e, []), put_db d w)
            | (Inr product, d) \<Rightarrow> rbac_calls sv env tag alice bob seller' sellerProduct product (put_db d w)))"

subsection \<open>Calls with a token\<close>

definition no_cards :: "http_world \<Rightarrow> bool" where
  "no_cards w \<longleftrightarrow> sh_cache (mk_shop (hw_market w)) = None"

text \<open>A token lets its owner in.\<close>

definition lets_in :: "('k, 'p) server \<Rightarrow> call_env \<Rightarrow> string \<Rightarrow> access_principal \<Rightarrow> http_world \<Rightarrow> bool" where
  "lets_in sv e token who w \<longleftrightarrow> one_word token \<and> verifyAccess (sv_jwt sv) (sv_keys sv) token (ce_us e div 1000) = Inr who
     \<and> r_up (hw_auth w) \<and> \<not> on_denylist who (at_time (ce_us e) (hw_auth w)) \<and> int4 (ap_userId who)"

definition entered :: "call_env \<Rightarrow> http_world \<Rightarrow> http_world" where
  "entered e w = w\<lparr>hw_auth := at_time (ce_us e) (hw_auth w), hw_headers := []\<rparr>"

definition answered :: "string \<Rightarrow> api_call \<Rightarrow> (error + reply) \<times> http_world \<Rightarrow> response \<times> http_world" where
  "answered path c = (\<lambda>(r, w').
     (case r of
        Inl err \<Rightarrow> \<lparr>rs_status = exception_status err, rs_headers = hw_headers w', rs_body = Inl (problem err path)\<rparr>
      | Inr reply \<Rightarrow> \<lparr>rs_status = success_status c, rs_headers = hw_headers w', rs_body = Inr reply\<rparr>, w'))"

lemma entered_simps [simp]:
  "world_db (entered e w) = world_db w" "hw_auth (entered e w) = at_time (ce_us e) (hw_auth w)" "hw_market (entered e w) = hw_market w"
  by (simp_all add: entered_def)

lemma call_let_in:
  assumes "lets_in sv e token who w" "\<not> rt_public (route_of c)" "rt_http (route_of c)"
  shows "app_call sv e path token c w = answered path c
    (and_then (in_tables (roles_guard (route_of c) (Some who))) (\<lambda>_.
     and_then (route_guard (demo_call e path token c) c) (\<lambda>_. handle sv (demo_call e path token c) (Some who) c)) (entered e w))"
  using assms bearer_word [of token]
  by (simp add: app_call_def respond_def pipeline_def authenticated_def auth_guard_def isDenied_run lets_in_def on_denylist_def
      one_word_def and_then_def answered_def entered_def Let_def split: prod.split sum.split)

text \<open>A call that reads: the shop is as before.\<close>

definition only_read :: "response \<times> http_world \<Rightarrow> int \<Rightarrow> call_env \<Rightarrow> http_world \<Rightarrow> bool" where
  "only_read x status e w \<longleftrightarrow> rs_status (fst x) = status \<and> hw_market (snd x) = hw_market w
     \<and> hw_auth (snd x) = at_time (ce_us e) (hw_auth w)"

lemma call_kept_out:
  assumes "one_word token" "\<exists>err. verifyAccess (sv_jwt sv) (sv_keys sv) token (ce_us e div 1000) = Inl err"
    "\<not> rt_public (route_of c)" "rt_http (route_of c)"
  shows "only_read (app_call sv e path token c w) 401 e w"
  using assms bearer_word [of token]
  by (auto simp: only_read_def app_call_def respond_def pipeline_def authenticated_def auth_guard_def unauthorized_def
      one_word_def and_then_def Let_def)

lemma call_without_token:
  assumes "\<not> rt_public (route_of c)" "rt_http (route_of c)"
  shows "only_read (app_call sv e path [] c w) 401 e w"
  using assms
  by (simp add: only_read_def app_call_def respond_def pipeline_def authenticated_def auth_guard_def bearer_token_def unauthorized_def
      and_then_def Let_def)

lemma get_call:
  assumes "lets_in sv e token who w" "db_wf (world_db w)" "int4 n"
  shows "only_read (app_call sv e path token (GetOrder (show_int n)) w)
    (if n \<in> o_id ` set (visible (world_db w) (ap_userId who)) then 200 else 404) e w"
proof -
  let ?found = "find (\<lambda>r. o_id r = n) (visible (world_db w) (ap_userId who))"
  have num: "is_integer (js_Number (show_int n))" "int_param (js_Number (show_int n)) = Inr n"
    using assms(3) by (simp_all add: js_Number_show_int_all int_param_int is_integer_def)
  have found: "n \<in> o_id ` set (visible (world_db w) (ap_userId who)) \<longleftrightarrow> ?found \<noteq> None"
    by (auto simp: find_None_iff)
  have run: "findOneFor (show_int n) (ap_userId who) (world_db w)
      = (case ?found of None \<Rightarrow> Inl (not_found (show_int n)) | Some r \<Rightarrow> Inr (order_view (load_order (world_db w) r)), world_db w)"
    using findOneFor_run [OF assms(2), of "ap_userId who" "show_int n"] assms(1) num by (simp add: lets_in_def)
  have p: "\<not> rt_public (route_of (GetOrder (show_int n)))" "rt_http (route_of (GetOrder (show_int n)))"
    "roles_guard (route_of (GetOrder (show_int n))) u = ret True" for u
    by (simp_all add: PROTECTED_def roles_guard_def)
  have idle: "in_tables (findOneFor (show_int n) (ap_userId who)) (entered e w)
      = (case ?found of None \<Rightarrow> Inl (not_found (show_int n)) | Some r \<Rightarrow> Inr (order_view (load_order (world_db w) r)), entered e w)"
    using run by (subst in_tables_idle) (auto intro: keeps_intro)
  have free: "in_tables (ret True) (entered e w) = (Inr True, entered e w)"
    by (simp add: in_tables_idle keeps_intro)
  show ?thesis
    unfolding call_let_in [OF assms(1) p(1,2)] found p(3)
    using idle free
    by (cases ?found) (simp_all add: answered_def only_read_def with_user_def OrdersController_findOne_def and_then_def not_found_def)
qed

lemma staff_route: "\<not> rt_public (route_of (CreateProduct dto'))" "rt_http (route_of (CreateProduct dto'))"
  "rt_roles (route_of (CreateProduct dto')) = Some [seller, admin]"
  by (simp_all add: STAFF_def)

lemma staff_guard:
  assumes "find (\<lambda>u. u_id u = ap_userId who) (users (world_db w)) = Some u" "int4 (ap_userId who)"
  shows "in_tables (roles_guard (route_of (CreateProduct dto')) (Some who)) w
    = (if u_role u \<in> {seller, admin} then Inr True else Inl (ForbiddenException ''role''), w)"
proof -
  have "fst (roles_guard (route_of (CreateProduct dto')) (Some who) (world_db w))
      = (if u_role u \<in> {seller, admin} then Inr True else Inl (ForbiddenException ''role''))"
    unfolding roles_guard_def using assms by (simp add: STAFF_def find_user_run and_then_def)
  then show ?thesis by (subst in_tables_idle) (auto intro: keeps_intro)
qed

lemma create_denied:
  assumes "lets_in sv e token who w" "find (\<lambda>u. u_id u = ap_userId who) (users (world_db w)) = Some u" "u_role u = customer"
  shows "only_read (app_call sv e path token (CreateProduct dto') w) 403 e w"
  using staff_guard [of who "entered e w" u dto'] assms
  unfolding call_let_in [OF assms(1) staff_route(1,2)]
  by (simp add: answered_def only_read_def and_then_def lets_in_def del: route_of.simps)

lemma create_allowed:
  assumes "lets_in sv e token who w" "find (\<lambda>u. u_id u = ap_userId who) (users (world_db w)) = Some u" "u_role u = seller"
    and "create_product_dto_ok dto'" "seq_products (world_db w) \<le> 2147483647" "dto_name dto' \<notin> p_name ` set (products (world_db w))"
  obtains q w' p where "app_call sv e path token (CreateProduct dto') w = (q, w')" "rs_status q = 201"
    "world_db w' = (world_db w)\<lparr>products := products (world_db w) @ [p], seq_products := seq_products (world_db w) + 1\<rparr>"
    "p_name p = dto_name dto'" "p_id p = seq_products (world_db w)" "hw_auth w' = at_time (ce_us e) (hw_auth w)"
proof -
  let ?s = "world_db w" and ?cur = "case dto_currency dto' of None \<Rightarrow> ''UAH'' | Some c \<Rightarrow> c"
  obtain p s' where ins: "insert_product (dto_name dto') (dto_priceCents dto') (dto_stock dto') ?cur ?s = (Inr p, s')"
    using insert_product_run [OF assms(4,5,6)] by blast
  have run: "products_create dto' ?s = (Inr (product_toResponse p), s')"
    using ins by (simp add: products_create_cases)
  let ?w' = "(entered e w)\<lparr>hw_market := hw_market w\<lparr>mk_shop := mk_shop (hw_market w)\<lparr>sh_db := s'\<rparr>\<rparr>\<rparr>"
  have create: "in_tables (products_create dto') (entered e w) = (Inr (product_toResponse p), ?w')"
    using run by (simp add: in_tables_def in_market_def in_shop_def on_db_def)
  have guard: "in_tables (roles_guard (route_of (CreateProduct dto')) (Some who)) (entered e w) = (Inr True, entered e w)"
    using staff_guard [of who "entered e w" u dto'] assms(1-3) by (simp add: lets_in_def del: route_of.simps)
  have "app_call sv e path token (CreateProduct dto') w
      = (\<lparr>rs_status = 201, rs_headers = [], rs_body = Inr (ProductReply (product_toResponse p))\<rparr>, ?w')"
    unfolding call_let_in [OF assms(1) staff_route(1,2)]
    using guard create assms(4)
    by (simp add: ProductsController_create_def and_then_def answered_def entered_def del: route_of.simps)
  then show ?thesis by (rule that) (use insert_product_ok [OF ins] in auto)
qed

subsection \<open>An order of one product\<close>

text \<open>What it leaves in the tables.\<close>

definition ordered :: "int \<Rightarrow> string \<Rightarrow> string \<Rightarrow> db \<Rightarrow> db \<Rightarrow> bool" where
  "ordered u uuid key s s' \<longleftrightarrow> db_wf s' \<and>
     (\<exists>r i ob k. o_id r = seq_orders s \<and> o_userId r = Some u \<and> i_orderId i = seq_orders s \<and> ob_id ob = uuid \<and> ik_key k = key
        \<and> s' = s\<lparr>orders := orders s @ [r], seq_orders := seq_orders s + 1, order_items := order_items s @ [i],
                seq_items := seq_items s + 1, outbox := outbox s @ [ob], idempotency_keys := idempotency_keys s @ [k]\<rparr>)"

lemma claim_single_order:
  assumes "can_place s pid uuid" "known_user s u" "key \<notin> ik_key ` set (idempotency_keys s)"
  obtains e s' where "claim_or_create uuid now (single mail pid) key h (Some u) s = (Inr (Created e), s')"
    "joined e" "or_id (order_view e) = show_int (seq_orders s)" "ordered u uuid key s s'"
proof -
  let ?k = "\<lparr>ik_key = key, ik_request_hash = h, ik_order_id = None\<rparr>"
  let ?s = "s\<lparr>idempotency_keys := idempotency_keys s @ [?k]\<rparr>"
  have wf: "db_wf s" using assms(1) by (simp add: can_place_def)
  have "db_wf ?s" using wf assms(3) by (auto simp: db_wf_defs)
  then have "can_place ?s pid uuid" "pred_option (known_user ?s) (Some u)"
    using assms(1,2) by (simp_all add: can_place_def known_user_def)
  from insert_single_order [OF this] obtain e t where
    "insertOrderWithEvent uuid now (single mail pid) (Some u) ?s = (Inr e, t)" by blast
  then obtain s' where run: "claim_or_create uuid now (single mail pid) key h (Some u) s = (Inr (Created e), s')"
    using assms(3) by (simp add: claim_or_create_def claim_key_def and_then_def set_key_order_def)
  obtain t where p: "placed uuid now (single mail pid) (Some u) s e t"
    and t: "s' = t\<lparr>idempotency_keys := idempotency_keys s @ [\<lparr>ik_key = key, ik_request_hash = h, ik_order_id = Some (o_id (oe_row e))\<rparr>]\<rparr>"
    using claim_or_create_created [OF run] by blast
  note f = p [unfolded placed_def Let_def]
  obtain i po where i: "oe_items e = [(i, po)]" "i_orderId i = seq_orders s"
    using f by (auto simp: single_def list_all2_Cons1)
  have "db_wf s'" using created_db(1) [OF run wf] by (simp add: since_def)
  moreover have "s' = s\<lparr>orders := orders s @ [oe_row e], seq_orders := seq_orders s + 1, order_items := order_items s @ [i],
      seq_items := seq_items s + 1, outbox := outbox s @ [outbox_row_of uuid now (clock s) (oe_row e) [i]],
      idempotency_keys := idempotency_keys s @ [\<lparr>ik_key = key, ik_request_hash = h, ik_order_id = Some (o_id (oe_row e))\<rparr>]\<rparr>"
    using f t i by simp
  moreover have "ob_id (outbox_row_of uuid now (clock s) (oe_row e) [i]) = uuid" by (simp add: outbox_row_of_def)
  moreover have "o_id (oe_row e) = seq_orders s" "o_userId (oe_row e) = Some u" using f by simp_all
  ultimately have "ordered u uuid key s s'" using i(2) unfolding ordered_def by (metis idempotency_row.select_convs(1))
  moreover have "or_id (order_view e) = show_int (seq_orders s)" using f by (simp add: order_view_def)
  ultimately show ?thesis using that run joined_placed [OF p] by blast
qed

text \<open>Without a cache there is no card to forget.\<close>

lemma invalidate_nothing:
  assumes "joined e" "sh_cache w = None" shows "invalidateCards e w = (Inr (), w)"
proof -
  have "for_each item_product (oe_items e) s = (Inr (map (\<lambda>(i, p). the p) (oe_items e)), s)" for s
    using assms(1) by (intro for_each_ret) (auto simp: joined_def)
  moreover have "for_each invalidate is w = (Inr (map (\<lambda>_. ()) is), w)" for "is"
    using assms(2) by (intro for_each_ret) (simp add: invalidate_def)
  ultimately show ?thesis by (simp add: invalidateCards_def on_db_def and_then_def)
qed

lemma order_call:
  assumes "lets_in sv e token who w" "no_cards w" "can_place (world_db w) pid (ce_uuid e)" "known_user (world_db w) (ap_userId who)"
    and "sv_isEmail sv mail" "key \<noteq> []"
    and "namespaced_key (Some (ap_userId who)) key \<notin> ik_key ` set (idempotency_keys (world_db w))"
  obtains q w' where "app_call sv e path token (CreateOrder (order_body mail pid) (Some key)) w = (q, w')"
    "orderId_of q = show_int (seq_orders (world_db w))" "no_cards w'" "hw_auth w' = at_time (ce_us e) (hw_auth w)"
    "ordered (ap_userId who) (ce_uuid e) (namespaced_key (Some (ap_userId who)) key) (world_db w) (world_db w')"
proof -
  let ?c = "CreateOrder (order_body mail pid) (Some key)"
  let ?rq = "demo_call e path token ?c" and ?shop = "mk_shop (hw_market w)"
  have p: "\<not> rt_public (route_of ?c)" "rt_http (route_of ?c)" "roles_guard (route_of ?c) u = ret True" for u
    by (simp_all add: PROTECTED_def roles_guard_def)
  have dto: "create_order_dto_of (sv_isEmail sv) (order_body mail pid) = Some (single mail pid)"
    using assms(5) by (simp add: create_order_dto_of_def order_body_def order_item_dto_def json_int_def single_def show_int_nonempty)
  obtain en s' where run: "claim_or_create (ce_uuid e) (ce_us e div 1000) (single mail pid) (namespaced_key (Some (ap_userId who)) key)
      (sv_sha256 sv (json_text (order_body mail pid))) (Some (ap_userId who)) (world_db w) = (Inr (Created en), s')"
    "joined en" "or_id (order_view en) = show_int (seq_orders (world_db w))"
    "ordered (ap_userId who) (ce_uuid e) (namespaced_key (Some (ap_userId who)) key) (world_db w) s'"
    by (rule claim_single_order [OF assms(3,4,7)])
  have "createIdempotent (sv_sha256 sv) (ce_uuid e) (ce_us e div 1000) (order_body mail pid) (single mail pid) key (Some (ap_userId who)) ?shop
      = (Inr (order_view en, False), ?shop\<lparr>sh_db := s'\<rparr>)"
    using run(1) order_toResponse_run [OF run(2)] invalidate_nothing [OF run(2), of "?shop\<lparr>sh_db := s'\<rparr>"] assms(2)
    by (simp add: createIdempotent_def Let_def no_cards_def)
  then have post: "post_order (sv_sha256 sv) (sv_isEmail sv) (ce_uuid e) (ce_us e div 1000) (order_body mail pid) (Some key) (ap_userId who) ?shop
      = (Inr (order_view en, False), ?shop\<lparr>sh_db := s'\<rparr>)"
    using dto assms(6) by (simp add: post_order_def)
  have free: "in_tables (ret True) (entered e w) = (Inr True, entered e w)"
    by (simp add: in_tables_idle keeps_intro)
  let ?w' = "(entered e w)\<lparr>hw_market := hw_market w\<lparr>mk_shop := ?shop\<lparr>sh_db := s'\<rparr>\<rparr>\<rparr>"
  have "rq_uuid ?rq = ce_uuid e" by (simp add: demo_call_def)
  then have "app_call sv e path token ?c w
      = (\<lparr>rs_status = 201, rs_headers = [], rs_body = Inr (OrderReply (order_view en))\<rparr>, ?w')"
    unfolding call_let_in [OF assms(1) p(1,2)] p(3) using free post assms(2)
    by (simp add: rate_limited_def no_cards_def OrdersController_create_def with_user_def in_market_def in_shop_def
        and_then_def answered_def entered_def)
  then show ?thesis
    by (rule that) (use run(3,4) assms(2) in \<open>simp_all add: orderId_of_def no_cards_def\<close>)
qed

subsection \<open>The people of the script\<close>

definition person :: "int \<Rightarrow> string \<Rightarrow> string \<Rightarrow> user_role \<Rightarrow> db \<Rightarrow> user" where
  "person n hash email role s = (demo_user n hash email s)\<lparr>u_role := role\<rparr>"

lemma person_fields [simp]:
  "u_id (person n hash email role s) = n" "u_email (person n hash email role s) = email" "u_role (person n hash email role s) = role"
  "u_passwordHash (person n hash email role s) = Some hash"
  by (simp_all add: person_def demo_user_def)

lemma person_created:
  assumes "email \<notin> u_email ` set (users s)"
  shows "createDemoUser n hash email role s = (Inr (person n hash email role s), s\<lparr>users := users s @ [person n hash email role s]\<rparr>)"
  using assms by (simp add: createDemoUser_def person_def demo_user_def and_then_def Let_def)

lemma db_wf_user:
  assumes "db_wf s" "u_id u \<notin> u_id ` set (users s)" "u_email u \<notin> u_email ` set (users s)"
  shows "db_wf (s\<lparr>users := users s @ [u]\<rparr>)"
proof -
  have "pred_option (\<lambda>x. x = u_id u \<or> x \<in> u_id ` set (users s)) (o_userId r)" if "r \<in> set (orders s)" for r
    using assms(1) that by (cases "o_userId r") (auto simp: db_wf_defs)
  then show ?thesis using assms by (simp add: db_wf_defs)
qed

text \<open>Nothing in the Redis of the logins refuses anybody.\<close>

definition quiet :: "redis \<Rightarrow> bool" where
  "quiet r \<longleftrightarrow> r_up r \<and> (\<forall>j. r_data r (denyJtiKey j) = None) \<and> (\<forall>f. r_data r (denyFamilyKey f) = None)"

lemma quiet_kept [simp]: "quiet (at_time t r) = quiet r" "quiet (after_login sv email e r) = quiet r"
  by (simp_all add: quiet_def data_after_login login_key_apart)

lemma quiet_free: "quiet r \<Longrightarrow> \<not> on_denylist who (at_time t r)"
  by (simp add: quiet_def on_denylist_def live_def)

definition login_access :: "('k, 'p) server \<Rightarrow> call_env \<Rightarrow> int \<Rightarrow> user_role \<Rightarrow> string" where
  "login_access sv e n role =
     sa_token (signAccess (sv_jwt sv) (sv_keys sv) n role (ce_familyId e) (ce_jti e) (ce_us e div 1000))"

definition login_who :: "call_env \<Rightarrow> int \<Rightarrow> user_role \<Rightarrow> access_principal" where
  "login_who e n role =
     \<lparr>ap_userId = n, ap_role = role, ap_jti = ce_jti e, ap_familyId = ce_familyId e,
      ap_expiresAt = of_int (ce_us e div 1000 div 1000 + 600)\<rparr>"

lemma login_who_user [simp]: "ap_userId (login_who e n role) = n"
  by (simp add: login_who_def)

definition token_server :: "('k, 'p) server \<Rightarrow> ('k \<Rightarrow> 'p) \<Rightarrow> (string \<Rightarrow> string \<Rightarrow> string) \<Rightarrow> ('k \<Rightarrow> string \<Rightarrow> string) \<Rightarrow> bool" where
  "token_server sv pub hdr sg \<longleftrightarrow> jwt_contract (sv_jwt sv) pub \<and> compact (sv_jwt sv) hdr sg
     \<and> verificationKey (sv_keys sv) (Some (ks_kid (sv_keys sv))) = Inr (pub (ks_signingKey (sv_keys sv)))"

lemma login_lets_in:
  assumes "token_server sv pub hdr sg" "0 < n" "int4 n" "quiet (hw_auth w)"
    and "ce_us e' div 1000 div 1000 < ce_us e div 1000 div 1000 + 600"
  shows "lets_in sv e' (login_access sv e n role) (login_who e n role) w"
proof -
  have "one_word (login_access sv e n role)"
    using assms(1) compact_parts(2) by (auto simp: token_server_def login_access_def signAccess_def)
  moreover have "verifyAccess (sv_jwt sv) (sv_keys sv) (login_access sv e n role) (ce_us e' div 1000) = Inr (login_who e n role)"
    unfolding login_who_def using assms(1,5)
    by (intro conjunct1 [OF signed_verifies [OF _ assms(2) login_access_def], rule_format]) (simp_all add: token_server_def)
  ultimately show ?thesis using assms(3,4) quiet_free [OF assms(4)] by (simp add: lets_in_def quiet_def)
qed

lemma keeps_no_cards:
  "keeps no_cards (in_auth m)" "keeps no_cards (setHeader name v)"
  by (simp_all add: keeps_def in_auth_def setHeader_def no_cards_def Let_def split: prod.split)

lemma login_keeps_cards:
  assumes "no_cards w" shows "no_cards (snd (app_call sv e path [] (Login email password) w))"
proof -
  let ?c = "Login email password"
  have "keeps no_cards (handle sv (demo_call e path [] ?c) None ?c)"
    by (auto simp: AuthController_login_def intro!: keeps_intro keeps_no_cards split: login_answer.split)
  from keepsD [OF this, of "w\<lparr>hw_auth := at_time (ce_us e) (hw_auth w), hw_headers := []\<rparr>"] assms
  show ?thesis by (subst public_call) (auto simp: no_cards_def split: prod.split)
qed

lemma login_step:
  assumes "find (\<lambda>u. u_email u = email) (users (world_db w)) = Some u" "u_passwordHash u = Some hash" "hash \<noteq> []"
    and "sv_argon2 sv hash DEMO_PASSWORD" "login_dto_ok (sv_isEmail sv) email DEMO_PASSWORD"
    and "quiet (hw_auth w)" "r_data (hw_auth w) (login_key sv email) = None" "no_cards w"
    and "ce_rowId e \<notin> rt_id ` set (refresh_tokens (world_db w))"
    and "sv_hmac sv (ce_token e) \<notin> rt_token_hash ` set (refresh_tokens (world_db w))"
  obtains w' where "loginToken sv e email w = (login_access sv e (u_id u) (u_role u), w')" "no_cards w'"
    "world_db w' = (world_db w)\<lparr>refresh_tokens := refresh_tokens (world_db w) @ [first_row sv e (u_id u) (clock (world_db w))]\<rparr>"
    "hw_auth w' = after_login sv email e (hw_auth w)"
proof -
  obtain q w' where run: "app_call sv e ''/auth/login'' [] (Login email DEMO_PASSWORD) w = (q, w')" by fastforce
  have "r_up (hw_auth w)" using assms(6) by (simp add: quiet_def)
  note c = login_call [OF assms(1-5) this assms(7,9,10), of "''/auth/login''", unfolded run]
  have "loginToken sv e email w = (login_access sv e (u_id u) (u_role u), w')"
    using c by (simp add: loginToken_def run accessToken_of_def new_pair_def buildPair_def login_access_def Let_def)
  then show ?thesis
    by (rule that) (use c login_keeps_cards [OF assms(8), of sv e "''/auth/login''" email DEMO_PASSWORD] run
      in \<open>simp_all add: call_result_def Let_def\<close>)
qed

subsection \<open>Cleaning up\<close>

lemma owned_kept [simp]: "is_owned emails (s\<lparr>outbox := os\<rparr>) = is_owned emails s"
  by (simp add: is_owned_def owned_by_def fun_eq_iff)

lemma cleanup_done:
  assumes "\<And>i p. i \<in> set (order_items s) \<Longrightarrow> p \<in> set (products s) \<Longrightarrow> p_name p \<in> set names \<Longrightarrow> i_productId i = p_id p \<Longrightarrow>
      \<exists>r \<in> set (orders s). o_id r = i_orderId i \<and> is_owned emails s r"
  shows "fst (cleanupDemoData emails names s) = Inr 0"
proof -
  let ?gone = "o_id ` {r \<in> set (orders s). is_owned emails s r}"
  have "\<forall>i \<in> set (order_items s). i_orderId i \<notin> ?gone \<longrightarrow>
      (\<forall>p \<in> set (products s). p_name p \<in> set names \<longrightarrow> i_productId i \<noteq> p_id p)"
  proof (intro ballI impI notI)
    fix i p assume "i \<in> set (order_items s)" "i_orderId i \<notin> ?gone" "p \<in> set (products s)" "p_name p \<in> set names" "i_productId i = p_id p"
    with assms obtain r where "r \<in> set (orders s)" "o_id r = i_orderId i" "is_owned emails s r" by blast
    then have "i_orderId i \<in> ?gone" by (metis (mono_tags, lifting) image_eqI mem_Collect_eq)
    then show False using \<open>i_orderId i \<notin> ?gone\<close> by blast
  qed
  then show ?thesis by (simp add: cleanupDemoData_def and_then_def guard_def delete_orders_def Let_def)
qed

lemma with_cleanup_done:
  "fst (cleanupDemoData emails names (world_db w)) = Inr 0 \<Longrightarrow> fst (with_cleanup emails names ((r, fs), w)) = (r, fs)"
  by (cases "cleanupDemoData emails names (world_db w)") (simp add: with_cleanup_def Let_def)

subsection \<open>The logins\<close>

definition rbac_role :: "nat \<Rightarrow> user_role" where
  "rbac_role i = [customer, customer, seller] ! i"

lemma rbac_roles [simp]: "rbac_role 0 = customer" "rbac_role (Suc 0) = customer" "rbac_role 2 = seller"
  by (simp_all add: rbac_role_def)

text \<open>The accounts of the script: found by their identifier and by their address, with their role and password.\<close>

definition registered :: "(nat \<Rightarrow> int) \<Rightarrow> (nat \<Rightarrow> string) \<Rightarrow> (nat \<Rightarrow> string) \<Rightarrow> user list \<Rightarrow> bool" where
  "registered n email hash us \<longleftrightarrow> (\<forall>i < 3. \<exists>u. find (\<lambda>u. u_id u = n i) us = Some u \<and> find (\<lambda>u. u_email u = email i) us = Some u
     \<and> u_id u = n i \<and> u_role u = rbac_role i \<and> u_passwordHash u = Some (hash i))"

lemma registeredE:
  assumes "registered n email hash us" "i < 3"
  obtains u where "find (\<lambda>u. u_id u = n i) us = Some u" "find (\<lambda>u. u_email u = email i) us = Some u"
    "u_id u = n i" "u_role u = rbac_role i" "u_passwordHash u = Some (hash i)"
  using assms unfolding registered_def by blast

definition may_login :: "('k, 'p) server \<Rightarrow> (nat \<Rightarrow> string) \<Rightarrow> (nat \<Rightarrow> string) \<Rightarrow> redis \<Rightarrow> bool" where
  "may_login sv email hash r \<longleftrightarrow> quiet r
     \<and> (\<forall>i < 3. hash i \<noteq> [] \<and> sv_argon2 sv (hash i) DEMO_PASSWORD \<and> login_dto_ok (sv_isEmail sv) (email i) DEMO_PASSWORD
          \<and> r_data r (login_key sv (email i)) = None)
     \<and> distinct (map (\<lambda>i. login_key sv (email i)) [0, 1, 2])"

definition fresh_tokens :: "('k, 'p) server \<Rightarrow> (nat \<Rightarrow> call_env) \<Rightarrow> db \<Rightarrow> bool" where
  "fresh_tokens sv env s \<longleftrightarrow> (\<forall>i < 3. new_token sv (env i) s)
     \<and> distinct (map (\<lambda>i. ce_rowId (env i)) [0, 1, 2]) \<and> distinct (map (\<lambda>i. sv_hmac sv (ce_token (env i))) [0, 1, 2])"

lemma below_three: "(0::nat) < 3" "(1::nat) < 3" "(2::nat) < 3"
  by simp_all

lemma rbac_logins:
  assumes "registered n email hash (users (world_db w))" "may_login sv email hash (hw_auth w)" "no_cards w"
    and "fresh_tokens sv env (world_db w)"
  obtains w1 w2 w3 ts where "loginToken sv (env 0) (email 0) w = (login_access sv (env 0) (n 0) customer, w1)"
    "loginToken sv (env 1) (email 1) w1 = (login_access sv (env 1) (n 1) customer, w2)"
    "loginToken sv (env 2) (email 2) w2 = (login_access sv (env 2) (n 2) seller, w3)"
    "no_cards w3" "quiet (hw_auth w3)" "world_db w3 = (world_db w)\<lparr>refresh_tokens := ts\<rparr>"
proof -
  obtain u0 where u0: "find (\<lambda>u. u_email u = email 0) (users (world_db w)) = Some u0" "u_id u0 = n 0" "u_role u0 = customer"
    "u_passwordHash u0 = Some (hash 0)" using registeredE [OF assms(1) below_three(1)] by (metis rbac_roles(1))
  obtain u1 where u1: "find (\<lambda>u. u_email u = email 1) (users (world_db w)) = Some u1" "u_id u1 = n 1" "u_role u1 = customer"
    "u_passwordHash u1 = Some (hash 1)" using registeredE [OF assms(1) below_three(2)] by (metis rbac_roles(2) One_nat_def)
  obtain u2 where u2: "find (\<lambda>u. u_email u = email 2) (users (world_db w)) = Some u2" "u_id u2 = n 2" "u_role u2 = seller"
    "u_passwordHash u2 = Some (hash 2)" using registeredE [OF assms(1) below_three(3)] by (metis rbac_roles(3))
  have ok: "hash i \<noteq> []" "sv_argon2 sv (hash i) DEMO_PASSWORD" "login_dto_ok (sv_isEmail sv) (email i) DEMO_PASSWORD"
    "r_data (hw_auth w) (login_key sv (email i)) = None" if "i < 3" for i
    using assms(2) that unfolding may_login_def by blast+
  have keys: "login_key sv (email 1) \<noteq> login_key sv (email 0)" "login_key sv (email 2) \<noteq> login_key sv (email 0)"
    "login_key sv (email 2) \<noteq> login_key sv (email 1)" "quiet (hw_auth w)"
    using assms(2) by (auto simp: may_login_def)
  have new: "ce_rowId (env i) \<notin> rt_id ` set (refresh_tokens (world_db w))"
    "sv_hmac sv (ce_token (env i)) \<notin> rt_token_hash ` set (refresh_tokens (world_db w))" if "i < 3" for i
    using assms(4) that by (simp_all add: fresh_tokens_def new_token_def)
  have apart: "ce_rowId (env 1) \<noteq> ce_rowId (env 0)" "ce_rowId (env 2) \<noteq> ce_rowId (env 0)" "ce_rowId (env 2) \<noteq> ce_rowId (env 1)"
    "sv_hmac sv (ce_token (env 1)) \<noteq> sv_hmac sv (ce_token (env 0))" "sv_hmac sv (ce_token (env 2)) \<noteq> sv_hmac sv (ce_token (env 0))"
    "sv_hmac sv (ce_token (env 2)) \<noteq> sv_hmac sv (ce_token (env 1))"
    using assms(4) by (auto simp: fresh_tokens_def)
  obtain w1 where w1: "loginToken sv (env 0) (email 0) w = (login_access sv (env 0) (n 0) customer, w1)" "no_cards w1"
    "world_db w1 = (world_db w)\<lparr>refresh_tokens := refresh_tokens (world_db w) @ [first_row sv (env 0) (n 0) (clock (world_db w))]\<rparr>"
    "hw_auth w1 = after_login sv (email 0) (env 0) (hw_auth w)"
    by (rule login_step [OF u0(1,4) ok(1-3) [OF below_three(1)] keys(4) ok(4) [OF below_three(1)] assms(3) new [OF below_three(1)],
        unfolded u0(2,3)])
  have l1: "find (\<lambda>u. u_email u = email 1) (users (world_db w1)) = Some u1" "quiet (hw_auth w1)"
    "r_data (hw_auth w1) (login_key sv (email 1)) = None" "ce_rowId (env 1) \<notin> rt_id ` set (refresh_tokens (world_db w1))"
    "sv_hmac sv (ce_token (env 1)) \<notin> rt_token_hash ` set (refresh_tokens (world_db w1))"
    using u1(1) keys ok(4) [OF below_three(2)] new [OF below_three(2)] apart
    by (simp_all add: w1(3,4) data_after_login first_row_def)
  obtain w2 where w2: "loginToken sv (env 1) (email 1) w1 = (login_access sv (env 1) (n 1) customer, w2)" "no_cards w2"
    "world_db w2 = (world_db w1)\<lparr>refresh_tokens := refresh_tokens (world_db w1) @ [first_row sv (env 1) (n 1) (clock (world_db w1))]\<rparr>"
    "hw_auth w2 = after_login sv (email 1) (env 1) (hw_auth w1)"
    by (rule login_step [OF l1(1) u1(4) ok(1-3) [OF below_three(2)] l1(2,3) w1(2) l1(4,5), unfolded u1(2,3)])
  have l2: "find (\<lambda>u. u_email u = email 2) (users (world_db w2)) = Some u2" "quiet (hw_auth w2)"
    "r_data (hw_auth w2) (login_key sv (email 2)) = None" "ce_rowId (env 2) \<notin> rt_id ` set (refresh_tokens (world_db w2))"
    "sv_hmac sv (ce_token (env 2)) \<notin> rt_token_hash ` set (refresh_tokens (world_db w2))"
    using u2(1) keys ok(4) [OF below_three(3)] new [OF below_three(3)] apart
    by (simp_all add: w1(3,4) w2(3,4) data_after_login first_row_def)
  obtain w3 where w3: "loginToken sv (env 2) (email 2) w2 = (login_access sv (env 2) (n 2) seller, w3)" "no_cards w3"
    "world_db w3 = (world_db w2)\<lparr>refresh_tokens := refresh_tokens (world_db w2) @ [first_row sv (env 2) (n 2) (clock (world_db w2))]\<rparr>"
    "hw_auth w3 = after_login sv (email 2) (env 2) (hw_auth w2)"
    by (rule login_step [OF l2(1) u2(4) ok(1-3) [OF below_three(3)] l2(2,3) w2(2) l2(4,5), unfolded u2(2,3)])
  have "quiet (hw_auth w3)" using l2(2) by (simp add: w3(4))
  moreover have "world_db w3 = (world_db w)\<lparr>refresh_tokens := refresh_tokens (world_db w3)\<rparr>" by (simp add: w1(3) w2(3) w3(3))
  ultimately show ?thesis using that w1(1) w2(1) w3(1,2) by blast
qed

subsection \<open>The orders\<close>

definition in_time :: "(nat \<Rightarrow> call_env) \<Rightarrow> bool" where
  "in_time env \<longleftrightarrow> (\<forall>i < 3. \<forall>j < 11. ce_us (env j) div 1000 div 1000 < ce_us (env i) div 1000 div 1000 + 600)"

definition demo_people :: "(nat \<Rightarrow> int) \<Rightarrow> bool" where
  "demo_people n \<longleftrightarrow> (\<forall>i < 3. 0 < n i \<and> int4 (n i)) \<and> distinct (map n [0, 1, 2])"

lemma rbac_lets_in:
  assumes "token_server sv pub hdr sg" "demo_people n" "in_time env" "quiet (hw_auth w)" "i < 3" "j < 11"
  shows "lets_in sv (env j) (login_access sv (env i) (n i) role) (login_who (env i) (n i) role) w"
  using login_lets_in [OF assms(1) _ _ assms(4), of "n i" "env j" "env i" role] assms(2,3,5,6)
  by (simp add: demo_people_def in_time_def)

definition two_orders_fit :: "db \<Rightarrow> int \<Rightarrow> string \<Rightarrow> string \<Rightarrow> bool" where
  "two_orders_fit s pid uuid uuid' \<longleftrightarrow> can_place s pid uuid \<and> uuid' \<notin> ob_id ` set (outbox s) \<and> uuid' \<noteq> uuid
     \<and> seq_orders s \<le> 2147483646 \<and> seq_items s \<le> 2147483646"

lemma second_order_fits:
  assumes "ordered u uuid k s s'" "two_orders_fit s pid uuid uuid'"
  shows "can_place s' pid uuid'"
  using assms by (auto simp: ordered_def two_orders_fit_def can_place_def)

lemma rbac_orders:
  assumes "token_server sv pub hdr sg" "demo_people n" "in_time env" "quiet (hw_auth w)" "no_cards w"
    and "n 0 \<in> u_id ` set (users (world_db w))" "n 1 \<in> u_id ` set (users (world_db w))"
    and "two_orders_fit (world_db w) pid (ce_uuid (env 3)) (ce_uuid (env 4))" "sv_isEmail sv ''demo@example.com''" "k \<noteq> []" "k' \<noteq> []"
    and "namespaced_key (Some (n 0)) k \<notin> ik_key ` set (idempotency_keys (world_db w))"
    and "namespaced_key (Some (n 1)) k' \<notin> ik_key ` set (idempotency_keys (world_db w))"
  obtains w1 w2 where
    "placeOrder sv (env 3) (login_access sv (env 0) (n 0) customer) pid k w = (show_int (seq_orders (world_db w)), w1)"
    "placeOrder sv (env 4) (login_access sv (env 1) (n 1) customer) pid k' w1 = (show_int (seq_orders (world_db w) + 1), w2)"
    "no_cards w2" "quiet (hw_auth w2)"
    "ordered (n 0) (ce_uuid (env 3)) (namespaced_key (Some (n 0)) k) (world_db w) (world_db w1)"
    "ordered (n 1) (ce_uuid (env 4)) (namespaced_key (Some (n 1)) k') (world_db w1) (world_db w2)"
proof -
  let ?who = "\<lambda>i. login_who (env i) (n i) customer" and ?k = "namespaced_key (Some (n 0)) k" and ?k' = "namespaced_key (Some (n 1)) k'"
  have fit: "can_place (world_db w) pid (ce_uuid (env 3))" using assms(8) by (simp add: two_orders_fit_def)
  have int: "int4 (n 0)" "int4 (n 1)" "n 0 \<noteq> n 1" using assms(2) by (auto simp: demo_people_def)
  obtain q w1 where w1: "app_call sv (env 3) ''/orders'' (login_access sv (env 0) (n 0) customer)
      (CreateOrder (order_body ''demo@example.com'' pid) (Some k)) w = (q, w1)"
    "orderId_of q = show_int (seq_orders (world_db w))" "no_cards w1" "hw_auth w1 = at_time (ce_us (env 3)) (hw_auth w)"
    "ordered (n 0) (ce_uuid (env 3)) ?k (world_db w) (world_db w1)"
    using order_call [OF rbac_lets_in [OF assms(1-4), of 0 3 customer] assms(5), of pid "''demo@example.com''" k "''/orders''"]
      fit assms(6,9,10,12) int by (auto simp: known_user_def)
  then obtain r i ob b where d: "ik_key b = ?k" "world_db w1 = (world_db w)\<lparr>orders := orders (world_db w) @ [r], seq_orders := seq_orders (world_db w) + 1,
      order_items := order_items (world_db w) @ [i], seq_items := seq_items (world_db w) + 1, outbox := outbox (world_db w) @ [ob],
      idempotency_keys := idempotency_keys (world_db w) @ [b]\<rparr>"
    unfolding ordered_def by blast
  have known: "known_user (world_db w1) (n 1)" using assms(7) int by (simp add: d known_user_def)
  have "?k' \<noteq> ?k" using int(3) by (simp add: namespaced_key_inj)
  then have new: "?k' \<notin> ik_key ` set (idempotency_keys (world_db w1))" using assms(13) by (simp add: d)
  have quiet: "quiet (hw_auth w1)" using assms(4) by (simp add: w1(4))
  obtain q' w2 where w2: "app_call sv (env 4) ''/orders'' (login_access sv (env 1) (n 1) customer)
      (CreateOrder (order_body ''demo@example.com'' pid) (Some k')) w1 = (q', w2)"
    "orderId_of q' = show_int (seq_orders (world_db w1))" "no_cards w2" "hw_auth w2 = at_time (ce_us (env 4)) (hw_auth w1)"
    "ordered (n 1) (ce_uuid (env 4)) ?k' (world_db w1) (world_db w2)"
    using order_call [OF rbac_lets_in [OF assms(1-3) quiet, of 1 4 customer] w1(3), of pid "''demo@example.com''" k' "''/orders''"]
      second_order_fits [OF w1(5) assms(8)] assms(9,11) known new by auto
  have "seq_orders (world_db w1) = seq_orders (world_db w) + 1" by (simp add: d)
  then show ?thesis
    by (intro that [of w1 w2]) (use w1 w2 quiet in \<open>simp_all add: placeOrder_def\<close>)
qed

text \<open>Of the two orders each customer sees the own one.\<close>

lemma rbac_views:
  assumes "ordered (n 0) uuid k s s1" "ordered (n 1) uuid' k' s1 s2" "Some (n 0) \<notin> o_userId ` set (orders s)"
    and "registered n email hash (users s)" "demo_people n"
  shows "o_id ` set (visible s2 (n 0)) = {seq_orders s}"
proof -
  obtain r where r: "orders s1 = orders s @ [r]" "o_id r = seq_orders s" "o_userId r = Some (n 0)" "users s1 = users s"
    using assms(1) by (auto simp: ordered_def)
  obtain r' where r': "orders s2 = orders s1 @ [r']" "o_userId r' = Some (n 1)" "users s2 = users s1"
    using assms(2) by (auto simp: ordered_def)
  obtain u where "find (\<lambda>u. u_id u = n 0) (users s) = Some u" "u_role u = customer"
    using registeredE [OF assms(4) below_three(1)] by (metis rbac_roles(1))
  then have role: "role_in s2 (n 0) \<noteq> Some admin" by (simp add: role_in_def r r')
  have "n 1 \<noteq> n 0" using assms(5) by (auto simp: demo_people_def)
  moreover have "\<forall>q \<in> set (orders s). o_userId q \<noteq> Some (n 0)" using assms(3) by (metis imageI)
  ultimately have "visible s2 (n 0) = [r]" using role by (simp add: visible_def r r' filter_empty_conv)
  then show ?thesis by (simp add: r(2))
qed

subsection \<open>The whole script\<close>

text \<open>The signature of the first customer's token belongs to that token.\<close>

definition unforged_login :: "('k, 'p) server \<Rightarrow> (string \<Rightarrow> string \<Rightarrow> string) \<Rightarrow> ('k \<Rightarrow> string \<Rightarrow> string) \<Rightarrow> call_env \<Rightarrow> int \<Rightarrow> bool" where
  "unforged_login sv hdr sg e n \<longleftrightarrow>
     unforged sg (ks_signingKey (sv_keys sv)) (signing_input hdr SIGNING_ALG (ks_kid (sv_keys sv))
       (access_claims n customer (ce_familyId e) (ce_jti e) (ce_us e div 1000)))"

lemma login_forged:
  assumes "token_server sv pub hdr sg" "unforged_login sv hdr sg e n"
  obtains forged where "forgeAdminToken (login_access sv e n customer) = Inr forged" "one_word forged"
    "\<And>now. \<exists>err. verifyAccess (sv_jwt sv) (sv_keys sv) forged now = Inl err"
proof -
  have t: "login_access sv e n customer = jwt_sign (sv_jwt sv) SIGNING_ALG (ks_kid (sv_keys sv))
      (access_claims n customer (ce_familyId e) (ce_jti e) (ce_us e div 1000)) (ks_signingKey (sv_keys sv))"
    by (simp add: login_access_def signAccess_def)
  have lib: "jwt_contract (sv_jwt sv) pub" "compact (sv_jwt sv) hdr sg" using assms(1) by (simp_all add: token_server_def)
  have role: "customer \<noteq> admin" by simp
  show ?thesis
    by (rule forged_refused [OF lib role assms(2) [unfolded unforged_login_def]]) (rule that [unfolded t])
qed

definition keys_unused :: "(nat \<Rightarrow> int) \<Rightarrow> string \<Rightarrow> db \<Rightarrow> bool" where
  "keys_unused n tag s \<longleftrightarrow> namespaced_key (Some (n 0)) (tag @ ''-alice'') \<notin> ik_key ` set (idempotency_keys s)
     \<and> namespaced_key (Some (n 1)) (tag @ ''-bob'') \<notin> ik_key ` set (idempotency_keys s)"

lemma rbac_calls_pass:
  assumes "token_server sv pub hdr sg" "unforged_login sv hdr sg (env 0) (n 0)" "demo_people n" "in_time env"
    and "registered n email hash (users (world_db w))" "may_login sv email hash (hw_auth w)" "no_cards w"
    and "fresh_tokens sv env (world_db w)" "two_orders_fit (world_db w) (p_id product) (ce_uuid (env 3)) (ce_uuid (env 4))"
    and "sv_isEmail sv ''demo@example.com''" "keys_unused n tag (world_db w)" "Some (n 0) \<notin> o_userId ` set (orders (world_db w))"
    and "create_product_dto_ok (new_product sp)" "seq_products (world_db w) \<le> 2147483647" "sp \<notin> p_name ` set (products (world_db w))"
  obtains w' ts s1 s2 p where "rbac_calls sv env tag (email 0) (email 1) (email 2) sp product w = ((Inr (), []), w')"
    "ordered (n 0) (ce_uuid (env 3)) (namespaced_key (Some (n 0)) (tag @ ''-alice'')) ((world_db w)\<lparr>refresh_tokens := ts\<rparr>) s1"
    "ordered (n 1) (ce_uuid (env 4)) (namespaced_key (Some (n 1)) (tag @ ''-bob'')) s1 s2"
    "world_db w' = s2\<lparr>products := products s2 @ [p], seq_products := seq_products s2 + 1\<rparr>" "p_name p = sp" "p_id p = seq_products s2"
proof -
  let ?s = "world_db w"
  let ?a = "login_access sv (env 0) (n 0) customer" and ?b = "login_access sv (env 1) (n 1) customer"
    and ?c = "login_access sv (env 2) (n 2) seller"
  note lets = rbac_lets_in [OF assms(1,3,4)]
  have int: "int4 (n 0)" "int4 (n 2)" using assms(3) by (auto simp: demo_people_def)
  obtain w1 w2 w3 ts where c1: "loginToken sv (env 0) (email 0) w = (?a, w1)" "loginToken sv (env 1) (email 1) w1 = (?b, w2)"
      "loginToken sv (env 2) (email 2) w2 = (?c, w3)"
    and w3: "no_cards w3" "quiet (hw_auth w3)" "world_db w3 = ?s\<lparr>refresh_tokens := ts\<rparr>"
    by (rule rbac_logins [OF assms(5-8)])
  obtain u0 where u0: "find (\<lambda>u. u_id u = n 0) (users ?s) = Some u0" "u_role u0 = customer"
    using registeredE [OF assms(5) below_three(1)] by (metis rbac_roles(1))
  obtain u1 where u1: "find (\<lambda>u. u_id u = n 1) (users ?s) = Some u1"
    using registeredE [OF assms(5) below_three(2)] by metis
  obtain u2 where u2: "find (\<lambda>u. u_id u = n 2) (users ?s) = Some u2" "u_role u2 = seller"
    using registeredE [OF assms(5) below_three(3)] by (metis rbac_roles(3))
  have ids: "n 0 \<in> u_id ` set (users (world_db w3))" "n 1 \<in> u_id ` set (users (world_db w3))"
    using find_Some_in [OF u0(1)] find_Some_in [OF u1] by (simp_all add: w3(3)) (metis imageI)+
  have fit: "two_orders_fit (world_db w3) (p_id product) (ce_uuid (env 3)) (ce_uuid (env 4))"
    using assms(9) db_wf_tokens by (auto simp: w3(3) two_orders_fit_def can_place_def)
  have keys: "tag @ ''-alice'' \<noteq> []" "tag @ ''-bob'' \<noteq> []"
    "namespaced_key (Some (n 0)) (tag @ ''-alice'') \<notin> ik_key ` set (idempotency_keys (world_db w3))"
    "namespaced_key (Some (n 1)) (tag @ ''-bob'') \<notin> ik_key ` set (idempotency_keys (world_db w3))"
    using assms(11) unfolding keys_unused_def w3(3) by simp_all
  obtain w4 w5 where c2: "placeOrder sv (env 3) ?a (p_id product) (tag @ ''-alice'') w3 = (show_int (seq_orders (world_db w3)), w4)"
      "placeOrder sv (env 4) ?b (p_id product) (tag @ ''-bob'') w4 = (show_int (seq_orders (world_db w3) + 1), w5)"
    and w5: "no_cards w5" "quiet (hw_auth w5)"
      "ordered (n 0) (ce_uuid (env 3)) (namespaced_key (Some (n 0)) (tag @ ''-alice'')) (world_db w3) (world_db w4)"
      "ordered (n 1) (ce_uuid (env 4)) (namespaced_key (Some (n 1)) (tag @ ''-bob'')) (world_db w4) (world_db w5)"
    by (rule rbac_orders [OF assms(1,3,4) w3(2,1) ids fit assms(10) keys])
  let ?oa = "show_int (seq_orders ?s)" and ?ob = "show_int (seq_orders ?s + 1)"
  have view: "o_id ` set (visible (world_db w5) (n 0)) = {seq_orders ?s}"
    using rbac_views [OF w5(3,4) _ _ assms(3), of email hash] assms(5,12) by (simp add: w3(3))
  have same: "users (world_db w5) = users ?s" "products (world_db w5) = products ?s" "seq_products (world_db w5) = seq_products ?s"
    "db_wf (world_db w5)"
    using w5(3,4) by (auto simp: ordered_def w3(3))
  have int_orders: "int4 (seq_orders ?s)" "int4 (seq_orders ?s + 1)"
    using assms(9) by (auto simp: two_orders_fit_def can_place_def db_wf_defs serial_def int4_def)
  obtain q6 w6 where c6: "getOrder sv (env 5) [] ?oa w5 = (q6, w6)" by fastforce
  have w6: "rs_status q6 = 401" "hw_market w6 = hw_market w5" "quiet (hw_auth w6)"
    using call_without_token [of "GetOrder ?oa" sv "env 5" "''/orders/'' @ ?oa" w5] c6 w5(2)
    by (simp_all add: getOrder_def only_read_def show_int_nonempty PROTECTED_def)
  obtain q7 w7 where c7: "getOrder sv (env 6) ?a ?oa w6 = (q7, w7)" by fastforce
  have w7: "rs_status q7 = 200" "hw_market w7 = hw_market w5" "quiet (hw_auth w7)"
    using get_call [OF lets [OF w6(3), of 0 6 customer], of "seq_orders ?s" "''/orders/'' @ ?oa"] c7 w6 view same(4) int_orders(1)
    by (simp_all add: getOrder_def only_read_def show_int_nonempty)
  obtain q8 w8 where c8: "getOrder sv (env 7) ?a ?ob w7 = (q8, w8)" by fastforce
  have w8: "rs_status q8 = 404" "hw_market w8 = hw_market w5" "quiet (hw_auth w8)"
    using get_call [OF lets [OF w7(3), of 0 7 customer], of "seq_orders ?s + 1" "''/orders/'' @ ?ob"] c8 w7 view same(4) int_orders(2)
    by (simp_all add: getOrder_def only_read_def show_int_nonempty)
  obtain q9 w9 where c9: "app_call sv (env 8) ''/products'' ?a (CreateProduct (new_product sp)) w8 = (q9, w9)" by fastforce
  have w9: "rs_status q9 = 403" "hw_market w9 = hw_market w5" "quiet (hw_auth w9)"
    using create_denied [OF lets [OF w8(3), of 0 8 customer], of u0 "''/products''" "new_product sp"] c9 w8 u0 same(1)
    by (simp_all add: only_read_def)
  obtain q10 w10 p where c10: "app_call sv (env 9) ''/products'' ?c (CreateProduct (new_product sp)) w9 = (q10, w10)" "rs_status q10 = 201"
    and w10: "world_db w10 = (world_db w9)\<lparr>products := products (world_db w9) @ [p], seq_products := seq_products (world_db w9) + 1\<rparr>"
      "p_name p = dto_name (new_product sp)" "p_id p = seq_products (world_db w9)" "hw_auth w10 = at_time (ce_us (env 9)) (hw_auth w9)"
    by (rule create_allowed [OF lets [OF w9(3), of 2 9 seller], of u2 "new_product sp" "''/products''"])
      (use assms(13-15) u2 w9(2) same in \<open>simp_all add: new_product_def\<close>)
  obtain forged where f: "forgeAdminToken ?a = Inr forged" "one_word forged"
    "\<exists>err. verifyAccess (sv_jwt sv) (sv_keys sv) forged (ce_us (env 10) div 1000) = Inl err"
    using login_forged [OF assms(1,2)] by metis
  obtain q11 w11 where c11: "getOrder sv (env 10) forged ?ob w10 = (q11, w11)" by fastforce
  have w11: "rs_status q11 = 401" "hw_market w11 = hw_market w10"
    using call_kept_out [OF f(2,3), of "GetOrder ?ob" "''/orders/'' @ ?ob" w10] c11
    by (simp_all add: getOrder_def only_read_def show_int_nonempty PROTECTED_def)
  have "rbac_calls sv env tag (email 0) (email 1) (email 2) sp product w = ((Inr (), []), w11)"
    using c1 c2 c6 c7 c8 c9 c10 f(1) c11 w6(1) w7(1) w8(1) w9(1) w11(1)
    by (simp add: rbac_calls_def w3(3) show_int_nonempty)
  then show ?thesis
    by (rule that [OF _ w5(3,4) [unfolded w3(3)]]) (use w9(2) w10 w11(2) in \<open>simp_all add: new_product_def\<close>)
qed

lemma rbac_started:
  assumes "db_wf s" "\<And>i. i < 3 \<Longrightarrow> newcomer (n i) (email i) s" "distinct (map n [0, 1, 2])" "distinct (map email [0, 1, 2])"
    and "name \<notin> p_name ` set (products s)" "seq_products s \<le> 2147483647"
  obtains p us where "rbac_start hash n (email 0) (email 1) (email 2) name s
      = (Inr p, s\<lparr>users := us, products := products s @ [p], seq_products := seq_products s + 1\<rparr>)"
    "registered n email hash us" "db_wf (s\<lparr>users := us, products := products s @ [p], seq_products := seq_products s + 1\<rparr>)"
    "p_id p = seq_products s" "p_name p = name" "int4 (p_priceCents p)"
proof -
  define u0 where "u0 = person (n 0) (hash 0) (email 0) customer s"
  define s1 where "s1 = s\<lparr>users := users s @ [u0]\<rparr>"
  define u1 where "u1 = person (n 1) (hash 1) (email 1) customer s1"
  define s2 where "s2 = s1\<lparr>users := users s1 @ [u1]\<rparr>"
  define u2 where "u2 = person (n 2) (hash 2) (email 2) seller s2"
  define s3 where "s3 = s2\<lparr>users := users s2 @ [u2]\<rparr>"
  have u [simp]: "u_id u0 = n 0" "u_email u0 = email 0" "u_role u0 = customer" "u_passwordHash u0 = Some (hash 0)"
    "u_id u1 = n 1" "u_email u1 = email 1" "u_role u1 = customer" "u_passwordHash u1 = Some (hash 1)"
    "u_id u2 = n 2" "u_email u2 = email 2" "u_role u2 = seller" "u_passwordHash u2 = Some (hash 2)"
    by (simp_all add: u0_def u1_def u2_def)
  have new: "n i \<notin> u_id ` set (users s)" "email i \<notin> u_email ` set (users s)" if "i < 3" for i
    using assms(2) [OF that] by (simp_all add: newcomer_def)
  note new = new [OF below_three(1)] new [OF below_three(2)] new [OF below_three(3)]
  have apart: "n 1 \<noteq> n 0" "n 2 \<noteq> n 0" "n 2 \<noteq> n 1" "email 1 \<noteq> email 0" "email 2 \<noteq> email 0" "email 2 \<noteq> email 1"
    using assms(3,4) by auto
  have wf: "db_wf s1" "db_wf s2" "db_wf s3"
    unfolding s1_def s2_def s3_def
    by (intro db_wf_user assms(1); use new apart in \<open>simp add: s1_def s2_def\<close>)+
  have steps: "createDemoUser (n 0) (hash 0) (email 0) customer s = (Inr u0, s1)"
    "createDemoUser (n 1) (hash 1) (email 1) customer s1 = (Inr u1, s2)"
    "createDemoUser (n 2) (hash 2) (email 2) seller s2 = (Inr u2, s3)"
    unfolding u0_def u1_def u2_def s1_def s2_def s3_def
    by (intro person_created [unfolded u0_def]; use new apart in \<open>simp add: s1_def s2_def\<close>)+
  have rest: "products s3 = products s" "seq_products s3 = seq_products s" by (simp_all add: s1_def s2_def s3_def)
  obtain p d where ins: "insert_product name 1000 10 ''UAH'' s3 = (Inr p, d)"
    using assms(5,6) rest by (simp add: insert_product_def and_then_def nextval_def guard_def int4_def Let_def)
  note p = insert_product_ok [OF ins]
  have d: "d = s\<lparr>users := users s3, products := products s @ [p], seq_products := seq_products s + 1\<rparr>"
    using p rest by (simp add: s1_def s2_def s3_def)
  have "distinct (map u_id (users s3))" "distinct (map u_email (users s3))" using wf(3) by (simp_all add: db_wf_defs)
  note found = find_key [OF this(1)] find_key [OF this(2)]
  have mem: "u0 \<in> set (users s3)" "u1 \<in> set (users s3)" "u2 \<in> set (users s3)" by (simp_all add: s1_def s2_def s3_def)
  have "registered n email hash (users s3)"
    unfolding registered_def
  proof (intro allI impI)
    fix i :: nat assume "i < 3"
    then consider "i = 0" | "i = 1" | "i = 2" by linarith
    then show "\<exists>u. find (\<lambda>u. u_id u = n i) (users s3) = Some u \<and> find (\<lambda>u. u_email u = email i) (users s3) = Some u
        \<and> u_id u = n i \<and> u_role u = rbac_role i \<and> u_passwordHash u = Some (hash i)"
      using found [OF mem(1)] found [OF mem(2)] found [OF mem(3)] by cases simp_all
  qed
  moreover have "db_wf d" using keepsD' [OF keeps_db_wf_insert_product wf(3) ins] .
  moreover have "rbac_start hash n (email 0) (email 1) (email 2) name s = (Inr p, d)"
    using steps ins by (simp add: rbac_start_def)
  ultimately show ?thesis using that p rest unfolding d by (simp add: int4_def)
qed

text \<open>What the script needs of the tables: room for three accounts, two products and two orders, under names,
  addresses, identifiers and keys that are not taken.\<close>

definition tables_ready :: "(nat \<Rightarrow> int) \<Rightarrow> (nat \<Rightarrow> call_env) \<Rightarrow> string \<Rightarrow> db \<Rightarrow> bool" where
  "tables_ready n env tag s \<longleftrightarrow> db_wf s \<and> (\<forall>i < 3. newcomer (n i) (rbac_email tag i) s) \<and> distinct (map n [0, 1, 2])
     \<and> tag @ ''-product'' \<notin> p_name ` set (products s) \<and> tag @ ''-seller-product'' \<notin> p_name ` set (products s)
     \<and> seq_products s \<le> 2147483646 \<and> seq_orders s \<le> 2147483646 \<and> seq_items s \<le> 2147483646
     \<and> ce_uuid (env 3) \<notin> ob_id ` set (outbox s) \<and> ce_uuid (env 4) \<notin> ob_id ` set (outbox s) \<and> ce_uuid (env 3) \<noteq> ce_uuid (env 4)
     \<and> keys_unused n tag s"

lemma rbac_emails_distinct: "distinct (map (rbac_email tag) [0, 1, 2])"
  by (simp add: rbac_email_def)

lemma owned_order:
  assumes "registered n email hash (users s)" "i < 3" "email i \<in> set emails" "o_userId r = Some (n i)"
  shows "is_owned emails s r"
proof -
  obtain u where "find (\<lambda>u. u_email u = email i) (users s) = Some u" "u_id u = n i"
    using registeredE [OF assms(1,2)] by metis
  then have "u \<in> set (users s)" "u_email u = email i" "u_id u = n i" by (auto simp: find_Some_iff)
  then show ?thesis using assms(3,4) by (force simp: is_owned_def owned_by_def)
qed

text \<open>An item never points to a product that is not there yet.\<close>

lemma items_know_products:
  assumes "db_wf s" "i \<in> set (order_items s)" shows "i_productId i \<noteq> seq_products s"
proof -
  have "i_productId i \<in> set (map p_id (products s))" using assms by (auto simp: db_wf_defs)
  moreover have "seq_products s \<notin> set (map p_id (products s))"
    using assms(1) serial_fresh [of "map p_id (products s)"] by (simp add: db_wf_defs)
  ultimately show ?thesis by metis
qed

lemma rbac_cleanup:
  assumes "ordered (n 0) uuid k s s1" "ordered (n 1) uuid' k' s1 s2" "registered n email hash (users s)"
    and "{email 0, email 1} \<subseteq> set emails" "t = s2\<lparr>products := products s2 @ [q], seq_products := seq_products s2 + 1\<rparr>"
    and "p_id q = seq_products s2" "db_wf s" "\<And>p. p \<in> set (products s) \<Longrightarrow> p_name p \<in> set names \<Longrightarrow> \<forall>i \<in> set (order_items s). i_productId i \<noteq> p_id p"
  shows "fst (cleanupDemoData emails names t) = Inr 0"
proof (rule cleanup_done)
  obtain r i where d: "orders s1 = orders s @ [r]" "o_id r = seq_orders s" "o_userId r = Some (n 0)" "order_items s1 = order_items s @ [i]"
    "i_orderId i = o_id r" "products s1 = products s" "users s1 = users s" "seq_products s1 = seq_products s"
    using assms(1) by (auto simp: ordered_def)
  obtain r' i' where d': "orders s2 = orders s1 @ [r']" "o_userId r' = Some (n 1)" "order_items s2 = order_items s1 @ [i']"
    "i_orderId i' = o_id r'" "products s2 = products s1" "users s2 = users s1" "seq_products s2 = seq_products s1"
    using assms(2) by (auto simp: ordered_def)
  have reg: "registered n email hash (users t)" using assms(3) by (simp add: assms(5) d d')
  have owned: "is_owned emails t r" "is_owned emails t r'"
    using owned_order [OF reg below_three(1) _ d(3)] owned_order [OF reg below_three(2) _ d'(2)] assms(4) by simp_all
  have old: "i_productId j \<noteq> p_id q" if "j \<in> set (order_items s)" for j
    using items_know_products [OF assms(7) that] assms(6) d(8) d'(7) by simp
  fix j p assume j: "j \<in> set (order_items t)" and p: "p \<in> set (products t)" "p_name p \<in> set names" "i_productId j = p_id p"
  then consider "j \<in> set (order_items s)" | "j = i" | "j = i'" by (auto simp: assms(5) d d')
  then show "\<exists>r \<in> set (orders t). o_id r = i_orderId j \<and> is_owned emails t r"
  proof cases
    case 1
    then show ?thesis using p old assms(8) by (auto simp: assms(5) d d')
  next
    case 2
    then show ?thesis using owned(1) d by (intro bexI [of _ r]) (simp_all add: assms(5) d')
  next
    case 3
    then show ?thesis using owned(2) d' by (intro bexI [of _ r']) (simp_all add: assms(5))
  qed
qed

text \<open>C21: who may not is refused, who may is served. Two customers and a seller log in and both customers order; then a
  call without a token gets 401, the owner of an order reads it, another customer gets 404 for it, a customer who
  creates a product gets 403, the seller creates it, and a token whose payload was changed to the role of an
  administrator gets 401. Every expectation of the script holds and its data are gone, for every server whose
  library signs compact tokens as documented and did not sign the changed text, and every state with room for
  the data of the script.\<close>

theorem rbac_demo_holds:
  assumes "token_server sv pub hdr sg" and "unforged_login sv hdr sg (env 0) (n 0)"
    and "tables_ready n env (runTag ''rbac'' hex) (world_db w)"
    and "may_login sv (rbac_email (runTag ''rbac'' hex)) hash (hw_auth w)" and "fresh_tokens sv env (world_db w)"
    and "sv_isEmail sv ''demo@example.com''" and "no_cards w" and "in_time env" and "length hex \<le> 8"
  shows "fst (demo_rbac sv hash n env hex w) = (Inr (), [])"
proof -
  define s tag where "s = world_db w" and "tag = runTag ''rbac'' hex"
  let ?e = "rbac_email tag" and ?p = "tag @ ''-product''" and ?q = "tag @ ''-seller-product''"
  note ready = assms(3) [folded s_def tag_def, unfolded tables_ready_def]
  have newcomers: "\<And>i. i < 3 \<Longrightarrow> newcomer (n i) (?e i) s" using ready by blast
  then have people: "demo_people n" using ready by (simp add: demo_people_def newcomer_def)
  have room: "db_wf s" "distinct (map n [0, 1, 2])" "?p \<notin> p_name ` set (products s)" "seq_products s \<le> 2147483647"
    using ready by simp_all
  obtain p us where start: "rbac_start hash n (?e 0) (?e 1) (?e 2) ?p s
      = (Inr p, s\<lparr>users := us, products := products s @ [p], seq_products := seq_products s + 1\<rparr>)"
    "registered n ?e hash us" "db_wf (s\<lparr>users := us, products := products s @ [p], seq_products := seq_products s + 1\<rparr>)"
    "p_id p = seq_products s" "p_name p = ?p" "int4 (p_priceCents p)"
    by (rule rbac_started [OF room(1) newcomers room(2) rbac_emails_distinct room(3,4)])
  define d where "d = s\<lparr>users := us, products := products s @ [p], seq_products := seq_products s + 1\<rparr>"
  note start = start [folded d_def]
  have d: "users d = us" "products d = products s @ [p]" "seq_products d = seq_products s + 1" "orders d = orders s"
    "order_items d = order_items s" "seq_orders d = seq_orders s" "seq_items d = seq_items s" "outbox d = outbox s"
    "idempotency_keys d = idempotency_keys s" "refresh_tokens d = refresh_tokens s" by (simp_all add: d_def)
  have name: "length tag \<le> 18" using assms(9) by (simp add: tag_def runTag_def)
  have "char_count ?q \<le> length ?q" by (simp add: char_count_def)
  then have dto: "create_product_dto_ok (new_product ?q)" using name by (simp add: create_product_dto_ok_def new_product_def)
  let ?w = "put_db d w"
  obtain w' ts s1 s2 q where run: "rbac_calls sv env tag (?e 0) (?e 1) (?e 2) ?q p ?w = ((Inr (), []), w')"
    "ordered (n 0) (ce_uuid (env 3)) (namespaced_key (Some (n 0)) (tag @ ''-alice'')) (d\<lparr>refresh_tokens := ts\<rparr>) s1"
    "ordered (n 1) (ce_uuid (env 4)) (namespaced_key (Some (n 1)) (tag @ ''-bob'')) s1 s2"
    "world_db w' = s2\<lparr>products := products s2 @ [q], seq_products := seq_products s2 + 1\<rparr>" "p_id q = seq_products s2"
  proof (rule rbac_calls_pass [of sv pub hdr sg env n ?e hash ?w p tag ?q])
    show "two_orders_fit (world_db ?w) (p_id p) (ce_uuid (env 3)) (ce_uuid (env 4))"
      using ready start(3,6) by (auto simp: two_orders_fit_def can_place_def d)
    show "Some (n 0) \<notin> o_userId ` set (orders (world_db ?w))" using newcomers [OF below_three(1)] by (simp add: newcomer_def d)
    show "fresh_tokens sv env (world_db ?w)" using assms(5) by (simp add: fresh_tokens_def new_token_def d s_def)
    show "keys_unused n tag (world_db ?w)" using ready by (simp add: keys_unused_def d)
    show "no_cards ?w" using assms(7) by (simp add: no_cards_def put_db_def)
    show "?q \<notin> p_name ` set (products (world_db ?w))" using ready start(5) by (simp add: d)
  qed (use assms people start(2) dto ready in \<open>simp_all add: tag_def [symmetric] d\<close>)
  note fresh = items_know_products [OF room(1)]
  have "fst (cleanupDemoData [?e 0, ?e 1, ?e 2] [?p, ?q] (world_db w')) = Inr 0"
  proof (rule rbac_cleanup [OF run(2,3) _ _ run(4,5)])
    show "registered n ?e hash (users (d\<lparr>refresh_tokens := ts\<rparr>))" using start(2) by (simp add: d)
    show "db_wf (d\<lparr>refresh_tokens := ts\<rparr>)" by (rule db_wf_tokens [OF start(3)])
    fix r assume r: "r \<in> set (products (d\<lparr>refresh_tokens := ts\<rparr>))" "p_name r \<in> set [?p, ?q]"
    have "?p \<notin> p_name ` set (products s)" "?q \<notin> p_name ` set (products s)" using ready by simp_all
    then have "p_name r \<notin> p_name ` set (products s)" using r(2) by (elim set_ConsD [THEN disjE]) simp_all
    then have "r \<notin> set (products s)" by (metis imageI)
    then have "r = p" using r(1) by (simp add: d)
    then show "\<forall>i \<in> set (order_items (d\<lparr>refresh_tokens := ts\<rparr>)). i_productId i \<noteq> p_id r" using fresh start(4) by (simp add: d)
  qed simp
  then show ?thesis
    using with_cleanup_done [of "[?e 0, ?e 1, ?e 2]" "[?p, ?q]" w' "Inr ()" "[]"] run(1) start(1)
    by (simp add: demo_rbac_def Let_def tag_def [symmetric] s_def [symmetric] del: One_nat_def)
qed

text \<open>A library that signs compact tokens: its signature shows the key and the text.\<close>

definition plain_header :: "string \<Rightarrow> string \<Rightarrow> string" where
  "plain_header alg kid = json_text (JObject [(''alg'', JString alg), (''typ'', JString ''JWT''), (''kid'', JString kid)])"

definition plain_signature :: "string \<Rightarrow> string \<Rightarrow> string" where
  "plain_signature key x = base64url (json_text (JArray [JString key, JString x]))"

definition compact_sign :: "string \<Rightarrow> string \<Rightarrow> json \<Rightarrow> string \<Rightarrow> string" where
  "compact_sign alg kid claims key =
     signing_input plain_header alg kid claims @ ''.'' @ plain_signature key (signing_input plain_header alg kid claims)"

definition compact_decode :: "string \<Rightarrow> (string option \<times> json) option" where
  "compact_decode token =
     (case split_on (CHR ''.'') token of
        [h, p, _] \<Rightarrow>
          (case (json_parse (unbase64url h), json_parse (unbase64url p)) of
             (Some header, Some claims) \<Rightarrow>
               Some (case field_of ''kid'' header of Some (JString kid) \<Rightarrow> Some kid | _ \<Rightarrow> None, claims)
           | _ \<Rightarrow> None)
      | _ \<Rightarrow> None)"

definition compact_jwt :: "(string, string) jwt_lib" where
  "compact_jwt =
     \<lparr>jwt_sign = compact_sign, jwt_decode = compact_decode,
      jwt_verify = (\<lambda>t p algs issuer audience nowSec.
        case compact_decode t of
          Some (Some kid, claims) \<Rightarrow>
            if p = ''pub '' @ drop 4 p \<and> list_ex (\<lambda>alg. t = compact_sign alg kid claims (drop 4 p)) algs
               \<and> claims_agree issuer audience nowSec claims
            then Some claims else None
        | _ \<Rightarrow> None)\<rparr>"

definition compact_server :: "(string, string) server" where
  "compact_server = plain_server\<lparr>sv_jwt := compact_jwt\<rparr>"

lemma compact_jwt_compact: "compact compact_jwt plain_header plain_signature"
  by (simp add: compact_def compact_jwt_def compact_sign_def plain_signature_def base64url_chars)

lemma plain_header_parsed:
  "json_parse (plain_header alg kid) = Some (JObject [(''alg'', JString alg), (''typ'', JString ''JWT''), (''kid'', JString kid)])"
  unfolding plain_header_def by (rule json_parse_text) simp

lemma compact_decoded: "int_numbers claims \<Longrightarrow> compact_decode (compact_sign alg kid claims key) = Some (Some kid, claims)"
  using compact_parts(1) [OF compact_jwt_compact, of alg kid claims key]
  by (simp add: compact_jwt_def compact_decode_def plain_header_parsed json_parse_text)

lemma compact_contract: "jwt_contract compact_jwt (\<lambda>key. ''pub '' @ key)"
  unfolding jwt_contract_def
proof (intro conjI allI impI)
  fix token p alg issuer audience nowSec payload
  assume "jwt_verify compact_jwt token p [alg] issuer audience nowSec = Some payload"
  then obtain kid where "compact_decode token = Some (Some kid, payload)" "p = ''pub '' @ drop 4 p"
    "token = compact_sign alg kid payload (drop 4 p)" "claims_agree issuer audience nowSec payload"
    by (auto simp: compact_jwt_def split: option.splits prod.splits if_splits)
  then show "\<exists>kid key. token = jwt_sign compact_jwt alg kid payload key \<and> ''pub '' @ key = p"
    "claims_agree issuer audience nowSec payload" "\<exists>kid. jwt_decode compact_jwt token = Some (kid, payload)"
    unfolding compact_jwt_def by (simp_all, metis)
qed (simp_all add: compact_jwt_def compact_decoded)

lemma plain_signature_unforged: "unforged plain_signature key x"
  unfolding unforged_def
proof (intro allI impI)
  fix key' y assume "plain_signature key' y = plain_signature key x"
  then have "json_text (JArray [JString key', JString y]) = json_text (JArray [JString key, JString x])"
    unfolding plain_signature_def base64url_inj .
  from json_text_inj [OF _ _ this] show "y = x" by simp
qed

lemma compact_token_server: "token_server compact_server (\<lambda>key. ''pub '' @ key) plain_header plain_signature"
  using compact_contract compact_jwt_compact plain_fields demo_facts(1) by (simp add: token_server_def compact_server_def)

definition rbac_env :: "nat \<Rightarrow> call_env" where
  "rbac_env k =
     \<lparr>ce_us = 1500000, ce_member = ''m'', ce_uuid = (if k = 3 then ''u3'' else ''u4''),
      ce_rowId = [''r0'', ''r1'', ''r2''] ! min k 2, ce_token = sample_token ([CHR ''x'', CHR ''y'', CHR ''z''] ! min k 2),
      ce_familyId = ''f'', ce_jti = [''i'', ''j'', ''k''] ! min k 2\<rparr>"

lemma rbac_env_fields:
  "ce_us (rbac_env k) = 1500000" "ce_uuid (rbac_env 3) = ''u3''" "ce_uuid (rbac_env 4) = ''u4''"
  "map (\<lambda>i. ce_rowId (rbac_env i)) [0, 1, 2] = [''r0'', ''r1'', ''r2'']"
  "map (\<lambda>i. ce_token (rbac_env i)) [0, 1, 2] = [sample_token CHR ''x'', sample_token CHR ''y'', sample_token CHR ''z'']"
  by (simp_all add: rbac_env_def)

lemma sample_tables:
  "orders (world_db sample_http) = []" "outbox (world_db sample_http) = []" "idempotency_keys (world_db sample_http) = []"
  "refresh_tokens (world_db sample_http) = []" "seq_products (world_db sample_http) = 3" "seq_orders (world_db sample_http) = 1"
  "seq_items (world_db sample_http) = 1" "map p_name (products (world_db sample_http)) = [''Tea'', ''Cup'']"
  "map u_id (users (world_db sample_http)) = [1, 2, 3]"
  "map u_email (users (world_db sample_http)) = [''u1@example.com'', ''u2@example.com'', ''u3@example.com'']"
  unfolding sample_http_def by code_simp+

lemma sample_newcomer:
  assumes "3 < n" "n \<le> 2147483647" "hd email \<noteq> CHR ''u''"
  shows "newcomer n email (world_db sample_http)"
proof -
  have "n \<notin> set (map u_id (users (world_db sample_http)))" "email \<notin> set (map u_email (users (world_db sample_http)))"
    using assms unfolding sample_tables by auto
  from this [unfolded set_map] show ?thesis using assms by (simp add: newcomer_def int4_def sample_tables)
qed

lemma rbac_tables: "tables_ready (\<lambda>i. 77 + int i) rbac_env (runTag ''rbac'' ''0a1b'') (world_db sample_http)"
proof -
  let ?tag = "runTag ''rbac'' ''0a1b''"
  have tag: "hd (?tag @ x) = CHR ''d''" for x by (simp add: runTag_def)
  have names: "?tag @ x \<notin> set (map p_name (products (world_db sample_http)))" for x
    unfolding sample_tables by (simp add: runTag_def)
  have "newcomer (77 + int i) (rbac_email ?tag i) (world_db sample_http)" if "i < 3" for i
    using that tag by (intro sample_newcomer) (simp_all add: rbac_email_def)
  moreover have "db_wf (world_db sample_http)" using sample_db_wf by (simp add: sample_http_def)
  ultimately show ?thesis using names [unfolded set_map]
    by (simp add: tables_ready_def keys_unused_def sample_tables rbac_env_fields)
qed

lemma rbac_logins_ready: "may_login compact_server (rbac_email (runTag ''rbac'' ''0a1b'')) (\<lambda>_. DEMO_PASSWORD) (hw_auth sample_http)"
proof -
  let ?e = "rbac_email (runTag ''rbac'' ''0a1b'')"
  have "distinct (map (\<lambda>i. take 32 (to_lower (trim (?e i)))) [0, 1, 2])"
    "list_all (\<lambda>i. login_dto_ok (\<lambda>_. True) (?e i) DEMO_PASSWORD) [0, 1, 2]" by code_simp+
  moreover have "i \<in> set [0, 1, 2]" if "i < 3" for i :: nat using that by auto
  ultimately have "distinct (map (\<lambda>i. take 32 (to_lower (trim (?e i)))) [0, 1, 2])"
    "\<forall>i < 3. login_dto_ok (\<lambda>_. True) (?e i) DEMO_PASSWORD" unfolding list_all_iff by blast+
  then show ?thesis using demo_facts(8)
    by (simp add: may_login_def compact_server_def plain_fields login_key_def quiet_def sample_redis_up_def plain_server_def)
qed

theorem rbac_demo_holds_witness:
  "fst (demo_rbac compact_server (\<lambda>_. DEMO_PASSWORD) (\<lambda>i. 77 + int i) rbac_env ''0a1b'' sample_http) = (Inr (), [])"
proof (rule rbac_demo_holds [OF compact_token_server _ rbac_tables rbac_logins_ready])
  show "unforged_login compact_server plain_header plain_signature (rbac_env 0) (77 + int 0)"
    by (simp add: unforged_login_def plain_signature_unforged)
  have "is_base64url_char CHR ''x''" "is_base64url_char CHR ''y''" "is_base64url_char CHR ''z''" by code_simp+
  then have "list_all is_base64url_char [CHR ''x'', CHR ''y'', CHR ''z'']" by simp
  then have "is_base64url_char ([CHR ''x'', CHR ''y'', CHR ''z''] ! min i 2)" for i by (simp add: list_all_length)
  then have "TOKEN_PATTERN (ce_token (rbac_env i))" for i
    by (simp add: rbac_env_def TOKEN_PATTERN_def sample_token_def list_all_iff)
  then show "fresh_tokens compact_server rbac_env (world_db sample_http)"
    unfolding fresh_tokens_def new_token_def
    by (intro conjI; simp add: sample_tables; simp add: compact_server_def plain_fields rbac_env_def sample_token_def)
qed (simp_all add: compact_server_def plain_fields in_time_def rbac_env_fields no_cards_def sample_http_def)

end
