(* ===== verification/Environment.thy ===== *)
theory Environment
  imports Sessions
begin

text \<open>
  What the program takes from its environment: \<open>src/config/env.schema.ts\<close> (\<open>validateEnv\<close>),
  \<open>src/redis/connect.ts\<close>, \<open>src/redis/redis.config.ts\<close>, \<open>src/database/pg-connection-options.ts\<close>,
  \<open>src/outbox/pool.ts\<close> and the retry strategy of the Redis clients.

  \<open>env\<close> is \<open>process.env\<close>. The check of the schema is zod's (\<open>safeParse\<close>, an argument that answers the
  issues, each with its path and message, or the configuration), and the URL parser is an argument too: \<open>None\<close> when
  it throws. Texts are their UTF-8 bytes.
\<close>

subsection \<open>The configuration\<close>

text \<open>\<open>xs.join(sep)\<close>.\<close>

definition join_texts :: "string \<Rightarrow> string list \<Rightarrow> string" where
  "join_texts sep xs = (case xs of [] \<Rightarrow> [] | x # ys \<Rightarrow> x @ concat (map (\<lambda>y. sep @ y) ys))"

definition validateEnv ::
  "((string \<Rightarrow> string option) \<Rightarrow> (string list \<times> string) list + 'env) \<Rightarrow> (string \<Rightarrow> string option) \<Rightarrow> error + 'env" where
  "validateEnv safeParse config =
     (case safeParse config of
        Inl issues \<Rightarrow>
          Inl (PlainError (join_texts ''; '' (map (\<lambda>(path, message). join_texts ''.'' path @ '': '' @ message) issues)))
      | Inr env \<Rightarrow> Inr env)"

definition requireUrl :: "(string \<Rightarrow> string option) \<Rightarrow> string \<Rightarrow> error + string" where
  "requireUrl env name =
     (case env name of None \<Rightarrow> Inl (PlainError name) | Some url \<Rightarrow> if url = [] then Inl (PlainError name) else Inr url)"

definition resolveCacheUrl :: "(string \<Rightarrow> string option) \<Rightarrow> string option" where
  "resolveCacheUrl env = (if env ''REDIS_DISABLED'' = Some ''1'' then None else env ''REDIS_URL'')"

text \<open>The wait before the \<open>attempts\<close>-th reconnection, in milliseconds.\<close>

definition retryStrategy :: "int \<Rightarrow> int" where
  "retryStrategy attempts = min (attempts * 200) 2000"

subsection \<open>Connections\<close>

record url_parts =
  url_hostname :: string
  url_port :: string
  url_username :: string
  url_password :: string
  url_pathname :: string

definition decoded :: "string \<Rightarrow> error + string" where
  "decoded t = (case decodeURIComponent t of None \<Rightarrow> Inl (PlainError ''URIError'') | Some x \<Rightarrow> Inr x)"

text \<open>\<open>Number(port || ..)\<close>.\<close>

definition port_number :: "string \<Rightarrow> int \<Rightarrow> jsnum" where
  "port_number port otherwise = (if port = [] then Num (of_int otherwise) else js_Number port)"

datatype queue_role = Producer | Worker

record queue_connection =
  qc_host :: string
  qc_port :: jsnum
  qc_username :: "string option"
  qc_password :: "string option"
  qc_maxRetriesPerRequest :: "int option"

definition optional_decoded :: "string \<Rightarrow> error + string option" where
  "optional_decoded t = (if t = [] then Inr None else (case decoded t of Inl e \<Rightarrow> Inl e | Inr x \<Rightarrow> Inr (Some x)))"

definition queueConnectionOptions ::
  "(string \<Rightarrow> url_parts option) \<Rightarrow> (string \<Rightarrow> string option) \<Rightarrow> queue_role \<Rightarrow> string option \<Rightarrow> error + queue_connection" where
  "queueConnectionOptions parse_url env role given =
     (case (case given of None \<Rightarrow> requireUrl env ''REDIS_QUEUE_URL'' | Some url \<Rightarrow> Inr url) of
        Inl e \<Rightarrow> Inl e
      | Inr url \<Rightarrow>
          (case parse_url url of
             None \<Rightarrow> Inl (TypeError ''Invalid URL'')
           | Some parsed \<Rightarrow>
               (case optional_decoded (url_username parsed) of
                  Inl e \<Rightarrow> Inl e
                | Inr username \<Rightarrow>
                    (case optional_decoded (url_password parsed) of
                       Inl e \<Rightarrow> Inl e
                     | Inr password \<Rightarrow>
                         Inr \<lparr>qc_host = url_hostname parsed, qc_port = port_number (url_port parsed) 6379,
                              qc_username = username, qc_password = password,
                              qc_maxRetriesPerRequest = (if role = Worker then None else Some 1)\<rparr>))))"

record pg_connection =
  pg_host :: string
  pg_port :: jsnum
  pg_username :: string
  pg_password :: string
  pg_database :: string

text \<open>\<open>configured\<close> answers the validated settings; \<open>file\<close> is the content of \<open>secrets/db_password\<close>, if it can be read.\<close>

record db_settings =
  DB_HOST :: string
  DB_PORT :: jsnum
  DB_USER :: string
  DB_NAME :: string

definition readDbPasswordFromFile :: "string option \<Rightarrow> error + string" where
  "readDbPasswordFromFile file = (case file of None \<Rightarrow> Inl (PlainError ''ENOENT'') | Some raw \<Rightarrow> Inr (trim raw))"

definition resolvePgConnectionOptions ::
  "(string \<Rightarrow> url_parts option) \<Rightarrow> (string \<Rightarrow> string option) \<Rightarrow> db_settings \<Rightarrow> string option \<Rightarrow> error + pg_connection" where
  "resolvePgConnectionOptions parse_url env configured file =
     (case env ''DATABASE_URL'' of
        Some (c # cs) \<Rightarrow>
          (case parse_url (c # cs) of
             None \<Rightarrow> Inl (TypeError ''Invalid URL'')
           | Some url \<Rightarrow>
               (case decoded (url_username url) of
                  Inl e \<Rightarrow> Inl e
                | Inr username \<Rightarrow>
                    (case decoded (url_password url) of
                       Inl e \<Rightarrow> Inl e
                     | Inr password \<Rightarrow>
                         (case decoded (tl (url_pathname url)) of
                            Inl e \<Rightarrow> Inl e
                          | Inr database \<Rightarrow>
                              Inr \<lparr>pg_host = url_hostname url, pg_port = port_number (url_port url) 5432,
                                   pg_username = username, pg_password = password, pg_database = database\<rparr>))))
      | _ \<Rightarrow>
          (case readDbPasswordFromFile file of
             Inl e \<Rightarrow> Inl e
           | Inr password \<Rightarrow>
               Inr \<lparr>pg_host = DB_HOST configured, pg_port = DB_PORT configured, pg_username = DB_USER configured,
                    pg_password = password, pg_database = DB_NAME configured\<rparr>))"

text \<open>The pool of the courier reads the same variables itself.\<close>

record pool_options =
  po_host :: "string option"
  po_port :: jsnum
  po_user :: "string option"
  po_password :: "string option"
  po_database :: "string option"
  po_max :: nat

definition createPool :: "(string \<Rightarrow> string option) \<Rightarrow> nat option \<Rightarrow> pool_options" where
  "createPool env given =
     \<lparr>po_host = env ''DB_HOST'', po_port = js_Number (case env ''DB_PORT'' of None \<Rightarrow> ''5432'' | Some p \<Rightarrow> p),
      po_user = env ''DB_USER'', po_password = env ''DB_PASSWORD'', po_database = env ''DB_NAME'',
      po_max = (case given of None \<Rightarrow> 5 | Some n \<Rightarrow> n)\<rparr>"

subsection \<open>An escaped text is read back\<close>

text \<open>The texts are sequences of code points (no surrogates), in UTF-8.\<close>

definition scalar_value :: "nat \<Rightarrow> bool" where
  "scalar_value n \<longleftrightarrow> n \<le> 1114111 \<and> \<not> (55296 \<le> n \<and> n \<le> 57343)"

definition utf8_text :: "nat list \<Rightarrow> string" where
  "utf8_text points = concat (map Json.utf8 points)"

lemma hex_digit: "d < 16 \<Longrightarrow> radix_digit 16 (upper_hex d) = Some d"
  by (simp add: radix_digit_def upper_hex_def Let_def)

lemma octet_uri_char:
  assumes "\<not> uri_plain c"
  shows "percent_octet (uri_char c @ r) = Some (of_char c)" "length (uri_char c) = 3"
proof -
  have "(of_char c :: nat) < 256" by simp
  then have "(of_char c :: nat) div 16 < 16" by (simp add: less_mult_imp_div_less del: nat_of_char_less_256)
  then show "percent_octet (uri_char c @ r) = Some (of_char c)" "length (uri_char c) = 3"
    using assms by (simp_all add: percent_octet_def uri_char_def hex_digit)
qed

lemma octet_at:
  assumes "list_all (\<lambda>c. \<not> uri_plain c) cs" "i < length cs"
  shows "percent_octet (drop (3 * i) (concat (map uri_char cs) @ r)) = Some (of_char (cs ! i))"
  using assms
proof (induction cs arbitrary: i)
  case (Cons c cs)
  then have c: "\<not> uri_plain c" "list_all (\<lambda>c. \<not> uri_plain c) cs" by simp_all
  show ?case
  proof (cases i)
    case 0
    then show ?thesis using octet_uri_char(1) [OF c(1)] by simp
  next
    case (Suc j)
    have "drop (3 * Suc j) (uri_char c @ x) = drop (3 * j) x" for x using octet_uri_char(2) [OF c(1)] by simp
    from this [of "concat (map uri_char cs) @ r"] show ?thesis using Cons.IH [OF c(2), of j] Cons.prems(2) Suc
      by (simp del: drop_append mult_Suc_right)
  qed
qed simp

lemma map_filter_all: "(\<And>x. x \<in> set xs \<Longrightarrow> f x = Some (g x)) \<Longrightarrow> List.map_filter f xs = map g xs"
  by (induction xs) (simp_all add: List.map_filter_simps)

lemma octets_encoded:
  assumes "list_all (\<lambda>c. \<not> uri_plain c) cs"
  shows "List.map_filter (\<lambda>i. percent_octet (drop (3 * i) (concat (map uri_char cs) @ r))) [0..<length cs] = map of_char cs"
    and "length (concat (map uri_char cs)) = 3 * length cs"
proof -
  have "List.map_filter (\<lambda>i. percent_octet (drop (3 * i) (concat (map uri_char cs) @ r))) [0..<length cs]
      = map (\<lambda>i. of_char (cs ! i)) [0..<length cs]"
    using octet_at [OF assms] by (intro map_filter_all) simp
  also have "\<dots> = map of_char cs" by (rule nth_equalityI) simp_all
  finally show "List.map_filter (\<lambda>i. percent_octet (drop (3 * i) (concat (map uri_char cs) @ r))) [0..<length cs] = map of_char cs" .
  show "length (concat (map uri_char cs)) = 3 * length cs"
    using assms by (induction cs) (simp_all add: octet_uri_char(2))
qed

lemma lead_bits:
  fixes x :: nat
  shows "x < 32 \<Longrightarrow> (192 + x) mod 32 = x" "x < 16 \<Longrightarrow> (224 + x) mod 16 = x" "x < 8 \<Longrightarrow> (240 + x) mod 8 = x"
    "(128 + x mod 64) mod 64 = x mod 64"
  using mod_mult_self2 [of x 32 6] mod_mult_self2 [of x 16 14] mod_mult_self2 [of x 8 30] mod_mult_self2 [of "x mod 64" 64 2]
  by (simp_all add: add.commute)

lemma sextets:
  fixes n :: nat
  shows "64 * (n div 64) + n mod 64 = n" "64 * (n div 4096) + n div 64 mod 64 = n div 64"
    "64 * (n div 262144) + n div 4096 mod 64 = n div 4096"
  using mult_div_mod_eq [of 64 n] mult_div_mod_eq [of 64 "n div 64"] mult_div_mod_eq [of 64 "n div 4096"]
    div_mult2_eq [of n 64 64] div_mult2_eq [of n 4096 64] by simp_all

text \<open>The lead byte tells the number of bytes, and the others carry six bits each.\<close>

lemma code_points:
  assumes "192 + n div 64 < 224" shows "code_point [192 + n div 64, 128 + n mod 64] = n"
  using assms lead_bits(1) [of "n div 64"] by (simp add: code_point_def lead_bits(4) sextets)

lemma code_points3:
  assumes "n div 4096 < 16" shows "code_point [224 + n div 4096, 128 + n div 64 mod 64, 128 + n mod 64] = n"
  using assms lead_bits(2) [of "n div 4096"] by (simp add: code_point_def lead_bits(4), use sextets [of n] in linarith)

lemma code_points4:
  assumes "n div 262144 < 8"
  shows "code_point [240 + n div 262144, 128 + n div 4096 mod 64, 128 + n div 64 mod 64, 128 + n mod 64] = n"
  using assms lead_bits(3) [of "n div 262144"] by (simp add: code_point_def lead_bits(4), use sextets [of n] in linarith)

lemma high_escaped: "128 \<le> (of_char c :: nat) \<Longrightarrow> \<not> uri_plain c"
  by (auto simp: uri_plain_def Let_def)

text \<open>The bytes of one code point.\<close>

lemma utf8_escaped:
  assumes "scalar_value n" "\<not> (\<exists>c. Json.utf8 n = [c] \<and> uri_plain c)"
  shows "list_all (\<lambda>c. \<not> uri_plain c) (Json.utf8 n)" "Json.utf8 n \<noteq> []"
    "octet_count (of_char (hd (Json.utf8 n))) = length (Json.utf8 n)" "code_point (map of_char (Json.utf8 n)) = n"
proof -
  have n: "n \<le> 1114111" using assms(1) by (simp add: scalar_value_def)
  consider "n < 128" | "128 \<le> n" "n < 2048" | "2048 \<le> n" "n < 65536" | "65536 \<le> n" by linarith
  then have "list_all (\<lambda>c. \<not> uri_plain c) (Json.utf8 n) \<and> Json.utf8 n \<noteq> []
    \<and> octet_count (of_char (hd (Json.utf8 n))) = length (Json.utf8 n) \<and> code_point (map of_char (Json.utf8 n)) = n"
  proof cases
    case 1
    then show ?thesis using assms(2) by (auto simp: Json.utf8_def octet_count_def code_point_def)
  next
    case 2
    then have k: "n div 64 < 32" "Json.utf8 n = [char_of (192 + n div 64), char_of (128 + n mod 64)]"
      by (simp_all add: Json.utf8_def less_mult_imp_div_less)
    have "192 + n div 64 < 256" "128 + n mod 64 < 256" using k(1) mod_less_divisor [of 64 n] by linarith+
    then show ?thesis using k code_points [of n] by (auto simp: octet_count_def intro!: high_escaped)
  next
    case 3
    then have k: "n div 4096 < 16"
      "Json.utf8 n = [char_of (224 + n div 4096), char_of (128 + n div 64 mod 64), char_of (128 + n mod 64)]"
      by (simp_all add: Json.utf8_def less_mult_imp_div_less)
    have "224 + n div 4096 < 256" "128 + n div 64 mod 64 < 256" "128 + n mod 64 < 256"
      using k(1) mod_less_divisor [of 64 n] mod_less_divisor [of 64 "n div 64"] by linarith+
    then show ?thesis using k code_points3 [of n] by (auto simp: octet_count_def intro!: high_escaped)
  next
    case 4
    have small: "n div 262144 < 8" using n by (intro less_mult_imp_div_less) simp
    have k: "Json.utf8 n = [char_of (240 + n div 262144), char_of (128 + n div 4096 mod 64),
        char_of (128 + n div 64 mod 64), char_of (128 + n mod 64)]"
      using 4 by (simp add: Json.utf8_def)
    have "240 + n div 262144 < 256" "128 + n div 4096 mod 64 < 256" "128 + n div 64 mod 64 < 256" "128 + n mod 64 < 256"
      using small mod_less_divisor [of 64 n] mod_less_divisor [of 64 "n div 64"] mod_less_divisor [of 64 "n div 4096"] by linarith+
    then show ?thesis using k small code_points4 [of n] by (auto simp: octet_count_def intro!: high_escaped)
  qed
  then show "list_all (\<lambda>c. \<not> uri_plain c) (Json.utf8 n)" "Json.utf8 n \<noteq> []"
    "octet_count (of_char (hd (Json.utf8 n))) = length (Json.utf8 n)" "code_point (map of_char (Json.utf8 n)) = n" by blast+
qed

lemma decode_point:
  assumes "scalar_value n"
  shows "decodeURIComponent (encodeURIComponent (Json.utf8 n) @ r) = map_option (append (Json.utf8 n)) (decodeURIComponent r)"
proof (cases "\<exists>c. Json.utf8 n = [c] \<and> uri_plain c")
  case True
  then obtain c where c: "Json.utf8 n = [c]" "uri_plain c" by blast
  then have "c \<noteq> CHR ''%''" by (auto simp: uri_plain_def Let_def)
  then show ?thesis using c by (simp add: encodeURIComponent_def uri_char_def) (metis append_Cons append_Nil)
next
  case False
  note u = utf8_escaped [OF assms False]
  define bs where "bs = Json.utf8 n"
  note u = u [folded bs_def]
  define e where "e = concat (map uri_char bs)"
  obtain b bs' where b: "bs = b # bs'" using u(2) by (cases bs) auto
  have plain: "\<not> uri_plain b" using u(1) b by simp
  then obtain e' where e: "e = CHR ''%'' # e'" by (simp add: e_def b uri_char_def)
  have lead: "percent_octet (e @ r) = Some (of_char b)" using octet_uri_char(1) [OF plain] by (simp add: e_def b)
  have octets: "List.map_filter (\<lambda>i. percent_octet (drop (3 * i) (e @ r))) [0..<length bs] = map of_char bs"
    using octets_encoded(1) [OF u(1)] by (simp add: e_def)
  have len: "length e = 3 * length bs" using octets_encoded(2) [OF u(1)] by (simp add: e_def)
  have "percent_char (e @ r) = Some (bs, 3 * length bs)"
    using lead octets u(3,4) assms b
    by (simp add: percent_char_def Let_def scalar_value_def bs_def [symmetric] comp_def)
  moreover have "drop (3 * length bs - 1) (e' @ r) = r" using len e by simp
  ultimately show ?thesis by (simp add: encodeURIComponent_def bs_def [symmetric] e_def [symmetric] e)
qed

lemma decode_escaped:
  assumes "list_all scalar_value points"
  shows "decodeURIComponent (encodeURIComponent (utf8_text points)) = Some (utf8_text points)"
  using assms
proof (induction points)
  case (Cons n points)
  have "encodeURIComponent (utf8_text (n # points)) = encodeURIComponent (Json.utf8 n) @ encodeURIComponent (utf8_text points)"
    by (simp add: utf8_text_def encodeURIComponent_def)
  then show ?case using decode_point [of n] Cons by (simp add: utf8_text_def)
qed (simp add: utf8_text_def encodeURIComponent_def)

lemma encode_empty: "encodeURIComponent t = [] \<longleftrightarrow> t = []"
  by (cases t) (simp_all add: encodeURIComponent_def uri_char_def)

lemma decoded_encoded: "list_all scalar_value points \<Longrightarrow> decoded (encodeURIComponent (utf8_text points)) = Inr (utf8_text points)"
  by (simp add: decoded_def decode_escaped)

lemma optional_encoded:
  "list_all scalar_value points \<Longrightarrow> optional_decoded (encodeURIComponent (utf8_text points))
    = Inr (if utf8_text points = [] then None else Some (utf8_text points))"
  by (simp add: optional_decoded_def decoded_encoded encode_empty)

definition url_of :: "string \<Rightarrow> string \<Rightarrow> string \<Rightarrow> string \<Rightarrow> string \<Rightarrow> url_parts" where
  "url_of host port user password database =
     \<lparr>url_hostname = host, url_port = port, url_username = encodeURIComponent user,
      url_password = encodeURIComponent password, url_pathname = CHR ''/'' # encodeURIComponent database\<rparr>"

text \<open>C34: credentials survive the URL. Whatever texts a user name, a password and a database name are, with whatever
  reserved characters: when they are put into a URL by \<open>encodeURIComponent\<close>, the connections of the queue and of
  the database get them back unchanged. The queue's has no user name or no password where the URL has none; a
  worker's connection retries for ever, a producer's once; the port is the usual one where the URL has none.\<close>

theorem credentials_survive:
  assumes "list_all scalar_value us" and "list_all scalar_value ps" and "list_all scalar_value ds"
    and "parse_url url = Some (url_of host port (utf8_text us) (utf8_text ps) (utf8_text ds))"
    and "env ''DATABASE_URL'' = Some url" and "url \<noteq> []"
  shows "queueConnectionOptions parse_url env role (Some url) =
      Inr \<lparr>qc_host = host, qc_port = (if port = [] then Num 6379 else js_Number port),
           qc_username = (if utf8_text us = [] then None else Some (utf8_text us)),
           qc_password = (if utf8_text ps = [] then None else Some (utf8_text ps)),
           qc_maxRetriesPerRequest = (case role of Worker \<Rightarrow> None | Producer \<Rightarrow> Some 1)\<rparr>
    \<and> resolvePgConnectionOptions parse_url env configured file =
      Inr \<lparr>pg_host = host, pg_port = (if port = [] then Num 5432 else js_Number port), pg_username = utf8_text us,
           pg_password = utf8_text ps, pg_database = utf8_text ds\<rparr>"
proof -
  obtain c cs where "url = c # cs" using assms(6) by (cases url) auto
  then show ?thesis
    using assms(4,5) optional_encoded [OF assms(1)] optional_encoded [OF assms(2)]
      decoded_encoded [OF assms(1)] decoded_encoded [OF assms(2)] decoded_encoded [OF assms(3)]
    by (simp add: queueConnectionOptions_def resolvePgConnectionOptions_def url_of_def port_number_def split: queue_role.split)
qed

text \<open>Without a URL of the database the password is the content of its file, without the white space around it; without
  the file there is no connection. Without a URL of the queue there is no connection to it.\<close>

lemma no_url:
  assumes "env ''DATABASE_URL'' = None \<or> env ''DATABASE_URL'' = Some []"
    and "env ''REDIS_QUEUE_URL'' = None \<or> env ''REDIS_QUEUE_URL'' = Some []"
  shows "resolvePgConnectionOptions parse_url env configured (Some raw) =
      Inr \<lparr>pg_host = DB_HOST configured, pg_port = DB_PORT configured, pg_username = DB_USER configured,
           pg_password = trim raw, pg_database = DB_NAME configured\<rparr>"
    "resolvePgConnectionOptions parse_url env configured None = Inl (PlainError ''ENOENT'')"
    "queueConnectionOptions parse_url env role None = Inl (PlainError ''REDIS_QUEUE_URL'')"
  using assms
  by (auto simp: resolvePgConnectionOptions_def readDbPasswordFromFile_def queueConnectionOptions_def requireUrl_def)

lemma retryStrategy_bounds: "1 \<le> attempts \<Longrightarrow> 200 \<le> retryStrategy attempts \<and> retryStrategy attempts \<le> 2000"
  by (simp add: retryStrategy_def)

theorem credentials_survive_witness:
  "\<exists>q. queueConnectionOptions (\<lambda>_. Some (url_of ''redis'' ''6380'' (utf8_text []) (utf8_text [112, 64, 1108, 8364, 128274]) (utf8_text [])))
      (\<lambda>_. Some ''redis://r'') Worker (Some ''redis://r'') = Inr q
    \<and> qc_password q = Some (utf8_text [112, 64, 1108, 8364, 128274]) \<and> qc_username q = None"
proof -
  let ?url = "url_of ''redis'' ''6380'' (utf8_text []) (utf8_text [112, 64, 1108, 8364, 128274]) (utf8_text [])"
  have "utf8_text [112, 64, 1108, 8364, 128274] \<noteq> []" "utf8_text [] = []" by (simp_all add: utf8_text_def Json.utf8_def)
  then show ?thesis
    using credentials_survive [of "[]" "[112, 64, 1108, 8364, 128274]" "[]" "\<lambda>_. Some ?url" "''redis://r''" "''redis''" "''6380''"
        "\<lambda>_. Some ''redis://r''" Worker]
    by (simp add: scalar_value_def)
qed

end
