(* ===== verification/QueryCounter.thy ===== *)
theory QueryCounter
  imports Prelude
begin

text \<open>
  The counter of tagged queries, \<open>src/lib/query-counter.ts\<close>: a logger that counts, for each of its tags, the queries
  whose text contains it. A tag is counted as often as it is listed.
\<close>

record query_counter =
  qy_tags :: "string list"
  qy_counts :: "string \<rightharpoonup> nat"

text \<open>\<open>query.includes(tag)\<close>.\<close>

definition includes_text :: "string \<Rightarrow> string \<Rightarrow> bool" where
  "includes_text query tag \<longleftrightarrow> list_ex (\<lambda>i. take (length tag) (drop i query) = tag) [0..<length query + 1]"

definition new_counter :: "string list \<Rightarrow> query_counter" where
  "new_counter tags = \<lparr>qy_tags = tags, qy_counts = (\<lambda>_. None)\<rparr>"

definition count_of :: "query_counter \<Rightarrow> string \<Rightarrow> nat" where
  "count_of c tag = (case qy_counts c tag of None \<Rightarrow> 0 | Some n \<Rightarrow> n)"

definition logQuery :: "string \<Rightarrow> query_counter \<Rightarrow> query_counter" where
  "logQuery query c =
     fold (\<lambda>tag c. if includes_text query tag then c\<lparr>qy_counts := (qy_counts c)(tag \<mapsto> count_of c tag + 1)\<rparr> else c) (qy_tags c) c"

definition reset_counts :: "query_counter \<Rightarrow> query_counter" where
  "reset_counts c = c\<lparr>qy_counts := (\<lambda>_. None)\<rparr>"

lemma log_tags [simp]:
  "qy_tags (fold (\<lambda>tag c. if includes_text q tag then c\<lparr>qy_counts := (qy_counts c)(tag \<mapsto> count_of c tag + 1)\<rparr> else c) tags c) = qy_tags c"
  by (induction tags arbitrary: c) simp_all

lemma logged_tags:
  "count_of (fold (\<lambda>tag c. if includes_text q tag then c\<lparr>qy_counts := (qy_counts c)(tag \<mapsto> count_of c tag + 1)\<rparr> else c) tags c) tag
    = count_of c tag + (if includes_text q tag then count_list tags tag else 0)"
  by (induction tags arbitrary: c) (auto simp: count_of_def)

text \<open>The count of a tag since the last reset is the number of queries that contain it.\<close>

lemma counts_since_reset:
  "count_of (fold logQuery queries (reset_counts c)) tag
    = count_list (qy_tags c) tag * length (filter (\<lambda>q. includes_text q tag) queries)"
proof -
  have "qy_tags (fold logQuery qs d) = qy_tags d
      \<and> count_of (fold logQuery qs d) tag = count_of d tag + count_list (qy_tags d) tag * length (filter (\<lambda>q. includes_text q tag) qs)" for qs d
    by (induction qs arbitrary: d) (auto simp: logQuery_def logged_tags)
  then show ?thesis by (simp add: reset_counts_def count_of_def)
qed

end
