(* ===== verification/Spec2Isabelle.thy ===== *)
theory Spec2Isabelle
  imports RateLimit Couriers Gateway Sessions Workers Retry Race Report CardsCorrect Tasks LimitDemo RabbitDemos SessionDemo RbacDemo Environment QueryCounter
begin

text \<open>
  \<^bold>\<open>The marketplace API: a model of the program and what makes it correct.\<close>

  The program is a NestJS service (\<open>src/src\<close>) over PostgreSQL, two Redis instances and RabbitMQ. Customers
  list products, order them (idempotently) and follow the status of their orders over server-sent events or
  a WebSocket; every order leaves an event in an outbox table, couriers carry the events to the broker, and
  a consumer applies the effect of each event once. Logins yield short-lived signed access tokens and
  rotating refresh tokens.

  \<^bold>\<open>Shape of the model.\<close> A function of the source that awaits, mutates and throws is an \<open>action\<close> (theory
  \<open>Prelude\<close>): it takes the state and returns its result or error (\<open>Inl\<close>/\<open>Inr\<close>) and the state after. One
  action is one atomic step of the component whose state it threads; where the code interleaves (couriers,
  consumer deliveries, workers, sockets, waiting for a lock, retried transactions) the model has explicit
  steps. Definitions carry the names of the source; the clock, random identifiers and what
  outside services answer are arguments.

  \<^bold>\<open>Theories\<close>, in the order of their imports:
  \<^item> \<open>Prelude\<close>: actions, invariants of actions (\<open>keeps\<close>, collection \<open>keeps_intro\<close>), list lemmas.
  \<^item> \<open>JsValues\<close>, \<open>Json\<close>: \<open>Number(text)\<close>, \<open>String(n)\<close>, \<open>JSON.stringify\<close>, \<open>JSON.parse\<close> and their round trip.
  \<^item> \<open>Pagination\<close>: \<open>common/pagination.ts\<close>; the locale \<open>keyset_listing\<close> walks a listing page by page and is
    interpreted by the product listing and the order listing.
  \<^item> \<open>Database\<close>: the tables, sequences, constraints and transactions (\<open>entities\<close>, \<open>migrations\<close>); \<open>db_wf\<close> is the
    well-formedness of the tables. \<open>SampleShop\<close> and \<open>Samples\<close> hold the concrete shop of the examples.
  \<^item> \<open>Products\<close>, \<open>Orders\<close>, \<open>OrdersCorrect\<close>: the services of \<open>products\<close> and \<open>orders\<close>; the second order theory
    states what \<open>POST /orders\<close> promises: all or nothing, one order per key, own orders only, complete listings.
  \<^item> \<open>OrderEvents\<close>: \<open>orders/order-events.service.ts\<close> and the event stream of an order.
  \<^item> \<open>Checkout\<close>: \<open>checkout.ts\<close>, stock and balance are conserved and never negative.
  \<^item> \<open>Outbox\<close>, \<open>Relay\<close>, \<open>Couriers\<close>: \<open>messaging/events.ts\<close>, \<open>outbox/outbox.ts\<close>, \<open>outbox/relay.ts\<close>; one courier as a loop,
    many couriers as a step relation, and the refinement between the two.
  \<^item> \<open>Consumer\<close>: \<open>messaging/consumer.ts\<close>, \<open>pg-store.ts\<close>, \<open>dlq.ts\<close>; \<open>Publisher\<close>: \<open>publisher.ts\<close>, \<open>topology.ts\<close>,
    \<open>rabbitmq.config.ts\<close>, \<open>publish-order-placed.ts\<close>. The publisher interprets the locale \<open>broker_sink\<close> that
    the courier relies on, the consumer the locale \<open>inbox\<close>.
  \<^item> \<open>Redis\<close>: keys with expiry and the commands the program issues; \<open>Cache\<close>, \<open>ProductCards\<close>: \<open>cache\<close> and the cached
    product card; \<open>RateLimit\<close>: \<open>ratelimit\<close> and \<open>auth/login-throttle.ts\<close>; \<open>Sessions\<close>: \<open>sessions\<close>.
  \<^item> \<open>RefreshTokens\<close>, \<open>Denylist\<close>, \<open>AccessTokens\<close>, \<open>Authentication\<close>: \<open>auth\<close> and the keys of \<open>config\<close>.
  \<^item> \<open>Gateway\<close>: \<open>orders/orders.gateway.ts\<close>; \<open>Http\<close>: the controllers behind guards and the exception filter,
    one request as one function \<open>respond\<close>; its locale \<open>table_invariant\<close> says what an invariant of the tables
    needs from the services, and carries it through any sequence of requests.
  \<^item> \<open>CardsCorrect\<close>: what a cached card is worth; reading ends and agrees with the tables, ordering refreshes.
  \<^item> \<open>Tasks\<close>: \<open>queue\<close> and \<open>messaging/run-consumer.ts\<close>, the receipts behind a queue that drops duplicate ids, and
    the cleaning of the outbox.
  \<^item> \<open>EndToEnd\<close>: the plant, in which requests, checkouts, couriers, deliveries and the clock interleave (\<open>plant_run\<close>):
    orders take effect exactly once. \<open>Books\<close>: the types of all rows (\<open>books\<close>) as an invariant of the plant.
  \<^item> \<open>Seed\<close>, \<open>Race\<close>, \<open>Report\<close>: \<open>seed.ts\<close>, \<open>demo-race.ts\<close> and \<open>report.ts\<close>; \<open>QueryCounter\<close>: \<open>lib/query-counter.ts\<close>. \<open>Instances\<close>:
    \<open>ratelimit/rate-limit-middleware.ts\<close> and the burst of \<open>demo-ratelimit.ts\<close> over several instances.
  \<^item> \<open>Workers\<close>, \<open>Retry\<close>: the claim of jobs with \<open>SKIP LOCKED\<close> (\<open>demo-workers.ts\<close>) and the retried update
    under snapshot isolation (\<open>demo-retry.ts\<close>), one call among the writes of others and several calls interleaved,
    each with the check of its script.
  \<^item> \<open>Environment\<close>: what the program reads from its environment (\<open>config/env.schema.ts\<close>, \<open>redis/connect.ts\<close>,
    \<open>redis/redis.config.ts\<close>, \<open>database/pg-connection-options.ts\<close>, \<open>outbox/pool.ts\<close>); credentials survive the URL.
  \<^item> \<open>DemoKit\<close>, \<open>OutboxDemos\<close>, \<open>RabbitDemos\<close>, \<open>SessionDemo\<close>, \<open>LimitDemo\<close>, \<open>AuthDemos\<close>, \<open>RbacDemo\<close>: the demonstrations as programs
    over the components above (\<open>lib/demo-output.ts\<close>, \<open>outbox/demo-kit.ts\<close>, \<open>messaging/demo-kit.ts\<close>,
    \<open>lib/auth-demo-kit.ts\<close> and the scripts that use them): each prepares its data, runs, counts in the tables and compares; its theorem says that every
    expectation of the script holds, from any state that the stated hypotheses allow.

  \<^bold>\<open>Bounds.\<close> Integer columns are \<open>int\<close> with the range of \<open>integer\<close> checked where a value becomes a parameter or
  is stored (\<open>int4\<close>). JavaScript numbers are exact rationals with \<open>NaN\<close> and the infinities. Loops that wait
  (\<open>lock_loop\<close>) take fuel, 81 rounds being the waiting budget of 2000 ms at 25 ms each; the waiting loops of the
  demonstrations (\<open>wait_rounds\<close>, \<open>relay_rounds\<close>) are partial functions, proved to return whenever sleeping lets the clock
  advance; every other recursion is structural or has a termination proof. The courier's loop takes the number of
  passes it is granted.

  \<^bold>\<open>Parameters.\<close> \<open>jsonwebtoken\<close>, \<open>node:crypto\<close>, \<open>argon2\<close>, SHA-256, the broker and the availability of Redis are
  parameters; \<open>jwt_contract\<close> states what is assumed of the token library and is shown to be satisfiable; the
  demonstration of the roles also assumes the compact serialisation (\<open>compact\<close>) and that the changed text has no signature
  (\<open>unforged\<close>). Parameters are also
  zod's \<open>safeParse\<close>, the URL parser, and in the demonstrations the deliveries a consumer is handed
  (\<open>hands_out\<close>: those of the queue, in order), the instants of the calls and the durations that are measured.

  \<^bold>\<open>Not modelled.\<close> The construction of modules, connections and processes; SQL and Lua text (their effect is);
  the inside of BullMQ; the demonstrations of cache, queue and query count; rounding of
  double-precision numbers; negative or non-numeric \<open>limit\<close> parameters; the wording of messages in
  Ukrainian, which are English keys here. Strings are sequences of bytes (UTF-8).
\<close>

end
